(* ===== verification/Prelude.thy ===== *)
theory Prelude
  imports Main "HOL-Library.AList" "HOL-Library.Word"
begin

text \<open>
  Shared vocabulary of the development: the type synonyms of the model, Go maps as lists of
  entries with distinct keys, and the generic lemmas the components share.

  A Go map is a list of (key, value) entries without a repeated key. \<open>range\<close> over a map visits
  the entries in the order of the list; Go fixes no order, and every theorem holds for an
  arbitrary list, that is for every order of the visits.
\<close>

type_synonym int64 = "64 word"
type_synonym ('k, 'v) gomap = "('k \<times> 'v) list"

named_theorems gomap_simps \<open>how lookups, sums and well-formedness see an update of a Go map\<close>
named_theorems inv_intros \<open>operations that keep the invariant of their component\<close>

subsection \<open>Go maps\<close>

abbreviation mget :: "('k, 'v) gomap \<Rightarrow> 'k \<Rightarrow> 'v option" where
  "mget m k \<equiv> map_of m k"

abbreviation mput :: "'k \<Rightarrow> 'v \<Rightarrow> ('k, 'v) gomap \<Rightarrow> ('k, 'v) gomap" where
  "mput k v m \<equiv> AList.update k v m"

abbreviation mdel :: "'k \<Rightarrow> ('k, 'v) gomap \<Rightarrow> ('k, 'v) gomap" where
  "mdel k m \<equiv> AList.delete k m"

abbreviation mkeys :: "('k, 'v) gomap \<Rightarrow> 'k list" where
  "mkeys m \<equiv> map fst m"

abbreviation mvals :: "('k, 'v) gomap \<Rightarrow> 'v list" where
  "mvals m \<equiv> map snd m"

text \<open>The zero value Go reads for a missing key.\<close>

abbreviation mget_or :: "'v \<Rightarrow> ('k, 'v) gomap \<Rightarrow> 'k \<Rightarrow> 'v" where
  "mget_or z m k \<equiv> (case map_of m k of None \<Rightarrow> z | Some v \<Rightarrow> v)"

definition mwf :: "('k, 'v) gomap \<Rightarrow> bool" where
  "mwf m \<longleftrightarrow> distinct (mkeys m)"

definition mtotal :: "('k, int) gomap \<Rightarrow> int" where
  "mtotal m = sum_list (mvals m)"

text \<open>\<open>maps.Copy(dst, src)\<close>: every entry of the source is stored in the destination.\<close>

definition maps_Copy :: "('k, 'v) gomap \<Rightarrow> ('k, 'v) gomap \<Rightarrow> ('k, 'v) gomap" where
  "maps_Copy dst src = foldl (\<lambda>d (k, v). mput k v d) dst src"

lemma mget_mput [gomap_simps, simp]: "mget (mput k v m) k' = (if k' = k then Some v else mget m k')"
  by (simp add: update_conv')

lemma mget_mdel [gomap_simps, simp]: "mget (mdel k m) k' = (if k' = k then None else mget m k')"
  by (simp add: delete_conv')

lemma mwf_Nil [gomap_simps, simp]: "mwf []"
  by (simp add: mwf_def)

lemma mwf_single [gomap_simps, simp]: "mwf [e]"
  by (simp add: mwf_def)

lemma mwf_mput [gomap_simps, simp, intro]: "mwf m \<Longrightarrow> mwf (mput k v m)"
  by (simp add: mwf_def distinct_update)

lemma mwf_mdel [gomap_simps, simp, intro]: "mwf m \<Longrightarrow> mwf (mdel k m)"
  by (simp add: mwf_def distinct_delete)

lemma mtotal_Nil [gomap_simps, simp]: "mtotal [] = 0"
  by (simp add: mtotal_def)

lemma mtotal_Cons [gomap_simps, simp]: "mtotal ((k, v) # m) = v + mtotal m"
  by (simp add: mtotal_def)

lemma mtotal_mput [gomap_simps]:
  "mtotal (mput k v m) = mtotal m - mget_or 0 m k + v"
  by (induction m) auto

lemma mdel_notin: "k \<notin> set (mkeys m) \<Longrightarrow> mdel k m = m"
  by (simp add: delete_id)

lemma mtotal_mdel [gomap_simps]:
  "mwf m \<Longrightarrow> mtotal (mdel k m) = mtotal m - mget_or 0 m k"
proof (induction m)
  case Nil
  then show ?case by simp
next
  case (Cons e m)
  obtain a v where e: "e = (a, v)" by (cases e)
  with Cons.prems have wf: "mwf m" and new: "a \<notin> set (mkeys m)"
    by (auto simp: mwf_def)
  show ?case
  proof (cases "a = k")
    case True
    with new have "mdel k m = m" by (simp add: mdel_notin)
    with True e show ?thesis by simp
  next
    case False
    with Cons.IH [OF wf] e show ?thesis by simp
  qed
qed

lemma mget_None_iff: "mget m k = None \<longleftrightarrow> k \<notin> set (mkeys m)"
  by (auto simp: map_of_eq_None_iff)

lemma mget_Some_mem: "mget m k = Some v \<Longrightarrow> (k, v) \<in> set m"
  by (rule map_of_SomeD)

lemma mwf_mget_iff: "mwf m \<Longrightarrow> mget m k = Some v \<longleftrightarrow> (k, v) \<in> set m"
  by (simp add: mwf_def)

lemma mtotal_nonneg: "(\<And>k v. (k, v) \<in> set m \<Longrightarrow> 0 \<le> v) \<Longrightarrow> 0 \<le> mtotal m"
  unfolding mtotal_def by (rule sum_list_nonneg) auto

lemma mget_le_mtotal:
  assumes "\<And>k v. (k, v) \<in> set m \<Longrightarrow> 0 \<le> v" and "mget m k = Some v"
  shows "v \<le> mtotal m"
  using assms
proof (induction m)
  case (Cons e m)
  have "0 \<le> mtotal m" by (rule mtotal_nonneg) (use Cons.prems(1) in auto)
  with Cons show ?case by (cases e) (fastforce split: if_splits)
qed simp

lemma set_mput_subset: "set (mput k v m) \<subseteq> insert (k, v) (set m)"
  by (induction m) auto

lemma set_mdel_subset: "set (mdel k m) \<subseteq> set m"
  by (auto simp: AList.delete_eq)

lemma mput_mem_cases: "(k', v') \<in> set (mput k v m) \<Longrightarrow> (k', v') = (k, v) \<or> (k', v') \<in> set m"
  using set_mput_subset [of k v m] by auto

lemma mdel_mem: "(k', v') \<in> set (mdel k m) \<Longrightarrow> (k', v') \<in> set m"
  using set_mdel_subset [of k m] by auto

lemma mkeys_mput [gomap_simps]: "set (mkeys (mput k v m)) = insert k (set (mkeys m))"
  by (induction m) auto

lemma maps_Copy_Nil [simp]: "maps_Copy d [] = d"
  by (simp add: maps_Copy_def)

lemma maps_Copy_Cons [simp]: "maps_Copy d ((k, v) # s) = maps_Copy (mput k v d) s"
  by (simp add: maps_Copy_def)

lemma mget_maps_Copy [gomap_simps]:
  "mwf s \<Longrightarrow> mget (maps_Copy d s) k = (case mget s k of None \<Rightarrow> mget d k | Some v \<Rightarrow> Some v)"
proof (induction s arbitrary: d)
  case Nil
  then show ?case by simp
next
  case (Cons e s)
  obtain a v where e: "e = (a, v)" by (cases e)
  with Cons.prems have "mwf s" and "mget s a = None"
    by (auto simp: mwf_def mget_None_iff)
  with Cons.IH e show ?case by (auto split: option.splits)
qed

lemma mwf_maps_Copy [gomap_simps, simp]: "mwf d \<Longrightarrow> mwf (maps_Copy d s)"
  by (induction s arbitrary: d) auto

text \<open>The sum of a measure over the values of a map.\<close>

definition msum :: "('v \<Rightarrow> int) \<Rightarrow> ('k, 'v) gomap \<Rightarrow> int" where
  "msum f m = sum_list (map f (mvals m))"

lemma msum_simps [gomap_simps, simp]:
  "msum f [] = 0" "msum f ((k, v) # m) = f v + msum f m"
  by (simp_all add: msum_def)

lemma mtotal_msum: "mtotal m = msum (\<lambda>v. v) m"
  by (simp add: mtotal_def msum_def)

lemma msum_mput [gomap_simps]:
  "msum f (mput k v m) = msum f m - (case mget m k of None \<Rightarrow> 0 | Some v0 \<Rightarrow> f v0) + f v"
  by (induction m) auto

lemma msum_mdel [gomap_simps]:
  "mwf m \<Longrightarrow> msum f (mdel k m) = msum f m - (case mget m k of None \<Rightarrow> 0 | Some v0 \<Rightarrow> f v0)"
proof (induction m)
  case (Cons e m)
  obtain a v where e: "e = (a, v)" by (cases e)
  with Cons.prems have wf: "mwf m" and new: "a \<notin> set (mkeys m)" by (auto simp: mwf_def)
  from new have "mdel a m = m" and "mget m a = None" by (auto simp: mdel_notin mget_None_iff)
  with Cons.IH [OF wf] e show ?case by (cases "a = k") auto
qed simp

lemma msum_nonneg: "(\<And>k v. (k, v) \<in> set m \<Longrightarrow> 0 \<le> f v) \<Longrightarrow> 0 \<le> msum f m"
  unfolding msum_def by (rule sum_list_nonneg) auto

lemma msum_cong: "(\<And>k v. (k, v) \<in> set m \<Longrightarrow> f v = g v) \<Longrightarrow> msum f m = msum g m"
  unfolding msum_def by (rule arg_cong [where f = sum_list]) auto

lemma foldl_msum: "foldl (\<lambda>acc (k, v). acc + f v) z m = z + msum f m"
  by (induction m arbitrary: z) auto

text \<open>The same keys with every value replaced.\<close>

definition map_vals :: "('v \<Rightarrow> 'w) \<Rightarrow> ('k, 'v) gomap \<Rightarrow> ('k, 'w) gomap" where
  "map_vals f m = map (\<lambda>(k, v). (k, f v)) m"

lemma map_vals_simps [gomap_simps, simp]:
  "map_vals f [] = []" "map_vals f ((k, v) # m) = (k, f v) # map_vals f m"
  by (simp_all add: map_vals_def)

lemma mget_map_vals [gomap_simps, simp]: "mget (map_vals f m) k = map_option f (mget m k)"
  by (induction m) auto

lemma mkeys_map_vals [gomap_simps, simp]: "mkeys (map_vals f m) = mkeys m"
  by (induction m) auto

lemma map_vals_mput [gomap_simps, simp]: "map_vals f (mput k v m) = mput k (f v) (map_vals f m)"
  by (induction m) auto

lemma map_vals_mdel [gomap_simps, simp]: "map_vals f (mdel k m) = mdel k (map_vals f m)"
  by (induction m) (auto simp: AList.delete_eq)

lemma map_vals_comp [simp]: "map_vals f (map_vals g m) = map_vals (f \<circ> g) m"
  by (induction m) auto

lemma mkeys_mput_cong: "mkeys m = mkeys m' \<Longrightarrow> mkeys (mput k v m) = mkeys (mput k v' m')"
proof (induction m arbitrary: m')
  case (Cons e m)
  then obtain e' n' where "m' = e' # n'" by (cases m') auto
  with Cons show ?case by (cases e; cases e') auto
qed simp

lemma mkeys_mdel_cong: "mkeys m = mkeys m' \<Longrightarrow> mkeys (mdel k m) = mkeys (mdel k m')"
proof (induction m arbitrary: m')
  case (Cons e m)
  then obtain e' n' where "m' = e' # n'" by (cases m') auto
  with Cons show ?case by (cases e; cases e') (auto simp: AList.delete_eq)
qed simp

lemma mkeys_cong_mget: "mkeys m = mkeys m' \<Longrightarrow> (mget m k = None) = (mget m' k = None)"
  by (simp add: mget_None_iff)

subsection \<open>Results\<close>

text \<open>
  A Go function that returns \<open>(v, err)\<close> is modelled by \<open>error + 'v\<close>: \<open>Inl\<close> is a non-nil
  error, \<open>Inr\<close> the value returned with a nil one.
\<close>

fun is_err :: "'e + 'a \<Rightarrow> bool" where
  "is_err (Inl _) = True"
| "is_err (Inr _) = False"

lemma is_err_iff: "is_err r \<longleftrightarrow> (\<exists>e. r = Inl e)"
  by (cases r) auto

lemma not_is_err_iff: "\<not> is_err r \<longleftrightarrow> (\<exists>v. r = Inr v)"
  by (cases r) auto

lemmas sum_option_splits = sum.splits option.splits if_splits

subsection \<open>Machine integers\<close>

lemma sless_not: "\<not> (a <s b) \<longleftrightarrow> b \<le>s (a :: int64)"
  by (simp add: word_sless_alt word_sle_eq not_less)

lemma sless_trans: "a <s b \<Longrightarrow> b <s c \<Longrightarrow> a <s (c :: int64)"
  by (simp add: word_sless_alt)

subsection \<open>Lists\<close>

lemma sum_list_filter_zero:
  fixes f :: "'a \<Rightarrow> int"
  shows "(\<And>x. x \<in> set xs \<Longrightarrow> \<not> P x \<Longrightarrow> f x = 0) \<Longrightarrow>
    sum_list (map f (filter P xs)) = sum_list (map f xs)"
  by (induction xs) auto

end
