(* ===== verification/GoStd.thy ===== *)
theory GoStd
  imports Prelude "HOL-Library.Char_ord" "HOL-Library.List_Lexorder"
begin

text \<open>
  The parts of the Go standard library the source uses: decimal printing and reading of
  integers (\<open>fmt.Sprintf("%d")\<close>, \<open>strconv.ParseInt\<close>, \<open>big.Int.SetString\<close> in base 10,
  \<open>big.Int.String\<close>), prefixes and splitting of strings, and the JSON text of a
  \<open>map[string]string\<close>. A Go string is a list of bytes, one \<open>char\<close> each.
\<close>

subsection \<open>Decimal numerals\<close>

definition digit_char :: "nat \<Rightarrow> char" where
  "digit_char d = char_of (48 + d)"

definition digit_val :: "char \<Rightarrow> nat option" where
  "digit_val c = (let n = of_char c in if 48 \<le> n \<and> n \<le> 57 then Some (n - 48) else None)"

fun show_nat :: "nat \<Rightarrow> string" where
  "show_nat n = (if n < 10 then [digit_char n] else show_nat (n div 10) @ [digit_char (n mod 10)])"

declare show_nat.simps [simp del]

definition show_int :: "int \<Rightarrow> string" where
  "show_int i = (if i < 0 then CHR ''-'' # show_nat (nat (- i)) else show_nat (nat i))"

fun parse_digits :: "nat \<Rightarrow> string \<Rightarrow> nat option" where
  "parse_digits acc [] = Some acc"
| "parse_digits acc (c # cs) =
     (case digit_val c of None \<Rightarrow> None | Some d \<Rightarrow> parse_digits (acc * 10 + d) cs)"

definition parse_nat :: "string \<Rightarrow> nat option" where
  "parse_nat s = (if s = [] then None else parse_digits 0 s)"

text \<open>\<open>new(big.Int).SetString(s, 10)\<close>: an optional sign, then one or more decimal digits.\<close>

definition big_SetString :: "string \<Rightarrow> int option" where
  "big_SetString s =
     (case s of
        [] \<Rightarrow> None
      | c # cs \<Rightarrow>
          if c = CHR ''-'' then map_option (\<lambda>n. - int n) (parse_nat cs)
          else if c = CHR ''+'' then map_option int (parse_nat cs)
          else map_option int (parse_nat s))"

text \<open>\<open>big.Int.Quo\<close>: the quotient truncated toward zero.\<close>

definition big_Quo :: "int \<Rightarrow> int \<Rightarrow> int" where
  "big_Quo a b = sgn a * sgn b * (\<bar>a\<bar> div \<bar>b\<bar>)"

lemma big_Quo_nonneg: "0 \<le> a \<Longrightarrow> 0 < b \<Longrightarrow> big_Quo a b = a div b"
  by (cases "a = 0") (simp_all add: big_Quo_def)

text \<open>\<open>strconv.ParseInt(s, 10, 64)\<close>: the same numerals, with an error outside the range of
  \<open>int64\<close>.\<close>

definition ParseInt :: "string \<Rightarrow> int64 option" where
  "ParseInt s =
     (case big_SetString s of
        None \<Rightarrow> None
      | Some i \<Rightarrow> if - (2 ^ 63) \<le> i \<and> i < 2 ^ 63 then Some (word_of_int i) else None)"

text \<open>\<open>fmt.Sprintf("%d", n)\<close> of an \<open>int64\<close>.\<close>

definition FormatInt :: "int64 \<Rightarrow> string" where
  "FormatInt n = show_int (sint n)"

lemma digit_val_char [simp]: "d < 10 \<Longrightarrow> digit_val (digit_char d) = Some d"
  by (simp add: digit_val_def digit_char_def Let_def)

lemma parse_digits_append:
  "parse_digits acc (xs @ ys) =
     (case parse_digits acc xs of None \<Rightarrow> None | Some a \<Rightarrow> parse_digits a ys)"
  by (induction xs arbitrary: acc) (auto split: option.splits)

lemma parse_digits_show_nat:
  "parse_digits 0 (show_nat n) = Some n"
proof (induction n rule: show_nat.induct)
  case (1 n)
  show ?case
  proof (cases "n < 10")
    case True
    then show ?thesis by (simp add: show_nat.simps [of n])
  next
    case False
    with 1 have "parse_digits 0 (show_nat (n div 10)) = Some (n div 10)" by simp
    with False show ?thesis
      by (simp add: show_nat.simps [of n] parse_digits_append)
  qed
qed

lemma show_nat_neq_Nil [simp]: "show_nat n \<noteq> []"
  by (simp add: show_nat.simps)

lemma parse_nat_show_nat [simp]: "parse_nat (show_nat n) = Some n"
  by (simp add: parse_nat_def parse_digits_show_nat)

lemma hd_show_nat_digit: "digit_val (hd (show_nat n)) \<noteq> None"
proof (induction n rule: show_nat.induct)
  case (1 n)
  then show ?case
    by (cases "n < 10") (simp_all add: show_nat.simps [of n])
qed

lemma show_nat_not_sign:
  assumes "show_nat n = c # cs"
  shows "c \<noteq> CHR ''-''" and "c \<noteq> CHR ''+''"
proof -
  have "digit_val c \<noteq> None" using hd_show_nat_digit [of n] assms by simp
  moreover have "digit_val CHR ''-'' = None" "digit_val CHR ''+'' = None" by code_simp+
  ultimately show "c \<noteq> CHR ''-''" and "c \<noteq> CHR ''+''" by auto
qed

lemma big_SetString_show_int [simp]: "big_SetString (show_int i) = Some i"
proof (cases "i < 0")
  case True
  then show ?thesis by (simp add: big_SetString_def show_int_def)
next
  case False
  obtain c cs where c: "show_nat (nat i) = c # cs"
    by (cases "show_nat (nat i)") auto
  have "parse_nat (c # cs) = Some (nat i)"
    using parse_nat_show_nat [of "nat i"] c by simp
  with False c show_nat_not_sign [OF c] show ?thesis
    by (simp add: big_SetString_def show_int_def)
qed

lemma ParseInt_FormatInt [simp]: "ParseInt (FormatInt n) = Some n"
proof -
  have "- (2 ^ 63) \<le> sint n \<and> sint n < 2 ^ 63"
    using sint_range_size [of n] by (simp add: word_size)
  then show ?thesis by (simp add: ParseInt_def FormatInt_def)
qed

lemma show_int_inj: "show_int a = show_int b \<longleftrightarrow> a = b"
  using big_SetString_show_int by (metis option.inject)

lemma FormatInt_inj: "FormatInt a = FormatInt b \<longleftrightarrow> a = b"
  using ParseInt_FormatInt by (metis option.inject)

subsection \<open>Strings\<close>

definition HasPrefix :: "string \<Rightarrow> string \<Rightarrow> bool" where
  "HasPrefix s p \<longleftrightarrow> take (length p) s = p"

definition TrimPrefix :: "string \<Rightarrow> string \<Rightarrow> string" where
  "TrimPrefix s p = (if HasPrefix s p then drop (length p) s else s)"

lemma HasPrefix_append [simp]: "HasPrefix (p @ s) p"
  by (simp add: HasPrefix_def)

lemma TrimPrefix_append [simp]: "TrimPrefix (p @ s) p = s"
  by (simp add: TrimPrefix_def)

text \<open>\<open>strings.Split(s, sep)\<close> for a separator of one byte.\<close>

fun Split :: "char \<Rightarrow> string \<Rightarrow> string list" where
  "Split sep [] = [[]]"
| "Split sep (c # cs) =
     (if c = sep then [] # Split sep cs
      else (case Split sep cs of [] \<Rightarrow> [[c]] | w # ws \<Rightarrow> (c # w) # ws))"

lemma Split_no_sep: "sep \<notin> set s \<Longrightarrow> Split sep s = [s]"
  by (induction s) auto

lemma Split_append_sep: "sep \<notin> set s \<Longrightarrow> Split sep (s @ sep # t) = s # Split sep t"
  by (induction s) auto

lemma digit_char_not_colon: "d < 10 \<Longrightarrow> digit_char d \<noteq> CHR '':''"
proof -
  assume "d < 10"
  then have "digit_val (digit_char d) = Some d" by simp
  moreover have "digit_val CHR '':'' = None" by code_simp
  ultimately show ?thesis by auto
qed

lemma colon_notin_show_nat: "CHR '':'' \<notin> set (show_nat n)"
proof (induction n rule: show_nat.induct)
  case (1 n)
  have "digit_char (n mod 10) \<noteq> CHR '':''" by (simp add: digit_char_not_colon)
  then show ?case
    using 1 digit_char_not_colon [of n]
    by (cases "n < 10") (auto simp: show_nat.simps [of n])
qed

lemma colon_notin_FormatInt: "CHR '':'' \<notin> set (FormatInt n)"
  by (simp add: FormatInt_def show_int_def colon_notin_show_nat)

subsection \<open>JSON text of a map of strings\<close>

text \<open>
  \<open>json.Marshal\<close> of a \<open>map[string]string\<close>: the entries sorted by key, each string quoted with
  the escapes of \<open>encoding/json\<close> (HTML escaping on). Bytes from 128 on are copied: the text is
  that of Go for valid UTF-8 without U+2028 and U+2029.
\<close>

definition hex_digit :: "nat \<Rightarrow> char" where
  "hex_digit d = char_of (if d < 10 then 48 + d else 87 + d)"

definition json_escape_char :: "char \<Rightarrow> string" where
  "json_escape_char c =
     (let n = (of_char c :: nat) in
      if n = 34 then [char_of (92::nat), char_of (34::nat)]
      else if n = 92 then [char_of (92::nat), char_of (92::nat)]
      else if n = 8 then char_of (92::nat) # ''b''
      else if n = 12 then char_of (92::nat) # ''f''
      else if n = 10 then char_of (92::nat) # ''n''
      else if n = 13 then char_of (92::nat) # ''r''
      else if n = 9 then char_of (92::nat) # ''t''
      else if n < 32 \<or> n = 60 \<or> n = 62 \<or> n = 38
        then char_of (92::nat) # ''u00'' @ [hex_digit (n div 16), hex_digit (n mod 16)]
      else [c])"

definition json_quote :: "char" where
  "json_quote = char_of (34::nat)"

definition json_string :: "string \<Rightarrow> string" where
  "json_string s = json_quote # concat (map json_escape_char s) @ [json_quote]"

fun json_members :: "(string \<times> string) list \<Rightarrow> string" where
  "json_members [] = []"
| "json_members [(k, v)] = json_string k @ '':'' @ json_string v"
| "json_members ((k, v) # e # es) =
     json_string k @ '':'' @ json_string v @ '','' @ json_members (e # es)"

definition json_map :: "(string, string) gomap \<Rightarrow> string" where
  "json_map m = ''{'' @ json_members (sort_key fst m) @ ''}''"

text \<open>The text of a map depends on its entries only, not on the order they are visited in.\<close>

lemma json_map_order:
  assumes "mwf m" and "mwf m'" and "set m = set m'"
  shows "json_map m = json_map m'"
proof -
  have key: "sort_key fst m = sort_key fst m'"
  proof (rule map_sorted_distinct_set_unique [where f = fst])
    show "inj_on fst (set (sort_key fst m) \<union> set (sort_key fst m'))"
      using assms by (simp add: mwf_def distinct_map)
    show "distinct (map fst (sort_key fst m))" "distinct (map fst (sort_key fst m'))"
      using assms(1,2) by (simp_all add: mwf_def distinct_map)
  qed (simp_all add: assms(3))
  show ?thesis by (simp add: json_map_def key)
qed

end
