(* ===== verification/Schema.thy ===== *)
theory Schema
  imports GoStd
begin

text \<open>
  The protocol's data types (schema/schema.go), the bundle items of the goar library as far as
  the source reads their fields, and the record of functions that come from libraries outside
  the repository (goar, go-ethereum): an argument of every definition that calls one of them.
\<close>

subsection \<open>Tags and bundle items\<close>

datatype tag = Tag (tag_Name: string) (tag_Value: string)

datatype sig_type = ArweaveSignType | EthereumSignType | OtherSignType nat

record bundle_item =
  item_Id :: string
  item_SignatureType :: sig_type
  item_Owner :: string
  item_Target :: string
  item_Tags :: "tag list"
  item_Data :: string

text \<open>
  Functions of goar and go-ethereum. \<open>None\<close> is a non-nil error. \<open>keccak256\<close>,
  \<open>bytes_to_address\<close> and \<open>hex_to_address\<close> stand for \<open>crypto.Keccak256\<close>,
  \<open>common.BytesToAddress(_).String()\<close> and \<open>common.HexToAddress(_).String()\<close>.
\<close>

record extlib =
  owner_to_address :: "string \<Rightarrow> string option"
  base64_decode :: "string \<Rightarrow> string option"
  keccak256 :: "string \<Rightarrow> string"
  bytes_to_address :: "string \<Rightarrow> string"
  is_hex_address :: "string \<Rightarrow> bool"
  hex_to_address :: "string \<Rightarrow> string"
  verify_bundle_item :: "bundle_item \<Rightarrow> bool"

subsection \<open>Protocol constants\<close>

definition DataProtocol :: string where "DataProtocol = ''hymx''"
definition Variant :: string where "Variant = ''v0.1.0''"
definition TypeModule :: string where "TypeModule = ''Module''"
definition TypeProcess :: string where "TypeProcess = ''Process''"
definition TypeMessage :: string where "TypeMessage = ''Message''"
definition TypeAssignment :: string where "TypeAssignment = ''Assignment''"
definition TypeCheckpoint :: string where "TypeCheckpoint = ''Checkpoint''"

lemmas type_defs = TypeModule_def TypeProcess_def TypeMessage_def TypeAssignment_def
  TypeCheckpoint_def

subsection \<open>Structs\<close>

record base =
  base_DataProtocol :: string
  base_Variant :: string
  base_Type :: string

definition DefaultBase :: "string \<Rightarrow> base" where
  "DefaultBase t = \<lparr>base_DataProtocol = DataProtocol, base_Variant = Variant, base_Type = t\<rparr>"

definition zero_base :: base where
  "zero_base = \<lparr>base_DataProtocol = [], base_Variant = [], base_Type = []\<rparr>"

record module =
  mod_Base :: base
  mod_ModuleFormat :: string
  mod_MemoryLimit :: string
  mod_ComputeLimit :: string
  mod_InputEncoding :: string
  mod_OutputEncoding :: string
  mod_Tags :: "tag list"

definition zero_module :: module where
  "zero_module = \<lparr>mod_Base = zero_base, mod_ModuleFormat = [], mod_MemoryLimit = [],
     mod_ComputeLimit = [], mod_InputEncoding = [], mod_OutputEncoding = [], mod_Tags = []\<rparr>"

record process =
  proc_Base :: base
  proc_Module :: string
  proc_Scheduler :: string
  proc_FromProcess :: string
  proc_PushedFor :: string
  proc_Tags :: "tag list"

definition zero_process :: process where
  "zero_process = \<lparr>proc_Base = zero_base, proc_Module = [], proc_Scheduler = [],
     proc_FromProcess = [], proc_PushedFor = [], proc_Tags = []\<rparr>"

record msg =
  msg_Base :: base
  msg_Action :: string
  msg_FromProcess :: string
  msg_PushedFor :: string
  msg_Sequence :: string
  msg_Tags :: "tag list"

definition zero_msg :: msg where
  "zero_msg = \<lparr>msg_Base = zero_base, msg_Action = [], msg_FromProcess = [],
     msg_PushedFor = [], msg_Sequence = [], msg_Tags = []\<rparr>"

record assignment =
  asg_Base :: base
  asg_Process :: string
  asg_Message :: string
  asg_Nonce :: string
  asg_Timestamp :: string

definition zero_assignment :: assignment where
  "zero_assignment = \<lparr>asg_Base = zero_base, asg_Process = [], asg_Message = [],
     asg_Nonce = [], asg_Timestamp = []\<rparr>"

record ckp =
  ckp_Base :: base
  ckp_Process :: string
  ckp_Nonce :: string

text \<open>The instance \<open>utils.Decode\<close> returns as an \<open>interface{}\<close>.\<close>

datatype instance_val =
    IProcess process
  | IMessage msg
  | IAssignment assignment

end
