(* ===== verification/Tags.thy ===== *)
theory Tags
  imports Schema
begin

text \<open>
  The tag codec (utils/tags.go, utils/item.go): lookups, the encoders from structs to tags, the
  decoders back, merging, and the decoding of bundle items. An encoder returns the tags and the
  error together, as the source does; a decoder returns an error or the struct.
\<close>

datatype codec_error =
    DuplicateTag string
  | UnrecognizedSignatureType
  | InvalidType
  | ExtLibError
  | SlicePanic

subsection \<open>Lookups\<close>

definition NonExtractableTags :: "string list" where
  "NonExtractableTags = [''Data-Protocol'', ''Variant'', ''From-Process'', ''From-Module'',
     ''Type'', ''From'', ''Owner'', ''Anchor'', ''Target'', ''Data'', ''Tags'', ''Read-Only'']"

definition isNonExtractableTag :: "string \<Rightarrow> bool" where
  "isNonExtractableTag t \<longleftrightarrow> t \<in> set NonExtractableTags"

fun GetTagsValue :: "string \<Rightarrow> tag list \<Rightarrow> string" where
  "GetTagsValue key [] = []"
| "GetTagsValue key (v # vs) =
     (if tag_Name v = key then tag_Value v else GetTagsValue key vs)"

definition GetTagsValueByDefault :: "string \<Rightarrow> tag list \<Rightarrow> string \<Rightarrow> string" where
  "GetTagsValueByDefault key tags d =
     (let t = GetTagsValue key tags in if t = [] then d else t)"

fun CheckDuplicateTag_loop :: "string list \<Rightarrow> tag list \<Rightarrow> codec_error option" where
  "CheckDuplicateTag_loop seen [] = None"
| "CheckDuplicateTag_loop seen (v # vs) =
     (if tag_Name v \<in> set seen then Some (DuplicateTag (tag_Name v))
      else CheckDuplicateTag_loop (tag_Name v # seen) vs)"

definition CheckDuplicateTag :: "tag list \<Rightarrow> codec_error option" where
  "CheckDuplicateTag tags = CheckDuplicateTag_loop [] tags"

fun TagsToParams_loop :: "(string, string) gomap \<Rightarrow> tag list \<Rightarrow> (string, string) gomap" where
  "TagsToParams_loop m [] = m"
| "TagsToParams_loop m (t # ts) = TagsToParams_loop (mput (tag_Name t) (tag_Value t) m) ts"

definition TagsToParams :: "tag list \<Rightarrow> codec_error + (string, string) gomap" where
  "TagsToParams tags =
     (case CheckDuplicateTag tags of Some e \<Rightarrow> Inl e | None \<Rightarrow> Inr (TagsToParams_loop [] tags))"

text \<open>
  \<open>MergeTags\<close> looks names up in a table of the first list, built once before the loop; \<open>append\<close>
  puts the tags of the second list behind the first.
\<close>

definition MergeTags :: "tag list \<Rightarrow> tag list \<Rightarrow> tag list" where
  "MergeTags tags1 tags2 =
     (let names1 = map tag_Name tags1
      in foldl (\<lambda>out v. if tag_Name v \<in> set names1 then out else out @ [v]) tags1 tags2)"

subsection \<open>Encoders\<close>

definition BaseToTags :: "base \<Rightarrow> tag list" where
  "BaseToTags b = [Tag ''Data-Protocol'' (base_DataProtocol b), Tag ''Variant'' (base_Variant b),
     Tag ''Type'' (base_Type b)]"

definition opt_tag :: "string \<Rightarrow> string \<Rightarrow> tag list" where
  "opt_tag n v = (if v \<noteq> [] then [Tag n v] else [])"

definition ModuleToTags :: "module \<Rightarrow> tag list \<times> codec_error option" where
  "ModuleToTags m =
     (let tags = BaseToTags (mod_Base m) @
            [Tag ''Module-Format'' (mod_ModuleFormat m), Tag ''Memory-Limit'' (mod_MemoryLimit m),
             Tag ''Compute-Limit'' (mod_ComputeLimit m)] @
            opt_tag ''Input-Encoding'' (mod_InputEncoding m) @
            opt_tag ''Output-Encoding'' (mod_OutputEncoding m) @
            mod_Tags m
      in (tags, CheckDuplicateTag tags))"

definition ProcessToTags :: "process \<Rightarrow> tag list \<times> codec_error option" where
  "ProcessToTags p =
     (let tags = BaseToTags (proc_Base p) @
            [Tag ''Module'' (proc_Module p), Tag ''Scheduler'' (proc_Scheduler p)] @
            proc_Tags p @
            opt_tag ''From-Process'' (proc_FromProcess p) @
            opt_tag ''Pushed-For'' (proc_PushedFor p)
      in (tags, CheckDuplicateTag tags))"

definition MessageToTags :: "msg \<Rightarrow> tag list \<times> codec_error option" where
  "MessageToTags m =
     (let tags = BaseToTags (msg_Base m) @
            opt_tag ''Action'' (msg_Action m) @
            opt_tag ''From-Process'' (msg_FromProcess m) @
            opt_tag ''PushedFor'' (msg_PushedFor m) @
            opt_tag ''Sequence'' (msg_Sequence m) @
            msg_Tags m
      in (tags, CheckDuplicateTag tags))"

definition AssignmentToTags :: "assignment \<Rightarrow> tag list \<times> codec_error option" where
  "AssignmentToTags a =
     (let tags = BaseToTags (asg_Base a) @
            [Tag ''Process'' (asg_Process a), Tag ''Message'' (asg_Message a),
             Tag ''Nonce'' (asg_Nonce a), Tag ''Timestamp'' (asg_Timestamp a)]
      in (tags, CheckDuplicateTag tags))"

definition CheckpointToTags :: "ckp \<Rightarrow> tag list \<times> codec_error option" where
  "CheckpointToTags c =
     (let tags = BaseToTags (ckp_Base c) @
            [Tag ''Process'' (ckp_Process c), Tag ''Nonce'' (ckp_Nonce c)]
      in (tags, CheckDuplicateTag tags))"

subsection \<open>Decoders\<close>

fun TagsToBase_loop :: "base \<Rightarrow> tag list \<Rightarrow> base" where
  "TagsToBase_loop b [] = b"
| "TagsToBase_loop b (v # vs) = TagsToBase_loop
     (if tag_Name v = ''Data-Protocol'' then b\<lparr>base_DataProtocol := tag_Value v\<rparr>
      else if tag_Name v = ''Variant'' then b\<lparr>base_Variant := tag_Value v\<rparr>
      else if tag_Name v = ''Type'' then b\<lparr>base_Type := tag_Value v\<rparr>
      else b) vs"

definition TagsToBase :: "tag list \<Rightarrow> base" where
  "TagsToBase tags = TagsToBase_loop zero_base tags"

definition is_base_tag :: "string \<Rightarrow> bool" where
  "is_base_tag n \<longleftrightarrow> n = ''Data-Protocol'' \<or> n = ''Variant'' \<or> n = ''Type''"

fun TagsToModule_loop :: "module \<Rightarrow> tag list \<Rightarrow> module" where
  "TagsToModule_loop m [] = m"
| "TagsToModule_loop m (v # vs) = TagsToModule_loop
     (if tag_Name v = ''Module-Format'' then m\<lparr>mod_ModuleFormat := tag_Value v\<rparr>
      else if tag_Name v = ''Memory-Limit'' then m\<lparr>mod_MemoryLimit := tag_Value v\<rparr>
      else if tag_Name v = ''Compute-Limit'' then m\<lparr>mod_ComputeLimit := tag_Value v\<rparr>
      else if is_base_tag (tag_Name v) then m
      else if tag_Value v \<noteq> [] then m\<lparr>mod_Tags := mod_Tags m @ [v]\<rparr>
      else m) vs"

definition TagsToModule :: "tag list \<Rightarrow> codec_error + module" where
  "TagsToModule tags =
     (case CheckDuplicateTag tags of
        Some e \<Rightarrow> Inl e
      | None \<Rightarrow> Inr (TagsToModule_loop (zero_module\<lparr>mod_Base := TagsToBase tags\<rparr>) tags))"

fun TagsToProcess_loop :: "process \<Rightarrow> tag list \<Rightarrow> process" where
  "TagsToProcess_loop p [] = p"
| "TagsToProcess_loop p (v # vs) = TagsToProcess_loop
     (if tag_Name v = ''Module'' then p\<lparr>proc_Module := tag_Value v\<rparr>
      else if tag_Name v = ''Scheduler'' then p\<lparr>proc_Scheduler := tag_Value v\<rparr>
      else if tag_Name v = ''From-Process'' then p\<lparr>proc_FromProcess := tag_Value v\<rparr>
      else if tag_Name v = ''Pushed-For'' then p\<lparr>proc_PushedFor := tag_Value v\<rparr>
      else if is_base_tag (tag_Name v) then p
      else if isNonExtractableTag (tag_Name v) then p
      else if tag_Value v \<noteq> [] then p\<lparr>proc_Tags := proc_Tags p @ [v]\<rparr>
      else p) vs"

definition TagsToProcess :: "tag list \<Rightarrow> codec_error + process" where
  "TagsToProcess tags =
     (case CheckDuplicateTag tags of
        Some e \<Rightarrow> Inl e
      | None \<Rightarrow> Inr (TagsToProcess_loop (zero_process\<lparr>proc_Base := TagsToBase tags\<rparr>) tags))"

fun TagsToMessage_loop :: "msg \<Rightarrow> tag list \<Rightarrow> msg" where
  "TagsToMessage_loop m [] = m"
| "TagsToMessage_loop m (v # vs) = TagsToMessage_loop
     (if tag_Name v = ''Action'' then m\<lparr>msg_Action := tag_Value v\<rparr>
      else if tag_Name v = ''From-Process'' then m\<lparr>msg_FromProcess := tag_Value v\<rparr>
      else if tag_Name v = ''Pushed-For'' then m\<lparr>msg_PushedFor := tag_Value v\<rparr>
      else if tag_Name v = ''Sequence'' then m\<lparr>msg_Sequence := tag_Value v\<rparr>
      else if is_base_tag (tag_Name v) then m
      else if isNonExtractableTag (tag_Name v) then m
      else if tag_Value v \<noteq> [] then m\<lparr>msg_Tags := msg_Tags m @ [v]\<rparr>
      else m) vs"

definition TagsToMessage :: "tag list \<Rightarrow> codec_error + msg" where
  "TagsToMessage tags =
     (case CheckDuplicateTag tags of
        Some e \<Rightarrow> Inl e
      | None \<Rightarrow> Inr (TagsToMessage_loop (zero_msg\<lparr>msg_Base := TagsToBase tags\<rparr>) tags))"

fun TagsToAssignment_loop :: "assignment \<Rightarrow> tag list \<Rightarrow> assignment" where
  "TagsToAssignment_loop a [] = a"
| "TagsToAssignment_loop a (v # vs) = TagsToAssignment_loop
     (if tag_Name v = ''Process'' then a\<lparr>asg_Process := tag_Value v\<rparr>
      else if tag_Name v = ''Message'' then a\<lparr>asg_Message := tag_Value v\<rparr>
      else if tag_Name v = ''Nonce'' then a\<lparr>asg_Nonce := tag_Value v\<rparr>
      else if tag_Name v = ''Timestamp'' then a\<lparr>asg_Timestamp := tag_Value v\<rparr>
      else a) vs"

definition TagsToAssignment :: "tag list \<Rightarrow> codec_error + assignment" where
  "TagsToAssignment tags =
     (case CheckDuplicateTag tags of
        Some e \<Rightarrow> Inl e
      | None \<Rightarrow> Inr (TagsToAssignment_loop (zero_assignment\<lparr>asg_Base := TagsToBase tags\<rparr>) tags))"

fun TagsToCheckpoint_loop :: "assignment \<Rightarrow> tag list \<Rightarrow> assignment" where
  "TagsToCheckpoint_loop c [] = c"
| "TagsToCheckpoint_loop c (v # vs) = TagsToCheckpoint_loop
     (if tag_Name v = ''Process'' then c\<lparr>asg_Process := tag_Value v\<rparr>
      else if tag_Name v = ''Nonce'' then c\<lparr>asg_Nonce := tag_Value v\<rparr>
      else c) vs"

definition TagsToCheckpoint :: "tag list \<Rightarrow> codec_error + assignment" where
  "TagsToCheckpoint tags =
     (case CheckDuplicateTag tags of
        Some e \<Rightarrow> Inl e
      | None \<Rightarrow> Inr (TagsToCheckpoint_loop (zero_assignment\<lparr>asg_Base := TagsToBase tags\<rparr>) tags))"

subsection \<open>Bundle items\<close>

definition GetType :: "bundle_item \<Rightarrow> string" where
  "GetType item = GetTagsValue ''Type'' (item_Tags item)"

definition DecodeItemToProcess :: "bundle_item \<Rightarrow> codec_error + process" where
  "DecodeItemToProcess item = TagsToProcess (item_Tags item)"

definition DecodeItemToMessage :: "extlib \<Rightarrow> bundle_item \<Rightarrow> codec_error + msg" where
  "DecodeItemToMessage lib item =
     (case TagsToMessage (item_Tags item) of
        Inl e \<Rightarrow> Inl e
      | Inr m \<Rightarrow>
         (case base64_decode lib (item_Data item) of
            None \<Rightarrow> Inl ExtLibError
          | Some data \<Rightarrow> Inr (m\<lparr>msg_Tags := msg_Tags m @ [Tag ''Data'' data]\<rparr>)))"

definition DecodeItemToAssignment :: "bundle_item \<Rightarrow> codec_error + assignment" where
  "DecodeItemToAssignment item = TagsToAssignment (item_Tags item)"

text \<open>The account that signed an item. Slicing \<open>pubBytes[1:]\<close> of an empty key panics.\<close>

definition item_signer :: "extlib \<Rightarrow> bundle_item \<Rightarrow> codec_error + string" where
  "item_signer lib item =
     (case item_SignatureType item of
        ArweaveSignType \<Rightarrow>
          (case owner_to_address lib (item_Owner item) of
             None \<Rightarrow> Inl ExtLibError | Some a \<Rightarrow> Inr a)
      | EthereumSignType \<Rightarrow>
          (case base64_decode lib (item_Owner item) of
             None \<Rightarrow> Inl ExtLibError
           | Some [] \<Rightarrow> Inl SlicePanic
           | Some (b # pub) \<Rightarrow> Inr (bytes_to_address lib (drop 12 (keccak256 lib pub))))
      | OtherSignType _ \<Rightarrow> Inl UnrecognizedSignatureType)"

text \<open>\<open>Decode\<close> returns (pid, accid, fromProcess, instance).\<close>

definition Decode ::
  "extlib \<Rightarrow> bundle_item \<Rightarrow> codec_error + string \<times> string \<times> string \<times> instance_val" where
  "Decode lib item =
     (case item_signer lib item of
        Inl e \<Rightarrow> Inl e
      | Inr accid \<Rightarrow>
         (if GetType item = TypeProcess then
            (case DecodeItemToProcess item of
               Inl e \<Rightarrow> Inl e
             | Inr p \<Rightarrow> Inr (item_Id item, accid, proc_FromProcess p, IProcess p))
          else if GetType item = TypeMessage then
            (case DecodeItemToMessage lib item of
               Inl e \<Rightarrow> Inl e
             | Inr m \<Rightarrow> Inr (item_Target item, accid, msg_FromProcess m, IMessage m))
          else if GetType item = TypeAssignment then
            (case DecodeItemToAssignment item of
               Inl e \<Rightarrow> Inl e
             | Inr a \<Rightarrow> Inr (asg_Process a, accid, [], IAssignment a))
          else Inl InvalidType))"

subsection \<open>Names and lookups\<close>

abbreviation tag_names :: "tag list \<Rightarrow> string list" where
  "tag_names ts \<equiv> map tag_Name ts"

abbreviation tag_entry :: "tag \<Rightarrow> string \<times> string" where
  "tag_entry t \<equiv> (tag_Name t, tag_Value t)"

lemma CheckDuplicateTag_loop_None:
  "CheckDuplicateTag_loop seen ts = None \<longleftrightarrow>
     distinct (tag_names ts) \<and> set seen \<inter> set (tag_names ts) = {}"
  by (induction seen ts rule: CheckDuplicateTag_loop.induct) auto

lemma CheckDuplicateTag_None [simp]: "CheckDuplicateTag ts = None \<longleftrightarrow> distinct (tag_names ts)"
  by (simp add: CheckDuplicateTag_def CheckDuplicateTag_loop_None)

lemma CheckDuplicateTag_loop_Some:
  "CheckDuplicateTag_loop seen ts = Some e \<Longrightarrow>
     \<exists>pre v post. ts = pre @ v # post \<and> e = DuplicateTag (tag_Name v) \<and>
       distinct (tag_names pre) \<and> set seen \<inter> set (tag_names pre) = {} \<and>
       tag_Name v \<in> set seen \<union> set (tag_names pre)"
proof (induction seen ts rule: CheckDuplicateTag_loop.induct)
  case (1 seen)
  then show ?case by simp
next
  case (2 seen v vs)
  show ?case
  proof (cases "tag_Name v \<in> set seen")
    case True
    with "2.prems" have "v # vs = [] @ v # vs \<and> e = DuplicateTag (tag_Name v)" by simp
    with True show ?thesis by fastforce
  next
    case False
    with 2 obtain pre w post where "vs = pre @ w # post" "e = DuplicateTag (tag_Name w)"
      "distinct (tag_names pre)" "set (tag_Name v # seen) \<inter> set (tag_names pre) = {}"
      "tag_Name w \<in> set (tag_Name v # seen) \<union> set (tag_names pre)"
      by auto
    with False have "v # vs = (v # pre) @ w # post \<and> distinct (tag_names (v # pre)) \<and>
        set seen \<inter> set (tag_names (v # pre)) = {} \<and>
        tag_Name w \<in> set seen \<union> set (tag_names (v # pre))"
      by auto
    with \<open>e = DuplicateTag (tag_Name w)\<close> show ?thesis by blast
  qed
qed

lemma CheckDuplicateTag_Some:
  "CheckDuplicateTag ts = Some e \<Longrightarrow>
     \<exists>pre v post. ts = pre @ v # post \<and> e = DuplicateTag (tag_Name v) \<and>
       distinct (tag_names pre) \<and> tag_Name v \<in> set (tag_names pre)"
  using CheckDuplicateTag_loop_Some [of "[]" ts e] by (auto simp: CheckDuplicateTag_def)

lemma GetTagsValue_map_of: "GetTagsValue k ts = mget_or [] (map tag_entry ts) k"
  by (induction ts) auto

lemma GetTagsValue_notin [simp]: "k \<notin> set (tag_names ts) \<Longrightarrow> GetTagsValue k ts = []"
  by (induction ts) auto

lemma GetTagsValue_append:
  "GetTagsValue k (xs @ ys) =
     (if k \<in> set (tag_names xs) then GetTagsValue k xs else GetTagsValue k ys)"
  by (induction xs) auto

lemma GetTagsValue_filter:
  "P k \<Longrightarrow> GetTagsValue k (filter (\<lambda>v. P (tag_Name v)) ts) = GetTagsValue k ts"
  by (induction ts) auto

lemma map_of_entries_notin: "k \<notin> set (tag_names ts) \<Longrightarrow> mget (map tag_entry ts) k = None"
  by (induction ts) auto

lemma TagsToParams_loop_lookup:
  "distinct (tag_names ts) \<Longrightarrow>
     mget (TagsToParams_loop m ts) k =
       (case mget (map tag_entry ts) k of None \<Rightarrow> mget m k | Some v \<Rightarrow> Some v)"
  by (induction m ts rule: TagsToParams_loop.induct)
     (auto simp: map_of_entries_notin split: option.splits)

lemma TagsToParams_loop_wf: "mwf m \<Longrightarrow> mwf (TagsToParams_loop m ts)"
  by (induction m ts rule: TagsToParams_loop.induct) auto

lemma TagsToParams_ok:
  assumes "distinct (tag_names ts)"
  shows "\<exists>ps. TagsToParams ts = Inr ps \<and> mwf ps \<and> (\<forall>k. mget ps k = mget (map tag_entry ts) k)"
  using assms CheckDuplicateTag_None [of ts] TagsToParams_loop_lookup [of ts "[]"]
    TagsToParams_loop_wf [of "[]" ts]
  by (simp add: TagsToParams_def del: CheckDuplicateTag_None split: option.splits)

subsection \<open>Merging\<close>

lemma foldl_filter_append:
  "foldl (\<lambda>out v. if P v then out else out @ [v]) xs ys = xs @ filter (\<lambda>v. \<not> P v) ys"
  by (induction ys arbitrary: xs) auto

lemma MergeTags_eq:
  "MergeTags t1 t2 = t1 @ filter (\<lambda>v. tag_Name v \<notin> set (tag_names t1)) t2"
  by (simp add: MergeTags_def foldl_filter_append)

lemma GetTagsValue_MergeTags [simp]:
  "GetTagsValue k (MergeTags t1 t2) =
     (if k \<in> set (tag_names t1) then GetTagsValue k t1 else GetTagsValue k t2)"
  by (simp add: MergeTags_eq GetTagsValue_append
      GetTagsValue_filter [where P = "\<lambda>n. n \<notin> tag_Name ` set t1"])

lemma distinct_names_filter: "distinct (tag_names ts) \<Longrightarrow> distinct (tag_names (filter P ts))"
  by (induction ts) auto

lemma distinct_MergeTags:
  "distinct (tag_names t1) \<Longrightarrow> distinct (tag_names t2) \<Longrightarrow> distinct (tag_names (MergeTags t1 t2))"
  by (auto simp: MergeTags_eq distinct_names_filter image_iff)

lemma names_MergeTags [simp]:
  "set (tag_names (MergeTags t1 t2)) = set (tag_names t1) \<union> set (tag_names t2)"
  by (auto simp: MergeTags_eq)

subsection \<open>Decoder loops\<close>

lemmas reserved_defs = is_base_tag_def isNonExtractableTag_def NonExtractableTags_def

definition proc_keeps :: "tag \<Rightarrow> bool" where
  "proc_keeps t \<longleftrightarrow> tag_Value t \<noteq> [] \<and>
     tag_Name t \<notin> set ([''Module'', ''Scheduler'', ''Pushed-For''] @ NonExtractableTags)"

definition msg_keeps :: "tag \<Rightarrow> bool" where
  "msg_keeps t \<longleftrightarrow> tag_Value t \<noteq> [] \<and>
     tag_Name t \<notin> set ([''Action'', ''Pushed-For'', ''Sequence''] @ NonExtractableTags)"

definition mod_keeps :: "tag \<Rightarrow> bool" where
  "mod_keeps t \<longleftrightarrow> tag_Value t \<noteq> [] \<and> \<not> is_base_tag (tag_Name t) \<and>
     tag_Name t \<notin> {''Module-Format'', ''Memory-Limit'', ''Compute-Limit''}"

lemma TagsToBase_loop_append:
  "TagsToBase_loop b (xs @ ys) = TagsToBase_loop (TagsToBase_loop b xs) ys"
  by (induction b xs rule: TagsToBase_loop.induct) auto

lemma TagsToBase_loop_other:
  "(\<And>t. t \<in> set ts \<Longrightarrow> \<not> is_base_tag (tag_Name t)) \<Longrightarrow> TagsToBase_loop b ts = b"
  by (induction b ts rule: TagsToBase_loop.induct) (auto simp: is_base_tag_def)

lemma TagsToBase_prefix:
  assumes "\<And>t. t \<in> set ts \<Longrightarrow> \<not> is_base_tag (tag_Name t)"
  shows "TagsToBase (BaseToTags b @ ts) = b"
proof -
  have "TagsToBase_loop zero_base (BaseToTags b) = b" by (simp add: BaseToTags_def)
  with TagsToBase_loop_other [OF assms] show ?thesis
    by (simp add: TagsToBase_def TagsToBase_loop_append)
qed

lemma TagsToProcess_loop_append:
  "TagsToProcess_loop p (xs @ ys) = TagsToProcess_loop (TagsToProcess_loop p xs) ys"
  by (induction p xs rule: TagsToProcess_loop.induct) auto

lemma TagsToProcess_loop_keeps:
  "(\<And>t. t \<in> set ts \<Longrightarrow> proc_keeps t) \<Longrightarrow>
     TagsToProcess_loop p ts = p\<lparr>proc_Tags := proc_Tags p @ ts\<rparr>"
  by (induction p ts rule: TagsToProcess_loop.induct) (auto simp: proc_keeps_def reserved_defs)

lemma TagsToProcess_loop_Tags:
  "proc_Tags (TagsToProcess_loop p ts) = proc_Tags p @ filter proc_keeps ts"
  by (induction p ts rule: TagsToProcess_loop.induct) (auto simp: proc_keeps_def reserved_defs)

lemma TagsToMessage_loop_append:
  "TagsToMessage_loop m (xs @ ys) = TagsToMessage_loop (TagsToMessage_loop m xs) ys"
  by (induction m xs rule: TagsToMessage_loop.induct) auto

lemma TagsToMessage_loop_keeps:
  "(\<And>t. t \<in> set ts \<Longrightarrow> msg_keeps t) \<Longrightarrow>
     TagsToMessage_loop m ts = m\<lparr>msg_Tags := msg_Tags m @ ts\<rparr>"
  by (induction m ts rule: TagsToMessage_loop.induct) (auto simp: msg_keeps_def reserved_defs)

lemma TagsToMessage_loop_Tags:
  "msg_Tags (TagsToMessage_loop m ts) = msg_Tags m @ filter msg_keeps ts"
  by (induction m ts rule: TagsToMessage_loop.induct) (auto simp: msg_keeps_def reserved_defs)

lemma TagsToModule_loop_append:
  "TagsToModule_loop m (xs @ ys) = TagsToModule_loop (TagsToModule_loop m xs) ys"
  by (induction m xs rule: TagsToModule_loop.induct) auto

lemma TagsToModule_loop_keeps:
  "(\<And>t. t \<in> set ts \<Longrightarrow> mod_keeps t) \<Longrightarrow>
     TagsToModule_loop m ts = m\<lparr>mod_Tags := mod_Tags m @ ts\<rparr>"
  by (induction m ts rule: TagsToModule_loop.induct) (auto simp: mod_keeps_def)

subsection \<open>Round trips\<close>

definition proc_tags_ok :: "tag list \<Rightarrow> bool" where
  "proc_tags_ok ts \<longleftrightarrow> distinct (tag_names ts) \<and> list_all proc_keeps ts"

definition msg_tags_ok :: "tag list \<Rightarrow> bool" where
  "msg_tags_ok ts \<longleftrightarrow> distinct (tag_names ts) \<and> ''PushedFor'' \<notin> set (tag_names ts) \<and>
     list_all msg_keeps ts"

lemma opt_tag_names_eq: "tag_names (opt_tag n v) = (if v = [] then [] else [n])"
  by (simp add: opt_tag_def)

lemma proc_keeps_notin:
  "list_all proc_keeps ts \<Longrightarrow>
     n \<in> set ([''Module'', ''Scheduler'', ''Pushed-For''] @ NonExtractableTags) \<Longrightarrow>
     n \<notin> set (tag_names ts)"
  by (auto simp: list_all_iff proc_keeps_def)

lemma msg_keeps_notin:
  "list_all msg_keeps ts \<Longrightarrow>
     n \<in> set ([''Action'', ''Pushed-For'', ''Sequence''] @ NonExtractableTags) \<Longrightarrow>
     n \<notin> set (tag_names ts)"
  by (auto simp: list_all_iff msg_keeps_def)

lemma ProcessToTags_names_distinct:
  assumes "proc_tags_ok (proc_Tags p)"
  shows "distinct (tag_names (fst (ProcessToTags p)))"
proof -
  have keep: "list_all proc_keeps (proc_Tags p)" and dist: "distinct (tag_names (proc_Tags p))"
    using assms by (simp_all add: proc_tags_ok_def)
  show ?thesis
    using dist keep [THEN proc_keeps_notin]
    by (simp add: ProcessToTags_def Let_def BaseToTags_def opt_tag_names_eq NonExtractableTags_def)
qed

lemma ProcessToTags_decode_loop:
  assumes "proc_tags_ok (proc_Tags p)"
  shows "TagsToProcess_loop (zero_process\<lparr>proc_Base := b\<rparr>) (fst (ProcessToTags p)) = p\<lparr>proc_Base := b\<rparr>"
proof -
  have keep: "\<And>t. t \<in> set (proc_Tags p) \<Longrightarrow> proc_keeps t"
    using assms by (simp add: proc_tags_ok_def list_all_iff)
  show ?thesis
    by (simp add: ProcessToTags_def Let_def BaseToTags_def opt_tag_def TagsToProcess_loop_append
        TagsToProcess_loop_keeps keep reserved_defs zero_process_def)
qed

lemma ProcessToTags_base:
  assumes "proc_tags_ok (proc_Tags p)"
  shows "TagsToBase (fst (ProcessToTags p)) = proc_Base p"
proof -
  have "\<And>t. t \<in> set (proc_Tags p) \<Longrightarrow> \<not> is_base_tag (tag_Name t)"
    using assms by (auto simp: proc_tags_ok_def list_all_iff proc_keeps_def reserved_defs)
  then show ?thesis
    unfolding ProcessToTags_def Let_def fst_conv
    by (intro TagsToBase_prefix) (auto simp: opt_tag_def is_base_tag_def split: if_splits)
qed

text \<open>a process whose extension tags have distinct, unreserved names and non-empty values
  is encoded without an error, and decoding the tags gives the process back.\<close>

theorem ProcessToTags_roundtrip:
  assumes "proc_tags_ok (proc_Tags p)"
  shows "snd (ProcessToTags p) = None \<and> TagsToProcess (fst (ProcessToTags p)) = Inr p"
proof -
  have dist: "distinct (tag_names (fst (ProcessToTags p)))"
    by (rule ProcessToTags_names_distinct [OF assms])
  then have err: "CheckDuplicateTag (fst (ProcessToTags p)) = None" by simp
  then have "snd (ProcessToTags p) = None" by (simp add: ProcessToTags_def Let_def)
  moreover have "TagsToProcess (fst (ProcessToTags p)) = Inr p"
    unfolding TagsToProcess_def err
    by (simp add: ProcessToTags_base [OF assms] ProcessToTags_decode_loop [OF assms])
  ultimately show ?thesis ..
qed

theorem ProcessToTags_roundtrip_witness:
  "let p = \<lparr>proc_Base = DefaultBase TypeProcess, proc_Module = ''m'', proc_Scheduler = ''s'',
      proc_FromProcess = ''f'', proc_PushedFor = [], proc_Tags = [Tag ''X-Ref'' ''1'']\<rparr>
   in proc_tags_ok (proc_Tags p) \<and> TagsToProcess (fst (ProcessToTags p)) = Inr p"
proof -
  let ?p = "\<lparr>proc_Base = DefaultBase TypeProcess, proc_Module = ''m'', proc_Scheduler = ''s'',
      proc_FromProcess = ''f'', proc_PushedFor = [], proc_Tags = [Tag ''X-Ref'' ''1'']\<rparr>"
  have ok: "proc_tags_ok (proc_Tags ?p)"
    by (simp add: proc_tags_ok_def proc_keeps_def NonExtractableTags_def)
  show ?thesis using ok ProcessToTags_roundtrip [OF ok] by (simp add: Let_def)
qed

lemma MessageToTags_names_distinct:
  assumes "msg_tags_ok (msg_Tags m)"
  shows "distinct (tag_names (fst (MessageToTags m)))"
proof -
  have keep: "list_all msg_keeps (msg_Tags m)" and dist: "distinct (tag_names (msg_Tags m))"
    and pf: "''PushedFor'' \<notin> set (tag_names (msg_Tags m))"
    using assms by (simp_all add: msg_tags_ok_def)
  show ?thesis
    using dist pf keep [THEN msg_keeps_notin]
    by (simp add: MessageToTags_def Let_def BaseToTags_def opt_tag_names_eq NonExtractableTags_def)
qed

lemma MessageToTags_decode_loop:
  assumes "msg_tags_ok (msg_Tags m)"
  shows "TagsToMessage_loop (zero_msg\<lparr>msg_Base := b\<rparr>) (fst (MessageToTags m)) =
    m\<lparr>msg_Base := b, msg_PushedFor := [],
      msg_Tags := opt_tag ''PushedFor'' (msg_PushedFor m) @ msg_Tags m\<rparr>"
proof -
  have keep: "\<And>t. t \<in> set (msg_Tags m) \<Longrightarrow> msg_keeps t"
    using assms by (simp add: msg_tags_ok_def list_all_iff)
  show ?thesis
    by (simp add: MessageToTags_def Let_def BaseToTags_def opt_tag_def TagsToMessage_loop_append
        TagsToMessage_loop_keeps keep reserved_defs zero_msg_def)
qed

lemma MessageToTags_base:
  assumes "msg_tags_ok (msg_Tags m)"
  shows "TagsToBase (fst (MessageToTags m)) = msg_Base m"
proof -
  have "\<And>t. t \<in> set (msg_Tags m) \<Longrightarrow> \<not> is_base_tag (tag_Name t)"
    using assms by (auto simp: msg_tags_ok_def list_all_iff msg_keeps_def reserved_defs)
  then show ?thesis
    unfolding MessageToTags_def Let_def fst_conv
    by (intro TagsToBase_prefix) (auto simp: opt_tag_def is_base_tag_def split: if_splits)
qed

text \<open>decoding an encoded message gives the message back except for its \<open>PushedFor\<close>: the
  encoder writes the tag \<open>PushedFor\<close> and the decoder reads \<open>Pushed-For\<close>, so a non-empty value
  leaves the field and comes back as an extension tag.\<close>

theorem MessageToTags_decode:
  assumes "msg_tags_ok (msg_Tags m)"
  shows "snd (MessageToTags m) = None \<and>
    TagsToMessage (fst (MessageToTags m)) =
      Inr (m\<lparr>msg_PushedFor := [], msg_Tags := opt_tag ''PushedFor'' (msg_PushedFor m) @ msg_Tags m\<rparr>)"
proof -
  have dist: "distinct (tag_names (fst (MessageToTags m)))"
    by (rule MessageToTags_names_distinct [OF assms])
  then have err: "CheckDuplicateTag (fst (MessageToTags m)) = None" by simp
  then have "snd (MessageToTags m) = None" by (simp add: MessageToTags_def Let_def)
  moreover have "TagsToMessage (fst (MessageToTags m)) =
      Inr (m\<lparr>msg_PushedFor := [], msg_Tags := opt_tag ''PushedFor'' (msg_PushedFor m) @ msg_Tags m\<rparr>)"
    unfolding TagsToMessage_def err
    by (simp add: MessageToTags_base [OF assms] MessageToTags_decode_loop [OF assms])
  ultimately show ?thesis ..
qed

theorem MessageToTags_decode_witness:
  "let m = \<lparr>msg_Base = DefaultBase TypeMessage, msg_Action = ''Transfer'', msg_FromProcess = [],
      msg_PushedFor = ''p1'', msg_Sequence = ''7'', msg_Tags = [Tag ''Quantity'' ''5'']\<rparr>
   in msg_tags_ok (msg_Tags m) \<and>
      (\<exists>m'. TagsToMessage (fst (MessageToTags m)) = Inr m' \<and> msg_PushedFor m' = [] \<and>
         msg_Tags m' = [Tag ''PushedFor'' ''p1'', Tag ''Quantity'' ''5''])"
proof -
  let ?m = "\<lparr>msg_Base = DefaultBase TypeMessage, msg_Action = ''Transfer'', msg_FromProcess = [],
      msg_PushedFor = ''p1'', msg_Sequence = ''7'', msg_Tags = [Tag ''Quantity'' ''5'']\<rparr>"
  have ok: "msg_tags_ok (msg_Tags ?m)"
    by (simp add: msg_tags_ok_def msg_keeps_def NonExtractableTags_def)
  show ?thesis using ok MessageToTags_decode [OF ok] by (simp add: Let_def opt_tag_def)
qed

text \<open>Every assignment is encoded without an error and decoded back to itself.\<close>

theorem AssignmentToTags_roundtrip:
  "snd (AssignmentToTags a) = None \<and> TagsToAssignment (fst (AssignmentToTags a)) = Inr a"
  by (cases a, cases "asg_Base a")
     (auto simp: AssignmentToTags_def TagsToAssignment_def Let_def BaseToTags_def TagsToBase_def
        zero_base_def zero_assignment_def CheckDuplicateTag_def)

text \<open>Merging keeps the first list in front, gives its values precedence for every name,
  and does not introduce a repeated name when neither list has one.\<close>

theorem MergeTags_precedence:
  "(\<forall>k. GetTagsValue k (MergeTags t1 t2) =
      (if k \<in> set (tag_names t1) then GetTagsValue k t1 else GetTagsValue k t2)) \<and>
   take (length t1) (MergeTags t1 t2) = t1 \<and>
   (distinct (tag_names t1) \<and> distinct (tag_names t2) \<longrightarrow> distinct (tag_names (MergeTags t1 t2)))"
  using distinct_MergeTags [of t1 t2] by (auto simp: MergeTags_eq GetTagsValue_append
      GetTagsValue_filter [where P = "\<lambda>n. n \<notin> tag_Name ` set t1"])

theorem MergeTags_precedence_witness:
  "distinct (tag_names (MergeTags [Tag ''Sequence'' ''3''] [Tag ''Sequence'' ''9'', Tag ''A'' ''b''])) \<and>
   GetTagsValue ''Sequence'' (MergeTags [Tag ''Sequence'' ''3''] [Tag ''Sequence'' ''9'', Tag ''A'' ''b'']) = ''3''"
  using MergeTags_precedence [of "[Tag ''Sequence'' ''3'']" "[Tag ''Sequence'' ''9'', Tag ''A'' ''b'']"]
  by simp

text \<open>A name that repeats in the second list and is absent from the first is kept twice: the
  result of a merge can have duplicate names.\<close>

theorem MergeTags_keeps_duplicates:
  assumes "n \<notin> set (tag_names t1)"
  shows "MergeTags t1 [Tag n u, Tag n v] = t1 @ [Tag n u, Tag n v] \<and>
    CheckDuplicateTag (MergeTags t1 [Tag n u, Tag n v]) \<noteq> None"
  using assms by (simp add: MergeTags_eq)

theorem MergeTags_keeps_duplicates_witness:
  "CheckDuplicateTag (MergeTags [Tag ''A'' ''1''] [Tag ''B'' ''2'', Tag ''B'' ''3'']) \<noteq> None"
  using MergeTags_keeps_duplicates [of "''B''" "[Tag ''A'' ''1'']" "''2''" "''3''"] by simp

lemma TagsToMessage_loop_names_distinct:
  "distinct (tag_names ts) \<Longrightarrow> distinct (tag_names (msg_Tags (TagsToMessage_loop (zero_msg\<lparr>msg_Base := b\<rparr>) ts)))"
  by (simp add: TagsToMessage_loop_Tags zero_msg_def distinct_names_filter)

lemma DecodeItemToMessage_tags_distinct:
  assumes "DecodeItemToMessage lib item = Inr m"
  shows "distinct (tag_names (msg_Tags m)) \<and>
    (\<exists>data. base64_decode lib (item_Data item) = Some data \<and> mget (map tag_entry (msg_Tags m)) ''Data'' = Some data)"
proof -
  from assms obtain m0 data where m0: "TagsToMessage (item_Tags item) = Inr m0"
    and data: "base64_decode lib (item_Data item) = Some data"
    and m: "m = m0\<lparr>msg_Tags := msg_Tags m0 @ [Tag ''Data'' data]\<rparr>"
    by (auto simp: DecodeItemToMessage_def split: sum.splits option.splits)
  from m0 have dist: "distinct (tag_names (item_Tags item))"
    and tags: "msg_Tags m0 = filter msg_keeps (item_Tags item)"
    by (auto simp: TagsToMessage_def TagsToMessage_loop_Tags zero_msg_def split: option.splits)
  have "''Data'' \<notin> set (tag_names (msg_Tags m0))"
    by (auto simp: tags msg_keeps_def NonExtractableTags_def)
  with dist data show ?thesis
    by (auto simp: m tags distinct_names_filter map_of_entries_notin map_add_def)
qed

text \<open>for a message item that decodes, turning its tags into parameters never fails: the
  decoder has rejected repeated names and dropped a \<open>Data\<close> tag, so the parameter \<open>Data\<close> is the
  decoded payload of the item and the process is the item's target.\<close>

theorem Decode_message_params:
  assumes "Decode lib item = Inr (pid, accid, fp, IMessage m)"
  shows "pid = item_Target item \<and> fp = msg_FromProcess m \<and>
    (\<exists>ps. TagsToParams (msg_Tags m) = Inr ps \<and>
       mget ps ''Data'' = base64_decode lib (item_Data item) \<and> mget ps ''Data'' \<noteq> None)"
proof -
  from assms have dec: "DecodeItemToMessage lib item = Inr m"
    and "pid = item_Target item" "fp = msg_FromProcess m"
    by (auto simp: Decode_def split: sum.splits if_splits)
  with DecodeItemToMessage_tags_distinct [OF dec] TagsToParams_ok [of "msg_Tags m"]
  show ?thesis by fastforce
qed

definition demo_lib :: extlib where
  "demo_lib = \<lparr>owner_to_address = (\<lambda>o'. if o' = [] then None else Some o'), base64_decode = Some,
     keccak256 = (\<lambda>s. s), bytes_to_address = (\<lambda>b. ''0x'' @ b),
     is_hex_address = (\<lambda>s. HasPrefix s ''0x''), hex_to_address = (\<lambda>s. s),
     verify_bundle_item = (\<lambda>_. True)\<rparr>"

theorem Decode_message_params_witness:
  "\<exists>m ps. Decode demo_lib \<lparr>item_Id = ''i'', item_SignatureType = ArweaveSignType, item_Owner = ''w'',
       item_Target = ''p'', item_Tags = [Tag ''Type'' ''Message'', Tag ''Data'' ''x''], item_Data = ''payload''\<rparr>
     = Inr (''p'', ''w'', [], IMessage m) \<and> TagsToParams (msg_Tags m) = Inr ps \<and>
     mget ps ''Data'' = Some ''payload''"
proof -
  let ?item = "\<lparr>item_Id = ''i'', item_SignatureType = ArweaveSignType, item_Owner = ''w'',
       item_Target = ''p'', item_Tags = [Tag ''Type'' ''Message'', Tag ''Data'' ''x''], item_Data = ''payload''\<rparr>"
  obtain m where dec: "Decode demo_lib ?item = Inr (''p'', ''w'', [], IMessage m)"
    by (simp add: Decode_def item_signer_def demo_lib_def GetType_def type_defs
        DecodeItemToMessage_def TagsToMessage_def CheckDuplicateTag_def zero_msg_def reserved_defs
        TagsToBase_def)
  show ?thesis using dec Decode_message_params [OF dec] by (auto simp: demo_lib_def)
qed

end
