(* ===== verification/VmSchema.thy ===== *)
theory VmSchema
  imports Tags
begin

text \<open>
  The types a virtual machine exchanges with its manager (vmm/schema/schema.go), the account
  check of vmm/utils/accid.go, and the node record with its decoder (vmm/core/registry/schema,
  vmm/core/registry/utils). Sentinel errors of the two core machines are constructors of one
  datatype; \<open>NilDereference\<close> is the panic of a nil pointer.
\<close>

subsection \<open>Execution modes, messages and results\<close>

text \<open>\<open>ExecMode\<close> is a string type in the source; \<open>ExecModeUnset\<close> is its zero value.\<close>

datatype exec_mode = ExecModeApply | ExecModeReplay | ExecModeDryRun | ExecModeUnset

record meta =
  meta_ItemId :: string
  meta_Pid :: string
  meta_AccId :: string
  meta_Action :: string
  meta_FromProcess :: string
  meta_PushedFor :: string
  meta_Sequence :: int64
  meta_Nonce :: int64
  meta_Timestamp :: int64
  meta_Params :: "(string, string) gomap"
  meta_Data :: string
  meta_Mode :: exec_mode
  meta_RecoveryMaxNonce :: int64

definition zero_meta :: meta where
  "zero_meta = \<lparr>meta_ItemId = [], meta_Pid = [], meta_AccId = [], meta_Action = [],
     meta_FromProcess = [], meta_PushedFor = [], meta_Sequence = 0, meta_Nonce = 0,
     meta_Timestamp = 0, meta_Params = [], meta_Data = [], meta_Mode = ExecModeUnset,
     meta_RecoveryMaxNonce = 0\<rparr>"

record res_message =
  rm_Sequence :: string
  rm_Target :: string
  rm_Data :: string
  rm_Tags :: "tag list"

record res_spawn =
  rs_Sequence :: string
  rs_Data :: string
  rs_Tags :: "tag list"

datatype vm_err =
    ErrMissingRecipient | ErrMissingQuantity | ErrInvalidQuantityFormat | ErrNegativeQuantity
  | ErrInsufficientBalance | ErrInsufficientStake | ErrTokenUnauthorized | ErrTokenInvalidAction
  | ErrRegUnauthorized | ErrRegMissingParam | ErrNodeNotFound | ErrRegInvalidAction
  | ErrInvalidAccid
  | NilDereference
  | ErrText string

fun vm_err_text :: "vm_err \<Rightarrow> string" where
  "vm_err_text ErrMissingRecipient = ''err_missing_recipient''"
| "vm_err_text ErrMissingQuantity = ''err_missing_quantity''"
| "vm_err_text ErrInvalidQuantityFormat = ''err_invalid_quantity_format''"
| "vm_err_text ErrNegativeQuantity = ''err_negative_quantity''"
| "vm_err_text ErrInsufficientBalance = ''err_insufficient_balance''"
| "vm_err_text ErrInsufficientStake = ''err_insufficient_stake''"
| "vm_err_text ErrTokenUnauthorized = ''err_unauthorized''"
| "vm_err_text ErrTokenInvalidAction = ''err_invalid_action''"
| "vm_err_text ErrRegUnauthorized = ''err_unauthorized''"
| "vm_err_text ErrRegMissingParam = ''err_missing_param''"
| "vm_err_text ErrNodeNotFound = ''err_node_not_found''"
| "vm_err_text ErrRegInvalidAction = ''err_invalid_action''"
| "vm_err_text ErrInvalidAccid = ''err_invalid_accid''"
| "vm_err_text NilDereference = ''runtime error: invalid memory address or nil pointer dereference''"
| "vm_err_text (ErrText s) = s"

text \<open>\<open>Assignments\<close> and \<open>Output\<close> (of type \<open>interface{}\<close>) are opaque values the manager copies:
  they are texts here.\<close>

record vm_result =
  res_Messages :: "res_message list"
  res_Spawns :: "res_spawn list"
  res_Assignments :: "string list"
  res_Output :: string
  res_Data :: string
  res_Cache :: "(string, string) gomap"
  res_Error :: "vm_err option"

definition zero_result :: vm_result where
  "zero_result = \<lparr>res_Messages = [], res_Spawns = [], res_Assignments = [], res_Output = [],
     res_Data = [], res_Cache = [], res_Error = None\<rparr>"

text \<open>A handler returns (res, err); \<open>Apply\<close> stores a non-nil error in the zero result the
  handler left.\<close>

definition apply_result :: "vm_err + vm_result \<Rightarrow> vm_result" where
  "apply_result r = (case r of Inl e \<Rightarrow> zero_result\<lparr>res_Error := Some e\<rparr> | Inr res \<Rightarrow> res)"

subsection \<open>Account identifiers\<close>

datatype account_type = AccountTypeAR | AccountTypeEVM

definition isArAddress :: "extlib \<Rightarrow> string \<Rightarrow> bool" where
  "isArAddress lib addr \<longleftrightarrow> length addr = 43 \<and> base64_decode lib addr \<noteq> None"

definition IDCheck :: "extlib \<Rightarrow> string \<Rightarrow> vm_err + account_type \<times> string" where
  "IDCheck lib i =
     (if is_hex_address lib i then Inr (AccountTypeEVM, hex_to_address lib i)
      else if isArAddress lib i then Inr (AccountTypeAR, i)
      else Inl ErrInvalidAccid)"

text \<open>The account id \<open>IDCheck\<close> returns when its error is ignored.\<close>

definition IDCheck_accid :: "extlib \<Rightarrow> string \<Rightarrow> string" where
  "IDCheck_accid lib i = (case IDCheck lib i of Inl _ \<Rightarrow> [] | Inr (_, a) \<Rightarrow> a)"

subsection \<open>Nodes\<close>

record node =
  node_AccId :: string
  node_Name :: string
  node_Role :: string
  node_Desc :: string
  node_URL :: string

definition RoleMain :: string where "RoleMain = ''main''"
definition RoleCandidate :: string where "RoleCandidate = ''candidate''"
definition RoleFollower :: string where "RoleFollower = ''follower''"

lemmas role_defs = RoleMain_def RoleCandidate_def RoleFollower_def

definition registry_Decode :: "extlib \<Rightarrow> (string, string) gomap \<Rightarrow> vm_err + node" where
  "registry_Decode lib params =
     (case mget params ''Acc-Id'' of
        None \<Rightarrow> Inl ErrRegMissingParam
      | Some a \<Rightarrow>
     (case IDCheck lib a of
        Inl e \<Rightarrow> Inl e
      | Inr (_, accid) \<Rightarrow>
     (case mget params ''Name'' of
        None \<Rightarrow> Inl ErrRegMissingParam
      | Some name \<Rightarrow>
     (case mget params ''Desc'' of
        None \<Rightarrow> Inl ErrRegMissingParam
      | Some desc \<Rightarrow>
     (case mget params ''URL'' of
        None \<Rightarrow> Inl ErrRegMissingParam
      | Some url \<Rightarrow>
          Inr \<lparr>node_AccId = accid, node_Name = name, node_Role = RoleFollower,
               node_Desc = desc, node_URL = url\<rparr>)))))"

lemma registry_Decode_follower:
  "registry_Decode lib params = Inr n \<Longrightarrow> node_Role n = RoleFollower"
  by (auto simp: registry_Decode_def split: sum_option_splits prod.splits)

lemma registry_Decode_AccId:
  "registry_Decode lib params = Inr n \<Longrightarrow>
     \<exists>a t. mget params ''Acc-Id'' = Some a \<and> IDCheck lib a = Inr (t, node_AccId n)"
  by (auto simp: registry_Decode_def split: sum_option_splits prod.splits)

lemma apply_result_Error:
  "(case r of Inr res \<Rightarrow> res_Error res = None | Inl _ \<Rightarrow> True) \<Longrightarrow>
     res_Error (apply_result r) = (case r of Inl e \<Rightarrow> Some e | Inr _ \<Rightarrow> None)"
  by (cases r) (auto simp: apply_result_def)

end
