(* ===== verification/TokenDb.thy ===== *)
theory TokenDb
  imports VmSchema
begin

text \<open>
  The in-memory store of the core token (db/cache/token.go, the provider of the interface IDB of
  vmm/core/token/schema) and the contract its client relies on: two books of accounts, balances
  and stakes, each updated one entry at a time.
\<close>

subsection \<open>State and operations\<close>

record token_info =
  ti_Id :: string
  ti_Name :: string
  ti_Ticker :: string
  ti_Decimals :: int64
  ti_Logo :: string
  ti_MinAmount :: int

record token_db =
  tdb_info :: token_info
  tdb_totalSupply :: int
  tdb_balances :: "(string, int) gomap"
  tdb_stakes :: "(string, int) gomap"
  tdb_initialCache :: bool

definition NewTokenDb ::
  "token_info \<Rightarrow> (string, int) gomap \<Rightarrow> (string, int) gomap \<Rightarrow> token_db" where
  "NewTokenDb info bals stakes =
     \<lparr>tdb_info = info,
      tdb_totalSupply = foldl (+) (foldl (+) 0 (mvals bals)) (mvals stakes),
      tdb_balances = bals, tdb_stakes = stakes, tdb_initialCache = False\<rparr>"

definition db_BalanceOf :: "token_db \<Rightarrow> string \<Rightarrow> int" where
  "db_BalanceOf db a = (case mget (tdb_balances db) a of Some b \<Rightarrow> b | None \<Rightarrow> 0)"

definition db_StakeOf :: "token_db \<Rightarrow> string \<Rightarrow> int" where
  "db_StakeOf db a = (case mget (tdb_stakes db) a of Some b \<Rightarrow> b | None \<Rightarrow> 0)"

text \<open>The amount is a pointer: \<open>None\<close> is nil.\<close>

definition db_UpdateBalance :: "token_db \<Rightarrow> string \<Rightarrow> int option \<Rightarrow> token_db \<times> vm_err option" where
  "db_UpdateBalance db a amount =
     (case amount of
        None \<Rightarrow> (db, Some (ErrText ''amount is nil''))
      | Some v \<Rightarrow> (db\<lparr>tdb_balances := mput a v (tdb_balances db)\<rparr>, None))"

definition db_UpdateStake :: "token_db \<Rightarrow> string \<Rightarrow> int option \<Rightarrow> token_db \<times> vm_err option" where
  "db_UpdateStake db a amount =
     (case amount of
        None \<Rightarrow> (db, Some (ErrText ''amount is nil''))
      | Some v \<Rightarrow> (db\<lparr>tdb_stakes := mput a v (tdb_stakes db)\<rparr>, None))"

definition db_CacheInitialed :: "token_db \<Rightarrow> token_db" where
  "db_CacheInitialed db = db\<lparr>tdb_initialCache := True\<rparr>"

text \<open>
  A checkpoint is the JSON text of a snapshot; the text is modelled by the snapshot it encodes,
  which \<open>json.Unmarshal\<close> gives back.
\<close>

record token_snapshot =
  tsn_Id :: string
  tsn_Name :: string
  tsn_Ticker :: string
  tsn_Decimals :: int64
  tsn_Logo :: string
  tsn_MinAmount :: int
  tsn_TotalSupply :: int
  tsn_Balances :: "(string, int) gomap"
  tsn_Stakes :: "(string, int) gomap"
  tsn_InitialCache :: bool

definition TokenDb_Checkpoint :: "token_db \<Rightarrow> token_snapshot" where
  "TokenDb_Checkpoint db =
     \<lparr>tsn_Id = ti_Id (tdb_info db), tsn_Name = ti_Name (tdb_info db),
      tsn_Ticker = ti_Ticker (tdb_info db), tsn_Decimals = ti_Decimals (tdb_info db),
      tsn_Logo = ti_Logo (tdb_info db), tsn_MinAmount = ti_MinAmount (tdb_info db),
      tsn_TotalSupply = tdb_totalSupply db, tsn_Balances = tdb_balances db,
      tsn_Stakes = tdb_stakes db, tsn_InitialCache = tdb_initialCache db\<rparr>"

definition TokenDb_Restore :: "token_db \<Rightarrow> token_snapshot \<Rightarrow> token_db" where
  "TokenDb_Restore db sp =
     db\<lparr>tdb_totalSupply := tsn_TotalSupply sp, tdb_balances := tsn_Balances sp,
        tdb_stakes := tsn_Stakes sp, tdb_initialCache := tsn_InitialCache sp,
        tdb_info := \<lparr>ti_Id = tsn_Id sp, ti_Name = tsn_Name sp, ti_Ticker = tsn_Ticker sp,
          ti_Decimals = tsn_Decimals sp, ti_Logo = tsn_Logo sp, ti_MinAmount = tsn_MinAmount sp\<rparr>\<rparr>"

subsection \<open>The contract of a book of accounts\<close>

locale account_book =
  fixes bal :: "'s \<Rightarrow> string \<Rightarrow> int"
    and upd :: "'s \<Rightarrow> string \<Rightarrow> int \<Rightarrow> 's"
    and total :: "'s \<Rightarrow> int"
    and wf :: "'s \<Rightarrow> bool"
  assumes bal_upd: "bal (upd s a v) b = (if b = a then v else bal s b)"
    and total_upd: "wf s \<Longrightarrow> total (upd s a v) = total s - bal s a + v"
    and wf_upd: "wf s \<Longrightarrow> wf (upd s a v)"
begin

lemma total_credit: "wf s \<Longrightarrow> total (upd s a (bal s a + d)) = total s + d"
  by (simp add: total_upd)

lemma total_debit: "wf s \<Longrightarrow> total (upd s a (bal s a - d)) = total s - d"
  by (simp add: total_upd)

lemma debit_credit_total:
  "wf s \<Longrightarrow>
     total (upd (upd s a (bal s a - d)) b (bal (upd s a (bal s a - d)) b + d)) = total s"
  by (simp add: total_upd wf_upd)

lemma debit_credit_bal:
  "bal (upd (upd s a (bal s a - d)) b (bal (upd s a (bal s a - d)) b + d)) c =
     (if a = b then bal s c
      else if c = a then bal s a - d else if c = b then bal s b + d else bal s c)"
  by (auto simp: bal_upd)

lemma nonneg_upd: "(\<And>b. 0 \<le> bal s b) \<Longrightarrow> 0 \<le> v \<Longrightarrow> 0 \<le> bal (upd s a v) b"
  by (simp add: bal_upd)

end

text \<open>Two books that do not see each other's updates.\<close>

locale token_books =
  bals: account_book bal updb totb wf + stks: account_book stk upds tots wf
  for bal :: "'s \<Rightarrow> string \<Rightarrow> int" and updb totb wf stk upds tots +
  assumes stk_updb: "stk (updb s a v) = stk s"
    and tots_updb: "tots (updb s a v) = tots s"
    and bal_upds: "bal (upds s a v) = bal s"
    and totb_upds: "totb (upds s a v) = totb s"
begin

lemma to_stake_total:
  "wf s \<Longrightarrow> totb (upds (updb s a (bal s a - d)) a (stk s a + d)) +
     tots (upds (updb s a (bal s a - d)) a (stk s a + d)) = totb s + tots s"
  by (simp add: bals.total_upd stks.total_upd bals.wf_upd stk_updb tots_updb totb_upds)

lemma from_stake_total:
  "wf s \<Longrightarrow> totb (updb (upds s a (stk s a - d)) a (bal s a + d)) +
     tots (updb (upds s a (stk s a - d)) a (bal s a + d)) = totb s + tots s"
  by (simp add: bals.total_upd stks.total_upd stks.wf_upd bal_upds totb_upds tots_updb)

end

subsection \<open>The store keeps the contract\<close>

definition tdb_wf :: "token_db \<Rightarrow> bool" where
  "tdb_wf db \<longleftrightarrow> mwf (tdb_balances db) \<and> mwf (tdb_stakes db)"

definition set_balance :: "token_db \<Rightarrow> string \<Rightarrow> int \<Rightarrow> token_db" where
  "set_balance db a v = db\<lparr>tdb_balances := mput a v (tdb_balances db)\<rparr>"

definition set_stake :: "token_db \<Rightarrow> string \<Rightarrow> int \<Rightarrow> token_db" where
  "set_stake db a v = db\<lparr>tdb_stakes := mput a v (tdb_stakes db)\<rparr>"

interpretation books: token_books db_BalanceOf set_balance "\<lambda>db. mtotal (tdb_balances db)" tdb_wf
  db_StakeOf set_stake "\<lambda>db. mtotal (tdb_stakes db)"
  by unfold_locales
     (auto simp: db_BalanceOf_def db_StakeOf_def tdb_wf_def set_balance_def set_stake_def
        mtotal_mput split: option.splits)

lemma db_UpdateBalance_Some [simp]: "db_UpdateBalance db a (Some v) = (set_balance db a v, None)"
  by (simp add: db_UpdateBalance_def set_balance_def)

lemma db_UpdateStake_Some [simp]: "db_UpdateStake db a (Some v) = (set_stake db a v, None)"
  by (simp add: db_UpdateStake_def set_stake_def)

lemma set_fields [simp]:
  "tdb_info (set_balance db a v) = tdb_info db" "tdb_info (set_stake db a v) = tdb_info db"
  "tdb_totalSupply (set_balance db a v) = tdb_totalSupply db"
  "tdb_totalSupply (set_stake db a v) = tdb_totalSupply db"
  by (simp_all add: set_balance_def set_stake_def)

lemma foldl_plus_sum_list: "foldl (+) z xs = z + sum_list (xs :: int list)"
  by (induction xs arbitrary: z) auto

lemma NewTokenDb_total:
  "tdb_totalSupply (NewTokenDb info bals stakes) = mtotal bals + mtotal stakes"
  by (simp add: NewTokenDb_def foldl_plus_sum_list mtotal_def)

lemma TokenDb_Restore_Checkpoint: "TokenDb_Restore db' (TokenDb_Checkpoint db) = db"
  by (simp add: TokenDb_Restore_def TokenDb_Checkpoint_def)

end
