(* ===== verification/TokenVm.thy ===== *)
theory TokenVm
  imports TokenDb
begin

text \<open>
  The core token machine (vmm/core/token): the internal moves between accounts, the caches it
  publishes, one handler per action, and \<open>Apply\<close>. A handler returns the new store and either an
  error or the result.
\<close>

subsection \<open>Internal operations (internal.go)\<close>

definition Token_add :: "token_db \<Rightarrow> string \<Rightarrow> int \<Rightarrow> token_db \<times> vm_err option" where
  "Token_add db accId amount =
     (if amount = 0 then (db, None)
      else db_UpdateBalance db accId (Some (db_BalanceOf db accId + amount)))"

definition Token_sub :: "token_db \<Rightarrow> string \<Rightarrow> int \<Rightarrow> token_db \<times> vm_err option" where
  "Token_sub db accId amount =
     (if amount = 0 then (db, None)
      else if db_BalanceOf db accId < amount then (db, Some ErrInsufficientBalance)
      else db_UpdateBalance db accId (Some (db_BalanceOf db accId - amount)))"

definition Token_sadd :: "token_db \<Rightarrow> string \<Rightarrow> int \<Rightarrow> token_db \<times> vm_err option" where
  "Token_sadd db accId amount =
     (if amount = 0 then (db, None)
      else db_UpdateStake db accId (Some (db_StakeOf db accId + amount)))"

definition Token_ssub :: "token_db \<Rightarrow> string \<Rightarrow> int \<Rightarrow> token_db \<times> vm_err option" where
  "Token_ssub db accId amount =
     (if amount = 0 then (db, None)
      else if db_StakeOf db accId < amount then (db, Some ErrInsufficientStake)
      else db_UpdateStake db accId (Some (db_StakeOf db accId - amount)))"

definition Token_transfer ::
  "extlib \<Rightarrow> token_db \<Rightarrow> string \<Rightarrow> string \<Rightarrow> int \<Rightarrow> token_db \<times> vm_err option" where
  "Token_transfer lib db from to amount =
     (case IDCheck lib to of
        Inl e \<Rightarrow> (db, Some e)
      | Inr (_, to') \<Rightarrow>
         (case Token_sub db from amount of
            (db1, Some e) \<Rightarrow> (db1, Some e)
          | (db1, None) \<Rightarrow> Token_add db1 to' amount))"

definition Token_stake :: "token_db \<Rightarrow> string \<Rightarrow> int \<Rightarrow> token_db \<times> vm_err option" where
  "Token_stake db from amount =
     (case Token_sub db from amount of
        (db1, Some e) \<Rightarrow> (db1, Some e)
      | (db1, None) \<Rightarrow> Token_sadd db1 from amount)"

definition Token_unstake :: "token_db \<Rightarrow> string \<Rightarrow> int \<Rightarrow> token_db \<times> vm_err option" where
  "Token_unstake db from amount =
     (case Token_ssub db from amount of
        (db1, Some e) \<Rightarrow> (db1, Some e)
      | (db1, None) \<Rightarrow> Token_add db1 from amount)"

subsection \<open>Caches (cache.go)\<close>

definition cacheTokenInfo :: "token_db \<Rightarrow> (string, string) gomap" where
  "cacheTokenInfo db =
     (let info = tdb_info db
      in [(''info'', json_map
            [(''Name'', ti_Name info), (''Ticker'', ti_Ticker info), (''Logo'', ti_Logo info),
             (''Denomination'', FormatInt (ti_Decimals info)),
             (''Decimals'', FormatInt (ti_Decimals info))])])"

definition cacheChangeBalance :: "extlib \<Rightarrow> token_db \<Rightarrow> string list \<Rightarrow> (string, string) gomap" where
  "cacheChangeBalance lib db accs =
     foldl (\<lambda>c acc. let accid = IDCheck_accid lib acc
                    in mput (''balances:'' @ accid) (show_int (db_BalanceOf db accid)) c) [] accs"

definition cacheTotalSupply :: "token_db \<Rightarrow> (string, string) gomap" where
  "cacheTotalSupply db = [(''total-supply'', show_int (tdb_totalSupply db))]"

definition cacheChangeStake :: "token_db \<Rightarrow> string \<Rightarrow> (string, string) gomap" where
  "cacheChangeStake db accId = [(''stakes:'' @ accId, show_int (db_StakeOf db accId))]"

definition initCache :: "token_db \<Rightarrow> token_db \<times> (string, string) gomap" where
  "initCache db =
     (if tdb_initialCache db then (db, [])
      else
        let cb = map (\<lambda>(k, v). (''balances:'' @ k, show_int v)) (tdb_balances db);
            cs = map (\<lambda>(k, v). (''stakes:'' @ k, show_int v)) (tdb_stakes db);
            cache = maps_Copy (maps_Copy (maps_Copy (maps_Copy [] cb) cs) (cacheTotalSupply db))
                      (cacheTokenInfo db)
        in (db_CacheInitialed db, cache))"

subsection \<open>Handlers (handle.go)\<close>

definition parseAndCheckAmount :: "string \<Rightarrow> vm_err + int" where
  "parseAndCheckAmount qty =
     (case big_SetString qty of
        None \<Rightarrow> Inl ErrInvalidQuantityFormat
      | Some amt \<Rightarrow> if amt < 0 then Inl ErrNegativeQuantity else Inr amt)"

definition reply :: "string \<Rightarrow> string \<Rightarrow> tag list \<Rightarrow> res_message" where
  "reply target data tags =
     \<lparr>rm_Sequence = [], rm_Target = target, rm_Data = data, rm_Tags = tags\<rparr>"

definition handleInfo :: "token_db \<Rightarrow> string \<Rightarrow> token_db \<times> (vm_err + vm_result)" where
  "handleInfo db from =
     (let info = tdb_info db; decimals = FormatInt (ti_Decimals info); (db', cache) = initCache db
      in (db', Inr (zero_result\<lparr>res_Cache := cache,
            res_Messages := [reply from []
              [Tag ''Name'' (ti_Name info), Tag ''Ticker'' (ti_Ticker info),
               Tag ''Logo'' (ti_Logo info), Tag ''Denomination'' decimals,
               Tag ''Decimals'' decimals]]\<rparr>)))"

definition handleTotalSupply :: "token_db \<Rightarrow> string \<Rightarrow> token_db \<times> (vm_err + vm_result)" where
  "handleTotalSupply db from =
     (db, Inr (zero_result\<lparr>res_Messages := [reply from (show_int (tdb_totalSupply db))
        [Tag ''Action'' ''Total-Supply'', Tag ''Ticker'' (ti_Ticker (tdb_info db))]]\<rparr>))"

definition Token_BalanceOf :: "extlib \<Rightarrow> token_db \<Rightarrow> string \<Rightarrow> vm_err + int" where
  "Token_BalanceOf lib db a =
     (case IDCheck lib a of Inl e \<Rightarrow> Inl e | Inr (_, accid) \<Rightarrow> Inr (db_BalanceOf db accid))"

definition Token_StakeOf :: "extlib \<Rightarrow> token_db \<Rightarrow> string \<Rightarrow> vm_err + int" where
  "Token_StakeOf lib db a =
     (case IDCheck lib a of Inl e \<Rightarrow> Inl e | Inr (_, accid) \<Rightarrow> Inr (db_StakeOf db accid))"

definition handleBalanceOf ::
  "extlib \<Rightarrow> token_db \<Rightarrow> string \<Rightarrow> (string, string) gomap \<Rightarrow> token_db \<times> (vm_err + vm_result)" where
  "handleBalanceOf lib db from params =
     (let accid = (case mget params ''Recipient'' of Some r \<Rightarrow> r
                   | None \<Rightarrow> (case mget params ''Target'' of Some t \<Rightarrow> t | None \<Rightarrow> from))
      in case Token_BalanceOf lib db accid of
           Inl e \<Rightarrow> (db, Inl e)
         | Inr bal \<Rightarrow>
             (db, Inr (zero_result\<lparr>res_Messages := [reply from (show_int bal)
               [Tag ''Balance'' (show_int bal), Tag ''Ticker'' (ti_Ticker (tdb_info db)),
                Tag ''Account'' accid]]\<rparr>)))"

definition handleBalances :: "token_db \<Rightarrow> string \<Rightarrow> token_db \<times> (vm_err + vm_result)" where
  "handleBalances db from =
     (db, Inr (zero_result\<lparr>res_Messages := [reply from
        (json_map (map (\<lambda>(k, v). (k, show_int v)) (tdb_balances db)))
        [Tag ''Ticker'' (ti_Ticker (tdb_info db))]]\<rparr>))"

definition x_tags :: "(string, string) gomap \<Rightarrow> tag list" where
  "x_tags params = map (\<lambda>(k, v). Tag k v) (filter (\<lambda>(k, v). HasPrefix k ''X-'') params)"

definition handleTransfer ::
  "extlib \<Rightarrow> token_db \<Rightarrow> string \<Rightarrow> (string, string) gomap \<Rightarrow> token_db \<times> (vm_err + vm_result)" where
  "handleTransfer lib db from params =
     (case mget params ''Recipient'' of
        None \<Rightarrow> (db, Inl ErrMissingRecipient)
      | Some recipient \<Rightarrow>
     (case mget params ''Quantity'' of
        None \<Rightarrow> (db, Inl ErrMissingQuantity)
      | Some qty \<Rightarrow>
     (case parseAndCheckAmount qty of
        Inl e \<Rightarrow> (db, Inl e)
      | Inr amt \<Rightarrow>
     (case Token_transfer lib db from recipient amt of
        (db1, Some e) \<Rightarrow> (db1, Inl e)
      | (db1, None) \<Rightarrow>
         (let ticker = ti_Ticker (tdb_info db1);
              debit = reply from (''You transferred '' @ qty @ '' to '' @ recipient)
                ([Tag ''Ticker'' ticker, Tag ''Action'' ''Debit-Notice'',
                  Tag ''Recipient'' recipient, Tag ''Quantity'' qty] @ x_tags params);
              credit = reply recipient (''You received '' @ qty @ '' from '' @ from)
                ([Tag ''Ticker'' ticker, Tag ''Action'' ''Credit-Notice'',
                  Tag ''Sender'' from, Tag ''Quantity'' qty] @ x_tags params)
          in (db1, Inr (zero_result\<lparr>res_Messages := [debit, credit],
                res_Cache := cacheChangeBalance lib db1 [from, recipient]\<rparr>)))))))"

definition genNodeNotice :: "token_db \<Rightarrow> string \<Rightarrow> string \<Rightarrow> node \<Rightarrow> res_message" where
  "genNodeNotice db from registry nd =
     (if db_StakeOf db from < ti_MinAmount (tdb_info db) then
        reply registry [] [Tag ''Action'' ''Unregister'', Tag ''Acc-Id'' from]
      else
        reply registry [] [Tag ''Action'' ''Register'', Tag ''Acc-Id'' from,
          Tag ''Name'' (node_Name nd), Tag ''Role'' (node_Role nd), Tag ''Desc'' (node_Desc nd),
          Tag ''URL'' (node_URL nd)])"

text \<open>\<open>handleStake\<close> and \<open>handleUnstake\<close> read the same parameters in the same order; the checks are
  one function of the parameters, returning (registry, node, quantity text, amount).\<close>

definition stake_params ::
  "extlib \<Rightarrow> string \<Rightarrow> (string, string) gomap \<Rightarrow> vm_err + string \<times> node \<times> string \<times> int" where
  "stake_params lib from params =
     (case mget params ''Registry'' of
        None \<Rightarrow> Inl ErrMissingQuantity
      | Some registry \<Rightarrow>
     (case registry_Decode lib params of
        Inl e \<Rightarrow> Inl e
      | Inr nd \<Rightarrow>
     (if from \<noteq> node_AccId nd then Inl ErrTokenUnauthorized
      else
     (case mget params ''Quantity'' of
        None \<Rightarrow> Inl ErrMissingQuantity
      | Some qty \<Rightarrow>
     (case parseAndCheckAmount qty of
        Inl e \<Rightarrow> Inl e
      | Inr amt \<Rightarrow> Inr (registry, nd, qty, amt))))))"

definition handleStake ::
  "extlib \<Rightarrow> token_db \<Rightarrow> string \<Rightarrow> (string, string) gomap \<Rightarrow> token_db \<times> (vm_err + vm_result)" where
  "handleStake lib db from params =
     (case stake_params lib from params of
        Inl e \<Rightarrow> (db, Inl e)
      | Inr (registry, nd, qty, amt) \<Rightarrow>
     (case Token_stake db from amt of
        (db1, Some e) \<Rightarrow> (db1, Inl e)
      | (db1, None) \<Rightarrow>
         (let stakeNotice = reply from (''You staked '' @ qty)
                [Tag ''Ticker'' (ti_Ticker (tdb_info db1)), Tag ''Action'' ''Stake-Notice'',
                 Tag ''Quantity'' qty]
          in (db1, Inr (zero_result\<lparr>
                res_Messages := [stakeNotice, genNodeNotice db1 from registry nd],
                res_Cache := maps_Copy (maps_Copy [] (cacheChangeBalance lib db1 [from]))
                  (cacheChangeStake db1 from)\<rparr>)))))"

definition handleUnstake ::
  "extlib \<Rightarrow> token_db \<Rightarrow> string \<Rightarrow> (string, string) gomap \<Rightarrow> token_db \<times> (vm_err + vm_result)" where
  "handleUnstake lib db from params =
     (case stake_params lib from params of
        Inl e \<Rightarrow> (db, Inl e)
      | Inr (registry, nd, qty, amt) \<Rightarrow>
     (case Token_unstake db from amt of
        (db1, Some e) \<Rightarrow> (db1, Inl e)
      | (db1, None) \<Rightarrow>
         (let unstakeNotice = reply from (''You unstaked '' @ qty)
                [Tag ''Ticker'' (ti_Ticker (tdb_info db1)), Tag ''Action'' ''Unstake-Notice'',
                 Tag ''Quantity'' qty]
          in (db1, Inr (zero_result\<lparr>
                res_Messages := [unstakeNotice, genNodeNotice db1 from registry nd],
                res_Cache := maps_Copy (maps_Copy [] (cacheChangeBalance lib db1 [from]))
                  (cacheChangeStake db1 from)\<rparr>)))))"

definition Token_dispatch ::
  "extlib \<Rightarrow> token_db \<Rightarrow> string \<Rightarrow> meta \<Rightarrow> token_db \<times> (vm_err + vm_result)" where
  "Token_dispatch lib db from m =
     (let a = meta_Action m; ps = meta_Params m
      in if a = ''Info'' then handleInfo db from
         else if a = ''Total-Supply'' then handleTotalSupply db from
         else if a = ''Balance'' then handleBalanceOf lib db from ps
         else if a = ''Balances'' then handleBalances db from
         else if a = ''Transfer'' then handleTransfer lib db from ps
         else if a = ''Stake'' then handleStake lib db from ps
         else if a = ''Unstake'' then handleUnstake lib db from ps
         else if a = ''Slash'' then (db, Inr zero_result)
         else (db, Inl ErrTokenInvalidAction))"

definition Token_Apply :: "extlib \<Rightarrow> token_db \<Rightarrow> string \<Rightarrow> meta \<Rightarrow> token_db \<times> vm_result" where
  "Token_Apply lib db from m =
     (case Token_dispatch lib db from m of (db', r) \<Rightarrow> (db', apply_result r))"

subsection \<open>The three moves of the ledger\<close>

definition move_balance :: "token_db \<Rightarrow> string \<Rightarrow> string \<Rightarrow> int \<Rightarrow> token_db" where
  "move_balance db a b q =
     set_balance (set_balance db a (db_BalanceOf db a - q)) b
       (db_BalanceOf (set_balance db a (db_BalanceOf db a - q)) b + q)"

definition to_stake :: "token_db \<Rightarrow> string \<Rightarrow> int \<Rightarrow> token_db" where
  "to_stake db a q =
     set_stake (set_balance db a (db_BalanceOf db a - q)) a (db_StakeOf db a + q)"

definition from_stake :: "token_db \<Rightarrow> string \<Rightarrow> int \<Rightarrow> token_db" where
  "from_stake db a q =
     set_balance (set_stake db a (db_StakeOf db a - q)) a (db_BalanceOf db a + q)"

lemmas book_simps [simp] = books.stk_updb books.bal_upds books.tots_updb books.totb_upds

lemma Token_transfer_cases:
  assumes "Token_transfer lib db from to q = (db', err)" and "0 \<le> q"
  shows "(err \<noteq> None \<and> db' = db) \<or>
    (err = None \<and> (\<exists>t to'. IDCheck lib to = Inr (t, to') \<and>
       (q = 0 \<and> db' = db \<or>
        0 < q \<and> q \<le> db_BalanceOf db from \<and> db' = move_balance db from to' q)))"
  using assms
  by (auto simp: Token_transfer_def Token_sub_def Token_add_def move_balance_def
      split: sum.splits prod.splits option.splits if_splits)

lemma Token_stake_cases:
  assumes "Token_stake db from q = (db', err)" and "0 \<le> q"
  shows "(err \<noteq> None \<and> db' = db) \<or>
    (err = None \<and> (q = 0 \<and> db' = db \<or>
       0 < q \<and> q \<le> db_BalanceOf db from \<and> db' = to_stake db from q))"
  using assms
  by (auto simp: Token_stake_def Token_sub_def Token_sadd_def to_stake_def
      split: prod.splits option.splits if_splits)

lemma Token_unstake_cases:
  assumes "Token_unstake db from q = (db', err)" and "0 \<le> q"
  shows "(err \<noteq> None \<and> db' = db) \<or>
    (err = None \<and> (q = 0 \<and> db' = db \<or>
       0 < q \<and> q \<le> db_StakeOf db from \<and> db' = from_stake db from q))"
  using assms
  by (auto simp: Token_unstake_def Token_ssub_def Token_add_def from_stake_def
      split: prod.splits option.splits if_splits)

lemma parseAndCheckAmount_nonneg: "parseAndCheckAmount s = Inr q \<Longrightarrow> 0 \<le> q"
  by (auto simp: parseAndCheckAmount_def split: option.splits if_splits)

lemma stake_params_nonneg: "stake_params lib from ps = Inr (r, nd, s, q) \<Longrightarrow> 0 \<le> q"
  by (auto simp: stake_params_def parseAndCheckAmount_nonneg split: sum_option_splits)

text \<open>What a dispatched message can do to the store, and that an error leaves it alone.\<close>

definition token_move :: "token_db \<Rightarrow> string \<Rightarrow> token_db \<Rightarrow> bool" where
  "token_move db from db' \<longleftrightarrow>
     db' = db \<or> db' = db_CacheInitialed db \<or>
     (\<exists>b q. 0 < q \<and> q \<le> db_BalanceOf db from \<and> db' = move_balance db from b q) \<or>
     (\<exists>q. 0 < q \<and> q \<le> db_BalanceOf db from \<and> db' = to_stake db from q) \<or>
     (\<exists>q. 0 < q \<and> q \<le> db_StakeOf db from \<and> db' = from_stake db from q)"

lemma handleTransfer_move:
  assumes "handleTransfer lib db from ps = (db', r)"
  shows "token_move db from db' \<and> (\<forall>e. r = Inl e \<longrightarrow> db' = db)"
  using assms
  by (auto simp: handleTransfer_def Let_def token_move_def
      split: sum_option_splits prod.splits
      dest!: parseAndCheckAmount_nonneg Token_transfer_cases)

lemma handleStake_move:
  assumes "handleStake lib db from ps = (db', r)"
  shows "token_move db from db' \<and> (\<forall>e. r = Inl e \<longrightarrow> db' = db)"
  using assms
  by (auto simp: handleStake_def Let_def token_move_def
      split: sum_option_splits prod.splits
      dest!: stake_params_nonneg Token_stake_cases)

lemma handleUnstake_move:
  assumes "handleUnstake lib db from ps = (db', r)"
  shows "token_move db from db' \<and> (\<forall>e. r = Inl e \<longrightarrow> db' = db)"
  using assms
  by (auto simp: handleUnstake_def Let_def token_move_def
      split: sum_option_splits prod.splits
      dest!: stake_params_nonneg Token_unstake_cases)

lemma handle_read_move:
  "handleInfo db from = (db', r) \<Longrightarrow> token_move db from db' \<and> (\<forall>e. r \<noteq> Inl e)"
  "handleTotalSupply db from = (db', r) \<Longrightarrow> db' = db"
  "handleBalanceOf lib db from ps = (db', r) \<Longrightarrow> db' = db"
  "handleBalances db from = (db', r) \<Longrightarrow> db' = db"
  by (auto simp: handleInfo_def initCache_def handleTotalSupply_def handleBalanceOf_def
      handleBalances_def token_move_def Let_def split: sum.splits if_splits prod.splits)

lemma Token_dispatch_move:
  assumes "Token_dispatch lib db from m = (db', r)"
  shows "token_move db from db' \<and> (\<forall>e. r = Inl e \<longrightarrow> db' = db)"
proof -
  have idle: "token_move db from db" for db by (simp add: token_move_def)
  show ?thesis
    using assms unfolding Token_dispatch_def Let_def
    by (auto split: if_splits dest: handle_read_move handleTransfer_move handleStake_move
        handleUnstake_move simp: idle)
qed

lemma handler_result_no_error:
  "handleTransfer lib db from ps = (db', Inr res) \<Longrightarrow> res_Error res = None"
  "handleStake lib db from ps = (db', Inr res) \<Longrightarrow> res_Error res = None"
  "handleUnstake lib db from ps = (db', Inr res) \<Longrightarrow> res_Error res = None"
  "handleInfo db from = (db', Inr res) \<Longrightarrow> res_Error res = None"
  "handleTotalSupply db from = (db', Inr res) \<Longrightarrow> res_Error res = None"
  "handleBalanceOf lib db from ps = (db', Inr res) \<Longrightarrow> res_Error res = None"
  "handleBalances db from = (db', Inr res) \<Longrightarrow> res_Error res = None"
  by (auto simp: handleTransfer_def handleStake_def handleUnstake_def handleInfo_def
      handleTotalSupply_def handleBalanceOf_def handleBalances_def zero_result_def Let_def
      split: sum_option_splits prod.splits)

lemma Token_dispatch_no_error:
  "Token_dispatch lib db from m = (db', Inr res) \<Longrightarrow> res_Error res = None"
  unfolding Token_dispatch_def Let_def
  by (auto split: if_splits dest: handler_result_no_error simp: zero_result_def)

lemma Token_Apply_move:
  assumes "Token_Apply lib db from m = (db', res)"
  shows "token_move db from db' \<and> (res_Error res \<noteq> None \<longrightarrow> db' = db)"
proof -
  obtain r where d: "Token_dispatch lib db from m = (db', r)" and res: "res = apply_result r"
    using assms by (auto simp: Token_Apply_def split: prod.splits)
  show ?thesis
    using Token_dispatch_move [OF d] Token_dispatch_no_error [of lib db "from" m db'] d res
    by (cases r) (auto simp: apply_result_def)
qed

subsection \<open>The ledger invariant\<close>

definition token_inv :: "token_db \<Rightarrow> bool" where
  "token_inv db \<longleftrightarrow> tdb_wf db \<and> (\<forall>a. 0 \<le> db_BalanceOf db a) \<and> (\<forall>a. 0 \<le> db_StakeOf db a) \<and>
     mtotal (tdb_balances db) + mtotal (tdb_stakes db) = tdb_totalSupply db"

lemmas move_defs = move_balance_def to_stake_def from_stake_def

lemma move_totalSupply [simp]:
  "tdb_totalSupply (move_balance db a b q) = tdb_totalSupply db"
  "tdb_totalSupply (to_stake db a q) = tdb_totalSupply db"
  "tdb_totalSupply (from_stake db a q) = tdb_totalSupply db"
  by (simp_all add: move_defs)

lemma move_wf:
  assumes "tdb_wf db"
  shows "tdb_wf (move_balance db a b q)" and "tdb_wf (to_stake db a q)"
    and "tdb_wf (from_stake db a q)"
  unfolding move_defs by (simp_all add: assms books.bals.wf_upd books.stks.wf_upd)

lemma move_total:
  assumes "tdb_wf db"
  shows "mtotal (tdb_balances (move_balance db a b q)) + mtotal (tdb_stakes (move_balance db a b q)) =
      mtotal (tdb_balances db) + mtotal (tdb_stakes db)"
    and "mtotal (tdb_balances (to_stake db a q)) + mtotal (tdb_stakes (to_stake db a q)) =
      mtotal (tdb_balances db) + mtotal (tdb_stakes db)"
    and "mtotal (tdb_balances (from_stake db a q)) + mtotal (tdb_stakes (from_stake db a q)) =
      mtotal (tdb_balances db) + mtotal (tdb_stakes db)"
  unfolding move_defs
  using books.bals.debit_credit_total [OF assms, of a q b] books.to_stake_total [OF assms, of a q]
    books.from_stake_total [OF assms, of a q]
  by simp_all

lemma move_balance_BalanceOf:
  "db_BalanceOf (move_balance db a b q) c =
     (if a = b then db_BalanceOf db c
      else if c = a then db_BalanceOf db a - q
      else if c = b then db_BalanceOf db b + q else db_BalanceOf db c)"
  unfolding move_balance_def by (rule books.bals.debit_credit_bal)

lemma move_reads [simp]:
  "db_StakeOf (move_balance db a b q) = db_StakeOf db"
  "db_BalanceOf (to_stake db a q) c = (if c = a then db_BalanceOf db a - q else db_BalanceOf db c)"
  "db_StakeOf (to_stake db a q) c = (if c = a then db_StakeOf db a + q else db_StakeOf db c)"
  "db_BalanceOf (from_stake db a q) c = (if c = a then db_BalanceOf db a + q else db_BalanceOf db c)"
  "db_StakeOf (from_stake db a q) c = (if c = a then db_StakeOf db a - q else db_StakeOf db c)"
  by (simp_all add: move_defs books.bals.bal_upd books.stks.bal_upd)

lemma CacheInitialed_reads [simp]:
  "db_BalanceOf (db_CacheInitialed db) = db_BalanceOf db"
  "db_StakeOf (db_CacheInitialed db) = db_StakeOf db"
  "tdb_balances (db_CacheInitialed db) = tdb_balances db"
  "tdb_stakes (db_CacheInitialed db) = tdb_stakes db"
  "tdb_totalSupply (db_CacheInitialed db) = tdb_totalSupply db"
  "tdb_wf (db_CacheInitialed db) = tdb_wf db"
  by (auto simp: db_CacheInitialed_def db_BalanceOf_def db_StakeOf_def tdb_wf_def)

lemma token_move_inv [inv_intros]:
  assumes "token_move db from db'" and "token_inv db"
  shows "token_inv db' \<and> tdb_totalSupply db' = tdb_totalSupply db"
proof -
  have wf: "tdb_wf db" and bal: "\<And>a. 0 \<le> db_BalanceOf db a" and stk: "\<And>a. 0 \<le> db_StakeOf db a"
    using assms(2) by (auto simp: token_inv_def)
  from assms(1) consider "db' = db" | "db' = db_CacheInitialed db"
    | b q where "0 < q" "q \<le> db_BalanceOf db from" "db' = move_balance db from b q"
    | q where "0 < q" "q \<le> db_BalanceOf db from" "db' = to_stake db from q"
    | q where "0 < q" "q \<le> db_StakeOf db from" "db' = from_stake db from q"
    unfolding token_move_def by blast
  then show ?thesis
  proof cases
    case 3
    have "0 \<le> db_BalanceOf db' a" for a
      using 3 bal [of a] bal [of b] by (simp add: move_balance_BalanceOf)
    with 3 assms(2) wf show ?thesis by (simp add: token_inv_def move_wf move_total)
  next
    case 4
    have "0 \<le> db_BalanceOf db' a \<and> 0 \<le> db_StakeOf db' a" for a
      using 4 bal [of a] stk [of a] stk [of "from"] by auto
    with 4 assms(2) wf show ?thesis by (simp add: token_inv_def move_wf move_total)
  next
    case 5
    have "0 \<le> db_BalanceOf db' a \<and> 0 \<le> db_StakeOf db' a" for a
      using 5 bal [of a] stk [of a] bal [of "from"] by auto
    with 5 assms(2) wf show ?thesis by (simp add: token_inv_def move_wf move_total)
  qed (use assms(2) in \<open>simp_all add: token_inv_def\<close>)
qed

lemma NewTokenDb_inv:
  assumes "mwf bals" "mwf stakes" "\<And>a. 0 \<le> mget_or 0 bals a" "\<And>a. 0 \<le> mget_or 0 stakes a"
  shows "token_inv (NewTokenDb info bals stakes)"
  using assms
  by (simp add: token_inv_def NewTokenDb_total tdb_wf_def db_BalanceOf_def db_StakeOf_def)
     (simp add: NewTokenDb_def)

text \<open>Applying a list of messages, each with its sender.\<close>

fun Token_run :: "extlib \<Rightarrow> token_db \<Rightarrow> (string \<times> meta) list \<Rightarrow> token_db" where
  "Token_run lib db [] = db"
| "Token_run lib db ((from, m) # ms) = Token_run lib (fst (Token_Apply lib db from m)) ms"

lemma Token_run_inv:
  "token_inv db \<Longrightarrow> token_inv (Token_run lib db ms) \<and>
     tdb_totalSupply (Token_run lib db ms) = tdb_totalSupply db"
proof (induction ms arbitrary: db)
  case (Cons x ms)
  obtain s m where x: "x = (s, m)" by (cases x)
  have "token_move db s (fst (Token_Apply lib db s m))"
    using Token_Apply_move [of lib db s m] by (cases "Token_Apply lib db s m") auto
  from token_move_inv [OF this Cons.prems] Cons.IH show ?case by (simp add: x)
qed simp

text \<open>C1: the supply is conserved. A token created from well-formed, non-negative books keeps,
  through every sequence of messages whatever their senders, actions and parameters, non-negative
  balances and stakes that add up to the total supply fixed at creation.\<close>

theorem Token_supply_conserved:
  assumes "mwf bals" "mwf stakes" "\<forall>a. 0 \<le> mget_or 0 bals a" "\<forall>a. 0 \<le> mget_or 0 stakes a"
  shows "let db = Token_run lib (NewTokenDb info bals stakes) ms in
    mtotal (tdb_balances db) + mtotal (tdb_stakes db) = mtotal bals + mtotal stakes \<and>
    tdb_totalSupply db = mtotal bals + mtotal stakes \<and>
    (\<forall>a. 0 \<le> db_BalanceOf db a) \<and> (\<forall>a. 0 \<le> db_StakeOf db a)"
proof -
  have "token_inv (NewTokenDb info bals stakes)"
    by (rule NewTokenDb_inv) (use assms in auto)
  from Token_run_inv [OF this, of lib ms] show ?thesis
    by (auto simp: Let_def token_inv_def NewTokenDb_total)
qed

definition demo_info :: token_info where
  "demo_info = \<lparr>ti_Id = ''tok'', ti_Name = ''tHyMatrix'', ti_Ticker = ''tAX'', ti_Decimals = 12,
     ti_Logo = ''logo'', ti_MinAmount = 10\<rparr>"

definition demo_transfer :: meta where
  "demo_transfer = zero_meta\<lparr>meta_Action := ''Transfer'',
     meta_Params := [(''Recipient'', ''0xb''), (''Quantity'', ''30''), (''X-Ref'', ''9'')]\<rparr>"

lemmas demo_eval = demo_info_def demo_transfer_def demo_lib_def zero_meta_def Token_Apply_def
  Token_dispatch_def handleTransfer_def parseAndCheckAmount_def big_SetString_def parse_nat_def
  digit_val_def Token_transfer_def Token_sub_def Token_add_def IDCheck_def HasPrefix_def
  NewTokenDb_def db_BalanceOf_def db_StakeOf_def set_balance_def set_stake_def Let_def

theorem Token_supply_conserved_witness:
  "let db = Token_run demo_lib (NewTokenDb demo_info [(''0xa'', 100)] [(''0xa'', 50)]) [(''0xa'', demo_transfer)]
   in mtotal (tdb_balances db) + mtotal (tdb_stakes db) = 150 \<and> db_BalanceOf db ''0xb'' = 30"
proof -
  have "db_BalanceOf (Token_run demo_lib (NewTokenDb demo_info [(''0xa'', 100)] [(''0xa'', 50)])
      [(''0xa'', demo_transfer)]) ''0xb'' = 30"
    by (simp add: demo_eval)
  then show ?thesis
    using Token_supply_conserved [of "[(''0xa'', 100)]" "[(''0xa'', 50)]" demo_lib demo_info
        "[(''0xa'', demo_transfer)]"]
    by (simp add: Let_def)
qed

text \<open>C2: only the sender can lose. A message from one account never lowers the balance of another
  account and never changes its stake.\<close>

theorem Token_Apply_only_sender_pays:
  assumes "Token_Apply lib db from m = (db', res)" and "a \<noteq> from"
  shows "db_BalanceOf db a \<le> db_BalanceOf db' a \<and> db_StakeOf db' a = db_StakeOf db a"
  using Token_Apply_move [OF assms(1)] assms(2)
  by (auto simp: token_move_def move_balance_BalanceOf)

theorem Token_Apply_only_sender_pays_witness:
  "\<exists>db' res. Token_Apply demo_lib (NewTokenDb demo_info [(''0xa'', 100), (''0xb'', 5)] []) ''0xa'' demo_transfer
      = (db', res) \<and> 5 \<le> db_BalanceOf db' ''0xb''"
proof -
  obtain db' res where ap: "Token_Apply demo_lib
      (NewTokenDb demo_info [(''0xa'', 100), (''0xb'', 5)] []) ''0xa'' demo_transfer = (db', res)"
    by (meson surj_pair)
  have "db_BalanceOf (NewTokenDb demo_info [(''0xa'', 100), (''0xb'', 5)] []) ''0xb'' = 5"
    by (simp add: NewTokenDb_def db_BalanceOf_def)
  with Token_Apply_only_sender_pays [OF ap, of "''0xb''"] ap show ?thesis by simp
qed

text \<open>C3: errors are atomic. When the result of a message carries an error, no balance, stake or
  other part of the token's store has changed.\<close>

theorem Token_Apply_error_atomic:
  assumes "Token_Apply lib db from m = (db', res)" and "res_Error res \<noteq> None"
  shows "db' = db"
  using Token_Apply_move [OF assms(1)] assms(2) by simp

theorem Token_Apply_error_atomic_witness:
  "\<exists>res. Token_Apply demo_lib (NewTokenDb demo_info [(''0xa'', 3)] []) ''0xa'' demo_transfer =
     (NewTokenDb demo_info [(''0xa'', 3)] [], res) \<and> res_Error res = Some ErrInsufficientBalance"
proof -
  obtain db' res where ap: "Token_Apply demo_lib (NewTokenDb demo_info [(''0xa'', 3)] []) ''0xa''
      demo_transfer = (db', res)"
    by (meson surj_pair)
  have err: "res_Error res = Some ErrInsufficientBalance"
    using ap by (auto simp: demo_eval apply_result_def zero_result_def)
  then have "res_Error res \<noteq> None" by simp
  with Token_Apply_error_atomic [OF ap] ap err show ?thesis by auto
qed

subsection \<open>Transfers\<close>

lemma Token_transfer_ok_iff:
  "0 \<le> q \<Longrightarrow> (\<exists>db'. Token_transfer lib db from to q = (db', None)) \<longleftrightarrow>
     (\<exists>t to'. IDCheck lib to = Inr (t, to')) \<and> (q = 0 \<or> q \<le> db_BalanceOf db from)"
  by (auto simp: Token_transfer_def Token_sub_def Token_add_def split: sum.splits)

text \<open>a transfer succeeds exactly when recipient and quantity are given, the quantity is a
  non-negative decimal, the recipient is a valid account, and the sender's balance covers the
  quantity (or it is zero); every other transfer returns an error.\<close>

theorem handleTransfer_succeeds_iff:
  "(\<exists>db' res. handleTransfer lib db from ps = (db', Inr res)) \<longleftrightarrow>
     (\<exists>r s q t to. mget ps ''Recipient'' = Some r \<and> mget ps ''Quantity'' = Some s \<and>
        big_SetString s = Some q \<and> 0 \<le> q \<and> IDCheck lib r = Inr (t, to) \<and>
        (q = 0 \<or> q \<le> db_BalanceOf db from))"
  by (auto simp: handleTransfer_def parseAndCheckAmount_def Token_transfer_def Token_sub_def
      Token_add_def Let_def split: sum_option_splits prod.splits)

text \<open>a successful transfer moves exactly the quantity from the sender to the account the
  recipient denotes (nothing when they are the same), leaves all other balances and all stakes
  alone, and answers with a debit notice to the sender and a credit notice to the recipient, both
  carrying every \<open>X-\<close> parameter.\<close>

theorem handleTransfer_effect:
  assumes "handleTransfer lib db from ps = (db', Inr res)"
  shows "\<exists>r s q t to.
    mget ps ''Recipient'' = Some r \<and> mget ps ''Quantity'' = Some s \<and> big_SetString s = Some q \<and>
    IDCheck lib r = Inr (t, to) \<and>
    (\<forall>c. db_BalanceOf db' c =
       (if to = from then db_BalanceOf db c
        else if c = from then db_BalanceOf db c - q
        else if c = to then db_BalanceOf db c + q else db_BalanceOf db c)) \<and>
    db_StakeOf db' = db_StakeOf db \<and>
    (\<exists>debit credit. res_Messages res = [debit, credit] \<and>
       rm_Target debit = from \<and> GetTagsValue ''Action'' (rm_Tags debit) = ''Debit-Notice'' \<and>
       rm_Target credit = r \<and> GetTagsValue ''Action'' (rm_Tags credit) = ''Credit-Notice'' \<and>
       GetTagsValue ''Sender'' (rm_Tags credit) = from \<and>
       GetTagsValue ''Quantity'' (rm_Tags credit) = s \<and>
       (\<forall>k v. (k, v) \<in> set ps \<and> HasPrefix k ''X-'' \<longrightarrow>
          Tag k v \<in> set (rm_Tags debit) \<and> Tag k v \<in> set (rm_Tags credit)))"
proof -
  from assms obtain r s q where r: "mget ps ''Recipient'' = Some r"
    and s: "mget ps ''Quantity'' = Some s" and q: "parseAndCheckAmount s = Inr q"
    and tr: "Token_transfer lib db from r q = (db', None)"
    by (auto simp: handleTransfer_def Let_def split: sum_option_splits prod.splits)
  have q': "big_SetString s = Some q" "0 \<le> q"
    using q by (auto simp: parseAndCheckAmount_def split: option.splits if_splits)
  obtain t to where idc: "IDCheck lib r = Inr (t, to)"
    and mv: "q = 0 \<and> db' = db \<or> db' = move_balance db from to q"
    using Token_transfer_cases [OF tr q'(2)] by auto
  have "db_BalanceOf db' c = (if to = from then db_BalanceOf db c
        else if c = from then db_BalanceOf db c - q
        else if c = to then db_BalanceOf db c + q else db_BalanceOf db c)"
    and "db_StakeOf db' = db_StakeOf db" for c
    using mv by (auto simp: move_balance_BalanceOf)
  moreover have "Tag k v \<in> set (x_tags ps)" if "(k, v) \<in> set ps" "HasPrefix k ''X-''" for k v
    using that by (force simp: x_tags_def)
  ultimately show ?thesis
    using assms r s q q' tr idc by (auto simp: handleTransfer_def Let_def reply_def)
qed

theorem handleTransfer_effect_witness:
  "\<exists>db' res. handleTransfer demo_lib (NewTokenDb demo_info [(''0xa'', 100)] []) ''0xa''
     (meta_Params demo_transfer) = (db', Inr res) \<and> db_BalanceOf db' ''0xa'' = 70"
proof -
  obtain db' res where h: "handleTransfer demo_lib (NewTokenDb demo_info [(''0xa'', 100)] []) ''0xa''
     (meta_Params demo_transfer) = (db', Inr res)"
    by (simp add: demo_eval)
  have ps: "mget (meta_Params demo_transfer) ''Recipient'' = Some ''0xb''"
    "mget (meta_Params demo_transfer) ''Quantity'' = Some ''30''"
    "big_SetString ''30'' = Some 30" "IDCheck demo_lib ''0xb'' = Inr (AccountTypeEVM, ''0xb'')"
    "db_BalanceOf (NewTokenDb demo_info [(''0xa'', 100)] []) ''0xa'' = 100"
    by (simp_all add: demo_eval)
  show ?thesis using h handleTransfer_effect [OF h] ps by auto
qed

subsection \<open>Stakes and node notices\<close>

lemma genNodeNotice_spec:
  "rm_Target (genNodeNotice db from reg nd) = reg \<and>
   GetTagsValue ''Acc-Id'' (rm_Tags (genNodeNotice db from reg nd)) = from \<and>
   GetTagsValue ''Action'' (rm_Tags (genNodeNotice db from reg nd)) =
     (if ti_MinAmount (tdb_info db) \<le> db_StakeOf db from then ''Register'' else ''Unregister'')"
  by (simp add: genNodeNotice_def reply_def)

lemma to_stake_pointwise:
  "0 < q \<Longrightarrow> db_BalanceOf (to_stake db a q) = (db_BalanceOf db)(a := db_BalanceOf db a - q) \<and>
     db_StakeOf (to_stake db a q) = (db_StakeOf db)(a := db_StakeOf db a + q)"
  by auto

lemma from_stake_pointwise:
  "0 < q \<Longrightarrow> db_BalanceOf (from_stake db a q) = (db_BalanceOf db)(a := db_BalanceOf db a + q) \<and>
     db_StakeOf (from_stake db a q) = (db_StakeOf db)(a := db_StakeOf db a - q)"
  by auto

definition stake_outcome ::
  "token_db \<Rightarrow> string \<Rightarrow> int \<Rightarrow> string \<Rightarrow> token_db \<Rightarrow> vm_result \<Rightarrow> bool" where
  "stake_outcome db from d registry db' res \<longleftrightarrow>
     db_BalanceOf db' = (db_BalanceOf db)(from := db_BalanceOf db from - d) \<and>
     db_StakeOf db' = (db_StakeOf db)(from := db_StakeOf db from + d) \<and>
     (\<exists>notice nodeNotice. res_Messages res = [notice, nodeNotice] \<and> rm_Target notice = from \<and>
        rm_Target nodeNotice = registry \<and>
        GetTagsValue ''Acc-Id'' (rm_Tags nodeNotice) = from \<and>
        GetTagsValue ''Action'' (rm_Tags nodeNotice) =
          (if ti_MinAmount (tdb_info db') \<le> db_StakeOf db' from then ''Register'' else ''Unregister''))"

text \<open>a successful stake or unstake moves the quantity between the sender's own balance and
  stake, never more than the sender has there, and tells the registry to register the sender's
  node when the resulting stake reaches the minimum and to unregister it when it does not.\<close>

theorem handleStake_effect:
  assumes "0 \<le> db_StakeOf db from"
  shows "(handleStake lib db from ps = (db', Inr res) \<longrightarrow>
      (\<exists>reg s q. mget ps ''Registry'' = Some reg \<and> mget ps ''Quantity'' = Some s \<and>
         big_SetString s = Some q \<and> 0 \<le> q \<and> (q = 0 \<or> q \<le> db_BalanceOf db from) \<and>
         stake_outcome db from q reg db' res)) \<and>
    (handleUnstake lib db from ps = (db', Inr res) \<longrightarrow>
      (\<exists>reg s q. mget ps ''Registry'' = Some reg \<and> mget ps ''Quantity'' = Some s \<and>
         big_SetString s = Some q \<and> 0 \<le> q \<and> q \<le> db_StakeOf db from \<and>
         stake_outcome db from (- q) reg db' res))"
proof -
  have pars: "mget ps ''Registry'' = Some reg \<and> mget ps ''Quantity'' = Some s \<and>
      big_SetString s = Some q \<and> 0 \<le> q"
    if "stake_params lib from ps = Inr (reg, nd, s, q)" for reg nd s q
    using that by (auto simp: stake_params_def parseAndCheckAmount_def split: sum_option_splits)
  have st: "\<exists>reg s q. mget ps ''Registry'' = Some reg \<and> mget ps ''Quantity'' = Some s \<and>
         big_SetString s = Some q \<and> 0 \<le> q \<and> (q = 0 \<or> q \<le> db_BalanceOf db from) \<and>
         stake_outcome db from q reg db' res"
    if h: "handleStake lib db from ps = (db', Inr res)"
  proof -
    from h obtain reg nd s q where sp: "stake_params lib from ps = Inr (reg, nd, s, q)"
      and sk: "Token_stake db from q = (db', None)"
      by (auto simp: handleStake_def Let_def split: sum_option_splits prod.splits)
    have "(q = 0 \<or> q \<le> db_BalanceOf db from) \<and> stake_outcome db from q reg db' res"
      using h sp sk Token_stake_cases [OF sk] pars [OF sp]
      by (auto simp: handleStake_def Let_def stake_outcome_def genNodeNotice_spec
          to_stake_pointwise reply_def fun_eq_iff)
    with pars [OF sp] show ?thesis by blast
  qed
  have un: "\<exists>reg s q. mget ps ''Registry'' = Some reg \<and> mget ps ''Quantity'' = Some s \<and>
         big_SetString s = Some q \<and> 0 \<le> q \<and> q \<le> db_StakeOf db from \<and>
         stake_outcome db from (- q) reg db' res"
    if h: "handleUnstake lib db from ps = (db', Inr res)"
  proof -
    from h obtain reg nd s q where sp: "stake_params lib from ps = Inr (reg, nd, s, q)"
      and sk: "Token_unstake db from q = (db', None)"
      by (auto simp: handleUnstake_def Let_def split: sum_option_splits prod.splits)
    have "q \<le> db_StakeOf db from \<and> stake_outcome db from (- q) reg db' res"
      using h sp sk assms Token_unstake_cases [OF sk] pars [OF sp]
      by (auto simp: handleUnstake_def Let_def stake_outcome_def genNodeNotice_spec
          from_stake_pointwise reply_def fun_eq_iff)
    with pars [OF sp] show ?thesis by blast
  qed
  show ?thesis using st un by blast
qed

definition demo_stake_params :: "string \<Rightarrow> (string, string) gomap" where
  "demo_stake_params q = [(''Registry'', ''reg''), (''Acc-Id'', ''0xa''), (''Name'', ''n''),
     (''Desc'', ''d''), (''URL'', ''u''), (''Quantity'', q)]"

theorem handleStake_effect_witness:
  "\<exists>db' res. handleStake demo_lib (NewTokenDb demo_info [(''0xa'', 100)] []) ''0xa''
     (demo_stake_params ''30'') = (db', Inr res) \<and> db_StakeOf db' ''0xa'' = 30"
proof -
  let ?db = "NewTokenDb demo_info [(''0xa'', 100)] []"
  obtain db' res where h: "handleStake demo_lib ?db ''0xa'' (demo_stake_params ''30'') = (db', Inr res)"
    by (simp add: demo_eval handleStake_def stake_params_def registry_Decode_def
        demo_stake_params_def Token_stake_def Token_sadd_def)
  have z: "0 \<le> db_StakeOf ?db ''0xa''" "db_StakeOf ?db ''0xa'' = 0" by (simp_all add: demo_eval)
  have ps: "mget (demo_stake_params ''30'') ''Quantity'' = Some ''30''" "big_SetString ''30'' = Some 30"
    by (simp_all add: demo_eval demo_stake_params_def)
  show ?thesis
    using h z(2) ps handleStake_effect [OF z(1), of demo_lib "demo_stake_params ''30''" db' res]
    by (auto simp: stake_outcome_def)
qed

subsection \<open>Published caches\<close>

lemma cacheChangeBalance_two:
  "mget (cacheChangeBalance lib db [a, b]) k =
     (if k = ''balances:'' @ IDCheck_accid lib b then Some (show_int (db_BalanceOf db (IDCheck_accid lib b)))
      else if k = ''balances:'' @ IDCheck_accid lib a then Some (show_int (db_BalanceOf db (IDCheck_accid lib a)))
      else None)"
  by (simp add: cacheChangeBalance_def Let_def)

lemma stake_cache:
  "mget (maps_Copy (maps_Copy [] (cacheChangeBalance lib db [a])) (cacheChangeStake db c)) k =
     (if k = ''stakes:'' @ c then Some (show_int (db_StakeOf db c))
      else if k = ''balances:'' @ IDCheck_accid lib a
        then Some (show_int (db_BalanceOf db (IDCheck_accid lib a))) else None)"
  by (simp add: cacheChangeBalance_def cacheChangeStake_def Let_def)

definition published :: "token_db \<Rightarrow> token_db \<Rightarrow> vm_result \<Rightarrow> bool" where
  "published db db' res \<longleftrightarrow>
     (\<forall>c. db_BalanceOf db' c \<noteq> db_BalanceOf db c \<longrightarrow>
        mget (res_Cache res) (''balances:'' @ c) = Some (show_int (db_BalanceOf db' c))) \<and>
     (\<forall>c. db_StakeOf db' c \<noteq> db_StakeOf db c \<longrightarrow>
        mget (res_Cache res) (''stakes:'' @ c) = Some (show_int (db_StakeOf db' c)))"

lemma published_refl: "published db db res"
  by (simp add: published_def)

lemma handleTransfer_published:
  assumes h: "handleTransfer lib db from ps = (db', Inr res)" and idc: "IDCheck lib from = Inr (t, from)"
  shows "published db db' res"
proof -
  from h obtain r s q where r: "mget ps ''Recipient'' = Some r"
    and q: "mget ps ''Quantity'' = Some s" "parseAndCheckAmount s = Inr q"
    and tr: "Token_transfer lib db from r q = (db', None)"
    and cache: "res_Cache res = cacheChangeBalance lib db' [from, r]"
    by (auto simp: handleTransfer_def Let_def split: sum_option_splits prod.splits)
  obtain t' to where "IDCheck lib r = Inr (t', to)"
    and "q = 0 \<and> db' = db \<or> db' = move_balance db from to q"
    using Token_transfer_cases [OF tr parseAndCheckAmount_nonneg [OF q(2)]] by auto
  with cache idc show ?thesis
    by (auto simp: published_def cacheChangeBalance_two IDCheck_accid_def move_balance_BalanceOf)
qed

lemma handleStake_published:
  assumes "handleStake lib db from ps = (db', Inr res)" and "IDCheck lib from = Inr (t, from)"
  shows "published db db' res"
  using assms
  by (auto simp: handleStake_def Let_def published_def stake_cache IDCheck_accid_def
      split: sum_option_splits prod.splits dest!: stake_params_nonneg Token_stake_cases)

lemma handleUnstake_published:
  assumes "handleUnstake lib db from ps = (db', Inr res)" and "IDCheck lib from = Inr (t, from)"
  shows "published db db' res"
  using assms
  by (auto simp: handleUnstake_def Let_def published_def stake_cache IDCheck_accid_def
      split: sum_option_splits prod.splits dest!: stake_params_nonneg Token_unstake_cases)

text \<open>the caches a node serves stay current. For a sender whose id is its own normal form,
  every balance and every stake a message changes is published, with its new value, under its key
  in the cache of the message's result.\<close>

theorem Token_Apply_publishes:
  assumes "Token_Apply lib db from m = (db', res)" and "IDCheck lib from = Inr (t, from)"
  shows "published db db' res"
proof -
  obtain r where d: "Token_dispatch lib db from m = (db', r)" and res: "res = apply_result r"
    using assms(1) by (auto simp: Token_Apply_def split: prod.splits)
  show ?thesis
  proof (cases r)
    case (Inl e)
    then have "db' = db" using Token_dispatch_move [OF d] by auto
    then show ?thesis by (simp add: published_refl)
  next
    case (Inr x)
    have read: "handleInfo db from = (db', Inr x) \<Longrightarrow> published db db' x"
      by (auto simp: handleInfo_def initCache_def Let_def published_def split: if_splits prod.splits)
    have "published db db' x"
      using d Inr assms(2) unfolding Token_dispatch_def Let_def
      by (auto split: if_splits dest: handle_read_move(2-4) read handleTransfer_published
          handleStake_published handleUnstake_published simp: published_refl)
    with res Inr show ?thesis by (simp add: apply_result_def)
  qed
qed

theorem Token_Apply_publishes_witness:
  "\<exists>db' res. Token_Apply demo_lib (NewTokenDb demo_info [(''0xa'', 100)] []) ''0xa'' demo_transfer
      = (db', res) \<and> mget (res_Cache res) ''balances:0xb'' = Some ''30''"
proof -
  obtain db' res where ap: "Token_Apply demo_lib (NewTokenDb demo_info [(''0xa'', 100)] []) ''0xa''
      demo_transfer = (db', res)"
    by (meson surj_pair)
  have idc: "IDCheck demo_lib ''0xa'' = Inr (AccountTypeEVM, ''0xa'')" by (simp add: demo_eval)
  have "db_BalanceOf db' ''0xb'' = 30" "db_BalanceOf (NewTokenDb demo_info [(''0xa'', 100)] []) ''0xb'' = 0"
    using ap by (auto simp: demo_eval)
  moreover have "show_int 30 = ''30''"
    by code_simp
  ultimately show ?thesis
    using ap Token_Apply_publishes [OF ap idc] by (auto simp: published_def)
qed

end
