(* ===== verification/RegistryDb.thy ===== *)
theory RegistryDb
  imports VmSchema
begin

text \<open>
  The in-memory store of the core registry (db/cache/registry.go). The maps \<open>nodes\<close> and
  \<open>processToNodeIndex\<close> hold pointers to shared nodes: a pointer is an index of \<open>reg_store\<close>,
  the list of the nodes allocated so far, so an update through one map is seen through the
  other. A restored checkpoint allocates a node of its own for every pointer of the snapshot.
  Inner maps are never nil: they are made by the constructor and by \<open>Register\<close>, or decoded from
  JSON objects.
\<close>

subsection \<open>State and operations\<close>

record registry =
  reg_id :: string
  reg_tokenPid :: string
  reg_mainIndex :: string
  reg_p2n :: "(string, (string, nat) gomap) gomap"
  reg_a2p :: "(string, (string, string) gomap) gomap"
  reg_registered :: "(string, bool) gomap"
  reg_nodes :: "(string, nat) gomap"
  reg_store :: "node list"

definition NewRegistry :: "string \<Rightarrow> string \<Rightarrow> node \<Rightarrow> registry" where
  "NewRegistry i tokenPid mainNode =
     \<lparr>reg_id = i, reg_tokenPid = tokenPid, reg_mainIndex = node_AccId mainNode,
      reg_p2n = [], reg_a2p = [(node_AccId mainNode, [])],
      reg_registered = [(node_AccId mainNode, True)],
      reg_nodes = [(node_AccId mainNode, 0)], reg_store = [mainNode]\<rparr>"

definition Registry_Register :: "registry \<Rightarrow> node \<Rightarrow> registry \<times> vm_err option" where
  "Registry_Register r nd =
     (let k = node_AccId nd in
      case mget (reg_registered r) k of
        Some _ \<Rightarrow>
          (case mget (reg_nodes r) k of
             None \<Rightarrow> (r, Some NilDereference)
           | Some loc \<Rightarrow>
               (r\<lparr>reg_store := (reg_store r)[loc := (reg_store r ! loc)
                    \<lparr>node_Name := node_Name nd, node_Role := node_Role nd,
                     node_Desc := node_Desc nd, node_URL := node_URL nd\<rparr>],
                  reg_registered := mput k True (reg_registered r)\<rparr>, None))
      | None \<Rightarrow>
          (r\<lparr>reg_a2p := mput k [] (reg_a2p r),
             reg_mainIndex := (if node_Role nd = RoleMain then k else reg_mainIndex r),
             reg_nodes := mput k (length (reg_store r)) (reg_nodes r),
             reg_store := reg_store r @ [nd],
             reg_registered := mput k True (reg_registered r)\<rparr>, None))"

definition Registry_Unregister :: "registry \<Rightarrow> string \<Rightarrow> registry \<times> vm_err option" where
  "Registry_Unregister r accid =
     (case mget (reg_nodes r) accid of
        None \<Rightarrow> (r, None)
      | Some _ \<Rightarrow> (r\<lparr>reg_registered := mput accid False (reg_registered r)\<rparr>, None))"

definition Registry_GetNode :: "registry \<Rightarrow> string \<Rightarrow> node option" where
  "Registry_GetNode r accid =
     (if \<not> mget_or False (reg_registered r) accid then None
      else case mget (reg_nodes r) accid of
             None \<Rightarrow> None
           | Some loc \<Rightarrow> Some (reg_store r ! loc))"

definition Registry_GetNodes :: "registry \<Rightarrow> (string, node) gomap" where
  "Registry_GetNodes r =
     foldl (\<lambda>ns (k, loc). if mget_or False (reg_registered r) k
                          then mput k (reg_store r ! loc) ns else ns) [] (reg_nodes r)"

definition Registry_RegisterProcess :: "registry \<Rightarrow> string \<Rightarrow> string \<Rightarrow> registry \<times> vm_err option" where
  "Registry_RegisterProcess r accid pid =
     (case mget (reg_nodes r) accid of
        None \<Rightarrow> (r, Some (ErrText
          (''registry db, RegisterProcess failed: not found node, accid='' @ accid)))
      | Some loc \<Rightarrow>
     (case mget (reg_a2p r) accid of
        None \<Rightarrow> (r, Some (ErrText
          (''registry db, RegisterProcess failed: not found node index, accid='' @ accid)))
      | Some procs \<Rightarrow>
         (r\<lparr>reg_a2p := mput accid (mput pid pid procs) (reg_a2p r),
            reg_p2n := mput pid
              (case mget (reg_p2n r) pid of
                 None \<Rightarrow> [(node_AccId (reg_store r ! loc), loc)]
               | Some accs \<Rightarrow> mput accid loc accs) (reg_p2n r)\<rparr>, None)))"

definition Registry_UnregisterProcess :: "registry \<Rightarrow> string \<Rightarrow> string \<Rightarrow> registry \<times> vm_err option" where
  "Registry_UnregisterProcess r accid pid =
     (case mget (reg_a2p r) accid of
        None \<Rightarrow> (r, Some (ErrText
          (''registry db, UnregisterProcess failed: not found node, accid='' @ accid)))
      | Some procs \<Rightarrow>
         (let r1 = r\<lparr>reg_a2p := mput accid (mdel pid procs) (reg_a2p r)\<rparr>
          in case mget (reg_p2n r1) pid of
               None \<Rightarrow> (r1, None)
             | Some accs \<Rightarrow> (r1\<lparr>reg_p2n := mput pid (mdel accid accs) (reg_p2n r1)\<rparr>, None)))"

definition Registry_GetProcesses :: "registry \<Rightarrow> string \<Rightarrow> string list" where
  "Registry_GetProcesses r accid =
     (case mget (reg_a2p r) accid of None \<Rightarrow> [] | Some procs \<Rightarrow> mvals procs)"

definition Registry_GetNodesByProcess :: "registry \<Rightarrow> string \<Rightarrow> node list" where
  "Registry_GetNodesByProcess r pid =
     (case mget (reg_p2n r) pid of
        None \<Rightarrow> []
      | Some accs \<Rightarrow>
          concat (map (\<lambda>accid. case mget (reg_nodes r) accid of
                                 Some loc \<Rightarrow> if mget_or False (reg_registered r) accid
                                             then [reg_store r ! loc] else []
                               | None \<Rightarrow> []) (mkeys accs)))"

record registry_snapshot =
  rsn_Id :: string
  rsn_TokenPid :: string
  rsn_MainIndex :: string
  rsn_ProcessToNodeIndex :: "(string, (string, node) gomap) gomap"
  rsn_AccidToProcessesIndex :: "(string, (string, string) gomap) gomap"
  rsn_Registered :: "(string, bool) gomap"
  rsn_Nodes :: "(string, node) gomap"

definition Registry_Checkpoint :: "registry \<Rightarrow> registry_snapshot" where
  "Registry_Checkpoint r =
     \<lparr>rsn_Id = reg_id r, rsn_TokenPid = reg_tokenPid r, rsn_MainIndex = reg_mainIndex r,
      rsn_ProcessToNodeIndex = map_vals (map_vals (nth (reg_store r))) (reg_p2n r),
      rsn_AccidToProcessesIndex = reg_a2p r, rsn_Registered = reg_registered r,
      rsn_Nodes = map_vals (nth (reg_store r)) (reg_nodes r)\<rparr>"

text \<open>\<open>json.Unmarshal\<close> allocates one node per pointer it decodes.\<close>

fun alloc_nodes :: "node list \<Rightarrow> (string, node) gomap \<Rightarrow> node list \<times> (string, nat) gomap" where
  "alloc_nodes st [] = (st, [])"
| "alloc_nodes st ((k, n) # m) =
     (let (st', m') = alloc_nodes (st @ [n]) m in (st', (k, length st) # m'))"

fun alloc_index ::
  "node list \<Rightarrow> (string, (string, node) gomap) gomap \<Rightarrow> node list \<times> (string, (string, nat) gomap) gomap"
where
  "alloc_index st [] = (st, [])"
| "alloc_index st ((p, ns) # m) =
     (let (st1, ns') = alloc_nodes st ns; (st2, m') = alloc_index st1 m in (st2, (p, ns') # m'))"

definition Registry_Restore :: "registry \<Rightarrow> registry_snapshot \<Rightarrow> registry" where
  "Registry_Restore r sp =
     (let (st1, p2n) = alloc_index [] (rsn_ProcessToNodeIndex sp);
          (st2, nodes) = alloc_nodes st1 (rsn_Nodes sp)
      in r\<lparr>reg_id := rsn_Id sp, reg_tokenPid := rsn_TokenPid sp,
           reg_mainIndex := rsn_MainIndex sp, reg_p2n := p2n,
           reg_a2p := rsn_AccidToProcessesIndex sp, reg_registered := rsn_Registered sp,
           reg_nodes := nodes, reg_store := st2\<rparr>)"

subsection \<open>The contract of a two-way index\<close>

locale two_way_index =
  fixes fwd bwd :: "'s \<Rightarrow> 'a \<Rightarrow> 'p \<Rightarrow> bool"
    and known :: "'s \<Rightarrow> 'a \<Rightarrow> bool"
    and wf :: "'s \<Rightarrow> bool"
    and link unlink :: "'s \<Rightarrow> 'a \<Rightarrow> 'p \<Rightarrow> 's"
  assumes fwd_link: "wf s \<Longrightarrow> known s a \<Longrightarrow> fwd (link s a p) b q \<longleftrightarrow> fwd s b q \<or> b = a \<and> q = p"
    and bwd_link: "wf s \<Longrightarrow> known s a \<Longrightarrow> bwd (link s a p) b q \<longleftrightarrow> bwd s b q \<or> b = a \<and> q = p"
    and fwd_unlink: "wf s \<Longrightarrow> known s a \<Longrightarrow> fwd (unlink s a p) b q \<longleftrightarrow> fwd s b q \<and> \<not> (b = a \<and> q = p)"
    and bwd_unlink: "wf s \<Longrightarrow> known s a \<Longrightarrow> bwd (unlink s a p) b q \<longleftrightarrow> bwd s b q \<and> \<not> (b = a \<and> q = p)"
    and unknown: "wf s \<Longrightarrow> \<not> known s a \<Longrightarrow> link s a p = s" "wf s \<Longrightarrow> \<not> known s a \<Longrightarrow> unlink s a p = s"
    and wf_link: "wf s \<Longrightarrow> wf (link s a p)"
    and wf_unlink: "wf s \<Longrightarrow> wf (unlink s a p)"
begin

definition agree :: "'s \<Rightarrow> bool" where
  "agree s \<longleftrightarrow> (\<forall>b q. fwd s b q \<longleftrightarrow> bwd s b q)"

lemma agree_link: "wf s \<Longrightarrow> agree s \<Longrightarrow> agree (link s a p)"
  by (cases "known s a") (auto simp: agree_def fwd_link bwd_link unknown)

lemma agree_unlink: "wf s \<Longrightarrow> agree s \<Longrightarrow> agree (unlink s a p)"
  by (cases "known s a") (auto simp: agree_def fwd_unlink bwd_unlink unknown)

lemma link_other: "wf s \<Longrightarrow> q \<noteq> p \<Longrightarrow> bwd (link s a p) b q \<longleftrightarrow> bwd s b q"
  by (cases "known s a") (auto simp: bwd_link unknown)

lemma unlink_other: "wf s \<Longrightarrow> q \<noteq> p \<Longrightarrow> bwd (unlink s a p) b q \<longleftrightarrow> bwd s b q"
  by (cases "known s a") (auto simp: bwd_unlink unknown)

end

subsection \<open>Invariant and views of the store\<close>

text \<open>\<open>reg_linked r a p\<close>: process \<open>p\<close> is in the process index of account \<open>a\<close>; \<open>reg_served r a p\<close>:
  account \<open>a\<close> is in the node index of process \<open>p\<close>.\<close>

definition reg_linked :: "registry \<Rightarrow> string \<Rightarrow> string \<Rightarrow> bool" where
  "reg_linked r a p \<longleftrightarrow> (\<exists>ps. mget (reg_a2p r) a = Some ps \<and> mget ps p \<noteq> None)"

definition reg_served :: "registry \<Rightarrow> string \<Rightarrow> string \<Rightarrow> bool" where
  "reg_served r a p \<longleftrightarrow> (\<exists>ns. mget (reg_p2n r) p = Some ns \<and> mget ns a \<noteq> None)"

definition reg_known :: "registry \<Rightarrow> string \<Rightarrow> bool" where
  "reg_known r a \<longleftrightarrow> mget (reg_nodes r) a \<noteq> None"

text \<open>Every pointer reaches a node of the account it is filed under, no two accounts share one, and
  the three maps keyed by account have the same keys.\<close>

definition reg_wf :: "registry \<Rightarrow> bool" where
  "reg_wf r \<longleftrightarrow>
     (\<forall>k loc. mget (reg_nodes r) k = Some loc \<longrightarrow>
        loc < length (reg_store r) \<and> node_AccId (reg_store r ! loc) = k) \<and>
     (\<forall>p ns a loc. mget (reg_p2n r) p = Some ns \<longrightarrow> mget ns a = Some loc \<longrightarrow>
        loc < length (reg_store r) \<and> node_AccId (reg_store r ! loc) = a) \<and>
     (\<forall>k. mget (reg_registered r) k = None \<longleftrightarrow> mget (reg_nodes r) k = None) \<and>
     (\<forall>k. mget (reg_a2p r) k = None \<longleftrightarrow> mget (reg_nodes r) k = None) \<and>
     (\<forall>a ps. mget (reg_a2p r) a = Some ps \<longrightarrow> (\<forall>(p, q) \<in> set ps. q = p)) \<and>
     mwf (reg_nodes r)"

lemma reg_wf_D:
  assumes "reg_wf r"
  shows "mget (reg_nodes r) k = Some loc \<Longrightarrow> loc < length (reg_store r)"
    and "mget (reg_nodes r) k = Some loc \<Longrightarrow> node_AccId (reg_store r ! loc) = k"
    and "mget (reg_p2n r) p = Some ns \<Longrightarrow> mget ns a = Some loc \<Longrightarrow> loc < length (reg_store r)"
    and "mget (reg_p2n r) p = Some ns \<Longrightarrow> mget ns a = Some loc \<Longrightarrow> node_AccId (reg_store r ! loc) = a"
    and "mget (reg_registered r) k = None \<longleftrightarrow> mget (reg_nodes r) k = None"
    and "mget (reg_a2p r) k = None \<longleftrightarrow> mget (reg_nodes r) k = None"
    and "mget (reg_a2p r) a = Some ps \<Longrightarrow> (p, q) \<in> set ps \<Longrightarrow> q = p"
    and "mwf (reg_nodes r)"
  using assms unfolding reg_wf_def by blast+

lemma reg_wf_I:
  assumes "\<And>k loc. mget (reg_nodes r) k = Some loc \<Longrightarrow>
        loc < length (reg_store r) \<and> node_AccId (reg_store r ! loc) = k"
    and "\<And>p ns a loc. mget (reg_p2n r) p = Some ns \<Longrightarrow> mget ns a = Some loc \<Longrightarrow>
        loc < length (reg_store r) \<and> node_AccId (reg_store r ! loc) = a"
    and "\<And>k. mget (reg_registered r) k = None \<longleftrightarrow> mget (reg_nodes r) k = None"
    and "\<And>k. mget (reg_a2p r) k = None \<longleftrightarrow> mget (reg_nodes r) k = None"
    and "\<And>a ps p q. mget (reg_a2p r) a = Some ps \<Longrightarrow> (p, q) \<in> set ps \<Longrightarrow> q = p"
    and "mwf (reg_nodes r)"
  shows "reg_wf r"
  using assms unfolding reg_wf_def by blast

lemma NewRegistry_wf: "reg_wf (NewRegistry i t nd)"
  by (rule reg_wf_I) (auto simp: NewRegistry_def split: if_splits)

definition node_update :: "node \<Rightarrow> node \<Rightarrow> node" where
  "node_update old nd = old\<lparr>node_Name := node_Name nd, node_Role := node_Role nd,
     node_Desc := node_Desc nd, node_URL := node_URL nd\<rparr>"

lemma node_update_AccId [simp]: "node_AccId (node_update old nd) = node_AccId old"
  by (simp add: node_update_def)

lemma node_update_same: "node_AccId old = node_AccId nd \<Longrightarrow> node_update old nd = nd"
  by (cases old; cases nd) (simp add: node_update_def)

lemma Register_new:
  "mget (reg_registered r) (node_AccId nd) = None \<Longrightarrow> Registry_Register r nd =
     (r\<lparr>reg_a2p := mput (node_AccId nd) [] (reg_a2p r),
        reg_mainIndex := (if node_Role nd = RoleMain then node_AccId nd else reg_mainIndex r),
        reg_nodes := mput (node_AccId nd) (length (reg_store r)) (reg_nodes r),
        reg_store := reg_store r @ [nd],
        reg_registered := mput (node_AccId nd) True (reg_registered r)\<rparr>, None)"
  by (simp add: Registry_Register_def Let_def)

lemma Register_old:
  "mget (reg_registered r) (node_AccId nd) \<noteq> None \<Longrightarrow>
     mget (reg_nodes r) (node_AccId nd) = Some loc \<Longrightarrow> Registry_Register r nd =
     (r\<lparr>reg_store := (reg_store r)[loc := node_update (reg_store r ! loc) nd],
        reg_registered := mput (node_AccId nd) True (reg_registered r)\<rparr>, None)"
  by (auto simp: Registry_Register_def node_update_def Let_def)

lemma AccId_node_update_nth:
  "node_AccId (st[loc := node_update (st ! loc) nd] ! k) = node_AccId (st ! k)"
  by (cases "k = loc"; cases "loc < length st") (auto simp: list_update_beyond)

lemma Register_wf [inv_intros]:
  assumes wf: "reg_wf r" shows "reg_wf (fst (Registry_Register r nd))"
proof (cases "mget (reg_registered r) (node_AccId nd) = None")
  note D = reg_wf_D [OF wf]
  case True
  show ?thesis
    unfolding Register_new [OF True] fst_conv
    using D(1-4)
    by (intro reg_wf_I) (fastforce simp: nth_append D(5,6,8) dest: D(7) split: if_splits)+
next
  note D = reg_wf_D [OF wf]
  case False
  then obtain loc where l: "mget (reg_nodes r) (node_AccId nd) = Some loc"
    using D(5) [of "node_AccId nd"] by auto
  show ?thesis
    unfolding Register_old [OF False l] fst_conv
    using l by (intro reg_wf_I) (auto simp: AccId_node_update_nth D(5,6,8) dest: D(1-4,7))
qed

lemma Unregister_wf [inv_intros]:
  assumes wf: "reg_wf r" shows "reg_wf (fst (Registry_Unregister r a))"
proof -
  note D = reg_wf_D [OF wf]
  show ?thesis
    using D(5,6,8)
    by (intro reg_wf_I)
       (auto simp: Registry_Unregister_def dest: D(1,2,3,4,7) split: option.splits if_splits)
qed

lemma RegisterProcess_wf [inv_intros]:
  assumes wf: "reg_wf r" shows "reg_wf (fst (Registry_RegisterProcess r a p))"
proof -
  note D = reg_wf_D [OF wf]
  show ?thesis
    using D(5,6,8)
    by (intro reg_wf_I)
       (auto simp: Registry_RegisterProcess_def dest: D(1,2,3,4,7) dest!: mput_mem_cases
          split: option.splits if_splits)
qed

lemma UnregisterProcess_wf [inv_intros]:
  assumes wf: "reg_wf r" shows "reg_wf (fst (Registry_UnregisterProcess r a p))"
proof (cases "mget (reg_a2p r) a")
  case None
  with wf show ?thesis by (simp add: Registry_UnregisterProcess_def)
next
  case (Some ps)
  note D = reg_wf_D [OF wf]
  from Some have "mget (reg_nodes r) a \<noteq> None" using D(6) [of a] by simp
  with Some show ?thesis
    by (intro reg_wf_I)
       (auto simp: Registry_UnregisterProcess_def Let_def D(5,6,8) dest: D(1,2,3,4,7) dest!: mdel_mem
          split: option.splits if_splits)
qed

interpretation process_index: two_way_index reg_linked reg_served reg_known reg_wf
  "\<lambda>r a p. fst (Registry_RegisterProcess r a p)" "\<lambda>r a p. fst (Registry_UnregisterProcess r a p)"
proof unfold_locales
  fix r a p b q assume wf: "reg_wf r"
  note D = reg_wf_D [OF wf]
  show "reg_wf (fst (Registry_RegisterProcess r a p))" "reg_wf (fst (Registry_UnregisterProcess r a p))"
    by (rule inv_intros, rule wf)+
  {
    assume "\<not> reg_known r a"
    then show "fst (Registry_RegisterProcess r a p) = r" "fst (Registry_UnregisterProcess r a p) = r"
      using D(6) [of a]
      by (auto simp: reg_known_def Registry_RegisterProcess_def Registry_UnregisterProcess_def)
  next
    assume k: "reg_known r a"
    then obtain loc ps where l: "mget (reg_nodes r) a = Some loc" "mget (reg_a2p r) a = Some ps"
      using D(6) [of a] by (auto simp: reg_known_def)
    with D(2) have acc: "node_AccId (reg_store r ! loc) = a" by blast
    show "reg_linked (fst (Registry_RegisterProcess r a p)) b q \<longleftrightarrow> reg_linked r b q \<or> b = a \<and> q = p"
      "reg_linked (fst (Registry_UnregisterProcess r a p)) b q \<longleftrightarrow> reg_linked r b q \<and> \<not> (b = a \<and> q = p)"
      using l by (auto simp: reg_linked_def Registry_RegisterProcess_def
          Registry_UnregisterProcess_def Let_def split: option.splits)
    show "reg_served (fst (Registry_RegisterProcess r a p)) b q \<longleftrightarrow> reg_served r b q \<or> b = a \<and> q = p"
      "reg_served (fst (Registry_UnregisterProcess r a p)) b q \<longleftrightarrow> reg_served r b q \<and> \<not> (b = a \<and> q = p)"
      using l acc by (auto simp: reg_served_def Registry_RegisterProcess_def
          Registry_UnregisterProcess_def Let_def split: option.splits if_splits)
  }
qed

subsection \<open>What the queries see\<close>

lemma GetProcesses_linked:
  assumes "reg_wf r" shows "set (Registry_GetProcesses r a) = {p. reg_linked r a p}"
proof (cases "mget (reg_a2p r) a")
  case None
  then show ?thesis by (simp add: Registry_GetProcesses_def reg_linked_def)
next
  case (Some ps)
  have "set (mvals ps) = set (mkeys ps)"
    using reg_wf_D(7) [OF assms Some] by (force simp: image_iff)
  with Some show ?thesis
    by (auto simp: Registry_GetProcesses_def reg_linked_def mget_None_iff)
qed

lemma GetNode_Some_iff:
  "Registry_GetNode r a = Some n \<longleftrightarrow> mget (reg_registered r) a = Some True \<and>
     (\<exists>loc. mget (reg_nodes r) a = Some loc \<and> reg_store r ! loc = n)"
  by (auto simp: Registry_GetNode_def split: option.splits if_splits)

lemma GetNode_AccId: "reg_wf r \<Longrightarrow> Registry_GetNode r a = Some n \<Longrightarrow> node_AccId n = a"
  by (auto simp: GetNode_Some_iff dest: reg_wf_D(2))

lemma GetNodesByProcess_served:
  assumes "reg_wf r"
  shows "set (Registry_GetNodesByProcess r p) =
     {n. reg_served r (node_AccId n) p \<and> Registry_GetNode r (node_AccId n) = Some n}"
proof (cases "mget (reg_p2n r) p")
  case None
  then show ?thesis by (simp add: Registry_GetNodesByProcess_def reg_served_def)
next
  case (Some ns)
  have "set (Registry_GetNodesByProcess r p) =
      {n. \<exists>a \<in> set (mkeys ns). Registry_GetNode r a = Some n}"
    using Some by (auto simp: Registry_GetNodesByProcess_def GetNode_Some_iff
        split: option.splits if_splits) (metis (mono_tags, lifting) fst_conv option.distinct(1))+
  also have "\<dots> = {n. node_AccId n \<in> set (mkeys ns) \<and> Registry_GetNode r (node_AccId n) = Some n}"
    using GetNode_AccId [OF assms] by (auto simp del: set_map)
  finally show ?thesis
    using Some by (auto simp: reg_served_def mget_None_iff)
qed

lemma GetNodes_fold:
  "mwf m \<Longrightarrow> mget (foldl (\<lambda>ns (k, loc). if P k then mput k (f loc) ns else ns) acc m) k =
     (case mget m k of Some loc \<Rightarrow> if P k then Some (f loc) else mget acc k | None \<Rightarrow> mget acc k)"
proof (induction m arbitrary: acc)
  case (Cons e m)
  obtain a v where e: "e = (a, v)" by (cases e)
  with Cons.prems have "mwf m" "mget m a = None" by (auto simp: mwf_def mget_None_iff)
  with Cons.IH e show ?case by (auto split: option.splits)
qed simp

lemma mget_GetNodes: "reg_wf r \<Longrightarrow> mget (Registry_GetNodes r) k = Registry_GetNode r k"
  unfolding Registry_GetNodes_def
  by (subst GetNodes_fold) (auto dest: reg_wf_D(8) simp: Registry_GetNode_def split: option.splits)

lemma Register_GetNode:
  assumes wf: "reg_wf r"
  shows "Registry_GetNode (fst (Registry_Register r nd)) k =
    (if k = node_AccId nd then Some nd else Registry_GetNode r k)"
proof (cases "mget (reg_registered r) (node_AccId nd) = None")
  case True
  have "(reg_store r @ [nd]) ! loc = reg_store r ! loc" if "mget (reg_nodes r) k = Some loc" for loc
    using reg_wf_D(1) [OF wf that] by (simp add: nth_append)
  with True reg_wf_D(1) [OF wf] show ?thesis
    by (auto simp: Register_new Registry_GetNode_def nth_append split: option.splits)
next
  case False
  then obtain loc where l: "mget (reg_nodes r) (node_AccId nd) = Some loc"
    using reg_wf_D(5) [OF wf, of "node_AccId nd"] by auto
  then have loc: "loc < length (reg_store r)" "node_AccId (reg_store r ! loc) = node_AccId nd"
    using reg_wf_D(1,2) [OF wf] by auto
  have other: "loc' \<noteq> loc" if "mget (reg_nodes r) k = Some loc'" "k \<noteq> node_AccId nd" for loc'
    using reg_wf_D(2) [OF wf that(1)] loc(2) that(2) by auto
  show ?thesis
    using l loc other
    by (auto simp: Register_old [OF False l] Registry_GetNode_def node_update_same
        split: option.splits)
qed

lemma Unregister_GetNode:
  "Registry_GetNode (fst (Registry_Unregister r a)) k =
     (if k = a then None else Registry_GetNode r k)"
  by (auto simp: Registry_Unregister_def Registry_GetNode_def split: option.splits)

lemma process_ops_GetNode:
  "Registry_GetNode (fst (Registry_RegisterProcess r a p)) = Registry_GetNode r"
  "Registry_GetNode (fst (Registry_UnregisterProcess r a p)) = Registry_GetNode r"
  by (auto simp: Registry_RegisterProcess_def Registry_UnregisterProcess_def Registry_GetNode_def
      fun_eq_iff Let_def split: option.splits)

lemma Register_links:
  assumes wf: "reg_wf r"
  shows "reg_linked (fst (Registry_Register r nd)) = reg_linked r"
    and "reg_served (fst (Registry_Register r nd)) = reg_served r"
proof -
  have "reg_linked (fst (Registry_Register r nd)) = reg_linked r \<and>
        reg_served (fst (Registry_Register r nd)) = reg_served r"
  proof (cases "mget (reg_registered r) (node_AccId nd) = None")
    case True
    then have "mget (reg_a2p r) (node_AccId nd) = None" using reg_wf_D(5,6) [OF wf] by simp
    with True show ?thesis by (auto simp: Register_new reg_linked_def reg_served_def fun_eq_iff)
  next
    case False
    then obtain loc where l: "mget (reg_nodes r) (node_AccId nd) = Some loc"
      using reg_wf_D(5) [OF wf, of "node_AccId nd"] by auto
    show ?thesis by (auto simp: Register_old [OF False l] reg_linked_def reg_served_def fun_eq_iff)
  qed
  then show "reg_linked (fst (Registry_Register r nd)) = reg_linked r"
    and "reg_served (fst (Registry_Register r nd)) = reg_served r" by blast+
qed

lemma Unregister_links:
  "reg_linked (fst (Registry_Unregister r a)) = reg_linked r"
  "reg_served (fst (Registry_Unregister r a)) = reg_served r"
  by (auto simp: Registry_Unregister_def reg_linked_def reg_served_def fun_eq_iff
      split: option.splits)

text \<open>The invariant of the store: well-formed pointers and two indices that agree.\<close>

definition reg_inv :: "registry \<Rightarrow> bool" where
  "reg_inv r \<longleftrightarrow> reg_wf r \<and> (\<forall>a p. reg_linked r a p \<longleftrightarrow> reg_served r a p)"

lemma reg_inv_alt: "reg_inv r \<longleftrightarrow> reg_wf r \<and> process_index.agree r"
  by (simp add: reg_inv_def process_index.agree_def)

lemma NewRegistry_inv: "reg_inv (NewRegistry i t nd)"
  using NewRegistry_wf [of i t nd]
  by (auto simp: reg_inv_def NewRegistry_def reg_linked_def reg_served_def)

lemma Registry_ops_inv [inv_intros]:
  assumes "reg_inv r"
  shows "reg_inv (fst (Registry_Register r nd))" and "reg_inv (fst (Registry_Unregister r a))"
    and "reg_inv (fst (Registry_RegisterProcess r a p))"
    and "reg_inv (fst (Registry_UnregisterProcess r a p))"
proof -
  have wf: "reg_wf r" and agree: "process_index.agree r" using assms by (simp_all add: reg_inv_alt)
  show "reg_inv (fst (Registry_Register r nd))" "reg_inv (fst (Registry_Unregister r a))"
    using assms wf
    by (simp_all add: reg_inv_def Register_wf Register_links Unregister_wf Unregister_links)
  show "reg_inv (fst (Registry_RegisterProcess r a p))"
    "reg_inv (fst (Registry_UnregisterProcess r a p))"
    using wf agree unfolding reg_inv_alt
    by (simp_all add: process_index.wf_link process_index.agree_link process_index.wf_unlink
        process_index.agree_unlink)
qed

subsection \<open>A restored registry behaves as the one it was taken from\<close>

lemma alloc_Cons [simp]:
  "fst (alloc_nodes st ((k, n) # m)) = fst (alloc_nodes (st @ [n]) m)"
  "snd (alloc_nodes st ((k, n) # m)) = (k, length st) # snd (alloc_nodes (st @ [n]) m)"
  "fst (alloc_index st ((p, ns) # im)) = fst (alloc_index (fst (alloc_nodes st ns)) im)"
  "snd (alloc_index st ((p, ns) # im)) =
     (p, snd (alloc_nodes st ns)) # snd (alloc_index (fst (alloc_nodes st ns)) im)"
  by (simp_all split: prod.splits)

declare alloc_nodes.simps(2) [simp del] alloc_index.simps(2) [simp del]

lemma alloc_nodes_store: "fst (alloc_nodes st m) = st @ mvals m"
  by (induction m arbitrary: st) auto

lemma alloc_nodes_reads:
  "map_vals (nth (fst (alloc_nodes st m) @ xs)) (snd (alloc_nodes st m)) = m"
proof (induction m arbitrary: st)
  case (Cons e m)
  from Cons [of "st @ [snd e]"] show ?case by (cases e) (simp add: alloc_nodes_store)
qed simp

lemma alloc_nodes_bound:
  "mget (snd (alloc_nodes st m)) k = Some loc \<Longrightarrow> loc < length (fst (alloc_nodes st m))"
proof (induction m arbitrary: st)
  case (Cons e m)
  from Cons(1) [of "st @ [snd e]"] Cons(2) show ?case
    by (cases e) (auto simp: alloc_nodes_store split: if_splits)
qed simp

lemma alloc_index_prefix: "\<exists>xs. fst (alloc_index st m) = st @ xs"
proof (induction m arbitrary: st)
  case (Cons e m)
  obtain p ns where e: "e = (p, ns)" by (cases e)
  from Cons [of "st @ mvals ns"] show ?case by (auto simp: e alloc_nodes_store)
qed simp

lemma alloc_index_reads:
  "map_vals (map_vals (nth (fst (alloc_index st m) @ xs))) (snd (alloc_index st m)) = m"
proof (induction m arbitrary: st)
  case (Cons e m)
  obtain p ns where e: "e = (p, ns)" by (cases e)
  obtain ys where "fst (alloc_index (fst (alloc_nodes st ns)) m) = fst (alloc_nodes st ns) @ ys"
    using alloc_index_prefix by blast
  then show ?case
    using alloc_nodes_reads [of st ns "ys @ xs"] Cons [of "fst (alloc_nodes st ns)"] by (simp add: e)
qed simp

lemma alloc_index_bound:
  "mget (snd (alloc_index st m)) p = Some ns \<Longrightarrow> mget ns a = Some loc \<Longrightarrow>
     loc < length (fst (alloc_index st m))"
proof (induction m arbitrary: st)
  case (Cons e m)
  obtain q ns0 where e: "e = (q, ns0)" by (cases e)
  obtain ys where "fst (alloc_index (fst (alloc_nodes st ns0)) m) = fst (alloc_nodes st ns0) @ ys"
    using alloc_index_prefix by blast
  then show ?case
    using Cons.IH [of "fst (alloc_nodes st ns0)"] Cons.prems alloc_nodes_bound [of st ns0 a loc]
    by (auto simp: e split: if_splits)
qed simp

definition reg_sim :: "registry \<Rightarrow> registry \<Rightarrow> bool" where
  "reg_sim r r' \<longleftrightarrow> reg_wf r \<and> reg_wf r' \<and>
     reg_id r' = reg_id r \<and> reg_tokenPid r' = reg_tokenPid r \<and>
     reg_mainIndex r' = reg_mainIndex r \<and> reg_registered r' = reg_registered r \<and>
     reg_a2p r' = reg_a2p r \<and>
     map_vals mkeys (reg_p2n r') = map_vals mkeys (reg_p2n r) \<and>
     map_vals (nth (reg_store r')) (reg_nodes r') = map_vals (nth (reg_store r)) (reg_nodes r)"

lemma map_vals_eq_mget:
  "map_vals f m = map_vals g m' \<Longrightarrow> map_option f (mget m k) = map_option g (mget m' k)"
  by (metis mget_map_vals)

lemma Restore_Checkpoint_fields:
  "map_vals (nth (reg_store (Registry_Restore r0 (Registry_Checkpoint r))))
     (reg_nodes (Registry_Restore r0 (Registry_Checkpoint r))) = map_vals (nth (reg_store r)) (reg_nodes r)"
  "map_vals (map_vals (nth (reg_store (Registry_Restore r0 (Registry_Checkpoint r)))))
     (reg_p2n (Registry_Restore r0 (Registry_Checkpoint r))) = map_vals (map_vals (nth (reg_store r))) (reg_p2n r)"
  "mget (reg_nodes (Registry_Restore r0 (Registry_Checkpoint r))) k = Some loc \<Longrightarrow>
     loc < length (reg_store (Registry_Restore r0 (Registry_Checkpoint r)))"
  "mget (reg_p2n (Registry_Restore r0 (Registry_Checkpoint r))) p = Some ns \<Longrightarrow> mget ns a = Some loc \<Longrightarrow>
     loc < length (reg_store (Registry_Restore r0 (Registry_Checkpoint r)))"
proof -
  let ?pn = "map_vals (map_vals (nth (reg_store r))) (reg_p2n r)"
  let ?nn = "map_vals (nth (reg_store r)) (reg_nodes r)"
  obtain st1 p2n where 1: "alloc_index [] ?pn = (st1, p2n)" by fastforce
  obtain st2 nodes where 2: "alloc_nodes st1 ?nn = (st2, nodes)" by fastforce
  have st2: "st2 = st1 @ mvals ?nn" using alloc_nodes_store [of st1 ?nn] 2 by simp
  have r: "reg_store (Registry_Restore r0 (Registry_Checkpoint r)) = st2"
    "reg_nodes (Registry_Restore r0 (Registry_Checkpoint r)) = nodes"
    "reg_p2n (Registry_Restore r0 (Registry_Checkpoint r)) = p2n"
    using 1 2 by (simp_all add: Registry_Restore_def Registry_Checkpoint_def)
  show "map_vals (nth (reg_store (Registry_Restore r0 (Registry_Checkpoint r))))
     (reg_nodes (Registry_Restore r0 (Registry_Checkpoint r))) = ?nn"
    using alloc_nodes_reads [of st1 ?nn "[]"] 2 by (simp add: r)
  show "map_vals (map_vals (nth (reg_store (Registry_Restore r0 (Registry_Checkpoint r)))))
     (reg_p2n (Registry_Restore r0 (Registry_Checkpoint r))) = ?pn"
    using alloc_index_reads [of "[]" ?pn "mvals ?nn"] 1 by (simp add: r st2)
  show "loc < length (reg_store (Registry_Restore r0 (Registry_Checkpoint r)))"
    if "mget (reg_nodes (Registry_Restore r0 (Registry_Checkpoint r))) k = Some loc"
    using alloc_nodes_bound [of st1 ?nn k loc] that 2 by (simp add: r)
  show "loc < length (reg_store (Registry_Restore r0 (Registry_Checkpoint r)))"
    if "mget (reg_p2n (Registry_Restore r0 (Registry_Checkpoint r))) p = Some ns" "mget ns a = Some loc"
    using alloc_index_bound [of "[]" ?pn p ns a loc] that 1 by (simp add: r st2)
qed

lemma Restore_Checkpoint_sim:
  assumes wf: "reg_wf r"
  shows "reg_sim r (Registry_Restore r0 (Registry_Checkpoint r))"
proof -
  let ?r = "Registry_Restore r0 (Registry_Checkpoint r)"
  note D = reg_wf_D [OF wf] and F = Restore_Checkpoint_fields [of r0 r]
  have same: "reg_id ?r = reg_id r" "reg_tokenPid ?r = reg_tokenPid r"
    "reg_mainIndex ?r = reg_mainIndex r" "reg_registered ?r = reg_registered r"
    "reg_a2p ?r = reg_a2p r"
    by (simp_all add: Registry_Restore_def Registry_Checkpoint_def split: prod.splits)
  have nodes: "map_option (nth (reg_store ?r)) (mget (reg_nodes ?r) k) =
      map_option (nth (reg_store r)) (mget (reg_nodes r) k)" for k
    by (rule map_vals_eq_mget [OF F(1)])
  have p2n: "map_option (map_vals (nth (reg_store ?r))) (mget (reg_p2n ?r) p) =
      map_option (map_vals (nth (reg_store r))) (mget (reg_p2n r) p)" for p
    by (rule map_vals_eq_mget [OF F(2)])
  have keys: "mkeys (reg_nodes ?r) = mkeys (reg_nodes r)"
    using arg_cong [OF F(1), of mkeys] by simp
  have inner: "map_vals mkeys (reg_p2n ?r) = map_vals mkeys (reg_p2n r)"
    using arg_cong [OF F(2), of "map_vals mkeys"] by (simp add: comp_def)
  have "reg_wf ?r"
  proof (rule reg_wf_I)
    fix k loc assume l: "mget (reg_nodes ?r) k = Some loc"
    then obtain loc' where "mget (reg_nodes r) k = Some loc'"
      "reg_store r ! loc' = reg_store ?r ! loc"
      using nodes [of k] by (cases "mget (reg_nodes r) k") auto
    with F(3) [OF l] D(2) show "loc < length (reg_store ?r) \<and> node_AccId (reg_store ?r ! loc) = k"
      by metis
  next
    fix p ns a loc assume l: "mget (reg_p2n ?r) p = Some ns" "mget ns a = Some loc"
    then obtain ns' where ns': "mget (reg_p2n r) p = Some ns'"
      "map_vals (nth (reg_store r)) ns' = map_vals (nth (reg_store ?r)) ns"
      using p2n [of p] by (cases "mget (reg_p2n r) p") auto
    from map_vals_eq_mget [OF ns'(2), of a] l(2) obtain loc' where
      "mget ns' a = Some loc'" "reg_store r ! loc' = reg_store ?r ! loc"
      by (cases "mget ns' a") auto
    with F(4) [OF l] D(4) [OF ns'(1)]
    show "loc < length (reg_store ?r) \<and> node_AccId (reg_store ?r ! loc) = a" by metis
  qed (use D(5,6,7,8) mkeys_cong_mget [OF keys] in \<open>auto simp: same mwf_def keys\<close>)
  with wf F(1) inner show ?thesis by (simp add: reg_sim_def same)
qed

text \<open>The similarity is kept by every operation, which returns the same error on both sides.\<close>

lemma reg_sim_get:
  assumes "reg_sim r r'"
  shows "map_option (nth (reg_store r')) (mget (reg_nodes r') k) =
      map_option (nth (reg_store r)) (mget (reg_nodes r) k)"
    and "map_option mkeys (mget (reg_p2n r') p) = map_option mkeys (mget (reg_p2n r) p)"
proof -
  have "map_vals (nth (reg_store r')) (reg_nodes r') = map_vals (nth (reg_store r)) (reg_nodes r)"
    and "map_vals mkeys (reg_p2n r') = map_vals mkeys (reg_p2n r)"
    using assms by (simp_all add: reg_sim_def)
  from this [THEN map_vals_eq_mget]
  show "map_option (nth (reg_store r')) (mget (reg_nodes r') k) =
      map_option (nth (reg_store r)) (mget (reg_nodes r) k)"
    and "map_option mkeys (mget (reg_p2n r') p) = map_option mkeys (mget (reg_p2n r) p)"
    by blast+
qed

lemma reg_sim_nodes:
  assumes "reg_sim r r'"
  shows "mget (reg_nodes r) k = None \<Longrightarrow> mget (reg_nodes r') k = None"
    and "mget (reg_nodes r) k = Some loc \<Longrightarrow>
      \<exists>loc'. mget (reg_nodes r') k = Some loc' \<and> reg_store r' ! loc' = reg_store r ! loc"
  using reg_sim_get(1) [OF assms, of k] by (cases "mget (reg_nodes r') k"; simp)+

lemma reg_sim_wf: "reg_sim r r' \<Longrightarrow> reg_wf r \<and> reg_wf r'"
  by (simp add: reg_sim_def)

lemma nodes_update_reads:
  assumes wf: "reg_wf r" and l: "mget (reg_nodes r) (node_AccId nd) = Some loc"
  shows "map_vals (nth ((reg_store r)[loc := node_update (reg_store r ! loc) nd])) (reg_nodes r) =
     mput (node_AccId nd) nd (map_vals (nth (reg_store r)) (reg_nodes r))"
proof -
  have len: "loc < length (reg_store r)" and acc: "node_AccId (reg_store r ! loc) = node_AccId nd"
    using reg_wf_D(1,2) [OF wf l] by auto
  have "map_vals (nth ((reg_store r)[loc := node_update (reg_store r ! loc) nd])) m =
      mput (node_AccId nd) nd (map_vals (nth (reg_store r)) m)"
    if "mget m (node_AccId nd) = Some loc" "mwf m"
      "\<And>k loc. mget m k = Some loc \<Longrightarrow> node_AccId (reg_store r ! loc) = k" for m
    using that
  proof (induction m)
    case (Cons e m)
    obtain k v where e: "e = (k, v)" by (cases e)
    from Cons.prems e have new: "mget m k = None" and wm: "mwf m"
      by (auto simp: mwf_def mget_None_iff)
    have sub: "\<And>k' loc'. mget m k' = Some loc' \<Longrightarrow> node_AccId (reg_store r ! loc') = k'"
      using Cons.prems(3) new e by (metis map_of_Cons_code(2) option.distinct(1))
    show ?case
    proof (cases "k = node_AccId nd")
      case True
      have "loc' \<noteq> loc" if "(k', loc') \<in> set m" for k' loc'
        using sub that wm new True acc by (metis mwf_mget_iff option.distinct(1))
      then have "map_vals (nth ((reg_store r)[loc := node_update (reg_store r ! loc) nd])) m =
          map_vals (nth (reg_store r)) m"
        by (auto simp: map_vals_def) (metis nth_list_update_neq)
      with True e Cons.prems(1) len acc show ?thesis by (simp add: node_update_same)
    next
      case False
      have "v \<noteq> loc" using Cons.prems(3) [of k v] e False acc by auto
      with False Cons e wm sub show ?thesis by simp
    qed
  qed simp
  with l reg_wf_D(2,8) [OF wf] show ?thesis by blast
qed

lemma map_vals_append_store:
  "(\<And>k loc. (k, loc) \<in> set m \<Longrightarrow> loc < length st) \<Longrightarrow>
     map_vals (nth (st @ ys)) m = map_vals (nth st) m"
  by (force simp: map_vals_def nth_append)

lemma Register_sim:
  assumes sim: "reg_sim r r'"
  shows "reg_sim (fst (Registry_Register r nd)) (fst (Registry_Register r' nd))"
    and "snd (Registry_Register r nd) = snd (Registry_Register r' nd)"
proof -
  have wf: "reg_wf r" "reg_wf r'" using reg_sim_wf [OF sim] by auto
  note wf' = Register_wf [OF wf(1), of nd] Register_wf [OF wf(2), of nd]
  have "reg_sim (fst (Registry_Register r nd)) (fst (Registry_Register r' nd)) \<and>
      snd (Registry_Register r nd) = snd (Registry_Register r' nd)"
  proof (cases "mget (reg_registered r) (node_AccId nd) = None")
    case True
    with sim have True': "mget (reg_registered r') (node_AccId nd) = None" by (simp add: reg_sim_def)
    have mv: "map_vals (nth (reg_store r @ [nd])) (reg_nodes r) = map_vals (nth (reg_store r)) (reg_nodes r)"
      "map_vals (nth (reg_store r' @ [nd])) (reg_nodes r') = map_vals (nth (reg_store r')) (reg_nodes r')"
      using reg_wf_D(1,8) [OF wf(1)] reg_wf_D(1,8) [OF wf(2)]
      by (auto intro!: map_vals_append_store simp: mwf_mget_iff [symmetric])
    show ?thesis
      using sim wf' mv by (simp add: reg_sim_def Register_new [OF True] Register_new [OF True'])
  next
    case False
    with sim have False': "mget (reg_registered r') (node_AccId nd) \<noteq> None" by (simp add: reg_sim_def)
    from False obtain loc where l: "mget (reg_nodes r) (node_AccId nd) = Some loc"
      using reg_wf_D(5) [OF wf(1), of "node_AccId nd"] by auto
    from reg_sim_nodes(2) [OF sim l] obtain loc' where l': "mget (reg_nodes r') (node_AccId nd) = Some loc'"
      by auto
    show ?thesis
      using sim wf' nodes_update_reads [OF wf(1) l] nodes_update_reads [OF wf(2) l']
      by (simp add: reg_sim_def Register_old [OF False l] Register_old [OF False' l'])
  qed
  then show "reg_sim (fst (Registry_Register r nd)) (fst (Registry_Register r' nd))"
    and "snd (Registry_Register r nd) = snd (Registry_Register r' nd)" by blast+
qed

lemma Unregister_sim:
  assumes sim: "reg_sim r r'"
  shows "reg_sim (fst (Registry_Unregister r a)) (fst (Registry_Unregister r' a))"
    and "snd (Registry_Unregister r a) = snd (Registry_Unregister r' a)"
proof -
  have same: "(mget (reg_nodes r') a = None) = (mget (reg_nodes r) a = None)"
    using reg_sim_nodes [OF sim, of a] by (cases "mget (reg_nodes r) a") auto
  show "reg_sim (fst (Registry_Unregister r a)) (fst (Registry_Unregister r' a))"
    using sim Unregister_wf [of r a] Unregister_wf [of r' a] same
    by (cases "mget (reg_nodes r) a"; cases "mget (reg_nodes r') a")
       (simp_all add: reg_sim_def Registry_Unregister_def)
  show "snd (Registry_Unregister r a) = snd (Registry_Unregister r' a)"
    by (simp add: Registry_Unregister_def split: option.splits)
qed

lemma RegisterProcess_sim:
  assumes sim: "reg_sim r r'"
  shows "reg_sim (fst (Registry_RegisterProcess r a p)) (fst (Registry_RegisterProcess r' a p))"
    and "snd (Registry_RegisterProcess r a p) = snd (Registry_RegisterProcess r' a p)"
proof -
  have wf: "reg_wf r" "reg_wf r'" using reg_sim_wf [OF sim] by auto
  note wf' = RegisterProcess_wf [OF wf(1), of a p] RegisterProcess_wf [OF wf(2), of a p]
  have "reg_sim (fst (Registry_RegisterProcess r a p)) (fst (Registry_RegisterProcess r' a p)) \<and>
      snd (Registry_RegisterProcess r a p) = snd (Registry_RegisterProcess r' a p)"
  proof (cases "mget (reg_nodes r) a")
    case None
    with sim reg_sim_nodes(1) [OF sim] show ?thesis by (simp add: Registry_RegisterProcess_def)
  next
    case (Some loc)
    from reg_sim_nodes(2) [OF sim Some] obtain loc' where
      l': "mget (reg_nodes r') a = Some loc'" "reg_store r' ! loc' = reg_store r ! loc" by blast
    obtain ps where ps: "mget (reg_a2p r) a = Some ps" "mget (reg_a2p r') a = Some ps"
      using Some reg_wf_D(6) [OF wf(1), of a] sim by (auto simp: reg_sim_def)
    have acc: "node_AccId (reg_store r ! loc) = a" using reg_wf_D(2) [OF wf(1) Some] .
    have "reg_sim (fst (Registry_RegisterProcess r a p)) (fst (Registry_RegisterProcess r' a p))"
      using sim wf' Some l' ps acc reg_sim_get(2) [OF sim, of p]
      by (cases "mget (reg_p2n r) p"; cases "mget (reg_p2n r') p")
         (auto simp: reg_sim_def Registry_RegisterProcess_def intro: mkeys_mput_cong
           intro!: arg_cong [where f = "\<lambda>ks. mput p ks _"])
    then show ?thesis using Some l' ps by (simp add: Registry_RegisterProcess_def)
  qed
  then show "reg_sim (fst (Registry_RegisterProcess r a p)) (fst (Registry_RegisterProcess r' a p))"
    and "snd (Registry_RegisterProcess r a p) = snd (Registry_RegisterProcess r' a p)" by blast+
qed

lemma UnregisterProcess_sim:
  assumes sim: "reg_sim r r'"
  shows "reg_sim (fst (Registry_UnregisterProcess r a p)) (fst (Registry_UnregisterProcess r' a p))"
    and "snd (Registry_UnregisterProcess r a p) = snd (Registry_UnregisterProcess r' a p)"
proof -
  have wf: "reg_wf r" "reg_wf r'" and a2p: "reg_a2p r' = reg_a2p r"
    using sim by (auto simp: reg_sim_def)
  note wf' = UnregisterProcess_wf [OF wf(1), of a p] UnregisterProcess_wf [OF wf(2), of a p]
  show "snd (Registry_UnregisterProcess r a p) = snd (Registry_UnregisterProcess r' a p)"
    by (auto simp: Registry_UnregisterProcess_def a2p Let_def split: option.splits)
  show "reg_sim (fst (Registry_UnregisterProcess r a p)) (fst (Registry_UnregisterProcess r' a p))"
    using sim wf' reg_sim_get(2) [OF sim, of p]
    by (cases "mget (reg_a2p r) a"; cases "mget (reg_p2n r) p"; cases "mget (reg_p2n r') p")
       (auto simp: reg_sim_def Registry_UnregisterProcess_def a2p Let_def intro: mkeys_mdel_cong
         intro!: arg_cong [where f = "\<lambda>ks. mput p ks _"])
qed

lemma queries_sim:
  assumes sim: "reg_sim r r'"
  shows "Registry_GetNode r a = Registry_GetNode r' a"
    and "Registry_GetProcesses r a = Registry_GetProcesses r' a"
    and "Registry_GetNodesByProcess r p = Registry_GetNodesByProcess r' p"
    and "Registry_GetNodes r = Registry_GetNodes r'"
proof -
  have reg: "reg_registered r' = reg_registered r" and a2p: "reg_a2p r' = reg_a2p r"
    using sim by (auto simp: reg_sim_def)
  show "Registry_GetNode r a = Registry_GetNode r' a"
    using reg_sim_nodes [OF sim, of a]
    by (cases "mget (reg_nodes r) a") (auto simp: Registry_GetNode_def reg)
  show "Registry_GetProcesses r a = Registry_GetProcesses r' a"
    by (simp add: Registry_GetProcesses_def a2p)
  have "(case mget (reg_nodes r) a of Some loc \<Rightarrow> if mget_or False (reg_registered r) a
        then [reg_store r ! loc] else [] | None \<Rightarrow> []) =
      (case mget (reg_nodes r') a of Some loc \<Rightarrow> if mget_or False (reg_registered r') a
        then [reg_store r' ! loc] else [] | None \<Rightarrow> [])" for a
    using reg_sim_nodes [OF sim, of a] by (cases "mget (reg_nodes r) a") (auto simp: reg)
  then show "Registry_GetNodesByProcess r p = Registry_GetNodesByProcess r' p"
    using reg_sim_get(2) [OF sim, of p]
    by (cases "mget (reg_p2n r) p"; cases "mget (reg_p2n r') p")
       (auto simp: Registry_GetNodesByProcess_def)
  have fold_eq: "foldl (\<lambda>ns (k, loc). if P k then mput k (f loc) ns else ns) acc m =
      foldl (\<lambda>ns (k, loc). if P k then mput k (g loc) ns else ns) acc m'"
    if "map_vals f m = map_vals g m'" for P :: "string \<Rightarrow> bool" and f g :: "nat \<Rightarrow> node" and acc m m'
    using that
  proof (induction m arbitrary: m' acc)
    case (Cons e m)
    then obtain e' n' where "m' = e' # n'" by (cases m') (auto simp: map_vals_def)
    with Cons show ?case by (cases e; cases e') auto
  qed (simp add: map_vals_def)
  have "map_vals (nth (reg_store r)) (reg_nodes r) = map_vals (nth (reg_store r')) (reg_nodes r')"
    using sim by (simp add: reg_sim_def)
  from fold_eq [OF this] show "Registry_GetNodes r = Registry_GetNodes r'"
    unfolding Registry_GetNodes_def reg .
qed

end
