(* ===== verification/RegistryVm.thy ===== *)
theory RegistryVm
  imports RegistryDb
begin

text \<open>
  The core registry machine (vmm/core/registry): who may register a node or attach a process to
  it, one handler per action, and \<open>Apply\<close>.
\<close>

subsection \<open>Handlers (handle.go)\<close>

definition authToken :: "registry \<Rightarrow> string \<Rightarrow> vm_err option" where
  "authToken r from = (if from \<noteq> reg_tokenPid r then Some ErrRegUnauthorized else None)"

definition authProc ::
  "registry \<Rightarrow> string \<Rightarrow> (string, string) gomap \<Rightarrow> vm_err + string \<times> string" where
  "authProc r from params =
     (case mget params ''Pid'' of
        None \<Rightarrow> Inl ErrRegMissingParam
      | Some pid \<Rightarrow>
     (if pid \<noteq> from then Inl ErrRegUnauthorized
      else
     (case mget params ''Acc-Id'' of
        None \<Rightarrow> Inl ErrRegMissingParam
      | Some accid \<Rightarrow>
     (case Registry_GetNode r accid of
        None \<Rightarrow> Inl ErrNodeNotFound
      | Some _ \<Rightarrow> Inr (pid, accid)))))"

definition data_result :: "string \<Rightarrow> vm_result" where
  "data_result d = zero_result\<lparr>res_Data := d\<rparr>"

definition handleRegister ::
  "extlib \<Rightarrow> registry \<Rightarrow> string \<Rightarrow> (string, string) gomap \<Rightarrow> registry \<times> (vm_err + vm_result)" where
  "handleRegister lib r from params =
     (case authToken r from of
        Some e \<Rightarrow> (r, Inl e)
      | None \<Rightarrow>
     (case registry_Decode lib params of
        Inl e \<Rightarrow> (r, Inl e)
      | Inr nd \<Rightarrow>
     (case Registry_Register r nd of
        (r', Some e) \<Rightarrow> (r', Inl e)
      | (r', None) \<Rightarrow>
          (r', Inr (data_result (''Node registered successfully, Acc-Id:'' @ node_AccId nd))))))"

definition handleUnregister ::
  "registry \<Rightarrow> string \<Rightarrow> (string, string) gomap \<Rightarrow> registry \<times> (vm_err + vm_result)" where
  "handleUnregister r from params =
     (case authToken r from of
        Some e \<Rightarrow> (r, Inl e)
      | None \<Rightarrow>
     (case mget params ''Acc-Id'' of
        None \<Rightarrow> (r, Inl ErrRegMissingParam)
      | Some accid \<Rightarrow>
     (case Registry_Unregister r accid of
        (r', Some e) \<Rightarrow> (r', Inl e)
      | (r', None) \<Rightarrow>
          (r', Inr (data_result (''Node unregistered successfully, Acc-Id:'' @ accid))))))"

definition handleRegisterProcess ::
  "registry \<Rightarrow> string \<Rightarrow> (string, string) gomap \<Rightarrow> registry \<times> (vm_err + vm_result)" where
  "handleRegisterProcess r from params =
     (case authProc r from params of
        Inl e \<Rightarrow> (r, Inl e)
      | Inr (pid, accid) \<Rightarrow>
     (case Registry_RegisterProcess r accid pid of
        (r', Some e) \<Rightarrow> (r', Inl e)
      | (r', None) \<Rightarrow>
          (r', Inr (data_result
            (''Process registered successfully, Acc-Id:'' @ accid @ '', Pid:'' @ pid)))))"

definition handleUnregisterProcess ::
  "registry \<Rightarrow> string \<Rightarrow> (string, string) gomap \<Rightarrow> registry \<times> (vm_err + vm_result)" where
  "handleUnregisterProcess r from params =
     (case authProc r from params of
        Inl e \<Rightarrow> (r, Inl e)
      | Inr (pid, accid) \<Rightarrow>
     (case Registry_UnregisterProcess r accid pid of
        (r', Some e) \<Rightarrow> (r', Inl e)
      | (r', None) \<Rightarrow>
          (r', Inr (data_result
            (''Process unregistered successfully, Acc-Id:'' @ accid @ '', Pid:'' @ pid)))))"

definition Registry_dispatch ::
  "extlib \<Rightarrow> registry \<Rightarrow> string \<Rightarrow> meta \<Rightarrow> registry \<times> (vm_err + vm_result)" where
  "Registry_dispatch lib r from m =
     (let a = meta_Action m; ps = meta_Params m
      in if a = ''Register'' then handleRegister lib r from ps
         else if a = ''Unregister'' then handleUnregister r from ps
         else if a = ''RegisterProcess'' then handleRegisterProcess r from ps
         else if a = ''UnregisterProcess'' then handleUnregisterProcess r from ps
         else (r, Inl ErrRegInvalidAction))"

definition Registry_Apply :: "extlib \<Rightarrow> registry \<Rightarrow> string \<Rightarrow> meta \<Rightarrow> registry \<times> vm_result" where
  "Registry_Apply lib r from m =
     (case Registry_dispatch lib r from m of (r', res) \<Rightarrow> (r', apply_result res))"

subsection \<open>What a message can do to the store\<close>

text \<open>One case per operation of the store, with the authority its handler checked.\<close>

inductive reg_move :: "registry \<Rightarrow> string \<Rightarrow> registry \<Rightarrow> bool" for r :: registry and "from" :: string where
  reg_idle: "reg_move r from r"
| reg_register: "from = reg_tokenPid r \<Longrightarrow> node_Role nd = RoleFollower \<Longrightarrow>
     reg_move r from (fst (Registry_Register r nd))"
| reg_unregister: "from = reg_tokenPid r \<Longrightarrow> reg_move r from (fst (Registry_Unregister r a))"
| reg_link: "Registry_GetNode r a \<noteq> None \<Longrightarrow> reg_move r from (fst (Registry_RegisterProcess r a from))"
| reg_unlink: "Registry_GetNode r a \<noteq> None \<Longrightarrow> reg_move r from (fst (Registry_UnregisterProcess r a from))"

inductive_cases reg_moveE: "reg_move r from r'"

lemma store_ops_error:
  assumes "reg_wf r"
  shows "snd (Registry_Register r nd) = None" and "snd (Registry_Unregister r a) = None"
    and "snd (Registry_RegisterProcess r a p) = Some e \<Longrightarrow> fst (Registry_RegisterProcess r a p) = r"
    and "snd (Registry_UnregisterProcess r a p) = Some e \<Longrightarrow> fst (Registry_UnregisterProcess r a p) = r"
  using reg_wf_D(5) [OF assms, of "node_AccId nd"]
  by (auto simp: Registry_Register_def Registry_Unregister_def Registry_RegisterProcess_def
      Registry_UnregisterProcess_def Let_def split: option.splits)

lemma authProc_ok:
  "authProc r from ps = Inr (pid, accid) \<Longrightarrow>
     pid = from \<and> mget ps ''Pid'' = Some from \<and> mget ps ''Acc-Id'' = Some accid \<and>
     Registry_GetNode r accid \<noteq> None"
  by (auto simp: authProc_def split: option.splits if_splits)

lemma authToken_ok: "authToken r from = None \<longleftrightarrow> from = reg_tokenPid r"
  by (simp add: authToken_def)

definition reg_outcome :: "registry \<Rightarrow> string \<Rightarrow> registry \<times> (vm_err + vm_result) \<Rightarrow> bool" where
  "reg_outcome r from q \<longleftrightarrow> reg_move r from (fst q) \<and>
     (case snd q of Inl _ \<Rightarrow> fst q = r | Inr v \<Rightarrow> res_Error v = None)"

lemma reg_outcome_error [simp]: "reg_outcome r from (r, Inl e)"
  by (simp add: reg_outcome_def reg_idle)

lemma reg_outcome_store:
  assumes "reg_move r from (fst q)" and "\<And>e. snd q = Some e \<Longrightarrow> fst q = r"
  shows "reg_outcome r from (case q of (r', Some e) \<Rightarrow> (r', Inl e) | (r', None) \<Rightarrow> (r', Inr (data_result d)))"
  using assms
  by (cases q; cases "snd q") (auto simp: reg_outcome_def data_result_def zero_result_def)

lemma handlers_outcome:
  assumes wf: "reg_wf r"
  shows "reg_outcome r from (handleRegister lib r from ps)"
    and "reg_outcome r from (handleUnregister r from ps)"
    and "reg_outcome r from (handleRegisterProcess r from ps)"
    and "reg_outcome r from (handleUnregisterProcess r from ps)"
  unfolding handleRegister_def handleUnregister_def handleRegisterProcess_def
    handleUnregisterProcess_def
  using store_ops_error [OF wf] 
  by (auto split: sum.splits option.splits[where option = "authToken _ _"]
      option.splits[where option = "mget _ _"] prod.splits[where prod = "_::string \<times> string"]
      intro!: reg_outcome_store simp: authToken_ok
      intro: reg_register reg_unregister reg_link reg_unlink
      dest!: authProc_ok dest: registry_Decode_follower)

lemma Registry_dispatch_move:
  assumes wf: "reg_wf r" and d: "Registry_dispatch lib r from m = (r', res)"
  shows "reg_move r from r' \<and> (\<forall>e. res = Inl e \<longrightarrow> r' = r) \<and> (\<forall>v. res = Inr v \<longrightarrow> res_Error v = None)"
proof -
  have "reg_outcome r from (r', res)"
    using handlers_outcome [OF wf, of "from"] d [symmetric]
    by (auto simp: Registry_dispatch_def Let_def split: if_splits)
  then show ?thesis by (cases res) (auto simp: reg_outcome_def)
qed

lemma Registry_Apply_move:
  assumes wf: "reg_wf r" and a: "Registry_Apply lib r from m = (r', res)"
  shows "reg_move r from r' \<and> (res_Error res \<noteq> None \<longrightarrow> r' = r)"
proof -
  obtain q where d: "Registry_dispatch lib r from m = (r', q)" and res: "res = apply_result q"
    using a by (auto simp: Registry_Apply_def split: prod.splits)
  from Registry_dispatch_move [OF wf d] res show ?thesis
    by (cases q) (auto simp: apply_result_def)
qed

lemma reg_move_inv [inv_intros]: "reg_move r from r' \<Longrightarrow> reg_inv r \<Longrightarrow> reg_inv r'"
  by (induction rule: reg_move.induct) (auto intro: inv_intros)

lemma reg_move_tokenPid: "reg_move r from r' \<Longrightarrow> reg_wf r \<Longrightarrow> reg_tokenPid r' = reg_tokenPid r"
  by (induction rule: reg_move.induct)
     (auto simp: Registry_Register_def Registry_Unregister_def Registry_RegisterProcess_def
        Registry_UnregisterProcess_def Let_def split: option.splits)

subsection \<open>Histories of messages and restarts\<close>

text \<open>A node restarts a machine by restoring a checkpoint into a fresh store, of whatever content.\<close>

datatype reg_event = RegMsg string meta | RegRestart registry

fun reg_step :: "extlib \<Rightarrow> registry \<Rightarrow> reg_event \<Rightarrow> registry" where
  "reg_step lib r (RegMsg from m) = fst (Registry_Apply lib r from m)"
| "reg_step lib r (RegRestart r0) = Registry_Restore r0 (Registry_Checkpoint r)"

fun reg_run :: "extlib \<Rightarrow> registry \<Rightarrow> reg_event list \<Rightarrow> registry" where
  "reg_run lib r [] = r"
| "reg_run lib r (e # es) = reg_run lib (reg_step lib r e) es"

lemma sim_links:
  assumes "reg_sim r r'"
  shows "reg_linked r' = reg_linked r" and "reg_served r' = reg_served r"
proof -
  show "reg_linked r' = reg_linked r"
    using assms by (simp add: reg_linked_def reg_sim_def fun_eq_iff)
  show "reg_served r' = reg_served r"
  proof (intro ext)
    fix a p
    show "reg_served r' a p = reg_served r a p"
      using reg_sim_get(2) [OF assms, of p] mkeys_cong_mget [of "the (mget (reg_p2n r) p)"
          "the (mget (reg_p2n r') p)" a]
      by (cases "mget (reg_p2n r) p"; cases "mget (reg_p2n r') p") (auto simp: reg_served_def simp flip: not_None_eq)
  qed
qed

lemma Restore_Checkpoint_inv [inv_intros]:
  assumes "reg_inv r" shows "reg_inv (Registry_Restore r0 (Registry_Checkpoint r))"
proof -
  have "reg_sim r (Registry_Restore r0 (Registry_Checkpoint r))"
    using Restore_Checkpoint_sim assms by (simp add: reg_inv_def)
  then show ?thesis
    using assms sim_links [of r "Registry_Restore r0 (Registry_Checkpoint r)"]
    by (simp add: reg_inv_def reg_sim_def)
qed

lemma reg_step_inv [inv_intros]:
  assumes "reg_inv r" shows "reg_inv (reg_step lib r e)"
proof (cases e)
  case (RegMsg f m)
  have "reg_move r f (fst (Registry_Apply lib r f m))"
    using Registry_Apply_move [of r lib f m] assms
    by (cases "Registry_Apply lib r f m") (auto simp: reg_inv_def)
  with assms RegMsg show ?thesis by (simp add: reg_move_inv)
qed (use assms in \<open>simp add: Restore_Checkpoint_inv\<close>)

lemma reg_run_inv: "reg_inv r \<Longrightarrow> reg_inv (reg_run lib r es)"
  by (induction es arbitrary: r) (auto intro: inv_intros)

text \<open>C5: the two indices of the registry never disagree. From a new registry, after any messages from
  any senders and any restarts from checkpoints, the nodes listed for a process are exactly the
  registered nodes that list the process among theirs, and each is the node \<open>GetNode\<close> and
  \<open>GetNodes\<close> return for its account.\<close>

theorem Registry_indices_agree:
  "let r = reg_run lib (NewRegistry i tokenPid nd) es in
     set (Registry_GetNodesByProcess r pid) =
       {n. Registry_GetNode r (node_AccId n) = Some n \<and>
           pid \<in> set (Registry_GetProcesses r (node_AccId n))} \<and>
     (\<forall>a. mget (Registry_GetNodes r) a = Registry_GetNode r a)"
proof -
  let ?r = "reg_run lib (NewRegistry i tokenPid nd) es"
  have inv: "reg_inv ?r" by (rule reg_run_inv) (rule NewRegistry_inv)
  then have wf: "reg_wf ?r" and ag: "\<And>a p. reg_linked ?r a p \<longleftrightarrow> reg_served ?r a p"
    by (simp_all add: reg_inv_def)
  show ?thesis
    unfolding Let_def
    by (auto simp: GetNodesByProcess_served [OF wf] GetProcesses_linked [OF wf] mget_GetNodes [OF wf] ag)
qed

text \<open>C6: the registry's authority. A message changes what \<open>GetNode\<close> answers only when it comes from
  the token's process, changes the nodes indexed for a process only when it comes from that
  process, and never changes the token the registry trusts.\<close>

theorem Registry_Apply_authority:
  assumes "Registry_Apply lib (reg_run lib (NewRegistry i tokenPid nd) es) from m = (r', res)"
  shows "let r = reg_run lib (NewRegistry i tokenPid nd) es in
    reg_tokenPid r' = reg_tokenPid r \<and>
    (from = reg_tokenPid r \<or> (\<forall>a. Registry_GetNode r' a = Registry_GetNode r a)) \<and>
    (\<forall>pid. pid = from \<or> (\<forall>a. (pid \<in> set (Registry_GetProcesses r' a)) = (pid \<in> set (Registry_GetProcesses r a))))"
proof -
  let ?r = "reg_run lib (NewRegistry i tokenPid nd) es"
  have inv: "reg_inv ?r" by (rule reg_run_inv) (rule NewRegistry_inv)
  then have wf: "reg_wf ?r" by (simp add: reg_inv_def)
  from Registry_Apply_move [OF wf assms] have mv: "reg_move ?r from r'" by simp
  have inv': "reg_inv r'" using reg_move_inv [OF mv inv] .
  then have wf': "reg_wf r'" by (simp add: reg_inv_def)
  have ag: "reg_linked ?r = reg_served ?r" "reg_linked r' = reg_served r'"
    using inv inv' by (auto simp: reg_inv_def fun_eq_iff)
  have nodes: "from = reg_tokenPid ?r \<or> Registry_GetNode r' = Registry_GetNode ?r"
    using mv by cases (auto simp: process_ops_GetNode)
  have links: "pid = from \<or> reg_served r' a pid = reg_served ?r a pid" for pid a
    using mv by cases (auto simp: Register_links [OF wf] Unregister_links
        process_index.link_other [OF wf] process_index.unlink_other [OF wf])
  show ?thesis
    using nodes links reg_move_tokenPid [OF mv wf]
    by (auto simp: Let_def GetProcesses_linked [OF wf] GetProcesses_linked [OF wf'] ag)
qed

definition demo_main :: node where
  "demo_main = \<lparr>node_AccId = ''0xa'', node_Name = ''A'', node_Role = RoleMain, node_Desc = ''d'',
     node_URL = ''u''\<rparr>"

definition demo_join :: meta where
  "demo_join = zero_meta\<lparr>meta_Action := ''RegisterProcess'',
     meta_Params := [(''Pid'', ''p''), (''Acc-Id'', ''0xa'')]\<rparr>"

definition demo_register :: "string \<Rightarrow> meta" where
  "demo_register a = zero_meta\<lparr>meta_Action := ''Register'', meta_Params :=
     [(''Acc-Id'', a), (''Name'', ''N''), (''Desc'', ''D''), (''URL'', ''U'')]\<rparr>"

lemmas demo_reg_eval = demo_main_def demo_join_def demo_register_def demo_lib_def zero_meta_def
  NewRegistry_def Registry_Apply_def Registry_dispatch_def handleRegisterProcess_def authProc_def
  handleRegister_def authToken_def registry_Decode_def IDCheck_def Registry_Register_def
  Registry_GetNode_def Registry_RegisterProcess_def Registry_GetProcesses_def apply_result_def
  data_result_def zero_result_def HasPrefix_def Let_def

theorem Registry_Apply_authority_witness:
  "\<exists>r' res. Registry_Apply demo_lib (NewRegistry ''reg'' ''tok'' demo_main) ''p'' demo_join = (r', res) \<and>
     reg_tokenPid r' = ''tok'' \<and> Registry_GetNode r' ''0xa'' = Some demo_main \<and>
     ''p'' \<in> set (Registry_GetProcesses r' ''0xa'')"
proof -
  obtain r' res where ap: "Registry_Apply demo_lib (NewRegistry ''reg'' ''tok'' demo_main) ''p''
      demo_join = (r', res)"
    by (meson surj_pair)
  have "''p'' \<in> set (Registry_GetProcesses r' ''0xa'')"
    using ap by (auto simp: demo_reg_eval)
  moreover have "reg_tokenPid (NewRegistry ''reg'' ''tok'' demo_main) = ''tok''"
    "Registry_GetNode (NewRegistry ''reg'' ''tok'' demo_main) ''0xa'' = Some demo_main"
    by (simp_all add: demo_reg_eval)
  ultimately show ?thesis
    using Registry_Apply_authority [of demo_lib "''reg''" "''tok''" demo_main "[]" "''p''" demo_join r' res] ap
    by (auto simp: Let_def)
qed

text \<open>errors are atomic. A message whose result carries an error leaves the registry as it was.\<close>

theorem Registry_Apply_error_atomic:
  assumes "Registry_Apply lib (reg_run lib (NewRegistry i tokenPid nd) es) from m = (r', res)"
    and "res_Error res \<noteq> None"
  shows "r' = reg_run lib (NewRegistry i tokenPid nd) es"
proof -
  have "reg_inv (reg_run lib (NewRegistry i tokenPid nd) es)"
    by (rule reg_run_inv) (rule NewRegistry_inv)
  then show ?thesis using Registry_Apply_move [OF _ assms(1)] assms(2) by (simp add: reg_inv_def)
qed

theorem Registry_Apply_error_atomic_witness:
  "\<exists>r' res. Registry_Apply demo_lib (NewRegistry ''reg'' ''tok'' demo_main) ''q'' demo_join = (r', res) \<and>
     res_Error res = Some ErrRegUnauthorized \<and> r' = NewRegistry ''reg'' ''tok'' demo_main"
proof -
  obtain r' res where ap: "Registry_Apply demo_lib (NewRegistry ''reg'' ''tok'' demo_main) ''q''
      demo_join = (r', res)"
    by (meson surj_pair)
  have err: "res_Error res = Some ErrRegUnauthorized" using ap by (auto simp: demo_reg_eval)
  with Registry_Apply_error_atomic [of demo_lib "''reg''" "''tok''" demo_main "[]" "''q''" demo_join r' res] ap
  show ?thesis by simp
qed

subsection \<open>Restarts\<close>

text \<open>The results of applying a list of messages.\<close>

fun reg_results :: "extlib \<Rightarrow> registry \<Rightarrow> (string \<times> meta) list \<Rightarrow> vm_result list" where
  "reg_results lib r [] = []"
| "reg_results lib r ((from, m) # ms) =
     snd (Registry_Apply lib r from m) # reg_results lib (fst (Registry_Apply lib r from m)) ms"

lemma Registry_dispatch_sim:
  assumes sim: "reg_sim r r'"
  shows "reg_sim (fst (Registry_dispatch lib r from m)) (fst (Registry_dispatch lib r' from m)) \<and>
     snd (Registry_dispatch lib r from m) = snd (Registry_dispatch lib r' from m)"
proof -
  have get: "Registry_GetNode r' = Registry_GetNode r" using queries_sim(1) [OF sim] by auto
  have auth: "authToken r' from = authToken r from" "authProc r' from ps = authProc r from ps" for ps
    using sim unfolding authProc_def get by (simp_all add: authToken_def reg_sim_def)
  have eq: "reg_sim (fst (case q of (r', Some e) \<Rightarrow> (r', Inl e) | (r', None) \<Rightarrow> (r', Inr d)))
        (fst (case q' of (r', Some e) \<Rightarrow> (r', Inl e) | (r', None) \<Rightarrow> (r', Inr d))) \<and>
      snd (case q of (r', Some e) \<Rightarrow> (r', Inl e) | (r', None) \<Rightarrow> (r', Inr d)) =
        (snd (case q' of (r', Some e) \<Rightarrow> (r', Inl e) | (r', None) \<Rightarrow> (r', Inr d)) :: vm_err + vm_result)"
    if "reg_sim (fst q) (fst q')" "snd q = snd q'" for q q' :: "registry \<times> vm_err option" and d
    using that by (cases q; cases q'; cases "snd q") auto
  show ?thesis
    unfolding Registry_dispatch_def handleRegister_def handleUnregister_def
      handleRegisterProcess_def handleUnregisterProcess_def Let_def auth
    using sim
    by (auto split: sum.splits option.splits[where option = "authToken _ _"]
        option.splits[where option = "mget _ _"] prod.splits[where prod = "_::string \<times> string"]
        simp: eq Register_sim Unregister_sim RegisterProcess_sim UnregisterProcess_sim)
qed

lemma Registry_Apply_sim:
  assumes "reg_sim r r'"
  shows "reg_sim (fst (Registry_Apply lib r from m)) (fst (Registry_Apply lib r' from m))"
    and "snd (Registry_Apply lib r from m) = snd (Registry_Apply lib r' from m)"
  using Registry_dispatch_sim [OF assms, of lib "from" m]
  by (auto simp: Registry_Apply_def split: prod.splits)

lemma reg_results_sim:
  assumes "reg_sim r r'" shows "reg_results lib r ms = reg_results lib r' ms"
  using assms
proof (induction ms arbitrary: r r')
  case (Cons x ms)
  obtain f m where x: "x = (f, m)" by (cases x)
  show ?case using Registry_Apply_sim [OF Cons.prems, of lib f m] Cons.IH by (simp add: x)
qed simp

text \<open>a restart is invisible. Checkpointing a registry and restoring it into any store gives a
  registry that answers every query alike and returns the same results for every later sequence
  of messages, although the pointers its maps shared are no longer shared.\<close>

theorem Registry_restart_invisible:
  "let r = reg_run lib (NewRegistry i tokenPid nd) es;
       r' = Registry_Restore r0 (Registry_Checkpoint r)
   in reg_results lib r' ms = reg_results lib r ms \<and>
      (\<forall>a. Registry_GetNode r' a = Registry_GetNode r a) \<and>
      (\<forall>a. Registry_GetProcesses r' a = Registry_GetProcesses r a) \<and>
      (\<forall>p. Registry_GetNodesByProcess r' p = Registry_GetNodesByProcess r p) \<and>
      Registry_GetNodes r' = Registry_GetNodes r"
proof -
  let ?r = "reg_run lib (NewRegistry i tokenPid nd) es"
  have "reg_inv ?r" by (rule reg_run_inv) (rule NewRegistry_inv)
  then have sim: "reg_sim ?r (Registry_Restore r0 (Registry_Checkpoint ?r))"
    by (simp add: Restore_Checkpoint_sim reg_inv_def)
  show ?thesis
    unfolding Let_def by (simp add: queries_sim [OF sim] reg_results_sim [OF sim])
qed

text \<open>a registration makes the node visible exactly as decoded, always as a follower: also the
  main node loses its role, while the main index still names it.\<close>

theorem handleRegister_follower:
  assumes "handleRegister lib (reg_run lib (NewRegistry i tokenPid nd) es) from params = (r', Inr res)"
  shows "let r = reg_run lib (NewRegistry i tokenPid nd) es in
    \<exists>n. registry_Decode lib params = Inr n \<and> node_Role n = RoleFollower \<and>
      (\<forall>k. Registry_GetNode r' k = (if k = node_AccId n then Some n else Registry_GetNode r k)) \<and>
      reg_mainIndex r' = reg_mainIndex r"
proof -
  let ?r = "reg_run lib (NewRegistry i tokenPid nd) es"
  have "reg_inv ?r" by (rule reg_run_inv) (rule NewRegistry_inv)
  then have wf: "reg_wf ?r" by (simp add: reg_inv_def)
  from assms obtain n where n: "registry_Decode lib params = Inr n"
      and r': "r' = fst (Registry_Register ?r n)"
    by (auto simp: handleRegister_def split: option.splits sum.splits prod.splits)
  have "node_Role n = RoleFollower" using registry_Decode_follower [OF n] .
  moreover have "reg_mainIndex r' = reg_mainIndex ?r"
    using calculation r' by (auto simp: Registry_Register_def role_defs Let_def split: option.splits)
  ultimately show ?thesis using n r' Register_GetNode [OF wf] by (auto simp: Let_def)
qed

theorem handleRegister_follower_witness:
  "\<exists>r' res n. handleRegister demo_lib (NewRegistry ''reg'' ''tok'' demo_main) ''tok''
       (meta_Params (demo_register ''0xa'')) = (r', Inr res) \<and>
     reg_mainIndex r' = ''0xa'' \<and> Registry_GetNode r' ''0xa'' = Some n \<and> node_Role n = ''follower''"
proof -
  obtain r' res where ap: "handleRegister demo_lib (NewRegistry ''reg'' ''tok'' demo_main) ''tok''
      (meta_Params (demo_register ''0xa'')) = (r', Inr res)"
    by (simp add: demo_reg_eval)
  have main: "reg_mainIndex (NewRegistry ''reg'' ''tok'' demo_main) = ''0xa''"
    by (simp add: demo_reg_eval)
  have acc: "registry_Decode demo_lib (meta_Params (demo_register ''0xa'')) = Inr n \<Longrightarrow> node_AccId n = ''0xa''" for n
    by (auto simp: demo_reg_eval)
  from handleRegister_follower [of demo_lib "''reg''" "''tok''" demo_main "[]"] ap main acc
  show ?thesis by (fastforce simp: Let_def RoleFollower_def)
qed

end
