(* ===== verification/PayDb.thy ===== *)
theory PayDb
  imports TokenDb
begin

text \<open>
  The in-memory payment store (db/cache/pay.go): prepaid ledger, pending fees and their
  settlement. Amounts given by a caller may be nil (\<open>None\<close>); the amounts stored are made by the
  operations and never nil. Every operation is one atomic step; \<open>UseOnce\<close>, \<open>SpawnFee\<close> and
  \<open>ResidencyFee\<close> check under a read lock and charge under a second lock, so their two halves are
  definitions of their own.
\<close>

subsection \<open>State and simple operations\<close>

record pay_db =
  pay_whitelist :: "(string, bool) gomap"
  pay_executed :: "(string, bool) gomap"
  pay_ledger :: "(string, (string, int) gomap) gomap"
  pay_txPending :: "(string, (string, int) gomap) gomap"
  pay_spawnPending :: "(string, (string, int) gomap) gomap"
  pay_residencyPending :: "(string, int) gomap"
  pay_dailyUsage :: "(string, int64) gomap"

datatype pay_err =
    PayTxExecuted string
  | PayInvalidAmount "int option"
  | PayInvalidFee "int option"
  | PayInsufficient string string
  | PayPendingLocked string string int int
  | PayInsufficientFee string int
  | PayInvalidRatio "int option"
  | PayInsufficientCharge string int int
  | PayInternalRemaining

definition NewPay :: pay_db where
  "NewPay = \<lparr>pay_whitelist = [], pay_executed = [], pay_ledger = [], pay_txPending = [],
     pay_spawnPending = [], pay_residencyPending = [], pay_dailyUsage = []\<rparr>"

definition IsWhitelist :: "pay_db \<Rightarrow> string \<Rightarrow> bool" where
  "IsWhitelist db accid = mget_or False (pay_whitelist db) accid"

definition SetWhitelist :: "pay_db \<Rightarrow> string \<Rightarrow> bool \<Rightarrow> pay_db" where
  "SetWhitelist db accid enabled = db\<lparr>pay_whitelist := mput accid enabled (pay_whitelist db)\<rparr>"

definition IsExecuted :: "pay_db \<Rightarrow> string \<Rightarrow> bool" where
  "IsExecuted db txHash = mget_or False (pay_executed db) txHash"

definition MarkExecuted :: "pay_db \<Rightarrow> string \<Rightarrow> pay_db \<times> pay_err option" where
  "MarkExecuted db txHash =
     (if IsExecuted db txHash then (db, Some (PayTxExecuted txHash))
      else (db\<lparr>pay_executed := mput txHash True (pay_executed db)\<rparr>, None))"

definition SponsorTotal :: "pay_db \<Rightarrow> string \<Rightarrow> int" where
  "SponsorTotal db sponsor =
     (case mget (pay_ledger db) sponsor of
        Some row \<Rightarrow> foldl (\<lambda>sum (b, v). sum + v) 0 row
      | None \<Rightarrow> 0)"

definition SponsorBreakdown :: "pay_db \<Rightarrow> string \<Rightarrow> (string, int) gomap" where
  "SponsorBreakdown db sponsor =
     (case mget (pay_ledger db) sponsor of
        Some row \<Rightarrow> foldl (\<lambda>out (b, v). mput b v out) [] row
      | None \<Rightarrow> [])"

definition totalBal :: "pay_db \<Rightarrow> string \<Rightarrow> int" where
  "totalBal db beneficiary =
     foldl (\<lambda>sum (s, row). case mget row beneficiary of Some v \<Rightarrow> sum + v | None \<Rightarrow> sum) 0
       (pay_ledger db)"

definition BeneficiaryTotal :: "pay_db \<Rightarrow> string \<Rightarrow> int" where
  "BeneficiaryTotal db beneficiary =
     foldl (\<lambda>sum (s, row). case mget row beneficiary of Some v \<Rightarrow> sum + v | None \<Rightarrow> sum) 0
       (pay_ledger db)"

definition BeneficiaryBreakdown :: "pay_db \<Rightarrow> string \<Rightarrow> (string, int) gomap" where
  "BeneficiaryBreakdown db beneficiary =
     foldl (\<lambda>out (s, row). case mget row beneficiary of
                             Some v \<Rightarrow> if v > 0 then mput s v out else out
                           | None \<Rightarrow> out) [] (pay_ledger db)"

definition totalPending :: "pay_db \<Rightarrow> string \<Rightarrow> int" where
  "totalPending db beneficiary =
     (let sum1 = (case mget (pay_txPending db) beneficiary of
                    Some row \<Rightarrow> foldl (\<lambda>sum (p, v). sum + v) 0 row | None \<Rightarrow> 0);
          sum2 = (case mget (pay_spawnPending db) beneficiary of
                    Some row \<Rightarrow> foldl (\<lambda>sum (p, v). sum + v) sum1 row | None \<Rightarrow> sum1)
      in case mget (pay_residencyPending db) beneficiary of Some v \<Rightarrow> sum2 + v | None \<Rightarrow> sum2)"

text \<open>\<open>m[a][b] += v\<close>, creating row and entry as needed.\<close>

definition row_add ::
  "(string, (string, int) gomap) gomap \<Rightarrow> string \<Rightarrow> string \<Rightarrow> int \<Rightarrow> (string, (string, int) gomap) gomap"
where
  "row_add m a b v = (let row = mget_or [] m a; cur = mget_or 0 row b in mput a (mput b (cur + v) row) m)"

definition bad_amount :: "int option \<Rightarrow> bool" where
  "bad_amount amt \<longleftrightarrow> (case amt of None \<Rightarrow> True | Some v \<Rightarrow> v \<le> 0)"

definition Deposit :: "pay_db \<Rightarrow> string \<Rightarrow> string \<Rightarrow> int option \<Rightarrow> pay_db \<times> pay_err option" where
  "Deposit db sponsor beneficiary amount =
     (if bad_amount amount then (db, Some (PayInvalidAmount amount))
      else (db\<lparr>pay_ledger := row_add (pay_ledger db) sponsor beneficiary (the amount)\<rparr>, None))"

definition Withdraw :: "pay_db \<Rightarrow> string \<Rightarrow> string \<Rightarrow> int option \<Rightarrow> pay_db \<times> pay_err option" where
  "Withdraw db sponsor beneficiary amount =
     (if bad_amount amount then (db, Some (PayInvalidAmount amount))
      else let amt = the amount in
      case mget (pay_ledger db) sponsor of
        None \<Rightarrow> (db, Some (PayInsufficient sponsor beneficiary))
      | Some row \<Rightarrow>
     (case mget row beneficiary of
        None \<Rightarrow> (db, Some (PayInsufficient sponsor beneficiary))
      | Some cur \<Rightarrow>
     (if cur < amt then (db, Some (PayInsufficient sponsor beneficiary))
      else let available = totalBal db beneficiary - totalPending db beneficiary in
      if available < amt then (db, Some (PayPendingLocked sponsor beneficiary amt available))
      else
        let row' = (if cur - amt = 0 then mdel beneficiary row else mput beneficiary (cur - amt) row)
        in (db\<lparr>pay_ledger := (if row' = [] then mdel sponsor (pay_ledger db)
                             else mput sponsor row' (pay_ledger db))\<rparr>, None))))"

definition CanCover :: "pay_db \<Rightarrow> string \<Rightarrow> int option \<Rightarrow> bool" where
  "CanCover db beneficiary delta \<longleftrightarrow>
     (if beneficiary = [] \<or> bad_amount delta then False
      else the delta \<le> totalBal db beneficiary - totalPending db beneficiary)"

subsection \<open>Charging\<close>

text \<open>The checks each charging operation makes before it takes the write lock.\<close>

definition charge_check :: "pay_db \<Rightarrow> string \<Rightarrow> int option \<Rightarrow> pay_err option" where
  "charge_check db beneficiary fee =
     (if bad_amount fee then Some (PayInvalidFee fee)
      else if \<not> CanCover db beneficiary fee then Some (PayInsufficientFee beneficiary (the fee))
      else None)"

definition UseOnce_charge :: "pay_db \<Rightarrow> string \<Rightarrow> string \<Rightarrow> int \<Rightarrow> pay_db" where
  "UseOnce_charge db beneficiary pid fee =
     db\<lparr>pay_txPending := row_add (pay_txPending db) beneficiary pid fee\<rparr>"

definition UseOnce :: "pay_db \<Rightarrow> string \<Rightarrow> string \<Rightarrow> int option \<Rightarrow> pay_db \<times> pay_err option" where
  "UseOnce db beneficiary pid fee =
     (case charge_check db beneficiary fee of
        Some e \<Rightarrow> (db, Some e)
      | None \<Rightarrow> (UseOnce_charge db beneficiary pid (the fee), None))"

definition SpawnFee :: "pay_db \<Rightarrow> string \<Rightarrow> string \<Rightarrow> int option \<Rightarrow> pay_db \<times> pay_err option" where
  "SpawnFee db beneficiary pid fee =
     (case charge_check db beneficiary fee of
        Some e \<Rightarrow> (db, Some e)
      | None \<Rightarrow> (db\<lparr>pay_spawnPending := row_add (pay_spawnPending db) beneficiary pid (the fee)\<rparr>, None))"

definition ResidencyFee :: "pay_db \<Rightarrow> string \<Rightarrow> int option \<Rightarrow> pay_db \<times> pay_err option" where
  "ResidencyFee db pid fee =
     (case charge_check db pid fee of
        Some e \<Rightarrow> (db, Some e)
      | None \<Rightarrow> (db\<lparr>pay_residencyPending :=
          mput pid (mget_or 0 (pay_residencyPending db) pid + the fee) (pay_residencyPending db)\<rparr>, None))"

subsection \<open>Settlement\<close>

text \<open>The loop over \<open>txPending[beneficiary]\<close>: the sum of the positive fees and the developers'
  shares.\<close>

fun tx_shares :: "int \<Rightarrow> (string, int) gomap \<Rightarrow> int \<times> (string, int) gomap \<Rightarrow> int \<times> (string, int) gomap" where
  "tx_shares ratio [] acc = acc"
| "tx_shares ratio ((pid, amt) # row) (totalTx, devFees) =
     (if amt \<le> 0 then tx_shares ratio row (totalTx, devFees)
      else tx_shares ratio row
        (totalTx + amt, mput pid (mget_or 0 devFees pid + big_Quo (amt * ratio) 10000) devFees))"

definition positive_sum :: "(string, int) gomap \<Rightarrow> int" where
  "positive_sum row = foldl (\<lambda>sum (p, amt). if amt > 0 then sum + amt else sum) 0 row"

text \<open>The sponsors to deduct from: the beneficiary first, then the others by name.\<close>

definition settle_order :: "(string, (string, int) gomap) gomap \<Rightarrow> string \<Rightarrow> string list" where
  "settle_order ledger beneficiary =
     (case mget ledger beneficiary of
        Some row \<Rightarrow> (case mget row beneficiary of
                       Some bal \<Rightarrow> if bal > 0 then [beneficiary] else [] | None \<Rightarrow> [])
      | None \<Rightarrow> []) @
     sort (map fst (filter (\<lambda>(s, row). s \<noteq> beneficiary \<and>
       (case mget row beneficiary of Some bal \<Rightarrow> bal > 0 | None \<Rightarrow> False)) ledger))"

fun deduct ::
  "string \<Rightarrow> string list \<Rightarrow> (string, (string, int) gomap) gomap \<Rightarrow> int \<Rightarrow>
     (string, (string, int) gomap) gomap \<times> int" where
  "deduct beneficiary [] ledger remaining = (ledger, remaining)"
| "deduct beneficiary (s # order) ledger remaining =
     (if remaining = 0 then (ledger, remaining)
      else let row = mget_or [] ledger s in
      case mget row beneficiary of
        None \<Rightarrow> deduct beneficiary order ledger remaining
      | Some bal \<Rightarrow>
          if bal \<le> 0 then deduct beneficiary order ledger remaining
          else let toDeduct = (if bal \<ge> remaining then remaining else bal);
                   row' = (if bal - toDeduct = 0 then mdel beneficiary row
                           else mput beneficiary (bal - toDeduct) row)
               in deduct beneficiary order
                    (if row' = [] then mdel s ledger else mput s row' ledger) (remaining - toDeduct))"

text \<open>The result is the node's fee with the developers' fees; \<open>Inr None\<close> stands for the triple of
  nils returned when nothing is pending.\<close>

definition SettleTxFee ::
  "pay_db \<Rightarrow> string \<Rightarrow> int option \<Rightarrow> pay_db \<times> (pay_err + (int \<times> (string, int) gomap) option)" where
  "SettleTxFee db beneficiary devShareRatio =
     (case devShareRatio of
        None \<Rightarrow> (db, Inl (PayInvalidRatio devShareRatio))
      | Some ratio \<Rightarrow>
     (if ratio < 0 \<or> ratio > 10000 then (db, Inl (PayInvalidRatio devShareRatio))
      else
      let (totalTx, devFees) = tx_shares ratio (mget_or [] (pay_txPending db) beneficiary) (0, []);
          totalSpawn = positive_sum (mget_or [] (pay_spawnPending db) beneficiary);
          resAmt = mget_or 0 (pay_residencyPending db) beneficiary;
          totalResidency = (if resAmt > 0 then resAmt else 0)
      in if totalTx = 0 \<and> totalSpawn = 0 \<and> totalResidency = 0 then (db, Inr None)
      else
      let totalCharge = totalTx + totalSpawn + totalResidency;
          bal = totalBal db beneficiary
      in if bal < totalCharge then (db, Inl (PayInsufficientCharge beneficiary totalCharge bal))
      else
      let totalDev = foldl (\<lambda>sum (p, d). sum + d) 0 devFees;
          nodeFee = totalTx - totalDev + totalSpawn + totalResidency;
          (ledger', remaining) =
            deduct beneficiary (settle_order (pay_ledger db) beneficiary) (pay_ledger db) totalCharge
      in if remaining \<noteq> 0 then (db\<lparr>pay_ledger := ledger'\<rparr>, Inl PayInternalRemaining)
         else (db\<lparr>pay_ledger := ledger',
                  pay_txPending := mdel beneficiary (pay_txPending db),
                  pay_spawnPending := mdel beneficiary (pay_spawnPending db),
                  pay_residencyPending := mdel beneficiary (pay_residencyPending db)\<rparr>,
               Inr (Some (nodeFee, devFees)))))"

subsection \<open>Reports, daily usage and checkpoints\<close>

definition pending_rows ::
  "(string, (string, int) gomap) gomap \<Rightarrow> (string, int) gomap \<Rightarrow> (string, int) gomap" where
  "pending_rows m out =
     foldl (\<lambda>out (ben, row).
              foldl (\<lambda>out (p, amt). if amt = 0 then out
                                    else mput ben (mget_or 0 out ben + amt) out) out row) out m"

definition AllPending :: "pay_db \<Rightarrow> (string, int) gomap" where
  "AllPending db =
     foldl (\<lambda>out (ben, amt). if amt = 0 then out else mput ben (mget_or 0 out ben + amt) out)
       (pending_rows (pay_spawnPending db) (pending_rows (pay_txPending db) []))
       (pay_residencyPending db)"

definition DailyUsage :: "pay_db \<Rightarrow> string \<Rightarrow> int64" where
  "DailyUsage db accid = mget_or 0 (pay_dailyUsage db) accid"

definition IncrDailyUsage :: "pay_db \<Rightarrow> string \<Rightarrow> pay_db" where
  "IncrDailyUsage db accid = db\<lparr>pay_dailyUsage := mput accid (DailyUsage db accid + 1) (pay_dailyUsage db)\<rparr>"

definition ResetDailyUsage :: "pay_db \<Rightarrow> pay_db" where
  "ResetDailyUsage db = db\<lparr>pay_dailyUsage := []\<rparr>"

record pay_snapshot =
  psn_Whitelist :: "(string, bool) gomap"
  psn_Executed :: "(string, bool) gomap"
  psn_Ledger :: "(string, (string, int) gomap) gomap"
  psn_TxPending :: "(string, (string, int) gomap) gomap"
  psn_SpawnPending :: "(string, (string, int) gomap) gomap"
  psn_ResidencyPending :: "(string, int) gomap"
  psn_DailyUsage :: "(string, int64) gomap"

definition PayDb_Checkpoint :: "pay_db \<Rightarrow> pay_snapshot" where
  "PayDb_Checkpoint db =
     \<lparr>psn_Whitelist = pay_whitelist db, psn_Executed = pay_executed db, psn_Ledger = pay_ledger db,
      psn_TxPending = pay_txPending db, psn_SpawnPending = pay_spawnPending db,
      psn_ResidencyPending = pay_residencyPending db, psn_DailyUsage = pay_dailyUsage db\<rparr>"

definition PayDb_Restore :: "pay_db \<Rightarrow> pay_snapshot \<Rightarrow> pay_db" where
  "PayDb_Restore db sp =
     db\<lparr>pay_whitelist := psn_Whitelist sp, pay_executed := psn_Executed sp,
        pay_ledger := psn_Ledger sp, pay_txPending := psn_TxPending sp,
        pay_spawnPending := psn_SpawnPending sp, pay_residencyPending := psn_ResidencyPending sp,
        pay_dailyUsage := psn_DailyUsage sp\<rparr>"

lemma PayDb_Restore_Checkpoint: "PayDb_Restore db' (PayDb_Checkpoint db) = db"
  by (simp add: PayDb_Restore_def PayDb_Checkpoint_def)

subsection \<open>The contract of a charge\<close>

text \<open>Three operations hold part of a beneficiary's balance; each adds to what is pending and leaves
  the balances alone.\<close>

locale holding =
  fixes bal pend :: "'s \<Rightarrow> string \<Rightarrow> int"
    and wf :: "'s \<Rightarrow> bool"
    and hold :: "'s \<Rightarrow> string \<Rightarrow> string \<Rightarrow> int \<Rightarrow> 's"
  assumes bal_hold: "bal (hold s b p v) c = bal s c"
    and pend_hold: "pend (hold s b p v) c = pend s c + (if c = b then v else 0)"
    and wf_hold: "wf s \<Longrightarrow> 0 < v \<Longrightarrow> wf (hold s b p v)"
begin

lemma hold_solvent:
  "(\<And>c. pend s c \<le> bal s c) \<Longrightarrow> v \<le> bal s b - pend s b \<Longrightarrow>
     pend (hold s b p v) c \<le> bal (hold s b p v) c"
  by (simp add: bal_hold pend_hold)

text \<open>Two holds that were both checked against the same state can exceed the balance.\<close>

lemma double_hold_overdraws:
  "bal s b - pend s b < v + w \<Longrightarrow>
     bal (hold (hold s b p v) b q w) b < pend (hold (hold s b p v) b q w) b"
  by (simp add: bal_hold pend_hold)

end

subsection \<open>Sums over the ledger\<close>

definition entry :: "(string, (string, int) gomap) gomap \<Rightarrow> string \<Rightarrow> string \<Rightarrow> int" where
  "entry m a b = mget_or 0 (mget_or [] m a) b"

definition good_row :: "(string, int) gomap \<Rightarrow> bool" where
  "good_row row \<longleftrightarrow> mwf row \<and> (\<forall>(b, v) \<in> set row. 0 < v)"

definition good_rows :: "(string, (string, int) gomap) gomap \<Rightarrow> bool" where
  "good_rows m \<longleftrightarrow> mwf m \<and> (\<forall>(a, row) \<in> set m. good_row row)"

definition row_total :: "(string, (string, int) gomap) gomap \<Rightarrow> string \<Rightarrow> int" where
  "row_total m a = mtotal (mget_or [] m a)"

definition grand_total :: "(string, (string, int) gomap) gomap \<Rightarrow> int" where
  "grand_total m = msum mtotal m"

lemma good_row_Nil [simp]: "good_row []"
  by (simp add: good_row_def)

lemma good_rows_Nil [simp]: "good_rows []"
  by (simp add: good_rows_def)

lemma good_rows_get: "good_rows m \<Longrightarrow> good_row (mget_or [] m a)"
  by (auto simp: good_rows_def split: option.splits dest: map_of_SomeD)

lemma good_row_get: "good_row row \<Longrightarrow> 0 \<le> mget_or 0 row b"
  by (force simp: good_row_def split: option.splits dest: map_of_SomeD)

lemma good_row_get_pos: "good_row row \<Longrightarrow> mget row b = Some v \<Longrightarrow> 0 < v"
  by (force simp: good_row_def dest: map_of_SomeD)

lemma entry_nonneg: "good_rows m \<Longrightarrow> 0 \<le> entry m a b"
  unfolding entry_def by (intro good_row_get good_rows_get)

lemma good_row_mput: "good_row row \<Longrightarrow> 0 < v \<Longrightarrow> good_row (mput b v row)"
  by (auto simp: good_row_def dest!: mput_mem_cases)

lemma good_row_mdel: "good_row row \<Longrightarrow> good_row (mdel b row)"
  by (auto simp: good_row_def dest!: mdel_mem)

lemma good_rows_mput: "good_rows m \<Longrightarrow> good_row row \<Longrightarrow> good_rows (mput a row m)"
  by (auto simp: good_rows_def dest!: mput_mem_cases)

lemma good_rows_mdel: "good_rows m \<Longrightarrow> good_rows (mdel a m)"
  by (auto simp: good_rows_def dest!: mdel_mem)

lemma good_row_total: "good_row row \<Longrightarrow> 0 \<le> mtotal row"
  by (rule mtotal_nonneg) (force simp: good_row_def)

lemma good_row_add: "good_row row \<Longrightarrow> 0 < v \<Longrightarrow> good_row (mput b (mget_or 0 row b + v) row)"
  using good_row_get [of row b] by (intro good_row_mput) auto

lemma row_add_good: "good_rows m \<Longrightarrow> 0 < v \<Longrightarrow> good_rows (row_add m a b v)"
  unfolding row_add_def Let_def by (intro good_rows_mput good_row_add good_rows_get)

lemma msum_mput_row:
  "f [] = 0 \<Longrightarrow> msum f (mput a row m) = msum f m - f (mget_or [] m a) + f row"
  by (simp add: msum_mput split: option.splits)

lemma msum_mdel_row:
  "mwf m \<Longrightarrow> f [] = 0 \<Longrightarrow> msum f (mdel a m) = msum f m - f (mget_or [] m a)"
  by (simp add: msum_mdel split: option.splits)

lemma totalBal_msum: "totalBal db b = msum (\<lambda>row. mget_or 0 row b) (pay_ledger db)"
proof -
  have eq: "(\<lambda>sum (s, row). case mget row b of Some v \<Rightarrow> sum + v | None \<Rightarrow> sum) =
      (\<lambda>sum (s, row). sum + mget_or (0::int) row b)"
    by (auto simp: fun_eq_iff split: option.splits)
  show ?thesis unfolding totalBal_def eq foldl_msum by simp
qed

lemma totalPending_rows:
  "totalPending db b = row_total (pay_txPending db) b + row_total (pay_spawnPending db) b +
     mget_or 0 (pay_residencyPending db) b"
  by (auto simp: totalPending_def row_total_def foldl_msum mtotal_msum split: option.splits)

lemma row_add_total:
  "row_total (row_add m a b v) c = row_total m c + (if c = a then v else 0)"
  by (simp add: row_total_def row_add_def Let_def mtotal_mput)

lemma row_add_col:
  "msum (\<lambda>row. mget_or 0 row c) (row_add m a b v) =
     msum (\<lambda>row. mget_or 0 row c) m + (if c = b then v else 0)"
  by (simp add: row_add_def Let_def msum_mput_row)

lemma row_add_grand: "grand_total (row_add m a b v) = grand_total m + v"
  by (simp add: grand_total_def row_add_def Let_def msum_mput_row mtotal_mput)

text \<open>Setting an entry to a non-negative amount, dropping an empty entry and an empty row.\<close>

definition row_set ::
  "(string, (string, int) gomap) gomap \<Rightarrow> string \<Rightarrow> string \<Rightarrow> int \<Rightarrow> (string, (string, int) gomap) gomap"
where
  "row_set m a b v =
     (let row' = (if v = 0 then mdel b (mget_or [] m a) else mput b v (mget_or [] m a))
      in if row' = [] then mdel a m else mput a row' m)"

lemma row_set_msum:
  assumes "mwf m" "f [] = 0"
  shows "msum f (row_set m a b v) = msum f m - f (mget_or [] m a) +
     f (if v = 0 then mdel b (mget_or [] m a) else mput b v (mget_or [] m a))"
  using assms by (auto simp: row_set_def Let_def msum_mput_row msum_mdel_row)

lemma row_set_good: "good_rows m \<Longrightarrow> 0 \<le> v \<Longrightarrow> good_rows (row_set m a b v)"
  by (auto simp: row_set_def Let_def good_rows_mdel
      intro!: good_rows_mput good_row_mdel good_row_mput good_rows_get)

lemma row_set_entry: "entry (row_set m a b v) c d = (if c = a \<and> d = b then v else entry m c d)"
proof -
  have "mget (if v = 0 then mdel b r else mput b v r) d = (if d = b then if v = 0 then None else Some v else mget r d)"
    for r :: "(string, int) gomap" by simp
  then show ?thesis
    by (auto simp: row_set_def Let_def entry_def split: option.splits dest: arg_cong [of _ "[]" "\<lambda>r. mget r d"])
qed

lemma row_set_col:
  assumes "good_rows m"
  shows "msum (\<lambda>row. mget_or 0 row c) (row_set m a b v) =
     msum (\<lambda>row. mget_or 0 row c) m + (if c = b then v - entry m a b else 0)"
  using assms by (simp add: row_set_msum good_rows_def entry_def)

lemma row_set_grand:
  assumes "good_rows m"
  shows "grand_total (row_set m a b v) = grand_total m + v - entry m a b"
proof -
  have "mwf (mget_or [] m a)" using good_rows_get [OF assms] by (simp add: good_row_def)
  with assms show ?thesis
    by (simp add: grand_total_def row_set_msum good_rows_def entry_def mtotal_mput mtotal_mdel)
qed

subsection \<open>The invariant\<close>

definition pay_wf :: "pay_db \<Rightarrow> bool" where
  "pay_wf db \<longleftrightarrow> good_rows (pay_ledger db) \<and> good_rows (pay_txPending db) \<and>
     good_rows (pay_spawnPending db) \<and> good_row (pay_residencyPending db)"

definition pay_inv :: "pay_db \<Rightarrow> bool" where
  "pay_inv db \<longleftrightarrow> pay_wf db \<and> (\<forall>b. totalPending db b \<le> totalBal db b)"

definition SpawnFee_charge :: "pay_db \<Rightarrow> string \<Rightarrow> string \<Rightarrow> int \<Rightarrow> pay_db" where
  "SpawnFee_charge db b p v = db\<lparr>pay_spawnPending := row_add (pay_spawnPending db) b p v\<rparr>"

definition ResidencyFee_charge :: "pay_db \<Rightarrow> string \<Rightarrow> string \<Rightarrow> int \<Rightarrow> pay_db" where
  "ResidencyFee_charge db b p v =
     db\<lparr>pay_residencyPending := mput b (mget_or 0 (pay_residencyPending db) b + v) (pay_residencyPending db)\<rparr>"

lemmas charge_defs = UseOnce_charge_def SpawnFee_charge_def ResidencyFee_charge_def

interpretation use_once: holding totalBal totalPending pay_wf UseOnce_charge
  by unfold_locales
     (auto simp: totalBal_msum totalPending_rows UseOnce_charge_def row_add_total pay_wf_def row_add_good)

interpretation spawn_fee: holding totalBal totalPending pay_wf SpawnFee_charge
  by unfold_locales
     (auto simp: totalBal_msum totalPending_rows SpawnFee_charge_def row_add_total pay_wf_def row_add_good)

interpretation residency_fee: holding totalBal totalPending pay_wf ResidencyFee_charge
  by unfold_locales
     (auto simp: totalBal_msum totalPending_rows ResidencyFee_charge_def pay_wf_def good_row_add)

lemma charge_check_ok:
  "charge_check db b fee = None \<longleftrightarrow>
     b \<noteq> [] \<and> (\<exists>v. fee = Some v \<and> 0 < v \<and> v \<le> totalBal db b - totalPending db b)"
  by (auto simp: charge_check_def CanCover_def bad_amount_def split: option.splits)

lemma charge_cases:
  assumes "r = UseOnce db b p fee \<or> r = SpawnFee db b p fee \<or> r = ResidencyFee db b fee"
  shows "(\<exists>e. r = (db, Some e)) \<or>
    (\<exists>v. fee = Some v \<and> 0 < v \<and> v \<le> totalBal db b - totalPending db b \<and>
       (r = (UseOnce_charge db b p v, None) \<or> r = (SpawnFee_charge db b p v, None) \<or>
        r = (ResidencyFee_charge db b p v, None)))"
  using assms
  by (cases "charge_check db b fee")
     (auto simp: UseOnce_def SpawnFee_def ResidencyFee_def SpawnFee_charge_def
        ResidencyFee_charge_def charge_check_ok)

lemma charges_inv [inv_intros]:
  assumes "pay_inv db"
  shows "pay_inv (fst (UseOnce db b p fee))" and "pay_inv (fst (SpawnFee db b p fee))"
    and "pay_inv (fst (ResidencyFee db b fee))"
proof -
  have "pay_inv (fst r)"
    if r: "r = UseOnce db b p fee \<or> r = SpawnFee db b p fee \<or> r = ResidencyFee db b fee" for r
    using charge_cases [OF r] assms
    by (auto simp: pay_inv_def use_once.wf_hold spawn_fee.wf_hold residency_fee.wf_hold
        intro!: use_once.hold_solvent spawn_fee.hold_solvent residency_fee.hold_solvent)
  then show "pay_inv (fst (UseOnce db b p fee))" and "pay_inv (fst (SpawnFee db b p fee))"
    and "pay_inv (fst (ResidencyFee db b fee))" by blast+
qed

lemma Deposit_cases:
  "Deposit db s b amount = (db, Some (PayInvalidAmount amount)) \<or>
   (\<exists>v. amount = Some v \<and> 0 < v \<and>
      Deposit db s b amount = (db\<lparr>pay_ledger := row_add (pay_ledger db) s b v\<rparr>, None))"
  by (auto simp: Deposit_def bad_amount_def split: option.splits)

lemma ledger_update_reads [simp]:
  "totalPending (db\<lparr>pay_ledger := l\<rparr>) b = totalPending db b"
  "totalBal (db\<lparr>pay_ledger := l\<rparr>) b = msum (\<lambda>row. mget_or 0 row b) l"
  by (simp_all add: totalPending_rows totalBal_msum)

abbreviation col :: "string \<Rightarrow> (string, (string, int) gomap) gomap \<Rightarrow> int" where
  "col b \<equiv> msum (\<lambda>row. mget_or 0 row b)"

lemma Deposit_inv [inv_intros]:
  assumes inv: "pay_inv db" shows "pay_inv (fst (Deposit db s b amount))"
proof (cases "snd (Deposit db s b amount)")
  case None
  then obtain v where v: "0 < v" and
    d: "Deposit db s b amount = (db\<lparr>pay_ledger := row_add (pay_ledger db) s b v\<rparr>, None)"
    using Deposit_cases [of db s b amount] by auto
  have "totalPending db c \<le> col c (row_add (pay_ledger db) s b v)" for c
  proof -
    have "totalPending db c \<le> totalBal db c" using inv by (simp add: pay_inv_def)
    with v show ?thesis by (cases "c = b") (auto simp: row_add_col totalBal_msum)
  qed
  with inv v show ?thesis by (simp add: d pay_inv_def pay_wf_def row_add_good)
next
  case (Some e)
  with inv Deposit_cases [of db s b amount] show ?thesis by auto
qed

lemma Withdraw_eq:
  "Withdraw db s b (Some v) =
     (if v \<le> 0 then (db, Some (PayInvalidAmount (Some v)))
      else if entry (pay_ledger db) s b < v then (db, Some (PayInsufficient s b))
      else if totalBal db b - totalPending db b < v
        then (db, Some (PayPendingLocked s b v (totalBal db b - totalPending db b)))
      else (db\<lparr>pay_ledger := row_set (pay_ledger db) s b (entry (pay_ledger db) s b - v)\<rparr>, None))"
  by (simp add: Withdraw_def bad_amount_def entry_def row_set_def Let_def split: option.split)

lemma Withdraw_cases:
  "(\<exists>e. Withdraw db s b amount = (db, Some e)) \<or>
   (\<exists>v. amount = Some v \<and> 0 < v \<and> v \<le> entry (pay_ledger db) s b \<and>
      v \<le> totalBal db b - totalPending db b \<and>
      Withdraw db s b amount =
        (db\<lparr>pay_ledger := row_set (pay_ledger db) s b (entry (pay_ledger db) s b - v)\<rparr>, None))"
proof (cases amount)
  case None
  then show ?thesis by (simp add: Withdraw_def bad_amount_def)
next
  case (Some v)
  then show ?thesis by (simp add: Withdraw_eq)
qed

lemma Withdraw_inv [inv_intros]: "pay_inv db \<Longrightarrow> pay_inv (fst (Withdraw db s b amount))"
  using Withdraw_cases [of db s b amount]
  by (auto simp: pay_inv_def pay_wf_def row_set_good row_set_col totalBal_msum [symmetric])

subsection \<open>Deduction\<close>

lemma deduct_step:
  "deduct b (s # order) l rem =
     (if rem = 0 then (l, rem)
      else if entry l s b \<le> 0 then deduct b order l rem
      else deduct b order (row_set l s b (entry l s b - min rem (entry l s b)))
             (rem - min rem (entry l s b)))"
  by (auto simp: entry_def row_set_def Let_def min_def split: option.splits)

declare deduct.simps(2) [simp del]

lemma deduct_spec:
  assumes "good_rows l" "0 \<le> rem" "deduct b order l rem = (l', rem')"
  shows "good_rows l'" and "0 \<le> rem'"
    and "col b l' = col b l - (rem - rem')"
    and "grand_total l' = grand_total l - (rem - rem')"
    and "c \<noteq> b \<Longrightarrow> entry l' s c = entry l s c"
    and "c \<noteq> b \<Longrightarrow> col c l' = col c l"
    and "s \<notin> set order \<Longrightarrow> entry l' s c = entry l s c"
    and "entry l' s b \<le> entry l s b"
    and "0 < rem' \<Longrightarrow> s \<in> set order \<Longrightarrow> entry l' s b = 0"
proof -
  have "good_rows l' \<and> 0 \<le> rem' \<and> col b l' = col b l - (rem - rem') \<and>
      grand_total l' = grand_total l - (rem - rem') \<and>
      (\<forall>s c. c \<noteq> b \<longrightarrow> entry l' s c = entry l s c) \<and> (\<forall>c. c \<noteq> b \<longrightarrow> col c l' = col c l) \<and>
      (\<forall>s c. s \<notin> set order \<longrightarrow> entry l' s c = entry l s c) \<and>
      (\<forall>s. entry l' s b \<le> entry l s b) \<and>
      (0 < rem' \<longrightarrow> (\<forall>s \<in> set order. entry l' s b = 0))"
    using assms
  proof (induction order arbitrary: l rem)
    case (Cons x order)
    note nn = entry_nonneg [OF Cons.prems(1), of x b]
    consider (zero) "rem = 0" | (skip) "rem \<noteq> 0" "entry l x b = 0" | (take) "0 < rem" "0 < entry l x b"
      using Cons.prems(2) nn by linarith
    then show ?case
    proof cases
      case zero
      with Cons.prems show ?thesis by (simp add: deduct_step)
    next
      case skip
      with Cons.prems have "deduct b order l rem = (l', rem')" by (simp add: deduct_step)
      note IH = Cons.IH [OF Cons.prems(1,2) this]
      have "entry l' x b = 0"
        using IH entry_nonneg [of l' x b] skip(2) by (metis antisym)
      with IH show ?thesis by auto
    next
      case take
      let ?d = "min rem (entry l x b)"
      let ?l = "row_set l x b (entry l x b - ?d)"
      have d: "deduct b order ?l (rem - ?d) = (l', rem')"
        using take Cons.prems(3) by (simp add: deduct_step)
      have good: "good_rows ?l" using Cons.prems(1) by (intro row_set_good) auto
      note IH = Cons.IH [OF good _ d]
      have cols: "col b ?l = col b l - ?d" "grand_total ?l = grand_total l - ?d"
        "c \<noteq> b \<Longrightarrow> col c ?l = col c l" for c
        using row_set_col [OF Cons.prems(1)] row_set_grand [OF Cons.prems(1)] by auto
      have ent: "entry ?l s c = (if s = x \<and> c = b then entry l x b - ?d else entry l s c)" for s c
        by (rule row_set_entry)
      have x: "entry l' x b = 0" if "0 < rem'"
      proof -
        have "deduct b order ?l 0 = (?l, 0)" by (cases order) (simp_all add: deduct_step)
        then have "rem - ?d \<noteq> 0" using that d by auto
        then have "entry ?l x b = 0" by (simp add: row_set_entry min_def split: if_splits)
        with IH that entry_nonneg [of l' x b] show ?thesis by (metis antisym diff_ge_0_iff_ge min.cobounded1)
      qed
      have le: "entry l' s b \<le> entry l s b" for s
      proof -
        have "entry l' s b \<le> entry ?l s b" using IH by simp
        also have "\<dots> \<le> entry l s b" using ent [of s b] take by auto
        finally show ?thesis .
      qed
      have same: "entry l' s c = entry l s c" if "s \<notin> set (x # order) \<or> c \<noteq> b" for s c
        using that IH ent [of s c] by fastforce
      have parts: "good_rows l'" "0 \<le> rem'" "col b l' = col b l - (rem - rem')"
        "grand_total l' = grand_total l - (rem - rem')" "\<And>c. c \<noteq> b \<Longrightarrow> col c l' = col c l"
        "\<And>s. 0 < rem' \<Longrightarrow> s \<in> set order \<Longrightarrow> entry l' s b = 0"
        using IH cols by auto
      show ?thesis using parts same le x by auto
    qed
  qed auto
  then show "good_rows l'" and "0 \<le> rem'"
    and "col b l' = col b l - (rem - rem')"
    and "grand_total l' = grand_total l - (rem - rem')"
    and "c \<noteq> b \<Longrightarrow> entry l' s c = entry l s c"
    and "c \<noteq> b \<Longrightarrow> col c l' = col c l"
    and "s \<notin> set order \<Longrightarrow> entry l' s c = entry l s c"
    and "entry l' s b \<le> entry l s b"
    and "0 < rem' \<Longrightarrow> s \<in> set order \<Longrightarrow> entry l' s b = 0" by blast+
qed

lemma settle_order_set:
  assumes "good_rows l" shows "s \<in> set (settle_order l b) \<longleftrightarrow> 0 < entry l s b"
proof -
  have wf: "mwf l" using assms by (simp add: good_rows_def)
  have "s \<in> set (map fst (filter (\<lambda>(s, row). s \<noteq> b \<and>
      (case mget row b of Some bal \<Rightarrow> bal > 0 | None \<Rightarrow> False)) l)) \<longleftrightarrow>
      (\<exists>row. mget l s = Some row \<and> s \<noteq> b \<and> (case mget row b of Some bal \<Rightarrow> bal > 0 | None \<Rightarrow> False))"
    unfolding mwf_mget_iff [OF wf, of s] by force
  also have "\<dots> \<longleftrightarrow> s \<noteq> b \<and> 0 < entry l s b"
    by (auto simp: entry_def split: option.splits)
  finally show ?thesis
    by (auto simp: settle_order_def entry_def split: option.splits)
qed

lemma col_zero:
  assumes "good_rows l" "\<And>s. entry l s b = 0" shows "col b l = 0"
proof -
  have wf: "mwf l" using assms(1) by (simp add: good_rows_def)
  have "mget_or 0 row b = 0" if "(s, row) \<in> set l" for s row
    using assms(2) [of s] that mwf_mget_iff [OF wf, of s row] by (simp add: entry_def)
  then have "msum (\<lambda>row. mget_or 0 row b) l = msum (\<lambda>_. 0) l" by (rule msum_cong)
  also have "\<dots> = 0" by (induction l) auto
  finally show ?thesis .
qed

lemma deduct_complete:
  assumes good: "good_rows l" and rem: "0 \<le> rem" "rem \<le> col b l"
    and d: "deduct b (settle_order l b) l rem = (l', rem')"
  shows "rem' = 0"
proof (rule ccontr)
  note D = deduct_spec [OF good rem(1) d]
  assume "rem' \<noteq> 0"
  with D(2) have pos: "0 < rem'" by simp
  have "entry l' s b = 0" for s
    using D(7) [of s b] D(9) [OF pos, of s] settle_order_set [OF good, of s b]
      entry_nonneg [OF good, of s b] by (cases "s \<in> set (settle_order l b)") auto
  then have "col b l' = 0" by (intro col_zero D(1))
  with D(3) pos rem(2) show False by simp
qed

text \<open>Other sponsors pay only for what the beneficiary's own deposit does not cover.\<close>

lemma deduct_own_first:
  assumes good: "good_rows l" and rem: "0 \<le> rem"
    and d: "deduct b (settle_order l b) l rem = (l', rem')"
    and s: "s \<noteq> b" "entry l' s b \<noteq> entry l s b"
  shows "entry l' b b = 0"
proof (cases "0 < entry l b b")
  case False
  with entry_nonneg [OF good, of b b] deduct_spec(7) [OF good rem d, of b b] settle_order_set [OF good, of b b]
  show ?thesis by auto
next
  case True
  define others where "others = sort (map fst (filter (\<lambda>(s, row). s \<noteq> b \<and>
      (case mget row b of Some bal \<Rightarrow> bal > 0 | None \<Rightarrow> False)) l))"
  have ord: "settle_order l b = b # others"
    using True by (auto simp: settle_order_def others_def entry_def split: option.splits)
  have notin: "b \<notin> set others" by (auto simp: others_def)
  let ?d = "min rem (entry l b b)"
  let ?l = "row_set l b b (entry l b b - ?d)"
  show ?thesis
  proof (cases "rem < entry l b b")
    case less: True
    have "deduct b others ?l 0 = (?l, 0)" by (cases others) (simp_all add: deduct_step)
    with d True less rem have "l' = l \<or> l' = ?l" by (auto simp: ord deduct_step split: if_splits)
    with s show ?thesis by (auto simp: row_set_entry)
  next
    case False
    have good': "good_rows ?l" using good by (intro row_set_good) auto
    from True False rem d have "rem \<noteq> 0" "deduct b others ?l (rem - ?d) = (l', rem')"
      by (auto simp: ord deduct_step)
    with deduct_spec(7) [OF good' _ this(2), of b b] notin False rem
    show ?thesis by (simp add: row_set_entry)
  qed
qed

end
