(* ===== verification/PaySettle.thy ===== *)
theory PaySettle
  imports PayDb
begin

text \<open>
  Settlement of pending fees and the properties of the payment store as a whole: it stays
  solvent while charges do not race, no amount is created or lost, a settlement divides exactly what
  was pending, and the check of a charge is not atomic with the charge.
\<close>

subsection \<open>Shares\<close>

definition dev_share :: "int \<Rightarrow> int \<Rightarrow> int" where
  "dev_share ratio amt = amt * ratio div 10000"

lemma dev_share_bounds:
  assumes "0 \<le> ratio" "ratio \<le> 10000" "0 \<le> amt"
  shows "0 \<le> dev_share ratio amt" and "dev_share ratio amt \<le> amt"
proof -
  show "0 \<le> dev_share ratio amt" using assms by (simp add: dev_share_def pos_imp_zdiv_nonneg_iff)
  have "amt * ratio \<le> amt * 10000" using assms by (intro mult_left_mono) auto
  then have "amt * ratio div 10000 \<le> amt * 10000 div 10000" by (rule zdiv_mono1) simp
  then show "dev_share ratio amt \<le> amt" by (simp add: dev_share_def)
qed

lemma good_row_Cons:
  "good_row ((p, a) # row) \<longleftrightarrow> 0 < a \<and> mget row p = None \<and> good_row row"
  by (auto simp: good_row_def mwf_def mget_None_iff)

lemma tx_shares_Cons:
  assumes "0 < amt" "0 \<le> ratio"
  shows "tx_shares ratio ((pid, amt) # row) (t, d) =
    tx_shares ratio row (t + amt, mput pid (mget_or 0 d pid + dev_share ratio amt) d)"
  using assms by (simp add: dev_share_def big_Quo_nonneg)

lemma tx_shares_spec:
  assumes "good_row row" "0 \<le> ratio" "tx_shares ratio row (t, d) = (t', d')"
  shows "t' = t + mtotal row"
    and "mtotal d' = mtotal d + msum (dev_share ratio) row"
    and "mget_or 0 d' p = mget_or 0 d p + (case mget row p of None \<Rightarrow> 0 | Some a \<Rightarrow> dev_share ratio a)"
proof -
  have "t' = t + mtotal row \<and> mtotal d' = mtotal d + msum (dev_share ratio) row \<and>
      mget_or 0 d' p = mget_or 0 d p + (case mget row p of None \<Rightarrow> 0 | Some a \<Rightarrow> dev_share ratio a)"
    using assms
  proof (induction row arbitrary: t d)
    case (Cons e row)
    obtain q a where e: "e = (q, a)" by (cases e)
    with Cons.prems have a: "0 < a" "mget row q = None" "good_row row" by (auto simp: good_row_Cons)
    have "tx_shares ratio row (t + a, mput q (mget_or 0 d q + dev_share ratio a) d) = (t', d')"
      using Cons.prems(3) a(1) Cons.prems(2) by (simp add: e tx_shares_Cons del: tx_shares.simps)
    from Cons.IH [OF a(3) Cons.prems(2) this] a(2) show ?case
      by (auto simp: e mtotal_mput split: if_splits)
  qed auto
  then show "t' = t + mtotal row" and "mtotal d' = mtotal d + msum (dev_share ratio) row"
    and "mget_or 0 d' p = mget_or 0 d p + (case mget row p of None \<Rightarrow> 0 | Some a \<Rightarrow> dev_share ratio a)"
    by blast+
qed

lemma positive_sum_total:
  assumes "good_row row" shows "positive_sum row = mtotal row"
proof -
  have "foldl (\<lambda>sum (p, amt). if amt > 0 then sum + amt else sum) z row = z + mtotal row" for z
    using assms by (induction row arbitrary: z) (auto simp: good_row_Cons)
  then show ?thesis by (simp add: positive_sum_def)
qed

lemma share_sum_le:
  assumes "good_row row" "0 \<le> ratio" "ratio \<le> 10000"
  shows "0 \<le> msum (dev_share ratio) row \<and> msum (dev_share ratio) row \<le> mtotal row"
  using assms(1)
proof (induction row)
  case (Cons e row)
  obtain q a where e: "e = (q, a)" by (cases e)
  with Cons.prems have "0 < a" "good_row row" by (auto simp: good_row_Cons)
  with Cons.IH dev_share_bounds [OF assms(2,3), of a] show ?case by (simp add: e)
qed simp

subsection \<open>What a settlement does\<close>

text \<open>The outcome of settling \<open>b\<close>: \<open>node\<close> and \<open>dev\<close> are what it pays out.\<close>

definition settled :: "pay_db \<Rightarrow> string \<Rightarrow> int \<Rightarrow> pay_db \<Rightarrow> int \<Rightarrow> (string, int) gomap \<Rightarrow> bool" where
  "settled db b ratio db' node dev \<longleftrightarrow>
     node + mtotal dev = totalPending db b \<and> 0 \<le> node \<and>
     (\<forall>p. mget_or 0 dev p =
        (case mget (mget_or [] (pay_txPending db) b) p of None \<Rightarrow> 0 | Some a \<Rightarrow> a * ratio div 10000)) \<and>
     totalBal db' b = totalBal db b - totalPending db b \<and> totalPending db' b = 0 \<and>
     (\<forall>c. c \<noteq> b \<longrightarrow> totalBal db' c = totalBal db c \<and> totalPending db' c = totalPending db c) \<and>
     (\<forall>s. entry (pay_ledger db') s b \<noteq> entry (pay_ledger db) s b \<longrightarrow> s = b \<or> entry (pay_ledger db') b b = 0) \<and>
     grand_total (pay_ledger db') = grand_total (pay_ledger db) - totalPending db b"

lemma pay_inv_D:
  assumes "pay_inv db"
  shows "good_rows (pay_ledger db)" "good_rows (pay_txPending db)" "good_rows (pay_spawnPending db)"
    "good_row (pay_residencyPending db)" "totalPending db b \<le> totalBal db b"
  using assms by (auto simp: pay_inv_def pay_wf_def)

lemma pay_wf_D:
  assumes "pay_wf db"
  shows "good_rows (pay_ledger db)" "good_rows (pay_txPending db)" "good_rows (pay_spawnPending db)"
    "good_row (pay_residencyPending db)"
  using assms by (auto simp: pay_wf_def)

lemma totalBal_nonneg:
  assumes "good_rows (pay_ledger db)" shows "0 \<le> totalBal db b"
proof -
  have "0 \<le> msum (\<lambda>row. mget_or 0 row b) l" if "\<forall>(a, row) \<in> set l. good_row row" for l :: "(string, (string, int) gomap) gomap"
    using that by (induction l) (auto intro!: add_nonneg_nonneg good_row_get)
  with assms show ?thesis by (simp add: totalBal_msum good_rows_def)
qed

lemma row_total_nonneg: "good_rows m \<Longrightarrow> 0 \<le> row_total m b"
  unfolding row_total_def by (intro good_row_total good_rows_get)

lemma totalPending_nonneg: "pay_wf db \<Longrightarrow> 0 \<le> totalPending db b"
  using row_total_nonneg [OF pay_wf_D(2), of db b] row_total_nonneg [OF pay_wf_D(3), of db b]
    good_row_get [OF pay_wf_D(4), of db b] by (simp add: totalPending_rows)

lemma SettleTxFee_zero:
  assumes wf: "pay_wf db" and r: "0 \<le> ratio" "ratio \<le> 10000" and "totalPending db b = 0"
  shows "SettleTxFee db b (Some ratio) = (db, Inr None)"
proof -
  note D = pay_wf_D [OF wf]
  have z: "row_total (pay_txPending db) b = 0" "row_total (pay_spawnPending db) b = 0"
    "mget_or 0 (pay_residencyPending db) b = 0"
    using assms(4) row_total_nonneg [OF D(2), of b] row_total_nonneg [OF D(3), of b]
      good_row_get [OF D(4), of b] by (simp_all add: totalPending_rows)
  obtain t d where t: "tx_shares ratio (mget_or [] (pay_txPending db) b) (0, []) = (t, d)" by fastforce
  have "t = 0" using tx_shares_spec(1) [OF good_rows_get [OF D(2)] r(1) t] z(1)
    by (simp add: row_total_def)
  moreover have "positive_sum (mget_or [] (pay_spawnPending db) b) = 0"
    using positive_sum_total [OF good_rows_get [OF D(3)]] z(2) by (simp add: row_total_def)
  ultimately show ?thesis using t z(3) r by (simp add: SettleTxFee_def)
qed

lemma SettleTxFee_pays:
  assumes wf: "pay_wf db" and r: "0 \<le> ratio" "ratio \<le> 10000" and pos: "totalPending db b \<noteq> 0"
    and cov: "totalPending db b \<le> totalBal db b"
  shows "\<exists>db' node dev. SettleTxFee db b (Some ratio) = (db', Inr (Some (node, dev))) \<and>
     settled db b ratio db' node dev \<and> pay_wf db'"
proof -
  note D = pay_wf_D [OF wf]
  let ?tx = "mget_or [] (pay_txPending db) b" and ?res = "mget_or 0 (pay_residencyPending db) b"
  obtain t d where t: "tx_shares ratio ?tx (0, []) = (t, d)" by fastforce
  note T = tx_shares_spec [OF good_rows_get [OF D(2)] r(1) t]
  define sp where "sp = positive_sum (mget_or [] (pay_spawnPending db) b)"
  have sp: "sp = row_total (pay_spawnPending db) b"
    using positive_sum_total [OF good_rows_get [OF D(3)]] by (simp add: sp_def row_total_def)
  have res: "(if ?res > 0 then ?res else 0) = ?res" using good_row_get [OF D(4), of b] by simp
  have charge: "t + sp + ?res = totalPending db b"
    using T(1) by (simp add: sp totalPending_rows row_total_def)
  have dev: "foldl (\<lambda>sum (p, x). sum + x) 0 d = mtotal d" by (simp add: foldl_msum mtotal_msum)
  obtain l' rem where ded:
    "deduct b (settle_order (pay_ledger db) b) (pay_ledger db) (totalPending db b) = (l', rem)"
    by fastforce
  have nn: "0 \<le> totalPending db b"
    using row_total_nonneg [OF D(2), of b] row_total_nonneg [OF D(3), of b] good_row_get [OF D(4), of b]
    by (simp add: totalPending_rows)
  have rem: "rem = 0"
    using deduct_complete [OF D(1) nn _ ded] cov by (simp add: totalBal_msum)
  note L = deduct_spec [OF D(1) nn ded, unfolded rem]
  define db' where "db' = db\<lparr>pay_ledger := l', pay_txPending := mdel b (pay_txPending db),
    pay_spawnPending := mdel b (pay_spawnPending db),
    pay_residencyPending := mdel b (pay_residencyPending db)\<rparr>"
  have ok: "SettleTxFee db b (Some ratio) = (db', Inr (Some (t - mtotal d + sp + ?res, d)))"
    using t r pos cov charge ded rem
    by (auto simp: SettleTxFee_def sp_def [symmetric] res dev db'_def Let_def)
  have pend: "totalPending db' c = (if c = b then 0 else totalPending db c)" for c
    by (simp add: totalPending_rows row_total_def db'_def)
  have bal: "totalBal db' c = (if c = b then totalBal db b - totalPending db b else totalBal db c)" for c
    using L(3) L(6) [of c] by (simp add: totalBal_msum db'_def)
  have share: "0 \<le> t - mtotal d"
    using share_sum_le [OF good_rows_get [OF D(2)] r, of b] T(1,2) by simp
  have own: "s = b \<or> entry l' b b = 0" if "entry l' s b \<noteq> entry (pay_ledger db) s b" for s
    using deduct_own_first [OF D(1) nn ded, of s] that by blast
  have devs: "mget_or 0 d p =
      (case mget ?tx p of None \<Rightarrow> 0 | Some a \<Rightarrow> a * ratio div 10000)" for p
    using T(3) [of p] unfolding dev_share_def by simp
  have ledger: "pay_ledger db' = l'" by (simp add: db'_def)
  have "settled db b ratio db' (t - mtotal d + sp + ?res) d"
    unfolding settled_def
    using charge share row_total_nonneg [OF D(3), of b] good_row_get [OF D(4), of b] devs L(4) own
    by (auto simp: pend bal sp ledger)
  moreover have "pay_wf db'" using D(2-4) L(1) by (simp add: pay_wf_def db'_def good_rows_mdel good_row_mdel)
  ultimately show ?thesis using ok by blast
qed

lemma SettleTxFee_short:
  assumes wf: "pay_wf db" and r: "0 \<le> ratio" "ratio \<le> 10000" and "totalBal db b < totalPending db b"
  shows "SettleTxFee db b (Some ratio) = (db, Inl (PayInsufficientCharge b (totalPending db b) (totalBal db b)))"
proof -
  note D = pay_wf_D [OF wf]
  obtain t d where t: "tx_shares ratio (mget_or [] (pay_txPending db) b) (0, []) = (t, d)" by fastforce
  have charge: "t + positive_sum (mget_or [] (pay_spawnPending db) b) + mget_or 0 (pay_residencyPending db) b = totalPending db b"
    using tx_shares_spec(1) [OF good_rows_get [OF D(2)] r(1) t] positive_sum_total [OF good_rows_get [OF D(3)], of b]
    by (simp add: totalPending_rows row_total_def)
  have "0 \<le> totalBal db b"
    using entry_nonneg [OF D(1)] totalBal_nonneg [OF D(1)] by blast
  with assms(4) charge t r good_row_get [OF D(4), of b] show ?thesis
    by (auto simp: SettleTxFee_def Let_def)
qed

text \<open>Every outcome of a settlement: a ratio out of range and a balance that does not cover what is pending are
  refused, and nothing changes.\<close>

definition settle_outcome :: "pay_db \<Rightarrow> string \<Rightarrow> int option \<Rightarrow> pay_db \<times> (pay_err + (int \<times> (string, int) gomap) option) \<Rightarrow> bool" where
  "settle_outcome db b devShareRatio r \<longleftrightarrow>
     (case devShareRatio of
        None \<Rightarrow> r = (db, Inl (PayInvalidRatio None))
      | Some ratio \<Rightarrow>
          if ratio < 0 \<or> 10000 < ratio then r = (db, Inl (PayInvalidRatio (Some ratio)))
          else if totalPending db b = 0 then r = (db, Inr None)
          else if totalBal db b < totalPending db b
          then r = (db, Inl (PayInsufficientCharge b (totalPending db b) (totalBal db b)))
          else \<exists>db' node dev. r = (db', Inr (Some (node, dev))) \<and> settled db b ratio db' node dev)"

lemma SettleTxFee_wf:
  assumes wf: "pay_wf db"
  shows "settle_outcome db b devShareRatio (SettleTxFee db b devShareRatio) \<and> pay_wf (fst (SettleTxFee db b devShareRatio))"
proof (cases "\<exists>ratio. devShareRatio = Some ratio \<and> 0 \<le> ratio \<and> ratio \<le> 10000")
  case True
  then obtain ratio where r: "devShareRatio = Some ratio" "0 \<le> ratio" "ratio \<le> 10000" by blast
  consider "totalPending db b = 0" | "totalPending db b \<noteq> 0" "totalPending db b \<le> totalBal db b"
    | "totalPending db b \<noteq> 0" "totalBal db b < totalPending db b" by linarith
  then show ?thesis
    using SettleTxFee_zero [OF wf r(2,3), of b] SettleTxFee_pays [OF wf r(2,3), of b]
      SettleTxFee_short [OF wf r(2,3), of b] r wf
    by cases (auto simp: settle_outcome_def)
next
  case False
  then have "SettleTxFee db b devShareRatio = (db, Inl (PayInvalidRatio devShareRatio))"
    by (cases devShareRatio) (auto simp: SettleTxFee_def not_le)
  with False wf show ?thesis by (cases devShareRatio) (auto simp: settle_outcome_def)
qed

lemma SettleTxFee_nothing:
  assumes "pay_inv db" "0 \<le> ratio" "ratio \<le> 10000" "totalPending db b = 0"
  shows "SettleTxFee db b (Some ratio) = (db, Inr None)"
  using SettleTxFee_zero assms by (simp add: pay_inv_def)

lemma SettleTxFee_some:
  assumes "pay_inv db" "0 \<le> ratio" "ratio \<le> 10000" "totalPending db b \<noteq> 0"
  shows "\<exists>db' node dev. SettleTxFee db b (Some ratio) = (db', Inr (Some (node, dev))) \<and>
     settled db b ratio db' node dev \<and> pay_inv db'"
proof -
  have le: "totalPending db c \<le> totalBal db c" for c using assms(1) by (simp add: pay_inv_def)
  obtain db' node dev where s: "SettleTxFee db b (Some ratio) = (db', Inr (Some (node, dev)))"
    "settled db b ratio db' node dev" "pay_wf db'"
    using SettleTxFee_pays [OF _ assms(2-4) le] assms(1) by (auto simp: pay_inv_def)
  have "totalPending db' c \<le> totalBal db' c" for c
    using s(2) le [of c] le [of b] by (cases "c = b") (auto simp: settled_def)
  with s show ?thesis by (auto simp: pay_inv_def)
qed

subsection \<open>Histories\<close>

datatype pay_op =
    PDeposit string string "int option"
  | PWithdraw string string "int option"
  | PUseOnce string string "int option"
  | PSpawnFee string string "int option"
  | PResidencyFee string "int option"
  | PSettle string "int option"
  | PRestart pay_db

text \<open>An operation with what it takes in (positive) or pays out (negative) by its own account of it:
  a deposit or withdrawal that returns no error, the fees a settlement hands out.\<close>

fun pay_step :: "pay_db \<Rightarrow> pay_op \<Rightarrow> pay_db \<times> int" where
  "pay_step db (PDeposit s b amt) =
     (case Deposit db s b amt of (db', None) \<Rightarrow> (db', the amt) | (db', Some _) \<Rightarrow> (db', 0))"
| "pay_step db (PWithdraw s b amt) =
     (case Withdraw db s b amt of (db', None) \<Rightarrow> (db', - the amt) | (db', Some _) \<Rightarrow> (db', 0))"
| "pay_step db (PUseOnce b p fee) = (fst (UseOnce db b p fee), 0)"
| "pay_step db (PSpawnFee b p fee) = (fst (SpawnFee db b p fee), 0)"
| "pay_step db (PResidencyFee p fee) = (fst (ResidencyFee db p fee), 0)"
| "pay_step db (PSettle b ratio) =
     (case SettleTxFee db b ratio of
        (db', Inr (Some (node, dev))) \<Rightarrow> (db', - (node + mtotal dev))
      | (db', _) \<Rightarrow> (db', 0))"
| "pay_step db (PRestart db0) = (PayDb_Restore db0 (PayDb_Checkpoint db), 0)"

fun pay_run :: "pay_db \<Rightarrow> pay_op list \<Rightarrow> pay_db \<times> int" where
  "pay_run db [] = (db, 0)"
| "pay_run db (op # ops) =
     (let (db1, d) = pay_step db op; (db2, ds) = pay_run db1 ops in (db2, d + ds))"

lemma NewPay_inv: "pay_inv NewPay"
  by (simp add: pay_inv_def pay_wf_def NewPay_def totalPending_rows row_total_def totalBal_msum)

lemma charge_ledger:
  "pay_ledger (fst (UseOnce db b p fee)) = pay_ledger db"
  "pay_ledger (fst (SpawnFee db b p fee)) = pay_ledger db"
  "pay_ledger (fst (ResidencyFee db b fee)) = pay_ledger db"
  by (simp_all add: UseOnce_def UseOnce_charge_def SpawnFee_def ResidencyFee_def split: option.splits)

text \<open>What a settlement reports as paid out, and what it leaves.\<close>

lemma SettleTxFee_step:
  assumes "pay_wf db"
  shows "pay_wf (fst (pay_step db (PSettle b ratio)))"
    and "grand_total (pay_ledger (fst (pay_step db (PSettle b ratio)))) =
      grand_total (pay_ledger db) + snd (pay_step db (PSettle b ratio))"
    and "fst (pay_step db (PSettle b ratio)) = db \<or>
      totalPending (fst (pay_step db (PSettle b ratio))) b = 0 \<and>
      totalBal (fst (pay_step db (PSettle b ratio))) b = totalBal db b - totalPending db b \<and>
      totalPending db b \<le> totalBal db b \<and>
      (\<forall>c. c \<noteq> b \<longrightarrow> totalBal (fst (pay_step db (PSettle b ratio))) c = totalBal db c \<and>
         totalPending (fst (pay_step db (PSettle b ratio))) c = totalPending db c)"
proof -
  note S = SettleTxFee_wf [OF assms, of b ratio]
  then show "pay_wf (fst (pay_step db (PSettle b ratio)))"
    by (auto split: prod.splits sum.splits option.splits)
  show "grand_total (pay_ledger (fst (pay_step db (PSettle b ratio)))) =
      grand_total (pay_ledger db) + snd (pay_step db (PSettle b ratio))"
    using S by (auto simp: settle_outcome_def settled_def split: option.splits if_splits)
  show "fst (pay_step db (PSettle b ratio)) = db \<or>
      totalPending (fst (pay_step db (PSettle b ratio))) b = 0 \<and>
      totalBal (fst (pay_step db (PSettle b ratio))) b = totalBal db b - totalPending db b \<and>
      totalPending db b \<le> totalBal db b \<and>
      (\<forall>c. c \<noteq> b \<longrightarrow> totalBal (fst (pay_step db (PSettle b ratio))) c = totalBal db c \<and>
         totalPending (fst (pay_step db (PSettle b ratio))) c = totalPending db c)"
    using S by (auto simp: settle_outcome_def settled_def split: option.splits if_splits)
qed

lemma SettleTxFee_inv:
  assumes "pay_inv db"
  shows "pay_inv (fst (pay_step db (PSettle b ratio))) \<and>
    grand_total (pay_ledger (fst (pay_step db (PSettle b ratio)))) =
      grand_total (pay_ledger db) + snd (pay_step db (PSettle b ratio))"
proof -
  have wf: "pay_wf db" and le: "totalPending db c \<le> totalBal db c" for c using assms by (auto simp: pay_inv_def)
  have "totalPending (fst (pay_step db (PSettle b ratio))) c \<le> totalBal (fst (pay_step db (PSettle b ratio))) c" for c
    using SettleTxFee_step(3) [OF wf, of b ratio] le by (cases "c = b") auto
  with SettleTxFee_step(1,2) [OF wf, of b ratio] show ?thesis by (auto simp: pay_inv_def simp del: pay_step.simps)
qed

lemma pay_step_inv:
  assumes "pay_inv db"
  shows "pay_inv (fst (pay_step db op)) \<and>
     grand_total (pay_ledger (fst (pay_step db op))) = grand_total (pay_ledger db) + snd (pay_step db op)"
proof (cases op)
  case (PDeposit s b amt)
  then show ?thesis
    using Deposit_inv [OF assms, of s b amt] Deposit_cases [of db s b amt]
    by (auto simp: row_add_grand)
next
  case (PWithdraw s b amt)
  then show ?thesis
    using Withdraw_inv [OF assms, of s b amt] Withdraw_cases [of db s b amt] pay_inv_D(1) [OF assms]
    by (auto simp: row_set_grand)
next
  case (PSettle b ratio)
  with SettleTxFee_inv [OF assms, of b ratio] show ?thesis by metis
qed (use assms in \<open>simp_all add: charges_inv charge_ledger PayDb_Restore_Checkpoint\<close>)

lemma pay_run_inv:
  "pay_inv db \<Longrightarrow> pay_inv (fst (pay_run db ops)) \<and>
     grand_total (pay_ledger (fst (pay_run db ops))) = grand_total (pay_ledger db) + snd (pay_run db ops)"
proof (induction ops arbitrary: db)
  case (Cons op ops)
  from pay_step_inv [OF Cons.prems, of op] Cons.IH [of "fst (pay_step db op)"] show ?case
    by (auto simp: Let_def split: prod.splits)
qed simp

subsection \<open>Interleaved charges\<close>

text \<open>A charge checks under the read lock and writes under the write lock; between the two any other call
  may take its turn. A state is a store with the charges that are between their two steps.\<close>

datatype charge_kind = ChUseOnce | ChSpawnFee | ChResidencyFee

type_synonym charge = "charge_kind \<times> string \<times> string \<times> int"

fun charge_write :: "pay_db \<Rightarrow> charge \<Rightarrow> pay_db" where
  "charge_write db (ChUseOnce, b, p, v) = UseOnce_charge db b p v"
| "charge_write db (ChSpawnFee, b, p, v) = SpawnFee_charge db b p v"
| "charge_write db (ChResidencyFee, b, p, v) = ResidencyFee_charge db b p v"

datatype pay_ev =
    PvOp pay_op
  | PvCheck charge_kind string string "int option"
  | PvWrite nat

text \<open>A restart ends the calls.\<close>

fun pay_event :: "pay_db \<times> charge list \<Rightarrow> pay_ev \<Rightarrow> (pay_db \<times> charge list) \<times> int" where
  "pay_event (db, calls) (PvOp op) =
     (case pay_step db op of (db', d) \<Rightarrow> ((db', case op of PRestart _ \<Rightarrow> [] | _ \<Rightarrow> calls), d))"
| "pay_event (db, calls) (PvCheck k b p fee) =
     ((db, if charge_check db b fee = None then calls @ [(k, b, p, the fee)] else calls), 0)"
| "pay_event (db, calls) (PvWrite i) =
     (if i < length calls
      then ((charge_write db (calls ! i), take i calls @ drop (Suc i) calls), 0)
      else ((db, calls), 0))"

fun pay_conc :: "pay_db \<times> charge list \<Rightarrow> pay_ev list \<Rightarrow> (pay_db \<times> charge list) \<times> int" where
  "pay_conc st [] = (st, 0)"
| "pay_conc st (ev # evs) =
     (let (st1, d) = pay_event st ev; (st2, ds) = pay_conc st1 evs in (st2, d + ds))"

text \<open>The charges of \<open>b\<close> under way, and the runs in which no call that lowers what \<open>b\<close> has left - a charge or a
  withdrawal - falls between the two steps of another charge of \<open>b\<close>.\<close>

definition under_way :: "string \<Rightarrow> charge list \<Rightarrow> charge list" where
  "under_way b calls = filter (\<lambda>(k, c, p, v). c = b) calls"

fun lowers :: "pay_ev \<Rightarrow> string option" where
  "lowers (PvOp (PWithdraw s b amt)) = Some b"
| "lowers (PvOp (PUseOnce b p fee)) = Some b"
| "lowers (PvOp (PSpawnFee b p fee)) = Some b"
| "lowers (PvOp (PResidencyFee b fee)) = Some b"
| "lowers (PvOp op) = None"
| "lowers (PvCheck k b p fee) = Some b"
| "lowers (PvWrite i) = None"

fun calm :: "string \<Rightarrow> pay_db \<times> charge list \<Rightarrow> pay_ev list \<Rightarrow> bool" where
  "calm b st [] \<longleftrightarrow> True"
| "calm b st (ev # evs) \<longleftrightarrow>
     (lowers ev = Some b \<longrightarrow> under_way b (snd st) = []) \<and> calm b (fst (pay_event st ev)) evs"

definition held :: "string \<Rightarrow> charge list \<Rightarrow> int" where
  "held b calls = sum_list (map (\<lambda>(k, c, p, v). v) (under_way b calls))"

lemma held_simps [simp]:
  "held b [] = 0" "held b ((k, c, p, v) # calls) = (if c = b then v else 0) + held b calls"
  "held b (xs @ ys) = held b xs + held b ys"
  by (simp_all add: held_def under_way_def)

lemma held_remove: "i < length calls \<Longrightarrow> held b (take i calls @ drop (Suc i) calls) = held b calls - held b [calls ! i]"
proof -
  assume "i < length calls"
  then have "held b calls = held b (take i calls @ calls ! i # drop (Suc i) calls)" by (simp add: Cons_nth_drop_Suc)
  then show ?thesis by (cases "calls ! i") (simp del: append_take_drop_id)
qed

lemma under_way_Nil_held: "under_way b calls = [] \<Longrightarrow> held b calls = 0"
  by (simp add: held_def)

text \<open>Every interleaving keeps the books; a beneficiary without races stays covered, what its charges under
  way have been checked for included.\<close>

definition conc_wf :: "pay_db \<times> charge list \<Rightarrow> bool" where
  "conc_wf st \<longleftrightarrow> pay_wf (fst st) \<and> (\<forall>(k, b, p, v) \<in> set (snd st). 0 < v)"

definition covered :: "string \<Rightarrow> pay_db \<times> charge list \<Rightarrow> bool" where
  "covered b st \<longleftrightarrow> totalPending (fst st) b + held b (snd st) \<le> totalBal (fst st) b"

lemma charge_write_reads [simp]:
  "totalBal (charge_write db (k, b, p, v)) c = totalBal db c"
  "totalPending (charge_write db (k, b, p, v)) c = totalPending db c + (if c = b then v else 0)"
  "pay_wf db \<Longrightarrow> 0 < v \<Longrightarrow> pay_wf (charge_write db (k, b, p, v))"
  by (cases k; simp add: use_once.bal_hold spawn_fee.bal_hold residency_fee.bal_hold
      use_once.pend_hold spawn_fee.pend_hold residency_fee.pend_hold
      use_once.wf_hold spawn_fee.wf_hold residency_fee.wf_hold)+

lemma charge_write_ledger [simp]: "pay_ledger (charge_write db (k, b, p, v)) = pay_ledger db"
  by (cases k) (simp_all add: charge_defs)

declare charge_write.simps [simp del]

lemma atomic_charge:
  "(fst (UseOnce db b p fee) = db \<or> charge_check db b fee = None \<and> fst (UseOnce db b p fee) = charge_write db (ChUseOnce, b, p, the fee))"
  "(fst (SpawnFee db b p fee) = db \<or> charge_check db b fee = None \<and> fst (SpawnFee db b p fee) = charge_write db (ChSpawnFee, b, p, the fee))"
  "(fst (ResidencyFee db b fee) = db \<or> charge_check db b fee = None \<and> fst (ResidencyFee db b fee) = charge_write db (ChResidencyFee, b, [], the fee))"
  by (auto simp: UseOnce_def SpawnFee_def ResidencyFee_def SpawnFee_charge_def ResidencyFee_charge_def charge_write.simps
      split: option.splits)

lemma checked_fee: "charge_check db b fee = None \<Longrightarrow> 0 < the fee \<and> the fee \<le> totalBal db b - totalPending db b"
  by (auto simp: charge_check_ok)

text \<open>One atomic operation, without solvency.\<close>

lemma pay_step_books:
  assumes "pay_wf db"
  shows "pay_wf (fst (pay_step db op)) \<and>
    grand_total (pay_ledger (fst (pay_step db op))) = grand_total (pay_ledger db) + snd (pay_step db op) \<and>
    (totalPending db b + h \<le> totalBal db b \<longrightarrow> (lowers (PvOp op) = Some b \<longrightarrow> h = 0) \<longrightarrow>
       totalPending (fst (pay_step db op)) b + h \<le> totalBal (fst (pay_step db op)) b)"
proof (cases op)
  case (PDeposit s c amt)
  then show ?thesis
    using Deposit_cases [of db s c amt] assms
    by (auto simp: row_add_grand pay_wf_def row_add_good row_add_col totalBal_msum [symmetric])
next
  case (PWithdraw s c amt)
  then show ?thesis
    using Withdraw_cases [of db s c amt] assms
    by (auto simp: row_set_grand pay_wf_def row_set_good row_set_col totalBal_msum [symmetric])
next
  case (PUseOnce c p fee)
  then show ?thesis using atomic_charge(1) [of db c p fee] checked_fee [of db c fee] assms by auto
next
  case (PSpawnFee c p fee)
  then show ?thesis using atomic_charge(2) [of db c p fee] checked_fee [of db c fee] assms by auto
next
  case (PResidencyFee c fee)
  then show ?thesis using atomic_charge(3) [of db c fee] checked_fee [of db c fee] assms by auto
next
  case (PSettle c ratio)
  show ?thesis
    using SettleTxFee_step [OF assms, of c ratio] unfolding PSettle by (cases "c = b") (auto simp del: pay_step.simps)
next
  case (PRestart db0)
  then show ?thesis using assms by (simp add: PayDb_Restore_Checkpoint)
qed

lemma pay_event_books:
  assumes "conc_wf st"
  shows "conc_wf (fst (pay_event st ev)) \<and>
    grand_total (pay_ledger (fst (fst (pay_event st ev)))) = grand_total (pay_ledger (fst st)) + snd (pay_event st ev) \<and>
    (covered b st \<longrightarrow> (lowers ev = Some b \<longrightarrow> under_way b (snd st) = []) \<longrightarrow> covered b (fst (pay_event st ev)))"
proof -
  obtain db calls where st: "st = (db, calls)" by (cases st)
  have wf: "pay_wf db" and pos: "\<forall>(k, b, p, v) \<in> set calls. 0 < v" using assms by (simp_all add: conc_wf_def st)
  have nn: "0 \<le> held b calls" for b
    using pos unfolding held_def under_way_def by (intro sum_list_nonneg) auto
  show ?thesis
  proof (cases ev)
    case (PvOp op)
    let ?calls = "case op of PRestart _ \<Rightarrow> [] | _ \<Rightarrow> calls"
    have c: "?calls = calls \<or> ?calls = []" by (cases op) auto
    have e: "pay_event st ev = ((fst (pay_step db op), ?calls), snd (pay_step db op))"
      by (simp add: st PvOp split: prod.split)
    note B = pay_step_books [OF wf, of op b "held b calls"]
    have "conc_wf (fst (pay_event st ev))" using B c pos unfolding e conc_wf_def by auto
    moreover have "covered b (fst (pay_event st ev))"
      if "covered b st" "lowers ev = Some b \<longrightarrow> under_way b (snd st) = []"
    proof -
      have "totalPending (fst (pay_step db op)) b + held b calls \<le> totalBal (fst (pay_step db op)) b"
        using B that under_way_Nil_held [of b calls] by (simp add: covered_def st PvOp)
      moreover have "held b ?calls \<le> held b calls" using c nn by auto
      ultimately show ?thesis unfolding e covered_def by simp
    qed
    ultimately show ?thesis using B unfolding e by (simp add: st)
  next
    case (PvCheck k c p fee)
    then show ?thesis
      using wf pos checked_fee [of db c fee] under_way_Nil_held [of b calls]
      by (auto simp: st conc_wf_def covered_def)
  next
    case (PvWrite i)
    show ?thesis
    proof (cases "i < length calls")
      case True
      obtain k c p v where x: "calls ! i = (k, c, p, v)" by (cases "calls ! i")
      with True pos have "0 < v" using nth_mem [OF True] by fastforce
      moreover have "set (take i calls @ drop (Suc i) calls) \<subseteq> set calls"
        using set_take_subset set_drop_subset by fastforce
      ultimately show ?thesis
        using wf pos True held_remove [OF True, of b] x
        by (auto simp: st PvWrite conc_wf_def covered_def)
    qed (use assms in \<open>simp add: st PvWrite\<close>)
  qed
qed

lemma pay_conc_books:
  "conc_wf st \<Longrightarrow> conc_wf (fst (pay_conc st evs)) \<and>
     grand_total (pay_ledger (fst (fst (pay_conc st evs)))) = grand_total (pay_ledger (fst st)) + snd (pay_conc st evs) \<and>
     (covered b st \<longrightarrow> calm b st evs \<longrightarrow> covered b (fst (pay_conc st evs)))"
proof (induction evs arbitrary: st)
  case (Cons ev evs)
  have s: "fst (pay_conc st (ev # evs)) = fst (pay_conc (fst (pay_event st ev)) evs)"
    "snd (pay_conc st (ev # evs)) = snd (pay_event st ev) + snd (pay_conc (fst (pay_event st ev)) evs)"
    by (simp_all add: Let_def split: prod.split)
  from pay_event_books [OF Cons.prems, of ev b] Cons.IH [of "fst (pay_event st ev)"] show ?case
    unfolding s by auto
qed simp

lemma conc_New: "conc_wf (NewPay, [])" "covered b (NewPay, [])"
  using NewPay_inv by (simp_all add: conc_wf_def covered_def pay_inv_def)

text \<open>C7: the books of the payment store balance in every interleaving, and a beneficiary whose charges do not
  race stays covered. Let deposits, withdrawals, charges, settlements and restarts come in any order and with
  any arguments, and let the check and the write of a charge be two steps between which others may fall. Then
  no entry and no pending sum is negative, and the ledger holds exactly what deposits brought in less what
  withdrawals and settlements report as paid out. What is pending against a beneficiary, with the charges that
  are checked and not yet written, is covered by the deposits made for it if no charge or withdrawal of the
  same beneficiary was let in between the two steps of one of its charges.\<close>

theorem Pay_solvent:
  "let ((db, calls), flow) = pay_conc (NewPay, []) evs in
     (\<forall>b. 0 \<le> totalPending db b) \<and> (\<forall>s b. 0 \<le> entry (pay_ledger db) s b) \<and> grand_total (pay_ledger db) = flow \<and>
     (\<forall>b. calm b (NewPay, []) evs \<longrightarrow> totalPending db b + held b calls \<le> totalBal db b)"
proof -
  obtain db calls flow where r: "pay_conc (NewPay, []) evs = ((db, calls), flow)"
    by (metis prod.collapse)
  note B = pay_conc_books [OF conc_New(1), of evs, unfolded r]
  have wf: "pay_wf db" using B by (simp add: conc_wf_def)
  have "grand_total (pay_ledger db) = flow" using B by (simp add: NewPay_def grand_total_def)
  moreover have "totalPending db b + held b calls \<le> totalBal db b" if "calm b (NewPay, []) evs" for b
    using B [of b] conc_New(2) that by (simp add: covered_def)
  ultimately show ?thesis
    using totalPending_nonneg [OF wf] entry_nonneg [OF pay_wf_D(1) [OF wf]] by (simp add: r)
qed

text \<open>Two beneficiaries whose charges interleave with each other, but not with their own.\<close>

definition demo_pay_evs :: "pay_ev list" where
  "demo_pay_evs =
     [PvOp (PDeposit ''s'' ''b'' (Some 100)), PvOp (PDeposit ''s'' ''c'' (Some 10)),
      PvCheck ChUseOnce ''b'' ''p'' (Some 7), PvCheck ChSpawnFee ''c'' ''q'' (Some 10), PvWrite 1, PvWrite 0]"

lemmas demo_pay_eval = demo_pay_evs_def NewPay_def Deposit_def bad_amount_def UseOnce_charge_def SpawnFee_charge_def
  charge_check_def CanCover_def totalBal_def totalPending_def row_add_def

lemma demo_conc_db:
  "pay_conc (NewPay, []) demo_pay_evs =
     ((NewPay\<lparr>pay_ledger := [(''s'', [(''b'', 100), (''c'', 10)])], pay_txPending := [(''b'', [(''p'', 7)])],
        pay_spawnPending := [(''c'', [(''q'', 10)])]\<rparr>, []), 110)"
  by (simp add: demo_pay_eval charge_write.simps)

theorem Pay_solvent_witness:
  "calm ''b'' (NewPay, []) demo_pay_evs \<and> calm ''c'' (NewPay, []) demo_pay_evs \<and>
   (let ((db, calls), flow) = pay_conc (NewPay, []) demo_pay_evs in
      flow = 110 \<and> totalPending db ''b'' = 7 \<and> totalPending db ''b'' \<le> totalBal db ''b'' \<and>
      totalPending db ''c'' = 10 \<and> totalPending db ''c'' \<le> totalBal db ''c'')"
proof -
  have c: "calm ''b'' (NewPay, []) demo_pay_evs" "calm ''c'' (NewPay, []) demo_pay_evs"
    by (simp_all add: demo_pay_eval under_way_def charge_write.simps)
  let ?db = "fst (fst (pay_conc (NewPay, []) demo_pay_evs))"
  have "totalPending ?db ''b'' = 7" "totalPending ?db ''c'' = 10"
    unfolding demo_conc_db by (simp_all add: NewPay_def totalPending_def)
  moreover have "calm b (NewPay, []) demo_pay_evs \<Longrightarrow> totalPending ?db b \<le> totalBal ?db b" for b
    using Pay_solvent [of demo_pay_evs] unfolding demo_conc_db by simp
  moreover have "snd (pay_conc (NewPay, []) demo_pay_evs) = 110" by (simp only: demo_conc_db snd_conv)
  ultimately show ?thesis using c by (fastforce simp: split_beta)
qed

text \<open>C8: what a settlement does, in every store that an interleaving can reach. A ratio that is missing or not
  between 0 and 10000 is refused, and so is a settlement of more than the beneficiary's deposits, as a race of
  charges can leave it; both change nothing. With nothing pending nothing is returned. Otherwise the node's fee
  and the developers' fees add up to what was pending, each process's developer gets its share of that process's
  transaction fees rounded down, the beneficiary's balance falls by that sum, nothing stays pending, no other
  beneficiary is touched, and other sponsors pay only once the beneficiary's own deposit is used up.\<close>

theorem SettleTxFee_divides:
  "let db = fst (fst (pay_conc (NewPay, []) evs)) in settle_outcome db b devShareRatio (SettleTxFee db b devShareRatio)"
proof -
  have "pay_wf (fst (fst (pay_conc (NewPay, []) evs)))"
    using pay_conc_books [OF conc_New(1), of evs] by (simp add: conc_wf_def)
  then show ?thesis unfolding Let_def using SettleTxFee_wf by blast
qed

theorem SettleTxFee_divides_witness:
  "\<exists>db' dev. SettleTxFee (fst (fst (pay_conc (NewPay, []) demo_pay_evs))) ''b'' (Some 5000) = (db', Inr (Some (4, dev))) \<and>
     totalBal db' ''b'' = 93 \<and> mget_or 0 dev ''p'' = 3"
proof -
  let ?db = "fst (fst (pay_conc (NewPay, []) demo_pay_evs))"
  have pend: "totalPending ?db ''b'' = 7" and bal: "totalBal ?db ''b'' = 100"
    unfolding demo_conc_db by (simp_all add: NewPay_def totalPending_def totalBal_def)
  from SettleTxFee_divides [of demo_pay_evs "''b''" "Some 5000"] pend bal
  obtain db' node dev where s: "SettleTxFee ?db ''b'' (Some 5000) = (db', Inr (Some (node, dev)))"
    and st: "settled ?db ''b'' 5000 db' node dev"
    by (auto simp: Let_def settle_outcome_def)
  have tx: "pay_txPending ?db = [(''b'', [(''p'', 7)])]" unfolding demo_conc_db by simp
  from st have p: "mget_or 0 dev ''p'' = 3" unfolding settled_def tx by simp
  from s have "node = 4"
    unfolding demo_conc_db
    by (simp add: NewPay_def SettleTxFee_def big_Quo_def positive_sum_def totalBal_def settle_order_def
        deduct.simps split: prod.splits)
  with s st p pend bal show ?thesis unfolding settled_def by auto
qed

definition demo_pay_ops :: "pay_op list" where
  "demo_pay_ops = [PDeposit ''s'' ''b'' (Some 100), PUseOnce ''b'' ''p'' (Some 7)]"

lemma demo_pay_db:
  "fst (pay_run NewPay demo_pay_ops) =
     NewPay\<lparr>pay_ledger := [(''s'', [(''b'', 100)])], pay_txPending := [(''b'', [(''p'', 7)])]\<rparr>"
  by (simp add: demo_pay_ops_def NewPay_def Deposit_def bad_amount_def UseOnce_def UseOnce_charge_def
      charge_check_def CanCover_def totalBal_def totalPending_def row_add_def)

subsection \<open>The check of a charge is not atomic with it\<close>

text \<open>Two calls of \<open>UseOnce\<close>: both make their checks, then both charge.\<close>

definition UseOnce_interleaved ::
  "pay_db \<Rightarrow> string \<Rightarrow> string \<Rightarrow> int option \<Rightarrow> string \<Rightarrow> int option \<Rightarrow> pay_db \<times> pay_err option \<times> pay_err option" where
  "UseOnce_interleaved db b p fee q fee' =
     (let e = charge_check db b fee; e' = charge_check db b fee';
          db1 = (if e = None then UseOnce_charge db b p (the fee) else db);
          db2 = (if e' = None then UseOnce_charge db1 b q (the fee') else db1)
      in (db2, e, e'))"

text \<open>C9: two concurrent charges can overdraw. When a beneficiary covers each of two fees but not
  their sum, two interleaved calls both succeed and leave more pending than its deposits cover, a
  state that no sequence of atomic operations reaches; a settlement then fails.\<close>

theorem UseOnce_race_overdraws:
  assumes "pay_inv db" and "b \<noteq> []" and "0 < v" and "0 < w"
    and "v \<le> totalBal db b - totalPending db b" and "w \<le> totalBal db b - totalPending db b"
    and "totalBal db b - totalPending db b < v + w"
  shows "\<exists>db'. UseOnce_interleaved db b p (Some v) q (Some w) = (db', None, None) \<and>
     totalBal db' b < totalPending db' b \<and>
     (\<forall>ops. fst (pay_run NewPay ops) \<noteq> db')"
proof -
  let ?db = "UseOnce_charge (UseOnce_charge db b p v) b q w"
  have "charge_check db b (Some v) = None" "charge_check db b (Some w) = None"
    using assms by (simp_all add: charge_check_ok)
  then have r: "UseOnce_interleaved db b p (Some v) q (Some w) = (?db, None, None)"
    by (simp add: UseOnce_interleaved_def Let_def)
  have over: "totalBal ?db b < totalPending ?db b"
    by (rule use_once.double_hold_overdraws) (rule assms(7))
  have "fst (pay_run NewPay ops) \<noteq> ?db" for ops
  proof
    assume "fst (pay_run NewPay ops) = ?db"
    then have "pay_inv ?db" using pay_run_inv [OF NewPay_inv, of ops] by simp
    with over show False using pay_inv_D(5) [of ?db b] by simp
  qed
  with r over show ?thesis by blast
qed

theorem UseOnce_race_overdraws_witness:
  "\<exists>db'. UseOnce_interleaved (NewPay\<lparr>pay_ledger := [(''s'', [(''b'', 10)])]\<rparr>) ''b'' ''p'' (Some 7) ''q'' (Some 7)
      = (db', None, None) \<and> totalBal db' ''b'' < totalPending db' ''b''"
proof -
  let ?db = "NewPay\<lparr>pay_ledger := [(''s'', [(''b'', 10)])]\<rparr>"
  have inv: "pay_inv ?db"
    by (auto simp: pay_inv_def pay_wf_def NewPay_def good_rows_def good_row_def totalPending_rows
        row_total_def totalBal_def)
  have "totalBal ?db ''b'' = 10" "totalPending ?db ''b'' = 0"
    by (simp_all add: NewPay_def totalBal_def totalPending_def)
  with UseOnce_race_overdraws [OF inv, of "''b''" 7 7 "''p''" "''q''"] show ?thesis by auto
qed

end
