(* ===== verification/NodeSchema.thy ===== *)
theory NodeSchema
  imports PayDb RegistryVm TokenVm
begin

text \<open>
  The types the node, the machine manager and the payment service share: the result a manager
  hands to the node (vmm/schema/schema.go), the meta data of an item (node/schema), and the
  sentinel errors of the packages as one datatype.
\<close>

datatype sys_err =
    ErrInvalidType | ErrProcessIsRecovering | ErrProcessAlreadyExists | ErrProcessNotFound
  | ErrProcessStopped | ErrCoreProcessCannotStop | ErrSpawnRedirect | ErrMessageRedirect
  | ErrDuplicateItem | ErrNotFoundNodes | ErrNotFoundCkp | ErrNotFoundMod | ErrUnauthorizedNode
  | ErrInvalidForkItem | ErrProcessBusy
  | ErrVmmClosed | ErrVmStopping | ErrRegistryAlreadyCreated | ErrTokenAlreadyCreated
  | ErrInvalidModuleFormat | ErrInvalidNonce | ErrSequenceTooLow | ErrSpawnProcessFailed
  | ErrVmmProcessAlreadyExists | ErrVmmProcessNotFound | ErrProcessEnvNotFound
  | ErrRegistryNotFound | ErrVmmMissingParam | ErrFactoryAlreadyMounted | ErrDecryptParamFailed
  | ErrTxAlreadyExecuted | ErrPaymentFailed | ErrNotExist
  | CodecErr codec_error | VmErr vm_err | PayDbErr pay_err | OtherErr string

record vmm_result =
  vr_Nonce :: string
  vr_Timestamp :: string
  vr_ItemId :: string
  vr_FromProcess :: string
  vr_PushedFor :: string
  vr_Messages :: "res_message list"
  vr_Spawns :: "res_spawn list"
  vr_Assignments :: "string list"
  vr_Output :: string
  vr_Data :: string
  vr_Cache :: "(string, string) gomap"
  vr_Mode :: exec_mode
  vr_Error :: string

text \<open>\<open>Instance\<close> is an \<open>interface{}\<close> switched on by its type.\<close>

record item_meta =
  im_Pid :: string
  im_Signer :: string
  im_FromProcess :: string
  im_Instance :: instance_val

end
