(* ===== verification/PayService.thy ===== *)
theory PayService
  imports PaySettle NodeSchema
begin

text \<open>
  The payment service (pay/): the fee it takes for an item, the deposits it credits from the
  token's credit notices, and the hourly settlement with the transfers it sends.
\<close>

subsection \<open>Configuration and fees (hymx.go)\<close>

record pay_config =
  cfg_ChargeAddress :: string
  cfg_SettlementAddress :: string
  cfg_AxToken :: string
  cfg_TxFee :: "int option"
  cfg_SpawnFee :: "int option"
  cfg_ResidencyFee :: "int option"
  cfg_DailyLimit :: int64
  cfg_DeveloperShareRatio :: "int option"

definition fee_payer :: "item_meta \<Rightarrow> string" where
  "fee_payer m = (if im_FromProcess m \<noteq> [] then im_FromProcess m else im_Signer m)"

definition fee_outcome :: "pay_db \<times> pay_err option \<Rightarrow> pay_db \<times> sys_err option" where
  "fee_outcome r = (case r of (db, Some _) \<Rightarrow> (db, Some ErrPaymentFailed) | (db, None) \<Rightarrow> (db, None))"

definition HymxFeeHandler :: "pay_config \<Rightarrow> pay_db \<Rightarrow> item_meta \<Rightarrow> pay_db \<times> sys_err option" where
  "HymxFeeHandler cfg db m =
     (let payer = fee_payer m in
      if IsWhitelist db payer then (db, None)
      else case im_Instance m of
        IProcess _ \<Rightarrow> fee_outcome (SpawnFee db payer (im_Pid m) (cfg_SpawnFee cfg))
      | IMessage _ \<Rightarrow>
          if 0 <s cfg_DailyLimit cfg \<and> DailyUsage db payer <s cfg_DailyLimit cfg
          then (IncrDailyUsage db payer, None)
          else fee_outcome (UseOnce db payer (im_Pid m) (cfg_TxFee cfg))
      | _ \<Rightarrow> (db, Some ErrInvalidType))"

subsection \<open>Deposits (hymx.go, handle.go)\<close>

definition handleDeposit ::
  "pay_db \<Rightarrow> string \<Rightarrow> string \<Rightarrow> string \<Rightarrow> int \<Rightarrow> pay_db \<times> sys_err option" where
  "handleDeposit db txHash sponsor beneficiary qty =
     (if IsExecuted db txHash then (db, Some ErrTxAlreadyExecuted)
      else let db1 = fst (MarkExecuted db txHash)
           in case Deposit db1 sponsor beneficiary (Some qty) of
                (db2, Some e) \<Rightarrow> (db2, Some (PayDbErr e))
              | (db2, None) \<Rightarrow> (db2, None))"

text \<open>\<open>get_bin\<close> is the SDK's request for the item of a message; \<open>None\<close> is an error.\<close>

definition getHymxBeneficiary :: "(string \<Rightarrow> bundle_item option) \<Rightarrow> string \<Rightarrow> string \<Rightarrow> string option" where
  "getHymxBeneficiary get_bin sender itemId =
     (case get_bin itemId of
        None \<Rightarrow> None
      | Some item \<Rightarrow>
          (let b = GetTagsValue ''Beneficiary'' (item_Tags item)
           in Some (if b = [] then sender else b)))"

fun deposit_notices :: "(string \<Rightarrow> bundle_item option) \<Rightarrow> string \<Rightarrow> pay_db \<Rightarrow> tag list list \<Rightarrow> pay_db" where
  "deposit_notices get_bin itemId db [] = db"
| "deposit_notices get_bin itemId db (tags # rest) =
     (let sender = GetTagsValue ''Sender'' tags in
      case big_SetString (GetTagsValue ''Quantity'' tags) of
        None \<Rightarrow> deposit_notices get_bin itemId db rest
      | Some qty \<Rightarrow>
          let beneficiary = (case getHymxBeneficiary get_bin sender itemId of
                               None \<Rightarrow> sender | Some b \<Rightarrow> b)
          in deposit_notices get_bin itemId (fst (handleDeposit db itemId sender beneficiary qty)) rest)"

definition HymxDepositHandler ::
  "pay_config \<Rightarrow> string \<Rightarrow> (string \<Rightarrow> bundle_item option) \<Rightarrow> pay_db \<Rightarrow> vmm_result \<Rightarrow> pay_db" where
  "HymxDepositHandler cfg address get_bin db res =
     (if vr_FromProcess res \<noteq> cfg_AxToken cfg then db
      else
        let tagsList = map rm_Tags (filter (\<lambda>msg. rm_Target msg = address \<and>
              GetTagsValue ''Action'' (rm_Tags msg) = ''Credit-Notice'') (vr_Messages res))
        in if tagsList = [] then db else deposit_notices get_bin (vr_ItemId res) db tagsList)"

subsection \<open>Settlement (settle.go)\<close>

text \<open>A message handed to the SDK: the target and the tags; its error is dropped.\<close>

type_synonym sdk_message = "string \<times> tag list"

definition pay_transfer :: "string \<Rightarrow> string \<Rightarrow> int \<Rightarrow> sdk_message" where
  "pay_transfer token to amt =
     (token, [Tag ''Action'' ''Transfer'', Tag ''Recipient'' to, Tag ''Quantity'' (show_int amt)])"

definition pay_settle :: "pay_config \<Rightarrow> int \<Rightarrow> (string, int) gomap \<Rightarrow> sdk_message list" where
  "pay_settle cfg nodeFee devFees =
     pay_transfer (cfg_AxToken cfg) (cfg_SettlementAddress cfg) nodeFee #
     map (\<lambda>(pid, fee). pay_transfer (cfg_AxToken cfg) pid fee) devFees"

fun add_dev_fees :: "(string, int) gomap \<Rightarrow> (string, int) gomap \<Rightarrow> (string, int) gomap" where
  "add_dev_fees acc [] = acc"
| "add_dev_fees acc ((pid, fee) # fees) =
     (if fee = 0 then add_dev_fees acc fees
      else add_dev_fees (mput pid (mget_or 0 acc pid + fee) acc) fees)"

fun settle_all ::
  "pay_config \<Rightarrow> string list \<Rightarrow> pay_db \<times> int \<times> (string, int) gomap \<Rightarrow> pay_db \<times> int \<times> (string, int) gomap" where
  "settle_all cfg [] acc = acc"
| "settle_all cfg (ben # bens) (db, node, dev) =
     (case SettleTxFee db ben (cfg_DeveloperShareRatio cfg) of
        (db', Inl _) \<Rightarrow> settle_all cfg bens (db', node, dev)
      | (db', Inr None) \<Rightarrow> settle_all cfg bens (db', node, dev)
      | (db', Inr (Some (nodeFee, devFees))) \<Rightarrow>
          settle_all cfg bens (db', node + nodeFee, add_dev_fees dev devFees))"

definition settleAll :: "pay_config \<Rightarrow> pay_db \<Rightarrow> pay_db \<times> sdk_message list" where
  "settleAll cfg db =
     (let (db', node, dev) = settle_all cfg (mkeys (AllPending db)) (db, 0, [])
      in (db', pay_settle cfg node dev))"

subsection \<open>Fees\<close>

lemma fee_outcome_cases:
  "(\<exists>e. r = (db, Some e)) \<Longrightarrow> fee_outcome r = (db, Some ErrPaymentFailed)"
  "r = (db', None) \<Longrightarrow> fee_outcome r = (db', None)"
  by (auto simp: fee_outcome_def)

text \<open>What the handler of a fee did to the store when it let an item through.\<close>

definition fee_paid :: "pay_config \<Rightarrow> pay_db \<Rightarrow> item_meta \<Rightarrow> pay_db \<Rightarrow> bool" where
  "fee_paid cfg db m db' \<longleftrightarrow>
     (let payer = fee_payer m in
      if IsWhitelist db payer then db' = db
      else (\<exists>v. 0 < v \<and> v \<le> totalBal db payer - totalPending db payer \<and>
              (\<forall>c. totalBal db' c = totalBal db c) \<and>
              (\<forall>c. totalPending db' c = totalPending db c + (if c = payer then v else 0)) \<and>
              pay_dailyUsage db' = pay_dailyUsage db \<and>
              ((\<exists>p. im_Instance m = IProcess p) \<and> cfg_SpawnFee cfg = Some v \<or>
               (\<exists>x. im_Instance m = IMessage x) \<and> cfg_TxFee cfg = Some v \<and>
                 cfg_DailyLimit cfg \<le>s DailyUsage db payer \<or>
               (\<exists>x. im_Instance m = IMessage x) \<and> cfg_TxFee cfg = Some v \<and>
                 cfg_DailyLimit cfg \<le>s 0)) \<or>
           ((\<exists>x. im_Instance m = IMessage x) \<and> 0 <s cfg_DailyLimit cfg \<and>
              DailyUsage db payer <s cfg_DailyLimit cfg \<and>
              db' = db\<lparr>pay_dailyUsage := mput payer (DailyUsage db payer + 1) (pay_dailyUsage db)\<rparr>))"

lemma charge_effect:
  assumes "SpawnFee db b p fee = (db', None) \<or> UseOnce db b p fee = (db', None)"
  shows "\<exists>v. fee = Some v \<and> 0 < v \<and> v \<le> totalBal db b - totalPending db b \<and>
     (\<forall>c. totalBal db' c = totalBal db c) \<and>
     (\<forall>c. totalPending db' c = totalPending db c + (if c = b then v else 0)) \<and>
     pay_dailyUsage db' = pay_dailyUsage db"
proof -
  from assms obtain r where r: "r = UseOnce db b p fee \<or> r = SpawnFee db b p fee \<or> r = ResidencyFee db b fee"
    and rr: "r = (db', None)" by blast
  show ?thesis
    using charge_cases [OF r] rr
    by (auto simp: use_once.bal_hold use_once.pend_hold spawn_fee.bal_hold spawn_fee.pend_hold
        residency_fee.bal_hold residency_fee.pend_hold)
       (auto simp: charge_defs)
qed

lemma charge_error: "SpawnFee db b p fee = (db', Some e) \<or> UseOnce db b p fee = (db', Some e) \<Longrightarrow> db' = db"
  by (auto simp: SpawnFee_def UseOnce_def split: option.splits)

text \<open>an item passes the fee handler only if its payer - the process that sent it, or else its
  signer - is whitelisted, or was charged exactly the configured fee out of deposits that cover it,
  or had a free message left today; a refused item leaves the store as it was.\<close>

theorem HymxFeeHandler_outcome:
  assumes "HymxFeeHandler cfg db m = (db', err)"
  shows "(err = None \<and> fee_paid cfg db m db') \<or> (err \<noteq> None \<and> db' = db)"
proof (cases "IsWhitelist db (fee_payer m)")
  case True
  with assms show ?thesis by (auto simp: Let_def HymxFeeHandler_def fee_paid_def)
next
  case nw: False
  show ?thesis
  proof (cases "im_Instance m")
    case (IProcess p)
    obtain d e where c: "SpawnFee db (fee_payer m) (im_Pid m) (cfg_SpawnFee cfg) = (d, e)" by fastforce
    with assms nw IProcess have r: "(db', err) = fee_outcome (d, e)" by (simp add: HymxFeeHandler_def)
    show ?thesis
    proof (cases e)
      case None
      with charge_effect [of db "fee_payer m" "im_Pid m" "cfg_SpawnFee cfg" d] c r nw IProcess
      show ?thesis by (auto simp: Let_def fee_outcome_def fee_paid_def)
    next
      case (Some x)
      with charge_error [of db "fee_payer m" "im_Pid m" "cfg_SpawnFee cfg" d x] c r
      show ?thesis by (auto simp: fee_outcome_def)
    qed
  next
    case (IMessage x)
    show ?thesis
    proof (cases "0 <s cfg_DailyLimit cfg \<and> DailyUsage db (fee_payer m) <s cfg_DailyLimit cfg")
      case True
      with assms nw IMessage show ?thesis
        by (auto simp: Let_def HymxFeeHandler_def fee_paid_def IncrDailyUsage_def)
    next
      case False
      then have lim: "cfg_DailyLimit cfg \<le>s DailyUsage db (fee_payer m) \<or> cfg_DailyLimit cfg \<le>s 0"
        by (auto simp: sless_not [symmetric])
      obtain d e where c: "UseOnce db (fee_payer m) (im_Pid m) (cfg_TxFee cfg) = (d, e)" by fastforce
      with assms nw IMessage False have r: "(db', err) = fee_outcome (d, e)"
        by (auto simp: Let_def HymxFeeHandler_def)
      show ?thesis
      proof (cases e)
        case None
        with charge_effect [of db "fee_payer m" "im_Pid m" "cfg_TxFee cfg" d] c r nw IMessage lim
        show ?thesis by (auto simp: Let_def fee_outcome_def fee_paid_def)
      next
        case (Some y)
        with charge_error [of db "fee_payer m" "im_Pid m" "cfg_TxFee cfg" d y] c r
        show ?thesis by (auto simp: fee_outcome_def)
      qed
    qed
  next
    case (IAssignment x)
    with assms nw show ?thesis by (auto simp: Let_def HymxFeeHandler_def)
  qed
qed

definition demo_cfg :: pay_config where
  "demo_cfg = \<lparr>cfg_ChargeAddress = ''c'', cfg_SettlementAddress = ''cold'', cfg_AxToken = ''ax'',
     cfg_TxFee = Some 2, cfg_SpawnFee = Some 5, cfg_ResidencyFee = Some 1, cfg_DailyLimit = 0,
     cfg_DeveloperShareRatio = Some 5000\<rparr>"

theorem HymxFeeHandler_outcome_witness:
  "\<exists>db'. HymxFeeHandler demo_cfg (NewPay\<lparr>pay_ledger := [(''s'', [(''b'', 10)])]\<rparr>)
      \<lparr>im_Pid = ''p'', im_Signer = ''b'', im_FromProcess = [], im_Instance = IMessage zero_msg\<rparr> = (db', None) \<and>
     totalPending db' ''b'' = 2"
proof -
  let ?db = "NewPay\<lparr>pay_ledger := [(''s'', [(''b'', 10)])]\<rparr>"
  let ?m = "\<lparr>im_Pid = ''p'', im_Signer = ''b'', im_FromProcess = [], im_Instance = IMessage zero_msg\<rparr>"
  obtain db' err where h: "HymxFeeHandler demo_cfg ?db ?m = (db', err)" by fastforce
  have e: "err = None"
    using h by (simp add: Let_def HymxFeeHandler_def IsWhitelist_def demo_cfg_def NewPay_def fee_payer_def
        UseOnce_def charge_check_def bad_amount_def CanCover_def totalBal_def totalPending_def
        fee_outcome_def split: option.splits)
  have b: "totalPending ?db ''b'' = 0" "\<not> IsWhitelist ?db ''b''" "DailyUsage ?db ''b'' = 0"
    by (simp_all add: NewPay_def totalPending_def IsWhitelist_def DailyUsage_def)
  from HymxFeeHandler_outcome [OF h] e b have "totalPending db' ''b'' = 2"
    by (auto simp: Let_def fee_paid_def fee_payer_def demo_cfg_def)
  with h e show ?thesis by blast
qed

subsection \<open>Deposits\<close>

definition credit_notices :: "string \<Rightarrow> res_message list \<Rightarrow> tag list list" where
  "credit_notices address msgs =
     map rm_Tags (filter (\<lambda>msg. rm_Target msg = address \<and>
       GetTagsValue ''Action'' (rm_Tags msg) = ''Credit-Notice'') msgs)"

fun first_credit :: "tag list list \<Rightarrow> (tag list \<times> int) option" where
  "first_credit [] = None"
| "first_credit (tags # rest) =
     (case big_SetString (GetTagsValue ''Quantity'' tags) of
        None \<Rightarrow> first_credit rest | Some q \<Rightarrow> Some (tags, q))"

lemma handleDeposit_executed: "IsExecuted db h \<Longrightarrow> fst (handleDeposit db h s b q) = db"
  by (simp add: handleDeposit_def)

lemma deposit_notices_executed: "IsExecuted db h \<Longrightarrow> deposit_notices get_bin h db ns = db"
  by (induction get_bin h db ns rule: deposit_notices.induct)
     (auto simp: Let_def handleDeposit_executed split: option.splits)

lemma handleDeposit_new:
  "\<not> IsExecuted db h \<Longrightarrow> fst (handleDeposit db h s b q) =
     db\<lparr>pay_executed := mput h True (pay_executed db),
        pay_ledger := (if 0 < q then row_add (pay_ledger db) s b q else pay_ledger db)\<rparr>"
  by (simp add: handleDeposit_def MarkExecuted_def Deposit_def bad_amount_def Let_def)

lemma deposit_notices_first:
  "\<not> IsExecuted db h \<Longrightarrow> deposit_notices get_bin h db ns =
     (case first_credit ns of
        None \<Rightarrow> db
      | Some (tags, q) \<Rightarrow>
          let sender = GetTagsValue ''Sender'' tags in
          fst (handleDeposit db h sender
            (case getHymxBeneficiary get_bin sender h of None \<Rightarrow> sender | Some b \<Rightarrow> b) q))"
proof (induction ns)
  case (Cons tags ns)
  then show ?case
    by (auto simp: Let_def handleDeposit_new IsExecuted_def intro!: deposit_notices_executed
        split: option.splits)
qed simp

text \<open>C10: an item is credited at most once, from one notice. For a result of the token, nothing
  happens when its item is already executed or no credit notice to the charge address has a
  decimal quantity; otherwise the first such notice marks the item executed and, if positive, is
  added to the ledger under its sender and the item's beneficiary. Further notices of the same
  item, and any later result for it, are dropped.\<close>

theorem HymxDepositHandler_once:
  assumes "vr_FromProcess res = cfg_AxToken cfg"
  shows "let db' = HymxDepositHandler cfg address get_bin db res; h = vr_ItemId res in
    (IsExecuted db h \<or> first_credit (credit_notices address (vr_Messages res)) = None \<longrightarrow> db' = db) \<and>
    (\<forall>tags q. \<not> IsExecuted db h \<and> first_credit (credit_notices address (vr_Messages res)) = Some (tags, q) \<longrightarrow>
       (let s = GetTagsValue ''Sender'' tags;
            b = (case getHymxBeneficiary get_bin s h of None \<Rightarrow> s | Some b \<Rightarrow> b)
        in db' = db\<lparr>pay_executed := mput h True (pay_executed db),
             pay_ledger := (if 0 < q then row_add (pay_ledger db) s b q else pay_ledger db)\<rparr> \<and>
           (\<forall>res'. vr_ItemId res' = h \<longrightarrow> HymxDepositHandler cfg address get_bin db' res' = db')))"
proof -
  let ?ns = "credit_notices address (vr_Messages res)"
  have h: "HymxDepositHandler cfg address get_bin db res =
      (if ?ns = [] then db else deposit_notices get_bin (vr_ItemId res) db ?ns)"
    using assms by (simp add: HymxDepositHandler_def credit_notices_def Let_def)
  have again: "HymxDepositHandler cfg address get_bin d res' = d"
    if "IsExecuted d (vr_ItemId res')" for d res'
    using deposit_notices_executed [OF that] by (simp add: HymxDepositHandler_def Let_def)
  have ex: "IsExecuted (db\<lparr>pay_executed := mput (vr_ItemId res) True (pay_executed db), pay_ledger := l\<rparr>)
      (vr_ItemId res)" for l
    by (simp add: IsExecuted_def)
  show ?thesis
  proof (cases "IsExecuted db (vr_ItemId res)")
    case True
    then show ?thesis using again [of db res] by (auto simp: Let_def)
  next
    case False
    show ?thesis
      using deposit_notices_first [OF False, of get_bin ?ns] h again ex handleDeposit_new [OF False] False
      by (cases "first_credit ?ns") (auto simp: Let_def)
  qed
qed

definition demo_credit :: "string \<Rightarrow> res_message" where
  "demo_credit q = \<lparr>rm_Sequence = [], rm_Target = ''node'', rm_Data = [], rm_Tags =
     [Tag ''Action'' ''Credit-Notice'', Tag ''Sender'' ''s'', Tag ''Quantity'' q]\<rparr>"

definition demo_credits :: vmm_result where
  "demo_credits = \<lparr>vr_Nonce = [], vr_Timestamp = [], vr_ItemId = ''i'', vr_FromProcess = ''ax'',
     vr_PushedFor = [], vr_Messages = [demo_credit ''7'', demo_credit ''9''], vr_Spawns = [],
     vr_Assignments = [], vr_Output = [], vr_Data = [], vr_Cache = [], vr_Mode = ExecModeApply,
     vr_Error = []\<rparr>"

theorem HymxDepositHandler_once_witness:
  "entry (pay_ledger (HymxDepositHandler demo_cfg ''node'' (\<lambda>_. None) NewPay demo_credits)) ''s'' ''s'' = 7"
proof -
  have c: "vr_FromProcess demo_credits = cfg_AxToken demo_cfg"
    by (simp add: demo_credits_def demo_cfg_def)
  have f: "first_credit (credit_notices ''node'' (vr_Messages demo_credits)) =
      Some (rm_Tags (demo_credit ''7''), 7)"
    by (simp add: demo_credits_def credit_notices_def demo_credit_def big_SetString_def parse_nat_def
        digit_val_def)
  have n: "\<not> IsExecuted NewPay (vr_ItemId demo_credits)" by (simp add: IsExecuted_def NewPay_def)
  from HymxDepositHandler_once [OF c, of "''node''" "\<lambda>_. None" NewPay] f n show ?thesis
    by (simp add: Let_def getHymxBeneficiary_def demo_credit_def entry_def row_add_def NewPay_def)
qed

subsection \<open>Settlement of everything\<close>

lemma add_dev_fees_total: "mtotal (add_dev_fees acc fees) = mtotal acc + mtotal fees"
  by (induction acc fees rule: add_dev_fees.induct) (auto simp: mtotal_mput)

definition quantity_of :: "sdk_message \<Rightarrow> int" where
  "quantity_of m = (case big_SetString (GetTagsValue ''Quantity'' (snd m)) of None \<Rightarrow> 0 | Some q \<Rightarrow> q)"

lemma quantity_of_transfer [simp]: "quantity_of (pay_transfer token to amt) = amt"
  by (simp add: quantity_of_def pay_transfer_def)

lemma pay_settle_quantities:
  "sum_list (map quantity_of (pay_settle cfg node dev)) = node + mtotal dev"
proof -
  have "sum_list (map quantity_of (map (\<lambda>(pid, fee). pay_transfer token pid fee) dev)) = mtotal dev" for token
    by (induction dev) auto
  then show ?thesis by (simp add: pay_settle_def)
qed

lemma pending_row_fold:
  "mget_or 0 (foldl (\<lambda>out (p, amt). if amt = 0 then out else mput ben (mget_or 0 out ben + amt) out) out row) b =
     mget_or 0 out b + (if b = ben then mtotal row else (0::int))"
  by (induction row arbitrary: out) auto

lemma pending_rows_get:
  "mwf m \<Longrightarrow> mget_or 0 (pending_rows m out) b = mget_or 0 out b + row_total m b"
proof (induction m arbitrary: out)
  case Nil
  then show ?case by (simp add: pending_rows_def row_total_def)
next
  case (Cons e m)
  obtain a row where e: "e = (a, row)" by (cases e)
  with Cons.prems have wf: "mwf m" and new: "mget m a = None" by (auto simp: mwf_def mget_None_iff)
  let ?out = "foldl (\<lambda>out (p, amt). if amt = 0 then out else mput a (mget_or 0 out a + amt) out) out row"
  have "pending_rows (e # m) out = pending_rows m ?out" by (simp add: pending_rows_def e)
  with Cons.IH [OF wf, of ?out] new show ?case
    by (auto simp: pending_row_fold row_total_def e)
qed

lemma residency_fold:
  "mwf m \<Longrightarrow> mget_or 0 (foldl (\<lambda>out (ben, amt). if amt = 0 then out else mput ben (mget_or 0 out ben + amt) out) out m) b =
     mget_or 0 out b + mget_or (0::int) m b"
proof (induction m arbitrary: out)
  case (Cons e m)
  obtain a v where e: "e = (a, v)" by (cases e)
  with Cons.prems have wf: "mwf m" and new: "mget m a = None" by (auto simp: mwf_def mget_None_iff)
  with Cons.IH show ?case by (auto simp: e)
qed simp

lemma AllPending_get: "pay_inv db \<Longrightarrow> mget_or 0 (AllPending db) b = totalPending db b"
  using pay_inv_D(2,3,4) [of db]
  by (simp add: AllPending_def residency_fold pending_rows_get totalPending_rows good_row_def good_rows_def)

lemma settle_all_spec:
  assumes "pay_inv db" and "cfg_DeveloperShareRatio cfg = Some ratio" "0 \<le> ratio" "ratio \<le> 10000"
    and "settle_all cfg bens (db, node, dev) = (db', node', dev')"
  shows "pay_inv db'"
    and "totalPending db' b = (if b \<in> set bens then 0 else totalPending db b)"
    and "totalBal db' b - totalPending db' b = totalBal db b - totalPending db b"
    and "node' + mtotal dev' + grand_total (pay_ledger db') =
         node + mtotal dev + grand_total (pay_ledger db)"
proof -
  have "pay_inv db' \<and> totalPending db' b = (if b \<in> set bens then 0 else totalPending db b) \<and>
      totalBal db' b - totalPending db' b = totalBal db b - totalPending db b \<and>
      node' + mtotal dev' + grand_total (pay_ledger db') = node + mtotal dev + grand_total (pay_ledger db)"
    using assms(1,5)
  proof (induction bens arbitrary: db node dev)
    case (Cons ben bens)
    show ?case
    proof (cases "totalPending db ben = 0")
      case True
      with SettleTxFee_nothing [OF Cons.prems(1) assms(3,4) True] Cons.prems(2) assms(2)
      have "settle_all cfg bens (db, node, dev) = (db', node', dev')" by simp
      from Cons.IH [OF Cons.prems(1) this] True show ?thesis by auto
    next
      case False
      from SettleTxFee_some [OF Cons.prems(1) assms(3,4) False] obtain db1 nf df
        where s: "SettleTxFee db ben (Some ratio) = (db1, Inr (Some (nf, df)))"
          and st: "settled db ben ratio db1 nf df" and inv: "pay_inv db1" by blast
      with Cons.prems(2) assms(2)
      have "settle_all cfg bens (db1, node + nf, add_dev_fees dev df) = (db', node', dev')" by simp
      from Cons.IH [OF inv this] st show ?thesis
        by (cases "b = ben") (auto simp: settled_def add_dev_fees_total)
    qed
  qed auto
  then show "pay_inv db'"
    and "totalPending db' b = (if b \<in> set bens then 0 else totalPending db b)"
    and "totalBal db' b - totalPending db' b = totalBal db b - totalPending db b"
    and "node' + mtotal dev' + grand_total (pay_ledger db') =
         node + mtotal dev + grand_total (pay_ledger db)" by blast+
qed

text \<open>the hourly settlement clears everything. From every reachable store, with a configured
  ratio between 0 and 10000, nothing is pending afterwards, every beneficiary's unreserved balance
  is what it was, and the quantities of the transfers sent to the token add up to exactly what left
  the ledger, in whatever order the pending fees are visited.\<close>

theorem settleAll_clears:
  assumes "cfg_DeveloperShareRatio cfg = Some ratio" and "0 \<le> ratio" and "ratio \<le> 10000"
  shows "let db = fst (pay_run NewPay ops); (db', msgs) = settleAll cfg db in
    (\<forall>b. totalPending db' b = 0) \<and>
    (\<forall>b. totalBal db' b = totalBal db b - totalPending db b) \<and>
    sum_list (map quantity_of msgs) = grand_total (pay_ledger db) - grand_total (pay_ledger db')"
proof -
  let ?db = "fst (pay_run NewPay ops)"
  have inv: "pay_inv ?db" using pay_run_inv [OF NewPay_inv, of ops] by blast
  obtain db' node dev where s: "settle_all cfg (mkeys (AllPending ?db)) (?db, 0, []) = (db', node, dev)"
    by (metis prod_cases3)
  note S = settle_all_spec [OF inv assms s]
  have zero: "totalPending db' b = 0" for b
  proof (cases "b \<in> set (mkeys (AllPending ?db))")
    case False
    then have "mget (AllPending ?db) b = None" by (simp add: mget_None_iff)
    then have "totalPending ?db b = 0" using AllPending_get [OF inv, of b] by simp
    with S(2) [of b] False show ?thesis by simp
  qed (use S(2) [of b] in simp)
  have "totalBal db' b = totalBal ?db b - totalPending ?db b" for b
    using S(3) [of b] zero [of b] by simp
  moreover have "sum_list (map quantity_of (pay_settle cfg node dev)) =
      grand_total (pay_ledger ?db) - grand_total (pay_ledger db')"
    using S(4) by (simp add: pay_settle_quantities)
  ultimately show ?thesis using s zero by (simp add: settleAll_def Let_def)
qed

theorem settleAll_clears_witness:
  "let (db', msgs) = settleAll demo_cfg (fst (pay_run NewPay demo_pay_ops)) in
     totalPending db' ''b'' = 0 \<and> totalBal db' ''b'' = 93"
proof -
  have r: "cfg_DeveloperShareRatio demo_cfg = Some 5000" by (simp add: demo_cfg_def)
  have "totalPending (fst (pay_run NewPay demo_pay_ops)) ''b'' = 7"
    "totalBal (fst (pay_run NewPay demo_pay_ops)) ''b'' = 100"
    unfolding demo_pay_db by (simp_all add: NewPay_def totalPending_def totalBal_def)
  with settleAll_clears [OF r, of demo_pay_ops] show ?thesis by (auto simp: Let_def)
qed

end
