(* ===== verification/VmmApply.thy ===== *)
theory VmmApply
  imports NodeSchema
begin

text \<open>
  Applying one message to a machine (vmm/apply.go, vmm/outbox.go): nonce and sequence checks,
  decryption of parameters, the call of the machine, and the numbering of what it sends. A
  machine is a state with an operation \<open>vmApply\<close> of the interface \<open>Vm\<close>; the channel sends are
  the returned lists, in order.
\<close>

subsection \<open>Environment and checks\<close>

record env =
  env_Meta :: meta
  env_Process :: process
  env_Module :: module
  env_Nonce :: int64
  env_Sequence :: int64
  env_ReceivedSeq :: "(string, int64) gomap"

record outbox_msg =
  ob_Type :: string
  ob_To :: string
  ob_From :: string
  ob_Data :: string
  ob_Tags :: "tag list"

definition applyCheck :: "env \<Rightarrow> meta \<Rightarrow> env \<times> (sys_err + string)" where
  "applyCheck env m =
     (if meta_Nonce m \<noteq> env_Nonce env + 1 then (env, Inl ErrInvalidNonce)
      else let env1 = env\<lparr>env_Nonce := meta_Nonce m\<rparr> in
      if meta_FromProcess m = [] then (env1, Inr (meta_AccId m))
      else let from = meta_FromProcess m in
      case mget (env_ReceivedSeq env1) from of
        Some lastSeq \<Rightarrow>
          if meta_Sequence m \<le>s lastSeq then (env1, Inl ErrSequenceTooLow)
          else (env1\<lparr>env_ReceivedSeq := mput from (meta_Sequence m) (env_ReceivedSeq env1)\<rparr>, Inr from)
      | None \<Rightarrow> (env1\<lparr>env_ReceivedSeq := mput from (meta_Sequence m) (env_ReceivedSeq env1)\<rparr>, Inr from))"

definition EncryptedTagPrefix :: string where "EncryptedTagPrefix = ''Encrypted-''"

text \<open>The node's cryptor is optional; \<open>Decrypt\<close> returns \<open>None\<close> on an error.\<close>

fun decrypted_params ::
  "(string \<Rightarrow> string option) \<Rightarrow> (string, string) gomap \<Rightarrow> (string, string) gomap \<Rightarrow>
     (string, string) gomap \<Rightarrow> (string, string) gomap" where
  "decrypted_params decrypt params [] acc = acc"
| "decrypted_params decrypt params ((key, value) # rest) acc =
     (if \<not> HasPrefix key EncryptedTagPrefix then decrypted_params decrypt params rest acc
      else let decryptedKey = TrimPrefix key EncryptedTagPrefix in
      if mget params decryptedKey \<noteq> None then decrypted_params decrypt params rest acc
      else decrypted_params decrypt params rest
        (mput decryptedKey
          (case decrypt value of None \<Rightarrow> ''err_decrypt_param_failed'' | Some v \<Rightarrow> v) acc))"

definition decryptParams :: "(string \<Rightarrow> string option) option \<Rightarrow> meta \<Rightarrow> meta" where
  "decryptParams cryptor m =
     (if meta_Params m = [] then m
      else case cryptor of
        None \<Rightarrow> m
      | Some decrypt \<Rightarrow> m\<lparr>meta_Params := maps_Copy (meta_Params m)
          (decrypted_params decrypt (meta_Params m) (meta_Params m) [])\<rparr>)"

text \<open>The texts of the manager's own errors and of a machine's. Errors of other packages never reach
  a result.\<close>

fun sys_err_text :: "sys_err \<Rightarrow> string" where
  "sys_err_text ErrVmmClosed = ''err_vmm_closed''"
| "sys_err_text ErrVmStopping = ''err_vm_stopping''"
| "sys_err_text ErrRegistryAlreadyCreated = ''err_registry_already_created''"
| "sys_err_text ErrTokenAlreadyCreated = ''err_token_already_created''"
| "sys_err_text ErrInvalidModuleFormat = ''err_invalid_module_format''"
| "sys_err_text ErrInvalidNonce = ''err_invalid_nonce''"
| "sys_err_text ErrSequenceTooLow = ''err_sequence_too_low''"
| "sys_err_text ErrSpawnProcessFailed = ''err_spawn_process_failed''"
| "sys_err_text ErrVmmProcessAlreadyExists = ''err_process_already_exist''"
| "sys_err_text ErrVmmProcessNotFound = ''err_process_not_found''"
| "sys_err_text ErrProcessEnvNotFound = ''err_process_env_not_found''"
| "sys_err_text ErrRegistryNotFound = ''err_registry_not_found''"
| "sys_err_text ErrVmmMissingParam = ''err_missing_param''"
| "sys_err_text ErrFactoryAlreadyMounted = ''err_factory_already_mounted''"
| "sys_err_text ErrDecryptParamFailed = ''err_decrypt_param_failed''"
| "sys_err_text (VmErr e) = vm_err_text e"
| "sys_err_text (OtherErr s) = s"
| "sys_err_text _ = []"

subsection \<open>Outbox (outbox.go)\<close>

text \<open>The tags of a message on its way out: the manager's own three, the protocol's, then the
  machine's, each only where no earlier tag has the name.\<close>

definition outbox_message_tags :: "string \<Rightarrow> string \<Rightarrow> string \<Rightarrow> tag list \<Rightarrow> tag list" where
  "outbox_message_tags fromProcess sequence pushedFor tags =
     MergeTags
       (MergeTags [Tag ''From-Process'' fromProcess, Tag ''Sequence'' sequence, Tag ''Pushed-For'' pushedFor]
         (fst (MessageToTags (zero_msg\<lparr>msg_Base := DefaultBase TypeMessage\<rparr>))))
       tags"

definition outbox_process_tags :: "string \<Rightarrow> string \<Rightarrow> string \<Rightarrow> process \<Rightarrow> tag list" where
  "outbox_process_tags fromProcess sequence pushedFor proc =
     MergeTags
       (MergeTags [Tag ''From-Process'' fromProcess, Tag ''Sequence'' sequence, Tag ''Pushed-For'' pushedFor]
         (fst (ProcessToTags (zero_process\<lparr>proc_Base := DefaultBase TypeProcess,
           proc_Module := proc_Module proc, proc_Scheduler := proc_Scheduler proc\<rparr>))))
       (proc_Tags proc)"

fun outbox_messages ::
  "exec_mode \<Rightarrow> string \<Rightarrow> string \<Rightarrow> int64 \<Rightarrow> res_message list \<Rightarrow> int64 \<times> res_message list \<times> outbox_msg list"
where
  "outbox_messages mode from pushedFor seq [] = (seq, [], [])"
| "outbox_messages mode from pushedFor seq (msg # msgs) =
     (case TagsToMessage (rm_Tags msg) of
        Inl _ \<Rightarrow>
          (let (seq', msgs', out) = outbox_messages mode from pushedFor seq msgs
           in (seq', msg # msgs', out))
      | Inr _ \<Rightarrow>
          (let seq1 = seq + 1;
               msg1 = msg\<lparr>rm_Sequence := FormatInt seq1\<rparr>;
               (seq', msgs', out) = outbox_messages mode from pushedFor seq1 msgs
           in (seq', msg1 # msgs',
               (if mode \<noteq> ExecModeApply then out
                else \<lparr>ob_Type = TypeMessage, ob_To = rm_Target msg, ob_From = from,
                      ob_Data = rm_Data msg,
                      ob_Tags = outbox_message_tags from (rm_Sequence msg1) pushedFor (rm_Tags msg)\<rparr> # out))))"

fun outbox_spawns ::
  "exec_mode \<Rightarrow> string \<Rightarrow> string \<Rightarrow> int64 \<Rightarrow> res_spawn list \<Rightarrow> int64 \<times> res_spawn list \<times> outbox_msg list"
where
  "outbox_spawns mode from pushedFor seq [] = (seq, [], [])"
| "outbox_spawns mode from pushedFor seq (sp # sps) =
     (case TagsToProcess (rs_Tags sp) of
        Inl _ \<Rightarrow>
          (let (seq', sps', out) = outbox_spawns mode from pushedFor seq sps
           in (seq', sp # sps', out))
      | Inr proc \<Rightarrow>
          (let seq1 = seq + 1;
               sp1 = sp\<lparr>rs_Sequence := FormatInt seq1\<rparr>;
               (seq', sps', out) = outbox_spawns mode from pushedFor seq1 sps
           in (seq', sp1 # sps',
               (if mode \<noteq> ExecModeApply then out
                else \<lparr>ob_Type = TypeProcess, ob_To = proc_Scheduler proc, ob_From = from,
                      ob_Data = rs_Data sp,
                      ob_Tags = outbox_process_tags from (rs_Sequence sp1) pushedFor proc\<rparr> # out))))"

text \<open>\<open>outbox\<close> returns the environment, the numbered result (sent on the result channel) and the
  messages sent on the outbox channel.\<close>

definition Vmm_outbox :: "env \<Rightarrow> vmm_result \<Rightarrow> env \<times> vmm_result \<times> outbox_msg list" where
  "Vmm_outbox env res =
     (let (seq1, msgs, out1) = outbox_messages (vr_Mode res) (vr_FromProcess res) (vr_PushedFor res)
            (env_Sequence env) (vr_Messages res);
          (seq2, sps, out2) = outbox_spawns (vr_Mode res) (vr_FromProcess res) (vr_PushedFor res)
            seq1 (vr_Spawns res)
      in (env\<lparr>env_Sequence := seq2\<rparr>, res\<lparr>vr_Messages := msgs, vr_Spawns := sps\<rparr>, out1 @ out2))"

subsection \<open>Applying a message (apply.go)\<close>

text \<open>What one task leaves behind besides the new state: the result, the outgoing messages, whether
  the recovery lock is released, and the error of the task.\<close>

record task_effect =
  te_result :: vmm_result
  te_out :: "outbox_msg list"
  te_unlock :: bool
  te_err :: "sys_err option"

definition base_result :: "meta \<Rightarrow> vmm_result" where
  "base_result m =
     \<lparr>vr_Nonce = FormatInt (meta_Nonce m), vr_Timestamp = FormatInt (meta_Timestamp m),
      vr_ItemId = meta_ItemId m, vr_FromProcess = meta_Pid m,
      vr_PushedFor = (if meta_PushedFor m \<noteq> [] then meta_PushedFor m else meta_ItemId m),
      vr_Messages = [], vr_Spawns = [], vr_Assignments = [], vr_Output = [], vr_Data = [],
      vr_Cache = [], vr_Mode = meta_Mode m, vr_Error = []\<rparr>"

definition finish_task :: "meta \<Rightarrow> env \<Rightarrow> vmm_result \<Rightarrow> sys_err option \<Rightarrow> env \<times> task_effect" where
  "finish_task m env res err =
     (let (env', res', out) = Vmm_outbox env res
      in (env', \<lparr>te_result = res', te_out = out,
            te_unlock = (meta_Mode m \<noteq> ExecModeApply \<and> meta_Nonce m = meta_RecoveryMaxNonce m),
            te_err = err\<rparr>))"

definition Vmm_apply ::
  "('s \<Rightarrow> string \<Rightarrow> meta \<Rightarrow> 's \<times> vm_result) \<Rightarrow> (string \<Rightarrow> string option) option \<Rightarrow>
     's \<times> env \<Rightarrow> meta \<Rightarrow> ('s \<times> env) \<times> task_effect" where
  "Vmm_apply vmApply cryptor st m =
     (let (vm, env) = st; base = base_result m in
      case applyCheck env m of
        (env1, Inl e) \<Rightarrow>
          (let (env2, eff) = finish_task m env1 (base\<lparr>vr_Error := sys_err_text e\<rparr>) (Some e)
           in ((vm, env2), eff))
      | (env1, Inr from) \<Rightarrow>
          (let (vm', res) = vmApply vm from (decryptParams cryptor m);
               (env2, eff) = finish_task m env1
                 (base\<lparr>vr_Messages := res_Messages res, vr_Spawns := res_Spawns res,
                   vr_Assignments := res_Assignments res, vr_Output := res_Output res,
                   vr_Data := res_Data res, vr_Cache := res_Cache res,
                   vr_Error := (case res_Error res of None \<Rightarrow> [] | Some e \<Rightarrow> vm_err_text e)\<rparr>) None
           in ((vm', env2), eff)))"

fun Vmm_run ::
  "('s \<Rightarrow> string \<Rightarrow> meta \<Rightarrow> 's \<times> vm_result) \<Rightarrow> (string \<Rightarrow> string option) option \<Rightarrow>
     's \<times> env \<Rightarrow> meta list \<Rightarrow> ('s \<times> env) \<times> task_effect list" where
  "Vmm_run vmApply cryptor st [] = (st, [])"
| "Vmm_run vmApply cryptor st (m # ms) =
     (let (st1, eff) = Vmm_apply vmApply cryptor st m; (st2, effs) = Vmm_run vmApply cryptor st1 ms
      in (st2, eff # effs))"

subsection \<open>Numbering and marking of what is sent\<close>

fun count_from :: "int64 \<Rightarrow> nat \<Rightarrow> int64 list" where
  "count_from seq 0 = []"
| "count_from seq (Suc n) = (seq + 1) # count_from (seq + 1) n"

lemma length_count_from [simp]: "length (count_from seq n) = n"
  by (induction n arbitrary: seq) auto

lemma count_from_append: "count_from seq m @ count_from (seq + of_nat m) n = count_from seq (m + n)"
proof (induction m arbitrary: seq)
  case (Suc m)
  from Suc [of "seq + 1"] show ?case by (simp add: algebra_simps)
qed simp

abbreviation numbers :: "int64 \<Rightarrow> nat \<Rightarrow> string list" where
  "numbers seq n \<equiv> map FormatInt (count_from seq n)"

lemma numbers_append: "numbers seq m @ numbers (seq + of_nat m) n = numbers seq (m + n)"
  using arg_cong [OF count_from_append, of "map FormatInt" seq m n] by simp

definition ob_sequence :: "outbox_msg \<Rightarrow> string" where
  "ob_sequence ob = GetTagsValue ''Sequence'' (ob_Tags ob)"

text \<open>An outgoing message carries the manager's word on where it comes from.\<close>

definition authentic :: "string \<Rightarrow> string \<Rightarrow> outbox_msg \<Rightarrow> bool" where
  "authentic from pushedFor ob \<longleftrightarrow>
     ob_From ob = from \<and> GetTagsValue ''From-Process'' (ob_Tags ob) = from \<and>
     GetTagsValue ''Pushed-For'' (ob_Tags ob) = pushedFor \<and>
     GetTagsValue ''Data-Protocol'' (ob_Tags ob) = DataProtocol \<and>
     GetTagsValue ''Variant'' (ob_Tags ob) = Variant \<and>
     GetTagsValue ''Type'' (ob_Tags ob) = ob_Type ob \<and> ob_Type ob \<in> {TypeMessage, TypeProcess}"

lemma image_names_MergeTags [simp]:
  "tag_Name ` set (MergeTags t1 t2) = tag_Name ` set t1 \<union> tag_Name ` set t2"
  using names_MergeTags [of t1 t2] by simp

lemma outbox_tags:
  "GetTagsValue ''Sequence'' (outbox_message_tags from sq pf tags) = sq"
  "GetTagsValue ''Sequence'' (outbox_process_tags from sq pf proc) = sq"
  "authentic from pf \<lparr>ob_Type = TypeMessage, ob_To = t, ob_From = from, ob_Data = d,
     ob_Tags = outbox_message_tags from sq pf tags\<rparr>"
  "authentic from pf \<lparr>ob_Type = TypeProcess, ob_To = t, ob_From = from, ob_Data = d,
     ob_Tags = outbox_process_tags from sq pf proc\<rparr>"
  by (simp_all add: outbox_message_tags_def outbox_process_tags_def authentic_def zero_msg_def
      zero_process_def MessageToTags_def ProcessToTags_def BaseToTags_def DefaultBase_def opt_tag_def
      Let_def)

lemma ob_sequence_tags [simp]:
  "ob_sequence \<lparr>ob_Type = t, ob_To = to, ob_From = f, ob_Data = d, ob_Tags = outbox_message_tags from sq pf tags\<rparr> = sq"
  "ob_sequence \<lparr>ob_Type = t, ob_To = to, ob_From = f, ob_Data = d, ob_Tags = outbox_process_tags from sq pf proc\<rparr> = sq"
  by (simp_all add: ob_sequence_def outbox_tags)

lemma outbox_messages_spec:
  assumes "outbox_messages mode from pf seq msgs = (seq', msgs', out)"
  shows "\<exists>n. seq' = seq + of_nat n \<and>
     (mode = ExecModeApply \<longrightarrow> map ob_sequence out = numbers seq n) \<and>
     (mode \<noteq> ExecModeApply \<longrightarrow> out = []) \<and> (\<forall>ob \<in> set out. authentic from pf ob)"
  using assms
proof (induction mode "from" pf seq msgs arbitrary: seq' msgs' out rule: outbox_messages.induct)
  case (2 mode f pf seq msg msgs)
  show ?case
  proof (cases "TagsToMessage (rm_Tags msg)")
    case (Inl e)
    with 2 show ?thesis by (auto split: prod.splits)
  next
    case (Inr m)
    obtain s1 ms1 o1 where r: "outbox_messages mode f pf (seq + 1) msgs = (s1, ms1, o1)"
      by (metis prod_cases3)
    from "2.IH"(2) [OF Inr refl refl r] obtain n where n: "s1 = seq + 1 + of_nat n"
      "mode = ExecModeApply \<longrightarrow> map ob_sequence o1 = numbers (seq + 1) n"
      "mode \<noteq> ExecModeApply \<longrightarrow> o1 = []" "\<forall>ob \<in> set o1. authentic f pf ob" by blast
    with Inr r "2.prems" show ?thesis
      by (intro exI [of _ "Suc n"]) (auto simp: Let_def outbox_tags add.assoc split: if_splits)
  qed
qed (auto intro: exI [of _ 0])

lemma outbox_spawns_spec:
  assumes "outbox_spawns mode from pf seq msgs = (seq', msgs', out)"
  shows "\<exists>n. seq' = seq + of_nat n \<and>
     (mode = ExecModeApply \<longrightarrow> map ob_sequence out = numbers seq n) \<and>
     (mode \<noteq> ExecModeApply \<longrightarrow> out = []) \<and> (\<forall>ob \<in> set out. authentic from pf ob)"
  using assms
proof (induction mode "from" pf seq msgs arbitrary: seq' msgs' out rule: outbox_spawns.induct)
  case (2 mode f pf seq msg msgs)
  show ?case
  proof (cases "TagsToProcess (rs_Tags msg)")
    case (Inl e)
    with 2 show ?thesis by (auto split: prod.splits)
  next
    case (Inr m)
    obtain s1 ms1 o1 where r: "outbox_spawns mode f pf (seq + 1) msgs = (s1, ms1, o1)"
      by (metis prod_cases3)
    from "2.IH"(2) [OF Inr refl refl r] obtain n where n: "s1 = seq + 1 + of_nat n"
      "mode = ExecModeApply \<longrightarrow> map ob_sequence o1 = numbers (seq + 1) n"
      "mode \<noteq> ExecModeApply \<longrightarrow> o1 = []" "\<forall>ob \<in> set o1. authentic f pf ob" by blast
    with Inr r "2.prems" show ?thesis
      by (intro exI [of _ "Suc n"]) (auto simp: Let_def outbox_tags add.assoc split: if_splits)
  qed
qed (auto intro: exI [of _ 0])

lemma Vmm_outbox_spec:
  assumes "Vmm_outbox env res = (env', res', out)"
  shows "\<exists>n. env' = env\<lparr>env_Sequence := env_Sequence env + of_nat n\<rparr> \<and>
     (vr_Mode res = ExecModeApply \<longrightarrow> map ob_sequence out = numbers (env_Sequence env) n) \<and>
     (vr_Mode res \<noteq> ExecModeApply \<longrightarrow> out = []) \<and>
     (\<forall>ob \<in> set out. authentic (vr_FromProcess res) (vr_PushedFor res) ob)"
proof -
  obtain s1 ms1 o1 where 1: "outbox_messages (vr_Mode res) (vr_FromProcess res) (vr_PushedFor res)
      (env_Sequence env) (vr_Messages res) = (s1, ms1, o1)" by (metis prod_cases3)
  obtain s2 ms2 o2 where 2: "outbox_spawns (vr_Mode res) (vr_FromProcess res) (vr_PushedFor res)
      s1 (vr_Spawns res) = (s2, ms2, o2)" by (metis prod_cases3)
  from outbox_messages_spec [OF 1] obtain n1 where n1: "s1 = env_Sequence env + of_nat n1"
    "vr_Mode res = ExecModeApply \<longrightarrow> map ob_sequence o1 = numbers (env_Sequence env) n1"
    "vr_Mode res \<noteq> ExecModeApply \<longrightarrow> o1 = []"
    "\<forall>ob \<in> set o1. authentic (vr_FromProcess res) (vr_PushedFor res) ob" by blast
  from outbox_spawns_spec [OF 2] obtain n2 where n2: "s2 = s1 + of_nat n2"
    "vr_Mode res = ExecModeApply \<longrightarrow> map ob_sequence o2 = numbers s1 n2"
    "vr_Mode res \<noteq> ExecModeApply \<longrightarrow> o2 = []"
    "\<forall>ob \<in> set o2. authentic (vr_FromProcess res) (vr_PushedFor res) ob" by blast
  from assms 1 2 have "env' = env\<lparr>env_Sequence := s2\<rparr>" "out = o1 @ o2" by (auto simp: Vmm_outbox_def)
  with n1 n2 show ?thesis
    by (intro exI [of _ "n1 + n2"]) (auto simp: numbers_append add.assoc)
qed

lemma finish_task_spec:
  assumes "finish_task m env res err = (env', eff)"
  shows "\<exists>n. env' = env\<lparr>env_Sequence := env_Sequence env + of_nat n\<rparr> \<and>
     (vr_Mode res = ExecModeApply \<longrightarrow> map ob_sequence (te_out eff) = numbers (env_Sequence env) n) \<and>
     (vr_Mode res \<noteq> ExecModeApply \<longrightarrow> te_out eff = []) \<and>
     (\<forall>ob \<in> set (te_out eff). authentic (vr_FromProcess res) (vr_PushedFor res) ob) \<and> te_err eff = err"
proof -
  obtain env1 res1 out where o: "Vmm_outbox env res = (env1, res1, out)" by (metis prod_cases3)
  with assms have "env' = env1" "te_out eff = out" "te_err eff = err" by (auto simp: finish_task_def)
  with Vmm_outbox_spec [OF o] show ?thesis by simp
qed

definition pushed_for :: "meta \<Rightarrow> string" where
  "pushed_for m = (if meta_PushedFor m \<noteq> [] then meta_PushedFor m else meta_ItemId m)"

text \<open>One application: its environment effect, its numbering and its marks.\<close>

lemma Vmm_apply_spec:
  assumes "Vmm_apply vmApply cryptor (vm, env) m = ((vm', env'), eff)"
  shows "\<exists>n. env_Sequence env' = env_Sequence env + of_nat n \<and>
     (meta_Mode m = ExecModeApply \<longrightarrow> map ob_sequence (te_out eff) = numbers (env_Sequence env) n) \<and>
     (meta_Mode m \<noteq> ExecModeApply \<longrightarrow> te_out eff = []) \<and>
     (\<forall>ob \<in> set (te_out eff). authentic (meta_Pid m) (pushed_for m) ob)"
    and "env_Nonce env' = env_Nonce (fst (applyCheck env m))"
    and "env_ReceivedSeq env' = env_ReceivedSeq (fst (applyCheck env m))"
    and "te_err eff = (case snd (applyCheck env m) of Inl e \<Rightarrow> Some e | Inr _ \<Rightarrow> None)"
    and "te_err eff \<noteq> None \<Longrightarrow> vm' = vm \<and> te_out eff = []"
proof -
  have fin: "\<exists>r e. finish_task m (fst (applyCheck env m)) r e = (env', eff) \<and>
      vr_Mode r = meta_Mode m \<and> vr_FromProcess r = meta_Pid m \<and> vr_PushedFor r = pushed_for m \<and>
      e = (case snd (applyCheck env m) of Inl e \<Rightarrow> Some e | Inr _ \<Rightarrow> None) \<and>
      (e \<noteq> None \<longrightarrow> vm' = vm \<and> vr_Messages r = [] \<and> vr_Spawns r = [])"
  proof (cases "applyCheck env m")
    case (Pair env1 ch)
    show ?thesis
    proof (cases ch)
      case (Inl e)
      with assms Pair show ?thesis
        by (auto simp: Vmm_apply_def Let_def base_result_def pushed_for_def split: prod.splits)
    next
      case (Inr f)
      with assms Pair show ?thesis
        by (auto simp: Vmm_apply_def Let_def base_result_def pushed_for_def split: prod.splits)
    qed
  qed
  then obtain r e where r: "finish_task m (fst (applyCheck env m)) r e = (env', eff)"
    "vr_Mode r = meta_Mode m" "vr_FromProcess r = meta_Pid m" "vr_PushedFor r = pushed_for m"
    "e = (case snd (applyCheck env m) of Inl e \<Rightarrow> Some e | Inr _ \<Rightarrow> None)"
    "e \<noteq> None \<longrightarrow> vm' = vm \<and> vr_Messages r = [] \<and> vr_Spawns r = []" by blast
  have seq: "env_Sequence (fst (applyCheck env m)) = env_Sequence env"
    by (auto simp: applyCheck_def Let_def split: option.splits)
  from finish_task_spec [OF r(1)] r(2-4) seq
  obtain n where n: "env' = (fst (applyCheck env m))\<lparr>env_Sequence := env_Sequence env + of_nat n\<rparr>"
    "meta_Mode m = ExecModeApply \<longrightarrow> map ob_sequence (te_out eff) = numbers (env_Sequence env) n"
    "meta_Mode m \<noteq> ExecModeApply \<longrightarrow> te_out eff = []"
    "\<forall>ob \<in> set (te_out eff). authentic (meta_Pid m) (pushed_for m) ob" "te_err eff = e" by auto
  then show "\<exists>n. env_Sequence env' = env_Sequence env + of_nat n \<and>
     (meta_Mode m = ExecModeApply \<longrightarrow> map ob_sequence (te_out eff) = numbers (env_Sequence env) n) \<and>
     (meta_Mode m \<noteq> ExecModeApply \<longrightarrow> te_out eff = []) \<and>
     (\<forall>ob \<in> set (te_out eff). authentic (meta_Pid m) (pushed_for m) ob)"
    by (intro exI [of _ n]) simp
  show "env_Nonce env' = env_Nonce (fst (applyCheck env m))"
    "env_ReceivedSeq env' = env_ReceivedSeq (fst (applyCheck env m))"
    "te_err eff = (case snd (applyCheck env m) of Inl e \<Rightarrow> Some e | Inr _ \<Rightarrow> None)"
    using n r by simp_all
  show "vm' = vm \<and> te_out eff = []" if "te_err eff \<noteq> None"
    using that n(5) r(1,6) by (auto simp: finish_task_def Vmm_outbox_def)
qed

end
