(* ===== verification/VmmProps.thy ===== *)
theory VmmProps
  imports VmmApply
begin

text \<open>
  What the manager guarantees for every machine: nonces without a gap, no replay of a process's
  messages, consecutive numbers and unforgeable marks on what a machine sends, the lookup of
  encrypted parameters, and - for machines that keep the contract of a checkpoint - recovery that
  ends where the original run did.
\<close>

subsection \<open>Runs\<close>

text \<open>The messages of a run with their effects.\<close>

abbreviation passed_nonce :: "meta \<times> task_effect \<Rightarrow> bool" where
  "passed_nonce x \<equiv> te_err (snd x) \<noteq> Some ErrInvalidNonce"

abbreviation accepted_from :: "string \<Rightarrow> meta \<times> task_effect \<Rightarrow> bool" where
  "accepted_from f x \<equiv> te_err (snd x) = None \<and> meta_FromProcess (fst x) = f"

lemma Vmm_run_Cons:
  assumes "Vmm_run ap c (vm, env) (m # ms) = ((vm', env'), effs)"
  obtains vm1 env1 eff effs1 where "Vmm_apply ap c (vm, env) m = ((vm1, env1), eff)"
    "Vmm_run ap c (vm1, env1) ms = ((vm', env'), effs1)" "effs = eff # effs1"
  using assms by (auto simp: Let_def split: prod.splits)

lemma Vmm_run_length: "Vmm_run ap c st ms = (st', effs) \<Longrightarrow> length effs = length ms"
  by (induction ms arbitrary: st effs) (auto simp: Let_def split: prod.splits)

lemma applyCheck_nonce:
  "snd (applyCheck env m) = Inl ErrInvalidNonce \<longleftrightarrow> meta_Nonce m \<noteq> env_Nonce env + 1"
  "env_Nonce (fst (applyCheck env m)) =
     (if meta_Nonce m = env_Nonce env + 1 then env_Nonce env + 1 else env_Nonce env)"
  by (auto simp: applyCheck_def Let_def split: option.splits)

lemma Vmm_run_nonces_lemma:
  "Vmm_run ap c (vm, env) ms = ((vm', env'), effs) \<Longrightarrow>
     map (meta_Nonce \<circ> fst) (filter passed_nonce (zip ms effs)) =
       count_from (env_Nonce env) (length (filter passed_nonce (zip ms effs))) \<and>
     env_Nonce env' = env_Nonce env + of_nat (length (filter passed_nonce (zip ms effs)))"
proof (induction ms arbitrary: vm env effs)
  case (Cons m ms)
  from Cons.prems obtain vm1 env1 eff effs1 where a: "Vmm_apply ap c (vm, env) m = ((vm1, env1), eff)"
    and r: "Vmm_run ap c (vm1, env1) ms = ((vm', env'), effs1)" and e: "effs = eff # effs1"
    by (rule Vmm_run_Cons)
  note S = Vmm_apply_spec(2,4) [OF a] and IH = Cons.IH [OF r]
  show ?case
  proof (cases "meta_Nonce m = env_Nonce env + 1")
    case True
    then have "env_Nonce env1 = env_Nonce env + 1" "passed_nonce (m, eff)"
      using S applyCheck_nonce [of env m] by (auto split: sum.splits)
    with IH True show ?thesis by (simp add: e add.assoc)
  next
    case False
    then have "env_Nonce env1 = env_Nonce env" "\<not> passed_nonce (m, eff)"
      using S applyCheck_nonce [of env m] by auto
    with IH show ?thesis by (simp add: e)
  qed
qed simp

text \<open>C36: nonces have no gap. In every run, the messages that pass the nonce check carry the nonces that
  follow the environment's, one by one and in order; the environment ends at the last of them. A
  message with any other nonce leaves machine and environment as they were and sends nothing.\<close>

theorem Vmm_run_nonces:
  "case Vmm_run vmApply cryptor (vm, env) ms of ((vm', env'), effs) \<Rightarrow>
     (let passed = filter (\<lambda>x. te_err (snd x) \<noteq> Some ErrInvalidNonce) (zip ms effs) in
      length effs = length ms \<and>
      map (meta_Nonce \<circ> fst) passed = count_from (env_Nonce env) (length passed) \<and>
      env_Nonce env' = env_Nonce env + of_nat (length passed)) \<and>
     (meta_Nonce m = env_Nonce env + 1 \<or>
      (\<exists>eff. Vmm_apply vmApply cryptor (vm, env) m = ((vm, env), eff) \<and>
         te_err eff = Some ErrInvalidNonce \<and> te_out eff = []))"
proof -
  obtain vm' env' effs where r: "Vmm_run vmApply cryptor (vm, env) ms = ((vm', env'), effs)"
    by (metis prod_cases3 prod.collapse)
  have bad: "\<exists>eff. Vmm_apply vmApply cryptor (vm, env) m = ((vm, env), eff) \<and>
      te_err eff = Some ErrInvalidNonce \<and> te_out eff = []" if "meta_Nonce m \<noteq> env_Nonce env + 1"
    using that by (simp add: Vmm_apply_def applyCheck_def Let_def finish_task_def Vmm_outbox_def base_result_def)
  show ?thesis
    using Vmm_run_nonces_lemma [OF r] Vmm_run_length [OF r] bad by (auto simp: r Let_def)
qed

lemma applyCheck_seq:
  assumes "f \<noteq> []"
  shows "snd (applyCheck env m) = Inr x \<Longrightarrow> meta_FromProcess m = f \<Longrightarrow>
      mget (env_ReceivedSeq (fst (applyCheck env m))) f = Some (meta_Sequence m) \<and>
      (\<forall>l. mget (env_ReceivedSeq env) f = Some l \<longrightarrow> l <s meta_Sequence m)"
    and "\<not> (\<exists>x. snd (applyCheck env m) = Inr x \<and> meta_FromProcess m = f) \<Longrightarrow>
      mget (env_ReceivedSeq (fst (applyCheck env m))) f = mget (env_ReceivedSeq env) f"
  using assms by (auto simp: applyCheck_def Let_def sless_not [symmetric] split: option.splits if_splits)

lemma Vmm_run_replay_lemma:
  assumes "f \<noteq> []"
  shows "Vmm_run ap c (vm, env) ms = ((vm', env'), effs) \<Longrightarrow>
     sorted_wrt word_sless (map (meta_Sequence \<circ> fst) (filter (accepted_from f) (zip ms effs))) \<and>
     (\<forall>l. mget (env_ReceivedSeq env) f = Some l \<longrightarrow>
        (\<forall>s \<in> set (map (meta_Sequence \<circ> fst) (filter (accepted_from f) (zip ms effs))). l <s s))"
proof (induction ms arbitrary: vm env effs)
  case (Cons m ms)
  from Cons.prems obtain vm1 env1 eff effs1 where a: "Vmm_apply ap c (vm, env) m = ((vm1, env1), eff)"
    and r: "Vmm_run ap c (vm1, env1) ms = ((vm', env'), effs1)" and e: "effs = eff # effs1"
    by (rule Vmm_run_Cons)
  note S = Vmm_apply_spec(3,4) [OF a] and IH = Cons.IH [OF r]
  show ?case
  proof (cases "accepted_from f (m, eff)")
    case True
    then obtain x where x: "snd (applyCheck env m) = Inr x" and f: "meta_FromProcess m = f"
      using S(2) by (auto split: sum.splits)
    from applyCheck_seq(1) [OF assms x f] S(1)
    have "mget (env_ReceivedSeq env1) f = Some (meta_Sequence m)"
      and lt: "\<forall>l. mget (env_ReceivedSeq env) f = Some l \<longrightarrow> l <s meta_Sequence m" by auto
    with IH have "sorted_wrt word_sless (map (meta_Sequence \<circ> fst) (filter (accepted_from f) (zip ms effs1)))"
      and gt: "\<forall>s \<in> set (map (meta_Sequence \<circ> fst) (filter (accepted_from f) (zip ms effs1))). meta_Sequence m <s s"
      by (auto simp: comp_def)
    with True lt show ?thesis by (auto simp: e comp_def dest: sless_trans)
  next
    case False
    then have "\<not> (\<exists>x. snd (applyCheck env m) = Inr x \<and> meta_FromProcess m = f)"
      using S(2) by (auto split: sum.splits)
    from applyCheck_seq(2) [OF assms this] S(1)
    have "mget (env_ReceivedSeq env1) f = mget (env_ReceivedSeq env) f" by simp
    with IH False show ?thesis by (auto simp: e)
  qed
qed simp

text \<open>no replay. In every run, the messages a machine executes on behalf of one sending process carry
  strictly increasing sequence numbers, so none of them is executed twice.\<close>

theorem Vmm_run_no_replay:
  "case Vmm_run vmApply cryptor (vm, env) ms of (_, effs) \<Rightarrow>
     f = [] \<or> (let seqs = map (meta_Sequence \<circ> fst)
                 (filter (\<lambda>x. te_err (snd x) = None \<and> meta_FromProcess (fst x) = f) (zip ms effs))
               in sorted_wrt word_sless seqs \<and> distinct seqs)"
proof -
  obtain vm' env' effs where r: "Vmm_run vmApply cryptor (vm, env) ms = ((vm', env'), effs)"
    by (metis prod_cases3 prod.collapse)
  have "distinct xs" if "sorted_wrt word_sless xs" for xs :: "int64 list"
    using that by (induction xs) (auto simp: word_sless_alt)
  with Vmm_run_replay_lemma [of f, OF _ r] show ?thesis by (auto simp: r Let_def)
qed

lemma Vmm_run_numbers_lemma:
  "Vmm_run ap c (vm, env) ms = ((vm', env'), effs) \<Longrightarrow> list_all (\<lambda>m. meta_Mode m = ExecModeApply) ms \<Longrightarrow>
     map ob_sequence (concat (map te_out effs)) = numbers (env_Sequence env) (length (concat (map te_out effs))) \<and>
     env_Sequence env' = env_Sequence env + of_nat (length (concat (map te_out effs))) \<and>
     list_all2 (\<lambda>m eff. list_all (authentic (meta_Pid m) (pushed_for m)) (te_out eff)) ms effs"
proof (induction ms arbitrary: vm env effs)
  case (Cons m ms)
  from Cons.prems(1) obtain vm1 env1 eff effs1 where a: "Vmm_apply ap c (vm, env) m = ((vm1, env1), eff)"
    and r: "Vmm_run ap c (vm1, env1) ms = ((vm', env'), effs1)" and e: "effs = eff # effs1"
    by (rule Vmm_run_Cons)
  from Vmm_apply_spec(1) [OF a] Cons.prems(2) obtain n where n: "env_Sequence env1 = env_Sequence env + of_nat n"
    "map ob_sequence (te_out eff) = numbers (env_Sequence env) n"
    "\<forall>ob \<in> set (te_out eff). authentic (meta_Pid m) (pushed_for m) ob" by auto
  from n(2) have len: "length (te_out eff) = n" by (metis length_map length_count_from)
  from Cons.IH [OF r] Cons.prems(2) have IH:
    "map ob_sequence (concat (map te_out effs1)) =
      numbers (env_Sequence env1) (length (concat (map te_out effs1)))"
    "env_Sequence env' = env_Sequence env1 + of_nat (length (concat (map te_out effs1)))"
    "list_all2 (\<lambda>m eff. list_all (authentic (meta_Pid m) (pushed_for m)) (te_out eff)) ms effs1" by auto
  have "map ob_sequence (concat (map te_out effs)) =
      numbers (env_Sequence env) n @ numbers (env_Sequence env + of_nat n) (length (concat (map te_out effs1)))"
    using IH(1) n by (simp add: e)
  then show ?case
    using IH n len by (simp add: e numbers_append list_all_iff add.assoc del: map_append)
qed simp

lemma pushed_for_mode [simp]: "pushed_for (m\<lparr>meta_Mode := md\<rparr>) = pushed_for m"
  by (simp add: pushed_for_def)

text \<open>what a machine sends while it applies messages is numbered without a gap, each number used
  once, in the order it was sent, starting after the environment's; and each outgoing message names
  the process it comes from, the message it was pushed for and the protocol base as the manager
  knows them, whatever tags the machine put on it.\<close>

theorem Vmm_run_numbers:
  "case Vmm_run vmApply cryptor (vm, env) (map (\<lambda>m. m\<lparr>meta_Mode := ExecModeApply\<rparr>) ms) of
     ((vm', env'), effs) \<Rightarrow>
     (let out = concat (map te_out effs) in
      map ob_sequence out = map FormatInt (count_from (env_Sequence env) (length out)) \<and>
      env_Sequence env' = env_Sequence env + of_nat (length out) \<and>
      list_all2 (\<lambda>m eff. list_all (authentic (meta_Pid m) (pushed_for m)) (te_out eff)) ms effs)"
proof -
  let ?ms = "map (\<lambda>m. m\<lparr>meta_Mode := ExecModeApply\<rparr>) ms"
  obtain vm' env' effs where r: "Vmm_run vmApply cryptor (vm, env) ?ms = ((vm', env'), effs)"
    by (metis prod_cases3 prod.collapse)
  have "list_all2 (\<lambda>m eff. list_all (authentic (meta_Pid m) (pushed_for m)) (te_out eff)) ?ms effs =
      list_all2 (\<lambda>m eff. list_all (authentic (meta_Pid m) (pushed_for m)) (te_out eff)) ms effs"
    by (simp add: list_all2_map1)
  with Vmm_run_numbers_lemma [OF r] show ?thesis by (simp add: r Let_def list_all_iff)
qed

subsection \<open>Encrypted parameters\<close>

lemma HasPrefix_split: "HasPrefix s p \<Longrightarrow> s = p @ TrimPrefix s p"
  by (metis HasPrefix_def TrimPrefix_def append_take_drop_id)

lemma decrypted_params_lookup:
  assumes "mwf rest"
  shows "mget (decrypted_params decrypt params rest acc) k =
    (if mget params k \<noteq> None then mget acc k
     else case mget rest (EncryptedTagPrefix @ k) of
       None \<Rightarrow> mget acc k
     | Some c \<Rightarrow> Some (case decrypt c of None \<Rightarrow> ''err_decrypt_param_failed'' | Some v \<Rightarrow> v))"
  using assms
proof (induction rest arbitrary: acc)
  case (Cons e rest)
  obtain key val where e: "e = (key, val)" by (cases e)
  with Cons.prems have wf: "mwf rest" and new: "mget rest key = None"
    by (auto simp: mwf_def mget_None_iff)
  show ?case
  proof (cases "HasPrefix key EncryptedTagPrefix")
    case False
    then have "key \<noteq> EncryptedTagPrefix @ k" by auto
    with False Cons.IH [OF wf] show ?thesis by (auto simp: e)
  next
    case True
    define d where "d = TrimPrefix key EncryptedTagPrefix"
    have key: "key = EncryptedTagPrefix @ d" unfolding d_def by (rule HasPrefix_split [OF True])
    show ?thesis
      using Cons.IH [OF wf] new by (auto simp: e key Let_def split: option.splits)
  qed
qed simp

lemma decrypted_params_wf: "mwf acc \<Longrightarrow> mwf (decrypted_params decrypt params rest acc)"
  by (induction decrypt params rest acc rule: decrypted_params.induct) (auto simp: Let_def)

text \<open>a node that can decrypt gives the machine every parameter it would have in the clear. A
  parameter sent in the clear keeps its value, also when an encrypted one of the name is present;
  otherwise the encrypted one is read by its plain name, as its decryption or, when that fails, the
  text of the error. A node without a key passes the parameters on unchanged.\<close>

theorem decryptParams_lookup:
  assumes "mwf (meta_Params m)"
  shows "decryptParams None m = m \<and>
    mget (meta_Params (decryptParams (Some decrypt) m)) k =
      (case mget (meta_Params m) k of
         Some v \<Rightarrow> Some v
       | None \<Rightarrow> (case mget (meta_Params m) (''Encrypted-'' @ k) of
           None \<Rightarrow> None
         | Some c \<Rightarrow> Some (case decrypt c of None \<Rightarrow> ''err_decrypt_param_failed'' | Some v \<Rightarrow> v)))"
proof (cases "meta_Params m = []")
  case True
  then show ?thesis by (simp add: decryptParams_def)
next
  case False
  have "mwf (decrypted_params decrypt (meta_Params m) (meta_Params m) [])"
    by (rule decrypted_params_wf) simp
  with False assms show ?thesis
    by (auto simp: decryptParams_def mget_maps_Copy decrypted_params_lookup EncryptedTagPrefix_def
        split: option.splits)
qed

theorem decryptParams_lookup_witness:
  "mget (meta_Params (decryptParams (Some (\<lambda>c. if c = ''x'' then Some ''secret'' else None))
      (zero_meta\<lparr>meta_Params := [(''Encrypted-Key'', ''x'')]\<rparr>))) ''Key'' = Some ''secret''"
  using decryptParams_lookup [of "zero_meta\<lparr>meta_Params := [(''Encrypted-Key'', ''x'')]\<rparr>"
      "\<lambda>c. if c = ''x'' then Some ''secret'' else None" "''Key''"]
  by simp

subsection \<open>Replay and recovery\<close>

text \<open>The contract of a machine: its behaviour does not depend on the mode, and a state restored from a
  checkpoint behaves as the state the checkpoint was taken from.\<close>

locale vm_machine =
  fixes vmApply :: "'s \<Rightarrow> string \<Rightarrow> meta \<Rightarrow> 's \<times> vm_result"
    and ckpt :: "'s \<Rightarrow> 'd"
    and restore :: "'s \<Rightarrow> 'd \<Rightarrow> 's"
    and sim :: "'s \<Rightarrow> 's \<Rightarrow> bool"
    and inv :: "'s \<Rightarrow> bool"
  assumes blind: "vmApply s f (m\<lparr>meta_Mode := md, meta_RecoveryMaxNonce := n\<rparr>) = vmApply s f m"
    and inv_apply: "inv s \<Longrightarrow> inv (fst (vmApply s f m))"
    and restore_sim: "inv s \<Longrightarrow> sim s (restore s0 (ckpt s))"
    and sim_apply: "sim s s' \<Longrightarrow> sim (fst (vmApply s f m)) (fst (vmApply s' f m))"
    and sim_result: "sim s s' \<Longrightarrow> snd (vmApply s f m) = snd (vmApply s' f m)"

text \<open>A message as the recovery replays it.\<close>

definition replayed :: "int64 \<Rightarrow> meta \<Rightarrow> meta" where
  "replayed maxNonce m = m\<lparr>meta_Mode := ExecModeReplay, meta_RecoveryMaxNonce := maxNonce\<rparr>"

lemma decryptParams_replayed:
  "decryptParams c (replayed n m) = (decryptParams c m)\<lparr>meta_Mode := ExecModeReplay, meta_RecoveryMaxNonce := n\<rparr>"
  by (simp add: decryptParams_def replayed_def split: option.splits)

lemma applyCheck_replayed: "applyCheck env (replayed n m) = applyCheck env m"
  by (simp add: applyCheck_def replayed_def Let_def split: option.split)

lemma outbox_messages_mode:
  "fst (outbox_messages md f pf seq msgs) = fst (outbox_messages md' f pf seq msgs) \<and>
   fst (snd (outbox_messages md f pf seq msgs)) = fst (snd (outbox_messages md' f pf seq msgs))"
  by (induction msgs arbitrary: seq) (simp_all add: Let_def split: sum.splits prod.splits, (metis fst_conv snd_conv)+)

lemma outbox_spawns_mode:
  "fst (outbox_spawns md f pf seq msgs) = fst (outbox_spawns md' f pf seq msgs) \<and>
   fst (snd (outbox_spawns md f pf seq msgs)) = fst (snd (outbox_spawns md' f pf seq msgs))"
  by (induction msgs arbitrary: seq) (simp_all add: Let_def split: sum.splits prod.splits, (metis fst_conv snd_conv)+)

lemma Vmm_outbox_mode:
  "fst (Vmm_outbox env (r\<lparr>vr_Mode := md\<rparr>)) = fst (Vmm_outbox env r) \<and>
   fst (snd (Vmm_outbox env (r\<lparr>vr_Mode := md\<rparr>))) = (fst (snd (Vmm_outbox env r)))\<lparr>vr_Mode := md\<rparr>"
proof -
  let ?f = "vr_FromProcess r" and ?pf = "vr_PushedFor r"
  obtain s1 m1 o1 where r1: "outbox_messages (vr_Mode r) ?f ?pf (env_Sequence env) (vr_Messages r) = (s1, m1, o1)"
    by (metis prod_cases3)
  obtain s1' m1' o1' where r1': "outbox_messages md ?f ?pf (env_Sequence env) (vr_Messages r) = (s1', m1', o1')"
    by (metis prod_cases3)
  have e1: "s1' = s1" "m1' = m1"
    using outbox_messages_mode [of md ?f ?pf "env_Sequence env" "vr_Messages r" "vr_Mode r"] r1 r1' by auto
  obtain s2 m2 o2 where r2: "outbox_spawns (vr_Mode r) ?f ?pf s1 (vr_Spawns r) = (s2, m2, o2)"
    by (metis prod_cases3)
  obtain s2' m2' o2' where r2': "outbox_spawns md ?f ?pf s1 (vr_Spawns r) = (s2', m2', o2')"
    by (metis prod_cases3)
  have e2: "s2' = s2" "m2' = m2"
    using outbox_spawns_mode [of md ?f ?pf s1 "vr_Spawns r" "vr_Mode r"] r2 r2' by auto
  show ?thesis using r1 r1' r2 r2' e1 e2 by (simp add: Vmm_outbox_def)
qed

lemma finish_task_replayed:
  assumes "finish_task m env r err = (env1, eff)"
    and "finish_task (replayed n m) env (r\<lparr>vr_Mode := ExecModeReplay\<rparr>) err = (env2, eff2)"
  shows "env2 = env1" and "te_result eff2 = (te_result eff)\<lparr>vr_Mode := ExecModeReplay\<rparr>"
    and "te_err eff2 = te_err eff"
  using assms Vmm_outbox_mode [of env ExecModeReplay r]
  by (auto simp: finish_task_def split: prod.splits)

lemma base_result_replayed:
  "base_result (replayed n m) = (base_result m)\<lparr>vr_Mode := ExecModeReplay\<rparr>"
  by (simp add: base_result_def replayed_def)

lemma Vmm_run_snoc:
  "Vmm_run ap c st (xs @ ys) =
     (let (st1, e1) = Vmm_run ap c st xs; (st2, e2) = Vmm_run ap c st1 ys in (st2, e1 @ e2))"
  by (induction xs arbitrary: st) (auto simp: Let_def split: prod.splits)

context vm_machine
begin

lemma apply_replayed:
  assumes sim: "sim s s'"
    and a: "Vmm_apply vmApply c (s, env) m = ((s1, env1), eff)"
    and b: "Vmm_apply vmApply c (s', env) (replayed n m) = ((s2, env2), eff2)"
  shows "sim s1 s2 \<and> env2 = env1 \<and> te_result eff2 = (te_result eff)\<lparr>vr_Mode := ExecModeReplay\<rparr> \<and>
    te_err eff2 = te_err eff \<and> te_out eff2 = []"
proof -
  have out: "te_out eff2 = []" using Vmm_apply_spec(1) [OF b] by (simp add: replayed_def)
  obtain env0 ch where ch: "applyCheck env m = (env0, ch)" by fastforce
  show ?thesis
  proof (cases ch)
    case (Inl e)
    let ?r = "(base_result m)\<lparr>vr_Error := sys_err_text e\<rparr>"
    have f1: "finish_task m env0 ?r (Some e) = (env1, eff)" and s1: "s1 = s"
      using a ch Inl by (auto simp: Vmm_apply_def Let_def split: prod.splits)
    have comm: "(base_result m)\<lparr>vr_Mode := ExecModeReplay, vr_Error := sys_err_text e\<rparr> =
        ?r\<lparr>vr_Mode := ExecModeReplay\<rparr>" by (simp add: base_result_def)
    have f2: "finish_task (replayed n m) env0 (?r\<lparr>vr_Mode := ExecModeReplay\<rparr>) (Some e) = (env2, eff2)"
      and s2: "s2 = s'"
      using b ch Inl by (auto simp: comm [symmetric] Vmm_apply_def Let_def applyCheck_replayed base_result_replayed
          split: prod.splits)
    from finish_task_replayed [OF f1 f2] sim s1 s2 out show ?thesis by simp
  next
    case (Inr f)
    let ?res = "snd (vmApply s f (decryptParams c m))"
    let ?r = "(base_result m)\<lparr>vr_Messages := res_Messages ?res, vr_Spawns := res_Spawns ?res,
      vr_Assignments := res_Assignments ?res, vr_Output := res_Output ?res, vr_Data := res_Data ?res,
      vr_Cache := res_Cache ?res,
      vr_Error := (case res_Error ?res of None \<Rightarrow> [] | Some e \<Rightarrow> vm_err_text e)\<rparr>"
    have step: "vmApply s' f (decryptParams c (replayed n m)) = vmApply s' f (decryptParams c m)"
      by (simp add: decryptParams_replayed blind)
    note R = sim_result [OF sim, of f "decryptParams c m"] sim_apply [OF sim, of f "decryptParams c m"]
    have f1: "finish_task m env0 ?r None = (env1, eff)" and s1: "s1 = fst (vmApply s f (decryptParams c m))"
      using a ch Inr by (auto simp: Vmm_apply_def Let_def split: prod.splits)
    have comm: "(base_result m)\<lparr>vr_Mode := ExecModeReplay, vr_Messages := res_Messages ?res,
        vr_Spawns := res_Spawns ?res, vr_Assignments := res_Assignments ?res,
        vr_Output := res_Output ?res, vr_Data := res_Data ?res, vr_Cache := res_Cache ?res,
        vr_Error := (case res_Error ?res of None \<Rightarrow> [] | Some e \<Rightarrow> vm_err_text e)\<rparr> =
        ?r\<lparr>vr_Mode := ExecModeReplay\<rparr>" by (simp add: base_result_def)
    have f2: "finish_task (replayed n m) env0 (?r\<lparr>vr_Mode := ExecModeReplay\<rparr>) None = (env2, eff2)"
      and s2: "s2 = fst (vmApply s' f (decryptParams c m))"
      using b ch Inr R(1) step by (auto simp: comm [symmetric] Vmm_apply_def Let_def applyCheck_replayed base_result_replayed
          split: prod.splits)
    from finish_task_replayed [OF f1 f2] R(2) s1 s2 out show ?thesis by simp
  qed
qed

lemma run_replayed:
  assumes "sim s s'" and "Vmm_run vmApply c (s, env) ms = ((s1, env1), effs)"
    and "Vmm_run vmApply c (s', env) (map (replayed n) ms) = ((s2, env2), effs2)"
  shows "sim s1 s2 \<and> env2 = env1 \<and>
    map te_result effs2 = map (\<lambda>e. (te_result e)\<lparr>vr_Mode := ExecModeReplay\<rparr>) effs \<and>
    list_all (\<lambda>e. te_out e = []) effs2"
  using assms
proof (induction ms arbitrary: s s' env effs effs2)
  case (Cons m ms)
  from Cons.prems(2) obtain t1 v1 eff es where a: "Vmm_apply vmApply c (s, env) m = ((t1, v1), eff)"
    and r: "Vmm_run vmApply c (t1, v1) ms = ((s1, env1), es)" and e: "effs = eff # es"
    by (rule Vmm_run_Cons)
  have b: "Vmm_run vmApply c (s', env) (replayed n m # map (replayed n) ms) = ((s2, env2), effs2)"
    using Cons.prems(3) by (simp only: list.map)
  then obtain t2 v2 eff' es' where
    a': "Vmm_apply vmApply c (s', env) (replayed n m) = ((t2, v2), eff')"
    and r': "Vmm_run vmApply c (t2, v2) (map (replayed n) ms) = ((s2, env2), es')" and e': "effs2 = eff' # es'"
    by (rule Vmm_run_Cons)
  from apply_replayed [OF Cons.prems(1) a a'] have A: "sim t1 t2" "v2 = v1"
    "te_result eff' = (te_result eff)\<lparr>vr_Mode := ExecModeReplay\<rparr>" "te_out eff' = []" by auto
  from Cons.IH [OF A(1) r] r' A show ?case by (simp add: e e')
qed auto

lemma run_inv: "inv s \<Longrightarrow> Vmm_run vmApply c (s, env) ms = ((s', env'), effs) \<Longrightarrow> inv s'"
proof (induction ms arbitrary: s env effs)
  case (Cons m ms)
  from Cons.prems(2) obtain t1 v1 eff es where a: "Vmm_apply vmApply c (s, env) m = ((t1, v1), eff)"
    and r: "Vmm_run vmApply c (t1, v1) ms = ((s', env'), es)" by (rule Vmm_run_Cons)
  have "inv t1"
    using a Cons.prems(1) inv_apply
    by (auto simp: Vmm_apply_def Let_def split: prod.splits sum.splits) (metis fst_conv)
  from Cons.IH [OF this r] show ?case .
qed simp

lemma recovery:
  assumes "inv s"
  shows "case Vmm_run vmApply c (s, env) ms1 of ((s1, env1), _) \<Rightarrow>
    (case (Vmm_run vmApply c (s1, env1) ms2,
           Vmm_run vmApply c (restore s0 (ckpt s1), env1) (map (replayed n) ms2)) of
       (((s2, env2), effs), ((s3, env3), effs')) \<Rightarrow>
         sim s2 s3 \<and> env3 = env2 \<and>
         map te_result effs' = map (\<lambda>e. (te_result e)\<lparr>vr_Mode := ExecModeReplay\<rparr>) effs \<and>
         list_all (\<lambda>e. te_out e = []) effs')"
proof -
  obtain s1 env1 effs1 where 1: "Vmm_run vmApply c (s, env) ms1 = ((s1, env1), effs1)"
    by (metis prod.collapse)
  obtain s2 env2 effs where 2: "Vmm_run vmApply c (s1, env1) ms2 = ((s2, env2), effs)"
    by (metis prod.collapse)
  obtain s3 env3 effs' where
    3: "Vmm_run vmApply c (restore s0 (ckpt s1), env1) (map (replayed n) ms2) = ((s3, env3), effs')"
    by (metis prod.collapse)
  have "sim s1 (restore s0 (ckpt s1))" by (rule restore_sim) (rule run_inv [OF assms 1])
  from run_replayed [OF this 2 3] show ?thesis by (simp add: 1 2 3)
qed

end

text \<open>Both core machines keep the contract.\<close>

interpretation token_machine: vm_machine "Token_Apply lib" TokenDb_Checkpoint TokenDb_Restore "(=)" "\<lambda>_. True"
  for lib
  by unfold_locales (simp_all add: TokenDb_Restore_Checkpoint Token_Apply_def Token_dispatch_def)

interpretation registry_machine: vm_machine "Registry_Apply lib" Registry_Checkpoint Registry_Restore
  reg_sim reg_inv for lib
proof unfold_locales
  fix s s0 s' :: registry and f m md n
  show "Registry_Apply lib s f (m\<lparr>meta_Mode := md, meta_RecoveryMaxNonce := n\<rparr>) = Registry_Apply lib s f m"
    by (simp add: Registry_Apply_def Registry_dispatch_def)
  show "reg_inv s \<Longrightarrow> reg_inv (fst (Registry_Apply lib s f m))"
    using reg_step_inv [of s lib "RegMsg f m"] by simp
  show "reg_inv s \<Longrightarrow> reg_sim s (Registry_Restore s0 (Registry_Checkpoint s))"
    by (simp add: Restore_Checkpoint_sim reg_inv_def)
  show "reg_sim s s' \<Longrightarrow> reg_sim (fst (Registry_Apply lib s f m)) (fst (Registry_Apply lib s' f m))"
    by (rule Registry_Apply_sim)
  show "reg_sim s s' \<Longrightarrow> snd (Registry_Apply lib s f m) = snd (Registry_Apply lib s' f m)"
    by (rule Registry_Apply_sim)
qed

text \<open>recovery ends where the original run did. Restoring a token or registry from a checkpoint
  taken after any messages, with the environment of that moment, and replaying the messages that
  followed gives the same environment - nonce, sequence and received sequences - and, apart from
  the mode, the same results as applying them did, sends nothing a second time, and leaves a token
  with the same store and a registry with the same answers.\<close>

theorem core_recovery:
  "(case Vmm_run (Token_Apply lib) cryptor (db, env) ms1 of ((db1, env1), _) \<Rightarrow>
     (case (Vmm_run (Token_Apply lib) cryptor (db1, env1) ms2,
            Vmm_run (Token_Apply lib) cryptor (TokenDb_Restore db0 (TokenDb_Checkpoint db1), env1)
              (map (replayed n) ms2)) of
        (((db2, env2), effs), ((db3, env3), effs')) \<Rightarrow>
          db3 = db2 \<and> env3 = env2 \<and>
          map te_result effs' = map (\<lambda>e. (te_result e)\<lparr>vr_Mode := ExecModeReplay\<rparr>) effs \<and>
          list_all (\<lambda>e. te_out e = []) effs')) \<and>
   (case Vmm_run (Registry_Apply lib) cryptor (NewRegistry i tokenPid nd, env) ms1 of ((r1, env1), _) \<Rightarrow>
     (case (Vmm_run (Registry_Apply lib) cryptor (r1, env1) ms2,
            Vmm_run (Registry_Apply lib) cryptor (Registry_Restore r0 (Registry_Checkpoint r1), env1)
              (map (replayed n) ms2)) of
        (((r2, env2), effs), ((r3, env3), effs')) \<Rightarrow>
          reg_results lib r3 later = reg_results lib r2 later \<and>
          Registry_GetNodes r3 = Registry_GetNodes r2 \<and> env3 = env2 \<and>
          map te_result effs' = map (\<lambda>e. (te_result e)\<lparr>vr_Mode := ExecModeReplay\<rparr>) effs \<and>
          list_all (\<lambda>e. te_out e = []) effs'))"
proof (rule conjI)
  show "case Vmm_run (Token_Apply lib) cryptor (db, env) ms1 of ((db1, env1), _) \<Rightarrow>
     (case (Vmm_run (Token_Apply lib) cryptor (db1, env1) ms2,
            Vmm_run (Token_Apply lib) cryptor (TokenDb_Restore db0 (TokenDb_Checkpoint db1), env1)
              (map (replayed n) ms2)) of
        (((db2, env2), effs), ((db3, env3), effs')) \<Rightarrow>
          db3 = db2 \<and> env3 = env2 \<and>
          map te_result effs' = map (\<lambda>e. (te_result e)\<lparr>vr_Mode := ExecModeReplay\<rparr>) effs \<and>
          list_all (\<lambda>e. te_out e = []) effs')"
    using token_machine.recovery [of lib cryptor ms2 db0 n db env ms1] by (auto split: prod.splits)
  show "case Vmm_run (Registry_Apply lib) cryptor (NewRegistry i tokenPid nd, env) ms1 of ((r1, env1), _) \<Rightarrow>
     (case (Vmm_run (Registry_Apply lib) cryptor (r1, env1) ms2,
            Vmm_run (Registry_Apply lib) cryptor (Registry_Restore r0 (Registry_Checkpoint r1), env1)
              (map (replayed n) ms2)) of
        (((r2, env2), effs), ((r3, env3), effs')) \<Rightarrow>
          reg_results lib r3 later = reg_results lib r2 later \<and>
          Registry_GetNodes r3 = Registry_GetNodes r2 \<and> env3 = env2 \<and>
          map te_result effs' = map (\<lambda>e. (te_result e)\<lparr>vr_Mode := ExecModeReplay\<rparr>) effs \<and>
          list_all (\<lambda>e. te_out e = []) effs')"
    using registry_machine.recovery [OF NewRegistry_inv [of i tokenPid nd], of lib cryptor ms2 r0 n env ms1]
    by (auto split: prod.splits dest: queries_sim(4) reg_results_sim [of _ _ lib later])
qed

end
