(* ===== verification/Vmm.thy ===== *)
theory Vmm
  imports VmmApply
begin

text \<open>
  The machine manager (vmm/vmm.go, spawn.go, registry.go, token.go, manage.go). Machines are
  objects of a store, addressed by their position: the manager's pointers to the registry and the
  token and the pointer of each instance are addresses of it. A task of an instance is one step
  here; the admission of tasks and the life of the loop are the theory VmInstance. Mounted
  machines are arbitrary: a type \<open>'s\<close> with the operations of the interface \<open>Vm\<close>.
\<close>

subsection \<open>State\<close>

record 's vm_ops =
  ops_Apply :: "'s \<Rightarrow> string \<Rightarrow> meta \<Rightarrow> 's \<times> vm_result"
  ops_Checkpoint :: "'s \<Rightarrow> sys_err + string"
  ops_Restore :: "'s \<Rightarrow> string \<Rightarrow> sys_err + 's"
  ops_Close :: "'s \<Rightarrow> sys_err option"

text \<open>The JSON texts of the snapshots of the core machines.\<close>

record snap_codec =
  enc_token :: "token_snapshot \<Rightarrow> string"
  dec_token :: "string \<Rightarrow> token_snapshot option"
  enc_registry :: "registry_snapshot \<Rightarrow> string"
  dec_registry :: "string \<Rightarrow> registry_snapshot option"

datatype 's vm_obj = ObjToken token_db | ObjRegistry registry | ObjMounted 's

datatype 's vm_factory = FactoryToken | FactoryRegistry | FactoryMounted "env \<Rightarrow> sys_err + 's"

record vm_instance =
  inst_vm :: nat
  inst_env :: env

record 's vmm =
  v_role :: string
  v_joinNetwork :: bool
  v_registry :: "nat option"
  v_token :: "nat option"
  v_objs :: "'s vm_obj list"
  v_factors :: "(string, 's vm_factory) gomap"
  v_vms :: "(string, vm_instance) gomap"
  v_closed :: bool
  v_recoveryLock :: "(string, bool) gomap"
  v_registrySpawned :: bool

definition ModuleFormatToken :: string where "ModuleFormatToken = ''hymx.core.token.0.0.0''"
definition ModuleFormatRegistry :: string where "ModuleFormatRegistry = ''hymx.core.registry.0.0.0''"

text \<open>\<open>New\<close> followed by \<open>Run\<close>: the two core factories are mounted.\<close>

definition Vmm_New :: "string \<Rightarrow> bool \<Rightarrow> 's vmm" where
  "Vmm_New role joinNetwork =
     \<lparr>v_role = role, v_joinNetwork = joinNetwork, v_registry = None, v_token = None, v_objs = [],
      v_factors = [(ModuleFormatToken, FactoryToken), (ModuleFormatRegistry, FactoryRegistry)],
      v_vms = [], v_closed = False, v_recoveryLock = [], v_registrySpawned = False\<rparr>"

subsection \<open>Registry, token and locks\<close>

definition registry_obj :: "'s vmm \<Rightarrow> registry option" where
  "registry_obj v = (case v_registry v of
     None \<Rightarrow> None
   | Some a \<Rightarrow> (case v_objs v ! a of ObjRegistry r \<Rightarrow> Some r | _ \<Rightarrow> None))"

definition token_obj :: "'s vmm \<Rightarrow> token_db option" where
  "token_obj v = (case v_token v of
     None \<Rightarrow> None
   | Some a \<Rightarrow> (case v_objs v ! a of ObjToken db \<Rightarrow> Some db | _ \<Rightarrow> None))"

definition Vmm_RegistryId :: "'s vmm \<Rightarrow> string" where
  "Vmm_RegistryId v = (case registry_obj v of None \<Rightarrow> [] | Some r \<Rightarrow> reg_id r)"

definition Vmm_GetNode :: "'s vmm \<Rightarrow> string \<Rightarrow> node option" where
  "Vmm_GetNode v accid = (case registry_obj v of None \<Rightarrow> None | Some r \<Rightarrow> Registry_GetNode r accid)"

definition Vmm_GetNodes :: "'s vmm \<Rightarrow> (string, node) gomap" where
  "Vmm_GetNodes v = (case registry_obj v of None \<Rightarrow> [] | Some r \<Rightarrow> Registry_GetNodes r)"

definition Vmm_GetProcesses :: "'s vmm \<Rightarrow> string \<Rightarrow> string list" where
  "Vmm_GetProcesses v accid = (case registry_obj v of None \<Rightarrow> [] | Some r \<Rightarrow> Registry_GetProcesses r accid)"

definition Vmm_GetNodesByProcess :: "'s vmm \<Rightarrow> string \<Rightarrow> node list" where
  "Vmm_GetNodesByProcess v pid =
     (case registry_obj v of None \<Rightarrow> [] | Some r \<Rightarrow> Registry_GetNodesByProcess r pid)"

definition Vmm_TokenId :: "'s vmm \<Rightarrow> string" where
  "Vmm_TokenId v = (case token_obj v of None \<Rightarrow> [] | Some db \<Rightarrow> ti_Id (tdb_info db))"

text \<open>\<open>None\<close> is a nil amount with a nil error.\<close>

definition Vmm_BalanceOf :: "extlib \<Rightarrow> 's vmm \<Rightarrow> string \<Rightarrow> (vm_err + int) option" where
  "Vmm_BalanceOf lib v a = (case token_obj v of None \<Rightarrow> None | Some db \<Rightarrow> Some (Token_BalanceOf lib db a))"

definition Vmm_StakeOf :: "extlib \<Rightarrow> 's vmm \<Rightarrow> string \<Rightarrow> (vm_err + int) option" where
  "Vmm_StakeOf lib v a = (case token_obj v of None \<Rightarrow> None | Some db \<Rightarrow> Some (Token_StakeOf lib db a))"

definition RecoveryLock :: "'s vmm \<Rightarrow> string \<Rightarrow> 's vmm" where
  "RecoveryLock v pid = v\<lparr>v_recoveryLock := mput pid True (v_recoveryLock v)\<rparr>"

definition RecoveryUnlock :: "'s vmm \<Rightarrow> string \<Rightarrow> 's vmm" where
  "RecoveryUnlock v pid = v\<lparr>v_recoveryLock := mdel pid (v_recoveryLock v)\<rparr>"

definition IsRecovering :: "'s vmm \<Rightarrow> string \<Rightarrow> bool" where
  "IsRecovering v pid = mget_or False (v_recoveryLock v) pid"

definition Vmm_IsExists :: "'s vmm \<Rightarrow> string \<Rightarrow> bool" where
  "Vmm_IsExists v pid \<longleftrightarrow> mget (v_vms v) pid \<noteq> None"

definition GetVmPids :: "'s vmm \<Rightarrow> string list" where
  "GetVmPids v = map fst (v_vms v)"

definition GetModuleNames :: "'s vmm \<Rightarrow> string list" where
  "GetModuleNames v = map fst (v_factors v)"

definition GetVmCount :: "'s vmm \<Rightarrow> int64" where
  "GetVmCount v = of_nat (length (v_vms v))"

definition Mount :: "'s vmm \<Rightarrow> string \<Rightarrow> 's vm_factory \<Rightarrow> 's vmm \<times> sys_err option" where
  "Mount v moduleFormat spawner =
     (case mget (v_factors v) moduleFormat of
        Some _ \<Rightarrow> (v, Some ErrFactoryAlreadyMounted)
      | None \<Rightarrow> (v\<lparr>v_factors := mput moduleFormat spawner (v_factors v)\<rparr>, None))"

definition getInstance :: "'s vmm \<Rightarrow> string \<Rightarrow> sys_err + vm_instance" where
  "getInstance v pid =
     (if v_closed v then Inl ErrVmmClosed
      else case mget (v_vms v) pid of None \<Rightarrow> Inl ErrVmmProcessNotFound | Some i \<Rightarrow> Inr i)"

definition GetVm :: "'s vmm \<Rightarrow> string \<Rightarrow> sys_err + 's vm_obj \<times> env" where
  "GetVm v pid = (case getInstance v pid of Inl e \<Rightarrow> Inl e | Inr i \<Rightarrow> Inr (v_objs v ! inst_vm i, inst_env i))"

subsection \<open>Spawning (spawn.go, registry.go, token.go)\<close>

definition GenesisAccId :: string where
  "GenesisAccId = ''0x18b4bA4c118279b3eB60a2DB1E794Bc41AFC1D37''"

definition GenesisNode :: node where
  "GenesisNode = \<lparr>node_AccId = GenesisAccId, node_Name = ''TestGenesisNode'', node_Role = RoleMain,
     node_Desc = ''Test network genesis node'', node_URL = ''https://hymatrix.ai''\<rparr>"

definition genMainNode :: "string \<Rightarrow> (string, string) gomap \<Rightarrow> node" where
  "genMainNode accid params =
     (let nd = \<lparr>node_AccId = accid, node_Name = mget_or [] params ''Name'', node_Role = RoleMain,
                node_Desc = mget_or [] params ''Desc'', node_URL = mget_or [] params ''URL''\<rparr>
      in if node_URL nd = [] then GenesisNode else nd)"

definition register_process_meta :: "string \<Rightarrow> string \<Rightarrow> meta" where
  "register_process_meta pid accid =
     zero_meta\<lparr>meta_Action := ''RegisterProcess'', meta_Params := [(''Pid'', pid), (''Acc-Id'', accid)]\<rparr>"

definition init_registry :: "extlib \<Rightarrow> env \<Rightarrow> string \<Rightarrow> registry" where
  "init_registry lib env tokenPid =
     (let m = env_Meta env;
          r0 = NewRegistry (meta_ItemId m) tokenPid (genMainNode (meta_AccId m) (meta_Params m));
          r1 = fst (Registry_Apply lib r0 tokenPid (register_process_meta tokenPid (meta_AccId m)))
      in fst (Registry_Apply lib r1 (meta_ItemId m)
           (register_process_meta (meta_ItemId m) (meta_AccId m))))"

definition spawnRegistry :: "extlib \<Rightarrow> 's vmm \<Rightarrow> env \<Rightarrow> 's vmm \<times> (sys_err + nat)" where
  "spawnRegistry lib v env =
     (if v_registry v \<noteq> None then (v, Inl ErrRegistryAlreadyCreated)
      else case mget (meta_Params (env_Meta env)) ''Token-Pid'' of
        None \<Rightarrow> (v, Inl ErrVmmMissingParam)
      | Some tokenPid \<Rightarrow>
          (let v1 = (if meta_Mode (env_Meta env) = ExecModeApply
                     then v\<lparr>v_role := RoleMain, v_joinNetwork := True\<rparr> else v);
               a = length (v_objs v1)
           in (v1\<lparr>v_objs := v_objs v1 @ [ObjRegistry (init_registry lib env tokenPid)],
                  v_registry := Some a\<rparr>, Inr a)))"

definition genesis_token :: "env \<Rightarrow> token_db" where
  "genesis_token env =
     NewTokenDb
       \<lparr>ti_Id = meta_Pid (env_Meta env), ti_Name = ''tHyMatrix'', ti_Ticker = ''tAX'', ti_Decimals = 12,
        ti_Logo = ''4LNO3k5gZbllUlj2N8EoCM99jRe_RvJRdSCKF2xWwwk'', ti_MinAmount = 1000000000000\<rparr>
       [(meta_AccId (env_Meta env), 20000000000000000000)]
       [(meta_AccId (env_Meta env), 1000000000000000000)]"

definition spawnToken :: "'s vmm \<Rightarrow> env \<Rightarrow> 's vmm \<times> (sys_err + nat)" where
  "spawnToken v env =
     (if v_token v \<noteq> None then (v, Inl ErrTokenAlreadyCreated)
      else (v\<lparr>v_objs := v_objs v @ [ObjToken (genesis_token env)], v_token := Some (length (v_objs v))\<rparr>,
            Inr (length (v_objs v))))"

definition Vmm_spawn :: "extlib \<Rightarrow> 's vmm \<Rightarrow> env \<Rightarrow> 's vmm \<times> (sys_err + nat)" where
  "Vmm_spawn lib v env =
     (case mget (v_factors v) (mod_ModuleFormat (env_Module env)) of
        None \<Rightarrow> (v, Inl ErrInvalidModuleFormat)
      | Some FactoryToken \<Rightarrow> spawnToken v env
      | Some FactoryRegistry \<Rightarrow> spawnRegistry lib v env
      | Some (FactoryMounted f) \<Rightarrow>
          (case f env of
             Inl e \<Rightarrow> (v, Inl e)
           | Inr s \<Rightarrow> (v\<lparr>v_objs := v_objs v @ [ObjMounted s]\<rparr>, Inr (length (v_objs v)))))"

definition genSpawnResult :: "string \<Rightarrow> env \<Rightarrow> vmm_result" where
  "genSpawnResult registryId env =
     (let m = env_Meta env;
          registerMsg = (if registryId = [] then [] else
            [reply registryId [] [Tag ''Action'' ''RegisterProcess'', Tag ''Pid'' (meta_Pid m),
               Tag ''Acc-Id'' (proc_Scheduler (env_Process env))]]);
          spawnedMsg = (if meta_FromProcess m = [] then [] else
            [reply (meta_FromProcess m) []
               ([Tag ''Action'' ''Spawned'', Tag ''Process'' (meta_Pid m),
                 Tag ''Reference'' (GetTagsValueByDefault ''Reference'' (proc_Tags (env_Process env)) ''0'')]
                @ x_tags (meta_Params m))])
      in \<lparr>vr_Nonce = FormatInt (env_Nonce env), vr_Timestamp = FormatInt (meta_Timestamp m),
          vr_ItemId = meta_ItemId m, vr_FromProcess = meta_Pid m,
          vr_PushedFor = (if meta_PushedFor m \<noteq> [] then meta_PushedFor m else meta_ItemId m),
          vr_Messages = registerMsg @ spawnedMsg, vr_Spawns = [], vr_Assignments = [],
          vr_Output = [], vr_Data = [], vr_Cache = [], vr_Mode = meta_Mode m, vr_Error = []\<rparr>)"

text \<open>The end of a successful initialisation: a registry opens the gate other spawns wait at.\<close>

definition install_instance :: "'s vmm \<Rightarrow> string \<Rightarrow> nat \<Rightarrow> env \<Rightarrow> 's vmm" where
  "install_instance v pid a env =
     v\<lparr>v_vms := mput pid \<lparr>inst_vm = a, inst_env = env\<rparr> (v_vms v),
       v_registrySpawned := (v_registrySpawned v \<or> v_registry v = Some a)\<rparr>"

text \<open>\<open>None\<close> is a call that waits until a registry has been spawned.\<close>

definition Vmm_Spawn ::
  "extlib \<Rightarrow> 's vmm \<Rightarrow> meta \<Rightarrow> process \<Rightarrow> module \<Rightarrow> ('s vmm \<times> sys_err option \<times> vmm_result list \<times> outbox_msg list) option"
where
  "Vmm_Spawn lib v m process module =
     (let pid = meta_Pid m; fmt = mod_ModuleFormat module in
      if Vmm_IsExists v pid then Some (v, Some ErrVmmProcessAlreadyExists, [], [])
      else if Vmm_RegistryId v = [] \<and> fmt \<noteq> ModuleFormatRegistry \<and> fmt \<noteq> ModuleFormatToken \<and>
              \<not> v_registrySpawned v
      then (if v_closed v then Some (v, Some ErrRegistryNotFound, [], []) else None)
      else if v_closed v then Some (v, Some ErrVmmClosed, [], [])
      else
        let env = \<lparr>env_Meta = m, env_Process = process, env_Module = module, env_Nonce = 0,
                   env_Sequence = - 1, env_ReceivedSeq = []\<rparr>
        in case Vmm_spawn lib v env of
             (v1, Inl e) \<Rightarrow> Some (v1, Some e, [], [])
           | (v1, Inr a) \<Rightarrow>
               (let (env', res, out) = Vmm_outbox env (genSpawnResult (Vmm_RegistryId v1) env);
                    v2 = (if meta_Mode m \<noteq> ExecModeApply \<and> meta_Nonce m = meta_RecoveryMaxNonce m
                          then RecoveryUnlock v1 pid else v1)
                in Some (install_instance v2 pid a env', None, [res], out)))"

subsection \<open>Applying, checkpoints and the end of a machine\<close>

definition obj_apply :: "extlib \<Rightarrow> 's vm_ops \<Rightarrow> 's vm_obj \<Rightarrow> string \<Rightarrow> meta \<Rightarrow> 's vm_obj \<times> vm_result" where
  "obj_apply lib ops obj from m =
     (case obj of
        ObjToken db \<Rightarrow> (case Token_Apply lib db from m of (db', res) \<Rightarrow> (ObjToken db', res))
      | ObjRegistry r \<Rightarrow> (case Registry_Apply lib r from m of (r', res) \<Rightarrow> (ObjRegistry r', res))
      | ObjMounted s \<Rightarrow> (case ops_Apply ops s from m of (s', res) \<Rightarrow> (ObjMounted s', res)))"

definition obj_checkpoint :: "snap_codec \<Rightarrow> 's vm_ops \<Rightarrow> 's vm_obj \<Rightarrow> sys_err + string" where
  "obj_checkpoint cd ops obj =
     (case obj of
        ObjToken db \<Rightarrow> Inr (enc_token cd (TokenDb_Checkpoint db))
      | ObjRegistry r \<Rightarrow> Inr (enc_registry cd (Registry_Checkpoint r))
      | ObjMounted s \<Rightarrow> ops_Checkpoint ops s)"

definition obj_restore :: "snap_codec \<Rightarrow> 's vm_ops \<Rightarrow> 's vm_obj \<Rightarrow> string \<Rightarrow> sys_err + 's vm_obj" where
  "obj_restore cd ops obj data =
     (case obj of
        ObjToken db \<Rightarrow> (case dec_token cd data of
            None \<Rightarrow> Inl (OtherErr ''json'') | Some sp \<Rightarrow> Inr (ObjToken (TokenDb_Restore db sp)))
      | ObjRegistry r \<Rightarrow> (case dec_registry cd data of
            None \<Rightarrow> Inl (OtherErr ''json'') | Some sp \<Rightarrow> Inr (ObjRegistry (Registry_Restore r sp)))
      | ObjMounted s \<Rightarrow> (case ops_Restore ops s data of Inl e \<Rightarrow> Inl e | Inr s' \<Rightarrow> Inr (ObjMounted s')))"

definition Vmm_Apply ::
  "extlib \<Rightarrow> 's vm_ops \<Rightarrow> (string \<Rightarrow> string option) option \<Rightarrow> 's vmm \<Rightarrow> meta \<Rightarrow> 's vmm \<times> task_effect option" where
  "Vmm_Apply lib ops cryptor v m =
     (case getInstance v (meta_Pid m) of
        Inl _ \<Rightarrow> (v, None)
      | Inr inst \<Rightarrow>
          (let a = inst_vm inst;
               ((obj', env'), eff) = Vmm_apply (obj_apply lib ops) cryptor (v_objs v ! a, inst_env inst) m;
               v1 = v\<lparr>v_objs := (v_objs v)[a := obj'],
                      v_vms := mput (meta_Pid m) (inst\<lparr>inst_env := env'\<rparr>) (v_vms v)\<rparr>
           in ((if te_unlock eff then RecoveryUnlock v1 (meta_Pid m) else v1), Some eff)))"

record snapshot =
  snap_Env :: env
  snap_Data :: string

definition Vmm_Checkpoint :: "snap_codec \<Rightarrow> 's vm_ops \<Rightarrow> 's vmm \<Rightarrow> string \<Rightarrow> sys_err + snapshot" where
  "Vmm_Checkpoint cd ops v pid =
     (case getInstance v pid of
        Inl e \<Rightarrow> Inl e
      | Inr inst \<Rightarrow>
          (case obj_checkpoint cd ops (v_objs v ! inst_vm inst) of
             Inl e \<Rightarrow> Inl e
           | Inr data \<Rightarrow> Inr \<lparr>snap_Env = inst_env inst, snap_Data = data\<rparr>))"

text \<open>A failed initialisation drops the pointers of the manager to the new machine.\<close>

definition forget_obj :: "'s vmm \<Rightarrow> nat \<Rightarrow> 's vmm" where
  "forget_obj v a =
     v\<lparr>v_registry := (if v_registry v = Some a then None else v_registry v),
       v_token := (if v_token v = Some a then None else v_token v)\<rparr>"

definition Vmm_Restore ::
  "extlib \<Rightarrow> snap_codec \<Rightarrow> 's vm_ops \<Rightarrow> 's vmm \<Rightarrow> snapshot \<Rightarrow> 's vmm \<times> sys_err option" where
  "Vmm_Restore lib cd ops v snap =
     (let env = snap_Env snap; pid = meta_Pid (env_Meta env) in
      if v_closed v then (v, Some ErrVmmClosed)
      else case mget (v_vms v) pid of
        Some inst \<Rightarrow>
          (case obj_restore cd ops (v_objs v ! inst_vm inst) (snap_Data snap) of
             Inl e \<Rightarrow> (v, Some e)
           | Inr obj \<Rightarrow>
               (v\<lparr>v_objs := (v_objs v)[inst_vm inst := obj],
                  v_vms := mput pid (inst\<lparr>inst_env := env\<rparr>) (v_vms v)\<rparr>, None))
      | None \<Rightarrow>
          (case Vmm_spawn lib v env of
             (v1, Inl e) \<Rightarrow> (v1, Some e)
           | (v1, Inr a) \<Rightarrow>
               (case obj_restore cd ops (v_objs v1 ! a) (snap_Data snap) of
                  Inl e \<Rightarrow> (forget_obj v1 a, Some e)
                | Inr obj \<Rightarrow> (install_instance (v1\<lparr>v_objs := (v_objs v1)[a := obj]\<rparr>) pid a env, None))))"

definition obj_close :: "'s vm_ops \<Rightarrow> 's vm_obj \<Rightarrow> sys_err option" where
  "obj_close ops obj = (case obj of ObjMounted s \<Rightarrow> ops_Close ops s | _ \<Rightarrow> None)"

definition Vmm_Kill :: "'s vm_ops \<Rightarrow> 's vmm \<Rightarrow> string \<Rightarrow> 's vmm \<times> sys_err option" where
  "Vmm_Kill ops v pid =
     (case getInstance v pid of
        Inl e \<Rightarrow> (v, Some e)
      | Inr inst \<Rightarrow> (v\<lparr>v_vms := mdel pid (v_vms v)\<rparr>, obj_close ops (v_objs v ! inst_vm inst)))"

definition Vmm_KillAll :: "'s vmm \<Rightarrow> 's vmm" where
  "Vmm_KillAll v = v\<lparr>v_vms := []\<rparr>"

definition Vmm_Close :: "'s vmm \<Rightarrow> 's vmm" where
  "Vmm_Close v = v\<lparr>v_closed := True, v_vms := []\<rparr>"

end
