(* ===== verification/VmmManage.thy ===== *)
theory VmmManage
  imports Vmm
begin

text \<open>
  Histories of the machine manager: which objects its pointers can reach, the single registry and
  the single token, what a spawn does, and the supply of the token it creates.
\<close>

subsection \<open>Operations and histories\<close>

datatype 's vmm_op =
    VMount string "'s vm_factory"
  | VSpawn meta process module
  | VApply meta
  | VRestore snapshot
  | VKill string
  | VKillAll
  | VClose
  | VLock string

record 's vmm_world =
  w_lib :: extlib
  w_codec :: snap_codec
  w_ops :: "'s vm_ops"
  w_cryptor :: "(string \<Rightarrow> string option) option"

fun vmm_step :: "'s vmm_world \<Rightarrow> 's vmm \<Rightarrow> 's vmm_op \<Rightarrow> 's vmm" where
  "vmm_step w v (VMount fmt f) = fst (Mount v fmt f)"
| "vmm_step w v (VSpawn m p md) = (case Vmm_Spawn (w_lib w) v m p md of None \<Rightarrow> v | Some (v', _) \<Rightarrow> v')"
| "vmm_step w v (VApply m) = fst (Vmm_Apply (w_lib w) (w_ops w) (w_cryptor w) v m)"
| "vmm_step w v (VRestore snap) = fst (Vmm_Restore (w_lib w) (w_codec w) (w_ops w) v snap)"
| "vmm_step w v (VKill pid) = fst (Vmm_Kill (w_ops w) v pid)"
| "vmm_step w v VKillAll = Vmm_KillAll v"
| "vmm_step w v VClose = Vmm_Close v"
| "vmm_step w v (VLock pid) = RecoveryLock v pid"

definition vmm_run :: "'s vmm_world \<Rightarrow> 's vmm \<Rightarrow> 's vmm_op list \<Rightarrow> 's vmm" where
  "vmm_run w = foldl (vmm_step w)"

fun is_registry :: "'s vm_obj \<Rightarrow> bool" where
  "is_registry (ObjRegistry _) = True"
| "is_registry _ = False"

fun is_token :: "'s vm_obj \<Rightarrow> bool" where
  "is_token (ObjToken _) = True"
| "is_token _ = False"

lemma obj_kind:
  "is_registry (fst (obj_apply lib ops ob f m)) = is_registry ob"
  "is_token (fst (obj_apply lib ops ob f m)) = is_token ob"
  "obj_restore cd ops ob d = Inr ob' \<Longrightarrow> is_registry ob' = is_registry ob"
  "obj_restore cd ops ob d = Inr ob' \<Longrightarrow> is_token ob' = is_token ob"
  by (auto simp: obj_apply_def obj_restore_def split: vm_obj.splits prod.splits option.splits sum.splits)

subsection \<open>The invariant\<close>

definition vmm_wf :: "'s vmm \<Rightarrow> bool" where
  "vmm_wf v \<longleftrightarrow> mwf (v_vms v) \<and>
     (\<forall>a. v_registry v = Some a \<longrightarrow> a < length (v_objs v) \<and> is_registry (v_objs v ! a)) \<and>
     (\<forall>a. v_token v = Some a \<longrightarrow> a < length (v_objs v) \<and> is_token (v_objs v ! a)) \<and>
     (\<forall>pid i. mget (v_vms v) pid = Some i \<longrightarrow> inst_vm i < length (v_objs v) \<and>
        (is_registry (v_objs v ! inst_vm i) \<longrightarrow> v_registry v = Some (inst_vm i)) \<and>
        (is_token (v_objs v ! inst_vm i) \<longrightarrow> v_token v = Some (inst_vm i))) \<and>
     (\<forall>pid i pid' i'. mget (v_vms v) pid = Some i \<and> mget (v_vms v) pid' = Some i' \<and>
        inst_vm i = inst_vm i' \<longrightarrow> pid = pid')"

lemma vmm_wf_D:
  assumes "vmm_wf v"
  shows "mwf (v_vms v)"
    and "v_registry v = Some a \<Longrightarrow> a < length (v_objs v)"
    and "v_registry v = Some a \<Longrightarrow> is_registry (v_objs v ! a)"
    and "v_token v = Some a \<Longrightarrow> a < length (v_objs v)"
    and "v_token v = Some a \<Longrightarrow> is_token (v_objs v ! a)"
    and "mget (v_vms v) pid = Some i \<Longrightarrow> inst_vm i < length (v_objs v)"
    and "mget (v_vms v) pid = Some i \<Longrightarrow> is_registry (v_objs v ! inst_vm i) \<Longrightarrow> v_registry v = Some (inst_vm i)"
    and "mget (v_vms v) pid = Some i \<Longrightarrow> is_token (v_objs v ! inst_vm i) \<Longrightarrow> v_token v = Some (inst_vm i)"
    and "mget (v_vms v) pid = Some i \<Longrightarrow> mget (v_vms v) pid' = Some i' \<Longrightarrow> inst_vm i = inst_vm i' \<Longrightarrow> pid = pid'"
  using assms unfolding vmm_wf_def by blast+

lemma vmm_wf_I:
  assumes "mwf (v_vms v)"
    and "\<And>a. v_registry v = Some a \<Longrightarrow> a < length (v_objs v) \<and> is_registry (v_objs v ! a)"
    and "\<And>a. v_token v = Some a \<Longrightarrow> a < length (v_objs v) \<and> is_token (v_objs v ! a)"
    and "\<And>pid i. mget (v_vms v) pid = Some i \<Longrightarrow> inst_vm i < length (v_objs v)"
    and "\<And>pid i. mget (v_vms v) pid = Some i \<Longrightarrow> is_registry (v_objs v ! inst_vm i) \<Longrightarrow> v_registry v = Some (inst_vm i)"
    and "\<And>pid i. mget (v_vms v) pid = Some i \<Longrightarrow> is_token (v_objs v ! inst_vm i) \<Longrightarrow> v_token v = Some (inst_vm i)"
    and "\<And>pid i pid' i'. mget (v_vms v) pid = Some i \<Longrightarrow> mget (v_vms v) pid' = Some i' \<Longrightarrow>
      inst_vm i = inst_vm i' \<Longrightarrow> pid = pid'"
  shows "vmm_wf v"
  using assms unfolding vmm_wf_def by blast

lemma vmm_wf_New: "vmm_wf (Vmm_New role join)"
  by (simp add: vmm_wf_def Vmm_New_def)

text \<open>Changes that keep every object's kind, every pointer and every address.\<close>

lemma vmm_wf_shrink:
  assumes wf: "vmm_wf v" and same: "v_objs v' = v_objs v" "v_registry v' = v_registry v" "v_token v' = v_token v"
    and vms: "mwf (v_vms v')" "\<And>p i. mget (v_vms v') p = Some i \<Longrightarrow> mget (v_vms v) p = Some i"
  shows "vmm_wf v'"
  using vms(1) by (intro vmm_wf_I) (auto simp: same dest!: vms(2) dest: vmm_wf_D(2-8) [OF wf] vmm_wf_D(9) [OF wf])

lemma vmm_wf_update:
  assumes wf: "vmm_wf v" and i: "mget (v_vms v) pid = Some inst"
    and k: "is_registry ob = is_registry (v_objs v ! inst_vm inst)"
      "is_token ob = is_token (v_objs v ! inst_vm inst)"
  shows "vmm_wf (v\<lparr>v_objs := (v_objs v)[inst_vm inst := ob],
     v_vms := mput pid (inst\<lparr>inst_env := e\<rparr>) (v_vms v)\<rparr>)"
proof -
  note D = vmm_wf_D [OF wf]
  have len: "inst_vm inst < length (v_objs v)" using D(6) [OF i] .
  have kind: "is_registry ((v_objs v)[inst_vm inst := ob] ! a) = is_registry (v_objs v ! a)"
    "is_token ((v_objs v)[inst_vm inst := ob] ! a) = is_token (v_objs v ! a)" for a
    using k len by (cases "a = inst_vm inst"; simp)+
  let ?v = "v\<lparr>v_objs := (v_objs v)[inst_vm inst := ob],
     v_vms := mput pid (inst\<lparr>inst_env := e\<rparr>) (v_vms v)\<rparr>"
  have vms: "\<exists>i'. mget (v_vms v) p = Some i' \<and> inst_vm i' = inst_vm x" if "mget (v_vms ?v) p = Some x" for p x
    using that i by (auto split: if_splits)
  show ?thesis
  proof (rule vmm_wf_I)
    show "mwf (v_vms ?v)" using D(1) by simp
    fix a
    show "v_registry ?v = Some a \<Longrightarrow> a < length (v_objs ?v) \<and> is_registry (v_objs ?v ! a)"
      "v_token ?v = Some a \<Longrightarrow> a < length (v_objs ?v) \<and> is_token (v_objs ?v ! a)"
      using D(2-5) by (simp_all add: kind)
  next
    fix p x assume x: "mget (v_vms ?v) p = Some x"
    from vms [OF this] obtain i' where i': "mget (v_vms v) p = Some i'" "inst_vm i' = inst_vm x" by blast
    show "inst_vm x < length (v_objs ?v)" using D(6) [OF i'(1)] i'(2) by simp
    show "is_registry (v_objs ?v ! inst_vm x) \<Longrightarrow> v_registry ?v = Some (inst_vm x)"
      using D(7) [OF i'(1)] i'(2) by (simp add: kind)
    show "is_token (v_objs ?v ! inst_vm x) \<Longrightarrow> v_token ?v = Some (inst_vm x)"
      using D(8) [OF i'(1)] i'(2) by (simp add: kind)
    fix p' x' assume "mget (v_vms ?v) p' = Some x'" and eq: "inst_vm x = inst_vm x'"
    from vms [OF this(1)] obtain i2 where "mget (v_vms v) p' = Some i2" "inst_vm i2 = inst_vm x'" by blast
    with D(9) [OF i'(1)] i'(2) eq show "p = p'" by simp
  qed
qed

lemma Vmm_spawn_cases:
  obtains (error) e where "Vmm_spawn lib v env = (v, Inl e)"
  | (ok) ob v1 where "Vmm_spawn lib v env = (v1, Inr (length (v_objs v)))" "v_objs v1 = v_objs v @ [ob]"
      "v_vms v1 = v_vms v" "v_closed v1 = v_closed v" "v_factors v1 = v_factors v"
      "v_recoveryLock v1 = v_recoveryLock v" "v_registrySpawned v1 = v_registrySpawned v"
      "v_registry v1 = (if is_registry ob then Some (length (v_objs v)) else v_registry v)"
      "v_token v1 = (if is_token ob then Some (length (v_objs v)) else v_token v)"
      "is_registry ob \<Longrightarrow> v_registry v = None" "is_token ob \<Longrightarrow> v_token v = None \<and> ob = ObjToken (genesis_token env)"
proof -
  consider (none) "mget (v_factors v) (mod_ModuleFormat (env_Module env)) = None"
    | (tok) "mget (v_factors v) (mod_ModuleFormat (env_Module env)) = Some FactoryToken"
    | (reg) "mget (v_factors v) (mod_ModuleFormat (env_Module env)) = Some FactoryRegistry"
    | (mounted) f where "mget (v_factors v) (mod_ModuleFormat (env_Module env)) = Some (FactoryMounted f)"
    by (metis option.exhaust vm_factory.exhaust)
  then show thesis
  proof cases
    case none
    then show thesis by (intro error) (simp add: Vmm_spawn_def)
  next
    case tok
    then show thesis
      using error ok [of _ "ObjToken (genesis_token env)"]
      by (cases "v_token v") (auto simp: Vmm_spawn_def spawnToken_def)
  next
    case reg
    show thesis
    proof (cases "v_registry v")
      case (Some x)
      with reg show thesis by (intro error [of ErrRegistryAlreadyCreated]) (simp add: Vmm_spawn_def spawnRegistry_def)
    next
      case none: None
      show thesis
      proof (cases "mget (meta_Params (env_Meta env)) ''Token-Pid''")
        case None
        with reg none show thesis by (intro error [of ErrVmmMissingParam]) (simp add: Vmm_spawn_def spawnRegistry_def)
      next
        case (Some t)
        with reg none ok [of _ "ObjRegistry (init_registry lib env t)"] show thesis
          by (auto simp: Vmm_spawn_def spawnRegistry_def Let_def)
      qed
    qed
  next
    case mounted
    show thesis
    proof (cases "f env")
      case (Inl e)
      with mounted error show thesis by (simp add: Vmm_spawn_def)
    next
      case (Inr s)
      with mounted ok [of _ "ObjMounted s"] show thesis by (simp add: Vmm_spawn_def)
    qed
  qed
qed

lemma vmm_wf_install:
  assumes wf: "vmm_wf v" and new: "mget (v_vms v) pid = None"
    and s: "Vmm_spawn lib v env = (v1, Inr a)"
    and k: "is_registry ob = is_registry (v_objs v1 ! a)" "is_token ob = is_token (v_objs v1 ! a)"
    and v2: "v_objs v2 = (v_objs v1)[a := ob]" "v_vms v2 = v_vms v1" "v_registry v2 = v_registry v1"
      "v_token v2 = v_token v1"
  shows "vmm_wf (install_instance v2 pid a e)"
proof (cases rule: Vmm_spawn_cases [of lib v env])
  case (error e)
  with s show ?thesis by simp
next
  case (ok ob0 u)
  with s have u: "u = v1" and a: "a = length (v_objs v)" by auto
  note o = ok(2-) [unfolded u]
  note D = vmm_wf_D [OF wf]
  let ?n = "length (v_objs v)" and ?v = "install_instance v2 pid a e"
  have objs: "v_objs ?v = v_objs v @ [ob]" by (simp add: install_instance_def v2 o a)
  have obk: "is_registry ob = is_registry ob0" "is_token ob = is_token ob0"
    using k by (simp_all add: o a)
  have vms: "v_vms ?v = mput pid \<lparr>inst_vm = ?n, inst_env = e\<rparr> (v_vms v)"
    by (simp add: install_instance_def v2 o a)
  have core: "v_registry ?v = (if is_registry ob then Some ?n else v_registry v)"
    "v_token ?v = (if is_token ob then Some ?n else v_token v)"
    by (simp_all add: install_instance_def v2 o a obk)
  show ?thesis
  proof (rule vmm_wf_I)
    show "mwf (v_vms ?v)" using D(1) by (simp add: vms)
    fix x
    show "v_registry ?v = Some x \<Longrightarrow> x < length (v_objs ?v) \<and> is_registry (v_objs ?v ! x)"
      using D(2,3) [of x] by (auto simp: core objs nth_append split: if_splits)
    show "v_token ?v = Some x \<Longrightarrow> x < length (v_objs ?v) \<and> is_token (v_objs ?v ! x)"
      using D(4,5) [of x] by (auto simp: core objs nth_append split: if_splits)
  next
    fix p x assume x: "mget (v_vms ?v) p = Some x"
    then have px: "p = pid \<and> inst_vm x = ?n \<or> p \<noteq> pid \<and> mget (v_vms v) p = Some x \<and> inst_vm x < ?n"
      using D(6) by (auto simp: vms split: if_splits)
    then show "inst_vm x < length (v_objs ?v)" by (auto simp: objs)
    show "is_registry (v_objs ?v ! inst_vm x) \<Longrightarrow> v_registry ?v = Some (inst_vm x)"
      using px D(7) [of p x] o(9) by (auto simp: objs core nth_append obk)
    show "is_token (v_objs ?v ! inst_vm x) \<Longrightarrow> v_token ?v = Some (inst_vm x)"
      using px D(8) [of p x] o(10) by (auto simp: objs core nth_append obk)
    fix p' x' assume "mget (v_vms ?v) p' = Some x'" and eq: "inst_vm x = inst_vm x'"
    then have "p' = pid \<and> inst_vm x' = ?n \<or> p' \<noteq> pid \<and> mget (v_vms v) p' = Some x' \<and> inst_vm x' < ?n"
      using D(6) by (auto simp: vms split: if_splits)
    with px eq D(9) [of p x p' x'] show "p = p'" by auto
  qed
qed

lemma vmm_wf_mono:
  assumes "vmm_wf v" "v_vms v1 = v_vms v" "v_objs v1 = v_objs v @ xs"
    "v_registry v1 = v_registry v" "v_token v1 = v_token v"
  shows "vmm_wf v1"
proof -
  note D = vmm_wf_D [OF assms(1)]
  have nth: "x < length (v_objs v) \<Longrightarrow> v_objs v1 ! x = v_objs v ! x" for x
    by (simp add: assms(3) nth_append)
  show ?thesis
  proof (rule vmm_wf_I)
    show "mwf (v_vms v1)" using D(1) assms(2) by simp
    fix a
    show "v_registry v1 = Some a \<Longrightarrow> a < length (v_objs v1) \<and> is_registry (v_objs v1 ! a)"
      using D(2,3) [of a] nth assms(3,4) by auto
    show "v_token v1 = Some a \<Longrightarrow> a < length (v_objs v1) \<and> is_token (v_objs v1 ! a)"
      using D(4,5) [of a] nth assms(3,5) by auto
  next
    fix p x assume x: "mget (v_vms v1) p = Some x"
    then have x': "mget (v_vms v) p = Some x" using assms(2) by simp
    show "inst_vm x < length (v_objs v1)" using D(6) [OF x'] assms(3) by simp
    show "is_registry (v_objs v1 ! inst_vm x) \<Longrightarrow> v_registry v1 = Some (inst_vm x)"
      "is_token (v_objs v1 ! inst_vm x) \<Longrightarrow> v_token v1 = Some (inst_vm x)"
      using D(6-8) [OF x'] nth assms(4,5) by auto
    fix p' y assume "mget (v_vms v1) p' = Some y" "inst_vm x = inst_vm y"
    then show "p = p'" using D(9) [OF x'] assms(2) by simp
  qed
qed

lemma Vmm_Spawn_cases:
  assumes "Vmm_Spawn lib v m p md = Some (v', err, rs, out)"
  shows "(err \<noteq> None \<and> v' = v \<and> rs = [] \<and> out = []) \<or>
    (\<exists>v1 a env' res. err = None \<and> \<not> v_closed v \<and> mget (v_vms v) (meta_Pid m) = None \<and>
       Vmm_spawn lib v \<lparr>env_Meta = m, env_Process = p, env_Module = md, env_Nonce = 0,
         env_Sequence = - 1, env_ReceivedSeq = []\<rparr> = (v1, Inr a) \<and> rs = [res] \<and>
       Vmm_outbox \<lparr>env_Meta = m, env_Process = p, env_Module = md, env_Nonce = 0,
         env_Sequence = - 1, env_ReceivedSeq = []\<rparr>
         (genSpawnResult (Vmm_RegistryId v1) \<lparr>env_Meta = m, env_Process = p, env_Module = md,
            env_Nonce = 0, env_Sequence = - 1, env_ReceivedSeq = []\<rparr>) = (env', res, out) \<and>
       (v' = install_instance v1 (meta_Pid m) a env' \<or>
        v' = install_instance (RecoveryUnlock v1 (meta_Pid m)) (meta_Pid m) a env'))"
proof -
  let ?env = "\<lparr>env_Meta = m, env_Process = p, env_Module = md, env_Nonce = 0,
         env_Sequence = - 1, env_ReceivedSeq = []\<rparr>"
  show ?thesis
  proof (cases "Vmm_spawn lib v ?env")
    case (Pair v1 r)
    then show ?thesis
      using assms
      by (cases rule: Vmm_spawn_cases [of lib v ?env]; cases r)
         (auto simp: Vmm_Spawn_def Let_def Vmm_IsExists_def split: if_splits prod.splits)
  qed
qed

lemma vmm_step_wf:
  assumes wf: "vmm_wf v" shows "vmm_wf (vmm_step w v op)"
proof (cases op)
  case (VMount fmt f)
  show ?thesis
    by (rule vmm_wf_shrink [OF wf])
       (auto simp: VMount Mount_def vmm_wf_D(1) [OF wf] split: option.splits)
next
  case (VSpawn m p md)
  show ?thesis
  proof (cases "Vmm_Spawn (w_lib w) v m p md")
    case None
    with VSpawn wf show ?thesis by simp
  next
    case (Some q)
    obtain v' err rs out where q: "q = (v', err, rs, out)" by (metis prod_cases4)
    from Vmm_Spawn_cases [OF Some [unfolded q]] show ?thesis
    proof (elim disjE exE conjE)
      assume "v' = v" with VSpawn Some q wf show ?thesis by simp
    next
      fix v1 a env' res
      assume new: "mget (v_vms v) (meta_Pid m) = None" and
        s: "Vmm_spawn (w_lib w) v \<lparr>env_Meta = m, env_Process = p, env_Module = md, env_Nonce = 0,
         env_Sequence = - 1, env_ReceivedSeq = []\<rparr> = (v1, Inr a)"
      have id: "(v_objs v1)[a := v_objs v1 ! a] = v_objs v1" by simp
      assume "v' = install_instance v1 (meta_Pid m) a env'"
      with vmm_wf_install [OF wf new s refl refl id [symmetric] refl refl refl] VSpawn Some q
      show ?thesis by simp
    next
      fix v1 a env' res
      assume new: "mget (v_vms v) (meta_Pid m) = None" and
        s: "Vmm_spawn (w_lib w) v \<lparr>env_Meta = m, env_Process = p, env_Module = md, env_Nonce = 0,
         env_Sequence = - 1, env_ReceivedSeq = []\<rparr> = (v1, Inr a)"
      assume v': "v' = install_instance (RecoveryUnlock v1 (meta_Pid m)) (meta_Pid m) a env'"
      have "vmm_wf (install_instance (RecoveryUnlock v1 (meta_Pid m)) (meta_Pid m) a env')"
        by (rule vmm_wf_install [OF wf new s, of "v_objs v1 ! a"]) (simp_all add: RecoveryUnlock_def)
      with v' VSpawn Some q show ?thesis by simp
    qed
  qed
next
  case (VApply m)
  show ?thesis
  proof (cases "getInstance v (meta_Pid m)")
    case (Inl e)
    with VApply wf show ?thesis by (simp add: Vmm_Apply_def)
  next
    case (Inr inst)
    then have i: "mget (v_vms v) (meta_Pid m) = Some inst" by (auto simp: getInstance_def split: option.splits if_splits)
    obtain obj' env' eff where r: "Vmm_apply (obj_apply (w_lib w) (w_ops w)) (w_cryptor w)
        (v_objs v ! inst_vm inst, inst_env inst) m = ((obj', env'), eff)" by (metis prod.collapse)
    have "is_registry obj' = is_registry (v_objs v ! inst_vm inst)" "is_token obj' = is_token (v_objs v ! inst_vm inst)"
      using r obj_kind(1,2) [of "w_lib w" "w_ops w" "v_objs v ! inst_vm inst"]
      by (auto simp: Vmm_apply_def Let_def split: prod.splits sum.splits) (metis fst_conv)+
    from vmm_wf_update [OF wf i this] have up: "vmm_wf (v\<lparr>v_objs := (v_objs v)[inst_vm inst := obj'],
        v_vms := mput (meta_Pid m) (inst\<lparr>inst_env := env'\<rparr>) (v_vms v)\<rparr>)" .
    have "vmm_wf (RecoveryUnlock u p)" if "vmm_wf u" for u :: "'a vmm" and p
      by (rule vmm_wf_shrink [OF that]) (auto simp: RecoveryUnlock_def vmm_wf_D(1) [OF that])
    with up VApply Inr r show ?thesis by (simp add: Vmm_Apply_def Let_def)
  qed
next
  case (VRestore snap)
  let ?pid = "meta_Pid (env_Meta (snap_Env snap))"
  show ?thesis
  proof (cases "v_closed v")
    case True
    with VRestore wf show ?thesis by (simp add: Vmm_Restore_def)
  next
    case open': False
    show ?thesis
    proof (cases "mget (v_vms v) ?pid")
      case (Some inst)
      show ?thesis
      proof (cases "obj_restore (w_codec w) (w_ops w) (v_objs v ! inst_vm inst) (snap_Data snap)")
        case (Inr ob)
        from vmm_wf_update [OF wf Some obj_kind(3,4) [OF Inr]] show ?thesis
          using VRestore Some Inr open' by (simp add: Vmm_Restore_def Let_def)
      qed (use VRestore Some open' wf in \<open>simp add: Vmm_Restore_def Let_def\<close>)
    next
      case None
      show ?thesis
      proof (cases "Vmm_spawn (w_lib w) v (snap_Env snap)")
        case (Pair v1 r)
        show ?thesis
        proof (cases r)
          case (Inl e)
          with Pair have "v1 = v" by (cases rule: Vmm_spawn_cases [of "w_lib w" v "snap_Env snap"]) auto
          with Inl Pair VRestore None open' wf show ?thesis by (simp add: Vmm_Restore_def Let_def)
        next
          case (Inr a)
          note s = Pair [unfolded Inr]
          show ?thesis
          proof (cases "obj_restore (w_codec w) (w_ops w) (v_objs v1 ! a) (snap_Data snap)")
            case (Inl e)
            have "vmm_wf (forget_obj v1 a)"
            proof (cases rule: Vmm_spawn_cases [of "w_lib w" v "snap_Env snap"])
              case (ok ob u)
              with s have u: "u = v1" and a: "a = length (v_objs v)" by auto
              have old: "v_registry v \<noteq> Some a" "v_token v \<noteq> Some a"
                using vmm_wf_D(2,4) [OF wf, of a] by (auto simp: a)
              show ?thesis
                using ok(2-) old unfolding u
                by (intro vmm_wf_mono [OF wf, of _ "[ob]"]) (auto simp: forget_obj_def a)
            qed (use s in simp)
            with Inl VRestore None open' s show ?thesis by (simp add: Vmm_Restore_def Let_def)
          next
            case (Inr ob)
            from vmm_wf_install [OF wf None s obj_kind(3,4) [OF Inr], of "v1\<lparr>v_objs := (v_objs v1)[a := ob]\<rparr>"]
            show ?thesis using Inr VRestore None open' s by (simp add: Vmm_Restore_def Let_def)
          qed
        qed
      qed
    qed
  qed
next
  case (VKill pid)
  show ?thesis
    by (rule vmm_wf_shrink [OF wf])
       (auto simp: VKill Vmm_Kill_def vmm_wf_D(1) [OF wf] split: sum.splits if_splits)
next
  case VKillAll
  show ?thesis by (rule vmm_wf_shrink [OF wf]) (auto simp: VKillAll Vmm_KillAll_def)
next
  case VClose
  show ?thesis by (rule vmm_wf_shrink [OF wf]) (auto simp: VClose Vmm_Close_def)
next
  case (VLock pid)
  show ?thesis
    by (rule vmm_wf_shrink [OF wf]) (auto simp: VLock RecoveryLock_def vmm_wf_D(1) [OF wf])
qed

lemma vmm_run_wf: "vmm_wf v \<Longrightarrow> vmm_wf (vmm_run w v ops)"
  unfolding vmm_run_def by (induction ops arbitrary: v) (auto intro: vmm_step_wf)

end
