(* ===== verification/VmmLife.thy ===== *)
theory VmmLife
  imports VmmManage
begin

text \<open>
  Properties of the histories of the machine manager: there is one registry and one token, a spawn
  creates exactly one machine and announces it, and the genesis token keeps its supply.
\<close>

subsection \<open>Core machines\<close>

definition kind_pids :: "('s vm_obj \<Rightarrow> bool) \<Rightarrow> 's vmm \<Rightarrow> string set" where
  "kind_pids K v = {p. \<exists>i. mget (v_vms v) p = Some i \<and> K (v_objs v ! inst_vm i)}"

text \<open>C37: one registry and one token. Whatever is mounted, spawned, applied, restored, killed, closed
  or locked, in any order, at most one running process is a registry and at most one is a token, and
  it is the one the manager's own queries (\<open>GetNodes\<close>, \<open>BalanceOf\<close>, ...) answer from.\<close>

theorem Vmm_core_unique:
  "let v = vmm_run w (Vmm_New role join) ops in
     (\<exists>p. kind_pids is_registry v \<subseteq> {p}) \<and> (\<exists>p. kind_pids is_token v \<subseteq> {p}) \<and>
     {Some (inst_vm i) | i p. mget (v_vms v) p = Some i \<and> is_registry (v_objs v ! inst_vm i)} \<subseteq> {v_registry v} \<and>
     {Some (inst_vm i) | i p. mget (v_vms v) p = Some i \<and> is_token (v_objs v ! inst_vm i)} \<subseteq> {v_token v}"
proof -
  define v where "v = vmm_run w (Vmm_New role join) ops"
  have "vmm_wf v" unfolding v_def by (rule vmm_run_wf [OF vmm_wf_New])
  note D = vmm_wf_D [OF this]
  have sub: "\<exists>p. A \<subseteq> {p}" if "\<And>x y. x \<in> A \<Longrightarrow> y \<in> A \<Longrightarrow> x = y" for A :: "string set"
    using that by (cases "A = {}") blast+
  have "\<exists>p. kind_pids is_registry v \<subseteq> {p}"
    using D(7) D(9) by (intro sub) (unfold kind_pids_def, clarsimp, metis option.inject)
  moreover have "\<exists>p. kind_pids is_token v \<subseteq> {p}"
    using D(8) D(9) by (intro sub) (unfold kind_pids_def, clarsimp, metis option.inject)
  ultimately show ?thesis
    using D(7,8) by (auto simp: Let_def v_def [symmetric])
qed

subsection \<open>The genesis registry\<close>

lemma RegisterProcess_apply:
  assumes "reg_inv r"
  shows "fst (Registry_Apply lib r p (register_process_meta p a)) =
     (if Registry_GetNode r a = None then r else fst (Registry_RegisterProcess r a p))"
proof -
  have "fst (case q of (r', Some e) \<Rightarrow> (r', Inl (e :: vm_err)) | (r', None) \<Rightarrow> (r', Inr d)) = fst q"
    for q :: "registry \<times> vm_err option" and d :: vm_result
    by (cases q; cases "snd q") auto
  then show ?thesis
    by (auto simp: Registry_Apply_def Registry_dispatch_def register_process_meta_def Let_def
        handleRegisterProcess_def authProc_def zero_meta_def case_prod_beta split: option.split)
qed

lemma reg_id_RegisterProcess [simp]: "reg_id (fst (Registry_RegisterProcess r a p)) = reg_id r"
  by (auto simp: Registry_RegisterProcess_def split: option.splits)

lemma register_step:
  assumes inv: "reg_inv r" and r': "fst (Registry_Apply lib r p (register_process_meta p a)) = r'"
  shows "reg_inv r'" and "reg_id r' = reg_id r" and "Registry_GetNode r' = Registry_GetNode r"
    and "reg_served r' b q \<longleftrightarrow> reg_served r b q \<or> (Registry_GetNode r a \<noteq> None \<and> b = a \<and> q = p)"
proof -
  note step = RegisterProcess_apply [OF inv, of lib p a, unfolded r']
  have wf: "reg_wf r" using inv by (simp add: reg_inv_def)
  show "reg_inv r'" using step inv by (auto intro: inv_intros)
  show "reg_id r' = reg_id r" "Registry_GetNode r' = Registry_GetNode r"
    using step by (simp_all add: process_ops_GetNode)
  show "reg_served r' b q \<longleftrightarrow> reg_served r b q \<or> (Registry_GetNode r a \<noteq> None \<and> b = a \<and> q = p)"
    using step process_index.bwd_link [OF wf, of a p b q]
    by (cases "Registry_GetNode r a") (auto simp: reg_known_def GetNode_Some_iff)
qed

text \<open>the bootstrap of the registry. A new registry has the main node and nothing else. Its own
  process and the token's are attached to that node when the spawning message carried a URL (or its
  sender is the built-in genesis account); without a URL the main node is the built-in one, and the
  two processes are served by no node at all.\<close>

theorem init_registry_bootstrap:
  "let m = env_Meta env; nd = genMainNode (meta_AccId m) (meta_Params m); r = init_registry lib env tokenPid in
     reg_id r = meta_ItemId m \<and>
     Registry_GetNode r = (\<lambda>k. if k = node_AccId nd then Some nd else None) \<and>
     (\<forall>p. set (Registry_GetNodesByProcess r p) =
        (if p \<in> {tokenPid, meta_ItemId m} \<and>
            (if mget_or [] (meta_Params m) ''URL'' = [] then meta_AccId m = GenesisAccId else True)
         then {nd} else {}))"
proof -
  define m where "m = env_Meta env"
  define nd where "nd = genMainNode (meta_AccId m) (meta_Params m)"
  define r0 where "r0 = NewRegistry (meta_ItemId m) tokenPid nd"
  define r1 where "r1 = fst (Registry_Apply lib r0 tokenPid (register_process_meta tokenPid (meta_AccId m)))"
  define r where "r = fst (Registry_Apply lib r1 (meta_ItemId m) (register_process_meta (meta_ItemId m) (meta_AccId m)))"
  have r: "init_registry lib env tokenPid = r"
    by (simp add: init_registry_def r_def r1_def r0_def nd_def m_def Let_def)
  have inv0: "reg_inv r0" unfolding r0_def by (rule NewRegistry_inv)
  have get0: "Registry_GetNode r0 = (\<lambda>k. if k = node_AccId nd then Some nd else None)"
    by (auto simp: r0_def NewRegistry_def Registry_GetNode_def)
  have srv0: "\<not> reg_served r0 b q" for b q by (simp add: r0_def NewRegistry_def reg_served_def)
  note s1 = register_step [OF inv0 r1_def [symmetric]]
  note s = register_step [OF s1(1) r_def [symmetric]]
  have acc: "node_AccId nd = meta_AccId m \<longleftrightarrow>
      (if mget_or [] (meta_Params m) ''URL'' = [] then meta_AccId m = GenesisAccId else True)"
    by (auto simp: nd_def genMainNode_def GenesisNode_def Let_def)
  have "reg_wf r" using s(1) by (simp add: reg_inv_def)
  then have "set (Registry_GetNodesByProcess r p) =
      (if p \<in> {tokenPid, meta_ItemId m} \<and> node_AccId nd = meta_AccId m then {nd} else {})" for p
    by (auto simp: GetNodesByProcess_served s s1 srv0 get0 split: if_splits)
  moreover have "reg_id r = meta_ItemId m" by (simp add: s s1 r0_def NewRegistry_def)
  moreover have "Registry_GetNode r = (\<lambda>k. if k = node_AccId nd then Some nd else None)"
    by (simp add: s s1 get0)
  ultimately show ?thesis
    unfolding Let_def r m_def [symmetric] unfolding nd_def [symmetric] by (simp add: acc)
qed

lemma init_registry_id: "reg_id (init_registry lib env tokenPid) = meta_ItemId (env_Meta env)"
  unfolding init_registry_def Let_def
  by (subst register_step(2) [OF register_step(1) [OF NewRegistry_inv refl] refl])
     (subst register_step(2) [OF NewRegistry_inv refl], simp add: NewRegistry_def)

subsection \<open>Spawning\<close>

text \<open>a spawn creates exactly one machine. When \<open>Spawn\<close> fails it changes nothing and produces no
  result. When it succeeds the process did not exist, one object is added, no other process and no
  existing object is touched, and the new environment starts at nonce 0 with nothing received.\<close>

theorem Vmm_Spawn_outcome:
  assumes "Vmm_Spawn lib v m p md = Some (v', err, rs, out)"
  shows "if err = None
    then mget (v_vms v) (meta_Pid m) = None \<and> \<not> v_closed v \<and> length rs = 1 \<and>
      (\<exists>inst ob. v_vms v' = mput (meta_Pid m) inst (v_vms v) \<and> v_objs v' = v_objs v @ [ob] \<and>
         inst_vm inst = length (v_objs v) \<and> env_Meta (inst_env inst) = m \<and>
         env_Process (inst_env inst) = p \<and> env_Module (inst_env inst) = md \<and>
         env_Nonce (inst_env inst) = 0 \<and> env_ReceivedSeq (inst_env inst) = [])
    else v' = v \<and> rs = [] \<and> out = []"
  using Vmm_Spawn_cases [OF assms]
proof (elim disjE exE conjE)
  fix v1 a env' res
  assume e: "err = None" and c: "\<not> v_closed v" and new: "mget (v_vms v) (meta_Pid m) = None"
    and s: "Vmm_spawn lib v \<lparr>env_Meta = m, env_Process = p, env_Module = md, env_Nonce = 0,
         env_Sequence = - 1, env_ReceivedSeq = []\<rparr> = (v1, Inr a)" and rs: "rs = [res]"
    and o: "Vmm_outbox \<lparr>env_Meta = m, env_Process = p, env_Module = md, env_Nonce = 0,
         env_Sequence = - 1, env_ReceivedSeq = []\<rparr>
         (genSpawnResult (Vmm_RegistryId v1) \<lparr>env_Meta = m, env_Process = p, env_Module = md,
            env_Nonce = 0, env_Sequence = - 1, env_ReceivedSeq = []\<rparr>) = (env', res, out)"
  from Vmm_outbox_spec [OF o] have env: "env_Meta env' = m" "env_Process env' = p" "env_Module env' = md"
    "env_Nonce env' = 0" "env_ReceivedSeq env' = []" by auto
  have sp: "a = length (v_objs v) \<and> v_vms v1 = v_vms v \<and> (\<exists>ob. v_objs v1 = v_objs v @ [ob])"
  proof (cases rule: Vmm_spawn_cases [of lib v "\<lparr>env_Meta = m, env_Process = p, env_Module = md, env_Nonce = 0,
         env_Sequence = - 1, env_ReceivedSeq = []\<rparr>"])
    case (ok ob u)
    with s show ?thesis by auto
  qed (use s in simp)
  { assume "v' = install_instance v1 (meta_Pid m) a env'"
    with sp env e c new rs show ?thesis by (auto simp: install_instance_def) }
  { assume "v' = install_instance (RecoveryUnlock v1 (meta_Pid m)) (meta_Pid m) a env'"
    with sp env e c new rs show ?thesis by (auto simp: install_instance_def RecoveryUnlock_def) }
qed simp

lemma genSpawnResult_announce:
  assumes o: "Vmm_outbox env (genSpawnResult rid env) = (env', res, out)" and rid: "rid \<noteq> []"
    and sq: "env_Sequence env = - 1"
  shows "if meta_Mode (env_Meta env) \<noteq> ExecModeApply then out = [] else
    (\<exists>ob rest. out = ob # rest \<and> ob_To ob = rid \<and> ob_From ob = meta_Pid (env_Meta env) \<and>
       map (\<lambda>k. GetTagsValue k (ob_Tags ob)) [''Action'', ''Pid'', ''Acc-Id'', ''From-Process'', ''Sequence''] =
         [''RegisterProcess'', meta_Pid (env_Meta env), proc_Scheduler (env_Process env),
          meta_Pid (env_Meta env), ''0''])"
proof (cases "meta_Mode (env_Meta env) = ExecModeApply")
  case False
  with Vmm_outbox_spec [OF o] show ?thesis by (auto simp: genSpawnResult_def Let_def)
next
  case True
  obtain rest where msgs: "vr_Messages (genSpawnResult rid env) =
      reply rid [] [Tag ''Action'' ''RegisterProcess'', Tag ''Pid'' (meta_Pid (env_Meta env)),
               Tag ''Acc-Id'' (proc_Scheduler (env_Process env))] # rest"
    and "from": "vr_FromProcess (genSpawnResult rid env) = meta_Pid (env_Meta env)"
    and mode: "vr_Mode (genSpawnResult rid env) = ExecModeApply"
    using rid True by (auto simp: genSpawnResult_def Let_def)
  obtain pf where pf: "vr_PushedFor (genSpawnResult rid env) = pf" by simp
  have dec: "\<exists>x. TagsToMessage [Tag ''Action'' ''RegisterProcess'', Tag ''Pid'' a, Tag ''Acc-Id'' b] = Inr x" for a b
  proof -
    have "CheckDuplicateTag [Tag ''Action'' ''RegisterProcess'', Tag ''Pid'' a, Tag ''Acc-Id'' b] = None"
      by (simp add: CheckDuplicateTag_def)
    then show ?thesis by (intro exI) (unfold TagsToMessage_def, erule ssubst, rule option.case(1))
  qed
  then obtain x where x: "TagsToMessage [Tag ''Action'' ''RegisterProcess'', Tag ''Pid'' (meta_Pid (env_Meta env)),
               Tag ''Acc-Id'' (proc_Scheduler (env_Process env))] = Inr x" by blast
  have fmt: "FormatInt (0 :: int64) = ''0''"
    by (simp add: FormatInt_def show_int_def show_nat.simps [of 0] digit_char_def char_of_def bit_0)
  show ?thesis
    using o True
    by (auto simp: Vmm_outbox_def msgs "from" mode pf sq reply_def x Let_def fmt outbox_message_tags_def
        zero_msg_def MessageToTags_def BaseToTags_def DefaultBase_def opt_tag_def split: prod.splits)
qed

definition demo_spawn_meta :: meta where
  "demo_spawn_meta = zero_meta\<lparr>meta_Pid := ''reg'', meta_ItemId := ''reg'', meta_AccId := ''0xa'',
     meta_Mode := ExecModeApply, meta_Params := [(''Token-Pid'', ''tok''), (''URL'', ''u'')]\<rparr>"

definition demo_registry_module :: module where
  "demo_registry_module = zero_module\<lparr>mod_ModuleFormat := ModuleFormatRegistry\<rparr>"

lemma demo_spawn:
  "\<exists>v' rs out. Vmm_Spawn lib (Vmm_New role join :: nat vmm) demo_spawn_meta p demo_registry_module =
     Some (v', None, rs, out) \<and> Vmm_RegistryId v' = ''reg''"
proof -
  let ?env = "\<lparr>env_Meta = demo_spawn_meta, env_Process = p, env_Module = demo_registry_module, env_Nonce = 0,
         env_Sequence = - 1, env_ReceivedSeq = []\<rparr>"
  let ?v1 = "(Vmm_New role join :: nat vmm)\<lparr>v_role := RoleMain, v_joinNetwork := True,
    v_objs := [ObjRegistry (init_registry lib ?env ''tok'')], v_registry := Some 0\<rparr>"
  have s: "Vmm_spawn lib (Vmm_New role join :: nat vmm) ?env = (?v1, Inr 0)"
    by (simp add: Vmm_spawn_def spawnRegistry_def Vmm_New_def demo_spawn_meta_def demo_registry_module_def
        zero_module_def zero_meta_def ModuleFormatRegistry_def ModuleFormatToken_def Let_def)
  have new: "\<not> Vmm_IsExists (Vmm_New role join :: nat vmm) x" "\<not> v_closed (Vmm_New role join :: nat vmm)" for x
    by (simp_all add: Vmm_IsExists_def Vmm_New_def)
  have i: "reg_id (init_registry lib ?env ''tok'') = ''reg''"
    using init_registry_id [of lib ?env "''tok''"] by (simp add: demo_spawn_meta_def)
  obtain env' res out where o: "Vmm_outbox ?env (genSpawnResult (Vmm_RegistryId ?v1) ?env) = (env', res, out)"
    by (metis prod_cases3)
  have fmt: "mod_ModuleFormat demo_registry_module = ModuleFormatRegistry" by (simp add: demo_registry_module_def)
  have mode: "meta_Mode demo_spawn_meta = ExecModeApply" by (simp add: demo_spawn_meta_def)
  have "Vmm_Spawn lib (Vmm_New role join :: nat vmm) demo_spawn_meta p demo_registry_module =
      Some (install_instance ?v1 (meta_Pid demo_spawn_meta) 0 env', None, [res], out)"
    by (simp only: Vmm_Spawn_def Let_def new fmt s prod.case sum.case o mode) simp
  moreover have "Vmm_RegistryId (install_instance ?v1 (meta_Pid demo_spawn_meta) 0 env') = ''reg''"
    by (simp add: Vmm_RegistryId_def registry_obj_def install_instance_def i)
  ultimately show ?thesis by blast
qed

theorem Vmm_Spawn_outcome_witness:
  "\<exists>v' rs out inst. Vmm_Spawn demo_lib (Vmm_New [] True :: nat vmm) demo_spawn_meta zero_process
      demo_registry_module = Some (v', None, rs, out) \<and> length rs = 1 \<and>
     mget (v_vms v') ''reg'' = Some inst \<and> env_Nonce (inst_env inst) = 0"
proof -
  obtain v' rs out where s: "Vmm_Spawn demo_lib (Vmm_New [] True :: nat vmm) demo_spawn_meta zero_process
      demo_registry_module = Some (v', None, rs, out)" using demo_spawn by blast
  have "meta_Pid demo_spawn_meta = ''reg''" by (simp add: demo_spawn_meta_def)
  with Vmm_Spawn_outcome [OF s] s show ?thesis by auto
qed

text \<open>a spawn announces the process. A successful spawn, outside recovery and with a registry in
  place, sends as its message number 0 to the registry a registration of the process under its
  scheduler, marked with the process it comes from; during recovery it sends nothing.\<close>

theorem Vmm_Spawn_announces:
  assumes "Vmm_Spawn lib v m p md = Some (v', None, rs, out)" and "Vmm_RegistryId v' \<noteq> []"
  shows "if meta_Mode m \<noteq> ExecModeApply then out = [] else
    (\<exists>ob rest. out = ob # rest \<and> ob_To ob = Vmm_RegistryId v' \<and> ob_From ob = meta_Pid m \<and>
       map (\<lambda>k. GetTagsValue k (ob_Tags ob)) [''Action'', ''Pid'', ''Acc-Id'', ''From-Process'', ''Sequence''] =
         [''RegisterProcess'', meta_Pid m, proc_Scheduler p, meta_Pid m, ''0''])"
proof -
  let ?env = "\<lparr>env_Meta = m, env_Process = p, env_Module = md, env_Nonce = 0,
         env_Sequence = - 1, env_ReceivedSeq = []\<rparr>"
  obtain v1 a env' res where o: "Vmm_outbox ?env (genSpawnResult (Vmm_RegistryId v1) ?env) = (env', res, out)"
    and v': "v' = install_instance v1 (meta_Pid m) a env' \<or>
        v' = install_instance (RecoveryUnlock v1 (meta_Pid m)) (meta_Pid m) a env'"
    using Vmm_Spawn_cases [OF assms(1)] by blast
  have "v_registry v' = v_registry v1" "v_objs v' = v_objs v1"
    using v' by (auto simp: install_instance_def RecoveryUnlock_def)
  then have eq: "Vmm_RegistryId v1 = Vmm_RegistryId v'"
    unfolding Vmm_RegistryId_def registry_obj_def by (simp only:)
  show ?thesis using genSpawnResult_announce [OF o [unfolded eq] assms(2)] by (auto split: if_splits)
qed

theorem Vmm_Spawn_announces_witness:
  "\<exists>v' rs ob rest. Vmm_Spawn demo_lib (Vmm_New [] True :: nat vmm) demo_spawn_meta
      (zero_process\<lparr>proc_Scheduler := ''0xs''\<rparr>) demo_registry_module = Some (v', None, rs, ob # rest) \<and>
     ob_To ob = ''reg'' \<and> GetTagsValue ''Acc-Id'' (ob_Tags ob) = ''0xs''"
proof -
  obtain v' rs out where s: "Vmm_Spawn demo_lib (Vmm_New [] True :: nat vmm) demo_spawn_meta
      (zero_process\<lparr>proc_Scheduler := ''0xs''\<rparr>) demo_registry_module = Some (v', None, rs, out)"
    and r: "Vmm_RegistryId v' = ''reg''" using demo_spawn by blast
  have "meta_Mode demo_spawn_meta = ExecModeApply" by (simp add: demo_spawn_meta_def)
  with Vmm_Spawn_announces [OF s] s r show ?thesis by (auto simp: zero_process_def)
qed

subsection \<open>The genesis token\<close>

fun is_restore :: "'s vmm_op \<Rightarrow> bool" where
  "is_restore (VRestore _) = True"
| "is_restore _ = False"

definition genesis_supply :: int where "genesis_supply = 21000000000000000000"

definition token_good :: "'s vmm \<Rightarrow> bool" where
  "token_good v \<longleftrightarrow> vmm_wf v \<and>
     (\<forall>a db. v_token v = Some a \<and> v_objs v ! a = ObjToken db \<longrightarrow>
        token_inv db \<and> tdb_totalSupply db = genesis_supply)"

lemma genesis_token_good: "token_inv (genesis_token env) \<and> tdb_totalSupply (genesis_token env) = genesis_supply"
proof
  show "token_inv (genesis_token env)" unfolding genesis_token_def by (rule NewTokenDb_inv) auto
  show "tdb_totalSupply (genesis_token env) = genesis_supply"
    by (simp add: genesis_token_def NewTokenDb_total genesis_supply_def)
qed

lemma token_good_same:
  assumes g: "token_good v" and wf: "vmm_wf v'" and t: "v_token v' = v_token v"
    and o: "\<And>a. v_token v = Some a \<Longrightarrow> v_objs v' ! a = v_objs v ! a"
  shows "token_good v'"
  using g wf t o by (auto simp: token_good_def)

lemma token_good_spawn:
  assumes g: "token_good v" and wf: "vmm_wf v'" and s: "Vmm_spawn lib v env = (v1, Inr a)"
    and v': "v_token v' = v_token v1" "v_objs v' = v_objs v1"
  shows "token_good v'"
proof (cases rule: Vmm_spawn_cases [of lib v env])
  case (ok ob u)
  with s have u: "u = v1" by auto
  note o = ok(2-) [unfolded u]
  have len: "b < length (v_objs v)" if "v_token v = Some b" for b
    using vmm_wf_D(4) that g by (auto simp: token_good_def)
  show ?thesis
    unfolding token_good_def
  proof (intro conjI allI impI)
    fix b db assume b: "v_token v' = Some b \<and> v_objs v' ! b = ObjToken db"
    have "token_inv db \<and> tdb_totalSupply db = genesis_supply"
    proof (cases "is_token ob")
      case True
      with b o v' genesis_token_good show ?thesis by auto
    next
      case False
      with b o v' len g show ?thesis by (auto simp: token_good_def nth_append)
    qed
    then show "token_inv db" "tdb_totalSupply db = genesis_supply" by auto
  qed (rule wf)
qed (use s in simp)

lemma obj_apply_token:
  assumes "obj_apply lib ops (ObjToken db) f m = (ob', res)" "token_inv db"
  shows "\<exists>db'. ob' = ObjToken db' \<and> token_inv db' \<and> tdb_totalSupply db' = tdb_totalSupply db"
proof -
  obtain db' r where r: "Token_Apply lib db f m = (db', r)" by fastforce
  from token_move_inv [OF conjunct1 [OF Token_Apply_move [OF r]] assms(2)] assms(1) r show ?thesis
    by (auto simp: obj_apply_def)
qed

lemma token_good_step:
  assumes g: "token_good v" and op: "\<not> is_restore op"
  shows "token_good (vmm_step w v op)"
proof -
  have wf: "vmm_wf v" using g by (simp add: token_good_def)
  note wf' = vmm_step_wf [OF wf, of w op]
  show ?thesis
  proof (cases op)
    case (VSpawn m p md)
    show ?thesis
    proof (cases "Vmm_Spawn (w_lib w) v m p md")
      case None
      with VSpawn g show ?thesis by simp
    next
      case (Some q)
      obtain v' err rs out where q: "q = (v', err, rs, out)" by (metis prod_cases4)
      from Vmm_Spawn_cases [OF Some [unfolded q]] VSpawn Some q g wf' show ?thesis
        by (elim disjE exE conjE) (auto intro!: token_good_spawn [OF g] simp: install_instance_def RecoveryUnlock_def)
    qed
  next
    case (VApply m)
    show ?thesis
    proof (cases "getInstance v (meta_Pid m)")
      case (Inl e)
      with VApply g show ?thesis by (simp add: Vmm_Apply_def)
    next
      case (Inr inst)
      then have i: "mget (v_vms v) (meta_Pid m) = Some inst" by (auto simp: getInstance_def split: option.splits if_splits)
      have len: "inst_vm inst < length (v_objs v)" using vmm_wf_D(6) [OF wf i] .
      obtain obj' env' eff where r: "Vmm_apply (obj_apply (w_lib w) (w_ops w)) (w_cryptor w)
          (v_objs v ! inst_vm inst, inst_env inst) m = ((obj', env'), eff)" by (metis prod.collapse)
      have ap: "obj' = v_objs v ! inst_vm inst \<or>
          (\<exists>f m' res. obj_apply (w_lib w) (w_ops w) (v_objs v ! inst_vm inst) f m' = (obj', res))"
        using r by (auto simp: Vmm_apply_def Let_def split: prod.splits sum.splits)
      have step: "v_token (vmm_step w v op) = v_token v"
        "v_objs (vmm_step w v op) = (v_objs v)[inst_vm inst := obj']"
        using VApply Inr r by (simp_all add: Vmm_Apply_def Let_def RecoveryUnlock_def)
      show ?thesis
        unfolding token_good_def
      proof (intro conjI allI impI)
        fix a db assume a: "v_token (vmm_step w v op) = Some a \<and> v_objs (vmm_step w v op) ! a = ObjToken db"
        have "is_token (v_objs v ! a)" using a step vmm_wf_D(5) [OF wf] by simp
        then obtain db0 where db0: "v_objs v ! a = ObjToken db0" by (cases "v_objs v ! a") auto
        with g a step have old: "token_inv db0" "tdb_totalSupply db0 = genesis_supply"
          by (auto simp: token_good_def)
        have "token_inv db \<and> tdb_totalSupply db = genesis_supply"
        proof (cases "a = inst_vm inst")
          case True
          with a step len have "obj' = ObjToken db" by simp
          with ap True db0 old obj_apply_token show ?thesis by fastforce
        next
          case False
          with a step db0 old show ?thesis by simp
        qed
        then show "token_inv db" "tdb_totalSupply db = genesis_supply" by auto
      qed (rule wf')
    qed
  qed (use op g wf' in \<open>auto intro!: token_good_same [OF g]
      simp: Mount_def Vmm_Kill_def Vmm_KillAll_def Vmm_Close_def RecoveryLock_def
      split: option.splits sum.splits\<close>)
qed

lemma token_good_run:
  "token_good v \<Longrightarrow> list_all (Not \<circ> is_restore) ops \<Longrightarrow> token_good (vmm_run w v ops)"
  unfolding vmm_run_def by (induction ops arbitrary: v) (auto intro: token_good_step)

text \<open>the genesis supply. In every history of the manager without a restored snapshot, whatever
  machines are mounted and spawned and whatever messages are applied, the token the manager answers
  from holds exactly 21000000 tokens of 12 decimals in balances and stakes, none of them negative.\<close>

theorem Vmm_genesis_supply:
  "case token_obj (vmm_run w (Vmm_New role join) (filter (Not \<circ> is_restore) ops)) of
     None \<Rightarrow> True
   | Some db \<Rightarrow> mtotal (tdb_balances db) + mtotal (tdb_stakes db) = 21000000 * 10 ^ 12 \<and>
       tdb_totalSupply db = 21000000 * 10 ^ 12 \<and>
       (\<forall>a. 0 \<le> db_BalanceOf db a) \<and> (\<forall>a. 0 \<le> db_StakeOf db a)"
proof -
  let ?v = "vmm_run w (Vmm_New role join) (filter (Not \<circ> is_restore) ops)"
  have "token_good (Vmm_New role join)" by (simp add: token_good_def vmm_wf_New) (simp add: Vmm_New_def)
  then have "token_good ?v" by (rule token_good_run) (simp add: list_all_iff)
  then have "token_inv db \<and> tdb_totalSupply db = genesis_supply" if "token_obj ?v = Some db" for db
    using that by (auto simp: token_obj_def token_good_def split: option.splits vm_obj.splits)
  then show ?thesis by (auto simp: token_inv_def genesis_supply_def split: option.split)
qed

end
