(* ===== verification/VmInstance.thy ===== *)
theory VmInstance
  imports Vmm "HOL-Library.Multiset"
begin

text \<open>
  The life of one machine instance (vmm/instance.go): the admission of tasks, the bounded task
  channel, the loop that runs the tasks one by one, and the shutdown. Submitters, the stopper and
  the loop are concurrent; an event is one of their atomic steps. A task is a value of type
  \<open>'t\<close>, the machine with its environment a value of type \<open>'s\<close>.
\<close>

subsection \<open>State\<close>

definition VmQueueCapacity :: nat where "VmQueueCapacity = 64"

datatype 't job = JobInit | JobTask 't

text \<open>Where the goroutine of \<open>stopInstance\<close> is: not started, in \<open>Submitters.Wait\<close>, past it, done.\<close>

datatype stopper = StopNone | StopWaiting | StopClosing | StopDone

text \<open>Where \<open>runInstance\<close> is: between tasks, in a task, after a failed initialisation before the two
  calls it makes, past the loop, and with \<open>Done\<close> closed.\<close>

datatype 't loop = LoopIdle | LoopRun "'t job" | LoopFailed | LoopStop | LoopExit | LoopDone

text \<open>\<open>in_sending\<close> are the submitters that were admitted and have not sent, \<open>in_sent\<close> counts those that
  sent and have not called \<open>Submitters.Done\<close>. \<open>in_panic\<close> is a send on, or a close of, a closed
  channel. The last four fields only record history: admissions, sends, runs, and tasks that were
  answered with the error of the initialisation.\<close>

record ('s, 't) inst =
  in_chan :: "'t job list"
  in_chanClosed :: bool
  in_stopping :: bool
  in_submitters :: nat
  in_sending :: "'t list"
  in_sent :: nat
  in_stopper :: stopper
  in_loop :: "'t loop"
  in_initErr :: bool
  in_published :: bool
  in_vm :: "'s option"
  in_panic :: bool
  in_admitted :: "'t list"
  in_log :: "'t list"
  in_ran :: "'t list"
  in_failed :: "'t list"

subsection \<open>Steps\<close>

text \<open>\<open>createInstance\<close> puts the initialisation into the channel before it publishes the instance.\<close>

definition createInstance :: "('s, 't) inst" where
  "createInstance =
     \<lparr>in_chan = [JobInit], in_chanClosed = False, in_stopping = False, in_submitters = 0,
      in_sending = [], in_sent = 0, in_stopper = StopNone, in_loop = LoopIdle, in_initErr = False,
      in_published = True, in_vm = None, in_panic = False, in_admitted = [], in_log = [], in_ran = [],
      in_failed = []\<rparr>"

text \<open>\<open>submit\<close>: admission under the locks, the send without them, the deferred \<open>Done\<close>.\<close>

definition submit_admit :: "bool \<Rightarrow> ('s, 't) inst \<Rightarrow> 't \<Rightarrow> sys_err + ('s, 't) inst" where
  "submit_admit closed i t =
     (if closed then Inl ErrVmmClosed
      else if in_stopping i then Inl ErrVmStopping
      else Inr (i\<lparr>in_submitters := in_submitters i + 1, in_sending := in_sending i @ [t],
                 in_admitted := in_admitted i @ [t]\<rparr>))"

definition submit_send :: "('s, 't) inst \<Rightarrow> 't \<Rightarrow> ('s, 't) inst option" where
  "submit_send i t =
     (if t \<notin> set (in_sending i) then None
      else if in_chanClosed i then Some (i\<lparr>in_panic := True\<rparr>)
      else if length (in_chan i) < VmQueueCapacity
      then Some (i\<lparr>in_chan := in_chan i @ [JobTask t], in_sending := remove1 t (in_sending i),
                   in_sent := in_sent i + 1, in_log := in_log i @ [t]\<rparr>)
      else None)"

definition submit_done :: "('s, 't) inst \<Rightarrow> ('s, 't) inst option" where
  "submit_done i =
     (if in_sent i = 0 then None
      else Some (i\<lparr>in_sent := in_sent i - 1, in_submitters := in_submitters i - 1\<rparr>))"

text \<open>\<open>stopInstance\<close> and the goroutine it starts once.\<close>

definition stopInstance :: "('s, 't) inst \<Rightarrow> ('s, 't) inst" where
  "stopInstance i =
     (if in_stopper i = StopNone then i\<lparr>in_stopping := True, in_stopper := StopWaiting\<rparr> else i)"

definition stop_wait :: "('s, 't) inst \<Rightarrow> ('s, 't) inst option" where
  "stop_wait i =
     (if in_stopper i = StopWaiting \<and> in_submitters i = 0 then Some (i\<lparr>in_stopper := StopClosing\<rparr>) else None)"

definition stop_close :: "('s, 't) inst \<Rightarrow> ('s, 't) inst option" where
  "stop_close i =
     (if in_stopper i = StopClosing
      then Some (i\<lparr>in_panic := (in_panic i \<or> in_chanClosed i), in_chanClosed := True, in_stopper := StopDone\<rparr>)
      else None)"

definition removeInstance :: "('s, 't) inst \<Rightarrow> ('s, 't) inst" where
  "removeInstance i = i\<lparr>in_published := False\<rparr>"

text \<open>\<open>runInstance\<close>: the receive of the loop, and one step of its body or of its end. \<open>ini\<close> is the
  outcome of the initialisation, \<open>exec\<close> the run of a task.\<close>

definition loop_take :: "('s, 't) inst \<Rightarrow> ('s, 't) inst option" where
  "loop_take i =
     (if in_loop i \<noteq> LoopIdle then None
      else case in_chan i of
        j # js \<Rightarrow> Some (i\<lparr>in_chan := js, in_loop := LoopRun j\<rparr>)
      | [] \<Rightarrow> if in_chanClosed i then Some (i\<lparr>in_loop := LoopExit\<rparr>) else None)"

definition loop_work :: "'s option \<Rightarrow> ('s \<Rightarrow> 't \<Rightarrow> 's) \<Rightarrow> ('s, 't) inst \<Rightarrow> ('s, 't) inst option" where
  "loop_work ini exec i =
     (case in_loop i of
        LoopIdle \<Rightarrow> None
      | LoopRun JobInit \<Rightarrow>
          Some (case ini of
            None \<Rightarrow> i\<lparr>in_initErr := True, in_loop := LoopFailed\<rparr>
          | Some s \<Rightarrow> i\<lparr>in_vm := Some s, in_loop := LoopIdle\<rparr>)
      | LoopRun (JobTask t) \<Rightarrow>
          Some (if in_initErr i then i\<lparr>in_failed := in_failed i @ [t], in_loop := LoopIdle\<rparr>
                else i\<lparr>in_vm := map_option (\<lambda>s. exec s t) (in_vm i), in_ran := in_ran i @ [t],
                       in_loop := LoopIdle\<rparr>)
      | LoopFailed \<Rightarrow> Some (removeInstance i\<lparr>in_loop := LoopStop\<rparr>)
      | LoopStop \<Rightarrow> Some (stopInstance i\<lparr>in_loop := LoopIdle\<rparr>)
      | LoopExit \<Rightarrow> Some (removeInstance i\<lparr>in_loop := LoopDone\<rparr>)
      | LoopDone \<Rightarrow> None)"

datatype 't inst_ev =
  EvAdmit bool 't | EvSend 't | EvSubmitDone | EvStop | EvStopWait | EvStopClose | EvTake | EvWork

text \<open>\<open>None\<close> is a step that cannot be taken: a refused or blocked call, a second stop.\<close>

fun inst_event :: "'s option \<Rightarrow> ('s \<Rightarrow> 't \<Rightarrow> 's) \<Rightarrow> ('s, 't) inst \<Rightarrow> 't inst_ev \<Rightarrow> ('s, 't) inst option" where
  "inst_event ini exec i (EvAdmit closed t) =
     (case submit_admit closed i t of Inl _ \<Rightarrow> None | Inr i' \<Rightarrow> Some i')"
| "inst_event ini exec i (EvSend t) = submit_send i t"
| "inst_event ini exec i EvSubmitDone = submit_done i"
| "inst_event ini exec i EvStop = (if in_stopping i then None else Some (stopInstance i))"
| "inst_event ini exec i EvStopWait = stop_wait i"
| "inst_event ini exec i EvStopClose = stop_close i"
| "inst_event ini exec i EvTake = loop_take i"
| "inst_event ini exec i EvWork = loop_work ini exec i"

inductive inst_step :: "'s option \<Rightarrow> ('s \<Rightarrow> 't \<Rightarrow> 's) \<Rightarrow> ('s, 't) inst \<Rightarrow> ('s, 't) inst \<Rightarrow> bool"
  for ini exec where
  inst_step_event: "inst_event ini exec i ev = Some i' \<Longrightarrow> inst_step ini exec i i'"

inductive inst_reach :: "'s option \<Rightarrow> ('s \<Rightarrow> 't \<Rightarrow> 's) \<Rightarrow> ('s, 't) inst \<Rightarrow> bool" for ini exec where
  reach_create: "inst_reach ini exec createInstance"
| reach_step: "inst_reach ini exec i \<Longrightarrow> inst_step ini exec i i' \<Longrightarrow> inst_reach ini exec i'"

inductive_cases inst_stepE: "inst_step ini exec i i'"

subsection \<open>Invariants\<close>

text \<open>The gate: nobody is between admission and \<open>Done\<close> once the channel is to be closed.\<close>

definition gate_inv :: "('s, 't) inst \<Rightarrow> bool" where
  "gate_inv i \<longleftrightarrow> \<not> in_panic i \<and> in_submitters i = length (in_sending i) + in_sent i \<and>
     in_stopping i = (in_stopper i \<noteq> StopNone) \<and>
     (in_stopper i \<in> {StopClosing, StopDone} \<longrightarrow> in_submitters i = 0) \<and>
     in_chanClosed i = (in_stopper i = StopDone) \<and>
     length (in_chan i) \<le> VmQueueCapacity \<and>
     mset (in_admitted i) = mset (in_sending i) + mset (in_log i)"

fun running :: "'t loop \<Rightarrow> 't job list" where
  "running (LoopRun j) = [j]"
| "running _ = []"

text \<open>The queue: what was sent is what was handled, then what is running, then what is queued. The
  machine is the sequential result of the tasks run so far.\<close>

definition queue_inv :: "'s option \<Rightarrow> ('s \<Rightarrow> 't \<Rightarrow> 's) \<Rightarrow> ('s, 't) inst \<Rightarrow> bool" where
  "queue_inv ini exec i \<longleftrightarrow>
     (let jobs = running (in_loop i) @ in_chan i in
      if in_initErr i
      then ini = None \<and> in_vm i = None \<and> in_ran i = [] \<and> map JobTask (in_log i) = map JobTask (in_failed i) @ jobs
      else in_failed i = [] \<and> in_loop i \<notin> {LoopFailed, LoopStop} \<and>
        (case in_vm i of
           None \<Rightarrow> in_ran i = [] \<and> jobs = JobInit # map JobTask (in_log i)
         | Some s \<Rightarrow> (\<exists>s0. ini = Some s0 \<and> s = foldl exec s0 (in_ran i)) \<and>
             map JobTask (in_log i) = map JobTask (in_ran i) @ jobs))"

definition end_inv :: "('s, 't) inst \<Rightarrow> bool" where
  "end_inv i \<longleftrightarrow>
     (in_loop i \<in> {LoopExit, LoopDone} \<longrightarrow> in_chanClosed i \<and> in_chan i = []) \<and>
     (in_loop i = LoopDone \<longrightarrow> \<not> in_published i) \<and>
     (in_initErr i \<and> in_loop i \<noteq> LoopFailed \<longrightarrow> \<not> in_published i) \<and>
     (in_initErr i \<and> in_loop i \<notin> {LoopFailed, LoopStop} \<longrightarrow> in_stopping i)"

lemmas inst_step_defs = submit_admit_def submit_send_def submit_done_def stopInstance_def stop_wait_def
  stop_close_def loop_take_def loop_work_def removeInstance_def

text \<open>Every event, with what makes it possible.\<close>

lemma inst_event_cases [consumes 1]:
  assumes "inst_event ini exec i ev = Some i'"
  obtains
    (admit) t where "\<not> in_stopping i" "i' = i\<lparr>in_submitters := in_submitters i + 1, in_sending := in_sending i @ [t],
        in_admitted := in_admitted i @ [t]\<rparr>"
  | (send) t where "t \<in> set (in_sending i)" "\<not> in_chanClosed i" "length (in_chan i) < VmQueueCapacity"
      "i' = i\<lparr>in_chan := in_chan i @ [JobTask t], in_sending := remove1 t (in_sending i),
          in_sent := in_sent i + 1, in_log := in_log i @ [t]\<rparr>"
  | (panic) t where "t \<in> set (in_sending i)" "in_chanClosed i"
  | (sent) "0 < in_sent i" "i' = i\<lparr>in_sent := in_sent i - 1, in_submitters := in_submitters i - 1\<rparr>"
  | (stop) "in_stopper i = StopNone" "i' = i\<lparr>in_stopping := True, in_stopper := StopWaiting\<rparr>"
  | (idle) "\<not> in_stopping i" "in_stopper i \<noteq> StopNone"
  | (wait) "in_stopper i = StopWaiting" "in_submitters i = 0" "i' = i\<lparr>in_stopper := StopClosing\<rparr>"
  | (closing) "in_stopper i = StopClosing" "i' = i\<lparr>in_panic := (in_panic i \<or> in_chanClosed i),
        in_chanClosed := True, in_stopper := StopDone\<rparr>"
  | (take_job) j js where "in_loop i = LoopIdle" "in_chan i = j # js" "i' = i\<lparr>in_chan := js, in_loop := LoopRun j\<rparr>"
  | (leave) "in_loop i = LoopIdle" "in_chan i = []" "in_chanClosed i" "i' = i\<lparr>in_loop := LoopExit\<rparr>"
  | (init_ok) s where "in_loop i = LoopRun JobInit" "ini = Some s" "i' = i\<lparr>in_vm := Some s, in_loop := LoopIdle\<rparr>"
  | (init_failed) "in_loop i = LoopRun JobInit" "ini = None" "i' = i\<lparr>in_initErr := True, in_loop := LoopFailed\<rparr>"
  | (skip) t where "in_loop i = LoopRun (JobTask t)" "in_initErr i"
      "i' = i\<lparr>in_failed := in_failed i @ [t], in_loop := LoopIdle\<rparr>"
  | (run) t where "in_loop i = LoopRun (JobTask t)" "\<not> in_initErr i"
      "i' = i\<lparr>in_vm := map_option (\<lambda>s. exec s t) (in_vm i), in_ran := in_ran i @ [t], in_loop := LoopIdle\<rparr>"
  | (failed) "in_loop i = LoopFailed" "i' = i\<lparr>in_published := False, in_loop := LoopStop\<rparr>"
  | (failed_stop) "in_loop i = LoopStop" "i' = stopInstance i\<lparr>in_loop := LoopIdle\<rparr>"
  | (finish) "in_loop i = LoopExit" "i' = i\<lparr>in_published := False, in_loop := LoopDone\<rparr>"
proof (cases ev)
  case (EvAdmit closed t)
  show thesis
    by (rule admit [of t]) (use assms EvAdmit in \<open>simp_all add: submit_admit_def split: if_splits\<close>)
next
  case (EvSend t)
  with assms show thesis
    using send [of t] panic [of t] by (auto simp: submit_send_def split: if_splits)
next
  case EvSubmitDone
  show thesis
    by (rule sent) (use assms EvSubmitDone in \<open>simp_all add: submit_done_def split: if_splits\<close>)
next
  case EvStop
  show thesis
  proof (cases "in_stopper i = StopNone")
    case True
    show thesis
      by (rule stop [OF True]) (use assms EvStop True in \<open>simp add: stopInstance_def split: if_splits\<close>)
  next
    case False
    show thesis by (rule idle [OF _ False]) (use assms EvStop in \<open>simp split: if_splits\<close>)
  qed
next
  case EvStopWait
  with assms show thesis by (intro wait) (auto simp: stop_wait_def split: if_splits)
next
  case EvStopClose
  with assms show thesis by (intro closing) (auto simp: stop_close_def split: if_splits)
next
  case EvTake
  with assms show thesis using take_job leave by (auto simp: loop_take_def split: if_splits list.splits)
next
  case EvWork
  note w = assms [unfolded EvWork inst_event.simps loop_work_def]
  show thesis
  proof (cases "in_loop i")
    case (LoopRun j)
    show thesis
    proof (cases j)
      case JobInit
      with LoopRun w init_ok init_failed show thesis by (cases ini) auto
    next
      case (JobTask t)
      with LoopRun w skip [of t] run [of t] show thesis by (auto split: if_splits)
    qed
  next
    case LoopFailed with w show thesis by (intro failed) (auto simp: removeInstance_def)
  next
    case LoopStop with w show thesis by (intro failed_stop) auto
  next
    case LoopExit with w show thesis by (intro finish) (auto simp: removeInstance_def)
  qed (use w in auto)
qed

lemma gate_create: "gate_inv createInstance"
  by (simp add: gate_inv_def createInstance_def VmQueueCapacity_def)

lemma gate_event:
  assumes g: "gate_inv i" and e: "inst_event ini exec i ev = Some i'" shows "gate_inv i'"
  using e
proof (cases rule: inst_event_cases)
  case (send t)
  then have "in_stopper i \<notin> {StopClosing, StopDone}" using g by (auto simp: gate_inv_def)
  moreover have "mset (in_sending i) = add_mset t (mset (remove1 t (in_sending i)))" using send by simp
  moreover have "length (in_sending i) = Suc (length (remove1 t (in_sending i)))"
    using send length_pos_if_in_set [of t "in_sending i"] by (simp add: length_remove1)
  ultimately show ?thesis using send g by (simp add: gate_inv_def)
next
  case (panic t)
  with g show ?thesis by (auto simp: gate_inv_def)
next
  case failed_stop
  with g show ?thesis by (auto simp: gate_inv_def stopInstance_def)
qed (use g in \<open>auto simp: gate_inv_def\<close>)

lemma JobInit_not_task: "map JobTask xs \<noteq> map JobTask ys @ JobInit # zs"
proof
  assume "map JobTask xs = map JobTask ys @ JobInit # zs"
  then have "JobInit \<in> set (map JobTask xs)" by simp
  then show False by auto
qed

lemma queue_create: "queue_inv ini exec createInstance"
  by (simp add: queue_inv_def createInstance_def Let_def)

lemma queue_frame:
  assumes "queue_inv ini exec i" and "in_initErr i' = in_initErr i" "in_vm i' = in_vm i" "in_ran i' = in_ran i"
    "in_failed i' = in_failed i" "in_log i' = in_log i"
    and "running (in_loop i') @ in_chan i' = running (in_loop i) @ in_chan i"
    and "in_loop i' \<in> {LoopFailed, LoopStop} \<Longrightarrow> in_loop i \<in> {LoopFailed, LoopStop}"
  shows "queue_inv ini exec i'"
  using assms(1,8) unfolding queue_inv_def Let_def assms(2-7) by (cases "in_initErr i") auto

lemma queue_event:
  assumes q: "queue_inv ini exec i" and g: "gate_inv i" and e: "inst_event ini exec i ev = Some i'"
  shows "queue_inv ini exec i'"
  using e
proof (cases rule: inst_event_cases)
  case (panic t)
  with g show ?thesis by (auto simp: gate_inv_def)
next
  case failed_stop
  with q show ?thesis by (auto simp: queue_inv_def stopInstance_def Let_def)
next
  case (init_ok s)
  with q show ?thesis by (auto simp: queue_inv_def Let_def JobInit_not_task split: if_splits option.splits)
next
  case (run t)
  with q show ?thesis by (auto simp: queue_inv_def Let_def split: option.splits)
next
  case idle
  with g show ?thesis by (auto simp: gate_inv_def)
next
  case (send t)
  with q show ?thesis by (cases "in_vm i") (auto simp: queue_inv_def Let_def)
next
  case init_failed
  with q show ?thesis by (auto simp: queue_inv_def Let_def JobInit_not_task split: if_splits option.splits)
next
  case (skip t)
  with q show ?thesis by (simp add: queue_inv_def Let_def)
qed (rule queue_frame [OF q]; simp)+

lemma end_create: "end_inv createInstance"
  by (simp add: end_inv_def createInstance_def)

lemma end_event:
  assumes n: "end_inv i" and g: "gate_inv i" and e: "inst_event ini exec i ev = Some i'"
  shows "end_inv i'"
  using e
proof (cases rule: inst_event_cases)
  case (panic t)
  with g show ?thesis by (auto simp: gate_inv_def)
next
  case failed_stop
  with n g show ?thesis by (auto simp: end_inv_def stopInstance_def gate_inv_def)
qed (use n g in \<open>auto simp: end_inv_def gate_inv_def\<close>)

lemma inst_reach_inv:
  "inst_reach ini exec i \<Longrightarrow> gate_inv i \<and> queue_inv ini exec i \<and> end_inv i"
  by (induction rule: inst_reach.induct)
     (auto simp: gate_create queue_create end_create elim!: inst_stepE dest: gate_event queue_event end_event)

subsection \<open>Shutdown\<close>

fun loop_left :: "'t loop \<Rightarrow> nat" where
  "loop_left LoopDone = 0"
| "loop_left LoopExit = 1"
| "loop_left LoopIdle = 2"
| "loop_left LoopStop = 3"
| "loop_left LoopFailed = 4"
| "loop_left (LoopRun j) = 5"

fun stopper_left :: "stopper \<Rightarrow> nat" where
  "stopper_left StopNone = 3"
| "stopper_left StopWaiting = 2"
| "stopper_left StopClosing = 1"
| "stopper_left StopDone = 0"

text \<open>A bound on the steps an instance that admits nobody has left.\<close>

definition steps_left :: "('s, 't) inst \<Rightarrow> nat" where
  "steps_left i = 10 * length (in_sending i) + in_sent i + 8 * length (in_chan i) +
     loop_left (in_loop i) + stopper_left (in_stopper i)"

lemma stopping_step:
  assumes g: "gate_inv i" and st: "in_stopping i" and e: "inst_event ini exec i ev = Some i'"
  shows "in_stopping i' \<and> steps_left i' < steps_left i"
  using e
proof (cases rule: inst_event_cases)
  case (send t)
  then have "length (in_sending i) = Suc (length (remove1 t (in_sending i)))"
    using length_pos_if_in_set [of t "in_sending i"] by (simp add: length_remove1)
  with send st show ?thesis by (simp add: steps_left_def)
next
  case failed_stop
  with st g show ?thesis by (auto simp: steps_left_def stopInstance_def gate_inv_def)
qed (use g st in \<open>auto simp: steps_left_def gate_inv_def\<close>)

lemma stopping_progress:
  assumes g: "gate_inv i" and st: "in_stopping i" and more: "in_loop i \<noteq> LoopDone"
  shows "\<exists>ev i'. inst_event ini exec i ev = Some i'"
proof (cases "in_loop i = LoopIdle")
  case False
  have "inst_event ini exec i EvWork \<noteq> None"
    using False more by (auto simp: loop_work_def split: loop.split job.split)
  then show ?thesis by blast
next
  case idle: True
  show ?thesis
  proof (cases "in_chan i = [] \<and> \<not> in_chanClosed i")
    case False
    with idle have "inst_event ini exec i EvTake \<noteq> None" by (auto simp: loop_take_def split: list.split)
    then show ?thesis by blast
  next
    case True
    then consider "in_stopper i = StopWaiting" | "in_stopper i = StopClosing"
      using g st by (cases "in_stopper i") (auto simp: gate_inv_def)
    then show ?thesis
    proof cases
      case 1
      consider "in_submitters i = 0" | "in_sending i \<noteq> []" | "0 < in_sent i"
        using g by (auto simp: gate_inv_def)
      then show ?thesis
      proof cases
        case a: 1
        then have "inst_event ini exec i EvStopWait \<noteq> None" using 1 by (simp add: stop_wait_def)
        then show ?thesis by blast
      next
        case 2
        then have "inst_event ini exec i (EvSend (hd (in_sending i))) \<noteq> None"
          using True by (simp add: submit_send_def VmQueueCapacity_def)
        then show ?thesis by blast
      next
        case 3
        then have "inst_event ini exec i EvSubmitDone \<noteq> None" by (simp add: submit_done_def)
        then show ?thesis by blast
      qed
    next
      case 2
      then have "inst_event ini exec i EvStopClose \<noteq> None" by (simp add: stop_close_def)
      then show ?thesis by blast
    qed
  qed
qed

fun inst_run :: "'s option \<Rightarrow> ('s \<Rightarrow> 't \<Rightarrow> 's) \<Rightarrow> ('s, 't) inst \<Rightarrow> 't inst_ev list \<Rightarrow> ('s, 't) inst option" where
  "inst_run ini exec i [] = Some i"
| "inst_run ini exec i (ev # evs) =
     (case inst_event ini exec i ev of None \<Rightarrow> None | Some i' \<Rightarrow> inst_run ini exec i' evs)"

lemma inst_run_reach:
  "inst_run ini exec i evs = Some i' \<Longrightarrow> inst_reach ini exec i \<Longrightarrow> inst_reach ini exec i'"
  by (induction evs arbitrary: i) (auto split: option.splits dest: reach_step [OF _ inst_step_event])

lemma stopping_run:
  "inst_run ini exec i evs = Some i' \<Longrightarrow> gate_inv i \<Longrightarrow> in_stopping i \<Longrightarrow>
     in_stopping i' \<and> length evs + steps_left i' \<le> steps_left i"
proof (induction evs arbitrary: i)
  case (Cons ev evs)
  from Cons.prems(1) obtain i1 where i1: "inst_event ini exec i ev = Some i1" "inst_run ini exec i1 evs = Some i'"
    by (auto split: option.splits)
  from stopping_step [OF Cons.prems(2,3) i1(1)] Cons.IH [OF i1(2) gate_event [OF Cons.prems(2) i1(1)]]
  show ?case by simp
qed simp

subsection \<open>Properties\<close>

text \<open>C38: no send on a closed channel. In every interleaving of submitters, stops, the shutdown goroutine
  and the loop, no submitter sends on the closed channel and it is not closed twice; the channel
  never holds more than its 64 tasks, and once it is closed nobody is between admission and
  \<open>Done\<close> and nobody is admitted.\<close>

theorem inst_no_panic:
  assumes "inst_reach ini exec i"
  shows "\<not> in_panic i \<and> length (in_chan i) \<le> VmQueueCapacity \<and>
    (in_chanClosed i \<longrightarrow> in_submitters i = 0 \<and> in_sending i = [] \<and>
       submit_admit closed i t \<in> {Inl ErrVmmClosed, Inl ErrVmStopping})"
  using inst_reach_inv [OF assms] by (auto simp: gate_inv_def submit_admit_def)

definition demo_shutdown :: "nat inst_ev list" where
  "demo_shutdown = [EvAdmit False 5, EvTake, EvWork, EvSend 5, EvSubmitDone, EvStop, EvTake, EvWork,
     EvStopWait, EvStopClose, EvTake, EvWork]"

lemma demo_shutdown_run:
  "\<exists>i. inst_run (Some 10) (+) createInstance demo_shutdown = Some i \<and> inst_reach (Some 10) (+) i \<and>
     in_loop i = LoopDone \<and> in_chanClosed i \<and> in_stopping i \<and> in_admitted i = [5] \<and> in_log i = [5]"
proof -
  have "\<exists>i. inst_run (Some 10) (+) createInstance demo_shutdown = Some i \<and>
     in_loop i = LoopDone \<and> in_chanClosed i \<and> in_stopping i \<and> in_admitted i = [5] \<and> in_log i = [5]"
    by (simp add: demo_shutdown_def createInstance_def inst_step_defs VmQueueCapacity_def)
  with inst_run_reach [OF _ reach_create] show ?thesis by blast
qed

theorem inst_no_panic_witness:
  "\<exists>i. inst_run (Some (10::nat)) (+) createInstance demo_shutdown = Some i \<and> in_chanClosed i \<and> \<not> in_panic i"
proof -
  obtain i where "inst_run (Some 10) (+) createInstance demo_shutdown = Some i" "in_chanClosed i"
    and r: "inst_reach (Some 10) (+) i" using demo_shutdown_run by blast
  with inst_no_panic [OF r] show ?thesis by blast
qed

text \<open>C39: tasks run one by one, in the order of the channel, and none is lost. When an instance has
  ended, every admitted task was taken exactly once: after a successful initialisation the machine
  is the result of running all of them in the order they were sent; after a failed one no task ran
  and all were answered with its error. Either way the process is no longer published.\<close>

theorem inst_serial:
  assumes "inst_reach ini exec i" and "in_loop i = LoopDone"
  shows "mset (in_log i) = mset (in_admitted i) \<and> \<not> in_published i \<and>
    (case ini of
       None \<Rightarrow> in_ran i = [] \<and> in_failed i = in_log i \<and> in_vm i = None
     | Some s0 \<Rightarrow> in_failed i = [] \<and> in_ran i = in_log i \<and> in_vm i = Some (foldl exec s0 (in_log i)))"
proof -
  note inv = inst_reach_inv [OF assms(1)]
  have inj: "map JobTask xs = map JobTask ys \<longleftrightarrow> xs = ys" for xs ys :: "'b list"
    by (auto simp: inj_def map_injective)
  have chan: "in_chan i = []" "in_chanClosed i" "\<not> in_published i" using inv assms(2) by (auto simp: end_inv_def)
  then have "in_sending i = []" using inv by (auto simp: gate_inv_def)
  then have "mset (in_log i) = mset (in_admitted i)" using inv by (simp add: gate_inv_def)
  moreover have "case ini of
       None \<Rightarrow> in_ran i = [] \<and> in_failed i = in_log i \<and> in_vm i = None
     | Some s0 \<Rightarrow> in_failed i = [] \<and> in_ran i = in_log i \<and> in_vm i = Some (foldl exec s0 (in_log i))"
    using inv assms(2) chan
    by (auto simp: queue_inv_def Let_def inj split: if_splits option.splits)
  ultimately show ?thesis using chan by simp
qed

theorem inst_serial_witness:
  "\<exists>i. inst_run (Some (10::nat)) (+) createInstance demo_shutdown = Some i \<and> in_vm i = Some 15 \<and> \<not> in_published i"
proof -
  obtain i where i: "inst_run (Some 10) (+) createInstance demo_shutdown = Some i"
      "in_loop i = LoopDone" "in_log i = [5]"
    and r: "inst_reach (Some 10) (+) i" using demo_shutdown_run by blast
  with inst_serial [OF r i(2)] show ?thesis by simp
qed

text \<open>With \<open>apply\<close> as the run of a task, the machine and environment of an ended instance are those
  of \<open>Vmm_run\<close> on the messages in the order of the channel.\<close>

lemma foldl_Vmm_apply:
  "foldl (\<lambda>st m. fst (Vmm_apply ap c st m)) st ms = fst (Vmm_run ap c st ms)"
  by (induction ms arbitrary: st) (auto simp: case_prod_beta Let_def)

lemma inst_serial_run:
  assumes "inst_reach (Some st) (\<lambda>st m. fst (Vmm_apply ap c st m)) i" and "in_loop i = LoopDone"
  shows "in_vm i = Some (fst (Vmm_run ap c st (in_log i)))"
  using inst_reach_inv [OF assms(1)] assms(2)
  by (auto simp: queue_inv_def end_inv_def Let_def foldl_Vmm_apply map_injective inj_def
      split: if_splits option.splits)

text \<open>C40: a stop ends the instance. Once an instance is stopping, every interleaving has a bounded number
  of steps left, and as long as the loop has not closed \<open>Done\<close> one of them is possible: \<open>Kill\<close>
  returns, provided the tasks of the machine return.\<close>

theorem inst_stop_ends:
  fixes i :: "('s, 't) inst"
  assumes "inst_reach ini exec i" and "in_stopping i"
  shows "(\<exists>n. \<forall>evs :: 't inst_ev list. n < length evs \<longrightarrow> inst_run ini exec i evs = None) \<and>
    (\<forall>evs i'. inst_run ini exec i evs = Some i' \<and> (\<forall>ev. inst_event ini exec i' ev = None) \<longrightarrow>
       in_loop i' = LoopDone)"
proof (intro conjI allI impI)
  have g: "gate_inv i" using inst_reach_inv [OF assms(1)] by simp
  show "\<exists>n. \<forall>evs :: 't inst_ev list. n < length evs \<longrightarrow> inst_run ini exec i evs = None"
  proof (intro exI [of _ "steps_left i"] allI impI)
    fix evs :: "'t inst_ev list" assume "steps_left i < length evs"
    then show "inst_run ini exec i evs = None"
      using stopping_run [OF _ g assms(2), of ini exec evs] by (cases "inst_run ini exec i evs") fastforce+
  qed
  fix evs i' assume e: "inst_run ini exec i evs = Some i' \<and> (\<forall>ev. inst_event ini exec i' ev = None)"
  then have "gate_inv i'" using inst_run_reach inst_reach_inv assms(1) by blast
  with stopping_progress [of i' ini exec] stopping_run [OF _ g assms(2)] e
  show "in_loop i' = LoopDone" by (metis option.distinct(1))
qed

theorem inst_stop_ends_witness:
  "\<exists>i. inst_run (Some (10::nat)) (+) createInstance demo_shutdown = Some i \<and> in_loop i = LoopDone \<and>
     (\<exists>n. \<forall>evs. length evs = Suc n \<longrightarrow> inst_run (Some 10) (+) i evs = None)"
proof -
  obtain i where i: "inst_run (Some 10) (+) createInstance demo_shutdown = Some i" "in_loop i = LoopDone"
      "in_stopping i"
    and r: "inst_reach (Some 10) (+) i" using demo_shutdown_run by blast
  with inst_stop_ends [OF r i(3)] show ?thesis by (metis lessI)
qed

end
