(* ===== verification/Redis.thy ===== *)
theory Redis
  imports NodeSchema
begin

text \<open>
  The interface of the Redis client, whose code is not part of the repository: the calls are a
  record of functions on a state that holds the server and everything that decides which calls
  fail. \<open>redis_ok\<close> states the documented behaviour the repository relies on, over a view of
  the server's keys. A failed call may or may not have taken effect, and a failed pipeline may
  have executed a prefix of its commands: a pipeline is not a transaction.
\<close>

datatype 'a reply = Reply 'a | NilReply | RedisErr string

datatype rcmd =
    CSet string string
  | CRPush string string
  | CHSet string string string
  | CDel string
  | CHDel string string
  | CLPop string

record 'r redis =
  rd_get :: "'r \<Rightarrow> string \<Rightarrow> 'r \<times> string reply"
  rd_lindex :: "'r \<Rightarrow> string \<Rightarrow> int64 \<Rightarrow> 'r \<times> string reply"
  rd_lrange :: "'r \<Rightarrow> string \<Rightarrow> int64 \<Rightarrow> int64 \<Rightarrow> 'r \<times> string list reply"
  rd_hget :: "'r \<Rightarrow> string \<Rightarrow> string \<Rightarrow> 'r \<times> string reply"
  rd_lpop :: "'r \<Rightarrow> string \<Rightarrow> 'r \<times> string reply"
  rd_exec :: "'r \<Rightarrow> rcmd list \<Rightarrow> 'r \<times> string option"

subsection \<open>Documented behaviour\<close>

record keyspace =
  ks_str :: "string \<Rightarrow> string option"
  ks_list :: "string \<Rightarrow> string list"
  ks_hash :: "string \<Rightarrow> string \<Rightarrow> string option"

definition empty_keyspace :: keyspace where
  "empty_keyspace = \<lparr>ks_str = \<lambda>_. None, ks_list = \<lambda>_. [], ks_hash = \<lambda>_ _. None\<rparr>"

fun ks_cmd :: "keyspace \<Rightarrow> rcmd \<Rightarrow> keyspace" where
  "ks_cmd ks (CSet k v) = ks\<lparr>ks_str := (ks_str ks)(k \<mapsto> v)\<rparr>"
| "ks_cmd ks (CRPush k v) = ks\<lparr>ks_list := (ks_list ks)(k := ks_list ks k @ [v])\<rparr>"
| "ks_cmd ks (CHSet k f v) = ks\<lparr>ks_hash := (ks_hash ks)(k := (ks_hash ks k)(f \<mapsto> v))\<rparr>"
| "ks_cmd ks (CDel k) = ks\<lparr>ks_str := (ks_str ks)(k := None), ks_list := (ks_list ks)(k := []),
     ks_hash := (ks_hash ks)(k := (\<lambda>_. None))\<rparr>"
| "ks_cmd ks (CHDel k f) = ks\<lparr>ks_hash := (ks_hash ks)(k := (ks_hash ks k)(f := None))\<rparr>"
| "ks_cmd ks (CLPop k) = ks\<lparr>ks_list := (ks_list ks)(k := tl (ks_list ks k))\<rparr>"

abbreviation ks_cmds :: "keyspace \<Rightarrow> rcmd list \<Rightarrow> keyspace" where
  "ks_cmds \<equiv> foldl ks_cmd"

text \<open>\<open>LINDEX\<close> counts from the end for a negative index.\<close>

definition lindex_of :: "string list \<Rightarrow> int64 \<Rightarrow> string option" where
  "lindex_of xs i =
     (let n = sint i; n' = (if n < 0 then n + int (length xs) else n)
      in if 0 \<le> n' \<and> n' < int (length xs) then Some (xs ! nat n') else None)"

text \<open>The last \<open>limit\<close> elements, as \<open>LRANGE key -limit -1\<close> gives them for a positive limit.\<close>

definition lrange_tail :: "string list \<Rightarrow> nat \<Rightarrow> string list" where
  "lrange_tail xs n = drop (length xs - n) xs"

fun reply_of :: "'a option \<Rightarrow> 'a reply \<Rightarrow> bool" where
  "reply_of x (Reply v) \<longleftrightarrow> x = Some v"
| "reply_of x NilReply \<longleftrightarrow> x = None"
| "reply_of x (RedisErr _) \<longleftrightarrow> True"

definition redis_ok :: "'r redis \<Rightarrow> ('r \<Rightarrow> keyspace) \<Rightarrow> bool" where
  "redis_ok rd view \<longleftrightarrow>
     (\<forall>s k. view (fst (rd_get rd s k)) = view s \<and> reply_of (ks_str (view s) k) (snd (rd_get rd s k))) \<and>
     (\<forall>s k i. view (fst (rd_lindex rd s k i)) = view s \<and>
        reply_of (lindex_of (ks_list (view s) k) i) (snd (rd_lindex rd s k i))) \<and>
     (\<forall>s k n. 0 < n \<and> n < 2 ^ 62 \<longrightarrow> view (fst (rd_lrange rd s k (- of_nat n) (- 1))) = view s \<and>
        reply_of (Some (lrange_tail (ks_list (view s) k) n)) (snd (rd_lrange rd s k (- of_nat n) (- 1)))) \<and>
     (\<forall>s k f. view (fst (rd_hget rd s k f)) = view s \<and> reply_of (ks_hash (view s) k f) (snd (rd_hget rd s k f))) \<and>
     (\<forall>s k. (case rd_lpop rd s k of
        (s', Reply v) \<Rightarrow> ks_list (view s) k \<noteq> [] \<and> v = hd (ks_list (view s) k) \<and> view s' = ks_cmd (view s) (CLPop k)
      | (s', NilReply) \<Rightarrow> ks_list (view s) k = [] \<and> view s' = view s
      | (s', RedisErr _) \<Rightarrow> view s' \<in> {view s, ks_cmd (view s) (CLPop k)})) \<and>
     (\<forall>s cs. (case rd_exec rd s cs of
        (s', None) \<Rightarrow> view s' = ks_cmds (view s) cs
      | (s', Some _) \<Rightarrow> (\<exists>n \<le> length cs. view s' = ks_cmds (view s) (take n cs))))"

lemma redis_ok_D:
  assumes "redis_ok rd view"
  shows "rd_get rd s k = (s', r) \<Longrightarrow> view s' = view s \<and> reply_of (ks_str (view s) k) r"
    and "rd_lindex rd s k i = (s', r) \<Longrightarrow> view s' = view s \<and> reply_of (lindex_of (ks_list (view s) k) i) r"
    and "rd_hget rd s k f = (s', r) \<Longrightarrow> view s' = view s \<and> reply_of (ks_hash (view s) k f) r"
    and "rd_lpop rd s k = (s', Reply v) \<Longrightarrow> ks_list (view s) k \<noteq> [] \<and> v = hd (ks_list (view s) k) \<and>
      view s' = ks_cmd (view s) (CLPop k)"
    and "rd_lpop rd s k = (s', NilReply) \<Longrightarrow> ks_list (view s) k = [] \<and> view s' = view s"
    and "rd_lpop rd s k = (s', RedisErr e) \<Longrightarrow> view s' \<in> {view s, ks_cmd (view s) (CLPop k)}"
    and "rd_exec rd s cs = (s', None) \<Longrightarrow> view s' = ks_cmds (view s) cs"
    and "rd_exec rd s cs = (s', Some e) \<Longrightarrow> \<exists>n \<le> length cs. view s' = ks_cmds (view s) (take n cs)"
proof -
  note ok = assms [unfolded redis_ok_def]
  show "rd_get rd s k = (s', r) \<Longrightarrow> view s' = view s \<and> reply_of (ks_str (view s) k) r"
    using ok by (metis fst_conv snd_conv)
  show "rd_lindex rd s k i = (s', r) \<Longrightarrow> view s' = view s \<and> reply_of (lindex_of (ks_list (view s) k) i) r"
    using ok by (metis fst_conv snd_conv)
  show "rd_hget rd s k f = (s', r) \<Longrightarrow> view s' = view s \<and> reply_of (ks_hash (view s) k f) r"
    using ok by (metis fst_conv snd_conv)
  have pop: "case rd_lpop rd s k of
        (s', Reply v) \<Rightarrow> ks_list (view s) k \<noteq> [] \<and> v = hd (ks_list (view s) k) \<and> view s' = ks_cmd (view s) (CLPop k)
      | (s', NilReply) \<Rightarrow> ks_list (view s) k = [] \<and> view s' = view s
      | (s', RedisErr _) \<Rightarrow> view s' \<in> {view s, ks_cmd (view s) (CLPop k)}" for k
    using ok [THEN conjunct2, THEN conjunct2, THEN conjunct2, THEN conjunct2, THEN conjunct1, THEN spec, THEN spec] .
  from pop [of k] show "rd_lpop rd s k = (s', Reply v) \<Longrightarrow> ks_list (view s) k \<noteq> [] \<and> v = hd (ks_list (view s) k) \<and>
      view s' = ks_cmd (view s) (CLPop k)"
    and "rd_lpop rd s k = (s', NilReply) \<Longrightarrow> ks_list (view s) k = [] \<and> view s' = view s"
    and "rd_lpop rd s k = (s', RedisErr e) \<Longrightarrow> view s' \<in> {view s, ks_cmd (view s) (CLPop k)}"
    by (auto split: prod.splits reply.splits)
  have ex: "case rd_exec rd s cs of
        (s', None) \<Rightarrow> view s' = ks_cmds (view s) cs
      | (s', Some _) \<Rightarrow> (\<exists>n \<le> length cs. view s' = ks_cmds (view s) (take n cs))"
    using ok [THEN conjunct2, THEN conjunct2, THEN conjunct2, THEN conjunct2, THEN conjunct2, THEN spec, THEN spec] .
  then show "rd_exec rd s cs = (s', None) \<Longrightarrow> view s' = ks_cmds (view s) cs"
    and "rd_exec rd s cs = (s', Some e) \<Longrightarrow> \<exists>n \<le> length cs. view s' = ks_cmds (view s) (take n cs)"
    by auto
qed

subsection \<open>A server that satisfies it\<close>

text \<open>A keyspace and a schedule: the head of the schedule, if any, says that the next pipeline breaks
  after that many commands.\<close>

definition exec_with :: "keyspace \<times> nat list \<Rightarrow> rcmd list \<Rightarrow> (keyspace \<times> nat list) \<times> string option" where
  "exec_with s cs =
     (case s of
        (ks, []) \<Rightarrow> ((ks_cmds ks cs, []), None)
      | (ks, n # ns) \<Rightarrow>
          if n < length cs then ((ks_cmds ks (take n cs), ns), Some ''EOF'') else ((ks_cmds ks cs, ns), None))"

fun to_reply :: "'a option \<Rightarrow> 'a reply" where
  "to_reply None = NilReply"
| "to_reply (Some v) = Reply v"

definition demo_redis :: "(keyspace \<times> nat list) redis" where
  "demo_redis =
     \<lparr>rd_get = (\<lambda>s k. (s, to_reply (ks_str (fst s) k))),
      rd_lindex = (\<lambda>s k i. (s, to_reply (lindex_of (ks_list (fst s) k) i))),
      rd_lrange = (\<lambda>s k i j. (s, Reply (lrange_tail (ks_list (fst s) k) (nat (- sint i))))),
      rd_hget = (\<lambda>s k f. (s, to_reply (ks_hash (fst s) k f))),
      rd_lpop = (\<lambda>s k. if ks_list (fst s) k = [] then (s, NilReply)
                       else ((ks_cmd (fst s) (CLPop k), snd s), Reply (hd (ks_list (fst s) k)))),
      rd_exec = exec_with\<rparr>"

lemma reply_of_to_reply [simp]: "reply_of x (to_reply x)"
  by (cases x) auto

lemma sint_neg_nat: "0 < n \<Longrightarrow> n < 2 ^ 62 \<Longrightarrow> nat (- sint (- of_nat n :: int64)) = n"
proof -
  assume n: "0 < n" "n < (2::nat) ^ 62"
  have "sint (- of_nat n :: int64) = - int n"
  proof -
    have "(- of_nat n :: int64) = of_int (- int n)" by simp
    moreover have "sint (of_int (- int n) :: int64) = signed_take_bit 63 (- int n)"
      by (subst sint_sbintrunc') simp
    moreover have "signed_take_bit 63 (- int n) = - int n"
      using n by (intro signed_take_bit_int_eq_self) auto
    ultimately show ?thesis by simp
  qed
  then show ?thesis by simp
qed

lemma demo_redis_ok: "redis_ok demo_redis fst"
proof -
  have exec: "case exec_with s cs of
        (s', None) \<Rightarrow> fst s' = ks_cmds (fst s) cs
      | (s', Some _) \<Rightarrow> (\<exists>n \<le> length cs. fst s' = ks_cmds (fst s) (take n cs))" for s cs
    by (cases s; cases "snd s") (auto simp: exec_with_def split: if_splits intro: exI [of _ "hd (snd s)"])
  then show ?thesis
    unfolding redis_ok_def by (simp add: demo_redis_def sint_neg_nat)
qed

end
