(* ===== verification/Rdb.thy ===== *)
theory Rdb
  imports Redis
begin

text \<open>
  The node's database (db/rdb/get.go, set.go, outbox.go) over the Redis client: the log of each
  process (nonce, messages, assignments, index by message id), results, caches, checkpoint
  indices and the outbox queues. Every call threads the state of the client; an error is a value.
\<close>

subsection \<open>Keys and texts\<close>

definition RdbProcessNoncePrefix :: string where "RdbProcessNoncePrefix = ''p:nonce:''"
definition RdbProcessMsgsPrefix :: string where "RdbProcessMsgsPrefix = ''p:msgs:''"
definition RdbProcessAssignmentPrefix :: string where "RdbProcessAssignmentPrefix = ''p:assign:''"
definition RdbMsgIndex :: string where "RdbMsgIndex = ''m:index''"
definition RdbMsgResult :: string where "RdbMsgResult = ''m:result''"
definition RdbMsgResultsPrefix :: string where "RdbMsgResultsPrefix = ''m:results:''"
definition RdbCheckpointIndexPrefix :: string where "RdbCheckpointIndexPrefix = ''ckp:index:''"
definition RdbCachePrefix :: string where "RdbCachePrefix = ''cache:''"
definition RdbOutboxPrefix :: string where "RdbOutboxPrefix = ''outbox:''"

lemmas rdb_keys = RdbProcessNoncePrefix_def RdbProcessMsgsPrefix_def RdbProcessAssignmentPrefix_def
  RdbMsgIndex_def RdbMsgResult_def RdbMsgResultsPrefix_def RdbCheckpointIndexPrefix_def
  RdbCachePrefix_def RdbOutboxPrefix_def

text \<open>The JSON texts of items and results.\<close>

record db_codec =
  enc_item :: "bundle_item \<Rightarrow> string"
  dec_item :: "string \<Rightarrow> bundle_item option"
  enc_result :: "vmm_result \<Rightarrow> string"
  dec_result :: "string \<Rightarrow> vmm_result option"

definition redis_nil :: sys_err where "redis_nil = OtherErr ''redis: nil''"
definition json_err :: sys_err where "json_err = OtherErr ''json''"
definition index_panic :: sys_err where "index_panic = OtherErr ''runtime error: index out of range''"
definition nil_panic :: sys_err where "nil_panic = VmErr NilDereference"

subsection \<open>Reads (get.go)\<close>

definition IsExist :: "'r redis \<Rightarrow> 'r \<Rightarrow> string \<Rightarrow> 'r \<times> (sys_err + bool)" where
  "IsExist rd s pid =
     (case rd_get rd s (RdbProcessNoncePrefix @ pid) of
        (s', Reply _) \<Rightarrow> (s', Inr True)
      | (s', NilReply) \<Rightarrow> (s', Inr False)
      | (s', RedisErr e) \<Rightarrow> (s', Inl (OtherErr e)))"

definition GetNonce :: "'r redis \<Rightarrow> 'r \<Rightarrow> string \<Rightarrow> 'r \<times> (sys_err + int64)" where
  "GetNonce rd s pid =
     (case IsExist rd s pid of
        (s1, Inl e) \<Rightarrow> (s1, Inl e)
      | (s1, Inr exist) \<Rightarrow>
          if \<not> exist then (s1, Inr (- 1))
          else (case rd_get rd s1 (RdbProcessNoncePrefix @ pid) of
             (s2, Reply v) \<Rightarrow> (s2, (case ParseInt v of None \<Rightarrow> Inl (OtherErr ''strconv'') | Some n \<Rightarrow> Inr n))
           | (s2, NilReply) \<Rightarrow> (s2, Inl redis_nil)
           | (s2, RedisErr e) \<Rightarrow> (s2, Inl (OtherErr e))))"

text \<open>\<open>Inr None\<close> is a nil item with a nil error.\<close>

definition list_item ::
  "'r redis \<Rightarrow> db_codec \<Rightarrow> 'r \<Rightarrow> string \<Rightarrow> int64 \<Rightarrow> 'r \<times> (sys_err + bundle_item option)" where
  "list_item rd cd s key nonce =
     (case rd_lindex rd s key nonce of
        (s', NilReply) \<Rightarrow> (s', Inr None)
      | (s', RedisErr e) \<Rightarrow> (s', Inl (OtherErr e))
      | (s', Reply v) \<Rightarrow> (s', (case dec_item cd v of None \<Rightarrow> Inl json_err | Some i \<Rightarrow> Inr (Some i))))"

definition GetMessageByNonce ::
  "'r redis \<Rightarrow> db_codec \<Rightarrow> 'r \<Rightarrow> string \<Rightarrow> int64 \<Rightarrow> 'r \<times> (sys_err + bundle_item option)" where
  "GetMessageByNonce rd cd s pid nonce = list_item rd cd s (RdbProcessMsgsPrefix @ pid) nonce"

definition GetAssignByNonce ::
  "'r redis \<Rightarrow> db_codec \<Rightarrow> 'r \<Rightarrow> string \<Rightarrow> int64 \<Rightarrow> 'r \<times> (sys_err + bundle_item option)" where
  "GetAssignByNonce rd cd s pid nonce = list_item rd cd s (RdbProcessAssignmentPrefix @ pid) nonce"

definition GetMessage ::
  "'r redis \<Rightarrow> db_codec \<Rightarrow> 'r \<Rightarrow> string \<Rightarrow> 'r \<times> (sys_err + bundle_item option)" where
  "GetMessage rd cd s msgid =
     (case rd_hget rd s RdbMsgIndex msgid of
        (s1, NilReply) \<Rightarrow> (s1, Inr None)
      | (s1, RedisErr e) \<Rightarrow> (s1, Inl (OtherErr e))
      | (s1, Reply res) \<Rightarrow>
          (case Split CHR '':'' res of
             pid # nonce # _ \<Rightarrow>
               (case ParseInt nonce of
                  None \<Rightarrow> (s1, Inl (OtherErr ''strconv''))
                | Some n \<Rightarrow> GetMessageByNonce rd cd s1 pid n)
           | _ \<Rightarrow> (s1, Inl index_panic)))"

definition GetResult ::
  "'r redis \<Rightarrow> db_codec \<Rightarrow> 'r \<Rightarrow> string \<Rightarrow> 'r \<times> (sys_err + vmm_result option)" where
  "GetResult rd cd s msgid =
     (case rd_hget rd s RdbMsgResult msgid of
        (s', NilReply) \<Rightarrow> (s', Inr None)
      | (s', RedisErr e) \<Rightarrow> (s', Inl (OtherErr e))
      | (s', Reply v) \<Rightarrow> (s', (case dec_result cd v of None \<Rightarrow> Inl json_err | Some r \<Rightarrow> Inr (Some r))))"

fun results_loop ::
  "'r redis \<Rightarrow> db_codec \<Rightarrow> 'r \<Rightarrow> vmm_result list \<Rightarrow> string list \<Rightarrow> 'r \<times> (sys_err \<times> vmm_result list + vmm_result list)"
where
  "results_loop rd cd s acc [] = (s, Inr acc)"
| "results_loop rd cd s acc (msgid # ids) =
     (case GetResult rd cd s msgid of
        (s', Inl e) \<Rightarrow> (s', Inl (e, acc))
      | (s', Inr None) \<Rightarrow> (s', Inl (nil_panic, acc))
      | (s', Inr (Some r)) \<Rightarrow> results_loop rd cd s' (acc @ [r]) ids)"

text \<open>An error comes with the results read before it; a missing result is a nil dereference.\<close>

definition GetResults ::
  "'r redis \<Rightarrow> db_codec \<Rightarrow> 'r \<Rightarrow> string \<Rightarrow> int64 \<Rightarrow> 'r \<times> (sys_err \<times> vmm_result list + vmm_result list)" where
  "GetResults rd cd s pid limit =
     (case rd_lrange rd s (RdbMsgResultsPrefix @ pid) (- limit) (- 1) of
        (s', NilReply) \<Rightarrow> (s', Inr [])
      | (s', RedisErr e) \<Rightarrow> (s', Inl (OtherErr e, []))
      | (s', Reply ids) \<Rightarrow> results_loop rd cd s' [] ids)"

definition get_text :: "'r redis \<Rightarrow> 'r \<Rightarrow> string \<Rightarrow> 'r \<times> (sys_err + string)" where
  "get_text rd s key =
     (case rd_get rd s key of
        (s', NilReply) \<Rightarrow> (s', Inr [])
      | (s', RedisErr e) \<Rightarrow> (s', Inl (OtherErr e))
      | (s', Reply v) \<Rightarrow> (s', Inr v))"

definition GetCheckpointIndex :: "'r redis \<Rightarrow> 'r \<Rightarrow> string \<Rightarrow> 'r \<times> (sys_err + string)" where
  "GetCheckpointIndex rd s pid = get_text rd s (RdbCheckpointIndexPrefix @ pid)"

definition GetCache :: "'r redis \<Rightarrow> 'r \<Rightarrow> string \<Rightarrow> string \<Rightarrow> 'r \<times> (sys_err + string)" where
  "GetCache rd s pid key = get_text rd s (RdbCachePrefix @ pid @ '':'' @ key)"

subsection \<open>Writes (set.go)\<close>

text \<open>A write has no value: \<open>None\<close> is a nil error.\<close>

definition exec_err :: "'r \<times> string option \<Rightarrow> 'r \<times> sys_err option" where
  "exec_err q = (fst q, map_option OtherErr (snd q))"

definition commit_cmds :: "db_codec \<Rightarrow> string \<Rightarrow> int64 \<Rightarrow> bundle_item \<Rightarrow> bundle_item \<Rightarrow> rcmd list" where
  "commit_cmds cd pid nonce msg assign =
     [CSet (RdbProcessNoncePrefix @ pid) (FormatInt nonce),
      CRPush (RdbProcessMsgsPrefix @ pid) (enc_item cd msg),
      CRPush (RdbProcessAssignmentPrefix @ pid) (enc_item cd assign),
      CHSet RdbMsgIndex (item_Id msg) (pid @ '':'' @ FormatInt nonce)]"

definition Commit ::
  "'r redis \<Rightarrow> db_codec \<Rightarrow> 'r \<Rightarrow> string \<Rightarrow> int64 \<Rightarrow> bundle_item \<Rightarrow> bundle_item \<Rightarrow> 'r \<times> sys_err option" where
  "Commit rd cd s pid nonce msg assign = exec_err (rd_exec rd s (commit_cmds cd pid nonce msg assign))"

definition SaveResult :: "'r redis \<Rightarrow> db_codec \<Rightarrow> 'r \<Rightarrow> vmm_result \<Rightarrow> 'r \<times> sys_err option" where
  "SaveResult rd cd s result =
     exec_err (rd_exec rd s
       [CHSet RdbMsgResult (vr_ItemId result) (enc_result cd result),
        CRPush (RdbMsgResultsPrefix @ vr_FromProcess result) (vr_ItemId result)])"

definition RevertSpawn :: "'r redis \<Rightarrow> 'r \<Rightarrow> string \<Rightarrow> 'r \<times> sys_err option" where
  "RevertSpawn rd s pid =
     exec_err (rd_exec rd s
       [CDel (RdbProcessNoncePrefix @ pid), CDel (RdbProcessMsgsPrefix @ pid),
        CDel (RdbProcessAssignmentPrefix @ pid), CHDel RdbMsgIndex pid])"

definition SaveCheckpointIndex :: "'r redis \<Rightarrow> 'r \<Rightarrow> string \<Rightarrow> string \<Rightarrow> 'r \<times> sys_err option" where
  "SaveCheckpointIndex rd s pid i = exec_err (rd_exec rd s [CSet (RdbCheckpointIndexPrefix @ pid) i])"

definition SaveCache :: "'r redis \<Rightarrow> 'r \<Rightarrow> string \<Rightarrow> string \<Rightarrow> string \<Rightarrow> 'r \<times> sys_err option" where
  "SaveCache rd s pid key v = exec_err (rd_exec rd s [CSet (RdbCachePrefix @ pid @ '':'' @ key) v])"

subsection \<open>Outbox (outbox.go)\<close>

definition outbox_key :: "string \<Rightarrow> string \<Rightarrow> string" where
  "outbox_key pid target = RdbOutboxPrefix @ pid @ '':'' @ target"

definition PushOutbox ::
  "'r redis \<Rightarrow> db_codec \<Rightarrow> 'r \<Rightarrow> string \<Rightarrow> string \<Rightarrow> bundle_item \<Rightarrow> 'r \<times> sys_err option" where
  "PushOutbox rd cd s pid target msg =
     exec_err (rd_exec rd s [CRPush (outbox_key pid target) (enc_item cd msg)])"

definition PeekOutbox ::
  "'r redis \<Rightarrow> db_codec \<Rightarrow> 'r \<Rightarrow> string \<Rightarrow> string \<Rightarrow> 'r \<times> (sys_err + bundle_item option)" where
  "PeekOutbox rd cd s pid target = list_item rd cd s (outbox_key pid target) 0"

definition CommitOutbox :: "'r redis \<Rightarrow> 'r \<Rightarrow> string \<Rightarrow> string \<Rightarrow> 'r \<times> sys_err option" where
  "CommitOutbox rd s pid target =
     (case rd_lpop rd s (outbox_key pid target) of
        (s', Reply _) \<Rightarrow> (s', None)
      | (s', NilReply) \<Rightarrow> (s', Some (OtherErr (''no pending target sequence for '' @ pid @ ''/'' @ target)))
      | (s', RedisErr e) \<Rightarrow> (s', Some (OtherErr e)))"

end
