(* ===== verification/Assignment.thy ===== *)
theory Assignment
  imports Rdb
begin

text \<open>
  The order of a process: the node gives every accepted item the next nonce of its process, signs
  an assignment and commits both to the log (node/assignment.go). The clock is an argument; the
  bundler that signs is a parameter.
\<close>

type_synonym signer = "string \<Rightarrow> string \<Rightarrow> tag list \<Rightarrow> bundle_item option"

definition sign_err :: sys_err where "sign_err = OtherErr ''sign''"

definition signAssign ::
  "signer \<Rightarrow> int64 \<Rightarrow> string \<Rightarrow> string \<Rightarrow> int64 \<Rightarrow> sys_err + assignment \<times> bundle_item" where
  "signAssign sign now pid msgid nonce =
     (let assign = \<lparr>asg_Base = DefaultBase TypeAssignment, asg_Process = pid, asg_Message = msgid,
                    asg_Nonce = FormatInt nonce, asg_Timestamp = FormatInt now\<rparr>
      in case AssignmentToTags assign of
           (tags, Some e) \<Rightarrow> Inl (CodecErr e)
         | (tags, None) \<Rightarrow>
             (case sign [] [] tags of None \<Rightarrow> Inl sign_err | Some item \<Rightarrow> Inr (assign, item)))"

text \<open>A non-nil item comes with a nil error or with that of the decoder.\<close>

fun non_nil :: "sys_err + bundle_item option \<Rightarrow> bool" where
  "non_nil (Inr (Some _)) = True"
| "non_nil (Inr None) = False"
| "non_nil (Inl e) = (e = json_err)"

definition assignment_step ::
  "'r redis \<Rightarrow> db_codec \<Rightarrow> signer \<Rightarrow> int64 \<Rightarrow> 'r \<Rightarrow> string \<Rightarrow> bundle_item \<Rightarrow>
     'r \<times> (sys_err + assignment \<times> bundle_item)" where
  "assignment_step rd cd sign now s pid item =
     (case GetMessage rd cd s (item_Id item) of (s1, msg) \<Rightarrow>
      if non_nil msg then (s1, Inl ErrDuplicateItem)
      else case GetNonce rd s1 pid of
        (s2, Inl e) \<Rightarrow> (s2, Inl e)
      | (s2, Inr prev) \<Rightarrow>
          (let nonce = prev + 1 in
           case signAssign sign now pid (item_Id item) nonce of
             Inl e \<Rightarrow> (s2, Inl e)
           | Inr (assign, assignItem) \<Rightarrow>
               (case Commit rd cd s2 pid nonce item assignItem of
                  (s3, Some e) \<Rightarrow> (s3, Inl e)
                | (s3, None) \<Rightarrow> (s3, Inr (assign, assignItem)))))"

subsection \<open>The log\<close>

definition redis_up :: "'r redis \<Rightarrow> bool" where
  "redis_up rd \<longleftrightarrow>
     (\<forall>s k e. snd (rd_get rd s k) \<noteq> RedisErr e) \<and> (\<forall>s k i e. snd (rd_lindex rd s k i) \<noteq> RedisErr e) \<and>
     (\<forall>s k f e. snd (rd_hget rd s k f) \<noteq> RedisErr e) \<and> (\<forall>s cs. snd (rd_exec rd s cs) = None)"

definition codec_ok :: "db_codec \<Rightarrow> bool" where
  "codec_ok cd \<longleftrightarrow> (\<forall>i. dec_item cd (enc_item cd i) = Some i)"

text \<open>What was accepted, in order: process, item, signed assignment.\<close>

type_synonym entry = "string \<times> bundle_item \<times> bundle_item"

definition items_of :: "entry list \<Rightarrow> string \<Rightarrow> bundle_item list" where
  "items_of es p = map (\<lambda>e. fst (snd e)) (filter (\<lambda>e. fst e = p) es)"

definition assigns_of :: "entry list \<Rightarrow> string \<Rightarrow> bundle_item list" where
  "assigns_of es p = map (\<lambda>e. snd (snd e)) (filter (\<lambda>e. fst e = p) es)"

definition place :: "string \<Rightarrow> nat \<Rightarrow> string" where
  "place p j = p @ '':'' @ FormatInt (of_nat j)"

definition indexed :: "entry list \<Rightarrow> string \<Rightarrow> string \<Rightarrow> bool" where
  "indexed es i v \<longleftrightarrow> (\<exists>p j. j < length (items_of es p) \<and> item_Id (items_of es p ! j) = i \<and> v = place p j)"

definition log_ok :: "db_codec \<Rightarrow> keyspace \<Rightarrow> entry list \<Rightarrow> bool" where
  "log_ok cd ks es \<longleftrightarrow>
     (\<forall>p. ks_str ks (RdbProcessNoncePrefix @ p) =
        (if items_of es p = [] then None else Some (FormatInt (of_nat (length (items_of es p)) - 1)))) \<and>
     (\<forall>p. ks_list ks (RdbProcessMsgsPrefix @ p) = map (enc_item cd) (items_of es p)) \<and>
     (\<forall>p. ks_list ks (RdbProcessAssignmentPrefix @ p) = map (enc_item cd) (assigns_of es p)) \<and>
     (\<forall>i v. ks_hash ks RdbMsgIndex i = Some v \<longleftrightarrow> indexed es i v)"

lemma items_of_snoc [simp]:
  "items_of (es @ [(p, x, y)]) q = items_of es q @ (if q = p then [x] else [])"
  "assigns_of (es @ [(p, x, y)]) q = assigns_of es q @ (if q = p then [y] else [])"
  by (auto simp: items_of_def assigns_of_def)

lemma log_ok_empty: "log_ok cd empty_keyspace []"
  by (simp add: log_ok_def empty_keyspace_def items_of_def assigns_of_def indexed_def)

lemma key_neq [simp]:
  "RdbProcessAssignmentPrefix \<noteq> RdbProcessMsgsPrefix"
  "RdbProcessMsgsPrefix \<noteq> RdbProcessAssignmentPrefix"
  "RdbProcessMsgsPrefix @ p \<noteq> RdbProcessAssignmentPrefix @ q"
  "RdbProcessAssignmentPrefix @ q \<noteq> RdbProcessMsgsPrefix @ p"
  by (simp_all add: rdb_keys)

lemma indexed_snoc:
  "indexed (es @ [(p, x, y)]) i v \<longleftrightarrow>
     (i = item_Id x \<and> v = place p (length (items_of es p))) \<or> indexed es i v"
proof
  assume "indexed (es @ [(p, x, y)]) i v"
  then obtain q j where qj: "j < length (items_of (es @ [(p, x, y)]) q)"
    "item_Id (items_of (es @ [(p, x, y)]) q ! j) = i" "v = place q j" unfolding indexed_def by blast
  show "(i = item_Id x \<and> v = place p (length (items_of es p))) \<or> indexed es i v"
  proof (cases "j < length (items_of es q)")
    case True
    with qj show ?thesis by (auto simp: indexed_def nth_append)
  next
    case False
    with qj show ?thesis by (auto simp: nth_append less_Suc_eq split: if_splits)
  qed
next
  assume "(i = item_Id x \<and> v = place p (length (items_of es p))) \<or> indexed es i v"
  then show "indexed (es @ [(p, x, y)]) i v"
  proof
    assume "i = item_Id x \<and> v = place p (length (items_of es p))"
    then show ?thesis
      unfolding indexed_def by (intro exI [of _ p] exI [of _ "length (items_of es p)"]) simp
  next
    assume "indexed es i v"
    then obtain q j where "j < length (items_of es q)" "item_Id (items_of es q ! j) = i" "v = place q j"
      unfolding indexed_def by blast
    then show ?thesis
      unfolding indexed_def by (intro exI [of _ q] exI [of _ j]) (simp add: nth_append)
  qed
qed

text \<open>A complete commit of a new item extends the log.\<close>

lemma log_ok_commit:
  assumes ok: "log_ok cd ks es" and new: "ks_hash ks RdbMsgIndex (item_Id x) = None"
  shows "log_ok cd (ks_cmds ks (commit_cmds cd p (of_nat (length (items_of es p))) x y)) (es @ [(p, x, y)])"
proof -
  have none: "\<not> indexed es (item_Id x) v" for v
    using ok new unfolding log_ok_def by (metis option.distinct(1))
  show ?thesis
    unfolding log_ok_def indexed_snoc
    using ok none by (auto simp: log_ok_def commit_cmds_def place_def)
qed

subsection \<open>Reads of a log\<close>

lemma reply_up:
  assumes "redis_ok rd view" "redis_up rd"
  shows "view (fst (rd_get rd s k)) = view s" "snd (rd_get rd s k) = to_reply (ks_str (view s) k)"
    "view (fst (rd_lindex rd s k i)) = view s" "snd (rd_lindex rd s k i) = to_reply (lindex_of (ks_list (view s) k) i)"
    "view (fst (rd_hget rd s k f)) = view s" "snd (rd_hget rd s k f) = to_reply (ks_hash (view s) k f)"
    "view (fst (rd_exec rd s cs)) = ks_cmds (view s) cs" "snd (rd_exec rd s cs) = None"
proof -
  have r: "reply_of x y \<Longrightarrow> (\<And>e. y \<noteq> RedisErr e) \<Longrightarrow> y = to_reply x" for x y
    by (cases y) auto
  note D = redis_ok_D [OF assms(1)] and up = assms(2) [unfolded redis_up_def]
  show "view (fst (rd_get rd s k)) = view s" "view (fst (rd_lindex rd s k i)) = view s"
    "view (fst (rd_hget rd s k f)) = view s"
    using D(1-3) by (metis prod.collapse)+
  show "snd (rd_get rd s k) = to_reply (ks_str (view s) k)"
    using D(1) [of s k] up by (intro r) (metis prod.collapse, blast)
  show "snd (rd_lindex rd s k i) = to_reply (lindex_of (ks_list (view s) k) i)"
    using D(2) [of s k i] up by (intro r) (metis prod.collapse, blast)
  show "snd (rd_hget rd s k f) = to_reply (ks_hash (view s) k f)"
    using D(3) [of s k f] up by (intro r) (metis prod.collapse, blast)
  show "snd (rd_exec rd s cs) = None" using up by blast
  then show "view (fst (rd_exec rd s cs)) = ks_cmds (view s) cs" using D(7) by (metis prod.collapse)
qed

lemma sint_small: "n < 2 ^ 63 \<Longrightarrow> sint (of_nat n :: int64) = int n"
proof -
  assume n: "n < (2::nat) ^ 63"
  have "sint (of_int (int n) :: int64) = signed_take_bit 63 (int n)"
    by (subst sint_sbintrunc') simp
  moreover have "signed_take_bit 63 (int n) = int n"
    using n by (intro signed_take_bit_int_eq_self) auto
  ultimately show ?thesis by simp
qed

lemma lindex_of_nat: "n < 2 ^ 63 \<Longrightarrow> lindex_of xs (of_nat n) = (if n < length xs then Some (xs ! n) else None)"
  by (simp add: lindex_of_def sint_small Let_def)

lemma IsExist_log:
  assumes "redis_ok rd view" "redis_up rd" "log_ok cd (view s) es"
  shows "view (fst (IsExist rd s p)) = view s" "snd (IsExist rd s p) = Inr (items_of es p \<noteq> [])"
proof -
  have k: "ks_str (view s) (RdbProcessNoncePrefix @ p) =
        (if items_of es p = [] then None else Some (FormatInt (of_nat (length (items_of es p)) - 1)))"
    using assms(3) by (simp add: log_ok_def)
  note g = reply_up(1,2) [OF assms(1,2), of s "RdbProcessNoncePrefix @ p", unfolded k]
  show "view (fst (IsExist rd s p)) = view s" "snd (IsExist rd s p) = Inr (items_of es p \<noteq> [])"
    using g by (cases "rd_get rd s (RdbProcessNoncePrefix @ p)"; auto simp: IsExist_def split: if_splits)+
qed

lemma GetNonce_log:
  assumes "redis_ok rd view" "redis_up rd" "log_ok cd (view s) es"
  shows "view (fst (GetNonce rd s p)) = view s"
    "snd (GetNonce rd s p) = Inr (of_nat (length (items_of es p)) - 1)"
proof -
  obtain s1 b where e: "IsExist rd s p = (s1, b)" by fastforce
  have e1: "view s1 = view s" "b = Inr (items_of es p \<noteq> [])" using IsExist_log [OF assms, of p] e by auto
  have k: "ks_str (view s1) (RdbProcessNoncePrefix @ p) =
        (if items_of es p = [] then None else Some (FormatInt (of_nat (length (items_of es p)) - 1)))"
    using assms(3) by (simp add: log_ok_def e1)
  obtain s2 r where g: "rd_get rd s1 (RdbProcessNoncePrefix @ p) = (s2, r)" by fastforce
  have g1: "view s2 = view s" "r = to_reply (ks_str (view s1) (RdbProcessNoncePrefix @ p))"
    using reply_up(1,2) [OF assms(1,2), of s1 "RdbProcessNoncePrefix @ p"] g e1 by auto
  show "view (fst (GetNonce rd s p)) = view s"
    "snd (GetNonce rd s p) = Inr (of_nat (length (items_of es p)) - 1)"
    using e e1 g g1 k by (auto simp: GetNonce_def)
qed

lemma list_item_log:
  assumes "redis_ok rd view" "redis_up rd" "codec_ok cd" "ks_list (view s) k = map (enc_item cd) xs" "n < 2 ^ 63"
  shows "view (fst (list_item rd cd s k (of_nat n))) = view s"
    "snd (list_item rd cd s k (of_nat n)) = Inr (if n < length xs then Some (xs ! n) else None)"
proof -
  obtain s' r where l: "rd_lindex rd s k (of_nat n) = (s', r)" by fastforce
  have li: "lindex_of (map (enc_item cd) xs) (of_nat n) = (if n < length xs then Some (enc_item cd (xs ! n)) else None)"
    by (subst lindex_of_nat [OF assms(5)]) simp
  have "view s' = view s" "r = to_reply (if n < length xs then Some (enc_item cd (xs ! n)) else None)"
    using reply_up(3,4) [OF assms(1,2), of s k "of_nat n"] l unfolding assms(4) li by auto
  with l assms(3) show "view (fst (list_item rd cd s k (of_nat n))) = view s"
    "snd (list_item rd cd s k (of_nat n)) = Inr (if n < length xs then Some (xs ! n) else None)"
    by (auto simp: list_item_def codec_ok_def)
qed

lemma GetMessage_absent:
  assumes "redis_ok rd view" "redis_up rd" "log_ok cd (view s) es" and "\<And>v. \<not> indexed es i v"
  shows "view (fst (GetMessage rd cd s i)) = view s" "snd (GetMessage rd cd s i) = Inr None"
proof -
  have "ks_hash (view s) RdbMsgIndex i = None"
    using assms(3,4) unfolding log_ok_def by (metis option.exhaust)
  then have "view (fst (rd_hget rd s RdbMsgIndex i)) = view s" "snd (rd_hget rd s RdbMsgIndex i) = NilReply"
    using reply_up(5,6) [OF assms(1,2), of s RdbMsgIndex i] by auto
  then show "view (fst (GetMessage rd cd s i)) = view s" "snd (GetMessage rd cd s i) = Inr None"
    by (cases "rd_hget rd s RdbMsgIndex i"; simp add: GetMessage_def)+
qed

lemma GetMessage_present:
  assumes ok: "redis_ok rd view" "redis_up rd" "codec_ok cd" "log_ok cd (view s) es" and len: "j < 2 ^ 63"
    and p: "CHR '':'' \<notin> set p" and j: "j < length (items_of es p)" "item_Id (items_of es p ! j) = i"
  shows "view (fst (GetMessage rd cd s i)) = view s" "snd (GetMessage rd cd s i) = Inr (Some (items_of es p ! j))"
proof -
  have "indexed es i (place p j)" using j by (auto simp: indexed_def)
  then have h: "ks_hash (view s) RdbMsgIndex i = Some (place p j)" using ok(4) by (simp add: log_ok_def)
  obtain s1 r where g: "rd_hget rd s RdbMsgIndex i = (s1, r)" by fastforce
  have s1: "view s1 = view s" "r = Reply (place p j)"
    using reply_up(5,6) [OF ok(1,2), of s RdbMsgIndex i] g h by auto
  have sp: "Split CHR '':'' (place p j) = [p, FormatInt (of_nat j)]"
    by (simp add: place_def Split_append_sep [OF p] Split_no_sep colon_notin_FormatInt)
  have l: "ks_list (view s1) (RdbProcessMsgsPrefix @ p) = map (enc_item cd) (items_of es p)"
    using ok(4) by (simp add: log_ok_def s1)
  note li = list_item_log [OF ok(1-3) l len]
  have "GetMessage rd cd s i = list_item rd cd s1 (RdbProcessMsgsPrefix @ p) (of_nat j)"
    by (simp add: GetMessage_def g s1 sp GetMessageByNonce_def)
  then show "view (fst (GetMessage rd cd s i)) = view s" "snd (GetMessage rd cd s i) = Inr (Some (items_of es p ! j))"
    using li s1 j by simp_all
qed

subsection \<open>One assignment\<close>

lemma sign_tags: "snd (AssignmentToTags \<lparr>asg_Base = DefaultBase TypeAssignment, asg_Process = pid,
    asg_Message = m, asg_Nonce = n, asg_Timestamp = t\<rparr>) = None"
  by (simp add: AssignmentToTags_def BaseToTags_def DefaultBase_def Let_def)

text \<open>An item is refused as a duplicate exactly when it is in the log; a new one that can be signed
  gets the next nonce of its process and extends the log.\<close>

lemma assignment_step_log:
  assumes ok: "redis_ok rd view" "redis_up rd" "codec_ok cd" "log_ok cd (view s) es" and len: "length es < 2 ^ 63"
    and colon: "\<forall>e \<in> set es. CHR '':'' \<notin> set (fst e)"
    and st: "assignment_step rd cd sign now s pid x = (s', out)"
  shows "(\<exists>v. indexed es (item_Id x) v) \<and> out = Inl ErrDuplicateItem \<and> view s' = view s \<or>
    \<not> (\<exists>v. indexed es (item_Id x) v) \<and> out = Inl sign_err \<and> view s' = view s \<or>
    \<not> (\<exists>v. indexed es (item_Id x) v) \<and>
      (\<exists>a y. out = Inr (a, y) \<and> asg_Process a = pid \<and> asg_Message a = item_Id x \<and>
         asg_Nonce a = FormatInt (of_nat (length (items_of es pid))) \<and>
         log_ok cd (view s') (es @ [(pid, x, y)]))"
proof (cases "\<exists>v. indexed es (item_Id x) v")
  case True
  then obtain p j where j: "j < length (items_of es p)" "item_Id (items_of es p ! j) = item_Id x"
    by (auto simp: indexed_def)
  then have "items_of es p \<noteq> []" by auto
  then have p: "CHR '':'' \<notin> set p" using colon by (auto simp: items_of_def filter_empty_conv)
  have "length (items_of es p) \<le> length es" by (simp add: items_of_def)
  with j len have "j < 2 ^ 63" by simp
  from GetMessage_present [OF ok this p j] st True show ?thesis
    by (cases "GetMessage rd cd s (item_Id x)") (auto simp: assignment_step_def)
next
  case False
  then have none: "\<And>v. \<not> indexed es (item_Id x) v" by blast
  obtain s1 m where g: "GetMessage rd cd s (item_Id x) = (s1, m)" by fastforce
  have s1: "view s1 = view s" "m = Inr None" using GetMessage_absent [OF ok(1,2,4) none] g by auto
  have ok1: "log_ok cd (view s1) es" using ok(4) s1 by simp
  obtain s2 n where gn: "GetNonce rd s1 pid = (s2, n)" by fastforce
  have s2: "view s2 = view s" "n = Inr (of_nat (length (items_of es pid)) - 1)"
    using GetNonce_log [OF ok(1,2) ok1, of pid] gn s1 by auto
  let ?n = "of_nat (length (items_of es pid)) :: int64"
  show ?thesis
  proof (cases "signAssign sign now pid (item_Id x) ?n")
    case (Inl e)
    then have "e = sign_err"
      using sign_tags [of pid "item_Id x" "FormatInt ?n" "FormatInt now"]
      by (cases "AssignmentToTags \<lparr>asg_Base = DefaultBase TypeAssignment, asg_Process = pid,
            asg_Message = item_Id x, asg_Nonce = FormatInt ?n, asg_Timestamp = FormatInt now\<rparr>")
         (auto simp: signAssign_def Let_def split: option.splits)
    with Inl st g s1 gn s2 none show ?thesis by (auto simp: assignment_step_def Let_def)
  next
    case (Inr ay)
    obtain a y where ay: "ay = (a, y)" by fastforce
    have a: "asg_Process a = pid" "asg_Message a = item_Id x" "asg_Nonce a = FormatInt ?n"
      using Inr by (auto simp: ay signAssign_def Let_def split: prod.splits option.splits)
    obtain s3 e where c: "rd_exec rd s2 (commit_cmds cd pid ?n x y) = (s3, e)" by fastforce
    have s3: "view s3 = ks_cmds (view s) (commit_cmds cd pid ?n x y)" "e = None"
      using reply_up(7,8) [OF ok(1,2), of s2 "commit_cmds cd pid ?n x y"] c s2 by auto
    have "ks_hash (view s) RdbMsgIndex (item_Id x) = None"
      using ok(4) none unfolding log_ok_def by (metis option.exhaust)
    from log_ok_commit [OF ok(4) this] s3 have "log_ok cd (view s3) (es @ [(pid, x, y)])" by simp
    moreover have "s' = s3" "out = Inr (a, y)"
      using st g s1 gn s2 Inr ay c s3 by (auto simp: assignment_step_def Let_def Commit_def exec_err_def)
    ultimately show ?thesis using a none by auto
  qed
qed

subsection \<open>Histories\<close>

text \<open>The calls of \<open>assignment\<close> of the two channel loops, with the time of each.\<close>

fun assign_run ::
  "'r redis \<Rightarrow> db_codec \<Rightarrow> signer \<Rightarrow> 'r \<Rightarrow> (int64 \<times> string \<times> bundle_item) list \<Rightarrow>
     'r \<times> (sys_err + assignment \<times> bundle_item) list" where
  "assign_run rd cd sign s [] = (s, [])"
| "assign_run rd cd sign s ((now, pid, x) # cs) =
     (let (s1, out) = assignment_step rd cd sign now s pid x; (s2, outs) = assign_run rd cd sign s1 cs
      in (s2, out # outs))"

fun accepted :: "(int64 \<times> string \<times> bundle_item) list \<Rightarrow> (sys_err + assignment \<times> bundle_item) list \<Rightarrow> entry list" where
  "accepted ((now, pid, x) # cs) (Inr (a, y) # outs) = (pid, x, y) # accepted cs outs"
| "accepted (c # cs) (Inl e # outs) = accepted cs outs"
| "accepted _ _ = []"

fun nonces_of :: "string \<Rightarrow> (sys_err + assignment \<times> bundle_item) list \<Rightarrow> string list" where
  "nonces_of p [] = []"
| "nonces_of p (Inl e # outs) = nonces_of p outs"
| "nonces_of p (Inr (a, y) # outs) = (if asg_Process a = p then [asg_Nonce a] else []) @ nonces_of p outs"

abbreviation entry_ids :: "entry list \<Rightarrow> string list" where
  "entry_ids \<equiv> map (\<lambda>e. item_Id (fst (snd e)))"

lemma indexed_ids: "(\<exists>v. indexed es i v) \<longleftrightarrow> i \<in> set (entry_ids es)"
proof
  assume "\<exists>v. indexed es i v"
  then obtain p j where j: "j < length (items_of es p)" "item_Id (items_of es p ! j) = i" by (auto simp: indexed_def)
  from j(1) have "items_of es p ! j \<in> set (items_of es p)" by simp
  then obtain e where "e \<in> set es" "items_of es p ! j = fst (snd e)"
    unfolding items_of_def by (auto simp del: nth_map)
  with j(2) show "i \<in> set (entry_ids es)" by auto
next
  assume "i \<in> set (entry_ids es)"
  then obtain p x y where e: "(p, x, y) \<in> set es" "item_Id x = i" by auto
  then have "x \<in> set (items_of es p)" by (force simp: items_of_def)
  then obtain j where "j < length (items_of es p)" "items_of es p ! j = x" by (auto simp: in_set_conv_nth)
  with e(2) show "\<exists>v. indexed es i v" by (auto simp: indexed_def)
qed

lemma items_of_append: "items_of (es @ es') p = items_of es p @ items_of es' p"
  "assigns_of (es @ es') p = assigns_of es p @ assigns_of es' p"
  by (simp_all add: items_of_def assigns_of_def)

lemma assign_run_log:
  assumes ok: "redis_ok rd view" "redis_up rd" "codec_ok cd"
  shows "log_ok cd (view s) es \<Longrightarrow> length es + length cs < 2 ^ 63 \<Longrightarrow>
    \<forall>e \<in> set es. CHR '':'' \<notin> set (fst e) \<Longrightarrow> \<forall>c \<in> set cs. CHR '':'' \<notin> set (fst (snd c)) \<Longrightarrow>
    distinct (entry_ids es) \<Longrightarrow> assign_run rd cd sign s cs = (s', outs) \<Longrightarrow>
    log_ok cd (view s') (es @ accepted cs outs) \<and> distinct (entry_ids (es @ accepted cs outs)) \<and>
    (\<forall>e \<in> set (accepted cs outs). CHR '':'' \<notin> set (fst e)) \<and>
    length (accepted cs outs) \<le> length cs \<and>
    nonces_of p outs = map (\<lambda>j. FormatInt (of_nat j))
      [length (items_of es p)..<length (items_of (es @ accepted cs outs) p)]"
proof (induction cs arbitrary: s es outs)
  case (Cons c cs)
  obtain now pid x where c: "c = (now, pid, x)" by (metis prod_cases3)
  obtain s1 out where st: "assignment_step rd cd sign now s pid x = (s1, out)" by fastforce
  obtain outs1 where r: "assign_run rd cd sign s1 cs = (s', outs1)" and outs: "outs = out # outs1"
    using Cons.prems(6) by (auto simp: c st split: prod.splits)
  have "length es < 2 ^ 63" using Cons.prems(2) by simp
  from assignment_step_log [OF ok Cons.prems(1) this Cons.prems(3) st]
  consider (no) e where "out = Inl e" "view s1 = view s"
    | (yes) a y where "item_Id x \<notin> set (entry_ids es)" "out = Inr (a, y)" "asg_Process a = pid"
        "asg_Nonce a = FormatInt (of_nat (length (items_of es pid)))" "log_ok cd (view s1) (es @ [(pid, x, y)])"
    unfolding indexed_ids by blast
  then show ?case
  proof cases
    case no
    then have acc: "accepted (c # cs) outs = accepted cs outs1" and nn: "nonces_of p outs = nonces_of p outs1"
      by (simp_all add: outs c)
    have "log_ok cd (view s1) es" using Cons.prems(1) no by simp
    from Cons.IH [OF this _ Cons.prems(3) _ Cons.prems(5) r] Cons.prems(2,4) show ?thesis
      unfolding acc nn by simp
  next
    case yes
    have acc: "es @ accepted (c # cs) outs = (es @ [(pid, x, y)]) @ accepted cs outs1"
      "accepted (c # cs) outs = (pid, x, y) # accepted cs outs1"
      by (simp_all add: outs c yes(2))
    have colon: "CHR '':'' \<notin> set pid" using Cons.prems(4) by (simp add: c)
    have "length (es @ [(pid, x, y)]) + length cs < 2 ^ 63"
      "\<forall>e \<in> set (es @ [(pid, x, y)]). CHR '':'' \<notin> set (fst e)"
      "\<forall>c \<in> set cs. CHR '':'' \<notin> set (fst (snd c))" "distinct (entry_ids (es @ [(pid, x, y)]))"
      using Cons.prems(2-5) colon yes(1) by auto
    note IH = Cons.IH [OF yes(5) this r]
    have "nonces_of p outs = (if pid = p then [FormatInt (of_nat (length (items_of es pid)))] else []) @ nonces_of p outs1"
      by (simp add: outs yes(2-4))
    also have "\<dots> = map (\<lambda>j. FormatInt (of_nat j))
      [length (items_of es p)..<length (items_of (es @ accepted (c # cs) outs) p)]"
    proof -
      have le: "length (items_of (es @ [(pid, x, y)]) p) \<le> length (items_of ((es @ [(pid, x, y)]) @ accepted cs outs1) p)"
        unfolding items_of_append(1) [of "es @ [(pid, x, y)]"] by simp
      show ?thesis
      proof (cases "pid = p")
        case True
        with le have "[length (items_of es p)..<length (items_of ((es @ [(pid, x, y)]) @ accepted cs outs1) p)] =
            length (items_of es p) # [Suc (length (items_of es p))..<length (items_of ((es @ [(pid, x, y)]) @ accepted cs outs1) p)]"
          by (intro upt_conv_Cons) simp
        with True IH show ?thesis unfolding acc(1) by simp
      next
        case False
        with IH show ?thesis unfolding acc(1) by simp
      qed
    qed
    finally have "nonces_of p outs = map (\<lambda>j. FormatInt (of_nat j))
      [length (items_of es p)..<length (items_of (es @ accepted (c # cs) outs) p)]" .
    with IH colon show ?thesis unfolding acc by simp
  qed
qed simp

text \<open>C33: the order of a process has no gap and no item twice. Starting from an empty database that
  does not fail, whatever items arrive for whatever processes, no item is accepted twice, the
  items accepted for a process get the nonces 0, 1, 2, ... in order, the stored nonce is the last of
  them, and every accepted item is read back, with its assignment, under its nonce and by its id.\<close>

theorem assignment_order:
  assumes "redis_ok rd view" and "redis_up rd" and "codec_ok cd" and "view s0 = empty_keyspace"
    and "length cs < 2 ^ 63" and "\<forall>c \<in> set cs. CHR '':'' \<notin> set (fst (snd c))"
    and "assign_run rd cd sign s0 cs = (s, outs)"
  shows "let es = accepted cs outs in
     distinct (entry_ids es) \<and>
     (\<forall>p. let n = length (items_of es p) in
        nonces_of p outs = map (\<lambda>j. FormatInt (of_nat j)) [0..<n] \<and>
        snd (GetNonce rd s p) = Inr (of_nat n - 1) \<and>
        (\<forall>j < n. snd (GetMessageByNonce rd cd s p (of_nat j)) = Inr (Some (items_of es p ! j)) \<and>
           snd (GetAssignByNonce rd cd s p (of_nat j)) = Inr (Some (assigns_of es p ! j)) \<and>
           snd (GetMessage rd cd s (item_Id (items_of es p ! j))) = Inr (Some (items_of es p ! j))))"
proof -
  define es where "es = accepted cs outs"
  have init: "log_ok cd (view s0) []" using assms(4) log_ok_empty by simp
  note run = assign_run_log [OF assms(1-3) init _ _ assms(6) _ assms(7)]
  have log: "log_ok cd (view s) es" and dist: "distinct (entry_ids es)" and len: "length es \<le> length cs"
    and colon: "\<forall>e \<in> set es. CHR '':'' \<notin> set (fst e)"
    using run assms(5) by (simp_all add: es_def)
  have nn: "nonces_of p outs = map (\<lambda>j. FormatInt (of_nat j)) [0..<length (items_of es p)]" for p
    using run [of p] assms(5) by (simp add: es_def items_of_def)
  have small: "j < 2 ^ 63" if "j < length (items_of es p)" for j p
  proof -
    have "length (items_of es p) \<le> length es" by (simp add: items_of_def)
    with that len assms(5) show ?thesis by simp
  qed
  have al: "length (assigns_of es p) = length (items_of es p)" for p by (simp add: items_of_def assigns_of_def)
  have lists: "ks_list (view s) (RdbProcessMsgsPrefix @ p) = map (enc_item cd) (items_of es p)"
    "ks_list (view s) (RdbProcessAssignmentPrefix @ p) = map (enc_item cd) (assigns_of es p)" for p
    using log by (simp_all add: log_ok_def)
  have reads: "snd (GetMessageByNonce rd cd s p (of_nat j)) = Inr (Some (items_of es p ! j)) \<and>
      snd (GetAssignByNonce rd cd s p (of_nat j)) = Inr (Some (assigns_of es p ! j)) \<and>
      snd (GetMessage rd cd s (item_Id (items_of es p ! j))) = Inr (Some (items_of es p ! j))"
    if j: "j < length (items_of es p)" for p j
  proof -
    have "items_of es p \<noteq> []" using j by auto
    then have p: "CHR '':'' \<notin> set p" using colon by (auto simp: items_of_def filter_empty_conv)
    show ?thesis
      using list_item_log(2) [OF assms(1-3) lists(1) small [OF j], of p]
        list_item_log(2) [OF assms(1-3) lists(2) small [OF j], of p]
        GetMessage_present(2) [OF assms(1-3) log small [OF j] p j refl] j al [of p]
      by (simp add: GetMessageByNonce_def GetAssignByNonce_def)
  qed
  show ?thesis
    unfolding es_def [symmetric] Let_def using dist nn reads GetNonce_log(2) [OF assms(1,2) log] by blast
qed

subsection \<open>A commit that breaks\<close>

text \<open>a broken commit shifts the log. The pipeline of \<open>Commit\<close> is not a transaction: when it breaks
  after its first command, the nonce of the process has advanced and nothing else happened. The item
  is not in the database although its nonce is used up, and the next item that is accepted gets the
  following nonce while it is stored at the previous position: its nonce reads back as no item.\<close>

theorem Commit_torn:
  assumes "redis_ok rd view" and "codec_ok cd" and "log_ok cd (view s) es" and "length (items_of es pid) < 2 ^ 62"
    and "Commit rd cd s pid (of_nat (length (items_of es pid))) x y = (s1, Some e)"
    and "view s1 = ks_cmds (view s) (take 1 (commit_cmds cd pid (of_nat (length (items_of es pid))) x y))"
    and "GetNonce rd s1 pid = (s2, Inr n)" and "Commit rd cd s2 pid (n + 1) x' y' = (s3, None)"
  shows "n + 1 = of_nat (length (items_of es pid)) + 1 \<and> view s1 \<noteq> view s \<and>
    ks_list (view s3) (RdbProcessMsgsPrefix @ pid) = map (enc_item cd) (items_of es pid @ [x']) \<and>
    lindex_of (ks_list (view s3) (RdbProcessMsgsPrefix @ pid)) (n + 1) = None \<and>
    lindex_of (ks_list (view s3) (RdbProcessMsgsPrefix @ pid)) (of_nat (length (items_of es pid))) = Some (enc_item cd x')"
proof -
  let ?k = "length (items_of es pid)" and ?key = "RdbProcessNoncePrefix @ pid"
  have v1: "view s1 = (view s)\<lparr>ks_str := (ks_str (view s))(?key \<mapsto> FormatInt (of_nat ?k))\<rparr>"
    using assms(6) by (simp add: commit_cmds_def)
  have "view s2 = view s1 \<and> n = of_nat ?k"
  proof -
    obtain sa ra where a: "IsExist rd s1 pid = (sa, ra)" by fastforce
    have va: "view sa = view s1" "ra \<noteq> Inr False"
      using a redis_ok_D(1) [OF assms(1), of s1 ?key] v1
      by (auto simp: IsExist_def split: prod.splits reply.splits)
    from a assms(7) obtain b where b: "ra = Inr b" by (cases ra) (auto simp: GetNonce_def)
    with va have "ra = Inr True" by (cases b) auto
    then obtain rb where g: "rd_get rd sa ?key = (s2, Reply rb)" "ParseInt rb = Some n"
      using assms(7) a by (auto simp: GetNonce_def split: prod.splits reply.splits option.splits)
    from redis_ok_D(1) [OF assms(1) g(1)] va v1 g(2) show ?thesis by auto
  qed
  then have v2: "view s2 = view s1" and n: "n = of_nat ?k" by auto
  have "view s3 = ks_cmds (view s2) (commit_cmds cd pid (n + 1) x' y')"
    using assms(8) redis_ok_D(7) [OF assms(1), of s2 "commit_cmds cd pid (n + 1) x' y'"]
    by (cases "rd_exec rd s2 (commit_cmds cd pid (n + 1) x' y')") (auto simp: Commit_def exec_err_def)
  then have list: "ks_list (view s3) (RdbProcessMsgsPrefix @ pid) = map (enc_item cd) (items_of es pid @ [x'])"
    using assms(3) by (simp add: commit_cmds_def v2 v1 log_ok_def)
  have suc: "n + 1 = of_nat (Suc ?k)" by (simp add: n)
  have small: "Suc ?k < 2 ^ 63" "?k < 2 ^ 63" using assms(4) by simp_all
  have "ks_str (view s1) ?key \<noteq> ks_str (view s) ?key"
  proof
    assume "ks_str (view s1) ?key = ks_str (view s) ?key"
    then have "Some (FormatInt (of_nat ?k)) =
        (if items_of es pid = [] then None else Some (FormatInt (of_nat ?k - 1)))"
      using assms(3) v1 by (simp add: log_ok_def)
    then have "(of_nat ?k :: int64) = of_nat ?k - 1" by (auto simp: FormatInt_inj split: if_splits)
    then show False by simp
  qed
  then have "view s1 \<noteq> view s" by auto
  moreover have "lindex_of (ks_list (view s3) (RdbProcessMsgsPrefix @ pid)) (n + 1) = None"
    unfolding list suc lindex_of_nat [OF small(1)] by simp
  moreover have "lindex_of (ks_list (view s3) (RdbProcessMsgsPrefix @ pid)) (of_nat ?k) = Some (enc_item cd x')"
    unfolding list lindex_of_nat [OF small(2)] by (simp add: nth_append)
  ultimately show ?thesis using list n by simp
qed

subsection \<open>Instances\<close>

text \<open>A codec with the round trip: every string is written with a mark before each byte and a final
  mark, an item as the sequence of its strings.\<close>

definition enc_str :: "string \<Rightarrow> string" where
  "enc_str s = concat (map (\<lambda>c. [CHR ''1'', c]) s) @ ''0''"

fun dec_str :: "string \<Rightarrow> (string \<times> string) option" where
  "dec_str [] = None"
| "dec_str [a] = (if a = CHR ''0'' then Some ([], []) else None)"
| "dec_str (a # c # r) =
     (if a = CHR ''0'' then Some ([], c # r) else map_option (\<lambda>(s, t). (c # s, t)) (dec_str r))"

lemma dec_str_end [simp]: "dec_str (CHR ''0'' # r) = Some ([], r)"
  by (cases r) auto

lemma dec_enc_str [simp]: "dec_str (enc_str s @ r) = Some (s, r)"
  by (induction s) (auto simp: enc_str_def)

fun dec_strs :: "nat \<Rightarrow> string \<Rightarrow> string list option" where
  "dec_strs n [] = Some []"
| "dec_strs 0 (c # cs) = None"
| "dec_strs (Suc n) (c # cs) =
     (case dec_str (c # cs) of None \<Rightarrow> None | Some (x, r) \<Rightarrow> map_option ((#) x) (dec_strs n r))"

lemma dec_strs_enc: "length xs \<le> n \<Longrightarrow> dec_strs n (concat (map enc_str xs)) = Some xs"
proof (induction xs arbitrary: n)
  case (Cons x xs)
  then obtain m where n: "n = Suc m" "length xs \<le> m" by (cases n) auto
  obtain c cs where c: "enc_str x @ concat (map enc_str xs) = c # cs"
    by (cases "enc_str x @ concat (map enc_str xs)") (auto simp: enc_str_def)
  have "dec_str (c # cs) = Some (x, concat (map enc_str xs))" using dec_enc_str [of x "concat (map enc_str xs)"] c by simp
  with Cons.IH [OF n(2)] n c show ?case by simp
qed simp

fun sig_text :: "sig_type \<Rightarrow> string" where
  "sig_text ArweaveSignType = ''a''"
| "sig_text EthereumSignType = ''e''"
| "sig_text (OtherSignType n) = CHR ''o'' # CHR ''o'' # replicate n CHR ''o''"

definition text_sig :: "string \<Rightarrow> sig_type" where
  "text_sig s = (if s = ''a'' then ArweaveSignType else if s = ''e'' then EthereumSignType else OtherSignType (length s - 2))"

fun tag_strs :: "tag list \<Rightarrow> string list" where
  "tag_strs [] = []"
| "tag_strs (t # ts) = tag_Name t # tag_Value t # tag_strs ts"

fun strs_tags :: "string list \<Rightarrow> tag list" where
  "strs_tags (a # b # r) = Tag a b # strs_tags r"
| "strs_tags _ = []"

definition demo_codec :: db_codec where
  "demo_codec =
     \<lparr>enc_item = (\<lambda>i. concat (map enc_str ([item_Id i, sig_text (item_SignatureType i), item_Owner i,
        item_Target i, item_Data i] @ tag_strs (item_Tags i)))),
      dec_item = (\<lambda>s. case dec_strs (length s) s of
        Some (a # b # c # d # e # ts) \<Rightarrow> Some \<lparr>item_Id = a, item_SignatureType = text_sig b, item_Owner = c,
          item_Target = d, item_Tags = strs_tags ts, item_Data = e\<rparr>
      | _ \<Rightarrow> None),
      enc_result = (\<lambda>_. []), dec_result = (\<lambda>_. None)\<rparr>"

lemma length_concat_enc: "length xs \<le> length (concat (map enc_str xs))"
  by (induction xs) (auto simp: enc_str_def)

lemma demo_codec_ok: "codec_ok demo_codec"
proof -
  have t: "strs_tags (tag_strs ts) = ts" for ts by (induction ts) auto
  have s: "text_sig (sig_text x) = x" for x by (cases x) (auto simp: text_sig_def)
  have "dec_item demo_codec (enc_item demo_codec i) = Some i" for i
    using dec_strs_enc [OF length_concat_enc, of "[item_Id i, sig_text (item_SignatureType i), item_Owner i,
        item_Target i, item_Data i] @ tag_strs (item_Tags i)"]
    by (simp add: demo_codec_def t s)
  then show ?thesis by (simp add: codec_ok_def)
qed

definition demo_item :: "string \<Rightarrow> bundle_item" where
  "demo_item i = \<lparr>item_Id = i, item_SignatureType = ArweaveSignType, item_Owner = [], item_Target = ''p'',
     item_Tags = [], item_Data = []\<rparr>"

definition demo_signer :: signer where
  "demo_signer data target tags = Some ((demo_item ''sig'')\<lparr>item_Tags := tags\<rparr>)"

definition demo_up :: "(keyspace \<times> nat list) redis" where
  "demo_up = demo_redis\<lparr>rd_exec := \<lambda>s cs. ((ks_cmds (fst s) cs, snd s), None)\<rparr>"

lemma demo_up_ok: "redis_ok demo_up fst" "redis_up demo_up"
proof -
  have t: "to_reply x \<noteq> RedisErr e" for x :: "string option" and e by (cases x) auto
  show "redis_ok demo_up fst"
    using demo_redis_ok unfolding redis_ok_def by (simp add: demo_up_def)
  show "redis_up demo_up" by (simp add: redis_up_def demo_up_def demo_redis_def t)
qed

lemma demo_signs: "\<exists>a y. signAssign demo_signer t p m n = Inr (a, y)"
  using sign_tags [of p m "FormatInt n" "FormatInt t"]
  by (cases "AssignmentToTags \<lparr>asg_Base = DefaultBase TypeAssignment, asg_Process = p,
        asg_Message = m, asg_Nonce = FormatInt n, asg_Timestamp = FormatInt t\<rparr>")
     (auto simp: signAssign_def demo_signer_def Let_def)

theorem assignment_order_witness:
  "\<exists>s outs. assign_run demo_up demo_codec demo_signer (empty_keyspace, [])
      [(5, ''p'', demo_item ''m1''), (6, ''p'', demo_item ''m2'')] = (s, outs) \<and>
     accepted [(5, ''p'', demo_item ''m1''), (6, ''p'', demo_item ''m2'')] outs \<noteq> [] \<and>
     distinct (entry_ids (accepted [(5, ''p'', demo_item ''m1''), (6, ''p'', demo_item ''m2'')] outs))"
proof -
  let ?cs = "[(5, ''p'', demo_item ''m1''), (6, ''p'', demo_item ''m2'')] :: (int64 \<times> string \<times> bundle_item) list"
  obtain s outs where r: "assign_run demo_up demo_codec demo_signer (empty_keyspace, []) ?cs = (s, outs)" by fastforce
  have "\<exists>a y s1. assignment_step demo_up demo_codec demo_signer 5 (empty_keyspace, []) ''p'' (demo_item ''m1'') = (s1, Inr (a, y))"
  proof -
    obtain a y where "signAssign demo_signer 5 ''p'' ''m1'' 0 = Inr (a, y)" using demo_signs by blast
    then show ?thesis
      by (simp add: assignment_step_def demo_up_def demo_redis_def GetMessage_def GetNonce_def IsExist_def
          Commit_def exec_err_def empty_keyspace_def demo_item_def Let_def)
  qed
  with r have "accepted ?cs outs \<noteq> []" by (auto split: prod.splits)
  moreover have "fst (empty_keyspace, [] :: nat list) = empty_keyspace" by simp
  from assignment_order [OF demo_up_ok demo_codec_ok this _ _ r] have "distinct (entry_ids (accepted ?cs outs))"
    by (simp add: Let_def)
  ultimately show ?thesis using r by blast
qed

theorem Commit_torn_witness:
  "\<exists>s1 s3 n. Commit demo_redis demo_codec (empty_keyspace, [1]) ''p'' 0 (demo_item ''m1'') (demo_item ''a1'') =
       (s1, Some (OtherErr ''EOF'')) \<and>
     Commit demo_redis demo_codec s1 ''p'' (n + 1) (demo_item ''m2'') (demo_item ''a2'') = (s3, None) \<and>
     n + 1 = 1 \<and> lindex_of (ks_list (fst s3) (RdbProcessMsgsPrefix @ ''p'')) 1 = None"
proof -
  let ?s = "(empty_keyspace, [1 :: nat])"
  let ?cmds = "commit_cmds demo_codec ''p'' 0 (demo_item ''m1'') (demo_item ''a1'')"
  let ?s1 = "(ks_cmds empty_keyspace (take 1 ?cmds), [] :: nat list)"
  have c: "Commit demo_redis demo_codec ?s ''p'' (of_nat (length (items_of [] ''p''))) (demo_item ''m1'') (demo_item ''a1'') =
      (?s1, Some (OtherErr ''EOF''))"
    by (simp add: Commit_def exec_err_def demo_redis_def exec_with_def items_of_def commit_cmds_def)
  have v: "fst ?s1 = ks_cmds (fst ?s) (take 1 (commit_cmds demo_codec ''p'' (of_nat (length (items_of [] ''p'')))
      (demo_item ''m1'') (demo_item ''a1'')))"
    by (simp add: items_of_def)
  have g: "GetNonce demo_redis ?s1 ''p'' = (?s1, Inr 0)"
    by (simp add: GetNonce_def IsExist_def demo_redis_def commit_cmds_def empty_keyspace_def)
  obtain s3 where c2: "Commit demo_redis demo_codec ?s1 ''p'' (0 + 1) (demo_item ''m2'') (demo_item ''a2'') = (s3, None)"
    by (simp add: Commit_def exec_err_def demo_redis_def exec_with_def)
  have l: "log_ok demo_codec (fst ?s) []" using log_ok_empty by simp
  have z: "length (items_of [] ''p'') < 2 ^ 62" by (simp add: items_of_def)
  note t = Commit_torn [OF demo_redis_ok demo_codec_ok l z c v g c2]
  then have "lindex_of (ks_list (fst s3) (RdbProcessMsgsPrefix @ ''p'')) (0 + 1) = None" by (elim conjE)
  with c c2 show ?thesis
    by (intro exI [of _ ?s1] exI [of _ s3] exI [of _ 0]) (simp add: items_of_def)
qed

end
