(* ===== verification/NodeHandle.thy ===== *)
theory NodeHandle
  imports VmmLife Assignment
begin

text \<open>
  The entry of the node (node/handle.go, message.go, spawn.go, vm.go): which items are accepted and
  queued for assignment, and the two loops that give them an order and apply them (channel.go).
  Parameters of the model: the handlers of the operator (\<open>'h\<close> is their state), the read of an item
  from another node, the load of a module, and the length of a task queue at the time of a call.
\<close>

subsection \<open>State\<close>

record assign_message =
  am_Pid :: string
  am_AccId :: string
  am_Message :: msg
  am_Item :: bundle_item

record assign_process =
  ap_Pid :: string
  ap_AccId :: string
  ap_Process :: process
  ap_Item :: bundle_item

record ('s, 'r, 'h) node_cfg =
  nc_lib :: extlib
  nc_redis :: "'r redis"
  nc_codec :: db_codec
  nc_sign :: signer
  nc_ops :: "'s vm_ops"
  nc_cryptor :: "(string \<Rightarrow> string option) option"
  nc_address :: string
  nc_handlers :: "('h \<Rightarrow> item_meta \<Rightarrow> 'h \<times> sys_err option) list"
  nc_fetch :: "string \<Rightarrow> string \<Rightarrow> sys_err + bundle_item"
  nc_module :: "string \<Rightarrow> sys_err + module"

record ('s, 'r, 'h) node_state =
  ns_vmm :: "'s vmm"
  ns_db :: 'r
  ns_handler :: 'h
  ns_mes :: "assign_message list"
  ns_proc :: "assign_process list"
  ns_AccId :: string
  ns_Token :: string
  ns_Registry :: string

text \<open>\<open>Info\<close> refreshes the ids of the core processes.\<close>

definition Node_Info :: "('s, 'r, 'h) node_state \<Rightarrow> ('s, 'r, 'h) node_state" where
  "Node_Info st =
     st\<lparr>ns_Token := (if Vmm_TokenId (ns_vmm st) \<noteq> [] then Vmm_TokenId (ns_vmm st) else ns_Token st),
        ns_Registry := (if Vmm_RegistryId (ns_vmm st) \<noteq> [] then Vmm_RegistryId (ns_vmm st) else ns_Registry st)\<rparr>"

subsection \<open>Queries (node.go, vm.go)\<close>

definition IsRedirect :: "('s, 'r, 'h) node_cfg \<Rightarrow> ('s, 'r, 'h) node_state \<Rightarrow> string \<Rightarrow> bool \<times> node list" where
  "IsRedirect cf st pid =
     (let nodes = Vmm_GetNodesByProcess (ns_vmm st) pid
      in (\<forall>nd \<in> set nodes. node_AccId nd \<noteq> nc_address cf, nodes))"

definition isRegistered :: "('s, 'r, 'h) node_state \<Rightarrow> string \<Rightarrow> bool" where
  "isRegistered st pid \<longleftrightarrow> (\<exists>nd \<in> set (Vmm_GetNodesByProcess (ns_vmm st) pid). node_AccId nd = ns_AccId st)"

definition isCore :: "('s, 'r, 'h) node_state \<Rightarrow> string \<Rightarrow> bool" where
  "isCore st pid \<longleftrightarrow> pid \<noteq> [] \<and>
     (pid \<in> {Vmm_TokenId (ns_vmm st), Vmm_RegistryId (ns_vmm st)} \<or> pid \<in> {ns_Token st, ns_Registry st})"

subsection \<open>Who may speak for a process (handle.go)\<close>

definition authNode :: "('s, 'r, 'h) node_state \<Rightarrow> string \<Rightarrow> string \<Rightarrow> sys_err option" where
  "authNode st accid fromProcess =
     (if \<exists>nd \<in> set (Vmm_GetNodesByProcess (ns_vmm st) fromProcess). node_AccId nd = accid
      then None else Some ErrUnauthorizedNode)"

text \<open>The spawn message of a process: from the own database, checked again, or from the node of the
  signer.\<close>

definition spawn_message ::
  "('s, 'r, 'h) node_cfg \<Rightarrow> ('s, 'r, 'h) node_state \<Rightarrow> string \<Rightarrow> string \<Rightarrow>
     ('s, 'r, 'h) node_state \<times> (sys_err + bundle_item)" where
  "spawn_message cf st signer pid =
     (if signer = ns_AccId st
      then (case GetMessage (nc_redis cf) (nc_codec cf) (ns_db st) pid of
          (db, Inl e) \<Rightarrow> (st\<lparr>ns_db := db\<rparr>, Inl (OtherErr (''get origin spawn message failed, msgid: '' @ pid)))
        | (db, Inr None) \<Rightarrow> (st\<lparr>ns_db := db\<rparr>, Inl (OtherErr (''spawn message not found, msgid: '' @ pid)))
        | (db, Inr (Some m)) \<Rightarrow>
            (st\<lparr>ns_db := db\<rparr>,
             if verify_bundle_item (nc_lib cf) m then Inr m else Inl (CodecErr ExtLibError)))
      else (case Vmm_GetNode (ns_vmm st) signer of
          None \<Rightarrow> (st, Inl (OtherErr (''node not found, accid: '' @ signer)))
        | Some nd \<Rightarrow> (st, nc_fetch cf (node_URL nd) pid)))"

definition verifyRegistry ::
  "('s, 'r, 'h) node_cfg \<Rightarrow> ('s, 'r, 'h) node_state \<Rightarrow> bundle_item \<Rightarrow> string \<Rightarrow> string \<Rightarrow>
     ('s, 'r, 'h) node_state \<times> sys_err option" where
  "verifyRegistry cf st item signer fromProcess =
     (let pid = GetTagsValue ''Pid'' (item_Tags item); accid = GetTagsValue ''Acc-Id'' (item_Tags item) in
      if pid = [] \<or> accid = [] then (st, Some ErrUnauthorizedNode)
      else if pid \<noteq> fromProcess \<or> accid \<noteq> signer then (st, Some ErrUnauthorizedNode)
      else (case spawn_message cf (Node_Info st) signer pid of
          (st1, Inl e) \<Rightarrow> (st1, Some e)
        | (st1, Inr spawnMsg) \<Rightarrow>
            (st1, if item_Id spawnMsg \<noteq> pid then Some ErrUnauthorizedNode
                  else if accid \<noteq> GetTagsValue ''Scheduler'' (item_Tags spawnMsg) then Some ErrUnauthorizedNode
                  else None)))"

definition verifyFromProcess ::
  "('s, 'r, 'h) node_cfg \<Rightarrow> ('s, 'r, 'h) node_state \<Rightarrow> bundle_item \<Rightarrow> string \<Rightarrow> string \<Rightarrow> string \<Rightarrow>
     ('s, 'r, 'h) node_state \<times> sys_err option" where
  "verifyFromProcess cf st item pid signer fromProcess =
     (if fromProcess = [] then (st, None)
      else if pid = Vmm_RegistryId (ns_vmm st) \<and> GetTagsValue ''Action'' (item_Tags item) = ''RegisterProcess''
      then verifyRegistry cf st item signer fromProcess
      else (st, authNode st signer fromProcess))"

subsection \<open>Admission (message.go, spawn.go)\<close>

definition VmPendingMessageLimit :: nat where "VmPendingMessageLimit = 48"

definition handleMessage ::
  "('s, 'r, 'h) node_cfg \<Rightarrow> nat \<Rightarrow> ('s, 'r, 'h) node_state \<Rightarrow> string \<Rightarrow> string \<Rightarrow> bundle_item \<Rightarrow> msg \<Rightarrow>
     ('s, 'r, 'h) node_state \<times> sys_err option" where
  "handleMessage cf pending st pid accid item m =
     (if fst (IsRedirect cf st pid) then (st, Some ErrMessageRedirect)
      else if \<not> isRegistered st pid then (st, Some ErrProcessNotFound)
      else if \<not> Vmm_IsExists (ns_vmm st) pid then (st, Some ErrProcessStopped)
      else case getInstance (ns_vmm st) pid of
        Inl e \<Rightarrow> (st, Some e)
      | Inr _ \<Rightarrow>
          if VmPendingMessageLimit \<le> pending then (st, Some ErrProcessBusy)
          else (st\<lparr>ns_mes := ns_mes st @ [\<lparr>am_Pid = pid, am_AccId = accid, am_Message = m, am_Item = item\<rparr>]\<rparr>, None))"

definition handleProcess ::
  "('s, 'r, 'h) node_cfg \<Rightarrow> ('s, 'r, 'h) node_state \<Rightarrow> string \<Rightarrow> string \<Rightarrow> bundle_item \<Rightarrow> process \<Rightarrow>
     ('s, 'r, 'h) node_state \<times> sys_err option" where
  "handleProcess cf st pid accid item p =
     (if proc_Scheduler p \<noteq> nc_address cf then (st, Some ErrSpawnRedirect)
      else if snd (IsRedirect cf st pid) \<noteq> [] then (st, Some ErrProcessAlreadyExists)
      else if Vmm_IsExists (ns_vmm st) pid then (st, Some ErrProcessAlreadyExists)
      else (st\<lparr>ns_proc := ns_proc st @ [\<lparr>ap_Pid = pid, ap_AccId = accid, ap_Process = p, ap_Item = item\<rparr>]\<rparr>, None))"

text \<open>The handlers run in order until one of them objects.\<close>

fun run_handlers ::
  "('h \<Rightarrow> item_meta \<Rightarrow> 'h \<times> sys_err option) list \<Rightarrow> 'h \<Rightarrow> item_meta \<Rightarrow> 'h \<times> sys_err option" where
  "run_handlers [] h m = (h, None)"
| "run_handlers (f # fs) h m = (case f h m of (h1, Some e) \<Rightarrow> (h1, Some e) | (h1, None) \<Rightarrow> run_handlers fs h1 m)"

definition Node_Handle ::
  "('s, 'r, 'h) node_cfg \<Rightarrow> nat \<Rightarrow> ('s, 'r, 'h) node_state \<Rightarrow> bundle_item \<Rightarrow> ('s, 'r, 'h) node_state \<times> sys_err option"
where
  "Node_Handle cf pending st item =
     (if \<not> verify_bundle_item (nc_lib cf) item then (st, Some (CodecErr ExtLibError))
      else case Decode (nc_lib cf) item of
        Inl e \<Rightarrow> (st, Some (CodecErr e))
      | Inr (pid, signer, fromProcess, inst) \<Rightarrow>
          (case run_handlers (nc_handlers cf) (ns_handler st)
               \<lparr>im_Pid = pid, im_Signer = signer, im_FromProcess = fromProcess, im_Instance = inst\<rparr> of
             (h, Some e) \<Rightarrow> (st\<lparr>ns_handler := h\<rparr>, Some e)
           | (h, None) \<Rightarrow>
               (case verifyFromProcess cf (st\<lparr>ns_handler := h\<rparr>) item pid signer fromProcess of
                  (st1, Some e) \<Rightarrow> (st1, Some e)
                | (st1, None) \<Rightarrow>
                    if IsRecovering (ns_vmm st1) pid then (st1, Some ErrProcessIsRecovering)
                    else case inst of
                      IProcess p \<Rightarrow> handleProcess cf st1 pid signer item p
                    | IMessage m \<Rightarrow> handleMessage cf pending st1 pid signer item m
                    | IAssignment _ \<Rightarrow> (st1, Some ErrInvalidType))))"

subsection \<open>Applying (message.go, spawn.go)\<close>

definition applyMessage ::
  "('s, 'r, 'h) node_cfg \<Rightarrow> 's vmm \<Rightarrow> string \<Rightarrow> string \<Rightarrow> bundle_item \<Rightarrow> msg \<Rightarrow> assignment \<Rightarrow> exec_mode \<Rightarrow> int64 \<Rightarrow>
     's vmm \<times> (sys_err + task_effect option)" where
  "applyMessage cf v pid accid item m assign mode maxNonce =
     (case ParseInt (asg_Nonce assign) of
        None \<Rightarrow> (v, Inl (OtherErr ''strconv''))
      | Some nonce \<Rightarrow>
     (case ParseInt (asg_Timestamp assign) of
        None \<Rightarrow> (v, Inl (OtherErr ''strconv''))
      | Some timestamp \<Rightarrow>
     (case TagsToParams (msg_Tags m) of
        Inl e \<Rightarrow> (v, Inl (CodecErr e))
      | Inr params \<Rightarrow>
     (case (if msg_Sequence m = [] then Some 0 else ParseInt (msg_Sequence m)) of
        None \<Rightarrow> (v, Inl (OtherErr ''strconv''))
      | Some sequence \<Rightarrow>
          (case Vmm_Apply (nc_lib cf) (nc_ops cf) (nc_cryptor cf) v
              \<lparr>meta_ItemId = item_Id item, meta_Pid = pid, meta_AccId = accid, meta_Action = msg_Action m,
               meta_FromProcess = msg_FromProcess m, meta_PushedFor = msg_PushedFor m,
               meta_Sequence = sequence, meta_Nonce = nonce, meta_Timestamp = timestamp,
               meta_Params = params, meta_Data = item_Data item, meta_Mode = mode,
               meta_RecoveryMaxNonce = maxNonce\<rparr> of
             (v', eff) \<Rightarrow> (v', Inr eff))))))"

text \<open>\<open>None\<close> is a spawn that waits for the registry.\<close>

definition applyProcess ::
  "('s, 'r, 'h) node_cfg \<Rightarrow> 's vmm \<Rightarrow> string \<Rightarrow> string \<Rightarrow> bundle_item \<Rightarrow> process \<Rightarrow> exec_mode \<Rightarrow> int64 \<Rightarrow>
     ('s vmm \<times> sys_err option \<times> vmm_result list \<times> outbox_msg list) option" where
  "applyProcess cf v pid accid item p mode maxNonce =
     (case TagsToParams (proc_Tags p) of
        Inl e \<Rightarrow> Some (v, Some (CodecErr e), [], [])
      | Inr params \<Rightarrow>
     (case nc_module cf (proc_Module p) of
        Inl e \<Rightarrow> Some (v, Some e, [], [])
      | Inr md \<Rightarrow>
          Vmm_Spawn (nc_lib cf) v
            (zero_meta\<lparr>meta_ItemId := item_Id item, meta_Pid := pid, meta_AccId := accid,
               meta_FromProcess := proc_FromProcess p, meta_PushedFor := proc_PushedFor p,
               meta_Nonce := 0, meta_Timestamp := 0, meta_Params := params, meta_Data := item_Data item,
               meta_Mode := mode, meta_RecoveryMaxNonce := maxNonce\<rparr>) p md))"

subsection \<open>The loops (channel.go)\<close>

text \<open>One turn of \<open>runMsgChan\<close>: assign, then apply under the nonce of the assignment. What leaves the
  node besides the state: the outcome of the assignment and of the application.\<close>

definition msg_turn ::
  "('s, 'r, 'h) node_cfg \<Rightarrow> int64 \<Rightarrow> ('s, 'r, 'h) node_state \<Rightarrow>
     ('s, 'r, 'h) node_state \<times> ((sys_err + assignment \<times> bundle_item) \<times> (sys_err + task_effect option) option) option" where
  "msg_turn cf now st =
     (case ns_mes st of
        [] \<Rightarrow> (st, None)
      | i # is \<Rightarrow>
          (case assignment_step (nc_redis cf) (nc_codec cf) (nc_sign cf) now (ns_db st) (am_Pid i) (am_Item i) of
             (db, Inl e) \<Rightarrow> (st\<lparr>ns_mes := is, ns_db := db\<rparr>, Some (Inl e, None))
           | (db, Inr (assign, assignItem)) \<Rightarrow>
               (case applyMessage cf (ns_vmm st) (am_Pid i) (am_AccId i) (am_Item i) (am_Message i) assign
                   ExecModeApply 0 of
                  (v', res) \<Rightarrow> (st\<lparr>ns_mes := is, ns_db := db, ns_vmm := v'\<rparr>, Some (Inr (assign, assignItem), Some res)))))"

text \<open>One turn of \<open>runProcChan\<close>: spawn, then assign. It is \<open>None\<close> while the spawn waits.\<close>

definition proc_turn ::
  "('s, 'r, 'h) node_cfg \<Rightarrow> int64 \<Rightarrow> ('s, 'r, 'h) node_state \<Rightarrow>
     (('s, 'r, 'h) node_state \<times> (sys_err + (sys_err + assignment \<times> bundle_item)) option) option" where
  "proc_turn cf now st =
     (case ns_proc st of
        [] \<Rightarrow> Some (st, None)
      | i # is \<Rightarrow>
          (case applyProcess cf (ns_vmm st) (ap_Pid i) (ap_AccId i) (ap_Item i) (ap_Process i) ExecModeApply 0 of
             None \<Rightarrow> None
           | Some (v', Some e, _, _) \<Rightarrow> Some (st\<lparr>ns_proc := is, ns_vmm := v'\<rparr>, Some (Inl e))
           | Some (v', None, _, _) \<Rightarrow>
               (case assignment_step (nc_redis cf) (nc_codec cf) (nc_sign cf) now (ns_db st) (ap_Pid i) (ap_Item i) of
                  (db, out) \<Rightarrow> Some (st\<lparr>ns_proc := is, ns_vmm := v', ns_db := db\<rparr>, Some (Inr out)))))"

end
