(* ===== verification/NodeProps.thy ===== *)
theory NodeProps
  imports NodeHandle
begin

text \<open>
  What the entry of the node guarantees: an item that is accepted is authentic and queued once;
  and what happens to a process when a message takes a nonce without being applied.
\<close>

subsection \<open>Admission\<close>

lemma spawn_message_keeps:
  "spawn_message cf st signer pid = (st1, r) \<Longrightarrow> ns_vmm st1 = ns_vmm st \<and> ns_mes st1 = ns_mes st \<and>
     ns_proc st1 = ns_proc st \<and> ns_handler st1 = ns_handler st \<and> ns_AccId st1 = ns_AccId st"
  by (auto simp: spawn_message_def split: if_splits prod.splits sum.splits option.splits)

lemma Node_Info_keeps [simp]:
  "ns_vmm (Node_Info st) = ns_vmm st" "ns_mes (Node_Info st) = ns_mes st" "ns_proc (Node_Info st) = ns_proc st"
  "ns_handler (Node_Info st) = ns_handler st" "ns_AccId (Node_Info st) = ns_AccId st"
  by (simp_all add: Node_Info_def)

lemma verifyRegistry_keeps:
  assumes "verifyRegistry cf st item signer f = (st1, r)"
  shows "ns_vmm st1 = ns_vmm st \<and> ns_mes st1 = ns_mes st \<and> ns_proc st1 = ns_proc st \<and> ns_handler st1 = ns_handler st"
  using assms spawn_message_keeps [of cf "Node_Info st" signer]
  by (auto simp: verifyRegistry_def Let_def split: if_splits prod.splits sum.splits)

lemma verifyRegistry_ok:
  assumes "verifyRegistry cf st item signer f = (st1, None)"
  shows "GetTagsValue ''Pid'' (item_Tags item) = f \<and> GetTagsValue ''Acc-Id'' (item_Tags item) = signer \<and>
    (\<exists>m. snd (spawn_message cf (Node_Info st) signer f) = Inr m \<and> item_Id m = f \<and>
       GetTagsValue ''Scheduler'' (item_Tags m) = signer)"
  using assms by (auto simp: verifyRegistry_def Let_def split: if_splits prod.splits sum.splits)

text \<open>Which claims of origin pass.\<close>

definition origin_ok ::
  "('s, 'r, 'h) node_cfg \<Rightarrow> ('s, 'r, 'h) node_state \<Rightarrow> bundle_item \<Rightarrow> string \<Rightarrow> string \<Rightarrow> string \<Rightarrow> bool" where
  "origin_ok cf st item pid signer f \<longleftrightarrow> f = [] \<or>
     (if pid = Vmm_RegistryId (ns_vmm st) \<and> GetTagsValue ''Action'' (item_Tags item) = ''RegisterProcess''
      then GetTagsValue ''Pid'' (item_Tags item) = f \<and> GetTagsValue ''Acc-Id'' (item_Tags item) = signer \<and>
        (\<exists>m. snd (spawn_message cf (Node_Info st) signer f) = Inr m \<and> item_Id m = f \<and>
           GetTagsValue ''Scheduler'' (item_Tags m) = signer)
      else signer \<in> node_AccId ` set (Vmm_GetNodesByProcess (ns_vmm st) f))"

lemma verifyFromProcess_spec:
  assumes "verifyFromProcess cf st item pid signer f = (st1, r)"
  shows "ns_vmm st1 = ns_vmm st \<and> ns_mes st1 = ns_mes st \<and> ns_proc st1 = ns_proc st"
    and "r = None \<Longrightarrow> origin_ok cf st item pid signer f"
  using assms verifyRegistry_keeps [of cf st item signer f st1 r] verifyRegistry_ok [of cf st item signer f st1]
  by (auto simp: verifyFromProcess_def origin_ok_def authNode_def split: if_splits)

lemma handleMessage_ok:
  assumes "handleMessage cf pending st pid accid item m = (st', r)"
  shows "if r = None
    then isRegistered st pid \<and> (\<exists>nd \<in> set (Vmm_GetNodesByProcess (ns_vmm st) pid). node_AccId nd = nc_address cf) \<and>
      Vmm_IsExists (ns_vmm st) pid \<and> \<not> v_closed (ns_vmm st) \<and> pending < VmPendingMessageLimit \<and>
      st' = st\<lparr>ns_mes := ns_mes st @ [\<lparr>am_Pid = pid, am_AccId = accid, am_Message = m, am_Item = item\<rparr>]\<rparr>
    else st' = st"
  using assms
  by (auto simp: handleMessage_def IsRedirect_def Let_def getInstance_def split: if_splits sum.splits option.splits)

lemma handleProcess_ok:
  assumes "handleProcess cf st pid accid item p = (st', r)"
  shows "if r = None
    then proc_Scheduler p = nc_address cf \<and> Vmm_GetNodesByProcess (ns_vmm st) pid = [] \<and>
      \<not> Vmm_IsExists (ns_vmm st) pid \<and>
      st' = st\<lparr>ns_proc := ns_proc st @ [\<lparr>ap_Pid = pid, ap_AccId = accid, ap_Process = p, ap_Item = item\<rparr>]\<rparr>
    else st' = st"
  using assms by (auto simp: handleProcess_def IsRedirect_def Let_def split: if_splits)

definition accepted_once ::
  "('s, 'r, 'h) node_cfg \<Rightarrow> nat \<Rightarrow> ('s, 'r, 'h) node_state \<Rightarrow> bundle_item \<Rightarrow> ('s, 'r, 'h) node_state \<Rightarrow> sys_err option \<Rightarrow> bool"
where
  "accepted_once cf pending st item st' r \<longleftrightarrow> ns_vmm st' = ns_vmm st \<and>
    (if r = None
     then verify_bundle_item (nc_lib cf) item \<and>
       (\<exists>pid signer f inst h. Decode (nc_lib cf) item = Inr (pid, signer, f, inst) \<and>
         \<not> IsRecovering (ns_vmm st) pid \<and> origin_ok cf (st\<lparr>ns_handler := h\<rparr>) item pid signer f \<and>
         (case inst of
            IMessage m \<Rightarrow>
              Vmm_IsExists (ns_vmm st) pid \<and> isRegistered st pid \<and> pending < VmPendingMessageLimit \<and>
              ns_mes st' = ns_mes st @ [\<lparr>am_Pid = pid, am_AccId = signer, am_Message = m, am_Item = item\<rparr>] \<and>
              ns_proc st' = ns_proc st
          | IProcess p \<Rightarrow>
              proc_Scheduler p = nc_address cf \<and> Vmm_GetNodesByProcess (ns_vmm st) pid = [] \<and>
              \<not> Vmm_IsExists (ns_vmm st) pid \<and>
              ns_proc st' = ns_proc st @ [\<lparr>ap_Pid = pid, ap_AccId = signer, ap_Process = p, ap_Item = item\<rparr>] \<and>
              ns_mes st' = ns_mes st
          | IAssignment _ \<Rightarrow> False))
     else ns_mes st' = ns_mes st \<and> ns_proc st' = ns_proc st)"

lemma Node_Handle_spec:
  assumes "Node_Handle cf pending st item = (st', r)"
  shows "accepted_once cf pending st item st' r"
proof (cases "verify_bundle_item (nc_lib cf) item")
  note [simp] = accepted_once_def
  case False
  with assms show ?thesis by (auto simp: Node_Handle_def)
next
  note [simp] = accepted_once_def
  case sig: True
  show ?thesis
  proof (cases "Decode (nc_lib cf) item")
    case (Inl e)
    with assms sig show ?thesis by (auto simp: Node_Handle_def)
  next
    case (Inr d)
    obtain pid signer f inst where d: "d = (pid, signer, f, inst)" by (metis prod_cases4)
    obtain h e where h: "run_handlers (nc_handlers cf) (ns_handler st)
        \<lparr>im_Pid = pid, im_Signer = signer, im_FromProcess = f, im_Instance = inst\<rparr> = (h, e)" by fastforce
    show ?thesis
    proof (cases e)
      case (Some x)
      with assms sig Inr d h show ?thesis by (auto simp: Node_Handle_def)
    next
      case None
      obtain st1 v where v: "verifyFromProcess cf (st\<lparr>ns_handler := h\<rparr>) item pid signer f = (st1, v)" by fastforce
      note keep = verifyFromProcess_spec(1) [OF v] and orig = verifyFromProcess_spec(2) [OF v]
      show ?thesis
      proof (cases "v \<noteq> None \<or> IsRecovering (ns_vmm st1) pid")
        case True
        with assms sig Inr d h None v have "st' = st1 \<and> r \<noteq> None"
          by (cases v) (auto simp: Node_Handle_def)
        with keep show ?thesis by auto
      next
        case False
        then have o: "origin_ok cf (st\<lparr>ns_handler := h\<rparr>) item pid signer f" "\<not> IsRecovering (ns_vmm st) pid"
          and vN: "v = None" "\<not> IsRecovering (ns_vmm st1) pid"
          using orig keep by auto
        have reg: "isRegistered st1 p = isRegistered st p" if "ns_AccId st1 = ns_AccId st" for p
          using keep that by (simp add: isRegistered_def)
        have acc: "ns_AccId st1 = ns_AccId st"
          using v spawn_message_keeps [of cf "Node_Info (st\<lparr>ns_handler := h\<rparr>)" signer]
          by (auto simp: verifyFromProcess_def verifyRegistry_def Let_def split: if_splits prod.splits sum.splits)
        have st': "(case inst of
                      IProcess p \<Rightarrow> handleProcess cf st1 pid signer item p
                    | IMessage m \<Rightarrow> handleMessage cf pending st1 pid signer item m
                    | IAssignment _ \<Rightarrow> (st1, Some ErrInvalidType)) = (st', r)"
          using assms sig Inr d h None v vN by (simp add: Node_Handle_def)
        show ?thesis
        proof (cases inst)
          case (IProcess p)
          with st' have "handleProcess cf st1 pid signer item p = (st', r)" by simp
          from handleProcess_ok [OF this] keep o sig Inr d IProcess show ?thesis
            by (cases "r = None") auto
        next
          case (IMessage m)
          with st' have "handleMessage cf pending st1 pid signer item m = (st', r)" by simp
          from handleMessage_ok [OF this] keep o sig Inr d IMessage reg [OF acc, of pid] show ?thesis
            by (cases "r = None") auto
        next
          case (IAssignment a)
          with st' keep show ?thesis by auto
        qed
      qed
    qed
  qed
qed

text \<open>C32: only authentic items enter. An item the node accepts has a valid signature, is not addressed
  to a process in recovery, and speaks for another process only if its signer is a node registered for
  that process, or if it registers a process whose own spawn message names the signer as scheduler.
  It is then in exactly one queue, once: a message for a running process of this node, or a spawn this
  node is the scheduler of and no process has the id of. A refused item is in no queue.\<close>

theorem Node_Handle_authentic:
  "case Node_Handle cf pending st item of (st', r) \<Rightarrow>
     ns_vmm st' = ns_vmm st \<and>
    (if r = None
     then verify_bundle_item (nc_lib cf) item \<and>
       (\<exists>pid signer f inst h. Decode (nc_lib cf) item = Inr (pid, signer, f, inst) \<and>
         \<not> IsRecovering (ns_vmm st) pid \<and> origin_ok cf (st\<lparr>ns_handler := h\<rparr>) item pid signer f \<and>
         (case inst of
            IMessage m \<Rightarrow>
              Vmm_IsExists (ns_vmm st) pid \<and> isRegistered st pid \<and> pending < VmPendingMessageLimit \<and>
              ns_mes st' = ns_mes st @ [\<lparr>am_Pid = pid, am_AccId = signer, am_Message = m, am_Item = item\<rparr>] \<and>
              ns_proc st' = ns_proc st
          | IProcess p \<Rightarrow>
              proc_Scheduler p = nc_address cf \<and> Vmm_GetNodesByProcess (ns_vmm st) pid = [] \<and>
              \<not> Vmm_IsExists (ns_vmm st) pid \<and>
              ns_proc st' = ns_proc st @ [\<lparr>ap_Pid = pid, ap_AccId = signer, ap_Process = p, ap_Item = item\<rparr>] \<and>
              ns_mes st' = ns_mes st
          | IAssignment _ \<Rightarrow> False))
     else ns_mes st' = ns_mes st \<and> ns_proc st' = ns_proc st)"
proof -
  obtain st' r where h: "Node_Handle cf pending st item = (st', r)" by fastforce
  show ?thesis using Node_Handle_spec [OF h] unfolding h prod.case accepted_once_def .
qed

subsection \<open>A nonce without an application\<close>

text \<open>A turn of the message loop over the whole queue.\<close>

fun msg_turns :: "('s, 'r, 'h) node_cfg \<Rightarrow> int64 list \<Rightarrow> ('s, 'r, 'h) node_state \<Rightarrow> ('s, 'r, 'h) node_state" where
  "msg_turns cf [] st = st"
| "msg_turns cf (now # nows) st = msg_turns cf nows (fst (msg_turn cf now st))"

lemma Vmm_apply_bad_nonce:
  assumes "meta_Nonce m \<noteq> env_Nonce env + 1"
  shows "\<exists>eff. Vmm_apply ap c (vm, env) m = ((vm, env), eff) \<and> te_err eff = Some ErrInvalidNonce"
  using assms by (simp add: Vmm_apply_def applyCheck_def Let_def finish_task_def Vmm_outbox_def base_result_def)

text \<open>The machine of a process: its object and its environment.\<close>

definition machine :: "'s vmm \<Rightarrow> string \<Rightarrow> ('s vm_obj \<times> env) option" where
  "machine v pid = map_option (\<lambda>i. (v_objs v ! inst_vm i, inst_env i)) (mget (v_vms v) pid)"

lemma Vmm_Apply_other:
  assumes wf: "vmm_wf v" and a: "Vmm_Apply lib ops c v m = (v', eff)" and "meta_Pid m \<noteq> pid"
  shows "machine v' pid = machine v pid"
proof (cases "getInstance v (meta_Pid m)")
  case (Inl e)
  with a show ?thesis by (simp add: Vmm_Apply_def)
next
  case (Inr inst)
  then have i: "mget (v_vms v) (meta_Pid m) = Some inst" by (auto simp: getInstance_def split: option.splits if_splits)
  have "inst_vm j \<noteq> inst_vm inst" if "mget (v_vms v) pid = Some j" for j
    using vmm_wf_D(9) [OF wf i that] assms(3) by auto
  then show ?thesis
    using a Inr assms(3)
    by (cases "mget (v_vms v) pid")
       (auto simp: Vmm_Apply_def Let_def machine_def RecoveryUnlock_def split: prod.splits if_splits)
qed

lemma Vmm_Apply_bad_nonce:
  assumes wf: "vmm_wf v" and a: "Vmm_Apply lib ops c v m = (v', eff)"
    and mc: "machine v (meta_Pid m) = Some (ob, env)" and bad: "meta_Nonce m \<noteq> env_Nonce env + 1"
  shows "machine v' (meta_Pid m) = Some (ob, env)"
proof (cases "getInstance v (meta_Pid m)")
  case (Inl e)
  with a mc show ?thesis by (simp add: Vmm_Apply_def)
next
  case (Inr inst)
  then have i: "mget (v_vms v) (meta_Pid m) = Some inst" by (auto simp: getInstance_def split: option.splits if_splits)
  have inst: "v_objs v ! inst_vm inst = ob" "inst_env inst = env" using mc i by (auto simp: machine_def)
  have len: "inst_vm inst < length (v_objs v)" using vmm_wf_D(6) [OF wf i] .
  obtain e where "Vmm_apply (obj_apply lib ops) c (ob, env) m = ((ob, env), e)"
    using Vmm_apply_bad_nonce [OF bad, of "obj_apply lib ops" c ob] by blast
  then show ?thesis
    using a Inr inst len by (auto simp: Vmm_Apply_def Let_def machine_def RecoveryUnlock_def split: if_splits)
qed

text \<open>The log is ahead of the machine: the next nonce is not the one the machine waits for.\<close>

definition behind ::
  "('s, 'r, 'h) node_cfg \<Rightarrow> ('r \<Rightarrow> keyspace) \<Rightarrow> nat \<Rightarrow> string \<Rightarrow> 's vm_obj \<Rightarrow> env \<Rightarrow> ('s, 'r, 'h) node_state \<Rightarrow> bool" where
  "behind cf view n pid ob env st \<longleftrightarrow> vmm_wf (ns_vmm st) \<and> machine (ns_vmm st) pid = Some (ob, env) \<and>
     (\<exists>es k. log_ok (nc_codec cf) (view (ns_db st)) es \<and> (\<forall>e \<in> set es. CHR '':'' \<notin> set (fst e)) \<and>
        length es \<le> n \<and> env_Nonce env = of_nat k \<and> k + 1 < length (items_of es pid)) \<and>
     (\<forall>i \<in> set (ns_mes st). CHR '':'' \<notin> set (am_Pid i))"

lemma Vmm_Apply_wf: "vmm_wf v \<Longrightarrow> vmm_wf (fst (Vmm_Apply lib ops c v m))"
  using vmm_step_wf [of v "\<lparr>w_lib = lib, w_codec = undefined, w_ops = ops, w_cryptor = c\<rparr>" "VApply m"] by simp

lemma of_nat_small_neq:
  assumes "k + 1 < n" "n < 2 ^ 63" shows "(of_nat n :: int64) \<noteq> of_nat k + 1"
proof
  assume "(of_nat n :: int64) = of_nat k + 1"
  then have "(of_nat n :: int64) = of_nat (k + 1)" by simp
  then have "sint (of_nat n :: int64) = sint (of_nat (k + 1) :: int64)" by simp
  with assms show False by (simp only: sint_small)
qed

lemma applyMessage_cases:
  assumes "applyMessage cf v pid accid item m assign mode mx = (v', res)"
  obtains (refused) e where "v' = v" "res = Inl e"
  | (applied) mt eff nonce where "ParseInt (asg_Nonce assign) = Some nonce" "meta_Pid mt = pid" "meta_Nonce mt = nonce"
      "Vmm_Apply (nc_lib cf) (nc_ops cf) (nc_cryptor cf) v mt = (v', eff)" "res = Inr eff"
  using assms
  by (auto simp: applyMessage_def split: option.splits sum.splits prod.splits) (metis meta.select_convs(2,8))+

lemma behind_turn:
  assumes ok: "redis_ok (nc_redis cf) view" "redis_up (nc_redis cf)" "codec_ok (nc_codec cf)"
    and b: "behind cf view n pid ob env st" and n: "n + 1 < 2 ^ 63"
  shows "behind cf view (n + 1) pid ob env (fst (msg_turn cf now st))"
proof (cases "ns_mes st")
  case Nil
  with b show ?thesis by (auto simp: msg_turn_def behind_def intro: le_SucI)
next
  case (Cons i "is")
  from b obtain es k where wf: "vmm_wf (ns_vmm st)" and mc: "machine (ns_vmm st) pid = Some (ob, env)"
    and log: "log_ok (nc_codec cf) (view (ns_db st)) es" and colon: "\<forall>e \<in> set es. CHR '':'' \<notin> set (fst e)"
    and len: "length es \<le> n" and k: "env_Nonce env = of_nat k" "k + 1 < length (items_of es pid)"
    and q: "\<forall>i \<in> set (ns_mes st). CHR '':'' \<notin> set (am_Pid i)" unfolding behind_def by blast
  obtain db out where st: "assignment_step (nc_redis cf) (nc_codec cf) (nc_sign cf) now (ns_db st) (am_Pid i) (am_Item i) = (db, out)"
    by fastforce
  have "length es < 2 ^ 63" using len n by simp
  from assignment_step_log [OF ok log this colon st]
  consider (no) e where "out = Inl e" "view db = view (ns_db st)"
    | (yes) a y where "out = Inr (a, y)" "asg_Nonce a = FormatInt (of_nat (length (items_of es (am_Pid i))))"
        "log_ok (nc_codec cf) (view db) (es @ [(am_Pid i, am_Item i, y)])" by blast
  then show ?thesis
  proof cases
    case no
    have "length es \<le> Suc n" using len by simp
    with no Cons st wf mc log colon k q show ?thesis
      by (auto simp: msg_turn_def behind_def split: sum.splits)
  next
    case yes
    let ?es = "es @ [(am_Pid i, am_Item i, y)]"
    obtain v' res where ap: "applyMessage cf (ns_vmm st) (am_Pid i) (am_AccId i) (am_Item i) (am_Message i) a
        ExecModeApply 0 = (v', res)" by fastforce
    have "vmm_wf v' \<and> machine v' pid = Some (ob, env)"
    proof (cases rule: applyMessage_cases [OF ap])
      case (1 e)
      with wf mc show ?thesis by simp
    next
      case (2 mt eff nonce)
      have wf': "vmm_wf v'" using Vmm_Apply_wf [OF wf] 2(4) by (metis fst_conv)
      show ?thesis
      proof (cases "am_Pid i = pid")
        case False
        with Vmm_Apply_other [OF wf 2(4)] 2(2) wf' mc show ?thesis by simp
      next
        case True
        have "length (items_of es pid) \<le> length es" by (simp add: items_of_def)
        with len n have "length (items_of es pid) < 2 ^ 63" by simp
        from of_nat_small_neq [OF k(2) this] have "meta_Nonce mt \<noteq> env_Nonce env + 1"
          using 2(1,3) yes(2) True k(1) by simp
        from Vmm_Apply_bad_nonce [OF wf 2(4) _ this] 2(2) True mc wf' show ?thesis by simp
      qed
    qed
    moreover have "k + 1 < length (items_of ?es pid)" using k(2) by (auto simp: less_Suc_eq)
    moreover have "\<forall>e \<in> set ?es. CHR '':'' \<notin> set (fst e)" using colon q Cons by simp
    moreover have "length ?es \<le> n + 1" using len by simp
    ultimately have "behind cf view (n + 1) pid ob env (st\<lparr>ns_mes := is, ns_db := db, ns_vmm := v'\<rparr>)"
      unfolding behind_def using yes(3) k(1) q Cons by (simp, intro conjI exI [of _ ?es] exI [of _ k]) auto
    then show ?thesis using Cons st yes(1) ap by (simp add: msg_turn_def)
  qed
qed

lemma behind_turns:
  assumes ok: "redis_ok (nc_redis cf) view" "redis_up (nc_redis cf)" "codec_ok (nc_codec cf)"
  shows "behind cf view n pid ob env st \<Longrightarrow> n + length nows < 2 ^ 63 \<Longrightarrow>
     behind cf view (n + length nows) pid ob env (msg_turns cf nows st)"
proof (induction nows arbitrary: n st)
  case (Cons now nows)
  from behind_turn [OF ok Cons.prems(1)] Cons.prems(2)
  have "behind cf view (n + 1) pid ob env (fst (msg_turn cf now st))" by simp
  from Cons.IH [OF this] Cons.prems(2) show ?case by simp
qed simp

text \<open>one malformed message stops a process for good. The loop gives a message its nonce before it
  reads the message's sequence number; when that is no number, the nonce is used up and nothing is
  applied. From then on, whatever messages follow, the machine of the process and its environment
  never change again: it refuses every nonce it is offered.\<close>

theorem malformed_sequence_stalls:
  assumes "redis_ok (nc_redis cf) view" and "redis_up (nc_redis cf)" and "codec_ok (nc_codec cf)"
    and "vmm_wf (ns_vmm st)" and "machine (ns_vmm st) pid = Some (ob, env)"
    and "log_ok (nc_codec cf) (view (ns_db st)) es" and "\<forall>e \<in> set es. CHR '':'' \<notin> set (fst e)"
    and "env_Nonce env = of_nat k" and "length (items_of es pid) = k + 1"
    and "ns_mes st = i # is" and "\<forall>i \<in> set (ns_mes st). CHR '':'' \<notin> set (am_Pid i)"
    and "am_Pid i = pid" and "msg_Sequence (am_Message i) \<noteq> []"
    and "ParseInt (msg_Sequence (am_Message i)) = None"
    and "msg_turn cf now st = (st1, Some (Inr ay, res))" and "length es + 1 + length nows < 2 ^ 63"
  shows "\<exists>e. res = Some (Inl e) \<and> machine (ns_vmm (msg_turns cf nows st1)) pid = Some (ob, env)"
proof -
  obtain db out where st: "assignment_step (nc_redis cf) (nc_codec cf) (nc_sign cf) now (ns_db st) (am_Pid i) (am_Item i) = (db, out)"
    by fastforce
  have len: "length es < 2 ^ 63" using assms(16) by simp
  obtain v' r where ap: "applyMessage cf (ns_vmm st) (am_Pid i) (am_AccId i) (am_Item i) (am_Message i) (fst ay)
      ExecModeApply 0 = (v', r)" by fastforce
  have out: "out = Inr ay" "st1 = st\<lparr>ns_mes := is, ns_db := db, ns_vmm := v'\<rparr>" "res = Some r"
    using assms(10,15) st ap by (auto simp: msg_turn_def split: sum.splits prod.splits)
  have r: "v' = ns_vmm st" "\<exists>e. r = Inl e"
    using ap assms(13,14) by (auto simp: applyMessage_def split: option.splits sum.splits)
  from assignment_step_log [OF assms(1-3,6) len assms(7) st] out(1)
  obtain y where log: "log_ok (nc_codec cf) (view db) (es @ [(am_Pid i, am_Item i, y)])" by auto
  have "behind cf view (length es + 1) pid ob env st1"
    unfolding behind_def
    using assms(4,5,7-12) log out(2) r(1)
    by (simp, intro exI [of _ "es @ [(am_Pid i, am_Item i, y)]"] exI [of _ k]) auto
  from behind_turns [OF assms(1-3) this, of nows] assms(16) have "machine (ns_vmm (msg_turns cf nows st1)) pid = Some (ob, env)"
    by (simp add: behind_def)
  with r out(3) show ?thesis by blast
qed

definition demo_ops :: "nat vm_ops" where
  "demo_ops = \<lparr>ops_Apply = (\<lambda>s f m. (Suc s, zero_result)), ops_Checkpoint = (\<lambda>_. Inr []),
     ops_Restore = (\<lambda>s _. Inr s), ops_Close = (\<lambda>_. None)\<rparr>"

definition demo_cfg :: "(nat, keyspace \<times> nat list, unit) node_cfg" where
  "demo_cfg = \<lparr>nc_lib = demo_lib, nc_redis = demo_up, nc_codec = demo_codec, nc_sign = demo_signer,
     nc_ops = demo_ops, nc_cryptor = None, nc_address = ''0xa'', nc_handlers = [],
     nc_fetch = (\<lambda>_ _. Inl nil_panic), nc_module = (\<lambda>_. Inr zero_module)\<rparr>"

definition demo_env :: env where
  "demo_env = \<lparr>env_Meta = zero_meta, env_Process = zero_process, env_Module = zero_module, env_Nonce = 0,
     env_Sequence = - 1, env_ReceivedSeq = []\<rparr>"

definition demo_vmm :: "nat vmm" where
  "demo_vmm = (Vmm_New [] True)\<lparr>v_objs := [ObjMounted 0], v_vms := [(''p'', \<lparr>inst_vm = 0, inst_env = demo_env\<rparr>)]\<rparr>"

definition demo_bad :: assign_message where
  "demo_bad = \<lparr>am_Pid = ''p'', am_AccId = ''0xb'', am_Message = zero_msg\<lparr>msg_Sequence := ''x''\<rparr>, am_Item = demo_item ''m1''\<rparr>"

definition demo_state :: "(nat, keyspace \<times> nat list, unit) node_state" where
  "demo_state = \<lparr>ns_vmm = demo_vmm,
     ns_db = (ks_cmds empty_keyspace (commit_cmds demo_codec ''p'' 0 (demo_item ''m0'') (demo_item ''a0'')), []),
     ns_handler = (), ns_mes = [demo_bad], ns_proc = [], ns_AccId = ''0xa'', ns_Token = [], ns_Registry = []\<rparr>"

lemma demo_vmm_wf: "vmm_wf demo_vmm"
  by (auto simp: vmm_wf_def demo_vmm_def Vmm_New_def split: if_splits)

lemma demo_log: "log_ok demo_codec (fst (ns_db demo_state)) [(''p'', demo_item ''m0'', demo_item ''a0'')]"
  using log_ok_commit [OF log_ok_empty [of demo_codec], of "demo_item ''m0''" "''p''" "demo_item ''a0''"]
  by (simp add: demo_state_def items_of_def) (simp add: empty_keyspace_def)

lemma demo_assign:
  assumes log: "log_ok demo_codec (fst s) es" and new: "\<And>v. \<not> indexed es (item_Id x) v"
  shows "\<exists>db ay. assignment_step demo_up demo_codec demo_signer now s p x = (db, Inr ay)"
proof -
  obtain s1 m where g: "GetMessage demo_up demo_codec s (item_Id x) = (s1, m)" by fastforce
  have s1: "fst s1 = fst s" "m = Inr None" using GetMessage_absent [OF demo_up_ok log new] g by auto
  obtain s2 n where n: "GetNonce demo_up s1 p = (s2, Inr n)"
    using GetNonce_log(2) [OF demo_up_ok, of demo_codec s1 es p] log s1 by (cases "GetNonce demo_up s1 p") auto
  obtain a y where "signAssign demo_signer now p (item_Id x) (n + 1) = Inr (a, y)" using demo_signs by blast
  with g s1 n show ?thesis
    by (simp add: assignment_step_def Let_def Commit_def exec_err_def demo_up_def demo_redis_def)
qed

theorem malformed_sequence_stalls_witness:
  "\<exists>st1 res ay e. msg_turn demo_cfg 7 demo_state = (st1, Some (Inr ay, Some (Inl e))) \<and>
     machine (ns_vmm (msg_turns demo_cfg [8, 9] st1)) ''p'' = Some (ObjMounted 0, demo_env)"
proof -
  let ?es = "[(''p'', demo_item ''m0'', demo_item ''a0'')]"
  have "\<not> indexed ?es (item_Id (demo_item ''m1'')) v" for v
    using indexed_ids [of ?es "item_Id (demo_item ''m1'')"] by (auto simp: demo_item_def)
  from demo_assign [OF demo_log this] obtain db ay where
    "assignment_step demo_up demo_codec demo_signer 7 (ns_db demo_state) ''p'' (demo_item ''m1'') = (db, Inr ay)" by blast
  then obtain st1 res where t: "msg_turn demo_cfg 7 demo_state = (st1, Some (Inr ay, res))"
    by (cases ay; cases "applyMessage demo_cfg demo_vmm ''p'' ''0xb'' (demo_item ''m1'')
          (zero_msg\<lparr>msg_Sequence := ''x''\<rparr>) (fst ay) ExecModeApply 0")
       (auto simp: msg_turn_def demo_cfg_def demo_state_def demo_bad_def)
  have h: "redis_ok (nc_redis demo_cfg) fst" "redis_up (nc_redis demo_cfg)" "codec_ok (nc_codec demo_cfg)"
    "vmm_wf (ns_vmm demo_state)" "log_ok (nc_codec demo_cfg) (fst (ns_db demo_state)) ?es"
    using demo_up_ok demo_codec_ok demo_vmm_wf demo_log by (simp_all add: demo_cfg_def demo_state_def)
  have m: "machine (ns_vmm demo_state) ''p'' = Some (ObjMounted 0, demo_env)"
    "env_Nonce demo_env = of_nat 0" "length (items_of ?es ''p'') = 0 + 1" "ns_mes demo_state = [demo_bad]"
    "am_Pid demo_bad = ''p''" "msg_Sequence (am_Message demo_bad) \<noteq> []"
    by (simp_all add: machine_def demo_state_def demo_vmm_def demo_env_def demo_bad_def items_of_def)
  have bad: "ParseInt (msg_Sequence (am_Message demo_bad)) = None"
    by (simp add: demo_bad_def ParseInt_def big_SetString_def parse_nat_def digit_val_def)
  have "\<exists>e. res = Some (Inl e) \<and> machine (ns_vmm (msg_turns demo_cfg [8, 9] st1)) ''p'' = Some (ObjMounted 0, demo_env)"
    by (rule malformed_sequence_stalls [OF h(1-4) m(1) h(5) _ m(2-4) _ m(5,6) bad t])
       (simp_all add: m)
  with t show ?thesis by blast
qed

end
