(* ===== verification/ModuleJson.thy ===== *)
theory ModuleJson
  imports NodeHandle
begin

text \<open>
  How the node loads the module of a process (node/spawn.go): a file of the directory \<open>mod\<close>, read by a
  hand-written JSON scanner that stops at the field \<open>tags\<close>, or a download. The scanner reads a byte at
  a time; its input is the list of the bytes that are left. \<open>jvalue\<close> is the grammar of what it skips,
  and \<open>skip_value_exact\<close> and \<open>readModuleTags_exact\<close> say that the scanner accepts exactly that.
\<close>

subsection \<open>What the scanner uses of the standard library\<close>

datatype mod_err = ModRead | ModFmt string | ModJson

abbreviation quote :: char where "quote \<equiv> CHR 0x22"
abbreviation backslash :: char where "backslash \<equiv> CHR 0x5C"

definition json_ws :: "char list" where "json_ws = [CHR '' '', CHR 0x09, CHR 0x0D, CHR 0x0A]"
definition json_delims :: "char list" where
  "json_delims = [CHR '' '', CHR 0x09, CHR 0x0D, CHR 0x0A, CHR '','', CHR ''}'', CHR '']'']"

abbreviation byte :: "char \<Rightarrow> nat" where "byte c \<equiv> of_char c"

definition is_digit :: "char \<Rightarrow> bool" where "is_digit c \<longleftrightarrow> 0x30 \<le> byte c \<and> byte c \<le> 0x39"

definition is_hex :: "char \<Rightarrow> bool" where
  "is_hex h \<longleftrightarrow> is_digit h \<or> (0x61 \<le> byte h \<and> byte h \<le> 0x66) \<or> (0x41 \<le> byte h \<and> byte h \<le> 0x46)"

definition hex_val :: "char \<Rightarrow> nat" where
  "hex_val h = (if is_digit h then byte h - 0x30 else if 0x61 \<le> byte h then byte h - 0x57 else byte h - 0x37)"

text \<open>\<open>json.Valid\<close> on a text that starts with no quote, brace or bracket and has no space: a literal
  or a number.\<close>

fun num_int :: "string \<Rightarrow> string option" where
  "num_int [] = None"
| "num_int (c # r) = (if c = CHR ''0'' then Some r else if is_digit c then Some (dropWhile is_digit r) else None)"

fun num_digits :: "string \<Rightarrow> string option" where
  "num_digits [] = None"
| "num_digits (c # r) = (if is_digit c then Some (dropWhile is_digit r) else None)"

fun num_frac :: "string \<Rightarrow> string option" where
  "num_frac [] = Some []"
| "num_frac (c # r) = (if c = CHR ''.'' then num_digits r else Some (c # r))"

definition num_sign :: "string \<Rightarrow> string" where
  "num_sign s = (case s of c # r \<Rightarrow> if c = CHR ''+'' \<or> c = CHR ''-'' then r else s | [] \<Rightarrow> [])"

fun num_exp :: "string \<Rightarrow> string option" where
  "num_exp [] = Some []"
| "num_exp (c # r) = (if c = CHR ''e'' \<or> c = CHR ''E'' then num_digits (num_sign r) else Some (c # r))"

definition json_number :: "string \<Rightarrow> bool" where
  "json_number s =
     (let t = (case s of c # r \<Rightarrow> if c = CHR ''-'' then r else s | [] \<Rightarrow> [])
      in Option.bind (Option.bind (num_int t) num_frac) num_exp = Some [])"

definition json_scalar :: "string \<Rightarrow> bool" where
  "json_scalar s \<longleftrightarrow> s = ''true'' \<or> s = ''false'' \<or> s = ''null'' \<or> json_number s"

text \<open>\<open>utf8.DecodeRune\<close> of a non-empty text: the rune and how many bytes it takes; an invalid byte
  is the replacement character.\<close>

definition cont_byte :: "nat \<Rightarrow> nat \<Rightarrow> string \<Rightarrow> nat \<Rightarrow> bool" where
  "cont_byte lo hi s i \<longleftrightarrow> i < length s \<and> lo \<le> byte (s ! i) \<and> byte (s ! i) \<le> hi"

definition cont_val :: "string \<Rightarrow> nat \<Rightarrow> nat" where "cont_val s i = byte (s ! i) mod 64"

definition DecodeRune :: "string \<Rightarrow> nat \<times> nat" where
  "DecodeRune s =
     (let b = byte (hd s);
          lo = (if b = 0xE0 then 0xA0 else if b = 0xF0 then 0x90 else 0x80);
          hi = (if b = 0xED then 0x9F else if b = 0xF4 then 0x8F else 0xBF)
      in if b < 0x80 then (b, 1)
         else if 0xC2 \<le> b \<and> b \<le> 0xDF \<and> cont_byte lo hi s 1
         then (b mod 32 * 64 + cont_val s 1, 2)
         else if 0xE0 \<le> b \<and> b \<le> 0xEF \<and> cont_byte lo hi s 1 \<and> cont_byte 0x80 0xBF s 2
         then (b mod 16 * 4096 + cont_val s 1 * 64 + cont_val s 2, 3)
         else if 0xF0 \<le> b \<and> b \<le> 0xF4 \<and> cont_byte lo hi s 1 \<and> cont_byte 0x80 0xBF s 2 \<and> cont_byte 0x80 0xBF s 3
         then (b mod 8 * 262144 + cont_val s 1 * 4096 + cont_val s 2 * 64 + cont_val s 3, 4)
         else (0xFFFD, 1))"

text \<open>\<open>json.Unmarshal\<close> of a string literal, as the runes of its value.\<close>

definition getu4 :: "string \<Rightarrow> nat option" where
  "getu4 s =
     (case s of
        b # u # h1 # h2 # h3 # h4 # _ \<Rightarrow>
          if b = backslash \<and> u = CHR ''u'' \<and> list_all is_hex [h1, h2, h3, h4]
          then Some (((hex_val h1 * 16 + hex_val h2) * 16 + hex_val h3) * 16 + hex_val h4) else None
      | _ \<Rightarrow> None)"

definition escape_rune :: "char \<Rightarrow> nat option" where
  "escape_rune e =
     map_of [(quote, 0x22), (backslash, 0x5C), (CHR ''/'', 0x2F), (CHR ''b'', 0x08), (CHR ''f'', 0x0C),
       (CHR ''n'', 0x0A), (CHR ''r'', 0x0D), (CHR ''t'', 0x09)] e"

definition is_surrogate :: "nat \<Rightarrow> bool" where "is_surrogate r \<longleftrightarrow> 0xD800 \<le> r \<and> r < 0xE000"

fun unquote :: "string \<Rightarrow> nat list option" where
  "unquote [] = Some []"
| "unquote (c # s) =
     (if c = backslash then
        (case getu4 (c # s) of
           Some r \<Rightarrow>
             if is_surrogate r then
               (case getu4 (drop 5 s) of
                  Some r2 \<Rightarrow>
                    if r < 0xDC00 \<and> 0xDC00 \<le> r2 \<and> r2 < 0xE000
                    then map_option ((#) ((r - 0xD800) * 1024 + (r2 - 0xDC00) + 0x10000)) (unquote (drop 11 s))
                    else map_option ((#) 0xFFFD) (unquote (drop 5 s))
                | None \<Rightarrow> map_option ((#) 0xFFFD) (unquote (drop 5 s)))
             else map_option ((#) r) (unquote (drop 5 s))
         | None \<Rightarrow>
             (case s of
                [] \<Rightarrow> None
              | e # s' \<Rightarrow> (case escape_rune e of None \<Rightarrow> None | Some r \<Rightarrow> map_option ((#) r) (unquote s'))))
      else if c = quote \<or> byte c < 0x20 then None
      else (case DecodeRune (c # s) of (r, n) \<Rightarrow> map_option ((#) r) (unquote (drop (n - 1) s))))"

definition json_unquote :: "string \<Rightarrow> nat list option" where
  "json_unquote raw = unquote (butlast (tl raw))"

text \<open>\<open>strings.EqualFold(key, "tags")\<close>: the long s folds to s.\<close>

definition is_tags_key :: "nat list \<Rightarrow> bool" where
  "is_tags_key k \<longleftrightarrow>
     list_all2 (\<lambda>r rs. r \<in> set rs) k [[0x74, 0x54], [0x61, 0x41], [0x67, 0x47], [0x73, 0x53, 0x17F]]"

subsection \<open>The scanner\<close>

fun jsonNonSpace :: "string \<Rightarrow> mod_err + char \<times> string" where
  "jsonNonSpace [] = Inl ModRead"
| "jsonNonSpace (c # bs) = (if c \<in> set json_ws then jsonNonSpace bs else Inr (c, bs))"

text \<open>The four digits after \<open>\u\<close>, and the rest.\<close>

fun read_hex :: "nat \<Rightarrow> string \<Rightarrow> mod_err + string \<times> string" where
  "read_hex 0 bs = Inr ([], bs)"
| "read_hex (Suc n) [] = Inl ModRead"
| "read_hex (Suc n) (h # bs) =
     (if \<not> is_hex h then Inl (ModFmt ''invalid Unicode escape in module JSON'')
      else case read_hex n bs of Inl e \<Rightarrow> Inl e | Inr (hs, r) \<Rightarrow> Inr (h # hs, r))"

lemma read_hex_Inr: "read_hex n bs = Inr (hs, r) \<longleftrightarrow> bs = hs @ r \<and> length hs = n \<and> list_all is_hex hs"
proof (induction n arbitrary: bs hs)
  case (Suc n)
  show ?case
  proof (cases bs)
    case (Cons h t)
    show ?thesis
    proof
      assume "read_hex (Suc n) bs = Inr (hs, r)"
      then obtain hs' where "is_hex h" "read_hex n t = Inr (hs', r)" "hs = h # hs'"
        using Cons by (auto split: if_splits sum.splits)
      with Suc [of t hs'] Cons show "bs = hs @ r \<and> length hs = Suc n \<and> list_all is_hex hs" by simp
    next
      assume r: "bs = hs @ r \<and> length hs = Suc n \<and> list_all is_hex hs"
      then obtain hs' where "hs = h # hs'" using Cons by (cases hs) auto
      with r Suc [of t hs'] Cons show "read_hex (Suc n) bs = Inr (hs, r)" by simp
    qed
  qed auto
qed auto

lemma read_hex_size: "read_hex n bs = Inr (hs, r) \<Longrightarrow> length r \<le> length bs"
  by (simp add: read_hex_Inr)

definition keyLimit :: nat where "keyLimit = 64 * 1024"

definition escapes :: "char list" where
  "escapes = [quote, backslash, CHR ''/'', CHR ''b'', CHR ''f'', CHR ''n'', CHR ''r'', CHR ''t'']"

text \<open>Starts after the opening quote; \<open>raw\<close> is what has been kept so far.\<close>

function json_string_loop :: "bool \<Rightarrow> string \<Rightarrow> string \<Rightarrow> mod_err + nat list \<times> string" where
  "json_string_loop capture raw [] = Inl ModRead"
| "json_string_loop capture raw (c # bs) =
     (let raw1 = (if capture then raw @ [c] else raw)
      in if capture \<and> keyLimit < length raw1 then Inl (ModFmt ''module field name too long'')
      else if c = quote
      then (if \<not> capture then Inr ([], bs)
            else case json_unquote raw1 of None \<Rightarrow> Inl ModJson | Some v \<Rightarrow> Inr (v, bs))
      else if byte c < 0x20 then Inl (ModFmt ''control byte in module JSON string'')
      else if c \<noteq> backslash then json_string_loop capture raw1 bs
      else case bs of
        [] \<Rightarrow> Inl ModRead
      | escape # bs1 \<Rightarrow>
          let raw2 = (if capture then raw1 @ [escape] else raw1)
          in if escape \<in> set escapes then json_string_loop capture raw2 bs1
             else if escape = CHR ''u''
             then (case read_hex 4 bs1 of
                     Inl e \<Rightarrow> Inl e
                   | Inr (hs, bs2) \<Rightarrow> json_string_loop capture (if capture then raw2 @ hs else raw2) bs2)
             else Inl (ModFmt ''invalid escape in module JSON''))"
  by pat_completeness auto
termination
  by (relation "measure (\<lambda>(c, r, bs). length bs)") (auto dest: read_hex_size)

definition moduleJSONString :: "string \<Rightarrow> bool \<Rightarrow> mod_err + nat list \<times> string" where
  "moduleJSONString bs capture = json_string_loop capture (if capture then [quote] else []) bs"

fun scan_scalar :: "string \<Rightarrow> string \<Rightarrow> mod_err + string \<times> string" where
  "scan_scalar raw [] = Inl ModRead"
| "scan_scalar raw (c # bs) =
     (if c \<in> set json_delims then Inr (raw, c # bs)
      else if 128 < length (raw @ [c]) then Inl (ModFmt ''module JSON scalar too long'')
      else scan_scalar (raw @ [c]) bs)"

lemma scan_scalar_size: "scan_scalar raw bs = Inr (r, bs') \<Longrightarrow> length bs' \<le> length bs"
  by (induction raw bs rule: scan_scalar.induct) (auto split: if_splits)

lemma jsonNonSpace_size: "jsonNonSpace bs = Inr (c, r) \<Longrightarrow> length r < length bs"
  by (induction bs) (auto split: if_splits simp: less_Suc_eq)

lemma json_string_cases:
  assumes r: "json_string_loop cap raw bs = Inr (v, r)"
  obtains
    (close) bs' where "bs = quote # bs'" "r = bs'" "\<not> (cap \<and> keyLimit < length (raw @ [quote]))"
      "if cap then json_unquote (raw @ [quote]) = Some v else v = []"
  | (plain) c bs' where "bs = c # bs'" "c \<noteq> quote" "c \<noteq> backslash" "0x20 \<le> byte c"
      "\<not> (cap \<and> keyLimit < length (raw @ [c]))"
      "json_string_loop cap (if cap then raw @ [c] else raw) bs' = Inr (v, r)"
  | (esc) e bs' where "bs = backslash # e # bs'" "e \<in> set escapes"
      "\<not> (cap \<and> keyLimit < length (raw @ [backslash]))"
      "json_string_loop cap (if cap then raw @ [backslash, e] else raw) bs' = Inr (v, r)"
  | (uni) hs bs' where "bs = backslash # CHR ''u'' # hs @ bs'" "length hs = 4" "list_all is_hex hs"
      "\<not> (cap \<and> keyLimit < length (raw @ [backslash]))"
      "json_string_loop cap (if cap then raw @ backslash # CHR ''u'' # hs else raw) bs' = Inr (v, r)"
proof (cases bs)
  case Nil
  with r show ?thesis by simp
next
  case (Cons c bs')
  define raw1 where "raw1 = (if cap then raw @ [c] else raw)"
  have lim: "\<not> (cap \<and> keyLimit < length (raw @ [c]))"
    using r Cons by (auto simp: Let_def split: if_splits)
  have r1: "(if c = quote
      then (if \<not> cap then Inr ([], bs')
            else case json_unquote raw1 of None \<Rightarrow> Inl ModJson | Some v \<Rightarrow> Inr (v, bs'))
      else if byte c < 0x20 then Inl (ModFmt ''control byte in module JSON string'')
      else if c \<noteq> backslash then json_string_loop cap raw1 bs'
      else case bs' of
        [] \<Rightarrow> Inl ModRead
      | escape # bs1 \<Rightarrow>
          let raw2 = (if cap then raw1 @ [escape] else raw1)
          in if escape \<in> set escapes then json_string_loop cap raw2 bs1
             else if escape = CHR ''u''
             then (case read_hex 4 bs1 of
                     Inl e \<Rightarrow> Inl e
                   | Inr (hs, bs2) \<Rightarrow> json_string_loop cap (if cap then raw2 @ hs else raw2) bs2)
             else Inl (ModFmt ''invalid escape in module JSON'')) = Inr (v, r)"
    using r lim unfolding Cons raw1_def json_string_loop.simps(2) Let_def by (cases cap) simp_all
  show ?thesis
  proof (cases "c = quote")
    case True
    with r1 Cons lim show ?thesis
      by (intro close [of bs']) (auto simp: raw1_def split: if_splits option.splits)
  next
    case nq: False
    show ?thesis
    proof (cases "c = backslash")
      case False
      with nq r1 Cons lim show ?thesis by (intro plain [of c bs']) (auto simp: raw1_def split: if_splits)
    next
      case bsl: True
      with nq r1 obtain e bs1 where bs': "bs' = e # bs1" by (cases bs') (auto split: if_splits)
      show ?thesis
      proof (cases "e \<in> set escapes")
        case True
        with bsl nq r1 Cons lim bs' show ?thesis
          by (intro esc [of e bs1]) (auto simp: raw1_def Let_def split: if_splits)
      next
        case False
        with bsl nq r1 bs' obtain hs bs2 where "e = CHR ''u''" "read_hex 4 bs1 = Inr (hs, bs2)"
            "json_string_loop cap (if cap then (raw1 @ [e]) @ hs else raw1) bs2 = Inr (v, r)"
          by (auto simp: Let_def split: if_splits sum.splits)
        with bsl Cons lim bs' show ?thesis
          by (intro uni [of hs bs2]) (auto simp: raw1_def read_hex_Inr split: if_splits)
      qed
    qed
  qed
qed

lemma json_string_loop_size: "json_string_loop cap raw bs = Inr (v, r) \<Longrightarrow> length r < length bs"
proof (induction "length bs" arbitrary: raw bs rule: less_induct)
  case less
  from less.prems show ?case
    by (cases rule: json_string_cases) (use less.hyps in fastforce)+
qed

lemma moduleJSONString_size: "moduleJSONString bs cap = Inr (v, r) \<Longrightarrow> length r < length bs"
  by (simp add: moduleJSONString_def json_string_loop_size)

text \<open>A member's name and colon inside an object.\<close>

definition skip_member :: "string \<Rightarrow> mod_err + string" where
  "skip_member bs =
     (let e1 = ModFmt ''expected nested module field name'' in
      case jsonNonSpace bs of
        Inl _ \<Rightarrow> Inl e1
      | Inr (c, bs1) \<Rightarrow>
          if c \<noteq> quote then Inl e1
          else (case moduleJSONString bs1 False of
             Inl e \<Rightarrow> Inl e
           | Inr (_, bs2) \<Rightarrow>
               (case jsonNonSpace bs2 of
                  Inl _ \<Rightarrow> Inl (ModFmt ''expected nested module field colon'')
                | Inr (c, bs3) \<Rightarrow>
                    if c \<noteq> CHR '':'' then Inl (ModFmt ''expected nested module field colon'') else Inr bs3)))"

lemma skip_member_size: "skip_member bs = Inr r \<Longrightarrow> length r < length bs"
  by (auto simp: skip_member_def Let_def split: sum.splits if_splits
    dest!: jsonNonSpace_size moduleJSONString_size)

definition closing :: "bool \<Rightarrow> char" where "closing object = (if object then CHR ''}'' else CHR '']'')"

text \<open>\<open>skip_items\<close> is the loop over the members of an object or the elements of an array; \<open>UnreadByte\<close>
  puts the first byte of them back.\<close>

function skipModuleJSONValue :: "nat \<Rightarrow> string \<Rightarrow> mod_err + string"
  and skip_items :: "bool \<Rightarrow> nat \<Rightarrow> string \<Rightarrow> mod_err + string" where
  "skipModuleJSONValue depth bs =
     (if 128 < depth then Inl (ModFmt ''module metadata nesting too deep'')
      else case jsonNonSpace bs of
        Inl e \<Rightarrow> Inl e
      | Inr (c, bs1) \<Rightarrow>
          if c = quote then (case moduleJSONString bs1 False of Inl e \<Rightarrow> Inl e | Inr (_, bs2) \<Rightarrow> Inr bs2)
          else if c = CHR ''{'' \<or> c = CHR ''['' then
            (case jsonNonSpace bs1 of
               Inl e \<Rightarrow> Inl e
             | Inr (c2, bs2) \<Rightarrow>
                 if c2 = closing (c = CHR ''{'') then Inr bs2 else skip_items (c = CHR ''{'') depth (c2 # bs2))
          else (case scan_scalar [c] bs1 of
             Inl e \<Rightarrow> Inl e
           | Inr (raw, bs2) \<Rightarrow> if json_scalar raw then Inr bs2 else Inl (ModFmt ''invalid module JSON scalar'')))"
| "skip_items object depth bs =
     (case (if object then skip_member bs else Inr bs) of
        Inl e \<Rightarrow> Inl e
      | Inr bs1 \<Rightarrow>
     (case skipModuleJSONValue (depth + 1) bs1 of
        Inl e \<Rightarrow> Inl e
      | Inr bs2 \<Rightarrow>
     (case jsonNonSpace bs2 of
        Inl e \<Rightarrow> Inl e
      | Inr (c, bs3) \<Rightarrow>
          if c = closing object then Inr bs3
          else if c \<noteq> CHR '','' then Inl (ModFmt ''expected module value separator'')
          else skip_items object depth bs3)))"
  by pat_completeness auto

text \<open>Whatever is skipped consumes a byte: so the loop ends. Shown where the functions are defined,
  which is then everywhere.\<close>

lemma skip_size_dom:
  "skipModuleJSONValue_skip_items_dom (Inl (depth, bs)) \<Longrightarrow>
     skipModuleJSONValue depth bs = Inr r \<Longrightarrow> length r < length bs"
  "skipModuleJSONValue_skip_items_dom (Inr (object, depth, bs)) \<Longrightarrow>
     skip_items object depth bs = Inr r \<Longrightarrow> length r < length bs"
proof (induction arbitrary: r and r rule: skipModuleJSONValue_skip_items.pinduct)
  case (1 depth bs)
  then show ?case
    by (fastforce simp: skipModuleJSONValue.psimps split: if_splits sum.splits
      dest: jsonNonSpace_size moduleJSONString_size scan_scalar_size)
next
  case (2 object depth bs)
  then show ?case
    by (fastforce simp: skip_items.psimps split: if_splits sum.splits dest: jsonNonSpace_size skip_member_size)
qed

termination skipModuleJSONValue
proof (relation "measure (\<lambda>x. case x of Inl (d, bs) \<Rightarrow> 2 * length bs | Inr (ob, d, bs) \<Rightarrow> 2 * length bs + 1)",
    goal_cases)
  case (2 depth bs ps c bs1 pa c2 bs2)
  then show ?case by (auto dest!: jsonNonSpace_size)
next
  case (3 object depth bs bs1)
  then show ?case by (auto split: if_splits dest: skip_member_size)
next
  case (4 object depth bs bs1 bs2 p c bs3)
  then have "length bs2 < length bs1" "length bs1 \<le> length bs" "length bs3 < length bs2"
    by (auto split: if_splits dest: skip_member_size skip_size_dom jsonNonSpace_size)
  then show ?case by simp
qed simp

declare skipModuleJSONValue.simps [simp del] skip_items.simps [simp del]

lemma skip_value_size: "skipModuleJSONValue depth bs = Inr r \<Longrightarrow> length r < length bs"
  "skip_items object depth bs = Inr r \<Longrightarrow> length r < length bs"
proof (induction depth bs and object depth bs arbitrary: r and r rule: skipModuleJSONValue_skip_items.induct)
  case (1 depth bs)
  then show ?case
    by (fastforce simp: skipModuleJSONValue.simps split: if_splits sum.splits
      dest: jsonNonSpace_size moduleJSONString_size scan_scalar_size)
next
  case (2 object depth bs)
  from "2.prems" obtain bs1 bs2 c bs3 where
    m: "(if object then skip_member bs else Inr bs) = Inr bs1" "skipModuleJSONValue (depth + 1) bs1 = Inr bs2"
      "jsonNonSpace bs2 = Inr (c, bs3)"
    and e: "(if c = closing object then Inr bs3
          else if c \<noteq> CHR '','' then Inl (ModFmt ''expected module value separator'')
          else skip_items object depth bs3) = Inr r"
    by (subst (asm) skip_items.simps) (auto split: sum.splits)
  have "length bs1 \<le> length bs" using m(1) by (auto split: if_splits dest: skip_member_size)
  moreover have "length bs2 < length bs1" by (rule "2.IH"(1) [OF m(1,2)])
  moreover have "length bs3 < length bs2" using m(3) by (rule jsonNonSpace_size)
  moreover have "length r \<le> length bs3" using e "2.IH"(2) [OF m(1,2,3) refl] by (fastforce split: if_splits)
  ultimately show ?case by simp
qed

function module_fields :: "(string \<Rightarrow> mod_err + tag list) \<Rightarrow> string \<Rightarrow> mod_err + tag list" where
  "module_fields dec bs =
     (case jsonNonSpace bs of
        Inl e \<Rightarrow> Inl e
      | Inr (c, bs1) \<Rightarrow>
     if c = CHR ''}'' then Inl (ModFmt ''module tags not found'')
     else if c \<noteq> quote then Inl (ModFmt ''expected module field name'')
     else (case moduleJSONString bs1 True of
        Inl e \<Rightarrow> Inl e
      | Inr (key, bs2) \<Rightarrow>
     (case jsonNonSpace bs2 of
        Inl _ \<Rightarrow> Inl (ModFmt ''expected colon after module field'')
      | Inr (c, bs3) \<Rightarrow>
     if c \<noteq> CHR '':'' then Inl (ModFmt ''expected colon after module field'')
     else if is_tags_key key then dec (take (2 ^ 20) bs3)
     else (case skipModuleJSONValue 0 bs3 of
        Inl e \<Rightarrow> Inl e
      | Inr bs4 \<Rightarrow>
     (case jsonNonSpace bs4 of
        Inl e \<Rightarrow> Inl e
      | Inr (c, bs5) \<Rightarrow>
          if c = CHR ''}'' then Inl (ModFmt ''module tags not found'')
          else if c \<noteq> CHR '','' then Inl (ModFmt ''expected comma after module field'')
          else module_fields dec bs5)))))"
  by pat_completeness auto
termination
  by (relation "measure (\<lambda>(dec, bs). length bs)")
    (auto dest!: jsonNonSpace_size moduleJSONString_size skip_value_size(1))

declare module_fields.simps [simp del]

text \<open>\<open>dec\<close> is the decoder of the list of tags, whose element type is not part of the repository; it
  sees at most one megabyte.\<close>

definition readModuleTags :: "(string \<Rightarrow> mod_err + tag list) \<Rightarrow> string \<Rightarrow> mod_err + tag list" where
  "readModuleTags dec src =
     (case jsonNonSpace src of
        Inl _ \<Rightarrow> Inl (ModFmt ''module metadata must be a JSON object'')
      | Inr (c, bs) \<Rightarrow>
          if c \<noteq> CHR ''{'' then Inl (ModFmt ''module metadata must be a JSON object'')
          else module_fields dec bs)"

subsection \<open>The grammar\<close>

abbreviation ws :: "string \<Rightarrow> bool" where "ws w \<equiv> set w \<subseteq> set json_ws"

text \<open>The rest of a string literal with its closing quote.\<close>

inductive jstr :: "string \<Rightarrow> bool" where
  jstr_close: "jstr [quote]"
| jstr_plain: "jstr s \<Longrightarrow> c \<noteq> quote \<Longrightarrow> c \<noteq> backslash \<Longrightarrow> 0x20 \<le> byte c \<Longrightarrow> jstr (c # s)"
| jstr_esc: "jstr s \<Longrightarrow> e \<in> set escapes \<Longrightarrow> jstr (backslash # e # s)"
| jstr_uni: "jstr s \<Longrightarrow> length hs = 4 \<Longrightarrow> list_all is_hex hs \<Longrightarrow> jstr (backslash # CHR ''u'' # hs @ s)"

inductive jmember :: "bool \<Rightarrow> string \<Rightarrow> bool" where
  jmember_array: "jmember False []"
| jmember_object: "ws w \<Longrightarrow> jstr k \<Longrightarrow> ws w' \<Longrightarrow> jmember True (w @ quote # k @ w' @ [CHR '':''])"

text \<open>\<open>jvalue n v\<close>: \<open>v\<close> is a value with at most \<open>n\<close> levels; \<open>jitems\<close> are the items of an array or an
  object with the closing bracket.\<close>

definition opener :: "bool \<Rightarrow> char" where "opener object = (if object then CHR ''{'' else CHR ''['')"

inductive jvalue :: "nat \<Rightarrow> string \<Rightarrow> bool" and jitems :: "bool \<Rightarrow> nat \<Rightarrow> string \<Rightarrow> bool" where
  jv_str: "jstr s \<Longrightarrow> jvalue (Suc n) (quote # s)"
| jv_scalar: "json_scalar s \<Longrightarrow> length s \<le> 128 \<Longrightarrow> jvalue (Suc n) s"
| jv_empty: "ws w \<Longrightarrow> jvalue (Suc n) (opener ob # w @ [closing ob])"
| jv_items: "jitems ob n s \<Longrightarrow> jvalue (Suc n) (opener ob # s)"
| ji_last: "jmember ob m \<Longrightarrow> ws w \<Longrightarrow> jvalue n v \<Longrightarrow> ws w' \<Longrightarrow> jitems ob n (m @ w @ v @ w' @ [closing ob])"
| ji_more: "jmember ob m \<Longrightarrow> ws w \<Longrightarrow> jvalue n v \<Longrightarrow> ws w' \<Longrightarrow> jitems ob n s \<Longrightarrow>
            jitems ob n (m @ w @ v @ w' @ CHR '','' # s)"

text \<open>A scalar needs a delimiter after it.\<close>

definition delimited :: "string \<Rightarrow> string \<Rightarrow> bool" where
  "delimited v rest \<longleftrightarrow> hd v \<in> {quote, CHR ''{'', CHR ''[''} \<or> (rest \<noteq> [] \<and> hd rest \<in> set json_delims)"

subsection \<open>The pieces\<close>

lemma jsonNonSpace_Inr: "jsonNonSpace bs = Inr (c, r) \<longleftrightarrow> (\<exists>w. ws w \<and> bs = w @ c # r \<and> c \<notin> set json_ws)"
proof (induction bs)
  case (Cons a bs)
  show ?case
  proof (cases "a \<in> set json_ws")
    case True
    then have "(\<exists>w. ws w \<and> a # bs = w @ c # r \<and> c \<notin> set json_ws) \<longleftrightarrow> (\<exists>w. ws w \<and> bs = w @ c # r \<and> c \<notin> set json_ws)"
      by (auto simp: Cons_eq_append_conv intro: exI [of _ "a # _"])
    with True Cons show ?thesis by simp
  next
    case False
    then show ?thesis by (auto simp: Cons_eq_append_conv)
  qed
qed simp

lemma jsonNonSpace_skip [simp]: "ws w \<Longrightarrow> c \<notin> set json_ws \<Longrightarrow> jsonNonSpace (w @ c # r) = Inr (c, r)"
  by (auto simp: jsonNonSpace_Inr)

lemma jsonNonSpace_again: "jsonNonSpace bs = Inr (c, r) \<Longrightarrow> jsonNonSpace (c # r) = Inr (c, r)"
  by (auto simp: jsonNonSpace_Inr)

lemma punctuation_no_space [simp]:
  "quote \<notin> set json_ws" "CHR ''{'' \<notin> set json_ws" "CHR ''['' \<notin> set json_ws" "CHR ''}'' \<notin> set json_ws"
  "CHR '']'' \<notin> set json_ws" "CHR '':'' \<notin> set json_ws" "CHR '','' \<notin> set json_ws"
  "closing ob \<notin> set json_ws" "opener ob \<notin> set json_ws"
  by (auto simp: json_ws_def closing_def opener_def)

text \<open>What is kept of a captured string stays within the limit.\<close>

definition captured :: "bool \<Rightarrow> string \<Rightarrow> nat list \<Rightarrow> bool" where
  "captured cap raw v \<longleftrightarrow>
     (if cap then length raw \<le> keyLimit \<and> json_unquote raw = Some v else v = [])"

lemma json_string_loop_sound:
  "json_string_loop cap raw bs = Inr (v, r) \<Longrightarrow> \<exists>s. jstr s \<and> bs = s @ r \<and> captured cap (raw @ s) v"
proof (induction "length bs" arbitrary: raw bs rule: less_induct)
  case less
  from less.prems show ?case
  proof (cases rule: json_string_cases)
    case (close bs')
    then show ?thesis by (intro exI [of _ "[quote]"]) (auto intro: jstr_close simp: captured_def split: if_splits)
  next
    case (plain c bs')
    with less.hyps [OF _ plain(6)] obtain s where "jstr s" "bs' = s @ r"
        "captured cap ((if cap then raw @ [c] else raw) @ s) v" by auto
    with plain show ?thesis
      by (intro exI [of _ "c # s"]) (auto intro: jstr_plain simp: captured_def split: if_splits)
  next
    case (esc e bs')
    with less.hyps [OF _ esc(4)] obtain s where "jstr s" "bs' = s @ r"
        "captured cap ((if cap then raw @ [backslash, e] else raw) @ s) v" by auto
    with esc show ?thesis
      by (intro exI [of _ "backslash # e # s"]) (auto intro: jstr_esc simp: captured_def split: if_splits)
  next
    case (uni hs bs')
    with less.hyps [OF _ uni(5)] obtain s where "jstr s" "bs' = s @ r"
        "captured cap ((if cap then raw @ backslash # CHR ''u'' # hs else raw) @ s) v" by auto
    with uni show ?thesis
      by (intro exI [of _ "backslash # CHR ''u'' # hs @ s"]) (auto intro: jstr_uni simp: captured_def split: if_splits)
  qed
qed

lemma json_string_loop_complete:
  "jstr s \<Longrightarrow> captured cap (raw @ s) v \<Longrightarrow> json_string_loop cap raw (s @ r) = Inr (v, r)"
proof (induction s arbitrary: raw rule: jstr.induct)
  case (jstr_uni s hs)
  have "read_hex 4 (hs @ s @ r) = Inr (hs, s @ r)" using jstr_uni by (simp add: read_hex_Inr)
  moreover have "CHR ''u'' \<notin> set escapes" by (simp add: escapes_def)
  moreover have "json_string_loop cap (if cap then raw @ backslash # CHR ''u'' # hs else raw) (s @ r) = Inr (v, r)"
    using jstr_uni.prems by (intro jstr_uni.IH) (auto simp: captured_def split: if_splits)
  ultimately show ?case using jstr_uni.prems by (cases cap) (auto simp: captured_def)
next
  case (jstr_esc s e)
  have "json_string_loop cap (if cap then raw @ [backslash, e] else raw) (s @ r) = Inr (v, r)"
    using jstr_esc.prems by (intro jstr_esc.IH) (auto simp: captured_def split: if_splits)
  then show ?case using jstr_esc.prems jstr_esc.hyps by (cases cap) (auto simp: captured_def)
next
  case (jstr_plain s c)
  have "json_string_loop cap (if cap then raw @ [c] else raw) (s @ r) = Inr (v, r)"
    using jstr_plain.prems by (intro jstr_plain.IH) (auto simp: captured_def split: if_splits)
  then show ?case using jstr_plain.prems jstr_plain.hyps by (cases cap) (auto simp: captured_def)
qed (auto simp: captured_def split: if_splits)

lemma moduleJSONString_Inr:
  "moduleJSONString bs cap = Inr (v, r) \<longleftrightarrow>
     (\<exists>s. jstr s \<and> bs = s @ r \<and> captured cap ((if cap then [quote] else []) @ s) v)"
  unfolding moduleJSONString_def by (auto dest: json_string_loop_sound intro: json_string_loop_complete)

lemma scan_scalar_Inr:
  "length raw \<le> 128 \<Longrightarrow>
   scan_scalar raw bs = Inr (raw', r) \<longleftrightarrow>
     (\<exists>t. bs = t @ r \<and> raw' = raw @ t \<and> set t \<inter> set json_delims = {} \<and> length (raw @ t) \<le> 128 \<and>
          r \<noteq> [] \<and> hd r \<in> set json_delims)"
proof (induction bs arbitrary: raw)
  case (Cons c bs)
  show ?case
  proof (cases "c \<in> set json_delims")
    case True
    then show ?thesis using Cons.prems by (auto simp: Cons_eq_append_conv)
  next
    case nd: False
    show ?thesis
    proof (cases "128 < length (raw @ [c])")
      case True
      with nd show ?thesis by (auto simp: Cons_eq_append_conv)
    next
      case False
      then have "scan_scalar raw (c # bs) = Inr (raw', r) \<longleftrightarrow> (\<exists>t. bs = t @ r \<and> raw' = (raw @ [c]) @ t \<and>
          set t \<inter> set json_delims = {} \<and> length ((raw @ [c]) @ t) \<le> 128 \<and> r \<noteq> [] \<and> hd r \<in> set json_delims)"
        using nd Cons.IH [of "raw @ [c]"] by simp
      also have "\<dots> \<longleftrightarrow> (\<exists>t. c # bs = t @ r \<and> raw' = raw @ t \<and> set t \<inter> set json_delims = {} \<and>
          length (raw @ t) \<le> 128 \<and> r \<noteq> [] \<and> hd r \<in> set json_delims)"
        using nd by (auto simp: Cons_eq_append_conv intro: exI [of _ "c # _"])
      finally show ?thesis .
    qed
  qed
qed simp

text \<open>A scalar has no delimiter and starts with no bracket.\<close>

definition num_char :: "char \<Rightarrow> bool" where
  "num_char c \<longleftrightarrow> is_digit c \<or> c \<in> set ''+-.eE''"

lemma dropWhile_digits: "set t - set (dropWhile is_digit t) \<subseteq> Collect num_char"
  by (induction t) (auto simp: num_char_def)

lemma num_digits_chars: "num_digits t = Some r \<Longrightarrow> set t - set r \<subseteq> Collect num_char"
  using dropWhile_digits [of "tl t"] by (cases t) (auto simp: num_char_def split: if_splits)

lemma num_int_chars: "num_int t = Some r \<Longrightarrow> set t - set r \<subseteq> Collect num_char"
  using dropWhile_digits [of "tl t"]
  by (cases t) (auto simp: num_char_def is_digit_def split: if_splits)

lemma num_frac_chars: "num_frac t = Some r \<Longrightarrow> set t - set r \<subseteq> Collect num_char"
  using num_digits_chars [of "tl t" r] by (cases t) (auto simp: num_char_def split: if_splits)

lemma num_exp_chars: "num_exp t = Some r \<Longrightarrow> set t - set r \<subseteq> Collect num_char"
proof (cases t)
  case (Cons c u)
  have sg: "set u - set (num_sign u) \<subseteq> Collect num_char"
    by (cases u) (auto simp: num_sign_def num_char_def)
  assume "num_exp t = Some r"
  with Cons sg num_digits_chars [of "num_sign u" r] show ?thesis
    by (auto simp: num_char_def split: if_splits)
qed simp

lemma json_number_chars: "json_number s \<Longrightarrow> set s \<subseteq> Collect num_char \<and> s \<noteq> []"
proof -
  assume s: "json_number s"
  define t where "t = (case s of c # r \<Rightarrow> if c = CHR ''-'' then r else s | [] \<Rightarrow> [])"
  from s obtain a b where "num_int t = Some a" "num_frac a = Some b" "num_exp b = Some []"
    unfolding json_number_def Let_def t_def [symmetric] by (auto simp: bind_eq_Some_conv)
  then have "set t \<subseteq> Collect num_char" "t \<noteq> []"
    using num_int_chars [of t a] num_frac_chars [of a b] num_exp_chars [of b "[]"] by auto
  moreover have "set s \<subseteq> insert CHR ''-'' (set t)" "s = [] \<Longrightarrow> t = []" by (cases s; auto simp: t_def)+
  moreover have "num_char CHR ''-''" by (simp add: num_char_def)
  ultimately show ?thesis by auto
qed

lemma json_scalar_chars:
  assumes "json_scalar s"
  shows "set s \<inter> set json_delims = {}" "s \<noteq> []" "hd s \<notin> {quote, CHR ''{'', CHR ''[''}" "hd s \<notin> set json_ws"
proof -
  have nc: "num_char c \<Longrightarrow> c \<notin> set json_delims \<union> {quote, CHR ''{'', CHR ''[''} \<union> set json_ws" for c
    by (auto simp: num_char_def is_digit_def json_delims_def json_ws_def)
  consider "s \<in> {''true'', ''false'', ''null''}" | "json_number s"
    using assms by (auto simp: json_scalar_def)
  then have "set s \<inter> (set json_delims \<union> {quote, CHR ''{'', CHR ''[''} \<union> set json_ws) = {} \<and> s \<noteq> []"
  proof cases
    case 2
    with json_number_chars [OF 2] nc show ?thesis by blast
  qed (auto simp: json_delims_def json_ws_def)
  then show "set s \<inter> set json_delims = {}" "s \<noteq> []" "hd s \<notin> {quote, CHR ''{'', CHR ''[''}" "hd s \<notin> set json_ws"
    by (auto simp: disjoint_iff dest: hd_in_set)
qed

subsection \<open>The scanner accepts exactly the grammar\<close>

lemma jmember_append_ws: "jmember True m \<Longrightarrow> ws w \<Longrightarrow> jmember True (w @ m)"
proof (elim jmember.cases)
  fix w1 k w'
  assume "m = w1 @ quote # k @ w' @ [CHR '':'']" "ws w1" "jstr k" "ws w'" "ws w"
  then show ?thesis using jmember_object [of "w @ w1" k w'] by simp
qed simp

lemma jitems_append_ws: "jitems ob n s \<Longrightarrow> ws w \<Longrightarrow> jitems ob n (w @ s)"
proof (cases ob)
  case True
  assume s: "jitems ob n s" "ws w"
  from s(1) True show ?thesis
    by cases (use s(2) ji_last [of ob "w @ _"] ji_more [of ob "w @ _"] True in \<open>simp_all add: jmember_append_ws\<close>)
next
  case False
  assume s: "jitems ob n s" "ws w"
  have "m = []" if "jmember ob m" for m using that False by cases auto
  then have arr: "jmember ob m \<longleftrightarrow> m = []" for m using False jmember_array by auto
  from s(1) show ?thesis
    by cases (use s(2) arr ji_last [of ob "[]" "w @ _"] ji_more [of ob "[]" "w @ _"] in simp_all)
qed

lemma jvalue_start:
  assumes "jvalue n v"
  shows "v \<noteq> [] \<and> hd v \<notin> set json_ws \<and> hd v \<noteq> CHR '']'' \<and> hd v \<noteq> CHR ''}''"
  using assms
proof cases
  case (jv_scalar n)
  have "hd v \<in> set v" using json_scalar_chars(2) [OF jv_scalar(2)] by simp
  with json_scalar_chars(1) [OF jv_scalar(2)] have "hd v \<notin> set json_delims" by auto
  with json_scalar_chars [OF jv_scalar(2)] show ?thesis by (auto simp: json_delims_def)
qed (auto simp: opener_def json_ws_def)

lemma jvalue_hd:
  assumes "jvalue n v" obtains c t where "v = c # t" "c \<notin> set json_ws" "c \<noteq> CHR '']''" "c \<noteq> CHR ''}''"
  using jvalue_start [OF assms] by (cases v) auto

lemma skip_member_Inr: "skip_member bs = Inr r \<longleftrightarrow> (\<exists>m. jmember True m \<and> bs = m @ r)"
proof
  assume "skip_member bs = Inr r"
  then obtain bs1 v bs2 where s: "jsonNonSpace bs = Inr (quote, bs1)" "moduleJSONString bs1 False = Inr (v, bs2)"
      "jsonNonSpace bs2 = Inr (CHR '':'', r)"
    by (auto simp: skip_member_def Let_def split: sum.splits if_splits)
  then obtain w k w' where "ws w" "jstr k" "ws w'" "bs = (w @ quote # k @ w' @ [CHR '':'']) @ r"
    by (auto simp: jsonNonSpace_Inr moduleJSONString_Inr)
  then show "\<exists>m. jmember True m \<and> bs = m @ r" by (blast intro: jmember_object)
next
  assume "\<exists>m. jmember True m \<and> bs = m @ r"
  then obtain m where "jmember True m" "bs = m @ r" by blast
  then show "skip_member bs = Inr r"
  proof cases
    case (jmember_object w k w')
    have "moduleJSONString (k @ w' @ CHR '':'' # r) False = Inr ([], w' @ CHR '':'' # r)"
      using jmember_object by (auto simp: moduleJSONString_Inr captured_def)
    with jmember_object \<open>bs = m @ r\<close> show ?thesis by (simp add: skip_member_def)
  qed simp
qed

lemma skip_member_prefix [simp]:
  "jmember ob m \<Longrightarrow> (if ob then skip_member (m @ x) else Inr (m @ x)) = Inr x"
  by (cases ob) (auto simp: skip_member_Inr elim: jmember.cases)

lemma skip_member_again: "jsonNonSpace bs = Inr (c, r) \<Longrightarrow> skip_member (c # r) = skip_member bs"
  by (simp only: skip_member_def jsonNonSpace_again)

lemma skip_value_again:
  "jsonNonSpace bs = Inr (c, r) \<Longrightarrow> skipModuleJSONValue d (c # r) = skipModuleJSONValue d bs"
  by (simp only: skipModuleJSONValue.simps [of d "c # r"] skipModuleJSONValue.simps [of d bs] jsonNonSpace_again)

lemma skip_items_again:
  "jsonNonSpace bs = Inr (c, r) \<Longrightarrow> skip_items ob d (c # r) = skip_items ob d bs"
  by (cases ob)
    (simp_all only: skip_items.simps [of _ d "c # r"] skip_items.simps [of _ d bs] skip_member_again
      skip_value_again if_True if_False sum.case)

lemma skip_complete:
  "jvalue n v \<Longrightarrow> n = 129 - d \<Longrightarrow> ws w \<Longrightarrow> delimited v rest \<Longrightarrow> skipModuleJSONValue d (w @ v @ rest) = Inr rest"
  "jitems ob n s \<Longrightarrow> n = 128 - d \<Longrightarrow> skip_items ob d (s @ rest) = Inr rest"
proof (induction n v and ob n s arbitrary: d w rest and d rest rule: jvalue_jitems.inducts)
  case (jv_str s n)
  have "moduleJSONString (s @ rest) False = Inr ([], rest)"
    using jv_str by (auto simp: moduleJSONString_Inr captured_def)
  with jv_str show ?case by (simp add: skipModuleJSONValue.simps)
next
  case (jv_scalar s n)
  note ch = json_scalar_chars [OF jv_scalar(1)]
  then obtain c t where s: "s = c # t" by (cases s) auto
  have "delimited s rest" by fact
  then have "rest \<noteq> []" "hd rest \<in> set json_delims" using ch(3) by (auto simp: delimited_def)
  then have "scan_scalar [c] (t @ rest) = Inr (s, rest)"
    using jv_scalar ch(1) s by (auto simp: scan_scalar_Inr)
  with jv_scalar ch s show ?case by (simp add: skipModuleJSONValue.simps)
next
  case (jv_empty w' n ob)
  then show ?case by (cases ob) (simp_all add: skipModuleJSONValue.simps closing_def opener_def)
next
  case (jv_items ob n s)
  obtain c t where c: "jsonNonSpace (s @ rest) = Inr (c, t)" "c \<noteq> closing ob"
    using jv_items(1)
  proof cases
    case (ji_last m w v w')
    then show ?thesis using that
      by (cases ob) (auto elim!: jmember.cases jvalue_hd simp: closing_def)
  next
    case (ji_more m w v w' s')
    then show ?thesis using that
      by (cases ob) (auto elim!: jmember.cases jvalue_hd simp: closing_def)
  qed
  have "skip_items ob d (c # t) = Inr rest"
    using jv_items.IH [of d rest] jv_items.prems skip_items_again [OF c(1)] by simp
  with c jv_items.prems show ?case
    by (cases ob) (simp_all add: skipModuleJSONValue.simps closing_def opener_def)
next
  case (ji_last ob m w n v w')
  have "skipModuleJSONValue (d + 1) (w @ v @ w' @ closing ob # rest) = Inr (w' @ closing ob # rest)"
    using ji_last.prems ji_last.hyps
    by (intro ji_last.IH) (cases w'; auto simp: delimited_def json_ws_def json_delims_def closing_def)+
  with ji_last.hyps show ?case by (simp add: skip_items.simps [of ob])
next
  case (ji_more ob m w n v w' s)
  have "skipModuleJSONValue (d + 1) (w @ v @ w' @ CHR '','' # s @ rest) = Inr (w' @ CHR '','' # s @ rest)"
    using ji_more.prems ji_more.hyps
    by (intro ji_more.IH) (cases w'; auto simp: delimited_def json_ws_def json_delims_def)+
  with ji_more.hyps ji_more.IH(2) [OF ji_more.prems] show ?case
    by (simp add: skip_items.simps [of ob "d"] closing_def)
qed

lemma skip_sound:
  "skipModuleJSONValue d bs = Inr r \<Longrightarrow>
     \<exists>w v. bs = w @ v @ r \<and> ws w \<and> jvalue (129 - d) v \<and> delimited v r"
  "skip_items ob d bs = Inr r \<Longrightarrow> \<exists>s. bs = s @ r \<and> jitems ob (128 - d) s"
proof (induction d bs and ob d bs arbitrary: r and r rule: skipModuleJSONValue_skip_items.induct)
  case (1 d bs)
  from "1.prems" obtain c bs1 where c: "jsonNonSpace bs = Inr (c, bs1)" and "d \<le> 128"
    by (subst (asm) skipModuleJSONValue.simps) (auto split: if_splits sum.splits)
  then obtain w where w: "ws w" "bs = w @ c # bs1" by (auto simp: jsonNonSpace_Inr)
  from \<open>d \<le> 128\<close> have n: "129 - d = Suc (128 - d)" by simp
  have "\<exists>v. c # bs1 = v @ r \<and> jvalue (Suc (128 - d)) v \<and> delimited v r"
  proof -
    consider "c = quote" | "c = CHR ''{'' \<or> c = CHR ''[''" "c \<noteq> quote"
      | "c \<noteq> quote" "c \<noteq> CHR ''{''" "c \<noteq> CHR ''[''" by blast
    then show ?thesis
    proof cases
      assume q: "c = quote"
      with "1.prems" c \<open>d \<le> 128\<close> obtain v where "moduleJSONString bs1 False = Inr (v, r)"
        by (subst (asm) skipModuleJSONValue.simps) (auto split: sum.splits)
      then obtain s where "jstr s" "bs1 = s @ r" by (auto simp: moduleJSONString_Inr)
      with q show ?thesis by (intro exI [of _ "quote # s"]) (auto intro: jv_str simp: delimited_def)
    next
      assume b: "c = CHR ''{'' \<or> c = CHR ''[''" "c \<noteq> quote"
      define ob where "ob = (c = CHR ''{'')"
      have op: "c = opener ob" using b by (auto simp: ob_def opener_def)
      from "1.prems" b c \<open>d \<le> 128\<close> obtain c2 bs2 where c2: "jsonNonSpace bs1 = Inr (c2, bs2)"
          "(if c2 = closing ob then Inr bs2 else skip_items ob d (c2 # bs2)) = Inr r"
        unfolding ob_def by (subst (asm) skipModuleJSONValue.simps) (simp split: sum.splits prod.splits if_split_asm)
      then obtain w2 where w2: "ws w2" "bs1 = w2 @ c2 # bs2" by (auto simp: jsonNonSpace_Inr)
      have dl: "delimited (opener ob # x) r" for x by (simp add: delimited_def opener_def)
      show ?thesis
      proof (cases "c2 = closing ob")
        case True
        with c2 w2 op show ?thesis
          by (intro exI [of _ "opener ob # w2 @ [closing ob]"]) (simp add: jv_empty dl)
      next
        case False
        with c2 have it: "skip_items ob d (c2 # bs2) = Inr r" by simp
        with "1.IH" [OF _ c _ _ _ c2(1)] b False \<open>d \<le> 128\<close> obtain s where s: "c2 # bs2 = s @ r" "jitems ob (128 - d) s"
          unfolding ob_def by (metis not_less prod.collapse)
        with jitems_append_ws [OF s(2) w2(1)] w2 op show ?thesis
          by (intro exI [of _ "opener ob # w2 @ s"]) (simp add: jv_items dl)
      qed
    next
      assume b: "c \<noteq> quote" "c \<noteq> CHR ''{''" "c \<noteq> CHR ''[''"
      with "1.prems" c \<open>d \<le> 128\<close> obtain raw where "scan_scalar [c] bs1 = Inr (raw, r)" "json_scalar raw"
        by (subst (asm) skipModuleJSONValue.simps) (auto split: sum.splits if_splits)
      then show ?thesis
        by (auto simp: scan_scalar_Inr delimited_def intro!: exI [of _ raw] jv_scalar)
    qed
  qed
  with w n show ?case by force
next
  case (2 ob d bs)
  from "2.prems" obtain bs1 bs2 c bs3 where
    m: "(if ob then skip_member bs else Inr bs) = Inr bs1"
    and v: "skipModuleJSONValue (d + 1) bs1 = Inr bs2"
    and c: "jsonNonSpace bs2 = Inr (c, bs3)"
    and e: "(if c = closing ob then Inr bs3
          else if c \<noteq> CHR '','' then Inl (ModFmt ''expected module value separator'')
          else skip_items ob d bs3) = Inr r"
    by (subst (asm) skip_items.simps) (auto split: sum.splits)
  from m obtain mm where mm: "jmember ob mm" "bs = mm @ bs1"
    by (cases ob) (auto simp: skip_member_Inr intro: jmember_array)
  from "2.IH"(1) [OF m v] obtain w t where t: "bs1 = w @ t @ bs2" "ws w" "jvalue (128 - d) t" by auto
  from c obtain w' where w': "ws w'" "bs2 = w' @ c # bs3" by (auto simp: jsonNonSpace_Inr)
  show ?case
  proof (cases "c = closing ob")
    case True
    with e mm t w' show ?thesis
      by (intro exI [of _ "mm @ w @ t @ w' @ [closing ob]"]) (simp add: ji_last)
  next
    case False
    with e have cm: "c = CHR '',''" and it: "skip_items ob d bs3 = Inr r" by (auto split: if_splits)
    from "2.IH"(2) [OF m v c refl False _ it] cm obtain s where "bs3 = s @ r" "jitems ob (128 - d) s" by auto
    with cm mm t w' show ?thesis
      by (intro exI [of _ "mm @ w @ t @ w' @ CHR '','' # s"]) (simp add: ji_more)
  qed
qed

lemma skip_value_exact:
  "skipModuleJSONValue d bs = Inr r \<longleftrightarrow>
     (\<exists>w v. bs = w @ v @ r \<and> ws w \<and> jvalue (129 - d) v \<and> delimited v r)"
  by (auto dest: skip_sound(1) intro: skip_complete(1))

text \<open>\<open>jheader s\<close>: \<open>s\<close> is what comes after the opening brace up to and including the colon of the first
  field whose name is \<open>tags\<close> in any case.\<close>

definition jkey :: "string \<Rightarrow> nat list \<Rightarrow> bool" where
  "jkey s k \<longleftrightarrow> jstr s \<and> captured True (quote # s) k"

inductive jheader :: "string \<Rightarrow> bool" where
  jh_tags: "ws w \<Longrightarrow> jkey s k \<Longrightarrow> is_tags_key k \<Longrightarrow> ws w' \<Longrightarrow> jheader (w @ quote # s @ w' @ [CHR '':''])"
| jh_skip: "ws w \<Longrightarrow> jkey s k \<Longrightarrow> \<not> is_tags_key k \<Longrightarrow> ws w' \<Longrightarrow> ws w1 \<Longrightarrow> jvalue 129 v \<Longrightarrow> ws w2 \<Longrightarrow> jheader h \<Longrightarrow>
            jheader (w @ quote # s @ w' @ CHR '':'' # w1 @ v @ w2 @ CHR '','' # h)"

lemma jkey_scan: "moduleJSONString bs True = Inr (k, r) \<longleftrightarrow> (\<exists>s. jkey s k \<and> bs = s @ r)"
  by (auto simp: moduleJSONString_Inr jkey_def)

lemma module_fields_sound:
  "module_fields dec bs = Inr tags \<Longrightarrow> \<exists>s rest. jheader s \<and> bs = s @ rest \<and> dec (take (2 ^ 20) rest) = Inr tags"
proof (induction dec bs rule: module_fields.induct)
  case (1 dec bs)
  from "1.prems" obtain bs1 key bs2 bs3 where
    c: "jsonNonSpace bs = Inr (quote, bs1)" and k: "moduleJSONString bs1 True = Inr (key, bs2)"
    and cl: "jsonNonSpace bs2 = Inr (CHR '':'', bs3)"
    and r: "(if is_tags_key key then dec (take (2 ^ 20) bs3)
     else (case skipModuleJSONValue 0 bs3 of
        Inl e \<Rightarrow> Inl e
      | Inr bs4 \<Rightarrow>
     (case jsonNonSpace bs4 of
        Inl e \<Rightarrow> Inl e
      | Inr (c, bs5) \<Rightarrow>
          if c = CHR ''}'' then Inl (ModFmt ''module tags not found'')
          else if c \<noteq> CHR '','' then Inl (ModFmt ''expected comma after module field'')
          else module_fields dec bs5))) = Inr tags"
    by (subst (asm) module_fields.simps) (simp split: sum.splits prod.splits if_split_asm)
  from c obtain w where w: "ws w" "bs = w @ quote # bs1" by (auto simp: jsonNonSpace_Inr)
  from k obtain s where s: "jkey s key" "bs1 = s @ bs2" by (auto simp: jkey_scan)
  from cl obtain w' where w': "ws w'" "bs2 = w' @ CHR '':'' # bs3" by (auto simp: jsonNonSpace_Inr)
  show ?case
  proof (cases "is_tags_key key")
    case True
    with r w s w' show ?thesis
      by (intro exI [of _ "w @ quote # s @ w' @ [CHR '':'']"] exI [of _ bs3]) (simp add: jh_tags)
  next
    case False
    with r obtain bs4 bs5 where v: "skipModuleJSONValue 0 bs3 = Inr bs4" "jsonNonSpace bs4 = Inr (CHR '','', bs5)"
        "module_fields dec bs5 = Inr tags"
      by (simp split: sum.splits prod.splits if_split_asm)
    from v(1) obtain w1 t where t: "bs3 = w1 @ t @ bs4" "ws w1" "jvalue 129 t" by (auto simp: skip_value_exact)
    from v(2) obtain w2 where w2: "ws w2" "bs4 = w2 @ CHR '','' # bs5" by (auto simp: jsonNonSpace_Inr)
    have "\<exists>h rest. jheader h \<and> bs5 = h @ rest \<and> dec (take (2 ^ 20) rest) = Inr tags"
      by (rule "1.IH" [OF c refl _ _ k refl cl refl _ False v(1,2) refl _ _ v(3)]) simp_all
    then obtain h rest where "jheader h" "bs5 = h @ rest" "dec (take (2 ^ 20) rest) = Inr tags" by blast
    with w s w' t w2 False show ?thesis
      by (intro exI [of _ "w @ quote # s @ w' @ CHR '':'' # w1 @ t @ w2 @ CHR '','' # h"] exI [of _ rest])
        (simp add: jh_skip)
  qed
qed

lemma module_fields_complete: "jheader s \<Longrightarrow> module_fields dec (s @ rest) = dec (take (2 ^ 20) rest)"
proof (induction rule: jheader.induct)
  case (jh_tags w s k w')
  have "moduleJSONString (s @ w' @ CHR '':'' # rest) True = Inr (k, w' @ CHR '':'' # rest)"
    using jh_tags by (auto simp: jkey_scan)
  with jh_tags show ?case by (subst module_fields.simps) simp
next
  case (jh_skip w s k w' w1 v w2 h)
  have "moduleJSONString (s @ w' @ CHR '':'' # w1 @ v @ w2 @ CHR '','' # h @ rest) True =
      Inr (k, w' @ CHR '':'' # w1 @ v @ w2 @ CHR '','' # h @ rest)"
    using jh_skip by (auto simp: jkey_scan)
  moreover have "skipModuleJSONValue 0 (w1 @ v @ w2 @ CHR '','' # h @ rest) = Inr (w2 @ CHR '','' # h @ rest)"
    using jh_skip by (intro skip_complete(1)) (cases w2; auto simp: delimited_def json_ws_def json_delims_def)+
  ultimately show ?case using jh_skip by (subst module_fields.simps) simp
qed

text \<open>The scanner that skips a field's value accepts exactly the JSON values of the grammar: it
  succeeds, leaving \<open>r\<close>, just when the input is white space, a value with at most \<open>129 - d\<close> levels whose
  scalars are literals or numbers of at most 128 bytes, and \<open>r\<close>; a scalar must be followed by a
  delimiter, and never is a byte after the value consumed.\<close>

theorem skipModuleJSONValue_exact:
  "skipModuleJSONValue d bs = Inr r \<longleftrightarrow>
     (\<exists>w v. bs = w @ v @ r \<and> ws w \<and> jvalue (129 - d) v \<and> delimited v r)"
  by (rule skip_value_exact)

text \<open>C4: The reader of a module file finds tags exactly when the file is an object whose fields before the
  first one named tags, in any case, are well formed; it then returns what the decoder makes of the
  next megabyte, whatever follows, so the image behind the tags is never read.\<close>

theorem readModuleTags_exact:
  "readModuleTags dec src = Inr tags \<longleftrightarrow>
     (\<exists>w s rest. src = w @ CHR ''{'' # s @ rest \<and> ws w \<and> jheader s \<and> dec (take (2 ^ 20) rest) = Inr tags)"
proof
  assume "readModuleTags dec src = Inr tags"
  then obtain bs where "jsonNonSpace src = Inr (CHR ''{'', bs)" "module_fields dec bs = Inr tags"
    by (auto simp: readModuleTags_def split: sum.splits if_splits)
  then show "\<exists>w s rest. src = w @ CHR ''{'' # s @ rest \<and> ws w \<and> jheader s \<and> dec (take (2 ^ 20) rest) = Inr tags"
    by (fastforce simp: jsonNonSpace_Inr dest: module_fields_sound)
next
  assume "\<exists>w s rest. src = w @ CHR ''{'' # s @ rest \<and> ws w \<and> jheader s \<and> dec (take (2 ^ 20) rest) = Inr tags"
  then show "readModuleTags dec src = Inr tags"
    by (auto simp: readModuleTags_def module_fields_complete)
qed

end
