(* ===== verification/ModuleLoad.thy ===== *)
theory ModuleLoad
  imports ModuleJson
begin

text \<open>
  The loaders around the scanner of a module file (node/spawn.go): the path of the file, the file and
  the download it falls back to. The file system and the SDK are parameters.
\<close>

subsection \<open>Paths\<close>

text \<open>\<open>filepath.Clean\<close> of a relative path, on its segments.\<close>

fun clean_segs :: "string list \<Rightarrow> string list \<Rightarrow> string list" where
  "clean_segs out [] = out"
| "clean_segs out (s # ss) =
     (if s = [] \<or> s = ''.'' then clean_segs out ss
      else if s = ''..'' \<and> out \<noteq> [] \<and> last out \<noteq> ''..'' then clean_segs (butlast out) ss
      else clean_segs (out @ [s]) ss)"

fun join_segs :: "string list \<Rightarrow> string" where
  "join_segs [] = []"
| "join_segs [s] = s"
| "join_segs (s # ss) = s @ CHR ''/'' # join_segs ss"

definition filepath_Clean :: "string \<Rightarrow> string" where
  "filepath_Clean p = (let out = clean_segs [] (Split CHR ''/'' p) in if out = [] then ''.'' else join_segs out)"

definition module_file :: "string \<Rightarrow> string" where
  "module_file itemId = filepath_Clean (''mod/mod-'' @ itemId @ ''.json'')"

subsection \<open>Loading\<close>

datatype file_reply = FileMissing | FileErr sys_err | FileBytes string

fun mod_sys_err :: "mod_err \<Rightarrow> sys_err" where
  "mod_sys_err ModRead = OtherErr ''EOF''"
| "mod_sys_err (ModFmt s) = OtherErr s"
| "mod_sys_err ModJson = OtherErr ''json''"

definition tags_module :: "tag list \<Rightarrow> sys_err + module" where
  "tags_module tags = (case TagsToModule tags of Inl e \<Rightarrow> Inl (CodecErr e) | Inr m \<Rightarrow> Inr m)"

definition load_file :: "(string \<Rightarrow> file_reply) \<Rightarrow> (string \<Rightarrow> mod_err + tag list) \<Rightarrow> string \<Rightarrow> sys_err + module" where
  "load_file fs dec filename =
     (case fs filename of
        FileMissing \<Rightarrow> Inl ErrNotFoundMod
      | FileErr e \<Rightarrow> Inl e
      | FileBytes src \<Rightarrow>
          (case readModuleTags dec src of Inl e \<Rightarrow> Inl (mod_sys_err e) | Inr tags \<Rightarrow> tags_module tags))"

definition loadModuleByLocal ::
  "(string \<Rightarrow> file_reply) \<Rightarrow> (string \<Rightarrow> mod_err + tag list) \<Rightarrow> string \<Rightarrow> sys_err + module" where
  "loadModuleByLocal fs dec itemId = load_file fs dec (module_file itemId)"

text \<open>The SDK may be nil; its download gives the tags of the item.\<close>

definition downloadModule :: "(string \<Rightarrow> sys_err + tag list) option \<Rightarrow> string \<Rightarrow> sys_err + module" where
  "downloadModule sdk itemId =
     (case sdk of
        None \<Rightarrow> Inl (OtherErr ''sdk not initialized'')
      | Some download \<Rightarrow> (case download itemId of Inl e \<Rightarrow> Inl e | Inr tags \<Rightarrow> tags_module tags))"

definition LoadModule ::
  "(string \<Rightarrow> file_reply) \<Rightarrow> (string \<Rightarrow> mod_err + tag list) \<Rightarrow> (string \<Rightarrow> sys_err + tag list) option \<Rightarrow>
     string \<Rightarrow> sys_err + module" where
  "LoadModule fs dec sdk itemId =
     (case loadModuleByLocal fs dec itemId of Inr m \<Rightarrow> Inr m | Inl _ \<Rightarrow> downloadModule sdk itemId)"

subsection \<open>How deep a value may be nested\<close>

text \<open>A value of \<open>n + 1\<close> nested arrays at depth \<open>d\<close> is skipped if its innermost array is at depth 128 or
  less; with one level more the scanner stops with its error, whatever follows.\<close>

theorem nesting_limit:
  "skipModuleJSONValue d (replicate (Suc n) CHR ''['' @ replicate (Suc n) CHR '']'' @ r) =
     (if d + n \<le> 128 then Inr r else Inl (ModFmt ''module metadata nesting too deep''))"
proof (induction n arbitrary: d r)
  case 0
  then show ?case by (simp add: skipModuleJSONValue.simps json_ws_def closing_def)
next
  case (Suc n)
  have r: "replicate (Suc (Suc n)) CHR ''['' @ replicate (Suc (Suc n)) CHR '']'' @ r =
      CHR ''['' # (replicate (Suc n) CHR ''['' @ replicate (Suc n) CHR '']'' @ (CHR '']'' # r))"
    by (simp add: replicate_app_Cons_same)
  have "skip_items False d (replicate (Suc n) CHR ''['' @ replicate (Suc n) CHR '']'' @ CHR '']'' # r) =
      (if d + Suc n \<le> 128 then Inr r else Inl (ModFmt ''module metadata nesting too deep''))"
    using Suc [of "d + 1" "CHR '']'' # r"]
    by (subst skip_items.simps) (simp add: closing_def json_ws_def del: replicate_Suc)
  then show ?case
    unfolding r by (subst skipModuleJSONValue.simps) (simp add: closing_def json_ws_def)
qed

subsection \<open>Which files a module id names\<close>

lemma clean_segs_plain:
  "list_all (\<lambda>s. s \<notin> {[], ''.'', ''..''}) ss \<Longrightarrow> clean_segs out ss = out @ ss"
  by (induction ss arbitrary: out) auto

lemma clean_segs_ups:
  "set out \<subseteq> {''..''} \<Longrightarrow> clean_segs out (replicate n ''..'' @ ss) = clean_segs (out @ replicate n ''..'') ss"
proof (induction n arbitrary: out)
  case (Suc n)
  have "out = [] \<or> last out = ''..''" using Suc.prems last_in_set [of out] by (cases "out = []") blast+
  then have "clean_segs out (replicate (Suc n) ''..'' @ ss) = clean_segs (out @ [''..'']) (replicate n ''..'' @ ss)"
    by auto
  also have "\<dots> = clean_segs ((out @ [''..'']) @ replicate n ''..'') ss" using Suc.prems by (intro Suc.IH) auto
  finally show ?case by simp
qed simp

definition ups :: "nat \<Rightarrow> string" where "ups n = concat (replicate n ''../'')"

lemma Split_ups: "CHR ''/'' \<notin> set f \<Longrightarrow> Split CHR ''/'' (ups n @ f) = replicate n ''..'' @ [f]"
  by (induction n) (auto simp: ups_def Split_no_sep)

lemma join_ups: "join_segs (replicate n ''..'' @ [f]) = ups n @ f"
proof (induction n)
  case (Suc n)
  then show ?case by (cases "replicate n ''..'' @ [f]") (auto simp: ups_def)
qed (simp add: ups_def)

text \<open>A module id is not checked before it becomes part of a path: with an id of the form
  \<open>x/../../\<close>, further steps up and a name, the node reads the file of that name with the extension
  \<open>json\<close> in the parent directory reached by those steps, outside of the directory of modules.\<close>

theorem loadModuleByLocal_escapes:
  assumes "CHR ''/'' \<notin> set f"
  shows "loadModuleByLocal fs dec (''x/'' @ ups (n + 2) @ f) = load_file fs dec (ups n @ f @ ''.json'')"
proof -
  have f: "f @ ''.json'' \<notin> {[], ''.'', ''..''}" by (auto simp: append_eq_Cons_conv)
  have "Split CHR ''/'' (ups (n + 2) @ f @ ''.json'') = replicate (n + 2) ''..'' @ [f @ ''.json'']"
    using assms by (intro Split_ups) auto
  then have sp: "Split CHR ''/'' (''mod/mod-x/'' @ ups (n + 2) @ f @ ''.json'') =
      [''mod'', ''mod-x''] @ replicate (n + 2) ''..'' @ [f @ ''.json'']" by simp
  have "clean_segs [] ([''mod'', ''mod-x''] @ replicate (n + 2) ''..'' @ [f @ ''.json'']) =
      clean_segs [] (replicate n ''..'' @ [f @ ''.json''])" by simp
  then have "clean_segs [] ([''mod'', ''mod-x''] @ replicate (n + 2) ''..'' @ [f @ ''.json'']) =
      replicate n ''..'' @ [f @ ''.json'']" using f by (simp add: clean_segs_ups)
  with sp have "module_file (''x/'' @ ups (n + 2) @ f) = ups n @ f @ ''.json''"
    by (simp add: module_file_def filepath_Clean_def join_ups)
  then show ?thesis by (simp add: loadModuleByLocal_def)
qed

theorem loadModuleByLocal_escapes_witness:
  "\<forall>fs dec. loadModuleByLocal fs dec ''x/../../../cfg'' = load_file fs dec ''../cfg.json''"
  using loadModuleByLocal_escapes [of "''cfg''" _ _ 1] by (simp add: ups_def numeral_2_eq_2)

end
