(* ===== verification/UploadDb.thy ===== *)
theory UploadDb
  imports Rdb
begin

text \<open>
  The queue of transactions that wait for the chain (db/rdb/chainkit.go): a list of pending ids, a set
  of ids that are being uploaded, a set of uploaded ids, and the id of the current bundle, a key that
  expires. The Redis client is a parameter; \<open>uredis_ok\<close> states the documented behaviour of its calls.
  \<open>uq\<close> is the abstract queue, and the lemmas say what each operation does to it.
\<close>

subsection \<open>The client\<close>

datatype ucmd =
    USet string string
  | USetEx string string
  | URPush string string
  | USAdd string "string list"
  | UDel string

text \<open>Counts are integers: a list or set of the server has less than \<open>2 ^ 32\<close> elements.\<close>

record 'u uredis =
  ur_get :: "'u \<Rightarrow> string \<Rightarrow> 'u \<times> string reply"
  ur_lpop :: "'u \<Rightarrow> string \<Rightarrow> int \<Rightarrow> 'u \<times> string list reply"
  ur_llen :: "'u \<Rightarrow> string \<Rightarrow> 'u \<times> int reply"
  ur_scard :: "'u \<Rightarrow> string \<Rightarrow> 'u \<times> int reply"
  ur_smembers :: "'u \<Rightarrow> string \<Rightarrow> 'u \<times> string list reply"
  ur_sismember :: "'u \<Rightarrow> string \<Rightarrow> string \<Rightarrow> 'u \<times> bool reply"
  ur_sismembers :: "'u \<Rightarrow> string \<Rightarrow> string list \<Rightarrow> 'u \<times> bool list reply"
  ur_exec :: "'u \<Rightarrow> ucmd list \<Rightarrow> 'u \<times> string option"

text \<open>\<open>%w\<close> of an error reply; \<open>redis.Nil\<close> is an error too.\<close>

fun reply_err :: "'a reply \<Rightarrow> string" where
  "reply_err (RedisErr e) = e"
| "reply_err _ = ''redis: nil''"

fun result_of :: "'u \<times> 'a reply \<Rightarrow> 'u \<times> (string + 'a)" where
  "result_of (s, Reply v) = (s, Inr v)"
| "result_of (s, r) = (s, Inl (reply_err r))"

subsection \<open>Operations\<close>

definition RdbPendingTxIds :: string where "RdbPendingTxIds = ''chainkit:pending''"
definition RdbUploadingTxIds :: string where "RdbUploadingTxIds = ''chainkit:uploading''"
definition RdbCurrentBundledIn :: string where "RdbCurrentBundledIn = ''chainkit:current_bundledin_id''"
definition RdbUploadedTxIds :: string where "RdbUploadedTxIds = ''chainkit:uploaded_txids''"
definition RdbChainkitCache :: string where "RdbChainkitCache = ''chainkit:cache''"

lemmas upload_keys = RdbPendingTxIds_def RdbUploadingTxIds_def RdbCurrentBundledIn_def
  RdbUploadedTxIds_def RdbChainkitCache_def

definition MaxUploadingCount :: int where "MaxUploadingCount = 100000"

definition GetBundledIn :: "'u uredis \<Rightarrow> 'u \<Rightarrow> 'u \<times> (string + string)" where
  "GetBundledIn rd s =
     (case ur_get rd s RdbCurrentBundledIn of
        (s', Reply v) \<Rightarrow> (s', Inr v)
      | (s', NilReply) \<Rightarrow> (s', Inr [])
      | (s', RedisErr e) \<Rightarrow> (s', Inl (''failed to get current bundledIn: '' @ e)))"

definition SetBundledIn :: "'u uredis \<Rightarrow> 'u \<Rightarrow> string \<Rightarrow> 'u \<times> string option" where
  "SetBundledIn rd s i = ur_exec rd s [USetEx RdbCurrentBundledIn i]"

definition AddPending :: "'u uredis \<Rightarrow> 'u \<Rightarrow> string \<Rightarrow> 'u \<times> string option" where
  "AddPending rd s txid = ur_exec rd s [URPush RdbPendingTxIds txid]"

definition pendingCount :: "'u uredis \<Rightarrow> 'u \<Rightarrow> 'u \<times> (string + int)" where
  "pendingCount rd s = result_of (ur_llen rd s RdbPendingTxIds)"

definition uploadingCount :: "'u uredis \<Rightarrow> 'u \<Rightarrow> 'u \<times> (string + int)" where
  "uploadingCount rd s = result_of (ur_scard rd s RdbUploadingTxIds)"

definition GetUploading :: "'u uredis \<Rightarrow> 'u \<Rightarrow> 'u \<times> (string + string list)" where
  "GetUploading rd s = result_of (ur_smembers rd s RdbUploadingTxIds)"

definition IsUploaded :: "'u uredis \<Rightarrow> 'u \<Rightarrow> string \<Rightarrow> 'u \<times> (string + bool)" where
  "IsUploaded rd s txid = result_of (ur_sismember rd s RdbUploadedTxIds txid)"

definition IsUploadedBatch :: "'u uredis \<Rightarrow> 'u \<Rightarrow> string list \<Rightarrow> 'u \<times> (string + (string, bool) gomap)" where
  "IsUploadedBatch rd s txids =
     (if txids = [] then (s, Inr [])
      else case ur_sismembers rd s RdbUploadedTxIds txids of
        (s', Reply bs) \<Rightarrow> (s', Inr (foldl (\<lambda>m (t, b). mput t b m) [] (zip txids bs)))
      | (s', r) \<Rightarrow> (s', Inl (''failed to check uploaded txids: '' @ reply_err r)))"

definition MoveToUploading :: "'u uredis \<Rightarrow> 'u \<Rightarrow> 'u \<times> (string + int)" where
  "MoveToUploading rd s =
     (case GetBundledIn rd s of
        (s1, Inl e) \<Rightarrow> (s1, Inl (''failed to check current bundledIn: '' @ e))
      | (s1, Inr cur) \<Rightarrow>
     if cur \<noteq> [] then (s1, Inl (''bundledIn already exists: '' @ cur))
     else (case uploadingCount rd s1 of
        (s2, Inl e) \<Rightarrow> (s2, Inl (''failed to get uploading count: '' @ e))
      | (s2, Inr current) \<Rightarrow>
     let availableSlots = MaxUploadingCount - current in
     if availableSlots \<le> 0
     then (s2, Inl (''uploading queue is full (max: '' @ show_int MaxUploadingCount @ '', current: '' @ show_int current @ '')''))
     else (case pendingCount rd s2 of
        (s3, Inl e) \<Rightarrow> (s3, Inl (''failed to get pending count: '' @ e))
      | (s3, Inr pending) \<Rightarrow>
     if pending = 0 then (s3, Inl ''no pending transactions available'')
     else let toMove = (if pending < availableSlots then pending else availableSlots) in
     (case ur_lpop rd s3 RdbPendingTxIds toMove of
        (s4, NilReply) \<Rightarrow> (s4, Inl ''no pending transactions available'')
      | (s4, RedisErr e) \<Rightarrow> (s4, Inl (''failed to pop pending transactions: '' @ e))
      | (s4, Reply ids) \<Rightarrow>
     if ids = [] then (s4, Inl ''no pending transactions to move'')
     else (case ur_exec rd s4 [USAdd RdbUploadingTxIds ids] of
        (s5, Some e) \<Rightarrow> (s5, Inl (''pipeline execution failed: '' @ e))
      | (s5, None) \<Rightarrow> (s5, Inr (int (length ids))))))))"

definition end_cmds :: "string list \<Rightarrow> ucmd list" where
  "end_cmds uploading = (if uploading \<noteq> [] then [USAdd RdbUploadedTxIds uploading] else []) @
     [UDel RdbUploadingTxIds, UDel RdbCurrentBundledIn]"

definition EndUpload :: "'u uredis \<Rightarrow> 'u \<Rightarrow> 'u \<times> string option" where
  "EndUpload rd s =
     (case GetBundledIn rd s of
        (s1, Inl e) \<Rightarrow> (s1, Some (''failed to get current bundledIn: '' @ e))
      | (s1, Inr cur) \<Rightarrow>
     if cur = [] then (s1, Some ''no current bundledIn to move'')
     else (case GetUploading rd s1 of
        (s2, Inl e) \<Rightarrow> (s2, Some (''failed to get uploading txids: '' @ e))
      | (s2, Inr uploading) \<Rightarrow>
     (case ur_exec rd s2 (end_cmds uploading) of
        (s3, Some e) \<Rightarrow> (s3, Some (''pipeline execution failed: '' @ e))
      | (s3, None) \<Rightarrow> (s3, None))))"

text \<open>The cache of downloaded items.\<close>

definition ck_Cache :: "'u uredis \<Rightarrow> db_codec \<Rightarrow> 'u \<Rightarrow> string \<Rightarrow> bundle_item \<Rightarrow> 'u \<times> string option" where
  "ck_Cache rd cd s txid item =
     (case ur_exec rd s [USet (RdbChainkitCache @ '':'' @ txid) (enc_item cd item)] of
        (s', Some e) \<Rightarrow> (s', Some (''failed to cache item: '' @ e))
      | (s', None) \<Rightarrow> (s', None))"

definition ck_GetCache :: "'u uredis \<Rightarrow> db_codec \<Rightarrow> 'u \<Rightarrow> string \<Rightarrow> 'u \<times> (string + bundle_item)" where
  "ck_GetCache rd cd s txid =
     (case ur_get rd s (RdbChainkitCache @ '':'' @ txid) of
        (s', NilReply) \<Rightarrow> (s', Inl (''item not found for txid '' @ txid))
      | (s', RedisErr e) \<Rightarrow> (s', Inl (''failed to get item from cache: '' @ e))
      | (s', Reply v) \<Rightarrow> (s', (case dec_item cd v of
            None \<Rightarrow> Inl ''failed to unmarshal item'' | Some i \<Rightarrow> Inr i)))"

subsection \<open>Documented behaviour of the client\<close>

text \<open>Strings carry whether they expire; sets have no order.\<close>

record uks =
  us_str :: "string \<Rightarrow> (string \<times> bool) option"
  us_list :: "string \<Rightarrow> string list"
  us_set :: "string \<Rightarrow> string set"

fun us_cmd :: "uks \<Rightarrow> ucmd \<Rightarrow> uks" where
  "us_cmd ks (USet k v) = ks\<lparr>us_str := (us_str ks)(k \<mapsto> (v, False))\<rparr>"
| "us_cmd ks (USetEx k v) = ks\<lparr>us_str := (us_str ks)(k \<mapsto> (v, True))\<rparr>"
| "us_cmd ks (URPush k v) = ks\<lparr>us_list := (us_list ks)(k := us_list ks k @ [v])\<rparr>"
| "us_cmd ks (USAdd k vs) = ks\<lparr>us_set := (us_set ks)(k := us_set ks k \<union> set vs)\<rparr>"
| "us_cmd ks (UDel k) = ks\<lparr>us_str := (us_str ks)(k := None), us_list := (us_list ks)(k := []),
     us_set := (us_set ks)(k := {})\<rparr>"

definition us_pop :: "uks \<Rightarrow> string \<Rightarrow> int \<Rightarrow> uks" where
  "us_pop ks k n = ks\<lparr>us_list := (us_list ks)(k := drop (nat n) (us_list ks k))\<rparr>"

definition expire :: "uks \<Rightarrow> uks" where
  "expire ks = ks\<lparr>us_str := (\<lambda>k. case us_str ks k of Some (v, True) \<Rightarrow> None | x \<Rightarrow> x)\<rparr>"

definition ages :: "uks \<Rightarrow> uks \<Rightarrow> bool" where
  "ages ks ks' \<longleftrightarrow> ks' = ks \<or> ks' = expire ks"

definition uread_ok :: "('u \<Rightarrow> uks) \<Rightarrow> 'u \<Rightarrow> 'u \<times> 'a reply \<Rightarrow> (uks \<Rightarrow> 'a reply \<Rightarrow> bool) \<Rightarrow> bool" where
  "uread_ok view s q ok \<longleftrightarrow> ages (view s) (view (fst q)) \<and> ok (view (fst q)) (snd q)"

text \<open>
  What the queue relies on of the database: a call that answers reports the keys it worked on, a
  call that fails has taken effect or not. The client is made with three retries
  (\<open>chainkit.go\<close>, line 27); a retry after a lost reply could pop or push a second time, which
  this contract does not allow.
\<close>

definition uredis_ok :: "'u uredis \<Rightarrow> ('u \<Rightarrow> uks) \<Rightarrow> bool" where
  "uredis_ok rd view \<longleftrightarrow>
     (\<forall>s k. finite (us_set (view s) k)) \<and>
     (\<forall>s k. uread_ok view s (ur_get rd s k) (\<lambda>ks. reply_of (map_option fst (us_str ks k)))) \<and>
     (\<forall>s k. uread_ok view s (ur_llen rd s k) (\<lambda>ks. reply_of (Some (int (length (us_list ks k)))))) \<and>
     (\<forall>s k. uread_ok view s (ur_scard rd s k) (\<lambda>ks. reply_of (Some (int (card (us_set ks k)))))) \<and>
     (\<forall>s k. uread_ok view s (ur_smembers rd s k) (\<lambda>ks r. case r of
        Reply vs \<Rightarrow> set vs = us_set ks k \<and> distinct vs | NilReply \<Rightarrow> False | RedisErr _ \<Rightarrow> True)) \<and>
     (\<forall>s k v. uread_ok view s (ur_sismember rd s k v) (\<lambda>ks. reply_of (Some (v \<in> us_set ks k)))) \<and>
     (\<forall>s k vs. uread_ok view s (ur_sismembers rd s k vs) (\<lambda>ks. reply_of (Some (map (\<lambda>v. v \<in> us_set ks k) vs)))) \<and>
     (\<forall>s k n. 0 < n \<longrightarrow> (\<exists>ks. ages (view s) ks \<and> (case ur_lpop rd s k n of
        (s', Reply vs) \<Rightarrow> us_list ks k \<noteq> [] \<and> vs = take (nat n) (us_list ks k) \<and> view s' = us_pop ks k n
      | (s', NilReply) \<Rightarrow> us_list ks k = [] \<and> view s' = ks
      | (s', RedisErr _) \<Rightarrow> view s' \<in> {ks, us_pop ks k n}))) \<and>
     (\<forall>s cs. \<exists>ks. ages (view s) ks \<and> (case ur_exec rd s cs of
        (s', None) \<Rightarrow> view s' = foldl us_cmd ks cs
      | (s', Some _) \<Rightarrow> (\<exists>n \<le> length cs. view s' = foldl us_cmd ks (take n cs))))"

subsection \<open>The abstract queue\<close>

record uq =
  q_pending :: "string list"
  q_uploading :: "string set"
  q_done :: "string set"
  q_bundled :: string

definition uq_of :: "uks \<Rightarrow> uq" where
  "uq_of ks = \<lparr>q_pending = us_list ks RdbPendingTxIds, q_uploading = us_set ks RdbUploadingTxIds,
     q_done = us_set ks RdbUploadedTxIds,
     q_bundled = (case us_str ks RdbCurrentBundledIn of Some (v, _) \<Rightarrow> v | None \<Rightarrow> [])\<rparr>"

lemma uq_of_fields [simp]:
  "q_pending (uq_of ks) = us_list ks RdbPendingTxIds" "q_uploading (uq_of ks) = us_set ks RdbUploadingTxIds"
  "q_done (uq_of ks) = us_set ks RdbUploadedTxIds"
  "q_bundled (uq_of ks) = (case us_str ks RdbCurrentBundledIn of Some (v, _) \<Rightarrow> v | None \<Rightarrow> [])"
  by (simp_all add: uq_of_def)

text \<open>What time alone may do.\<close>

definition q_ages :: "uq \<Rightarrow> uq \<Rightarrow> bool" where
  "q_ages q q' \<longleftrightarrow> q' = q \<or> q' = q\<lparr>q_bundled := []\<rparr>"

lemma q_ages_refl [simp]: "q_ages q q"
  by (simp add: q_ages_def)

lemma q_ages_trans: "q_ages q q' \<Longrightarrow> q_ages q' q'' \<Longrightarrow> q_ages q q''"
  by (auto simp: q_ages_def)

lemma q_ages_fields:
  "q_ages q q' \<Longrightarrow> q_pending q' = q_pending q \<and> q_uploading q' = q_uploading q \<and> q_done q' = q_done q \<and>
     q_bundled q' \<in> {q_bundled q, []}"
  by (auto simp: q_ages_def)

lemma q_ages_unbundled: "q_ages q q' \<Longrightarrow> q_bundled q = [] \<Longrightarrow> q' = q"
  by (cases q) (auto simp: q_ages_def)

lemma ages_uq: "ages ks ks' \<Longrightarrow> q_ages (uq_of ks) (uq_of ks')"
  by (auto simp: ages_def q_ages_def expire_def uq_of_def split: option.splits prod.splits bool.splits)

lemma upload_keys_distinct [simp]:
  "RdbPendingTxIds \<noteq> RdbUploadingTxIds" "RdbUploadingTxIds \<noteq> RdbPendingTxIds"
  "RdbPendingTxIds \<noteq> RdbUploadedTxIds" "RdbUploadedTxIds \<noteq> RdbPendingTxIds"
  "RdbUploadingTxIds \<noteq> RdbUploadedTxIds" "RdbUploadedTxIds \<noteq> RdbUploadingTxIds"
  "RdbCurrentBundledIn \<noteq> RdbPendingTxIds" "RdbPendingTxIds \<noteq> RdbCurrentBundledIn"
  "RdbCurrentBundledIn \<noteq> RdbUploadingTxIds" "RdbUploadingTxIds \<noteq> RdbCurrentBundledIn"
  "RdbCurrentBundledIn \<noteq> RdbUploadedTxIds" "RdbUploadedTxIds \<noteq> RdbCurrentBundledIn"
  by (simp_all add: upload_keys)

subsection \<open>What the operations do to the queue\<close>

text \<open>The calls, seen from the queue.\<close>

lemma uredis_reads:
  assumes "uredis_ok rd view"
  shows "ur_get rd s RdbCurrentBundledIn = (s', r) \<Longrightarrow>
      q_ages (uq_of (view s)) (uq_of (view s')) \<and>
      (\<forall>v. r = Reply v \<longrightarrow> v = q_bundled (uq_of (view s'))) \<and> (r = NilReply \<longrightarrow> q_bundled (uq_of (view s')) = [])"
    and "ur_llen rd s RdbPendingTxIds = (s', c) \<Longrightarrow>
      q_ages (uq_of (view s)) (uq_of (view s')) \<and> reply_of (Some (int (length (q_pending (uq_of (view s')))))) c"
    and "ur_scard rd s RdbUploadingTxIds = (s', c) \<Longrightarrow>
      q_ages (uq_of (view s)) (uq_of (view s')) \<and> reply_of (Some (int (card (q_uploading (uq_of (view s')))))) c"
    and "ur_smembers rd s RdbUploadingTxIds = (s', m) \<Longrightarrow>
      q_ages (uq_of (view s)) (uq_of (view s')) \<and> m \<noteq> NilReply \<and>
      (\<forall>vs. m = Reply vs \<longrightarrow> set vs = q_uploading (uq_of (view s')) \<and> distinct vs)"
    and "ur_sismember rd s RdbUploadedTxIds t = (s', b) \<Longrightarrow>
      q_ages (uq_of (view s)) (uq_of (view s')) \<and> reply_of (Some (t \<in> q_done (uq_of (view s')))) b"
    and "ur_sismembers rd s RdbUploadedTxIds ts = (s', bs) \<Longrightarrow>
      q_ages (uq_of (view s)) (uq_of (view s')) \<and> reply_of (Some (map (\<lambda>t. t \<in> q_done (uq_of (view s'))) ts)) bs"
    and "ur_get rd s k = (s', r) \<Longrightarrow> q_ages (uq_of (view s)) (uq_of (view s'))"
    and "finite (q_uploading (uq_of (view s)))"
proof -
  note ok = assms [unfolded uredis_ok_def uread_ok_def]
  show "ur_get rd s RdbCurrentBundledIn = (s', r) \<Longrightarrow>
      q_ages (uq_of (view s)) (uq_of (view s')) \<and>
      (\<forall>v. r = Reply v \<longrightarrow> v = q_bundled (uq_of (view s'))) \<and> (r = NilReply \<longrightarrow> q_bundled (uq_of (view s')) = [])"
    using ok [THEN conjunct2, THEN conjunct1, rule_format, of s RdbCurrentBundledIn]
    by (auto intro: ages_uq)
  show "ur_llen rd s RdbPendingTxIds = (s', c) \<Longrightarrow>
      q_ages (uq_of (view s)) (uq_of (view s')) \<and> reply_of (Some (int (length (q_pending (uq_of (view s')))))) c"
    using ok [THEN conjunct2, THEN conjunct2, THEN conjunct1, rule_format, of s RdbPendingTxIds]
    by (auto intro: ages_uq)
  show "ur_scard rd s RdbUploadingTxIds = (s', c) \<Longrightarrow>
      q_ages (uq_of (view s)) (uq_of (view s')) \<and> reply_of (Some (int (card (q_uploading (uq_of (view s')))))) c"
    using ok [THEN conjunct2, THEN conjunct2, THEN conjunct2, THEN conjunct1, rule_format, of s RdbUploadingTxIds]
    by (auto intro: ages_uq)
  show "ur_smembers rd s RdbUploadingTxIds = (s', m) \<Longrightarrow>
      q_ages (uq_of (view s)) (uq_of (view s')) \<and> m \<noteq> NilReply \<and>
      (\<forall>vs. m = Reply vs \<longrightarrow> set vs = q_uploading (uq_of (view s')) \<and> distinct vs)"
    using ok [THEN conjunct2, THEN conjunct2, THEN conjunct2, THEN conjunct2, THEN conjunct1, rule_format,
      of s RdbUploadingTxIds]
    by (auto intro: ages_uq)
  show "ur_sismember rd s RdbUploadedTxIds t = (s', b) \<Longrightarrow>
      q_ages (uq_of (view s)) (uq_of (view s')) \<and> reply_of (Some (t \<in> q_done (uq_of (view s')))) b"
    using ok [THEN conjunct2, THEN conjunct2, THEN conjunct2, THEN conjunct2, THEN conjunct2, THEN conjunct1,
      rule_format, of s RdbUploadedTxIds t]
    by (auto intro: ages_uq)
  show "ur_sismembers rd s RdbUploadedTxIds ts = (s', bs) \<Longrightarrow>
      q_ages (uq_of (view s)) (uq_of (view s')) \<and> reply_of (Some (map (\<lambda>t. t \<in> q_done (uq_of (view s'))) ts)) bs"
    using ok [THEN conjunct2, THEN conjunct2, THEN conjunct2, THEN conjunct2, THEN conjunct2, THEN conjunct2,
      THEN conjunct1, rule_format, of s RdbUploadedTxIds ts]
    by (auto intro: ages_uq)
  show "ur_get rd s k = (s', r) \<Longrightarrow> q_ages (uq_of (view s)) (uq_of (view s'))"
    using ok [THEN conjunct2, THEN conjunct1, rule_format, of s k] by (auto intro: ages_uq)
  show "finite (q_uploading (uq_of (view s)))"
    using ok by (simp add: uq_of_def)
qed

lemma uredis_lpop:
  assumes "uredis_ok rd view" "0 < n" "ur_lpop rd s RdbPendingTxIds n = (s', r)"
  defines "q \<equiv> uq_of (view s)" and "q' \<equiv> uq_of (view s')"
  shows "\<exists>xs. q_pending q = xs @ q_pending q' \<and> length xs \<le> nat n \<and> q_ages (q\<lparr>q_pending := q_pending q'\<rparr>) q' \<and>
      (case r of Reply vs \<Rightarrow> vs = xs \<and> xs = take (nat n) (q_pending q) \<and> xs \<noteq> []
       | NilReply \<Rightarrow> xs = [] \<and> q_pending q = [] | RedisErr _ \<Rightarrow> True)"
proof -
  from assms(1-3) obtain ks where ks: "ages (view s) ks" "case r of
        Reply vs \<Rightarrow> us_list ks RdbPendingTxIds \<noteq> [] \<and> vs = take (nat n) (us_list ks RdbPendingTxIds) \<and>
          view s' = us_pop ks RdbPendingTxIds n
      | NilReply \<Rightarrow> us_list ks RdbPendingTxIds = [] \<and> view s' = ks
      | RedisErr _ \<Rightarrow> view s' \<in> {ks, us_pop ks RdbPendingTxIds n}"
    using assms(1) [unfolded uredis_ok_def, THEN conjunct2, THEN conjunct2, THEN conjunct2, THEN conjunct2,
      THEN conjunct2, THEN conjunct2, THEN conjunct2, THEN conjunct1, rule_format, OF assms(2), of s RdbPendingTxIds]
    unfolding assms(3) prod.case by blast
  have a: "q_ages q (uq_of ks)" unfolding q_def using ks(1) by (rule ages_uq)
  define l where "l = q_pending q"
  have l: "us_list ks RdbPendingTxIds = l" using q_ages_fields [OF a] by (simp add: uq_of_def l_def)
  have pop: "uq_of (us_pop ks RdbPendingTxIds n) = (uq_of ks)\<lparr>q_pending := drop (nat n) l\<rparr>"
    by (simp add: uq_of_def us_pop_def l)
  have same: "uq_of ks = (uq_of ks)\<lparr>q_pending := l\<rparr>" by (simp add: uq_of_def l)
  have up: "q_ages (q\<lparr>q_pending := d\<rparr>) ((uq_of ks)\<lparr>q_pending := d\<rparr>)" for d
    using a by (auto simp: q_ages_def)
  consider (popped) "view s' = us_pop ks RdbPendingTxIds n" "r \<noteq> NilReply" | (kept) "view s' = ks" "\<forall>vs. r \<noteq> Reply vs"
    using ks(2) by (auto split: reply.splits)
  then show ?thesis
  proof cases
    case popped
    have q': "q' = (uq_of ks)\<lparr>q_pending := drop (nat n) l\<rparr>" by (simp add: q'_def popped(1) pop)
    then have "q_ages (q\<lparr>q_pending := q_pending q'\<rparr>) q'" using up by simp
    then show ?thesis
      using ks(2) popped(2) assms(2) q' l_def l by (intro exI [of _ "take (nat n) l"]) (auto split: reply.splits)
  next
    case kept
    then have q': "q' = (uq_of ks)\<lparr>q_pending := l\<rparr>" using same by (simp add: q'_def)
    then have "q_ages (q\<lparr>q_pending := q_pending q'\<rparr>) q'" using up by simp
    then show ?thesis
      using ks(2) kept q' l_def l by (intro exI [of _ "[]"]) (auto split: reply.splits)
  qed
qed

text \<open>A pipeline on the queue: some prefix of its commands, all of them when it succeeds.\<close>

fun uq_cmd :: "uq \<Rightarrow> ucmd \<Rightarrow> uq" where
  "uq_cmd q (USetEx k v) = (if k = RdbCurrentBundledIn then q\<lparr>q_bundled := v\<rparr> else q)"
| "uq_cmd q (USet k v) = (if k = RdbCurrentBundledIn then q\<lparr>q_bundled := v\<rparr> else q)"
| "uq_cmd q (URPush k v) = (if k = RdbPendingTxIds then q\<lparr>q_pending := q_pending q @ [v]\<rparr> else q)"
| "uq_cmd q (USAdd k vs) =
     (if k = RdbUploadingTxIds then q\<lparr>q_uploading := q_uploading q \<union> set vs\<rparr>
      else if k = RdbUploadedTxIds then q\<lparr>q_done := q_done q \<union> set vs\<rparr> else q)"
| "uq_cmd q (UDel k) =
     (if k = RdbUploadingTxIds then q\<lparr>q_uploading := {}\<rparr>
      else if k = RdbUploadedTxIds then q\<lparr>q_done := {}\<rparr>
      else if k = RdbPendingTxIds then q\<lparr>q_pending := []\<rparr>
      else if k = RdbCurrentBundledIn then q\<lparr>q_bundled := []\<rparr> else q)"

lemma uq_of_cmd: "uq_of (us_cmd ks c) = uq_cmd (uq_of ks) c"
  by (cases c) (auto simp: uq_of_def)

lemma uq_of_cmds: "uq_of (foldl us_cmd ks cs) = foldl uq_cmd (uq_of ks) cs"
  by (induction cs arbitrary: ks) (simp_all add: uq_of_cmd)

lemma uredis_exec:
  assumes "uredis_ok rd view" "ur_exec rd s cs = (s', r)"
  shows "\<exists>q n. q_ages (uq_of (view s)) q \<and> n \<le> length cs \<and> (r = None \<longrightarrow> n = length cs) \<and>
      uq_of (view s') = foldl uq_cmd q (take n cs)"
proof -
  from assms obtain ks where a: "ages (view s) ks" and ks: "case r of
        None \<Rightarrow> view s' = foldl us_cmd ks cs | Some _ \<Rightarrow> (\<exists>n \<le> length cs. view s' = foldl us_cmd ks (take n cs))"
    using assms(1) [unfolded uredis_ok_def, THEN conjunct2, THEN conjunct2, THEN conjunct2, THEN conjunct2,
      THEN conjunct2, THEN conjunct2, THEN conjunct2, THEN conjunct2, rule_format, of s cs]
    unfolding assms(2) prod.case by blast
  from ks obtain n where "n \<le> length cs" "r = None \<longrightarrow> n = length cs" "view s' = foldl us_cmd ks (take n cs)"
    by (cases r) auto
  with ages_uq [OF a] show ?thesis by (metis uq_of_cmds)
qed

lemma GetBundledIn_uq:
  assumes "uredis_ok rd view" "GetBundledIn rd s = (s', r)"
  shows "q_ages (uq_of (view s)) (uq_of (view s')) \<and> (\<forall>v. r = Inr v \<longrightarrow> v = q_bundled (uq_of (view s')))"
  using assms(2) uredis_reads(1) [OF assms(1)] unfolding GetBundledIn_def
  by (auto split: prod.splits reply.splits simp del: uq_of_fields)

lemma GetUploading_uq:
  assumes "uredis_ok rd view" "GetUploading rd s = (s', r)"
  shows "q_ages (uq_of (view s)) (uq_of (view s')) \<and>
    (\<forall>vs. r = Inr vs \<longrightarrow> set vs = q_uploading (uq_of (view s')) \<and> distinct vs)"
proof -
  obtain t m where "ur_smembers rd s RdbUploadingTxIds = (t, m)" by fastforce
  with assms(2) uredis_reads(4) [OF assms(1) this] show ?thesis
    unfolding GetUploading_def by (cases m) (auto simp del: uq_of_fields)
qed

lemma counts_uq:
  assumes "uredis_ok rd view"
  shows "uploadingCount rd s = (s', r) \<Longrightarrow> q_ages (uq_of (view s)) (uq_of (view s')) \<and>
      (\<forall>n. r = Inr n \<longrightarrow> n = int (card (q_uploading (uq_of (view s')))))"
    and "pendingCount rd s = (s', r) \<Longrightarrow> q_ages (uq_of (view s)) (uq_of (view s')) \<and>
      (\<forall>n. r = Inr n \<longrightarrow> n = int (length (q_pending (uq_of (view s')))))"
proof -
  obtain t m where m: "ur_scard rd s RdbUploadingTxIds = (t, m)" by fastforce
  show "uploadingCount rd s = (s', r) \<Longrightarrow> q_ages (uq_of (view s)) (uq_of (view s')) \<and>
      (\<forall>n. r = Inr n \<longrightarrow> n = int (card (q_uploading (uq_of (view s')))))"
    using uredis_reads(3) [OF assms m] m unfolding uploadingCount_def by (cases m) (auto simp del: uq_of_fields)
next
  obtain t m where m: "ur_llen rd s RdbPendingTxIds = (t, m)" by fastforce
  show "pendingCount rd s = (s', r) \<Longrightarrow> q_ages (uq_of (view s)) (uq_of (view s')) \<and>
      (\<forall>n. r = Inr n \<longrightarrow> n = int (length (q_pending (uq_of (view s')))))"
    using uredis_reads(2) [OF assms m] m unfolding pendingCount_def by (cases m) (auto simp del: uq_of_fields)
qed

text \<open>What \<open>MoveToUploading\<close> does: a prefix of the pending ids leaves the list; if it succeeds, they are
  now uploading; if it fails after the pop, they may be nowhere.\<close>

definition moved :: "uq \<Rightarrow> uq \<Rightarrow> string list \<Rightarrow> bool \<Rightarrow> bool" where
  "moved q q' xs ok \<longleftrightarrow>
     q_pending q = xs @ q_pending q' \<and> q_done q' = q_done q \<and> q_bundled q' \<in> {q_bundled q, []} \<and>
     (q_uploading q' = q_uploading q \<union> set xs \<or> (\<not> ok \<and> q_uploading q' = q_uploading q)) \<and>
     (xs = [] \<or> int (card (q_uploading q)) + int (length xs) \<le> MaxUploadingCount) \<and>
     (ok \<longrightarrow> xs \<noteq> [] \<and> q_bundled q' = [] \<and>
        length xs = nat (min (int (length (q_pending q))) (MaxUploadingCount - int (card (q_uploading q)))))"

lemma moved_ages: "q_ages q q' \<Longrightarrow> moved q q' [] False"
  using q_ages_fields [of q q'] by (auto simp: moved_def)

lemma MoveToUploading_uq:
  assumes ok: "uredis_ok rd view" and mv: "MoveToUploading rd s = (s', r)"
  shows "\<exists>xs. moved (uq_of (view s)) (uq_of (view s')) xs (\<not> is_err r) \<and> (\<forall>n. r = Inr n \<longrightarrow> n = int (length xs))"
proof -
  let ?q = "\<lambda>s. uq_of (view s)"
  have stop: ?thesis if "q_ages (?q s) (?q s')" "is_err r"
    using moved_ages [OF that(1)] that(2) by (intro exI [of _ "[]"]) (auto simp: is_err_iff simp del: uq_of_fields)
  obtain s1 r1 where 1: "GetBundledIn rd s = (s1, r1)" by fastforce
  note a1 = GetBundledIn_uq [OF ok 1]
  show ?thesis
  proof (cases "r1 = Inr []")
    case False
    then have "s' = s1" "is_err r" using mv 1 by (auto simp: MoveToUploading_def split: sum.splits if_splits)
    with a1 stop show ?thesis by simp
  next
    case cur: True
    with a1 have b1: "q_bundled (?q s1) = []" by simp
    obtain s2 r2 where 2: "uploadingCount rd s1 = (s2, r2)" by fastforce
    note a2 = counts_uq(1) [OF ok 2]
    have q2: "?q s2 = ?q s1" using q_ages_unbundled [OF conjunct1 [OF a2] b1] .
    have g2: "q_ages (?q s) (?q s2)" using a1 q2 by simp
    show ?thesis
    proof (cases "\<exists>c. r2 = Inr c \<and> 0 < MaxUploadingCount - c")
      case False
      then have "s' = s2" "is_err r" using mv 1 2 cur
        by (auto simp: MoveToUploading_def Let_def split: sum.splits if_splits)
      with g2 stop show ?thesis by simp
    next
      case True
      then obtain c where c: "r2 = Inr c" "0 < MaxUploadingCount - c" by blast
      obtain s3 r3 where 3: "pendingCount rd s2 = (s3, r3)" by fastforce
      note a3 = counts_uq(2) [OF ok 3]
      have q3: "?q s3 = ?q s1" using q_ages_unbundled [OF conjunct1 [OF a3]] b1 q2 by simp
      have g3: "q_ages (?q s) (?q s3)" using a1 q3 by simp
      show ?thesis
      proof (cases "\<exists>p. r3 = Inr p \<and> p \<noteq> 0")
        case False
        then have "s' = s3" "is_err r" using mv 1 2 3 cur c
          by (auto simp: MoveToUploading_def Let_def split: sum.splits if_splits)
        with g3 stop show ?thesis by simp
      next
        case True
        then obtain p where p: "r3 = Inr p" "p \<noteq> 0" by blast
        define n where "n = (if p < MaxUploadingCount - c then p else MaxUploadingCount - c)"
        have cnt: "c = int (card (q_uploading (?q s)))" "p = int (length (q_pending (?q s)))"
          using a2 a3 c p q2 q3 q_ages_fields [OF conjunct1 [OF a1]] by (simp_all del: uq_of_fields)
        have n: "0 < n" "n = min (int (length (q_pending (?q s)))) (MaxUploadingCount - int (card (q_uploading (?q s))))"
          using c(2) p(2) cnt by (auto simp: n_def)
        obtain s4 r4 where 4: "ur_lpop rd s3 RdbPendingTxIds n = (s4, r4)" by fastforce
        from uredis_lpop [OF ok n(1) 4] obtain xs where xs:
            "q_pending (?q s3) = xs @ q_pending (?q s4)" "length xs \<le> nat n"
            "q_ages ((?q s3)\<lparr>q_pending := q_pending (?q s4)\<rparr>) (?q s4)"
            "case r4 of Reply vs \<Rightarrow> vs = xs \<and> xs = take (nat n) (q_pending (?q s3)) \<and> xs \<noteq> []
             | NilReply \<Rightarrow> xs = [] \<and> q_pending (?q s3) = [] | RedisErr _ \<Rightarrow> True" by blast
        have q4: "?q s4 = (?q s3)\<lparr>q_pending := q_pending (?q s4)\<rparr>"
          using q_ages_unbundled [OF xs(3)] b1 q3 by (simp del: uq_of_fields)
        have fs: "q_pending (?q s3) = q_pending (?q s)" "q_uploading (?q s3) = q_uploading (?q s)"
          "q_done (?q s3) = q_done (?q s)" "q_bundled (?q s3) = []"
          using q_ages_fields [OF g3] b1 q3 by (simp_all del: uq_of_fields)
        have room: "xs = [] \<or> int (card (q_uploading (?q s))) + int (length xs) \<le> MaxUploadingCount"
          using xs(2) n by linarith
        have lost: "moved (?q s) (?q s4) xs False"
        proof -
          have "q_uploading (?q s4) = q_uploading (?q s3)" "q_done (?q s4) = q_done (?q s3)"
            "q_bundled (?q s4) = q_bundled (?q s3)"
            by (subst q4, simp del: uq_of_fields)+
          with xs(1) fs room show ?thesis unfolding moved_def by (simp del: uq_of_fields)
        qed
        show ?thesis
        proof (cases "r4 = Reply xs \<and> xs \<noteq> []")
          case False
          then have "s' = s4" "is_err r" using mv 1 2 3 4 cur c p xs(4) n_def
            by (auto simp: MoveToUploading_def Let_def split: sum.splits if_splits reply.splits)
          with lost show ?thesis by (intro exI [of _ xs]) (auto simp: is_err_iff simp del: uq_of_fields)
        next
          case got: True
          obtain s5 r5 where 5: "ur_exec rd s4 [USAdd RdbUploadingTxIds xs] = (s5, r5)" by fastforce
          from uredis_exec [OF ok 5] obtain q m where q: "q_ages (?q s4) q" "m \<le> 1" "r5 = None \<longrightarrow> m = 1"
              "?q s5 = foldl uq_cmd q (take m [USAdd RdbUploadingTxIds xs])" by auto
          have "q = ?q s4" using q_ages_unbundled [OF q(1)] q4 fs(4) by (metis uq.select_convs(4) uq.surjective uq.update_convs(1))
          then have q5: "?q s5 = (if m = 1 then (?q s4)\<lparr>q_uploading := q_uploading (?q s4) \<union> set xs\<rparr> else ?q s4)"
            using q(2,4) by (cases m) (auto simp del: uq_of_fields)
          have "s' = s5" "is_err r \<longleftrightarrow> r5 \<noteq> None" "\<forall>v. r = Inr v \<longrightarrow> v = int (length xs)"
            using mv 1 2 3 4 5 cur c p got n_def
            by (auto simp: MoveToUploading_def Let_def split: sum.splits if_splits reply.splits option.splits)
          moreover have "moved (?q s) (?q s5) xs (r5 = None)"
          proof (cases "m = 1")
            case True
            have "length xs = nat n" using got xs(4) fs(1) n by simp
            then have "length xs = nat (min (int (length (q_pending (?q s)))) (MaxUploadingCount - int (card (q_uploading (?q s)))))"
              using n by simp
            moreover have "q_bundled (?q s4) = []" by (subst q4, simp add: fs(4) del: uq_of_fields)
            ultimately show ?thesis
              using lost got unfolding moved_def q5 by (simp add: True del: uq_of_fields) blast
          next
            case False
            with q(3) lost q5 show ?thesis by (auto simp del: uq_of_fields)
          qed
          ultimately show ?thesis by (intro exI [of _ xs]) (auto simp del: uq_of_fields)
        qed
      qed
    qed
  qed
qed

text \<open>\<open>EndUpload\<close>: what is uploading becomes uploaded.\<close>

definition ended :: "uq \<Rightarrow> uq" where
  "ended q = q\<lparr>q_uploading := {}, q_done := q_done q \<union> q_uploading q, q_bundled := []\<rparr>"

lemma end_cmds_uq:
  assumes "set xs = q_uploading q"
  shows "foldl uq_cmd q (end_cmds xs) = ended q"
    and "foldl uq_cmd q (take n (end_cmds xs)) \<in>
      {q, q\<lparr>q_done := q_done q \<union> q_uploading q\<rparr>, ended q,
       q\<lparr>q_uploading := {}, q_done := q_done q \<union> q_uploading q\<rparr>}"
  using assms
  by (auto simp: end_cmds_def ended_def take_Cons' split: if_splits)

lemma EndUpload_uq:
  assumes ok: "uredis_ok rd view" and e: "EndUpload rd s = (s', r)"
  shows "case r of
      None \<Rightarrow> q_bundled (uq_of (view s)) \<noteq> [] \<and> uq_of (view s') = ended (uq_of (view s))
    | Some _ \<Rightarrow> (\<exists>q. q_ages (uq_of (view s)) q \<and> uq_of (view s') \<in>
        {q, q\<lparr>q_done := q_done q \<union> q_uploading q\<rparr>, ended q,
         q\<lparr>q_uploading := {}, q_done := q_done q \<union> q_uploading q\<rparr>} \<and>
        (q_done (uq_of (view s')) \<noteq> q_done q \<longrightarrow> q_bundled (uq_of (view s)) \<noteq> []))"
proof -
  let ?q = "\<lambda>s. uq_of (view s)"
  obtain s1 r1 where 1: "GetBundledIn rd s = (s1, r1)" by fastforce
  note a1 = GetBundledIn_uq [OF ok 1]
  have stop: ?thesis if "q_ages (?q s) (?q s')" "r \<noteq> None"
    using that by (cases r) auto
  show ?thesis
  proof (cases "\<exists>c. r1 = Inr c \<and> c \<noteq> []")
    case False
    then have "s' = s1" "r \<noteq> None" using e 1 by (auto simp: EndUpload_def split: sum.splits if_splits)
    with a1 stop show ?thesis by simp
  next
    case True
    then obtain c where c: "r1 = Inr c" "c \<noteq> []" by blast
    with a1 have b: "?q s1 = ?q s" "q_bundled (?q s) \<noteq> []" by (auto simp: q_ages_def simp del: uq_of_fields)
    obtain s2 r2 where 2: "GetUploading rd s1 = (s2, r2)" by fastforce
    note a2 = GetUploading_uq [OF ok 2]
    show ?thesis
    proof (cases r2)
      case (Inl _)
      then have "s' = s2" "r \<noteq> None" using e 1 2 c by (auto simp: EndUpload_def)
      with a2 b stop show ?thesis by simp
    next
      case (Inr xs)
      obtain s3 r3 where 3: "ur_exec rd s2 (end_cmds xs) = (s3, r3)" by fastforce
      from uredis_exec [OF ok 3] obtain q n where q: "q_ages (?q s2) q" "r3 = None \<longrightarrow> n = length (end_cmds xs)"
          "?q s3 = foldl uq_cmd q (take n (end_cmds xs))" by blast
      have qs: "q_ages (?q s) q" using a2 q(1) b(1) q_ages_trans by metis
      have xs: "set xs = q_uploading q"
        using a2 Inr q_ages_fields [OF q(1)] by (simp del: uq_of_fields)
      have s': "s' = s3" "r = None \<longleftrightarrow> r3 = None"
        using e 1 2 3 c Inr by (auto simp: EndUpload_def split: option.splits)
      show ?thesis
      proof (cases r)
        case None
        then have "?q s' = ended q" using s' q(2,3) end_cmds_uq(1) [OF xs] by (simp del: uq_of_fields)
        also have "\<dots> = ended (?q s)" using qs by (auto simp: ended_def q_ages_def simp del: uq_of_fields)
        finally show ?thesis using None b(2) by (simp del: uq_of_fields)
      next
        case (Some e)
        have "?q s' \<in> {q, q\<lparr>q_done := q_done q \<union> q_uploading q\<rparr>, ended q,
            q\<lparr>q_uploading := {}, q_done := q_done q \<union> q_uploading q\<rparr>}"
          using s'(1) q(3) end_cmds_uq(2) [OF xs, of n] by (simp del: uq_of_fields)
        with Some qs b(2) show ?thesis by (auto simp del: uq_of_fields)
      qed
    qed
  qed
qed

lemma SetBundledIn_uq:
  assumes "uredis_ok rd view" "SetBundledIn rd s i = (s', r)"
  shows "\<exists>q. q_ages (uq_of (view s)) q \<and> uq_of (view s') \<in> {q, q\<lparr>q_bundled := i\<rparr>} \<and>
      (r = None \<longrightarrow> uq_of (view s') = (uq_of (view s))\<lparr>q_bundled := i\<rparr>)"
proof -
  from uredis_exec [OF assms(1) assms(2) [unfolded SetBundledIn_def]] obtain q n where q:
      "q_ages (uq_of (view s)) q" "n \<le> 1" "r = None \<longrightarrow> n = 1"
      "uq_of (view s') = foldl uq_cmd q (take n [USetEx RdbCurrentBundledIn i])" by auto
  have "uq_of (view s') = (if n = 1 then q\<lparr>q_bundled := i\<rparr> else q)" using q(2,4) by (cases n) auto
  moreover have "q\<lparr>q_bundled := i\<rparr> = (uq_of (view s))\<lparr>q_bundled := i\<rparr>"
    using q(1) by (auto simp: q_ages_def)
  ultimately show ?thesis using q(1,3) by (intro exI [of _ q]) auto
qed

lemma AddPending_uq:
  assumes "uredis_ok rd view" "AddPending rd s t = (s', r)"
  shows "\<exists>q. q_ages (uq_of (view s)) q \<and> uq_of (view s') \<in> {q, q\<lparr>q_pending := q_pending q @ [t]\<rparr>} \<and>
      (r = None \<longrightarrow> uq_of (view s') = q\<lparr>q_pending := q_pending q @ [t]\<rparr>)"
proof -
  from uredis_exec [OF assms(1) assms(2) [unfolded AddPending_def]] obtain q n where q:
      "q_ages (uq_of (view s)) q" "n \<le> 1" "r = None \<longrightarrow> n = 1"
      "uq_of (view s') = foldl uq_cmd q (take n [URPush RdbPendingTxIds t])" by auto
  have "uq_of (view s') = (if n = 1 then q\<lparr>q_pending := q_pending q @ [t]\<rparr> else q)" using q(2,4) by (cases n) auto
  with q(1,3) show ?thesis by (intro exI [of _ q]) auto
qed

lemma IsUploaded_uq:
  assumes "uredis_ok rd view" "IsUploaded rd s t = (s', r)"
  shows "q_ages (uq_of (view s)) (uq_of (view s')) \<and> (\<forall>b. r = Inr b \<longrightarrow> b = (t \<in> q_done (uq_of (view s'))))"
proof -
  obtain u m where m: "ur_sismember rd s RdbUploadedTxIds t = (u, m)" by fastforce
  with assms(2) uredis_reads(5) [OF assms(1) m] show ?thesis
    unfolding IsUploaded_def by (cases m) (auto simp del: uq_of_fields)
qed

lemma mget_foldl_zip:
  "length bs = length ts \<Longrightarrow> (\<forall>t b. (t, b) \<in> set (zip ts bs) \<longrightarrow> b = f t) \<Longrightarrow>
   mget (foldl (\<lambda>m (t, b). mput t b m) m0 (zip ts bs)) t = (if t \<in> set ts then Some (f t) else mget m0 t)"
proof (induction ts bs arbitrary: m0 rule: list_induct2')
  case (4 x xs y ys)
  then have "mget (foldl (\<lambda>m (t, b). mput t b m) (mput x y m0) (zip xs ys)) t =
      (if t \<in> set xs then Some (f t) else mget (mput x y m0) t)" by (intro "4.IH") auto
  with 4 show ?case by auto
qed auto

lemma IsUploadedBatch_uq:
  assumes "uredis_ok rd view" "IsUploadedBatch rd s ts = (s', r)"
  shows "q_ages (uq_of (view s)) (uq_of (view s')) \<and>
      (\<forall>m t. r = Inr m \<longrightarrow> t \<in> set ts \<longrightarrow> mget m t = Some (t \<in> q_done (uq_of (view s'))))"
proof (cases "ts = []")
  case True
  with assms(2) show ?thesis by (auto simp: IsUploadedBatch_def)
next
  case False
  obtain u m where m: "ur_sismembers rd s RdbUploadedTxIds ts = (u, m)" by fastforce
  note a = uredis_reads(6) [OF assms(1) m]
  show ?thesis
  proof (cases m)
    case (Reply bs)
    with a have bs: "bs = map (\<lambda>t. t \<in> q_done (uq_of (view u))) ts" by simp
    have z: "b = (t \<in> q_done (uq_of (view u)))" if "(t, b) \<in> set (zip ts bs)" for t b
      using that unfolding bs by (auto simp: zip_map2 zip_same_conv_map simp del: uq_of_fields)
    from assms(2) m Reply False a show ?thesis
      using mget_foldl_zip [of bs ts "\<lambda>t. t \<in> q_done (uq_of (view u))" "[]"] z
      unfolding IsUploadedBatch_def by (auto simp: bs simp del: uq_of_fields)
  qed (use assms(2) m False a in \<open>auto simp: IsUploadedBatch_def simp del: uq_of_fields\<close>)
qed

declare uq_of_fields [simp del]

end
