(* ===== verification/Upload.thy ===== *)
theory Upload
  imports UploadDb Assignment
begin

text \<open>
  The upload of a node's log to the chain (chainkit/upload.go, chainkit.go, backup.go): ids are queued
  as they are assigned, and a job moves them through the queue of \<open>UploadDb\<close>: the current bundle is
  confirmed or not, then the next ids are put into a bundle. The node's database is read, the
  operator of the chain and the binary form of an item are parameters.
\<close>

subsection \<open>State and parameters\<close>

record ('u, 'r, 'o) ck_cfg =
  kc_up :: "'u uredis"
  kc_redis :: "'r redis"
  kc_codec :: db_codec
  kc_binary :: "bundle_item \<Rightarrow> string option"
  kc_op_upload :: "'o \<Rightarrow> (bundle_item \<times> string) list \<Rightarrow> 'o \<times> (string + string)"
  kc_op_check :: "'o \<Rightarrow> string \<Rightarrow> 'o \<times> (string + bool)"
  kc_op_download :: "'o \<Rightarrow> string \<Rightarrow> 'o \<times> (string + bundle_item)"
  kc_graphql :: "'o \<Rightarrow> string \<Rightarrow> 'o \<times> (string + string)"

record ('u, 'r, 'o) ck_state =
  ck_up :: 'u
  ck_node :: 'r
  ck_op :: 'o

subsection \<open>Queueing (chainkit.go, backup.go)\<close>

definition ck_Upload :: "('u, 'r, 'o) ck_cfg \<Rightarrow> ('u, 'r, 'o) ck_state \<Rightarrow> bundle_item \<Rightarrow> ('u, 'r, 'o) ck_state \<times> string option"
where
  "ck_Upload cf st tx =
     (if item_Id tx = [] then (st, Some ''invalid bundle item: empty id'')
      else case IsUploaded (kc_up cf) (ck_up st) (item_Id tx) of
        (u, Inl e) \<Rightarrow> (st\<lparr>ck_up := u\<rparr>, Some e)
      | (u, Inr True) \<Rightarrow> (st\<lparr>ck_up := u\<rparr>, None)
      | (u, Inr False) \<Rightarrow> (case AddPending (kc_up cf) u (item_Id tx) of (u', e) \<Rightarrow> (st\<lparr>ck_up := u'\<rparr>, e)))"

text \<open>The callback of the node after an assignment; the error is dropped.\<close>

definition AssignmentHandler ::
  "('u, 'r, 'o) ck_cfg \<Rightarrow> ('u, 'r, 'o) ck_state \<Rightarrow> bundle_item \<Rightarrow> ('u, 'r, 'o) ck_state" where
  "AssignmentHandler cf st item = fst (ck_Upload cf st item)"

fun backup_nonces ::
  "('u, 'r, 'o) ck_cfg \<Rightarrow> string \<Rightarrow> ('u, 'r, 'o) ck_state \<Rightarrow> int64 list \<Rightarrow> ('u, 'r, 'o) ck_state \<times> string option" where
  "backup_nonces cf pid st [] = (st, None)"
| "backup_nonces cf pid st (n # ns) =
     (case GetMessageByNonce (kc_redis cf) (kc_codec cf) (ck_node st) pid n of
        (r, Inl e) \<Rightarrow> backup_nonces cf pid (st\<lparr>ck_node := r\<rparr>) ns
      | (r, Inr None) \<Rightarrow> backup_nonces cf pid (st\<lparr>ck_node := r\<rparr>) ns
      | (r, Inr (Some m)) \<Rightarrow>
          (case ck_Upload cf (st\<lparr>ck_node := r\<rparr>) m of
             (st', Some e) \<Rightarrow> (st', Some e)
           | (st', None) \<Rightarrow> backup_nonces cf pid st' ns))"

text \<open>All nonces from 0 to the last one.\<close>

definition backupProcess ::
  "('u, 'r, 'o) ck_cfg \<Rightarrow> ('u, 'r, 'o) ck_state \<Rightarrow> string \<Rightarrow> int64 \<Rightarrow> ('u, 'r, 'o) ck_state \<times> string option" where
  "backupProcess cf st pid maxNonce = backup_nonces cf pid st (map of_nat [0..<nat (sint maxNonce + 1)])"

subsection \<open>Bundling (upload.go)\<close>

definition getAssignByMessage ::
  "('u, 'r, 'o) ck_cfg \<Rightarrow> 'r \<Rightarrow> string \<Rightarrow> 'r \<times> (sys_err + bundle_item option)" where
  "getAssignByMessage cf r msgid =
     (case GetResult (kc_redis cf) (kc_codec cf) r msgid of
        (r1, Inl e) \<Rightarrow> (r1, Inl e)
      | (r1, Inr None) \<Rightarrow> (r1, Inr None)
      | (r1, Inr (Some res)) \<Rightarrow>
          (case ParseInt (vr_Nonce res) of
             None \<Rightarrow> (r1, Inl (OtherErr ''strconv''))
           | Some nonce \<Rightarrow> GetAssignByNonce (kc_redis cf) (kc_codec cf) r1 (vr_FromProcess res) nonce))"

definition found :: "sys_err + bundle_item option \<Rightarrow> bundle_item list" where
  "found q = (case q of Inr (Some i) \<Rightarrow> [i] | _ \<Rightarrow> [])"

fun getBundleItems :: "('u, 'r, 'o) ck_cfg \<Rightarrow> 'r \<Rightarrow> string list \<Rightarrow> 'r \<times> bundle_item list" where
  "getBundleItems cf r [] = (r, [])"
| "getBundleItems cf r (txid # txids) =
     (case GetMessage (kc_redis cf) (kc_codec cf) r txid of (r1, m) \<Rightarrow>
      case getAssignByMessage cf r1 txid of (r2, a) \<Rightarrow>
      case getBundleItems cf r2 txids of (r3, items) \<Rightarrow> (r3, found m @ found a @ items))"

definition filterUnuploadedTxids :: "('u, 'r, 'o) ck_cfg \<Rightarrow> 'u \<Rightarrow> string list \<Rightarrow> 'u \<times> string list" where
  "filterUnuploadedTxids cf u txids =
     (case IsUploadedBatch (kc_up cf) u txids of
        (u', Inl _) \<Rightarrow> (u', txids)
      | (u', Inr m) \<Rightarrow> (u', filter (\<lambda>t. \<not> mget_or False m t) txids))"

definition with_binary :: "('u, 'r, 'o) ck_cfg \<Rightarrow> bundle_item list \<Rightarrow> (bundle_item \<times> string) list" where
  "with_binary cf items =
     concat (map (\<lambda>i. case kc_binary cf i of None \<Rightarrow> [] | Some b \<Rightarrow> [(i, b)]) items)"

text \<open>The caller uses the values only when there is no error.\<close>

definition uploadToChain ::
  "('u, 'r, 'o) ck_cfg \<Rightarrow> ('u, 'r, 'o) ck_state \<Rightarrow> string list \<Rightarrow>
     ('u, 'r, 'o) ck_state \<times> (string + string \<times> string list)" where
  "uploadToChain cf st txids =
     (case filterUnuploadedTxids cf (ck_up st) txids of (u, filtered) \<Rightarrow>
      let st1 = st\<lparr>ck_up := u\<rparr> in
      if filtered = [] then (st1, Inr ([], []))
      else case getBundleItems cf (ck_node st1) filtered of (r, items) \<Rightarrow>
      let st2 = st1\<lparr>ck_node := r\<rparr> in
      if items = [] then (st2, Inl ''no valid bundle items found'')
      else let binaryItems = with_binary cf items in
      case kc_op_upload cf (ck_op st2) binaryItems of
        (opst, Inl e) \<Rightarrow> (st2\<lparr>ck_op := opst\<rparr>, Inl e)
      | (opst, Inr b) \<Rightarrow> (st2\<lparr>ck_op := opst\<rparr>, Inr (b, map (item_Id \<circ> fst) binaryItems)))"

definition tryUpload :: "('u, 'r, 'o) ck_cfg \<Rightarrow> ('u, 'r, 'o) ck_state \<Rightarrow> ('u, 'r, 'o) ck_state \<times> string option" where
  "tryUpload cf st =
     (case GetBundledIn (kc_up cf) (ck_up st) of
        (u1, Inl e) \<Rightarrow> (st\<lparr>ck_up := u1\<rparr>, Some e)
      | (u1, Inr cur) \<Rightarrow>
     if cur \<noteq> [] then (st\<lparr>ck_up := u1\<rparr>, None)
     else
     let u2 = fst (MoveToUploading (kc_up cf) u1) in
     (case GetUploading (kc_up cf) u2 of
        (u3, Inl e) \<Rightarrow> (st\<lparr>ck_up := u3\<rparr>, Some e)
      | (u3, Inr uploading) \<Rightarrow>
     if uploading = [] then (st\<lparr>ck_up := u3\<rparr>, None)
     else (case uploadToChain cf (st\<lparr>ck_up := u3\<rparr>) uploading of
        (st', Inl e) \<Rightarrow> (st', Some e)
      | (st', Inr (bundledInId, uploaded)) \<Rightarrow>
     if uploaded = [] then (st', None)
     else (case SetBundledIn (kc_up cf) (ck_up st') bundledInId of (u5, e) \<Rightarrow> (st'\<lparr>ck_up := u5\<rparr>, e)))))"

definition check :: "('u, 'r, 'o) ck_cfg \<Rightarrow> ('u, 'r, 'o) ck_state \<Rightarrow> ('u, 'r, 'o) ck_state" where
  "check cf st =
     (case GetBundledIn (kc_up cf) (ck_up st) of
        (u1, Inl e) \<Rightarrow> st\<lparr>ck_up := u1\<rparr>
      | (u1, Inr cur) \<Rightarrow>
     let st1 = st\<lparr>ck_up := u1\<rparr> in
     if cur = [] then fst (tryUpload cf st1)
     else (case kc_op_check cf (ck_op st1) cur of
        (opst, Inl e) \<Rightarrow> st1\<lparr>ck_op := opst\<rparr>
      | (opst, Inr False) \<Rightarrow> st1\<lparr>ck_op := opst\<rparr>
      | (opst, Inr True) \<Rightarrow>
          (case EndUpload (kc_up cf) u1 of
             (u2, Some e) \<Rightarrow> st1\<lparr>ck_op := opst, ck_up := u2\<rparr>
           | (u2, None) \<Rightarrow> fst (tryUpload cf (st1\<lparr>ck_op := opst, ck_up := u2\<rparr>)))))"

subsection \<open>Whatever Redis does\<close>

abbreviation ck_q :: "('u \<Rightarrow> uks) \<Rightarrow> ('u, 'r, 'o) ck_state \<Rightarrow> uq" where
  "ck_q view st \<equiv> uq_of (view (ck_up st))"

text \<open>\<open>xs\<close> left the pending list; they are uploading, or lost.\<close>

definition shifted :: "uq \<Rightarrow> uq \<Rightarrow> string list \<Rightarrow> bool" where
  "shifted q q' xs \<longleftrightarrow>
     q_pending q = xs @ q_pending q' \<and> q_done q' = q_done q \<and>
     q_uploading q' \<in> {q_uploading q, q_uploading q \<union> set xs} \<and>
     (xs = [] \<or> int (card (q_uploading q)) + int (length xs) \<le> MaxUploadingCount)"

lemma shifted_ages: "q_ages q q' \<Longrightarrow> shifted q q' []"
  using q_ages_fields [of q q'] by (simp add: shifted_def)

lemma shifted_cong:
  "shifted q q' xs \<Longrightarrow> q_pending p = q_pending q \<Longrightarrow> q_uploading p = q_uploading q \<Longrightarrow> q_done p = q_done q \<Longrightarrow>
   q_pending p' = q_pending q' \<Longrightarrow> q_uploading p' = q_uploading q' \<Longrightarrow> q_done p' = q_done q' \<Longrightarrow> shifted p p' xs"
  by (simp add: shifted_def)

lemma shifted_between:
  assumes "q_ages q p" "shifted p p' xs" "q_ages p' q'"
  shows "shifted q q' xs"
  using assms(2) by (rule shifted_cong) (use q_ages_fields [OF assms(1)] q_ages_fields [OF assms(3)] in auto)

lemma filterUnuploadedTxids_uq:
  assumes "uredis_ok (kc_up cf) view" "filterUnuploadedTxids cf u ts = (u', fs)"
  shows "q_ages (uq_of (view u)) (uq_of (view u'))"
proof -
  obtain v r where r: "IsUploadedBatch (kc_up cf) u ts = (v, r)" by fastforce
  with assms(2) IsUploadedBatch_uq [OF assms(1) r] show ?thesis
    by (cases r) (auto simp: filterUnuploadedTxids_def)
qed

lemma uploadToChain_uq:
  assumes "uredis_ok (kc_up cf) view" "uploadToChain cf st ts = (st', r)"
  shows "q_ages (ck_q view st) (ck_q view st')"
proof -
  obtain u fs where f: "filterUnuploadedTxids cf (ck_up st) ts = (u, fs)" by fastforce
  have "ck_up st' = u"
    using assms(2) f by (auto simp: uploadToChain_def Let_def split: prod.splits if_splits sum.splits)
  with filterUnuploadedTxids_uq [OF assms(1) f] show ?thesis by simp
qed

lemma tryUpload_uq:
  assumes ok: "uredis_ok (kc_up cf) view" and t: "tryUpload cf st = (st', e)"
  shows "\<exists>xs. shifted (ck_q view st) (ck_q view st') xs"
proof -
  obtain u1 r1 where 1: "GetBundledIn (kc_up cf) (ck_up st) = (u1, r1)" by fastforce
  note a1 = conjunct1 [OF GetBundledIn_uq [OF ok 1]]
  show ?thesis
  proof (cases "r1 = Inr []")
    case False
    then have "ck_up st' = u1" using t 1 by (auto simp: tryUpload_def split: sum.splits if_splits)
    with a1 shifted_ages show ?thesis by auto
  next
    case cur: True
    obtain u2 m where 2: "MoveToUploading (kc_up cf) u1 = (u2, m)" by fastforce
    from MoveToUploading_uq [OF ok 2] obtain xs where xs: "moved (uq_of (view u1)) (uq_of (view u2)) xs (\<not> is_err m)"
      by blast
    then have sh: "shifted (uq_of (view u1)) (uq_of (view u2)) xs" by (auto simp: moved_def shifted_def)
    obtain u3 g where 3: "GetUploading (kc_up cf) u2 = (u3, g)" by fastforce
    note a3 = conjunct1 [OF GetUploading_uq [OF ok 3]]
    have s3: "shifted (ck_q view st) (uq_of (view u3)) xs" using shifted_between [OF a1 sh a3] .
    show ?thesis
    proof (cases "\<exists>ts. g = Inr ts \<and> ts \<noteq> []")
      case False
      then have "ck_up st' = u3" using t 1 2 3 cur by (auto simp: tryUpload_def split: sum.splits if_splits)
      with s3 show ?thesis by auto
    next
      case True
      then obtain ts where ts: "g = Inr ts" "ts \<noteq> []" by blast
      obtain st4 r4 where 4: "uploadToChain cf (st\<lparr>ck_up := u3\<rparr>) ts = (st4, r4)" by fastforce
      have s4: "shifted (ck_q view st) (ck_q view st4) xs"
        using shifted_between [OF q_ages_refl s3] uploadToChain_uq [OF ok 4] by simp
      show ?thesis
      proof (cases "\<exists>b up. r4 = Inr (b, up) \<and> up \<noteq> []")
        case False
        then have "st' = st4" using t 1 2 3 4 cur ts
          by (auto simp: tryUpload_def split: sum.splits if_splits prod.splits)
        with s4 show ?thesis by auto
      next
        case True
        then obtain b up where up: "r4 = Inr (b, up)" "up \<noteq> []" by blast
        obtain u5 r5 where 5: "SetBundledIn (kc_up cf) (ck_up st4) b = (u5, r5)" by fastforce
        from SetBundledIn_uq [OF ok 5] obtain q where q: "q_ages (ck_q view st4) q"
            "uq_of (view u5) \<in> {q, q\<lparr>q_bundled := b\<rparr>}" by blast
        have "ck_up st' = u5" using t 1 2 3 4 5 cur ts up by (auto simp: tryUpload_def)
        with s4 q q_ages_fields [OF q(1)] show ?thesis
          by (intro exI [of _ xs] shifted_cong [OF s4]) auto
      qed
    qed
  qed
qed

text \<open>What a check may do to the queue: it moves pending ids to uploading, and it declares the uploading
  ids uploaded only when the operator has confirmed the current bundle.\<close>

lemma check_uq:
  fixes cf :: "('u, 'r, 'o) ck_cfg" and st :: "('u, 'r, 'o) ck_state"
  assumes ok: "uredis_ok (kc_up cf) view"
  defines "q \<equiv> ck_q view st" and "q' \<equiv> ck_q view (check cf st)"
  shows "(\<exists>xs. shifted q q' xs) \<or>
    (\<exists>opst. kc_op_check cf (ck_op st) (q_bundled q) = (opst, Inr True)) \<and> q_bundled q \<noteq> [] \<and>
    (\<exists>p xs. shifted p q' xs \<and> q_pending p = q_pending q \<and> q_uploading p \<in> {q_uploading q, {}} \<and>
       q_done p = q_done q \<union> q_uploading q)"
proof -
  obtain u1 r1 where 1: "GetBundledIn (kc_up cf) (ck_up st) = (u1, r1)" by fastforce
  note a1 = GetBundledIn_uq [OF ok 1]
  have stop: ?thesis if "ck_q view (check cf st) = uq_of (view u1)"
    using that a1 shifted_ages unfolding q_def q'_def by (metis (no_types))
  consider (err) e where "r1 = Inl e" | (none) "r1 = Inr []" | (cur) c where "r1 = Inr c" "c \<noteq> []"
    by (cases r1) auto
  then show ?thesis
  proof cases
    case err
    then show ?thesis using 1 by (intro stop) (simp add: check_def)
  next
    case none
    obtain st2 e where 2: "tryUpload cf (st\<lparr>ck_up := u1\<rparr>) = (st2, e)" by fastforce
    have "check cf st = st2" using 1 2 none by (simp add: check_def)
    with tryUpload_uq [OF ok 2] shifted_between [OF conjunct1 [OF a1]] show ?thesis
      unfolding q_def q'_def using q_ages_refl by fastforce
  next
    case cur
    with a1 have b: "c = q_bundled (uq_of (view u1))" by blast
    with a1 cur(2) have same: "uq_of (view u1) = q" by (auto simp: q_def q_ages_def)
    obtain opst r2 where 2: "kc_op_check cf (ck_op st) c = (opst, r2)" by fastforce
    show ?thesis
    proof (cases "r2 = Inr True")
      case False
      then show ?thesis using 1 2 cur by (intro stop) (cases r2; auto simp: check_def Let_def split: bool.splits)
    next
      case conf: True
      obtain u3 r3 where 3: "EndUpload (kc_up cf) u1 = (u3, r3)" by fastforce
      note e = EndUpload_uq [OF ok 3, unfolded same]
      show ?thesis
      proof (cases r3)
        case (Some err)
        then have q': "q' = uq_of (view u3)" using 1 2 3 cur conf by (simp add: q'_def check_def)
        from e Some obtain p where p: "q_ages q p" "q' \<in> {p, p\<lparr>q_done := q_done p \<union> q_uploading p\<rparr>, ended p,
           p\<lparr>q_uploading := {}, q_done := q_done p \<union> q_uploading p\<rparr>}" by (auto simp: q')
        show ?thesis
        proof (cases "q' = p")
          case True
          with p(1) shifted_ages show ?thesis by auto
        next
          case False
          have "shifted q' q' []" using shifted_ages [OF q_ages_refl] .
          moreover have "q_pending q' = q_pending q" "q_uploading q' \<in> {q_uploading q, {}}"
            "q_done q' = q_done q \<union> q_uploading q"
            using p(2) False q_ages_fields [OF p(1)] by (auto simp: ended_def)
          ultimately show ?thesis using 2 conf b cur(2) same by blast
        qed
      next
        case None
        obtain st4 e4 where 4: "tryUpload cf (st\<lparr>ck_up := u1, ck_op := opst, ck_up := u3\<rparr>) = (st4, e4)" by fastforce
        have q': "q' = ck_q view st4" using 1 2 3 4 cur conf None by (simp add: q'_def check_def)
        from tryUpload_uq [OF ok 4] obtain xs where "shifted (uq_of (view u3)) q' xs" by (auto simp: q')
        moreover have "uq_of (view u3) = ended q" using e None by simp
        ultimately show ?thesis using 2 conf b cur(2) same by (fastforce simp: ended_def)
      qed
    qed
  qed
qed

lemma ck_Upload_uq:
  assumes ok: "uredis_ok (kc_up cf) view" and u: "ck_Upload cf st tx = (st', e)"
  shows "q_uploading (ck_q view st') = q_uploading (ck_q view st) \<and> q_done (ck_q view st') = q_done (ck_q view st) \<and>
      q_pending (ck_q view st') \<in> {q_pending (ck_q view st), q_pending (ck_q view st) @ [item_Id tx]}"
proof (cases "item_Id tx = []")
  case True
  with u show ?thesis by (auto simp: ck_Upload_def)
next
  case False
  obtain v r where 1: "IsUploaded (kc_up cf) (ck_up st) (item_Id tx) = (v, r)" by fastforce
  note a1 = q_ages_fields [OF conjunct1 [OF IsUploaded_uq [OF ok 1]]]
  show ?thesis
  proof (cases "r = Inr False")
    case up: False
    then have "st' = st\<lparr>ck_up := v\<rparr>" using u 1 False by (cases r) (auto simp: ck_Upload_def split: bool.splits)
    with a1 show ?thesis by simp
  next
    case up: True
    obtain w x where 2: "AddPending (kc_up cf) v (item_Id tx) = (w, x)" by fastforce
    from AddPending_uq [OF ok 2] obtain q where "q_ages (uq_of (view v)) q"
        "uq_of (view w) \<in> {q, q\<lparr>q_pending := q_pending q @ [item_Id tx]\<rparr>}" by blast
    moreover have "st' = st\<lparr>ck_up := w\<rparr>" using u 1 2 up False by (simp add: ck_Upload_def)
    ultimately show ?thesis using a1 q_ages_fields [of "uq_of (view v)" q] by auto
  qed
qed

lemma backup_nonces_uq:
  assumes ok: "uredis_ok (kc_up cf) view"
  shows "backup_nonces cf pid st ns = (st', e) \<Longrightarrow>
    q_uploading (ck_q view st') = q_uploading (ck_q view st) \<and> q_done (ck_q view st') = q_done (ck_q view st)"
proof (induction ns arbitrary: st)
  case (Cons n ns)
  obtain r m where g: "GetMessageByNonce (kc_redis cf) (kc_codec cf) (ck_node st) pid n = (r, m)" by fastforce
  show ?case
  proof (cases "\<exists>i. m = Inr (Some i)")
    case False
    then have "backup_nonces cf pid (st\<lparr>ck_node := r\<rparr>) ns = (st', e)"
      using Cons.prems g by (auto split: sum.splits option.splits)
    from Cons.IH [OF this] show ?thesis by simp
  next
    case True
    then obtain i where m: "m = Inr (Some i)" by blast
    obtain st1 e1 where u: "ck_Upload cf (st\<lparr>ck_node := r\<rparr>) i = (st1, e1)" by fastforce
    note a = ck_Upload_uq [OF ok u]
    show ?thesis
    proof (cases e1)
      case None
      then have "backup_nonces cf pid st1 ns = (st', e)" using Cons.prems g m u by simp
      from Cons.IH [OF this] a show ?thesis by simp
    next
      case (Some x)
      with Cons.prems g m u a show ?thesis by simp
    qed
  qed
qed simp

text \<open>The life of the service: ids are queued, old processes are queued again, the job runs.\<close>

datatype ck_event = EvUpload bundle_item | EvBackup string int64 | EvCheck

fun ck_step :: "('u, 'r, 'o) ck_cfg \<Rightarrow> ('u, 'r, 'o) ck_state \<Rightarrow> ck_event \<Rightarrow> ('u, 'r, 'o) ck_state" where
  "ck_step cf st (EvUpload item) = AssignmentHandler cf st item"
| "ck_step cf st (EvBackup pid maxNonce) = fst (backupProcess cf st pid maxNonce)"
| "ck_step cf st EvCheck = check cf st"

lemma queue_step_uq:
  assumes "uredis_ok (kc_up cf) view" "ev \<noteq> EvCheck"
  shows "q_uploading (ck_q view (ck_step cf st ev)) = q_uploading (ck_q view st) \<and>
    q_done (ck_q view (ck_step cf st ev)) = q_done (ck_q view st)"
  using assms(2) ck_Upload_uq [OF assms(1) surjective_pairing] backup_nonces_uq [OF assms(1) surjective_pairing]
  by (cases ev) (auto simp: AssignmentHandler_def backupProcess_def)

lemma card_union_list:
  assumes "finite A" "int (card A) + int (length xs) \<le> m"
  shows "int (card (A \<union> set xs)) \<le> m"
proof -
  have "card (A \<union> set xs) \<le> card A + length xs"
    using card_Un_le [of A "set xs"] card_length [of xs] by simp
  with assms(2) show ?thesis by simp
qed

lemma shifted_bound:
  assumes "shifted q q' xs" "finite (q_uploading q)" "int (card (q_uploading q)) \<le> MaxUploadingCount"
  shows "int (card (q_uploading q')) \<le> MaxUploadingCount"
  using assms card_union_list [of "q_uploading q" xs] by (auto simp: shifted_def)

lemma ck_step_bound:
  assumes ok: "uredis_ok (kc_up cf) view" and b: "int (card (q_uploading (ck_q view st))) \<le> MaxUploadingCount"
  shows "int (card (q_uploading (ck_q view (ck_step cf st ev)))) \<le> MaxUploadingCount"
proof (cases "ev = EvCheck")
  case False
  with queue_step_uq [OF ok] b show ?thesis by simp
next
  case True
  note fin = uredis_reads(8) [OF ok]
  from check_uq [OF ok, of st] show ?thesis
  proof (elim disjE exE conjE)
    fix xs assume "shifted (ck_q view st) (ck_q view (check cf st)) xs"
    from shifted_bound [OF this fin b] True show ?thesis by simp
  next
    fix p xs assume p: "shifted p (ck_q view (check cf st)) xs" "q_uploading p \<in> {q_uploading (ck_q view st), {}}"
    then have "finite (q_uploading p)" "int (card (q_uploading p)) \<le> MaxUploadingCount"
      using fin b by (auto simp: MaxUploadingCount_def)
    from shifted_bound [OF p(1) this] True show ?thesis by simp
  qed
qed

text \<open>C34: However Redis fails and the bundle key expires, the set of ids that are being uploaded never has
  more than 100000 elements.\<close>

theorem uploading_bounded:
  assumes "uredis_ok (kc_up cf) view" and "int (card (q_uploading (ck_q view st))) \<le> 100000"
  shows "int (card (q_uploading (ck_q view (foldl (ck_step cf) st evs)))) \<le> 100000"
proof -
  have "int (card (q_uploading (ck_q view (foldl (ck_step cf) st evs)))) \<le> MaxUploadingCount"
    using assms(2) [folded MaxUploadingCount_def]
    by (induction evs arbitrary: st) (auto intro: ck_step_bound [OF assms(1)])
  then show ?thesis by (simp add: MaxUploadingCount_def)
qed

text \<open>However Redis fails, ids are declared uploaded only by a check in which the operator has confirmed the
  current bundle; and then all that are uploading are declared at once.\<close>

theorem uploaded_only_confirmed:
  assumes "uredis_ok (kc_up cf) view" and "q_done (ck_q view (ck_step cf st ev)) \<noteq> q_done (ck_q view st)"
  shows "ev = EvCheck \<and> q_bundled (ck_q view st) \<noteq> [] \<and>
    snd (kc_op_check cf (ck_op st) (q_bundled (ck_q view st))) = Inr True \<and>
    q_done (ck_q view (ck_step cf st ev)) = q_done (ck_q view st) \<union> q_uploading (ck_q view st)"
proof -
  have ev: "ev = EvCheck" using queue_step_uq [OF assms(1), of ev st] assms(2) by auto
  with check_uq [OF assms(1), of st] assms(2) show ?thesis by (auto simp: shifted_def)
qed

end
