(* ===== verification/ChainDownload.thy ===== *)
theory ChainDownload
  imports Upload
begin

text \<open>
  How a node reads the history of a process back from the chain (chainkit/download.go, graphql.go,
  chainkit.go): the ids of the assignments and messages of a range of nonces are asked for in
  batches of ten, then each pair is taken from the node's database, from the cache or from the
  operator. The GraphQL service, its JSON and the operator are parameters. A loop that does not end
  is \<open>None\<close>.
\<close>

subsection \<open>Items by id\<close>

record gql_edge =
  edge_Cursor :: string
  edge_Id :: string
  edge_Tags :: "tag list"

record ('u, 'r, 'o) dl_cfg = "('u, 'r, 'o) ck_cfg" +
  kc_lib :: extlib
  kc_json :: "string \<Rightarrow> gql_edge list option"

record dl_result =
  dr_Nonce :: int64
  dr_Assignment :: bundle_item
  dr_Message :: bundle_item

definition downloadByTxid ::
  "('u, 'r, 'o) dl_cfg \<Rightarrow> ('u, 'r, 'o) ck_state \<Rightarrow> string \<Rightarrow> ('u, 'r, 'o) ck_state \<times> (string + bundle_item)" where
  "downloadByTxid cf st itemId =
     (case ck_GetCache (kc_up cf) (kc_codec cf) (ck_up st) itemId of
        (u, Inr item) \<Rightarrow> (st\<lparr>ck_up := u\<rparr>, Inr item)
      | (u, Inl _) \<Rightarrow>
          (case kc_op_download cf (ck_op st) itemId of
             (opst, Inl e) \<Rightarrow> (st\<lparr>ck_up := u, ck_op := opst\<rparr>, Inl e)
           | (opst, Inr item) \<Rightarrow>
               (st\<lparr>ck_up := fst (ck_Cache (kc_up cf) (kc_codec cf) u itemId item), ck_op := opst\<rparr>, Inr item)))"

text \<open>The type of the item decides which instance \<open>Decode\<close> gives, so the check of the instance never
  adds an error.\<close>

definition ck_verifyMessage :: "extlib \<Rightarrow> bundle_item \<Rightarrow> string \<Rightarrow> string option" where
  "ck_verifyMessage lib item msgType =
     (if \<not> verify_bundle_item lib item then Some ''verify''
      else case Decode lib item of
        Inl _ \<Rightarrow> Some ''decode''
      | Inr (_, _, _, inst) \<Rightarrow>
          if GetType item \<noteq> msgType then Some ''err_invalid_message_type''
          else if msgType = TypeMessage then
            (case inst of IMessage _ \<Rightarrow> None | _ \<Rightarrow> Some ''err_invalid_message_type'')
          else if msgType = TypeProcess then
            (case inst of IProcess _ \<Rightarrow> None | _ \<Rightarrow> Some ''err_invalid_process_type'')
          else if msgType = TypeAssignment then
            (case inst of IAssignment _ \<Rightarrow> None | _ \<Rightarrow> Some ''err_invalid_assignment_type'')
          else Some ''err_invalid_message_type'')"

subsection \<open>Queries (graphql.go)\<close>

definition quoted :: "string \<Rightarrow> string" where
  "quoted s = CHR 0x22 # s @ [CHR 0x22]"

definition nl :: string where "nl = [CHR 0x0A]"

text \<open>\<open>QueryTmp\<close> with its three arguments.\<close>

definition query_text :: "string \<Rightarrow> string \<Rightarrow> string \<Rightarrow> string" where
  "query_text owner pid nonces =
     nl @ ''{'' @ nl @ ''  transactions('' @ nl @ ''    owners: ['' @ quoted owner @ '']'' @ nl @
     ''    tags: ['' @ nl @
     ''      {name: '' @ quoted ''Process'' @ '', values: ['' @ quoted pid @ '']},'' @ nl @
     ''      {name: '' @ quoted ''Nonce'' @ '', values: ['' @ nonces @ '']}'' @ nl @
     ''    ]'' @ nl @ ''  ){'' @ nl @ ''    pageInfo {'' @ nl @ ''      hasNextPage'' @ nl @ ''    }'' @ nl @
     ''    edges {'' @ nl @ ''      cursor'' @ nl @ ''      node {'' @ nl @ ''        id'' @ nl @
     ''        tags {'' @ nl @ ''          name'' @ nl @ ''          value'' @ nl @ ''        }'' @ nl @
     ''      }'' @ nl @ ''    }'' @ nl @ ''  }'' @ nl @ ''}''"

definition max_nonce_text :: "string \<Rightarrow> string \<Rightarrow> string" where
  "max_nonce_text owner pid =
     nl @ ''{'' @ nl @ ''  transactions('' @ nl @ ''    owners: ['' @ quoted owner @ '']'' @ nl @
     ''    tags: ['' @ nl @
     ''      {name: '' @ quoted ''Process'' @ '', values: ['' @ quoted pid @ '']}'' @ nl @
     ''    ]'' @ nl @ ''    sort: HEIGHT_DESC'' @ nl @ ''    first: 1'' @ nl @ ''  ){'' @ nl @
     ''    edges {'' @ nl @ ''      node {'' @ nl @ ''        tags {'' @ nl @ ''          name'' @ nl @
     ''          value'' @ nl @ ''        }'' @ nl @ ''      }'' @ nl @ ''    }'' @ nl @ ''  }'' @ nl @ ''}''"

partial_function (option) nonce_values :: "int64 \<Rightarrow> int64 \<Rightarrow> string list \<Rightarrow> string list option" where
  "nonce_values i endNonce acc =
     (if i \<le>s endNonce then nonce_values (i + 1) endNonce (acc @ [quoted (FormatInt i)]) else Some acc)"

fun join_comma :: "string list \<Rightarrow> string" where
  "join_comma [] = []"
| "join_comma [s] = s"
| "join_comma (s # ss) = s @ '', '' @ join_comma ss"

text \<open>The last tag of a name counts.\<close>

fun edge_fields :: "tag list \<Rightarrow> string \<times> string \<Rightarrow> string \<times> string" where
  "edge_fields [] (n, m) = (n, m)"
| "edge_fields (Tag name v # ts) (n, m) =
     edge_fields ts (if name = ''Nonce'' then (v, m) else if name = ''Message'' then (n, v) else (n, m))"

fun edges_loop ::
  "gql_edge list \<Rightarrow> (int64, string) gomap \<times> (int64, string) gomap \<Rightarrow> (int64, string) gomap \<times> (int64, string) gomap"
where
  "edges_loop [] (as, ts) = (as, ts)"
| "edges_loop (e # es) (as, ts) =
     edges_loop es
       (if edge_Id e = [] then (as, ts)
        else let (nonceStr, messageId) = edge_fields (edge_Tags e) ([], []) in
        if nonceStr = [] then (as, ts)
        else case ParseInt nonceStr of
          None \<Rightarrow> (as, ts)
        | Some n \<Rightarrow> (mput n (edge_Id e) as, if messageId \<noteq> [] then mput n messageId ts else ts))"

definition queryBatch ::
  "('u, 'r, 'o) dl_cfg \<Rightarrow> 'o \<Rightarrow> string \<Rightarrow> string \<Rightarrow> int64 \<Rightarrow> int64 \<Rightarrow>
     ('o \<times> (string + (int64, string) gomap \<times> (int64, string) gomap)) option" where
  "queryBatch cf o1 scheduler pid beginNonce count =
     (case nonce_values beginNonce (beginNonce + count - 1) [] of
        None \<Rightarrow> None
      | Some values \<Rightarrow>
          (case kc_graphql cf o1 (query_text scheduler pid (join_comma values)) of
             (o2, Inl e) \<Rightarrow> Some (o2, Inl (''GraphQL query failed: '' @ e))
           | (o2, Inr response) \<Rightarrow>
               (case kc_json cf response of
                  None \<Rightarrow> Some (o2, Inl ''failed to parse GraphQL response: json'')
                | Some edges \<Rightarrow> Some (o2, Inr (edges_loop edges ([], []))))))"

definition batch_end :: "int64 \<Rightarrow> int64 \<Rightarrow> int64" where
  "batch_end currentBegin endNonce =
     (let currentEnd = currentBegin + 10 - 1 in if endNonce <s currentEnd then endNonce else currentEnd)"

partial_function (option) query_loop ::
  "('u, 'r, 'o) dl_cfg \<Rightarrow> string \<Rightarrow> string \<Rightarrow> int64 \<Rightarrow> int64 \<Rightarrow> 'o \<Rightarrow> (int64, string) gomap \<Rightarrow> (int64, string) gomap \<Rightarrow>
     ('o \<times> (string + (int64, string) gomap \<times> (int64, string) gomap)) option" where
  "query_loop cf scheduler pid currentBegin endNonce o1 as ts =
     (if \<not> currentBegin \<le>s endNonce then Some (o1, Inr (as, ts))
      else
        (case queryBatch cf o1 scheduler pid currentBegin (batch_end currentBegin endNonce - currentBegin + 1) of
           None \<Rightarrow> None
         | Some (o2, r) \<Rightarrow>
             (case r of
                Inl e \<Rightarrow> Some (o2, Inl (''query batch failed for nonce range '' @ FormatInt currentBegin @ ''-'' @
                  FormatInt (batch_end currentBegin endNonce) @ '': '' @ e))
              | Inr batch \<Rightarrow>
                  query_loop cf scheduler pid (currentBegin + 10) endNonce o2
                    (maps_Copy as (fst batch)) (maps_Copy ts (snd batch)))))"

definition queryByNonce ::
  "('u, 'r, 'o) dl_cfg \<Rightarrow> 'o \<Rightarrow> string \<Rightarrow> string \<Rightarrow> int64 \<Rightarrow> int64 \<Rightarrow>
     ('o \<times> (string + (int64, string) gomap \<times> (int64, string) gomap)) option" where
  "queryByNonce cf o1 scheduler pid beginNonce endNonce = query_loop cf scheduler pid beginNonce endNonce o1 [] []"

text \<open>The first tag named \<open>Nonce\<close> of the first edge.\<close>

definition queryMaxNonce :: "('u, 'r, 'o) dl_cfg \<Rightarrow> 'o \<Rightarrow> string \<Rightarrow> string \<Rightarrow> 'o \<times> (string + int64)" where
  "queryMaxNonce cf o1 scheduler pid =
     (case kc_graphql cf o1 (max_nonce_text scheduler pid) of
        (o2, Inl e) \<Rightarrow> (o2, Inl (''GraphQL query failed: '' @ e))
      | (o2, Inr response) \<Rightarrow>
          (o2, (case kc_json cf response of
             None \<Rightarrow> Inl ''failed to parse GraphQL response: json''
           | Some [] \<Rightarrow> Inl (''no transaction found for process '' @ pid)
           | Some (e # _) \<Rightarrow>
               (case filter (\<lambda>t. tag_Name t = ''Nonce'') (edge_Tags e) of
                  [] \<Rightarrow> Inr 0
                | t # _ \<Rightarrow> (case ParseInt (tag_Value t) of
                    None \<Rightarrow> Inl (''invalid nonce value: '' @ tag_Value t) | Some n \<Rightarrow> Inr n)))))"

subsection \<open>Downloads (download.go)\<close>

text \<open>The assignment and the message of a nonce, each from the node's database before the chain; a
  failure skips the nonce. \<open>GetMessage\<close> panics on an entry of the message index without a colon, which the node
  never writes; here this counts as a failed read.\<close>

definition fetch_assignment ::
  "('u, 'r, 'o) dl_cfg \<Rightarrow> ('u, 'r, 'o) ck_state \<Rightarrow> string \<Rightarrow> int64 \<Rightarrow> string \<Rightarrow> ('u, 'r, 'o) ck_state \<times> bundle_item option"
where
  "fetch_assignment cf st pid nonce assignId =
     (case GetAssignByNonce (kc_redis cf) (kc_codec cf) (ck_node st) pid nonce of
        (r, Inr (Some a)) \<Rightarrow> (st\<lparr>ck_node := r\<rparr>, Some a)
      | (r, _) \<Rightarrow>
          (case downloadByTxid cf (st\<lparr>ck_node := r\<rparr>) assignId of
             (st1, Inl _) \<Rightarrow> (st1, None)
           | (st1, Inr a) \<Rightarrow>
               (st1, if ck_verifyMessage (kc_lib cf) a TypeAssignment = None then Some a else None)))"

definition fetch_message ::
  "('u, 'r, 'o) dl_cfg \<Rightarrow> ('u, 'r, 'o) ck_state \<Rightarrow> string \<Rightarrow> ('u, 'r, 'o) ck_state \<times> bundle_item option" where
  "fetch_message cf st txId =
     (case GetMessage (kc_redis cf) (kc_codec cf) (ck_node st) txId of
        (r, Inr (Some m)) \<Rightarrow> (st\<lparr>ck_node := r\<rparr>, Some m)
      | (r, _) \<Rightarrow>
          (case downloadByTxid cf (st\<lparr>ck_node := r\<rparr>) txId of
             (st1, Inl _) \<Rightarrow> (st1, None)
           | (st1, Inr m) \<Rightarrow> (st1, Some m)))"

definition fetch_pair ::
  "('u, 'r, 'o) dl_cfg \<Rightarrow> ('u, 'r, 'o) ck_state \<Rightarrow> string \<Rightarrow> (int64, string) gomap \<Rightarrow> (int64, string) gomap \<Rightarrow> int64 \<Rightarrow>
     ('u, 'r, 'o) ck_state \<times> dl_result list" where
  "fetch_pair cf st pid as ts nonce =
     (case (mget as nonce, mget ts nonce) of
        (Some assignId, Some txId) \<Rightarrow>
          (case fetch_assignment cf st pid nonce assignId of
             (st1, None) \<Rightarrow> (st1, [])
           | (st1, Some a) \<Rightarrow>
               (case fetch_message cf st1 txId of
                  (st2, None) \<Rightarrow> (st2, [])
                | (st2, Some m) \<Rightarrow> (st2, [\<lparr>dr_Nonce = nonce, dr_Assignment = a, dr_Message = m\<rparr>])))
      | _ \<Rightarrow> (st, []))"

partial_function (option) fetch_loop ::
  "('u, 'r, 'o) dl_cfg \<Rightarrow> string \<Rightarrow> (int64, string) gomap \<Rightarrow> (int64, string) gomap \<Rightarrow> int64 \<Rightarrow> int64 \<Rightarrow>
     ('u, 'r, 'o) ck_state \<Rightarrow> dl_result list \<Rightarrow> (('u, 'r, 'o) ck_state \<times> dl_result list) option" where
  "fetch_loop cf pid as ts nonce endNonce st results =
     (if nonce \<le>s endNonce
      then fetch_loop cf pid as ts (nonce + 1) endNonce (fst (fetch_pair cf st pid as ts nonce))
             (results @ snd (fetch_pair cf st pid as ts nonce))
      else Some (st, results))"

definition downloadByNonce ::
  "('u, 'r, 'o) dl_cfg \<Rightarrow> ('u, 'r, 'o) ck_state \<Rightarrow> string \<Rightarrow> string \<Rightarrow> int64 \<Rightarrow> int64 \<Rightarrow>
     (('u, 'r, 'o) ck_state \<times> (string + dl_result list)) option" where
  "downloadByNonce cf st scheduler pid beginNonce endNonce =
     (case queryByNonce cf (ck_op st) scheduler pid beginNonce endNonce of
        None \<Rightarrow> None
      | Some (o1, Inl e) \<Rightarrow> Some (st\<lparr>ck_op := o1\<rparr>, Inl e)
      | Some (o1, Inr (as, ts)) \<Rightarrow>
          (case fetch_loop cf pid as ts beginNonce endNonce (st\<lparr>ck_op := o1\<rparr>) [] of
             None \<Rightarrow> None
           | Some (st', results) \<Rightarrow> Some (st', Inr results)))"

definition DownloadByPid ::
  "('u, 'r, 'o) dl_cfg \<Rightarrow> ('u, 'r, 'o) ck_state \<Rightarrow> string \<Rightarrow> int64 \<Rightarrow> int64 \<Rightarrow>
     (('u, 'r, 'o) ck_state \<times> (string + dl_result list)) option" where
  "DownloadByPid cf st pid beginNonce endNonce =
     (case downloadByTxid cf st pid of
        (st1, Inl e) \<Rightarrow> Some (st1, Inl e)
      | (st1, Inr spawnItem) \<Rightarrow>
          (case ck_verifyMessage (kc_lib cf) spawnItem TypeProcess of
             Some e \<Rightarrow> Some (st1, Inl e)
           | None \<Rightarrow>
               (case owner_to_address (kc_lib cf) (item_Owner spawnItem) of
                  None \<Rightarrow> Some (st1, Inl ''owner'')
                | Some owner \<Rightarrow> downloadByNonce cf st1 owner pid beginNonce endNonce)))"

definition GetMaxNonce :: "('u, 'r, 'o) dl_cfg \<Rightarrow> ('u, 'r, 'o) ck_state \<Rightarrow> string \<Rightarrow> string \<Rightarrow> ('u, 'r, 'o) ck_state \<times> (string + int64)"
where
  "GetMaxNonce cf st scheduler pid =
     (case queryMaxNonce cf (ck_op st) scheduler pid of (o1, r) \<Rightarrow> (st\<lparr>ck_op := o1\<rparr>, r))"

subsection \<open>What a download returns\<close>

lemma sint_plus_small:
  "- (2 ^ 63) \<le> sint (i :: int64) + k \<Longrightarrow> sint i + k < 2 ^ 63 \<Longrightarrow> sint (i + of_int k) = sint i + k"
proof -
  assume k: "- (2 ^ 63) \<le> sint i + k" "sint i + k < 2 ^ 63"
  have "i + of_int k = of_int (sint i + k)" by simp
  moreover have "sint (of_int (sint i + k) :: int64) = signed_take_bit 63 (sint i + k)"
    by (subst sint_sbintrunc') simp
  moreover have "signed_take_bit 63 (sint i + k) = sint i + k"
    using k by (intro signed_take_bit_int_eq_self) auto
  ultimately show ?thesis by simp
qed

lemma nonce_values_total:
  assumes "sint endNonce < 2 ^ 63 - 1"
  shows "\<exists>vs. nonce_values i endNonce acc = Some vs"
proof (induction "nat (sint endNonce - sint i + 1)" arbitrary: i acc)
  case 0
  then have "\<not> i \<le>s endNonce" by (simp add: word_sle_eq)
  then show ?case by (simp add: nonce_values.simps)
next
  case (Suc d)
  then have le: "i \<le>s endNonce" by (simp add: word_sle_eq)
  have "sint (i + 1) = sint i + 1"
    using sint_plus_small [of i 1] Suc(2) assms sint_ge [of i] by (simp add: word_sle_eq)
  then have "d = nat (sint endNonce - sint (i + 1) + 1)" using Suc(2) by simp
  from Suc(1) [OF this] le show ?case by (simp add: nonce_values.simps [of i])
qed

lemma queryBatch_total:
  assumes "sint endNonce < 2 ^ 63 - 10"
  shows "\<exists>q. queryBatch cf o1 scheduler pid b (batch_end b endNonce - b + 1) = Some q"
proof -
  have e: "b + (batch_end b endNonce - b + 1) - 1 = batch_end b endNonce" by simp
  have "sint (batch_end b endNonce) < 2 ^ 63 - 1"
    using assms by (auto simp: batch_end_def word_sless_alt Let_def)
  from nonce_values_total [OF this] obtain vs where "nonce_values b (batch_end b endNonce) [] = Some vs" by blast
  then show ?thesis
    by (auto simp: queryBatch_def e split: prod.splits sum.splits option.splits)
qed

lemma query_loop_total:
  assumes "sint endNonce < 2 ^ 63 - 10"
  shows "\<exists>q. query_loop cf scheduler pid b endNonce o1 as ts = Some q"
proof (induction "nat (sint endNonce - sint b + 10)" arbitrary: b o1 as ts rule: less_induct)
  case less
  show ?case
  proof (cases "b \<le>s endNonce")
    case False
    then show ?thesis by (simp add: query_loop.simps)
  next
    case True
    obtain o2 r where q: "queryBatch cf o1 scheduler pid b (batch_end b endNonce - b + 1) = Some (o2, r)"
      using queryBatch_total [OF assms] by force
    have "sint (b + 10) = sint b + 10"
      using sint_plus_small [of b 10] assms sint_ge [of b] True by (simp add: word_sle_eq)
    then have "nat (sint endNonce - sint (b + 10) + 10) < nat (sint endNonce - sint b + 10)"
      using True by (simp add: word_sle_eq)
    note IH = less [OF this]
    show ?thesis
    proof (cases r)
      case Inl
      with q True show ?thesis by (simp add: query_loop.simps [of cf scheduler pid b])
    next
      case (Inr batch)
      with q True IH show ?thesis by (simp add: query_loop.simps [of cf scheduler pid b])
    qed
  qed
qed

text \<open>The nonces of a list of results lie strictly between two bounds and increase.\<close>

fun ascending :: "int \<Rightarrow> int \<Rightarrow> int64 list \<Rightarrow> bool" where
  "ascending lo hi [] \<longleftrightarrow> True"
| "ascending lo hi (n # ns) \<longleftrightarrow> lo \<le> sint n \<and> sint n \<le> hi \<and> ascending (sint n + 1) hi ns"

lemma ascending_mono: "ascending lo hi ns \<Longrightarrow> lo' \<le> lo \<Longrightarrow> hi \<le> hi' \<Longrightarrow> ascending lo' hi' ns"
proof (induction ns arbitrary: lo lo')
  case (Cons n ns)
  from Cons.prems have "ascending (sint n + 1) hi ns" by simp
  from Cons.IH [OF this order_refl Cons.prems(3)] Cons.prems show ?case by simp
qed simp

lemma ascending_snoc:
  "ascending lo (sint n - 1) ns \<Longrightarrow> lo \<le> sint n \<Longrightarrow> ascending lo (sint n) (ns @ [n])"
  by (induction ns arbitrary: lo) simp_all

text \<open>An assignment of a download: the entry of the node's own log at this nonce, as the database \<open>ks\<close> holds it, or
  an item that passed the check.\<close>

definition own_assignment :: "('u, 'r, 'o) dl_cfg \<Rightarrow> keyspace \<Rightarrow> string \<Rightarrow> dl_result \<Rightarrow> bool" where
  "own_assignment cf ks pid d \<longleftrightarrow>
     (case lindex_of (ks_list ks (RdbProcessAssignmentPrefix @ pid)) (dr_Nonce d) of
        None \<Rightarrow> False
      | Some text \<Rightarrow> dec_item (kc_codec cf) text = Some (dr_Assignment d))"

definition checked_assignment :: "('u, 'r, 'o) dl_cfg \<Rightarrow> keyspace \<Rightarrow> string \<Rightarrow> dl_result \<Rightarrow> bool" where
  "checked_assignment cf ks pid d \<longleftrightarrow>
     own_assignment cf ks pid d \<or>
     verify_bundle_item (kc_lib cf) (dr_Assignment d) \<and>
     (\<exists>p a i. Decode (kc_lib cf) (dr_Assignment d) = Inr (p, a, [], IAssignment i))"

text \<open>Reads leave the database as it is.\<close>

lemma list_item_reads:
  assumes "redis_ok rd view" "list_item rd cd s key n = (s', q)"
  shows "view s' = view s"
    and "q = Inr (Some x) \<Longrightarrow> \<exists>text. lindex_of (ks_list (view s) key) n = Some text \<and> dec_item cd text = Some x"
proof -
  obtain s1 l where l: "rd_lindex rd s key n = (s1, l)" by fastforce
  note R = redis_ok_D(2) [OF assms(1) l]
  show "view s' = view s" using assms(2) l R by (auto simp: list_item_def split: reply.splits)
  show "\<exists>text. lindex_of (ks_list (view s) key) n = Some text \<and> dec_item cd text = Some x" if "q = Inr (Some x)"
    using assms(2) l R that
    by (cases "lindex_of (ks_list (view s) key) n") (auto simp: list_item_def split: reply.splits option.splits)
qed

lemma GetMessage_reads:
  assumes "redis_ok rd view" shows "view (fst (GetMessage rd cd s i)) = view s"
proof -
  obtain s1 h where h: "rd_hget rd s RdbMsgIndex i = (s1, h)" by fastforce
  have v: "view s1 = view s" using redis_ok_D(3) [OF assms h] by simp
  have "view (fst (GetMessageByNonce rd cd s1 p n)) = view s" for p n
    using list_item_reads(1) [OF assms surjective_pairing] v by (simp add: GetMessageByNonce_def)
  then show ?thesis using v h by (simp add: GetMessage_def split: reply.split list.split option.split)
qed

lemma downloadByTxid_node [simp]: "ck_node (fst (downloadByTxid cf st i)) = ck_node st"
  by (simp add: downloadByTxid_def split: prod.splits sum.splits)

lemma ck_verifyMessage_assignment:
  assumes "ck_verifyMessage lib item TypeAssignment = None"
  shows "verify_bundle_item lib item \<and> (\<exists>p a i. Decode lib item = Inr (p, a, [], IAssignment i))"
proof -
  have T: "TypeAssignment \<noteq> TypeMessage" "TypeAssignment \<noteq> TypeProcess" by (simp_all add: type_defs)
  from assms T have v: "verify_bundle_item lib item"
    by (auto simp: ck_verifyMessage_def split: if_splits)
  from assms T v obtain p a f i where "Decode lib item = Inr (p, a, f, IAssignment i)"
    by (auto simp: ck_verifyMessage_def split: if_splits sum.splits prod.splits instance_val.splits)
  moreover from this have "f = []" by (auto simp: Decode_def split: sum.splits if_splits)
  ultimately show ?thesis using v by blast
qed

lemma fetch_assignment_spec:
  assumes "fetch_assignment cf st pid n i = (st1, q)" "redis_ok (kc_redis cf) view"
  shows "view (ck_node st1) = view (ck_node st)"
    and "q = Some a \<Longrightarrow> checked_assignment cf (view (ck_node st)) pid \<lparr>dr_Nonce = n, dr_Assignment = a, dr_Message = m\<rparr>"
proof -
  obtain r b where g: "GetAssignByNonce (kc_redis cf) (kc_codec cf) (ck_node st) pid n = (r, b)" by fastforce
  note G = list_item_reads [OF assms(2) g [unfolded GetAssignByNonce_def]]
  obtain st2 d where d: "downloadByTxid cf (st\<lparr>ck_node := r\<rparr>) i = (st2, d)" by fastforce
  have n: "ck_node st2 = r" using downloadByTxid_node [of cf "st\<lparr>ck_node := r\<rparr>" i] d by simp
  show "view (ck_node st1) = view (ck_node st)"
    using assms(1) g d n G(1) by (auto simp: fetch_assignment_def split: sum.splits option.splits)
  assume q: "q = Some a"
  show "checked_assignment cf (view (ck_node st)) pid \<lparr>dr_Nonce = n, dr_Assignment = a, dr_Message = m\<rparr>"
  proof (cases "\<exists>x. b = Inr (Some x)")
    case True
    with assms(1) g q have "b = Inr (Some a)" by (auto simp: fetch_assignment_def)
    with G(2) show ?thesis by (auto simp: checked_assignment_def own_assignment_def)
  next
    case False
    with assms(1) g d q have "ck_verifyMessage (kc_lib cf) a TypeAssignment = None"
      by (auto simp: fetch_assignment_def split: sum.splits option.splits if_splits)
    then show ?thesis by (auto simp: checked_assignment_def dest: ck_verifyMessage_assignment)
  qed
qed

lemma fetch_message_reads:
  assumes "redis_ok (kc_redis cf) view" shows "view (ck_node (fst (fetch_message cf st i))) = view (ck_node st)"
proof -
  obtain r b where g: "GetMessage (kc_redis cf) (kc_codec cf) (ck_node st) i = (r, b)" by fastforce
  have "view r = view (ck_node st)" using GetMessage_reads [OF assms, of "kc_codec cf" "ck_node st" i] g by simp
  moreover obtain st2 d where d: "downloadByTxid cf (st\<lparr>ck_node := r\<rparr>) i = (st2, d)" by fastforce
  moreover have "ck_node st2 = r" using downloadByTxid_node [of cf "st\<lparr>ck_node := r\<rparr>" i] d by simp
  ultimately show ?thesis using g by (simp add: fetch_message_def split: sum.split option.split)
qed

lemma fetch_pair_length: "length (snd (fetch_pair cf st pid as ts n)) \<le> 1 \<and> (\<forall>d \<in> set (snd (fetch_pair cf st pid as ts n)). dr_Nonce d = n)"
  by (simp add: fetch_pair_def split: option.split prod.split)

lemma fetch_pair_spec:
  assumes "redis_ok (kc_redis cf) view"
  shows "view (ck_node (fst (fetch_pair cf st pid as ts n))) = view (ck_node st)"
    and "list_all (checked_assignment cf (view (ck_node st)) pid) (snd (fetch_pair cf st pid as ts n))"
proof -
  obtain st1 q where a: "fetch_assignment cf st pid n (the (mget as n)) = (st1, q)" by fastforce
  obtain st2 p where m: "fetch_message cf st1 (the (mget ts n)) = (st2, p)" by fastforce
  note A = fetch_assignment_spec [OF a assms] and M = fetch_message_reads [OF assms, of st1 "the (mget ts n)"]
  show "view (ck_node (fst (fetch_pair cf st pid as ts n))) = view (ck_node st)"
    using a m A(1) M by (auto simp: fetch_pair_def split: option.split)
  show "list_all (checked_assignment cf (view (ck_node st)) pid) (snd (fetch_pair cf st pid as ts n))"
    using a m A(2) by (auto simp: fetch_pair_def split: option.split)
qed

text \<open>The results so far, over any view of the database: it has not changed and they are checked against it.\<close>

definition so_far ::
  "('u, 'r, 'o) dl_cfg \<Rightarrow> (('r \<Rightarrow> keyspace) \<Rightarrow> keyspace) \<Rightarrow> string \<Rightarrow> ('u, 'r, 'o) ck_state \<Rightarrow> dl_result list \<Rightarrow> bool" where
  "so_far cf ks pid st rs \<longleftrightarrow>
     (\<forall>view. redis_ok (kc_redis cf) view \<longrightarrow>
        view (ck_node st) = ks view \<and> list_all (checked_assignment cf (ks view) pid) rs)"

lemma fetch_loop_spec:
  assumes "sint endNonce < 2 ^ 63 - 10" and "ascending lo (sint n - 1) (map dr_Nonce rs)" and "lo \<le> sint n"
    and "so_far cf ks pid st rs"
  shows "\<exists>st' rs'. fetch_loop cf pid as ts n endNonce st rs = Some (st', rs') \<and>
    ascending lo (max (sint n - 1) (sint endNonce)) (map dr_Nonce rs') \<and> so_far cf ks pid st' rs'"
  using assms(2-)
proof (induction "nat (sint endNonce - sint n + 1)" arbitrary: n st rs)
  case 0
  then have "\<not> n \<le>s endNonce" by (simp add: word_sle_eq)
  with 0 show ?case by (auto simp: fetch_loop.simps intro: ascending_mono)
next
  case (Suc d)
  then have le: "n \<le>s endNonce" by (simp add: word_sle_eq)
  have s: "sint (n + 1) = sint n + 1"
    using sint_plus_small [of n 1] Suc(2) assms(1) sint_ge [of n] by (simp add: word_sle_eq)
  then have d: "d = nat (sint endNonce - sint (n + 1) + 1)" using Suc(2) by simp
  let ?st = "fst (fetch_pair cf st pid as ts n)" and ?new = "snd (fetch_pair cf st pid as ts n)"
  have "?new = [] \<or> (\<exists>x. ?new = [x] \<and> dr_Nonce x = n)"
    using fetch_pair_length [of cf st pid as ts n] by (cases ?new) auto
  then have asc: "ascending lo (sint (n + 1) - 1) (map dr_Nonce (rs @ ?new))"
    using Suc.prems s ascending_mono [OF Suc.prems(1), of lo "sint n"] by (auto intro: ascending_snoc)
  have so: "so_far cf ks pid ?st (rs @ ?new)"
    using Suc.prems(3) fetch_pair_spec [of cf _ st pid as ts n] unfolding so_far_def by (metis list_all_append)
  have "lo \<le> sint (n + 1)" using Suc.prems s by simp
  from Suc(1) [OF d asc this so] obtain st' rs' where
    l: "fetch_loop cf pid as ts (n + 1) endNonce ?st (rs @ ?new) = Some (st', rs')"
    and r: "ascending lo (max (sint (n + 1) - 1) (sint endNonce)) (map dr_Nonce rs')" "so_far cf ks pid st' rs'" by blast
  have "max (sint (n + 1) - 1) (sint endNonce) = max (sint n - 1) (sint endNonce)"
    using le s by (simp add: word_sle_eq)
  with l le r show ?case by (simp add: fetch_loop.simps [of cf pid as ts n])
qed

text \<open>C21: every download ends, unless its range ends within ten of the largest nonce, and what it returns
  is a subsequence of the range: the nonces increase strictly between the first and the last asked
  for. With a Redis that answers as documented or fails, each assignment is either the entry that the node's own
  database holds for the process at that nonce, or an item whose signature has been verified and that decodes to an
  assignment.\<close>

theorem DownloadByPid_sound:
  assumes "sint endNonce < 2 ^ 63 - 10"
  shows "\<exists>st' r. DownloadByPid cf st pid beginNonce endNonce = Some (st', r) \<and>
    (\<forall>rs. r = Inr rs \<longrightarrow> ascending (sint beginNonce) (max (sint beginNonce - 1) (sint endNonce)) (map dr_Nonce rs) \<and>
       (\<forall>view. redis_ok (kc_redis cf) view \<longrightarrow> list_all (checked_assignment cf (view (ck_node st)) pid) rs))"
proof -
  have loop: "\<exists>st' r. downloadByNonce cf st1 scheduler pid beginNonce endNonce = Some (st', r) \<and>
    (\<forall>rs. r = Inr rs \<longrightarrow> ascending (sint beginNonce) (max (sint beginNonce - 1) (sint endNonce)) (map dr_Nonce rs) \<and>
       (\<forall>view. redis_ok (kc_redis cf) view \<longrightarrow> list_all (checked_assignment cf (view (ck_node st)) pid) rs))"
    if "ck_node st1 = ck_node st" for st1 scheduler
  proof -
    obtain o1 q where q: "queryByNonce cf (ck_op st1) scheduler pid beginNonce endNonce = Some (o1, q)"
      using query_loop_total [OF assms] unfolding queryByNonce_def by (metis surj_pair)
    show ?thesis
    proof (cases q)
      case Inl
      with q show ?thesis by (simp add: downloadByNonce_def)
    next
      case (Inr m)
      have "so_far cf (\<lambda>view. view (ck_node st)) pid (st1\<lparr>ck_op := o1\<rparr>) []" using that by (simp add: so_far_def)
      from fetch_loop_spec [OF assms _ _ this, of "sint beginNonce" beginNonce "fst m" "snd m"]
      obtain st' rs' where
        "fetch_loop cf pid (fst m) (snd m) beginNonce endNonce (st1\<lparr>ck_op := o1\<rparr>) [] = Some (st', rs')"
        "ascending (sint beginNonce) (max (sint beginNonce - 1) (sint endNonce)) (map dr_Nonce rs')"
        "so_far cf (\<lambda>view. view (ck_node st)) pid st' rs'" by auto
      with q Inr show ?thesis by (cases m) (simp add: downloadByNonce_def so_far_def)
    qed
  qed
  obtain st1 q where d: "downloadByTxid cf st pid = (st1, q)" by fastforce
  have "ck_node st1 = ck_node st" using downloadByTxid_node [of cf st pid] d by simp
  from loop [OF this] d show ?thesis by (auto simp: DownloadByPid_def split: sum.splits option.splits)
qed

text \<open>A download of two nonces: the first assignment is in the node's database, the second comes from the chain.\<close>

definition demo_chain_item :: "string \<Rightarrow> tag list \<Rightarrow> bundle_item" where
  "demo_chain_item i tags = \<lparr>item_Id = i, item_SignatureType = ArweaveSignType, item_Owner = ''w'', item_Target = [],
     item_Tags = tags, item_Data = []\<rparr>"

definition demo_chain :: "string \<Rightarrow> bundle_item" where
  "demo_chain i =
     (if i = ''p'' then demo_chain_item i [Tag ''Type'' ''Process'', Tag ''Scheduler'' ''n'']
      else if i = ''a1'' then demo_chain_item i [Tag ''Type'' ''Assignment'', Tag ''Process'' ''p'', Tag ''Nonce'' ''1'']
      else demo_chain_item i [Tag ''Type'' ''Message''])"

definition demo_edge :: "string \<Rightarrow> string \<Rightarrow> string \<Rightarrow> gql_edge" where
  "demo_edge i n m = \<lparr>edge_Cursor = [], edge_Id = i, edge_Tags = [Tag ''Nonce'' n, Tag ''Message'' m]\<rparr>"

definition demo_dl :: "(unit, keyspace \<times> nat list, unit) dl_cfg" where
  "demo_dl =
     \<lparr>kc_up = \<lparr>ur_get = (\<lambda>u _. (u, NilReply)), ur_lpop = (\<lambda>u _ _. (u, NilReply)), ur_llen = (\<lambda>u _. (u, Reply 0)),
        ur_scard = (\<lambda>u _. (u, Reply 0)), ur_smembers = (\<lambda>u _. (u, Reply [])), ur_sismember = (\<lambda>u _ _. (u, Reply False)),
        ur_sismembers = (\<lambda>u _ ids. (u, Reply (map (\<lambda>_. False) ids))), ur_exec = (\<lambda>u _. (u, None))\<rparr>,
      kc_redis = demo_redis, kc_codec = demo_codec, kc_binary = (\<lambda>_. Some []),
      kc_op_upload = (\<lambda>o1 _. (o1, Inl ''offline'')), kc_op_check = (\<lambda>o1 _. (o1, Inr False)),
      kc_op_download = (\<lambda>o1 i. (o1, Inr (demo_chain i))), kc_graphql = (\<lambda>o1 _. (o1, Inr [])),
      kc_lib = demo_lib, kc_json = (\<lambda>_. Some [demo_edge ''a0'' ''0'' ''m0'', demo_edge ''a1'' ''1'' ''m1''])\<rparr>"

definition demo_own :: bundle_item where
  "demo_own = demo_chain_item ''own'' [Tag ''Type'' ''Assignment'']"

definition demo_dl_keys :: keyspace where
  "demo_dl_keys = ks_cmd empty_keyspace (CRPush (RdbProcessAssignmentPrefix @ ''p'') (enc_item demo_codec demo_own))"

lemma demo_query:
  "queryByNonce demo_dl () ''w'' ''p'' 0 1 = Some ((), Inr ([(0, ''a0''), (1, ''a1'')], [(0, ''m0''), (1, ''m1'')]))"
proof -
  have p: "ParseInt ''0'' = Some 0" "ParseInt ''1'' = Some 1"
    by (simp_all add: ParseInt_def big_SetString_def parse_nat_def digit_val_def)
  have e: "edges_loop [demo_edge ''a0'' ''0'' ''m0'', demo_edge ''a1'' ''1'' ''m1''] ([], []) =
      ([(0, ''a0''), (1, ''a1'')], [(0, ''m0''), (1, ''m1'')])"
    by (simp add: demo_edge_def p)
  have be: "batch_end 0 1 = 1" by (simp add: batch_end_def word_sless_alt)
  have "nonce_values 0 1 [] = Some [quoted (FormatInt 0), quoted (FormatInt 1)]"
    by (simp add: nonce_values.simps [of 0] nonce_values.simps [of 1] nonce_values.simps [of 2] word_sle_eq)
  then have "queryBatch demo_dl () ''w'' ''p'' 0 2 = Some ((), Inr ([(0, ''a0''), (1, ''a1'')], [(0, ''m0''), (1, ''m1'')]))"
    by (simp add: queryBatch_def demo_dl_def e del: edges_loop.simps)
  then show ?thesis
    by (simp add: queryByNonce_def query_loop.simps [of _ _ _ 0] query_loop.simps [of _ _ _ 10] be word_sle_eq)
qed

lemma demo_download:
  "DownloadByPid demo_dl \<lparr>ck_up = (), ck_node = (demo_dl_keys, []), ck_op = ()\<rparr> ''p'' 0 1 =
     Some (\<lparr>ck_up = (), ck_node = (demo_dl_keys, []), ck_op = ()\<rparr>,
       Inr [\<lparr>dr_Nonce = 0, dr_Assignment = demo_own, dr_Message = demo_chain ''m0''\<rparr>,
         \<lparr>dr_Nonce = 1, dr_Assignment = demo_chain ''a1'', dr_Message = demo_chain ''m1''\<rparr>])"
proof -
  let ?st = "\<lparr>ck_up = (), ck_node = (demo_dl_keys, [] :: nat list), ck_op = ()\<rparr>"
  have dl: "downloadByTxid demo_dl ?st i = (?st, Inr (demo_chain i))" for i
    by (simp add: downloadByTxid_def demo_dl_def ck_GetCache_def ck_Cache_def)
  have keys: "ks_list demo_dl_keys (RdbProcessAssignmentPrefix @ ''p'') = [enc_item demo_codec demo_own]"
    "ks_hash demo_dl_keys k f = None" for k f
    by (simp_all add: demo_dl_keys_def empty_keyspace_def)
  have dec: "dec_item demo_codec (enc_item demo_codec demo_own) = Some demo_own" using demo_codec_ok by (simp add: codec_ok_def)
  have own: "GetAssignByNonce demo_redis demo_codec (demo_dl_keys, []) ''p'' 0 = ((demo_dl_keys, []), Inr (Some demo_own))"
    "GetAssignByNonce demo_redis demo_codec (demo_dl_keys, []) ''p'' 1 = ((demo_dl_keys, []), Inr None)"
    by (simp_all add: GetAssignByNonce_def list_item_def demo_redis_def keys lindex_of_def dec Let_def)
  have msg: "GetMessage demo_redis demo_codec (demo_dl_keys, []) i = ((demo_dl_keys, []), Inr None)" for i
    by (simp add: GetMessage_def demo_redis_def keys)
  have v: "ck_verifyMessage demo_lib (demo_chain ''p'') TypeProcess = None"
    "ck_verifyMessage demo_lib (demo_chain ''a1'') TypeAssignment = None"
    by (simp_all add: ck_verifyMessage_def demo_lib_def demo_chain_def demo_chain_item_def Decode_def item_signer_def
        GetType_def type_defs DecodeItemToProcess_def TagsToProcess_def DecodeItemToAssignment_def TagsToAssignment_def CheckDuplicateTag_def)
  have cf: "kc_redis demo_dl = demo_redis" "kc_codec demo_dl = demo_codec" "kc_lib demo_dl = demo_lib" by (simp_all add: demo_dl_def)
  have p0: "fetch_pair demo_dl ?st ''p'' [(0, ''a0''), (1, ''a1'')] [(0, ''m0''), (1, ''m1'')] 0 =
      (?st, [\<lparr>dr_Nonce = 0, dr_Assignment = demo_own, dr_Message = demo_chain ''m0''\<rparr>])"
    by (simp add: fetch_pair_def fetch_assignment_def fetch_message_def cf own(1) msg dl)
  have p1: "fetch_pair demo_dl ?st ''p'' [(0, ''a0''), (1, ''a1'')] [(0, ''m0''), (1, ''m1'')] 1 =
      (?st, [\<lparr>dr_Nonce = 1, dr_Assignment = demo_chain ''a1'', dr_Message = demo_chain ''m1''\<rparr>])"
    by (simp add: fetch_pair_def fetch_assignment_def fetch_message_def cf own(2) msg dl v)
  have o: "owner_to_address demo_lib (item_Owner (demo_chain ''p'')) = Some ''w''"
    by (simp add: demo_lib_def demo_chain_def demo_chain_item_def)
  show ?thesis
    by (simp add: DownloadByPid_def dl cf v o downloadByNonce_def demo_query fetch_loop.simps [of _ _ _ _ 0]
        fetch_loop.simps [of _ _ _ _ 1] fetch_loop.simps [of _ _ _ _ 2] word_sle_eq p0 p1)
qed

theorem DownloadByPid_sound_witness:
  "\<exists>st' d0 d1. DownloadByPid demo_dl \<lparr>ck_up = (), ck_node = (demo_dl_keys, []), ck_op = ()\<rparr> ''p'' 0 1 = Some (st', Inr [d0, d1]) \<and>
    ascending 0 1 (map dr_Nonce [d0, d1]) \<and> list_all (checked_assignment demo_dl demo_dl_keys ''p'') [d0, d1] \<and>
    own_assignment demo_dl demo_dl_keys ''p'' d0 \<and> \<not> own_assignment demo_dl demo_dl_keys ''p'' d1"
proof -
  let ?st = "\<lparr>ck_up = (), ck_node = (demo_dl_keys, [] :: nat list), ck_op = ()\<rparr>"
  have n: "sint (1 :: int64) < 2 ^ 63 - 10" by simp
  have ok: "redis_ok (kc_redis demo_dl) fst" using demo_redis_ok by (simp add: demo_dl_def)
  have own: "own_assignment demo_dl demo_dl_keys ''p'' \<lparr>dr_Nonce = 0, dr_Assignment = demo_own, dr_Message = m\<rparr>"
    "\<not> own_assignment demo_dl demo_dl_keys ''p'' \<lparr>dr_Nonce = 1, dr_Assignment = a, dr_Message = m\<rparr>" for a m
    using demo_codec_ok
    by (simp_all add: own_assignment_def demo_dl_keys_def empty_keyspace_def lindex_of_def Let_def demo_dl_def codec_ok_def)
  obtain st' r where s: "DownloadByPid demo_dl ?st ''p'' 0 1 = Some (st', r)"
    "\<And>rs. r = Inr rs \<Longrightarrow> ascending 0 1 (map dr_Nonce rs) \<and> list_all (checked_assignment demo_dl demo_dl_keys ''p'') rs"
    using DownloadByPid_sound [OF n, of demo_dl ?st "''p''" 0] ok by fastforce
  show ?thesis using s(1) s(2) [of "[_, _]"] own unfolding demo_download by fastforce
qed

end
