(* ===== verification/Recovery.thy ===== *)
theory Recovery
  imports NodeProps ModuleLoad ChainDownload
begin

text \<open>
  How a node brings a process back (node/checkpoint.go, recovery.go, replay.go, vm.go, handle.go):
  checkpoints are files signed as items, and the log of the process after the checkpoint is applied
  again. Parameters: the file system (\<open>'f\<close>), the JSON text of a snapshot, the signature of data, and
  what a failed \<open>json.Unmarshal\<close> leaves in an item. \<open>closed n\<close> says that the node has been closed
  when the loop comes to nonce \<open>n\<close>. A call that does not return is \<open>None\<close>.
\<close>

subsection \<open>State\<close>

datatype file_stat = FileExists | FileMissing | StatErr string

record 'f files =
  fl_stat :: "'f \<Rightarrow> string \<Rightarrow> 'f \<times> file_stat"
  fl_read :: "'f \<Rightarrow> string \<Rightarrow> 'f \<times> (string + string)"
  fl_mkdir :: "'f \<Rightarrow> string \<Rightarrow> 'f \<times> string option"
  fl_write :: "'f \<Rightarrow> string \<Rightarrow> string \<Rightarrow> 'f \<times> string option"

record ('s, 'r, 'h, 'u, 'o, 'f) rec_cfg = "('s, 'r, 'h) node_cfg" +
  rc_files :: "'f files"
  rc_codec :: snap_codec
  rc_enc_snap :: "snapshot \<Rightarrow> string"
  rc_dec_snap :: "string \<Rightarrow> snapshot option"
  rc_sign :: "string \<Rightarrow> signer"
  rc_partial :: "string \<Rightarrow> int64 \<Rightarrow> bundle_item"
  rc_chain :: "('u, 'r, 'o) dl_cfg option"

record ('s, 'r, 'h, 'u, 'o, 'f) rec_state = "('s, 'r, 'h) node_state" +
  rs_files :: 'f
  rs_up :: 'u
  rs_op :: 'o

subsection \<open>Checkpoints (checkpoint.go)\<close>

definition ckp_file :: "string \<Rightarrow> string" where
  "ckp_file itemId = filepath_Clean (''ckp/ckp-'' @ itemId @ ''.json'')"

definition LoadCheckpoint ::
  "('s, 'r, 'h, 'u, 'o, 'f) rec_cfg \<Rightarrow> 'f \<Rightarrow> string \<Rightarrow> 'f \<times> (sys_err + bundle_item)" where
  "LoadCheckpoint cf fs itemId =
     (case fl_stat (rc_files cf) fs (ckp_file itemId) of
        (fs1, FileMissing) \<Rightarrow> (fs1, Inl ErrNotFoundCkp)
      | (fs1, StatErr e) \<Rightarrow> (fs1, Inl (OtherErr e))
      | (fs1, FileExists) \<Rightarrow>
          (case fl_read (rc_files cf) fs1 (ckp_file itemId) of
             (fs2, Inl e) \<Rightarrow> (fs2, Inl (OtherErr e))
           | (fs2, Inr data) \<Rightarrow>
               (fs2, case dec_item (nc_codec cf) data of None \<Rightarrow> Inl json_err | Some item \<Rightarrow> Inr item)))"

definition Node_Restore ::
  "('s, 'r, 'h, 'u, 'o, 'f) rec_cfg \<Rightarrow> ('s, 'r, 'h, 'u, 'o, 'f) rec_state \<Rightarrow> string \<Rightarrow>
     ('s, 'r, 'h, 'u, 'o, 'f) rec_state \<times> (sys_err + int64)" where
  "Node_Restore cf st ckpId =
     (case LoadCheckpoint cf (rs_files st) ckpId of
        (fs, Inl e) \<Rightarrow> (st\<lparr>rs_files := fs\<rparr>, Inl e)
      | (fs, Inr ckpItem) \<Rightarrow>
     (let st1 = st\<lparr>rs_files := fs\<rparr> in
      case base64_decode (nc_lib cf) (item_Data ckpItem) of
        None \<Rightarrow> (st1, Inl (CodecErr ExtLibError))
      | Some by \<Rightarrow>
     (case rc_dec_snap cf by of
        None \<Rightarrow> (st1, Inl json_err)
      | Some snap \<Rightarrow>
     (case Vmm_Restore (nc_lib cf) (rc_codec cf) (nc_ops cf) (ns_vmm st1) snap of
        (v, Some e) \<Rightarrow> (st1\<lparr>ns_vmm := v\<rparr>, Inl e)
      | (v, None) \<Rightarrow> (st1\<lparr>ns_vmm := v\<rparr>, Inr (env_Nonce (snap_Env snap)))))))"

definition signCheckpoint :: "('s, 'r, 'h, 'u, 'o, 'f) rec_cfg \<Rightarrow> snapshot \<Rightarrow> sys_err + bundle_item" where
  "signCheckpoint cf snap =
     (case CheckpointToTags \<lparr>ckp_Base = DefaultBase TypeCheckpoint,
          ckp_Process = meta_Pid (env_Meta (snap_Env snap)), ckp_Nonce = FormatInt (env_Nonce (snap_Env snap))\<rparr> of
        (_, Some e) \<Rightarrow> Inl (CodecErr e)
      | (tags, None) \<Rightarrow>
          (case rc_sign cf (rc_enc_snap cf snap) [] [] tags of None \<Rightarrow> Inl sign_err | Some item \<Rightarrow> Inr item))"

definition Node_Checkpoint ::
  "('s, 'r, 'h, 'u, 'o, 'f) rec_cfg \<Rightarrow> ('s, 'r, 'h, 'u, 'o, 'f) rec_state \<Rightarrow> string \<Rightarrow> sys_err + bundle_item" where
  "Node_Checkpoint cf st pid =
     (case Vmm_Checkpoint (rc_codec cf) (nc_ops cf) (ns_vmm st) pid of
        Inl e \<Rightarrow> Inl e | Inr snap \<Rightarrow> signCheckpoint cf snap)"

definition write_checkpoint ::
  "('s, 'r, 'h, 'u, 'o, 'f) rec_cfg \<Rightarrow> 'f \<Rightarrow> bundle_item \<Rightarrow> 'f \<times> sys_err option" where
  "write_checkpoint cf fs item =
     (case fl_mkdir (rc_files cf) fs ''./ckp'' of
        (fs1, Some e) \<Rightarrow> (fs1, Some (OtherErr e))
      | (fs1, None) \<Rightarrow>
          (case fl_write (rc_files cf) fs1 (ckp_file (item_Id item)) (enc_item (nc_codec cf) item) of
             (fs2, e) \<Rightarrow> (fs2, map_option OtherErr e)))"

definition SaveCheckpoint ::
  "('s, 'r, 'h, 'u, 'o, 'f) rec_cfg \<Rightarrow> ('s, 'r, 'h, 'u, 'o, 'f) rec_state \<Rightarrow> string \<Rightarrow>
     ('s, 'r, 'h, 'u, 'o, 'f) rec_state \<times> sys_err option" where
  "SaveCheckpoint cf st pid =
     (case Node_Checkpoint cf st pid of
        Inl e \<Rightarrow> (st, Some e)
      | Inr item \<Rightarrow>
          (case write_checkpoint cf (rs_files st) item of
             (fs, Some e) \<Rightarrow> (st\<lparr>rs_files := fs\<rparr>, Some e)
           | (fs, None) \<Rightarrow>
               (case SaveCheckpointIndex (nc_redis cf) (ns_db st) pid (item_Id item) of
                  (db, e) \<Rightarrow> (st\<lparr>rs_files := fs, ns_db := db\<rparr>, e))))"

text \<open>One checkpoint after the other; a failure is logged.\<close>

definition runCheckpoint ::
  "('s, 'r, 'h, 'u, 'o, 'f) rec_cfg \<Rightarrow> ('s, 'r, 'h, 'u, 'o, 'f) rec_state \<Rightarrow> ('s, 'r, 'h, 'u, 'o, 'f) rec_state" where
  "runCheckpoint cf st = foldl (\<lambda>s pid. fst (SaveCheckpoint cf s pid)) st (GetVmPids (ns_vmm st))"

subsection \<open>Applying an item of a log (handle.go)\<close>

datatype handled =
    HandleErr sys_err
  | Applied "task_effect option"
  | Spawned "vmm_result list" "outbox_msg list"

definition HandleMode ::
  "('s, 'r, 'h) node_cfg \<Rightarrow> 's vmm \<Rightarrow> bundle_item \<Rightarrow> assignment \<Rightarrow> exec_mode \<Rightarrow> int64 \<Rightarrow> ('s vmm \<times> handled) option" where
  "HandleMode cf v item assign mode maxNonce =
     (case Decode (nc_lib cf) item of
        Inl e \<Rightarrow> Some (v, HandleErr (CodecErr e))
      | Inr (pid, accid, _, inst) \<Rightarrow>
          (case inst of
             IProcess p \<Rightarrow>
               (case applyProcess cf v pid accid item p mode maxNonce of
                  None \<Rightarrow> None
                | Some (v', Some e, _) \<Rightarrow> Some (v', HandleErr e)
                | Some (v', None, res, out) \<Rightarrow> Some (v', Spawned res out))
           | IMessage m \<Rightarrow>
               (case applyMessage cf v pid accid item m assign mode maxNonce of
                  (v', Inl e) \<Rightarrow> Some (v', HandleErr e)
                | (v', Inr eff) \<Rightarrow> Some (v', Applied eff))
           | IAssignment _ \<Rightarrow> Some (v, HandleErr ErrInvalidType)))"

subsection \<open>Recovery (recovery.go)\<close>

text \<open>The pointer a read of the database returns: an item that does not parse is returned with its error.\<close>

definition item_ptr :: "bundle_item \<Rightarrow> sys_err + bundle_item option \<Rightarrow> bundle_item option" where
  "item_ptr partial q = (case q of Inr x \<Rightarrow> x | Inl e \<Rightarrow> if e = json_err then Some partial else None)"

definition chain_error :: "string \<Rightarrow> sys_err" where "chain_error e = OtherErr e"

definition getMessageAndAssignByNonce ::
  "('s, 'r, 'h, 'u, 'o, 'f) rec_cfg \<Rightarrow> ('s, 'r, 'h, 'u, 'o, 'f) rec_state \<Rightarrow> string \<Rightarrow> int64 \<Rightarrow>
     (('s, 'r, 'h, 'u, 'o, 'f) rec_state \<times> (sys_err + bundle_item option \<times> bundle_item option)) option" where
  "getMessageAndAssignByNonce cf st pid nonce =
     (case GetMessageByNonce (nc_redis cf) (nc_codec cf) (ns_db st) pid nonce of (db1, r1) \<Rightarrow>
      case GetAssignByNonce (nc_redis cf) (nc_codec cf) db1 pid nonce of (db2, r2) \<Rightarrow>
      let st2 = st\<lparr>ns_db := db2\<rparr>;
          msgItem = item_ptr (rc_partial cf (RdbProcessMsgsPrefix @ pid) nonce) r1;
          assignItem = item_ptr (rc_partial cf (RdbProcessAssignmentPrefix @ pid) nonce) r2
      in if \<not> is_err r1 \<or> \<not> is_err r2 \<or> msgItem \<noteq> None \<or> assignItem \<noteq> None
         then Some (st2, Inr (msgItem, assignItem))
         else (case rc_chain cf of
             None \<Rightarrow> Some (st2, Inl (OtherErr ''chainkit is nil''))
           | Some ck \<Rightarrow>
               (case DownloadByPid ck \<lparr>ck_up = rs_up st2, ck_node = ns_db st2, ck_op = rs_op st2\<rparr> pid nonce nonce of
                  None \<Rightarrow> None
                | Some (c, r) \<Rightarrow>
                    Some (st2\<lparr>rs_up := ck_up c, ns_db := ck_node c, rs_op := ck_op c\<rparr>,
                      case r of
                        Inl e \<Rightarrow> Inl (chain_error e)
                      | Inr [] \<Rightarrow> Inl index_panic
                      | Inr (d # _) \<Rightarrow> Inr (Some (dr_Message d), Some (dr_Assignment d))))))"

text \<open>One turn of the loop. The assignment is read before the message is dereferenced.\<close>

definition rec_step ::
  "('s, 'r, 'h, 'u, 'o, 'f) rec_cfg \<Rightarrow> ('s, 'r, 'h, 'u, 'o, 'f) rec_state \<Rightarrow> string \<Rightarrow> int64 \<Rightarrow> exec_mode \<Rightarrow> int64 \<Rightarrow>
     (('s, 'r, 'h, 'u, 'o, 'f) rec_state \<times> (sys_err + handled)) option" where
  "rec_step cf st pid nonce mode maxNonce =
     (case getMessageAndAssignByNonce cf st pid nonce of
        None \<Rightarrow> None
      | Some (st1, Inl e) \<Rightarrow> Some (st1, Inl e)
      | Some (st1, Inr (_, None)) \<Rightarrow> Some (st1, Inl nil_panic)
      | Some (st1, Inr (msg, Some assignItem)) \<Rightarrow>
          (case TagsToAssignment (item_Tags assignItem) of
             Inl e \<Rightarrow> Some (st1, Inl (CodecErr e))
           | Inr assign \<Rightarrow>
               (case msg of
                  None \<Rightarrow> Some (st1, Inl nil_panic)
                | Some m \<Rightarrow>
                    (case HandleMode (node_cfg.truncate cf) (ns_vmm st1) m assign mode maxNonce of
                       None \<Rightarrow> None
                     | Some (v, h) \<Rightarrow> Some (st1\<lparr>ns_vmm := v\<rparr>, Inr h)))))"

partial_function (option) rec_loop ::
  "('s, 'r, 'h, 'u, 'o, 'f) rec_cfg \<Rightarrow> (int64 \<Rightarrow> bool) \<Rightarrow> string \<Rightarrow> exec_mode \<Rightarrow> int64 \<Rightarrow> int64 \<Rightarrow>
     ('s, 'r, 'h, 'u, 'o, 'f) rec_state \<Rightarrow> handled list \<Rightarrow>
     (('s, 'r, 'h, 'u, 'o, 'f) rec_state \<times> handled list \<times> sys_err option) option" where
  "rec_loop cf closed pid mode maxNonce nonce st tr =
     (if \<not> nonce \<le>s maxNonce then Some (st, tr, None)
      else if closed nonce then Some (st, tr, Some (OtherErr ''node closed''))
      else
        (case rec_step cf st pid nonce mode maxNonce of
           None \<Rightarrow> None
         | Some (st1, r) \<Rightarrow>
             (case r of
                Inl e \<Rightarrow> Some (st1, tr, Some e)
              | Inr h \<Rightarrow> rec_loop cf closed pid mode maxNonce (nonce + 1) st1 (tr @ [h]))))"

definition recoveryProcess ::
  "('s, 'r, 'h, 'u, 'o, 'f) rec_cfg \<Rightarrow> (int64 \<Rightarrow> bool) \<Rightarrow> ('s, 'r, 'h, 'u, 'o, 'f) rec_state \<Rightarrow>
     string \<Rightarrow> int64 \<Rightarrow> string \<Rightarrow> exec_mode \<Rightarrow>
     (('s, 'r, 'h, 'u, 'o, 'f) rec_state \<times> handled list \<times> sys_err option) option" where
  "recoveryProcess cf closed st pid maxNonce ckpId mode =
     (if IsRecovering (ns_vmm st) pid then Some (st, [], Some ErrProcessIsRecovering)
      else case Node_Restore cf (st\<lparr>ns_vmm := RecoveryLock (ns_vmm st) pid\<rparr>) ckpId of
        (st1, Inl _) \<Rightarrow> rec_loop cf closed pid mode maxNonce 0 st1 []
      | (st1, Inr nonce) \<Rightarrow>
          if nonce = maxNonce then Some (st1\<lparr>ns_vmm := RecoveryUnlock (ns_vmm st1) pid\<rparr>, [], None)
          else rec_loop cf closed pid mode maxNonce (nonce + 1) st1 [])"

subsection \<open>Stopping and resuming a process (vm.go)\<close>

definition Node_stop ::
  "('s, 'r, 'h, 'u, 'o, 'f) rec_cfg \<Rightarrow> ('s, 'r, 'h, 'u, 'o, 'f) rec_state \<Rightarrow> string \<Rightarrow> bool \<Rightarrow>
     ('s, 'r, 'h, 'u, 'o, 'f) rec_state \<times> sys_err option" where
  "Node_stop cf st pid checkpoint =
     (if isCore (node_state.truncate st) pid then (st, Some ErrCoreProcessCannotStop)
      else if IsRecovering (ns_vmm st) pid then (st, Some ErrProcessIsRecovering)
      else if \<not> isRegistered (node_state.truncate st) pid then (st, Some ErrProcessNotFound)
      else if \<not> Vmm_IsExists (ns_vmm st) pid then (st, Some ErrProcessStopped)
      else case (if checkpoint then SaveCheckpoint cf st pid else (st, None)) of
        (st1, Some e) \<Rightarrow> (st1, Some e)
      | (st1, None) \<Rightarrow>
          (case Vmm_Kill (nc_ops cf) (ns_vmm st1) pid of (v, e) \<Rightarrow> (st1\<lparr>ns_vmm := v\<rparr>, e)))"

definition Node_Stop where "Node_Stop cf st pid = Node_stop cf st pid False"
definition Node_StopWithCheckpoint where "Node_StopWithCheckpoint cf st pid = Node_stop cf st pid True"

definition Node_Resume ::
  "('s, 'r, 'h, 'u, 'o, 'f) rec_cfg \<Rightarrow> (int64 \<Rightarrow> bool) \<Rightarrow> ('s, 'r, 'h, 'u, 'o, 'f) rec_state \<Rightarrow> string \<Rightarrow>
     (('s, 'r, 'h, 'u, 'o, 'f) rec_state \<times> handled list \<times> sys_err option) option" where
  "Node_Resume cf closed st pid =
     (if Vmm_IsExists (ns_vmm st) pid then Some (st, [], Some ErrProcessAlreadyExists)
      else if \<not> isRegistered (node_state.truncate st) pid then Some (st, [], Some ErrProcessNotFound)
      else case GetNonce (nc_redis cf) (ns_db st) pid of
        (db1, Inl e) \<Rightarrow> Some (st\<lparr>ns_db := db1\<rparr>, [], Some e)
      | (db1, Inr maxNonce) \<Rightarrow>
          (case GetCheckpointIndex (nc_redis cf) db1 pid of
             (db2, r) \<Rightarrow>
               recoveryProcess cf closed (st\<lparr>ns_db := db2\<rparr>) pid maxNonce
                 (case r of Inl _ \<Rightarrow> [] | Inr ckpId \<Rightarrow> ckpId) ExecModeDryRun))"

end
