(* ===== verification/RecoveryProps.thy ===== *)
theory RecoveryProps
  imports Recovery VmmProps
begin

text \<open>
  What recovery does: with a complete log it is the log's tail applied to the checkpoint
  (\<open>replay_items\<close>), so a process comes back in the state it had; and the ways in which it leaves the
  recovery lock set.
\<close>

subsection \<open>Recovery as a fold over the log\<close>

fun replay_items ::
  "('s, 'r, 'h) node_cfg \<Rightarrow> exec_mode \<Rightarrow> int64 \<Rightarrow> 's vmm \<Rightarrow> (bundle_item \<times> bundle_item) list \<Rightarrow>
     ('s vmm \<times> handled list \<times> sys_err option) option" where
  "replay_items cf mode mx v [] = Some (v, [], None)"
| "replay_items cf mode mx v ((m, a) # xs) =
     (case TagsToAssignment (item_Tags a) of
        Inl e \<Rightarrow> Some (v, [], Some (CodecErr e))
      | Inr asg \<Rightarrow>
          (case HandleMode cf v m asg mode mx of
             None \<Rightarrow> None
           | Some (v1, h) \<Rightarrow>
               (case replay_items cf mode mx v1 xs of
                  None \<Rightarrow> None
                | Some (v2, hs, e) \<Rightarrow> Some (v2, h # hs, e))))"

definition log_pairs :: "entry list \<Rightarrow> string \<Rightarrow> (bundle_item \<times> bundle_item) list" where
  "log_pairs es pid = zip (items_of es pid) (assigns_of es pid)"

lemma length_assigns [simp]: "length (assigns_of es p) = length (items_of es p)"
  by (simp add: assigns_of_def items_of_def)

lemma length_log_pairs [simp]: "length (log_pairs es p) = length (items_of es p)"
  by (simp add: log_pairs_def)

text \<open>With Redis up the entries of the two lists are read, and never downloaded.\<close>

definition lists_are ::
  "('s, 'r, 'h, 'u, 'o, 'f) rec_cfg \<Rightarrow> keyspace \<Rightarrow> string \<Rightarrow> bundle_item list \<Rightarrow> bundle_item list \<Rightarrow> bool" where
  "lists_are cf ks pid its ass \<longleftrightarrow>
     ks_list ks (RdbProcessMsgsPrefix @ pid) = map (enc_item (nc_codec cf)) its \<and>
     ks_list ks (RdbProcessAssignmentPrefix @ pid) = map (enc_item (nc_codec cf)) ass"

definition nth_item :: "bundle_item list \<Rightarrow> nat \<Rightarrow> bundle_item option" where
  "nth_item xs n = (if n < length xs then Some (xs ! n) else None)"

definition redis_good :: "('s, 'r, 'h, 'u, 'o, 'f) rec_cfg \<Rightarrow> ('r \<Rightarrow> keyspace) \<Rightarrow> bool" where
  "redis_good cf view \<longleftrightarrow> redis_ok (nc_redis cf) view \<and> redis_up (nc_redis cf) \<and> codec_ok (nc_codec cf)"

lemma get_pair_log:
  assumes "redis_good cf view" and l: "lists_are cf (view (ns_db st)) pid its ass" and n: "n < 2 ^ 63"
  shows "\<exists>db. view db = view (ns_db st) \<and>
    getMessageAndAssignByNonce cf st pid (of_nat n) = Some (st\<lparr>ns_db := db\<rparr>, Inr (nth_item its n, nth_item ass n))"
proof -
  note ok = assms(1) [unfolded redis_good_def, THEN conjunct1] assms(1) [unfolded redis_good_def, THEN conjunct2, THEN conjunct1]
    assms(1) [unfolded redis_good_def, THEN conjunct2, THEN conjunct2]
  note k = l [unfolded lists_are_def, THEN conjunct1] l [unfolded lists_are_def, THEN conjunct2]
  obtain db1 r1 where 1: "GetMessageByNonce (nc_redis cf) (nc_codec cf) (ns_db st) pid (of_nat n) = (db1, r1)" by fastforce
  note l1 = list_item_log [OF ok k(1) n, folded GetMessageByNonce_def, unfolded 1]
  obtain db2 r2 where 2: "GetAssignByNonce (nc_redis cf) (nc_codec cf) db1 pid (of_nat n) = (db2, r2)" by fastforce
  have k2: "ks_list (view db1) (RdbProcessAssignmentPrefix @ pid) = map (enc_item (nc_codec cf)) ass"
    using l1(1) k(2) by simp
  note l2 = list_item_log [OF ok k2 n, folded GetAssignByNonce_def, unfolded 2]
  from l1 l2 show ?thesis
    by (intro exI [of _ db2]) (auto simp: getMessageAndAssignByNonce_def 1 2 item_ptr_def nth_item_def Let_def)
qed

lemma of_nat_sle:
  assumes "a < 2 ^ 63" "b < 2 ^ 63" shows "(of_nat a :: int64) \<le>s of_nat b \<longleftrightarrow> a \<le> b"
  using assms by (simp only: word_sle_eq sint_small) simp

text \<open>The loop over a part of the lists, and what comes after it.\<close>

lemma rec_loop_part:
  assumes ok: "redis_good cf view" and l: "lists_are cf (view (ns_db st)) pid its ass"
    and len: "M \<le> length its" "M \<le> length ass" "M \<le> Suc N" "Suc N < 2 ^ 63" and n: "n \<le> M"
    and opn: "\<And>k. \<not> closed k"
  shows "\<exists>db. view db = view (ns_db st) \<and>
    rec_loop cf closed pid mode (of_nat N) (of_nat n) st tr =
      (case replay_items (node_cfg.truncate cf) mode (of_nat N) (ns_vmm st) (drop n (zip (take M its) (take M ass))) of
         None \<Rightarrow> None
       | Some (v, hs, Some e) \<Rightarrow> Some (st\<lparr>ns_db := db, ns_vmm := v\<rparr>, tr @ hs, Some e)
       | Some (v, hs, None) \<Rightarrow>
           rec_loop cf closed pid mode (of_nat N) (of_nat M) (st\<lparr>ns_db := db, ns_vmm := v\<rparr>) (tr @ hs))"
  using n l
proof (induction "M - n" arbitrary: n st tr)
  case 0
  then have n: "n = M" by simp
  then show ?case by (intro exI [of _ "ns_db st"]) simp
next
  case (Suc d)
  then have le: "n < M" "n \<le> N" using len(3) by auto
  have nl: "n < 2 ^ 63" using le(2) len(4) by simp
  have sle: "(of_nat n :: int64) \<le>s of_nat N" using of_nat_sle [of n N] le(2) len(4) by simp
  let ?m = "its ! n" and ?a = "ass ! n" and ?xs = "zip (take M its) (take M ass)"
  have nth: "nth_item its n = Some ?m" "nth_item ass n = Some ?a" using le(1) len(1,2) by (auto simp: nth_item_def)
  have dr: "drop n ?xs = (?m, ?a) # drop (Suc n) ?xs"
    using le(1) len(1,2) by (simp add: Cons_nth_drop_Suc [symmetric])
  obtain db where db: "view db = view (ns_db st)" and g: "getMessageAndAssignByNonce cf st pid (of_nat n) =
      Some (st\<lparr>ns_db := db\<rparr>, Inr (Some ?m, Some ?a))"
    using get_pair_log [OF ok Suc.prems(2) nl] unfolding nth by blast
  note unf = rec_loop.simps [of cf closed pid mode "of_nat N" "of_nat n" st tr]
  show ?case
  proof (cases "TagsToAssignment (item_Tags ?a)")
    case (Inl e)
    with g sle opn db show ?thesis by (intro exI [of _ db]) (simp add: unf dr rec_step_def)
  next
    case (Inr asg)
    show ?thesis
    proof (cases "HandleMode (node_cfg.truncate cf) (ns_vmm st) ?m asg mode (of_nat N)")
      case None
      with g sle opn Inr show ?thesis by (intro exI [of _ "ns_db st"]) (simp add: unf dr rec_step_def)
    next
      case (Some q)
      obtain v h where q: "q = (v, h)" by fastforce
      let ?st = "st\<lparr>ns_db := db, ns_vmm := v\<rparr>"
      have d: "d = M - Suc n" "Suc n \<le> M" using Suc(2) le by auto
      have l': "lists_are cf (view (ns_db ?st)) pid its ass" using Suc.prems(2) db by simp
      from Suc.hyps(1) [OF d(1) d(2) l', of "tr @ [h]"] obtain db2 where db2: "view db2 = view db"
        and loop: "rec_loop cf closed pid mode (of_nat N) (of_nat (Suc n)) ?st (tr @ [h]) =
          (case replay_items (node_cfg.truncate cf) mode (of_nat N) v (drop (Suc n) ?xs) of
             None \<Rightarrow> None
           | Some (v, hs, Some e) \<Rightarrow> Some (?st\<lparr>ns_db := db2, ns_vmm := v\<rparr>, (tr @ [h]) @ hs, Some e)
           | Some (v, hs, None) \<Rightarrow>
               rec_loop cf closed pid mode (of_nat N) (of_nat M) (?st\<lparr>ns_db := db2, ns_vmm := v\<rparr>) ((tr @ [h]) @ hs))"
        by auto
      have "rec_loop cf closed pid mode (of_nat N) (of_nat n) st tr =
          rec_loop cf closed pid mode (of_nat N) (of_nat (Suc n)) ?st (tr @ [h])"
        using g sle opn Inr Some q by (simp add: unf add.commute rec_step_def)
      with loop db db2 Inr Some q show ?thesis
        by (intro exI [of _ db2]) (simp add: dr split: option.splits prod.splits)
    qed
  qed
qed

lemma log_lists: "log_ok (nc_codec cf) ks es \<Longrightarrow> lists_are cf ks pid (items_of es pid) (assigns_of es pid)"
  by (simp add: log_ok_def lists_are_def)

lemma rec_loop_log:
  assumes ok: "redis_good cf view" and log: "log_ok (nc_codec cf) (view (ns_db st)) es"
    and len: "Suc N \<le> length (items_of es pid)" "Suc N < 2 ^ 63" and n: "n \<le> Suc N" and opn: "\<And>k. \<not> closed k"
  shows "\<exists>db. view db = view (ns_db st) \<and>
    rec_loop cf closed pid mode (of_nat N) (of_nat n) st tr =
      (case replay_items (node_cfg.truncate cf) mode (of_nat N) (ns_vmm st) (drop n (take (Suc N) (log_pairs es pid))) of
         None \<Rightarrow> None
       | Some (v, hs, e) \<Rightarrow> Some (st\<lparr>ns_db := db, ns_vmm := v\<rparr>, tr @ hs, e))"
proof -
  have sl: "\<not> (of_nat (Suc N) :: int64) \<le>s of_nat N" using of_nat_sle [of "Suc N" N] len(2) by simp
  have fin: "rec_loop cf closed pid mode (of_nat N) (of_nat (Suc N)) s t = Some (s, t, None)" for s t
    using sl unfolding rec_loop.simps [of cf closed pid mode "of_nat N" "of_nat (Suc N)"] by simp
  have M: "Suc N \<le> length (items_of es pid)" "Suc N \<le> length (assigns_of es pid)" using len by auto
  have t: "zip (take (Suc N) (items_of es pid)) (take (Suc N) (assigns_of es pid)) = take (Suc N) (log_pairs es pid)"
    by (simp add: log_pairs_def take_zip)
  from rec_loop_part [OF ok log_lists [OF log] M order_refl len(2) n, of closed mode tr] opn
  obtain db where db: "view db = view (ns_db st)" and
    r: "rec_loop cf closed pid mode (of_nat N) (of_nat n) st tr =
      (case replay_items (node_cfg.truncate cf) mode (of_nat N) (ns_vmm st) (drop n (take (Suc N) (log_pairs es pid))) of
         None \<Rightarrow> None
       | Some (v, hs, Some e) \<Rightarrow> Some (st\<lparr>ns_db := db, ns_vmm := v\<rparr>, tr @ hs, Some e)
       | Some (v, hs, None) \<Rightarrow> Some (st\<lparr>ns_db := db, ns_vmm := v\<rparr>, tr @ hs, None))"
    unfolding t fin by auto
  have "(case q of None \<Rightarrow> None | Some (v, hs, Some e) \<Rightarrow> Some (f v, tr @ hs, Some e)
       | Some (v, hs, None) \<Rightarrow> Some (f v, tr @ hs, None)) =
      (case q of None \<Rightarrow> None | Some (v, hs, e) \<Rightarrow> Some (f v, tr @ hs, e))" for q :: "('a vmm \<times> handled list \<times> sys_err option) option" and f
    by (auto split: option.splits)
  with db r show ?thesis by (intro exI [of _ db]) simp
qed

subsection \<open>The messages of a log\<close>

text \<open>What the manager is given for an item of the log and its assignment; \<open>None\<close> when the item is no
  message or does not parse.\<close>

definition logged_meta :: "extlib \<Rightarrow> exec_mode \<Rightarrow> int64 \<Rightarrow> bundle_item \<times> bundle_item \<Rightarrow> meta option" where
  "logged_meta lib mode mx ma =
     (case (TagsToAssignment (item_Tags (snd ma)), Decode lib (fst ma)) of
        (Inr asg, Inr (pid, accid, _, IMessage m)) \<Rightarrow>
          (case (ParseInt (asg_Nonce asg), ParseInt (asg_Timestamp asg), TagsToParams (msg_Tags m),
                 if msg_Sequence m = [] then Some 0 else ParseInt (msg_Sequence m)) of
             (Some nonce, Some timestamp, Inr params, Some sequence) \<Rightarrow>
               Some \<lparr>meta_ItemId = item_Id (fst ma), meta_Pid = pid, meta_AccId = accid, meta_Action = msg_Action m,
                 meta_FromProcess = msg_FromProcess m, meta_PushedFor = msg_PushedFor m,
                 meta_Sequence = sequence, meta_Nonce = nonce, meta_Timestamp = timestamp,
                 meta_Params = params, meta_Data = item_Data (fst ma), meta_Mode = mode,
                 meta_RecoveryMaxNonce = mx\<rparr>
           | _ \<Rightarrow> None)
      | _ \<Rightarrow> None)"

lemma replay_items_meta:
  assumes "logged_meta (nc_lib cf) mode mx (m, a) = Some mt"
    and "Vmm_Apply (nc_lib cf) (nc_ops cf) (nc_cryptor cf) v mt = (v', eff)"
  shows "replay_items cf mode mx v ((m, a) # xs) =
    (case replay_items cf mode mx v' xs of None \<Rightarrow> None | Some (v2, hs, e) \<Rightarrow> Some (v2, Applied eff # hs, e))"
  using assms
  by (auto simp: logged_meta_def HandleMode_def applyMessage_def split: sum.splits option.splits prod.splits
      instance_val.splits if_splits)

lemma logged_meta_mode:
  "logged_meta lib mode mx ma = Some mt \<Longrightarrow> meta_Mode mt = mode \<and> meta_RecoveryMaxNonce mt = mx"
  by (auto simp: logged_meta_def split: sum.splits option.splits prod.splits instance_val.splits if_splits)

lemma logged_meta_change:
  "logged_meta lib mode mx ma = map_option (\<lambda>mt. mt\<lparr>meta_Mode := mode, meta_RecoveryMaxNonce := mx\<rparr>)
     (logged_meta lib mode' mx' ma)"
  by (auto simp: logged_meta_def split: sum.splits option.splits prod.splits instance_val.splits if_splits)

text \<open>What an operation on one process leaves alone: the machines, environments and locks of the others.\<close>

definition kept :: "'s vmm \<Rightarrow> 's vmm \<Rightarrow> string \<Rightarrow> bool" where
  "kept v v' pid \<longleftrightarrow>
     (\<forall>q. q \<noteq> pid \<longrightarrow> machine v' q = machine v q \<and> (IsRecovering v' q \<longleftrightarrow> IsRecovering v q)) \<and> v_factors v' = v_factors v"

lemma kept_refl [simp]: "kept v v pid"
  by (simp add: kept_def)

lemma kept_trans: "kept v v1 pid \<Longrightarrow> kept v1 v2 pid \<Longrightarrow> kept v v2 pid"
  by (simp add: kept_def)

lemma kept_machine: "kept v v' pid \<Longrightarrow> q \<noteq> pid \<Longrightarrow> machine v' q = machine v q"
  by (simp add: kept_def)

text \<open>The pointers of the manager to its core machines are used by a process each.\<close>

definition slots_used :: "'s vmm \<Rightarrow> bool" where
  "slots_used v \<longleftrightarrow>
     (v_token v \<noteq> None \<longrightarrow> (\<exists>q ob env. machine v q = Some (ob, env) \<and> is_token ob)) \<and>
     (v_registry v \<noteq> None \<longrightarrow> (\<exists>q ob env. machine v q = Some (ob, env) \<and> is_registry ob))"

lemma slots_used_kept:
  assumes "slots_used v" and "kept v v' pid" and "v_token v' = v_token v" "v_registry v' = v_registry v"
    and "machine v pid = Some (ob, env)" "machine v' pid = Some (ob', env')"
    and "is_token ob' = is_token ob" "is_registry ob' = is_registry ob"
  shows "slots_used v'"
proof -
  have m: "machine v' q = (if q = pid then Some (ob', env') else machine v q)" for q
    using assms(2,6) by (simp add: kept_def)
  have "\<exists>ob2 env2. machine v' q = Some (ob2, env2) \<and> is_token ob2 = is_token ob1 \<and> is_registry ob2 = is_registry ob1"
    if "machine v q = Some (ob1, env1)" for q ob1 env1
    using that assms(5,7,8) m by (cases "q = pid") auto
  with assms(1,3,4) show ?thesis unfolding slots_used_def by metis
qed

text \<open>One message of a running process.\<close>

lemma Vmm_Apply_machine:
  assumes wf: "vmm_wf v" and up: "\<not> v_closed v" and mc: "machine v (meta_Pid m) = Some (ob, env)"
    and ap: "Vmm_apply (obj_apply lib ops) c (ob, env) m = ((ob', env'), eff)"
  shows "\<exists>v'. Vmm_Apply lib ops c v m = (v', Some eff) \<and> vmm_wf v' \<and> \<not> v_closed v' \<and>
    machine v' (meta_Pid m) = Some (ob', env') \<and>
    v_recoveryLock v' = (if te_unlock eff then mdel (meta_Pid m) (v_recoveryLock v) else v_recoveryLock v) \<and>
    kept v v' (meta_Pid m) \<and> v_token v' = v_token v \<and> v_registry v' = v_registry v"
proof -
  obtain i where i: "mget (v_vms v) (meta_Pid m) = Some i" "v_objs v ! inst_vm i = ob" "inst_env i = env"
    using mc by (auto simp: machine_def)
  have len: "inst_vm i < length (v_objs v)" using vmm_wf_D(6) [OF wf i(1)] .
  have gi: "getInstance v (meta_Pid m) = Inr i" using up i(1) by (simp add: getInstance_def)
  obtain v' e where v': "Vmm_Apply lib ops c v m = (v', e)" by fastforce
  have "vmm_wf v'" using Vmm_Apply_wf [OF wf, of lib ops c m] v' by simp
  moreover have "\<forall>q. q \<noteq> meta_Pid m \<longrightarrow> machine v' q = machine v q" using Vmm_Apply_other [OF wf v'] by auto
  ultimately show ?thesis using v' gi i len ap up
    by (intro exI [of _ v']) (auto simp: Vmm_Apply_def Let_def machine_def RecoveryUnlock_def kept_def IsRecovering_def)
qed

lemma Vmm_apply_kind:
  "Vmm_apply (obj_apply lib ops) c (ob, env) m = ((ob', env'), eff) \<Longrightarrow>
   is_token ob' = is_token ob \<and> is_registry ob' = is_registry ob"
  by (auto simp: Vmm_apply_def case_prod_beta Let_def obj_kind split: sum.splits)

lemma te_unlock_apply:
  "Vmm_apply ap c st m = (st', eff) \<Longrightarrow>
   te_unlock eff \<longleftrightarrow> meta_Mode m \<noteq> ExecModeApply \<and> meta_Nonce m = meta_RecoveryMaxNonce m"
  by (cases st) (auto simp: Vmm_apply_def Let_def finish_task_def split: prod.splits sum.splits)

lemma RecoveryUnlock_reads [simp]:
  "machine (RecoveryUnlock v p) q = machine v q" "v_closed (RecoveryUnlock v p) = v_closed v"
  "IsRecovering (RecoveryUnlock v p) q \<longleftrightarrow> q \<noteq> p \<and> IsRecovering v q"
  "machine (RecoveryLock v p) q = machine v q" "v_closed (RecoveryLock v p) = v_closed v"
  "IsRecovering (RecoveryLock v p) q \<longleftrightarrow> q = p \<or> IsRecovering v q"
  by (auto simp: machine_def RecoveryUnlock_def RecoveryLock_def IsRecovering_def split: option.splits)

text \<open>A part of a log whose items are messages of the process is applied in order.\<close>

lemma replay_items_run:
  assumes "vmm_wf v" "\<not> v_closed v" "machine v pid = Some (ob, env)"
    and "map (logged_meta (nc_lib cf) mode mx) xs = map Some ms" and "\<forall>m \<in> set ms. meta_Pid m = pid"
    and "mode \<noteq> ExecModeApply"
    and "Vmm_run (obj_apply (nc_lib cf) (nc_ops cf)) (nc_cryptor cf) (ob, env) ms = ((ob', env'), effs)"
  shows "\<exists>v'. replay_items cf mode mx v xs = Some (v', map (\<lambda>e. Applied (Some e)) effs, None) \<and>
    vmm_wf v' \<and> \<not> v_closed v' \<and> machine v' pid = Some (ob', env') \<and>
    (IsRecovering v' pid \<longleftrightarrow> IsRecovering v pid \<and> (\<forall>m \<in> set ms. meta_Nonce m \<noteq> mx)) \<and>
    kept v v' pid \<and> (slots_used v \<longrightarrow> slots_used v')"
  using assms(1-5,7)
proof (induction ms arbitrary: v ob env xs effs)
  case Nil
  then show ?case by simp
next
  case (Cons mt ms)
  from Cons.prems(4) obtain m a ys where xs: "xs = (m, a) # ys"
    and mt: "logged_meta (nc_lib cf) mode mx (m, a) = Some mt"
    and ys: "map (logged_meta (nc_lib cf) mode mx) ys = map Some ms" by (cases xs) auto
  from Cons.prems(6) obtain ob1 env1 eff effs1 where
    ap: "Vmm_apply (obj_apply (nc_lib cf) (nc_ops cf)) (nc_cryptor cf) (ob, env) mt = ((ob1, env1), eff)"
    and run: "Vmm_run (obj_apply (nc_lib cf) (nc_ops cf)) (nc_cryptor cf) (ob1, env1) ms = ((ob', env'), effs1)"
    and effs: "effs = eff # effs1" by (rule Vmm_run_Cons)
  have pid: "meta_Pid mt = pid" using Cons.prems(5) by simp
  have unl: "te_unlock eff \<longleftrightarrow> meta_Nonce mt = mx"
    using te_unlock_apply [OF ap] logged_meta_mode [OF mt] assms(6) by simp
  from Vmm_Apply_machine [OF Cons.prems(1,2) _ ap] Cons.prems(3) pid obtain v1 where
    v1: "Vmm_Apply (nc_lib cf) (nc_ops cf) (nc_cryptor cf) v mt = (v1, Some eff)" "vmm_wf v1" "\<not> v_closed v1"
      "machine v1 pid = Some (ob1, env1)"
      "v_recoveryLock v1 = (if te_unlock eff then mdel pid (v_recoveryLock v) else v_recoveryLock v)"
      "kept v v1 pid" "v_token v1 = v_token v" "v_registry v1 = v_registry v" by auto
  have k: "is_token ob1 = is_token ob" "is_registry ob1 = is_registry ob" using Vmm_apply_kind [OF ap] by auto
  note sl = slots_used_kept [OF _ v1(6-8) Cons.prems(3) v1(4) k]
  have l1: "IsRecovering v1 pid \<longleftrightarrow> IsRecovering v pid \<and> meta_Nonce mt \<noteq> mx"
    using v1(5) unl by (simp add: IsRecovering_def)
  have pids: "\<forall>m \<in> set ms. meta_Pid m = pid" using Cons.prems(5) by simp
  from Cons.IH [OF v1(2-4) ys pids run] obtain v' where
    "replay_items cf mode mx v1 ys = Some (v', map (\<lambda>e. Applied (Some e)) effs1, None)" "vmm_wf v'" "\<not> v_closed v'"
    "machine v' pid = Some (ob', env')"
    "IsRecovering v' pid \<longleftrightarrow> IsRecovering v1 pid \<and> (\<forall>m \<in> set ms. meta_Nonce m \<noteq> mx)"
    "kept v1 v' pid" "slots_used v1 \<longrightarrow> slots_used v'" by blast
  moreover from this(6) have "kept v v' pid" by (rule kept_trans [OF v1(6)])
  ultimately show ?case using replay_items_meta [OF mt v1(1)] l1 sl
    by (intro exI [of _ v']) (simp add: xs effs)
qed

subsection \<open>The mode does not matter to the state\<close>

abbreviation as_mode :: "exec_mode \<Rightarrow> int64 \<Rightarrow> meta \<Rightarrow> meta" where
  "as_mode md n m \<equiv> m\<lparr>meta_Mode := md, meta_RecoveryMaxNonce := n\<rparr>"

lemma applyCheck_mode: "applyCheck env (as_mode md n m) = applyCheck env m"
  by (simp add: applyCheck_def Let_def split: option.split)

lemma decryptParams_mode: "decryptParams c (as_mode md n m) = as_mode md n (decryptParams c m)"
  by (simp add: decryptParams_def split: option.splits)

lemma finish_task_mode:
  "fst (finish_task (as_mode md n m) env (r\<lparr>vr_Mode := md\<rparr>) err) = fst (finish_task m env r err)"
  using Vmm_outbox_mode [of env md r] by (auto simp: finish_task_def split: prod.splits)

lemma base_result_mode: "base_result (as_mode md n m) = (base_result m)\<lparr>vr_Mode := md\<rparr>"
  by (simp add: base_result_def)

context vm_machine
begin

lemma apply_mode:
  assumes "sim s s'"
  shows "sim (fst (fst (Vmm_apply vmApply c (s, env) m))) (fst (fst (Vmm_apply vmApply c (s', env) (as_mode md n m)))) \<and>
    snd (fst (Vmm_apply vmApply c (s', env) (as_mode md n m))) = snd (fst (Vmm_apply vmApply c (s, env) m))"
proof -
  obtain env0 ch where ch: "applyCheck env m = (env0, ch)" by fastforce
  show ?thesis
  proof (cases ch)
    case (Inl e)
    let ?r = "(base_result m)\<lparr>vr_Error := sys_err_text e\<rparr>"
    have comm: "(base_result m)\<lparr>vr_Mode := md, vr_Error := sys_err_text e\<rparr> = ?r\<lparr>vr_Mode := md\<rparr>" by simp
    obtain e1 x1 where 1: "finish_task m env0 ?r (Some e) = (e1, x1)" by fastforce
    obtain e2 x2 where 2: "finish_task (as_mode md n m) env0 ((base_result m)\<lparr>vr_Mode := md, vr_Error := sys_err_text e\<rparr>) (Some e) = (e2, x2)"
      by fastforce
    have "e2 = e1" using finish_task_mode [where md = md and n = n and m = m and env = env0 and r = ?r and err = "Some e"] 1 2
      unfolding comm by simp
    with 1 2 assms show ?thesis
      by (simp add: Vmm_apply_def Let_def ch Inl applyCheck_mode base_result_mode)
  next
    case (Inr f)
    let ?res = "snd (vmApply s f (decryptParams c m))"
    let ?r = "(base_result m)\<lparr>vr_Messages := res_Messages ?res, vr_Spawns := res_Spawns ?res,
      vr_Assignments := res_Assignments ?res, vr_Output := res_Output ?res, vr_Data := res_Data ?res,
      vr_Cache := res_Cache ?res,
      vr_Error := (case res_Error ?res of None \<Rightarrow> [] | Some e \<Rightarrow> vm_err_text e)\<rparr>"
    have comm: "(base_result m)\<lparr>vr_Mode := md, vr_Messages := res_Messages ?res,
        vr_Spawns := res_Spawns ?res, vr_Assignments := res_Assignments ?res,
        vr_Output := res_Output ?res, vr_Data := res_Data ?res, vr_Cache := res_Cache ?res,
        vr_Error := (case res_Error ?res of None \<Rightarrow> [] | Some e \<Rightarrow> vm_err_text e)\<rparr> = ?r\<lparr>vr_Mode := md\<rparr>" by simp
    note R = sim_result [OF assms, of f "decryptParams c m"] sim_apply [OF assms, of f "decryptParams c m"]
    obtain e1 x1 where 1: "finish_task m env0 ?r None = (e1, x1)" by fastforce
    let ?r' = "(base_result m)\<lparr>vr_Mode := md, vr_Messages := res_Messages ?res,
        vr_Spawns := res_Spawns ?res, vr_Assignments := res_Assignments ?res,
        vr_Output := res_Output ?res, vr_Data := res_Data ?res, vr_Cache := res_Cache ?res,
        vr_Error := (case res_Error ?res of None \<Rightarrow> [] | Some e \<Rightarrow> vm_err_text e)\<rparr>"
    obtain e2 x2 where 2: "finish_task (as_mode md n m) env0 ?r' None = (e2, x2)" by fastforce
    have "e2 = e1" using finish_task_mode [where md = md and n = n and m = m and env = env0 and r = ?r and err = None] 1 2
      unfolding comm by simp
    moreover obtain t res where t: "vmApply s f (decryptParams c m) = (t, res)" by fastforce
    moreover obtain t' where t': "vmApply s' f (decryptParams c m) = (t', res)"
      using R(1) t by (cases "vmApply s' f (decryptParams c m)") simp
    ultimately show ?thesis
      using 1 2 R(2) by (simp add: Vmm_apply_def Let_def ch Inr applyCheck_mode base_result_mode decryptParams_mode blind)
  qed
qed

lemma run_mode:
  assumes "sim s s'"
  shows "sim (fst (fst (Vmm_run vmApply c (s, env) ms))) (fst (fst (Vmm_run vmApply c (s', env) (map (as_mode md n) ms)))) \<and>
    snd (fst (Vmm_run vmApply c (s', env) (map (as_mode md n) ms))) = snd (fst (Vmm_run vmApply c (s, env) ms))"
  using assms
proof (induction ms arbitrary: s s' env)
  case (Cons m ms)
  obtain s1 env1 e1 where 1: "Vmm_apply vmApply c (s, env) m = ((s1, env1), e1)" by (metis surj_pair)
  obtain s2 env2 e2 where 2: "Vmm_apply vmApply c (s', env) (as_mode md n m) = ((s2, env2), e2)" by (metis surj_pair)
  from apply_mode [OF Cons.prems, where c = c and env = env and m = m and md = md and n = n] 1 2 have "sim s1 s2" "env2 = env1" by auto
  with Cons.IH [OF this(1), of env1] show ?case by (simp add: 1 2 Let_def case_prod_beta)
qed simp

end

text \<open>The core machines as objects of the manager.\<close>

lemma Vmm_apply_token:
  "Vmm_apply (obj_apply lib ops) c (ObjToken db, env) m =
     (case Vmm_apply (Token_Apply lib) c (db, env) m of ((db', env'), eff) \<Rightarrow> ((ObjToken db', env'), eff))"
  by (auto simp: Vmm_apply_def Let_def obj_apply_def split: prod.splits sum.splits)

lemma Vmm_apply_registry:
  "Vmm_apply (obj_apply lib ops) c (ObjRegistry r, env) m =
     (case Vmm_apply (Registry_Apply lib) c (r, env) m of ((r', env'), eff) \<Rightarrow> ((ObjRegistry r', env'), eff))"
  by (auto simp: Vmm_apply_def Let_def obj_apply_def split: prod.splits sum.splits)

lemma Vmm_run_core:
  "Vmm_run (obj_apply lib ops) c (ObjToken db, env) ms =
     (case Vmm_run (Token_Apply lib) c (db, env) ms of ((db', env'), effs) \<Rightarrow> ((ObjToken db', env'), effs))"
  "Vmm_run (obj_apply lib ops) c (ObjRegistry r, env) ms =
     (case Vmm_run (Registry_Apply lib) c (r, env) ms of ((r', env'), effs) \<Rightarrow> ((ObjRegistry r', env'), effs))"
  by (induction ms arbitrary: db r env)
     (simp_all add: Vmm_apply_token Vmm_apply_registry Let_def split: prod.splits)

subsection \<open>Checkpoints\<close>

text \<open>The documented behaviour of the file system, over a view of the files: reads answer, a write may
  fail.\<close>

definition files_ok :: "'f files \<Rightarrow> ('f \<Rightarrow> string \<Rightarrow> string option) \<Rightarrow> bool" where
  "files_ok fl fview \<longleftrightarrow>
     (\<forall>s k. fview (fst (fl_stat fl s k)) = fview s \<and>
        snd (fl_stat fl s k) = (if fview s k = None then FileMissing else FileExists)) \<and>
     (\<forall>s k d. fview s k = Some d \<longrightarrow> fview (fst (fl_read fl s k)) = fview s \<and> snd (fl_read fl s k) = Inr d) \<and>
     (\<forall>s k. fview (fst (fl_mkdir fl s k)) = fview s) \<and>
     (\<forall>s k d. snd (fl_write fl s k d) = None \<longrightarrow> fview (fst (fl_write fl s k d)) = (fview s)(k \<mapsto> d))"

text \<open>What the texts and signatures of the parameters keep: an item is read back from its text, and its
  data from the item. The JSON texts of one machine's snapshot are read back, but for the two fields of the
  meta that the structs exclude from JSON (\<open>Mode\<close> and \<open>RecoveryMaxNonce\<close>): they come back as zero values.\<close>

definition ckp_params :: "('s, 'r, 'h, 'u, 'o, 'f) rec_cfg \<Rightarrow> bool" where
  "ckp_params cf \<longleftrightarrow> codec_ok (nc_codec cf) \<and>
     (\<forall>d t a ts i. rc_sign cf d t a ts = Some i \<longrightarrow> base64_decode (nc_lib cf) (item_Data i) = Some d)"

definition saved_env :: "env \<Rightarrow> env" where
  "saved_env env = env\<lparr>env_Meta := (env_Meta env)\<lparr>meta_Mode := ExecModeUnset, meta_RecoveryMaxNonce := 0\<rparr>\<rparr>"

lemma saved_env_reads [simp]:
  "env_Nonce (saved_env env) = env_Nonce env" "env_Module (saved_env env) = env_Module env"
  "env_Process (saved_env env) = env_Process env" "env_Sequence (saved_env env) = env_Sequence env"
  "env_ReceivedSeq (saved_env env) = env_ReceivedSeq env"
  "meta_Pid (env_Meta (saved_env env)) = meta_Pid (env_Meta env)"
  "meta_Params (env_Meta (saved_env env)) = meta_Params (env_Meta env)"
  by (simp_all add: saved_env_def)

definition snap_texts :: "('s, 'r, 'h, 'u, 'o, 'f) rec_cfg \<Rightarrow> 's vm_obj \<Rightarrow> env \<Rightarrow> bool" where
  "snap_texts cf ob env \<longleftrightarrow>
     (\<forall>data. obj_checkpoint (rc_codec cf) (nc_ops cf) ob = Inr data \<longrightarrow>
        rc_dec_snap cf (rc_enc_snap cf \<lparr>snap_Env = env, snap_Data = data\<rparr>) =
          Some \<lparr>snap_Env = saved_env env, snap_Data = data\<rparr>) \<and>
     (case ob of
        ObjToken db \<Rightarrow> dec_token (rc_codec cf) (enc_token (rc_codec cf) (TokenDb_Checkpoint db)) = Some (TokenDb_Checkpoint db)
      | ObjRegistry r \<Rightarrow>
          dec_registry (rc_codec cf) (enc_registry (rc_codec cf) (Registry_Checkpoint r)) = Some (Registry_Checkpoint r)
      | ObjMounted _ \<Rightarrow> True)"

definition stored_snapshot ::
  "('s, 'r, 'h, 'u, 'o, 'f) rec_cfg \<Rightarrow> ('f \<Rightarrow> string \<Rightarrow> string option) \<Rightarrow> 'f \<Rightarrow> string \<Rightarrow> snapshot \<Rightarrow> bool" where
  "stored_snapshot cf fview fs ckpId snap \<longleftrightarrow>
     (\<exists>item. fview fs (ckp_file ckpId) = Some (enc_item (nc_codec cf) item) \<and>
        base64_decode (nc_lib cf) (item_Data item) = Some (rc_enc_snap cf snap))"

lemma SaveCheckpoint_stores:
  assumes p: "ckp_params cf" "files_ok (rc_files cf) fview" "redis_ok (nc_redis cf) view"
    and s: "SaveCheckpoint cf st pid = (st', None)"
  shows "\<exists>ob env data ckpId. machine (ns_vmm st) pid = Some (ob, env) \<and>
    obj_checkpoint (rc_codec cf) (nc_ops cf) ob = Inr data \<and>
    stored_snapshot cf fview (rs_files st') ckpId \<lparr>snap_Env = env, snap_Data = data\<rparr> \<and>
    ks_str (view (ns_db st')) (RdbCheckpointIndexPrefix @ pid) = Some ckpId"
proof -
  from s obtain item where c: "Node_Checkpoint cf st pid = Inr item"
    by (auto simp: SaveCheckpoint_def split: sum.splits)
  from s c obtain fs where w: "write_checkpoint cf (rs_files st) item = (fs, None)"
    by (auto simp: SaveCheckpoint_def split: prod.splits option.splits)
  obtain db e where x: "SaveCheckpointIndex (nc_redis cf) (ns_db st) pid (item_Id item) = (db, e)" by fastforce
  have st': "st' = st\<lparr>rs_files := fs, ns_db := db\<rparr>" "e = None" using s c w x by (auto simp: SaveCheckpoint_def)
  from x st'(2) have "rd_exec (nc_redis cf) (ns_db st) [CSet (RdbCheckpointIndexPrefix @ pid) (item_Id item)] = (db, None)"
    by (cases "rd_exec (nc_redis cf) (ns_db st) [CSet (RdbCheckpointIndexPrefix @ pid) (item_Id item)]")
      (auto simp: SaveCheckpointIndex_def exec_err_def)
  from redis_ok_D(7) [OF p(3) this] have ix: "ks_str (view db) (RdbCheckpointIndexPrefix @ pid) = Some (item_Id item)"
    by simp
  from c obtain snap where snap: "Vmm_Checkpoint (rc_codec cf) (nc_ops cf) (ns_vmm st) pid = Inr snap"
    and sg: "signCheckpoint cf snap = Inr item" by (auto simp: Node_Checkpoint_def split: sum.splits)
  from snap obtain i data where i: "mget (v_vms (ns_vmm st)) pid = Some i"
    and d: "obj_checkpoint (rc_codec cf) (nc_ops cf) (v_objs (ns_vmm st) ! inst_vm i) = Inr data"
    and sn: "snap = \<lparr>snap_Env = inst_env i, snap_Data = data\<rparr>"
    by (auto simp: Vmm_Checkpoint_def getInstance_def split: sum.splits if_splits option.splits)
  from sg have "\<exists>ts. rc_sign cf (rc_enc_snap cf snap) [] [] ts = Some item"
    by (auto simp: signCheckpoint_def split: prod.splits option.splits)
  then have b: "base64_decode (nc_lib cf) (item_Data item) = Some (rc_enc_snap cf snap)"
    using p(1) unfolding ckp_params_def by blast
  have "fview fs = (fview (rs_files st))(ckp_file (item_Id item) \<mapsto> enc_item (nc_codec cf) item)"
  proof -
    obtain fs1 where 1: "fl_mkdir (rc_files cf) (rs_files st) ''./ckp'' = (fs1, None)"
      using w by (auto simp: write_checkpoint_def split: prod.splits option.splits)
    have 2: "fl_write (rc_files cf) fs1 (ckp_file (item_Id item)) (enc_item (nc_codec cf) item) = (fs, None)"
      using w 1 by (auto simp: write_checkpoint_def split: prod.splits)
    have "fview fs1 = fview (rs_files st)" using p(2) 1 unfolding files_ok_def by (metis fst_conv)
    moreover have "fview fs = (fview fs1)(ckp_file (item_Id item) \<mapsto> enc_item (nc_codec cf) item)"
      using p(2) 2 unfolding files_ok_def by (metis fst_conv snd_conv)
    ultimately show ?thesis by simp
  qed
  then have "stored_snapshot cf fview (rs_files st') (item_Id item) snap"
    using b st'(1) by (auto simp: stored_snapshot_def)
  with i d ix sn st'(1) show ?thesis by (auto simp: machine_def)
qed

lemma Node_Restore_stored:
  assumes p: "ckp_params cf" "files_ok (rc_files cf) fview" and s: "stored_snapshot cf fview (rs_files st) ckpId snap"
    and t: "rc_dec_snap cf (rc_enc_snap cf snap) = Some snap'"
  shows "\<exists>fs. fview fs = fview (rs_files st) \<and> Node_Restore cf st ckpId =
    (case Vmm_Restore (nc_lib cf) (rc_codec cf) (nc_ops cf) (ns_vmm st) snap' of
       (v, Some e) \<Rightarrow> (st\<lparr>rs_files := fs, ns_vmm := v\<rparr>, Inl e)
     | (v, None) \<Rightarrow> (st\<lparr>rs_files := fs, ns_vmm := v\<rparr>, Inr (env_Nonce (snap_Env snap'))))"
proof -
  from s obtain item where f: "fview (rs_files st) (ckp_file ckpId) = Some (enc_item (nc_codec cf) item)"
    and b: "base64_decode (nc_lib cf) (item_Data item) = Some (rc_enc_snap cf snap)"
    by (auto simp: stored_snapshot_def)
  obtain fs1 where 1: "fl_stat (rc_files cf) (rs_files st) (ckp_file ckpId) = (fs1, FileExists)" "fview fs1 = fview (rs_files st)"
    using p(2) f unfolding files_ok_def by (metis option.distinct(1) prod.collapse)
  obtain fs2 where 2: "fl_read (rc_files cf) fs1 (ckp_file ckpId) = (fs2, Inr (enc_item (nc_codec cf) item))" "fview fs2 = fview fs1"
    using p(2) f 1(2) unfolding files_ok_def by (metis prod.collapse)
  have d: "dec_item (nc_codec cf) (enc_item (nc_codec cf) item) = Some item"
    "rc_dec_snap cf (rc_enc_snap cf snap) = Some snap'"
    using p(1) t by (auto simp: ckp_params_def codec_ok_def)
  show ?thesis
    by (intro exI [of _ fs2]) (simp add: Node_Restore_def LoadCheckpoint_def Let_def 1 2 d b)
qed

text \<open>What a restored core machine is up to: the token is the same, the registry answers the same.\<close>

fun obj_equiv :: "'s vm_obj \<Rightarrow> 's vm_obj \<Rightarrow> bool" where
  "obj_equiv (ObjToken a) (ObjToken b) \<longleftrightarrow> a = b"
| "obj_equiv (ObjRegistry a) (ObjRegistry b) \<longleftrightarrow> reg_sim a b"
| "obj_equiv _ _ \<longleftrightarrow> False"

text \<open>A core machine with the environment its spawn gave it.\<close>

definition core_machine :: "'s vm_obj \<Rightarrow> env \<Rightarrow> bool" where
  "core_machine ob env \<longleftrightarrow>
     (case ob of
        ObjToken _ \<Rightarrow> mod_ModuleFormat (env_Module env) = ModuleFormatToken
      | ObjRegistry r \<Rightarrow> mod_ModuleFormat (env_Module env) = ModuleFormatRegistry \<and> reg_inv r \<and>
          mget (meta_Params (env_Meta env)) ''Token-Pid'' \<noteq> None
      | ObjMounted _ \<Rightarrow> False)"

lemma core_machine_saved [simp]: "core_machine ob (saved_env env) = core_machine ob env"
  by (cases ob) (simp_all add: core_machine_def)

text \<open>A manager that can take the machine of a process: the process does not run yet and the pointer to
  a machine of its kind is free, or it runs as a machine of that kind.\<close>

definition core_ready :: "'s vmm \<Rightarrow> string \<Rightarrow> 's vm_obj \<Rightarrow> bool" where
  "core_ready v pid ob \<longleftrightarrow> vmm_wf v \<and> \<not> v_closed v \<and>
     mget (v_factors v) ModuleFormatToken = Some FactoryToken \<and>
     mget (v_factors v) ModuleFormatRegistry = Some FactoryRegistry \<and>
     (case machine v pid of
        None \<Rightarrow> (is_token ob \<longrightarrow> v_token v = None) \<and> (is_registry ob \<longrightarrow> v_registry v = None)
      | Some (ob0, _) \<Rightarrow> is_token ob0 = is_token ob \<and> is_registry ob0 = is_registry ob)"

lemma core_ready_New: "core_ready (Vmm_New role join) pid ob"
proof -
  have "vmm_wf (Vmm_New role join)" by (rule vmm_wf_New)
  then show ?thesis unfolding core_ready_def machine_def Vmm_New_def
    by (simp add: ModuleFormatToken_def ModuleFormatRegistry_def)
qed

lemma vmm_wf_Lock [simp]: "vmm_wf (RecoveryLock v p) \<longleftrightarrow> vmm_wf v" "vmm_wf (RecoveryUnlock v p) \<longleftrightarrow> vmm_wf v"
  by (simp_all add: vmm_wf_def RecoveryLock_def RecoveryUnlock_def)

lemma core_ready_Lock [simp]: "core_ready (RecoveryLock v p) pid ob \<longleftrightarrow> core_ready v pid ob"
proof -
  have "v_factors (RecoveryLock v p) = v_factors v" "v_token (RecoveryLock v p) = v_token v"
    "v_registry (RecoveryLock v p) = v_registry v" by (simp_all add: RecoveryLock_def)
  then show ?thesis by (simp add: core_ready_def split: option.split)
qed

lemma slots_used_Lock [simp]:
  "slots_used (RecoveryLock v p) \<longleftrightarrow> slots_used v" "slots_used (RecoveryUnlock v p) \<longleftrightarrow> slots_used v"
  by (auto simp: slots_used_def RecoveryLock_def RecoveryUnlock_def machine_def)

text \<open>A snapshot of a core machine restored in either way.\<close>

lemma restored_obj:
  assumes "snap_texts cf ob env0" "core_machine ob env" "obj_checkpoint (rc_codec cf) (nc_ops cf) ob = Inr data"
    and "is_token ob0 = is_token ob" "is_registry ob0 = is_registry ob"
  shows "\<exists>ob'. obj_restore (rc_codec cf) (nc_ops cf) ob0 data = Inr ob' \<and> obj_equiv ob ob' \<and>
    is_token ob' = is_token ob \<and> is_registry ob' = is_registry ob"
proof (cases ob)
  case (ObjToken db)
  with assms show ?thesis
    by (cases ob0) (auto simp: snap_texts_def obj_checkpoint_def obj_restore_def TokenDb_Restore_Checkpoint)
next
  case (ObjRegistry g)
  with assms(2) have "reg_wf g" by (simp add: core_machine_def reg_inv_def)
  with ObjRegistry assms show ?thesis
    by (cases ob0) (auto simp: snap_texts_def obj_checkpoint_def obj_restore_def Restore_Checkpoint_sim)
qed (use assms(2) in \<open>simp add: core_machine_def\<close>)

lemma core_spawn:
  assumes "core_ready v pid ob" "mget (v_vms v) pid = None" "core_machine ob env"
  shows "\<exists>v1 ob0. Vmm_spawn lib v env = (v1, Inr (length (v_objs v))) \<and> v_objs v1 = v_objs v @ [ob0] \<and>
    v_vms v1 = v_vms v \<and> v_recoveryLock v1 = v_recoveryLock v \<and> v_closed v1 = v_closed v \<and> v_factors v1 = v_factors v \<and>
    v_token v1 = (if is_token ob then Some (length (v_objs v)) else v_token v) \<and>
    v_registry v1 = (if is_registry ob then Some (length (v_objs v)) else v_registry v) \<and>
    is_token ob0 = is_token ob \<and> is_registry ob0 = is_registry ob"
  using assms
  by (cases ob)
    (auto simp: core_ready_def core_machine_def machine_def Vmm_spawn_def spawnToken_def spawnRegistry_def Let_def)

lemma Vmm_Restore_core:
  assumes p: "snap_texts cf ob env0" and v: "core_ready v pid ob" and c: "core_machine ob env"
    and d: "obj_checkpoint (rc_codec cf) (nc_ops cf) ob = Inr data" and pid: "meta_Pid (env_Meta env) = pid"
  shows "\<exists>v' ob'. Vmm_Restore lib (rc_codec cf) (nc_ops cf) v \<lparr>snap_Env = env, snap_Data = data\<rparr> = (v', None) \<and>
    vmm_wf v' \<and> \<not> v_closed v' \<and> machine v' pid = Some (ob', env) \<and> obj_equiv ob ob' \<and>
    v_recoveryLock v' = v_recoveryLock v \<and> kept v v' pid \<and> (slots_used v \<longrightarrow> slots_used v')"
proof -
  obtain v' e where r: "Vmm_Restore lib (rc_codec cf) (nc_ops cf) v \<lparr>snap_Env = env, snap_Data = data\<rparr> = (v', e)" by fastforce
  have wfv: "vmm_wf v" and op: "\<not> v_closed v" using v by (simp_all add: core_ready_def)
  from vmm_step_wf [OF wfv, of "\<lparr>w_lib = lib, w_codec = rc_codec cf, w_ops = nc_ops cf, w_cryptor = None\<rparr>"
      "VRestore \<lparr>snap_Env = env, snap_Data = data\<rparr>"] r have wf: "vmm_wf v'" by simp
  show ?thesis
  proof (cases "mget (v_vms v) pid")
    case (Some i)
    let ?ob0 = "v_objs v ! inst_vm i"
    have k0: "is_token ?ob0 = is_token ob" "is_registry ?ob0 = is_registry ob"
      using v Some by (auto simp: core_ready_def machine_def)
    from restored_obj [OF p c d k0] obtain ob' where ob': "obj_restore (rc_codec cf) (nc_ops cf) ?ob0 data = Inr ob'"
      "obj_equiv ob ob'" "is_token ob' = is_token ob" "is_registry ob' = is_registry ob" by blast
    have len: "inst_vm i < length (v_objs v)" using vmm_wf_D(6) [OF wfv Some] .
    have x: "e = None" "v' = v\<lparr>v_objs := (v_objs v)[inst_vm i := ob'], v_vms := mput pid (i\<lparr>inst_env := env\<rparr>) (v_vms v)\<rparr>"
      using r op Some ob'(1) pid by (auto simp: Vmm_Restore_def Let_def)
    have D: "inst_vm i \<noteq> inst_vm j" if "q \<noteq> pid" "mget (v_vms v) q = Some j" for q j
      using vmm_wf_D(9) [OF wfv Some that(2)] that(1) by auto
    have "machine v' q = machine v q" if "q \<noteq> pid" for q
      using that D [OF that] by (cases "mget (v_vms v) q") (auto simp: x machine_def)
    then have k: "kept v v' pid" by (simp add: kept_def) (simp add: x IsRecovering_def)
    moreover have m: "machine v pid = Some (?ob0, inst_env i)" "machine v' pid = Some (ob', env)"
      using Some len by (simp_all add: x machine_def)
    moreover have "slots_used v \<longrightarrow> slots_used v'"
      using slots_used_kept [OF _ k _ _ m] ob'(3,4) k0 x(2) by auto
    ultimately show ?thesis using r wf op ob'(2) x by (intro exI [of _ v'] exI [of _ ob']) auto
  next
    case None
    from core_spawn [OF v None c, of lib] obtain v1 ob0 where v1: "Vmm_spawn lib v env = (v1, Inr (length (v_objs v)))"
      "v_objs v1 = v_objs v @ [ob0]" "v_vms v1 = v_vms v" "v_recoveryLock v1 = v_recoveryLock v" "v_closed v1 = v_closed v"
      "v_factors v1 = v_factors v" "v_token v1 = (if is_token ob then Some (length (v_objs v)) else v_token v)"
      "v_registry v1 = (if is_registry ob then Some (length (v_objs v)) else v_registry v)"
      "is_token ob0 = is_token ob" "is_registry ob0 = is_registry ob" by blast
    from restored_obj [OF p c d v1(9,10)] obtain ob' where ob': "obj_restore (rc_codec cf) (nc_ops cf) ob0 data = Inr ob'"
      "obj_equiv ob ob'" "is_token ob' = is_token ob" "is_registry ob' = is_registry ob" by blast
    have x: "e = None" "v' = install_instance (v1\<lparr>v_objs := v_objs v @ [ob']\<rparr>) pid (length (v_objs v)) env"
      using r op None ob'(1) pid v1(1,2) by (auto simp: Vmm_Restore_def Let_def)
    have old: "machine v' q = machine v q" if "q \<noteq> pid" for q
      using that vmm_wf_D(6) [OF wfv, of q]
      by (cases "mget (v_vms v) q") (auto simp: x machine_def install_instance_def v1(3) nth_append)
    have m: "machine v' pid = Some (ob', env)" by (simp add: x machine_def install_instance_def)
    have k: "kept v v' pid" using old by (simp add: kept_def) (simp add: x install_instance_def v1 IsRecovering_def)
    have none: "machine v pid = None" using None by (simp add: machine_def)
    have mono: "machine v q = Some y \<Longrightarrow> machine v' q = Some y" for q y using old [of q] none by (cases "q = pid") auto
    have "v_token v' = v_token v1" "v_registry v' = v_registry v1" by (simp_all add: x install_instance_def)
    then have "slots_used v \<longrightarrow> slots_used v'"
      using v1(7,8) ob'(3,4) m mono unfolding slots_used_def by (metis (no_types))
    with r wf op ob'(2) x(1) m k show ?thesis
      by (intro exI [of _ v'] exI [of _ ob']) (simp add: x(2) install_instance_def v1)
  qed
qed

subsection \<open>A restart\<close>

text \<open>The run of a core machine under the recovery's mode, from the restored machine.\<close>

lemma core_run_mode:
  assumes "obj_equiv ob ob'" and run: "Vmm_run (obj_apply lib ops) c (ob, env) ms = ((ob2, env2), effs)"
  shows "\<exists>ob2' effs'. Vmm_run (obj_apply lib ops) c (ob', env) (map (as_mode md n) ms) = ((ob2', env2), effs') \<and>
    obj_equiv ob2 ob2'"
proof (cases "\<exists>db. ob = ObjToken db")
  case True
  then obtain db where ob: "ob = ObjToken db" "ob' = ObjToken db" using assms(1) by (cases ob'; auto)
  obtain db2 e2 f2 where r: "Vmm_run (Token_Apply lib) c (db, env) ms = ((db2, e2), f2)" by (metis surj_pair)
  obtain db3 e3 f3 where r': "Vmm_run (Token_Apply lib) c (db, env) (map (as_mode md n) ms) = ((db3, e3), f3)"
    by (metis surj_pair)
  from token_machine.run_mode [where s = db and s' = db and lib = lib and c = c and env = env and ms = ms and md = md and n = n] r r' have "db3 = db2" "e3 = e2" by simp_all
  with r r' run ob show ?thesis by (auto simp: Vmm_run_core)
next
  case False
  with assms(1) obtain g g' where ob: "ob = ObjRegistry g" "ob' = ObjRegistry g'" "reg_sim g g'"
    by (cases ob; cases ob') auto
  obtain g2 e2 f2 where r: "Vmm_run (Registry_Apply lib) c (g, env) ms = ((g2, e2), f2)" by (metis surj_pair)
  obtain g3 e3 f3 where r': "Vmm_run (Registry_Apply lib) c (g', env) (map (as_mode md n) ms) = ((g3, e3), f3)"
    by (metis surj_pair)
  from registry_machine.run_mode [OF ob(3), where lib = lib and c = c and env = env and ms = ms and md = md and n = n] r r' have "reg_sim g2 g3" "e3 = e2" by simp_all
  with r r' run ob show ?thesis by (auto simp: Vmm_run_core)
qed

text \<open>The meta of the environment takes no part in a run.\<close>

lemma Vmm_apply_saved:
  assumes "Vmm_apply ap c (ob, env) m = ((ob', env'), eff)"
  shows "Vmm_apply ap c (ob, saved_env env) m = ((ob', saved_env env'), eff)"
proof -
  have check: "applyCheck (saved_env env) m = (saved_env (fst (applyCheck env m)), snd (applyCheck env m))"
    by (simp add: applyCheck_def saved_env_def Let_def split: option.split)
  have finish: "finish_task m (saved_env e) r err = (saved_env (fst (finish_task m e r err)), snd (finish_task m e r err))"
    for e r err
    by (simp add: finish_task_def Vmm_outbox_def saved_env_def split: prod.split)
  show ?thesis using assms
    by (simp add: Vmm_apply_def Let_def check split: prod.splits sum.splits)
       (auto simp: finish)
qed

lemma Vmm_run_saved:
  "Vmm_run ap c (ob, env) ms = ((ob', env'), effs) \<Longrightarrow>
   Vmm_run ap c (ob, saved_env env) ms = ((ob', saved_env env'), effs)"
proof (induction ms arbitrary: ob env effs)
  case (Cons m ms)
  from Cons.prems obtain ob1 env1 eff effs1 where a: "Vmm_apply ap c (ob, env) m = ((ob1, env1), eff)"
    "Vmm_run ap c (ob1, env1) ms = ((ob', env'), effs1)" "effs = eff # effs1" by (rule Vmm_run_Cons)
  from Vmm_apply_saved [OF a(1)] Cons.IH [OF a(2)] a(3) show ?case by simp
qed simp

lemma logged_metas_mode:
  assumes "map (logged_meta lib mode mx) xs = map Some ms"
  shows "map (logged_meta lib mode' mx') xs = map Some (map (as_mode mode' mx') ms)"
  using assms
proof (induction xs arbitrary: ms)
  case (Cons x xs)
  then show ?case by (cases ms) (auto simp: logged_meta_change [of lib mode' mx' x mode mx])
qed simp

lemma truncate_cfg [simp]:
  "nc_lib (node_cfg.truncate cf) = nc_lib cf" "nc_ops (node_cfg.truncate cf) = nc_ops cf"
  "nc_cryptor (node_cfg.truncate cf) = nc_cryptor cf" "nc_module (node_cfg.truncate cf) = nc_module cf"
  by (simp_all add: node_cfg.truncate_def)

lemma Vmm_run_kind:
  "Vmm_run (obj_apply lib ops) c (ob, env) ms = ((ob', env'), effs) \<Longrightarrow>
   is_token ob' = is_token ob \<and> is_registry ob' = is_registry ob"
proof (induction ms arbitrary: ob env effs)
  case (Cons m ms)
  from Cons.prems obtain ob1 env1 eff effs1 where "Vmm_apply (obj_apply lib ops) c (ob, env) m = ((ob1, env1), eff)"
    "Vmm_run (obj_apply lib ops) c (ob1, env1) ms = ((ob', env'), effs1)" by (rule Vmm_run_Cons)
  with Vmm_apply_kind [OF this(1)] Cons.IH show ?case by blast
qed simp

text \<open>The history of a core process up to nonce \<open>N\<close>: a checkpoint of its machine lies in the files, and the
  log holds the messages it has applied since. They lead to the machine and the environment at the end, which
  is taken without the fields that no snapshot keeps.\<close>

definition core_history ::
  "('s, 'r, 'h, 'u, 'o, 'f) rec_cfg \<Rightarrow> ('f \<Rightarrow> string \<Rightarrow> string option) \<Rightarrow> 'f \<Rightarrow> entry list \<Rightarrow> string \<Rightarrow> nat \<Rightarrow> string \<Rightarrow>
     's vm_obj \<times> env \<Rightarrow> bool" where
  "core_history cf fview fs es pid N ckpId fin \<longleftrightarrow>
     (\<exists>k ob1 env1 data ms env2 effs.
        stored_snapshot cf fview fs ckpId \<lparr>snap_Env = env1, snap_Data = data\<rparr> \<and>
        obj_checkpoint (rc_codec cf) (nc_ops cf) ob1 = Inr data \<and> core_machine ob1 env1 \<and> snap_texts cf ob1 env1 \<and>
        meta_Pid (env_Meta env1) = pid \<and> env_Nonce env1 = of_nat k \<and> k \<le> N \<and> Suc N < 2 ^ 63 \<and>
        Vmm_run (obj_apply (nc_lib cf) (nc_ops cf)) (nc_cryptor cf) (ob1, env1) ms = ((fst fin, env2), effs) \<and>
        snd fin = saved_env env2 \<and>
        Suc N \<le> length (items_of es pid) \<and>
        map (logged_meta (nc_lib cf) ExecModeApply 0) (drop (Suc k) (take (Suc N) (log_pairs es pid))) = map Some ms \<and>
        (\<forall>m \<in> set ms. meta_Pid m = pid) \<and> (k < N \<longrightarrow> (\<exists>m \<in> set ms. meta_Nonce m = of_nat N)))"

text \<open>Recovery of such a process, in a manager that runs other processes or the same one already.\<close>

lemma recover_core:
  assumes p: "ckp_params cf" "files_ok (rc_files cf) fview" "redis_ok (nc_redis cf) view" "redis_up (nc_redis cf)"
    and h: "core_history cf fview (rs_files st) es pid N ckpId (ob2, env2)" and v: "core_ready (ns_vmm st) pid ob2"
    and log: "log_ok (nc_codec cf) (view (ns_db st)) es" and opn: "\<forall>n. \<not> closed n" and md: "mode \<noteq> ExecModeApply"
    and free: "\<not> IsRecovering (ns_vmm st) pid"
  shows "\<exists>st' hs ob'. recoveryProcess cf closed st pid (of_nat N) ckpId mode = Some (st', hs, None) \<and>
    machine (ns_vmm st') pid = Some (ob', env2) \<and> obj_equiv ob2 ob' \<and> \<not> IsRecovering (ns_vmm st') pid \<and>
    kept (ns_vmm st) (ns_vmm st') pid \<and> (slots_used (ns_vmm st) \<longrightarrow> slots_used (ns_vmm st')) \<and>
    vmm_wf (ns_vmm st') \<and> \<not> v_closed (ns_vmm st') \<and>
    view (ns_db st') = view (ns_db st) \<and> fview (rs_files st') = fview (rs_files st)"
proof -
  let ?v = "RecoveryLock (ns_vmm st) pid"
  from h obtain k ob1 env1 data ms env3 effs where
    sn: "stored_snapshot cf fview (rs_files st) ckpId \<lparr>snap_Env = env1, snap_Data = data\<rparr>"
    and d: "obj_checkpoint (rc_codec cf) (nc_ops cf) ob1 = Inr data" and c: "core_machine ob1 env1" "snap_texts cf ob1 env1"
    and pid: "meta_Pid (env_Meta env1) = pid" and k: "env_Nonce env1 = of_nat k" "k \<le> N" "Suc N < 2 ^ 63"
    and live: "Vmm_run (obj_apply (nc_lib cf) (nc_ops cf)) (nc_cryptor cf) (ob1, env1) ms = ((ob2, env3), effs)"
    and fin: "env2 = saved_env env3"
    and len: "Suc N \<le> length (items_of es pid)"
    and lg: "map (logged_meta (nc_lib cf) ExecModeApply 0) (drop (Suc k) (take (Suc N) (log_pairs es pid))) = map Some ms"
    and ms: "\<forall>m \<in> set ms. meta_Pid m = pid" "k < N \<longrightarrow> (\<exists>m \<in> set ms. meta_Nonce m = of_nat N)"
    unfolding core_history_def by (simp only: fst_conv snd_conv) blast
  let ?env = "saved_env env1"
  have run0: "Vmm_run (obj_apply (nc_lib cf) (nc_ops cf)) (nc_cryptor cf) (ob1, ?env) ms = ((ob2, env2), effs)"
    using Vmm_run_saved [OF live] fin by simp
  have cs: "core_machine ob1 ?env" "meta_Pid (env_Meta ?env) = pid" "env_Nonce ?env = of_nat k"
    using c(1) pid k(1) by simp_all
  have "core_ready (ns_vmm st) pid ob1"
    using v Vmm_run_kind [OF run0] by (auto simp: core_ready_def split: option.splits)
  then have kd: "core_ready ?v pid ob1" by simp
  have sn': "stored_snapshot cf fview (rs_files (st\<lparr>ns_vmm := ?v\<rparr>)) ckpId \<lparr>snap_Env = env1, snap_Data = data\<rparr>"
    using sn by simp
  have tx: "rc_dec_snap cf (rc_enc_snap cf \<lparr>snap_Env = env1, snap_Data = data\<rparr>) = Some \<lparr>snap_Env = ?env, snap_Data = data\<rparr>"
    using c(2) d by (simp add: snap_texts_def)
  from Vmm_Restore_core [OF c(2) kd cs(1) d cs(2), of "nc_lib cf"] obtain v' ob' where
    v': "Vmm_Restore (nc_lib cf) (rc_codec cf) (nc_ops cf) ?v \<lparr>snap_Env = ?env, snap_Data = data\<rparr> = (v', None)"
      "vmm_wf v'" "\<not> v_closed v'" "machine v' pid = Some (ob', ?env)" "obj_equiv ob1 ob'"
      "v_recoveryLock v' = v_recoveryLock ?v" "kept ?v v' pid" "slots_used ?v \<longrightarrow> slots_used v'" by blast
  have kp: "kept (ns_vmm st) v' pid" using v'(7) by (simp add: kept_def) (simp add: RecoveryLock_def)
  from Node_Restore_stored [OF p(1,2) sn' tx] v'(1) cs(3) obtain fs where nr: "Node_Restore cf (st\<lparr>ns_vmm := ?v\<rparr>) ckpId =
      (st\<lparr>rs_files := fs, ns_vmm := v'\<rparr>, Inr (of_nat k))" "fview fs = fview (rs_files st)" by auto
  have good: "redis_good cf view" using p by (simp add: ckp_params_def redis_good_def)
  show ?thesis
  proof (cases "k = N")
    case True
    with len lg have "ms = []" by simp
    with run0 have fin: "ob2 = ob1" "env2 = ?env" by simp_all
    let ?s = "st\<lparr>rs_files := fs, ns_vmm := RecoveryUnlock v' pid\<rparr>"
    have rp: "recoveryProcess cf closed st pid (of_nat N) ckpId mode = Some (?s, [], None)"
      using nr(1) free True by (simp add: recoveryProcess_def)
    have "kept v' (RecoveryUnlock v' pid) pid" by (simp add: kept_def) (simp add: RecoveryUnlock_def)
    then have "kept (ns_vmm st) (RecoveryUnlock v' pid) pid" by (rule kept_trans [OF kp])
    with v'(2-5,8) nr(2) rp fin show ?thesis
      by (intro exI [of _ ?s]) simp
  next
    case False
    then have kN: "k < N" using k(2) by simp
    let ?ms = "map (as_mode mode (of_nat N)) ms"
    from core_run_mode [OF v'(5) run0, where md = mode and n = "of_nat N"] obtain ob2' effs' where
      run: "Vmm_run (obj_apply (nc_lib cf) (nc_ops cf)) (nc_cryptor cf) (ob', ?env) ?ms = ((ob2', env2), effs')"
      and eq: "obj_equiv ob2 ob2'" by blast
    let ?cf = "node_cfg.truncate cf" and ?xs = "drop (Suc k) (take (Suc N) (log_pairs es pid))"
    have lm: "map (logged_meta (nc_lib ?cf) mode (of_nat N)) ?xs = map Some ?ms"
      using logged_metas_mode [OF lg, where mode' = mode and mx' = "of_nat N"] by (simp only: truncate_cfg)
    have pids: "\<forall>m \<in> set ?ms. meta_Pid m = pid" using ms(1) by simp
    have run': "Vmm_run (obj_apply (nc_lib ?cf) (nc_ops ?cf)) (nc_cryptor ?cf) (ob', ?env) ?ms = ((ob2', env2), effs')"
      using run by (simp only: truncate_cfg)
    from replay_items_run [OF v'(2-4) lm pids md run']
    obtain v2 where v2: "replay_items ?cf mode (of_nat N) v' ?xs = Some (v2, map (\<lambda>e. Applied (Some e)) effs', None)"
      "vmm_wf v2" "\<not> v_closed v2" "machine v2 pid = Some (ob2', env2)"
      "IsRecovering v2 pid \<longleftrightarrow> IsRecovering v' pid \<and> (\<forall>m \<in> set ?ms. meta_Nonce m \<noteq> of_nat N)"
      "kept v' v2 pid" "slots_used v' \<longrightarrow> slots_used v2" by blast
    have unl: "\<not> IsRecovering v2 pid" using v2(5) ms(2) kN by auto
    have neq: "(of_nat k :: int64) \<noteq> of_nat N"
    proof
      assume "(of_nat k :: int64) = of_nat N"
      then have "sint (of_nat k :: int64) = sint (of_nat N :: int64)" by simp
      with kN k(3) show False by (simp only: sint_small)
    qed
    let ?st = "st\<lparr>rs_files := fs, ns_vmm := v'\<rparr>"
    have log: "log_ok (nc_codec cf) (view (ns_db ?st)) es" using log by simp
    from rec_loop_log [OF good log len k(3), of "Suc k" closed mode "[]"] kN opn v2(1)
    obtain db where "view db = view (ns_db st)" "rec_loop cf closed pid mode (of_nat N) (of_nat (Suc k)) ?st [] =
      Some (?st\<lparr>ns_db := db, ns_vmm := v2\<rparr>, map (\<lambda>e. Applied (Some e)) effs', None)" by auto
    moreover have "kept (ns_vmm st) v2 pid" by (rule kept_trans [OF kp v2(6)])
    ultimately show ?thesis using nr free neq v2 eq unl v'(8) by (simp add: recoveryProcess_def add.commute)
  qed
qed


subsection \<open>A lock that stays\<close>

text \<open>A process in recovery: it cannot be recovered, and no item for it is accepted.\<close>

definition locked_out ::
  "('s, 'r, 'h, 'u, 'o, 'f) rec_cfg \<Rightarrow> ('s, 'r, 'h, 'u, 'o, 'f) rec_state \<Rightarrow> string \<Rightarrow> bool" where
  "locked_out cf st pid \<longleftrightarrow>
     (\<forall>closed maxNonce ckpId mode.
        recoveryProcess cf closed st pid maxNonce ckpId mode = Some (st, [], Some ErrProcessIsRecovering)) \<and>
     (\<forall>pending item a f inst. Decode (nc_lib cf) item = Inr (pid, a, f, inst) \<longrightarrow>
        snd (Node_Handle (node_cfg.truncate cf) pending (node_state.truncate st) item) \<noteq> None)"

lemma locked_outI:
  assumes "IsRecovering (ns_vmm st) pid" shows "locked_out cf st pid"
proof -
  have "snd (Node_Handle (node_cfg.truncate cf) pending (node_state.truncate st) item) \<noteq> None"
    if d: "Decode (nc_lib cf) item = Inr (pid, a, f, inst)" for pending item a f inst
  proof
    obtain s2 r where h: "Node_Handle (node_cfg.truncate cf) pending (node_state.truncate st) item = (s2, r)" by fastforce
    assume "snd (Node_Handle (node_cfg.truncate cf) pending (node_state.truncate st) item) = None"
    with h d Node_Handle_spec [OF h] have "\<not> IsRecovering (ns_vmm (node_state.truncate st)) pid"
      by (auto simp: accepted_once_def)
    with assms show False by (simp add: node_state.truncate_def)
  qed
  with assms show ?thesis by (simp add: locked_out_def recoveryProcess_def)
qed

lemma replay_items_append:
  "replay_items cf mode mx v xs = Some (v1, hs, None) \<Longrightarrow>
   replay_items cf mode mx v (xs @ ys) =
     (case replay_items cf mode mx v1 ys of None \<Rightarrow> None | Some (v2, hs2, e) \<Rightarrow> Some (v2, hs @ hs2, e))"
proof (induction xs arbitrary: v hs)
  case (Cons x xs)
  obtain m a where x: "x = (m, a)" by fastforce
  from Cons.prems x obtain asg v' h hs' where
    s: "TagsToAssignment (item_Tags a) = Inr asg" "HandleMode cf v m asg mode mx = Some (v', h)"
    "replay_items cf mode mx v' xs = Some (v1, hs', None)" "hs = h # hs'"
    by (auto split: sum.splits option.splits prod.splits)
  from Cons.IH [OF s(3)] s x show ?case by (auto split: option.splits prod.splits)
qed (auto split: option.splits)

lemma Vmm_Restore_keeps:
  assumes "vmm_wf v" "Vmm_Restore lib cd ops v snap = (v', e)"
  shows "vmm_wf v' \<and> v_recoveryLock v' = v_recoveryLock v \<and> v_closed v' = v_closed v"
proof -
  have "vmm_wf v'"
    using vmm_step_wf [OF assms(1), of "\<lparr>w_lib = lib, w_codec = cd, w_ops = ops, w_cryptor = None\<rparr>" "VRestore snap"]
      assms(2) by simp
  moreover have "v_recoveryLock v1 = v_recoveryLock v \<and> v_closed v1 = v_closed v"
    if "Vmm_spawn lib v env = (v1, r)" for env v1 r
    using that by (auto simp: Vmm_spawn_def spawnToken_def spawnRegistry_def Let_def
        split: option.splits vm_factory.splits if_splits sum.splits)
  ultimately show ?thesis
    using assms(2) by (auto simp: Vmm_Restore_def Let_def forget_obj_def install_instance_def
        split: if_splits option.splits sum.splits prod.splits)
qed

lemma Node_Restore_keeps:
  assumes "vmm_wf (ns_vmm st)" "Node_Restore cf st ckpId = (st', r)"
  shows "vmm_wf (ns_vmm st') \<and> (\<forall>p. IsRecovering (ns_vmm st') p = IsRecovering (ns_vmm st) p) \<and>
    v_closed (ns_vmm st') = v_closed (ns_vmm st) \<and> ns_db st' = ns_db st"
  using assms
  by (auto simp: Node_Restore_def LoadCheckpoint_def Let_def IsRecovering_def
      split: prod.splits sum.splits option.splits file_stat.splits dest: Vmm_Restore_keeps)

text \<open>A process that has been restored from a checkpoint, is complete in the log up to \<open>M\<close>, and is asked
  to recover up to \<open>N\<close>: the tail applies, without the lock being released.\<close>

definition recovering_to ::
  "('s, 'r, 'h, 'u, 'o, 'f) rec_cfg \<Rightarrow> ('r \<Rightarrow> keyspace) \<Rightarrow> ('s, 'r, 'h, 'u, 'o, 'f) rec_state \<Rightarrow> string \<Rightarrow> string \<Rightarrow>
     exec_mode \<Rightarrow> bundle_item list \<Rightarrow> bundle_item list \<Rightarrow> nat \<Rightarrow> nat \<Rightarrow> bool" where
  "recovering_to cf view st pid ckpId mode its ass M N \<longleftrightarrow>
     redis_good cf view \<and> lists_are cf (view (ns_db st)) pid its ass \<and> M \<le> length its \<and> M \<le> length ass \<and>
     M \<le> N \<and> Suc N < 2 ^ 63 \<and> mode \<noteq> ExecModeApply \<and>
     vmm_wf (ns_vmm st) \<and> \<not> v_closed (ns_vmm st) \<and> \<not> IsRecovering (ns_vmm st) pid \<and>
     (\<exists>st1 k ms. Node_Restore cf (st\<lparr>ns_vmm := RecoveryLock (ns_vmm st) pid\<rparr>) ckpId = (st1, Inr (of_nat k)) \<and>
        machine (ns_vmm st1) pid \<noteq> None \<and> k < M \<and>
        map (logged_meta (nc_lib cf) mode (of_nat N)) (drop (Suc k) (zip (take M its) (take M ass))) = map Some ms \<and>
        (\<forall>m \<in> set ms. meta_Pid m = pid \<and> meta_Nonce m \<noteq> of_nat N))"

lemma recovering_reaches:
  assumes r: "recovering_to cf view st pid ckpId mode its ass M N" and opn: "\<forall>n. \<not> closed n"
  shows "\<exists>st2 hs. recoveryProcess cf closed st pid (of_nat N) ckpId mode =
      rec_loop cf closed pid mode (of_nat N) (of_nat M) st2 hs \<and>
    view (ns_db st2) = view (ns_db st) \<and> IsRecovering (ns_vmm st2) pid"
proof -
  from r obtain st1 k ms where nr: "Node_Restore cf (st\<lparr>ns_vmm := RecoveryLock (ns_vmm st) pid\<rparr>) ckpId = (st1, Inr (of_nat k))"
    and mc: "machine (ns_vmm st1) pid \<noteq> None" and k: "k < M"
    and ms: "map (logged_meta (nc_lib cf) mode (of_nat N)) (drop (Suc k) (zip (take M its) (take M ass))) = map Some ms"
    and nn: "\<forall>m \<in> set ms. meta_Pid m = pid \<and> meta_Nonce m \<noteq> of_nat N"
    unfolding recovering_to_def by blast
  have f: "redis_good cf view" "lists_are cf (view (ns_db st)) pid its ass" "M \<le> length its" "M \<le> length ass"
    "M \<le> N" "Suc N < 2 ^ 63" "mode \<noteq> ExecModeApply" "vmm_wf (ns_vmm st)" "\<not> v_closed (ns_vmm st)"
    "\<not> IsRecovering (ns_vmm st) pid"
    using r unfolding recovering_to_def by blast+
  have wf: "vmm_wf (ns_vmm (st\<lparr>ns_vmm := RecoveryLock (ns_vmm st) pid\<rparr>))"
    using vmm_step_wf [OF f(8), of _ "VLock pid"] by simp
  note K = Node_Restore_keeps [OF wf nr]
  obtain ob env where oe: "machine (ns_vmm st1) pid = Some (ob, env)" using mc by auto
  let ?cf = "node_cfg.truncate cf" and ?xs = "drop (Suc k) (zip (take M its) (take M ass))"
  obtain ob2 env2 effs where run: "Vmm_run (obj_apply (nc_lib ?cf) (nc_ops ?cf)) (nc_cryptor ?cf) (ob, env) ms = ((ob2, env2), effs)"
    by (metis surj_pair)
  have ms': "map (logged_meta (nc_lib ?cf) mode (of_nat N)) ?xs = map Some ms" using ms by simp
  have c: "\<not> v_closed (ns_vmm st1)" "IsRecovering (ns_vmm st1) pid" "ns_db st1 = ns_db st" using K f(9) by auto
  from replay_items_run [OF conjunct1 [OF K] c(1) oe ms' _ f(7) run] nn obtain v where
    v: "replay_items ?cf mode (of_nat N) (ns_vmm st1) ?xs = Some (v, map (\<lambda>e. Applied (Some e)) effs, None)"
      "IsRecovering v pid" using c(2) by auto
  have neq: "(of_nat k :: int64) \<noteq> of_nat N"
  proof
    assume "(of_nat k :: int64) = of_nat N"
    then have "sint (of_nat k :: int64) = sint (of_nat N :: int64)" by simp
    with k f(5,6) show False by (simp only: sint_small)
  qed
  have l: "lists_are cf (view (ns_db st1)) pid its ass" using f(2) c(3) by simp
  have MN: "M \<le> Suc N" "Suc k \<le> M" using f(5) k by auto
  from rec_loop_part [OF f(1) l f(3,4) MN(1) f(6) MN(2), of closed mode "[]"] opn v(1)
  obtain db where "view db = view (ns_db st1)" "rec_loop cf closed pid mode (of_nat N) (of_nat (Suc k)) st1 [] =
      rec_loop cf closed pid mode (of_nat N) (of_nat M) (st1\<lparr>ns_db := db, ns_vmm := v\<rparr>) (map (\<lambda>e. Applied (Some e)) effs)"
    by auto
  with nr neq f(10) c(3) v(2) show ?thesis
    by (intro exI [of _ "st1\<lparr>ns_db := db, ns_vmm := v\<rparr>"] exI [of _ "map (\<lambda>e. Applied (Some e)) effs"])
       (simp add: recoveryProcess_def add.commute)
qed

text \<open>a message without a readable sequence locks its process at the next restart. If the last
  message of a process's log is one whose \<open>Sequence\<close> is no number - the node has accepted and ordered
  it - then recovery reports success, but the lock it has taken is released only by a message applied
  at the last nonce, and this one never is: from then on every item for the process is refused and
  every further recovery or resume is refused.\<close>

theorem malformed_last_locks:
  assumes "recovering_to cf view st pid ckpId mode its ass N N" and "length its = Suc N" "length ass = Suc N"
    and "Decode (nc_lib cf) (its ! N) = Inr (pid, a, f, IMessage m)"
    and "msg_Sequence m \<noteq> []" "ParseInt (msg_Sequence m) = None"
    and "TagsToAssignment (item_Tags (ass ! N)) = Inr asg" and "\<forall>n. \<not> closed n"
  shows "\<exists>st' hs. recoveryProcess cf closed st pid (of_nat N) ckpId mode = Some (st', hs, None) \<and> locked_out cf st' pid"
proof -
  from recovering_reaches [OF assms(1,8)] obtain st2 hs where
    r: "recoveryProcess cf closed st pid (of_nat N) ckpId mode =
      rec_loop cf closed pid mode (of_nat N) (of_nat N) st2 hs"
    and v: "view (ns_db st2) = view (ns_db st)" and l: "IsRecovering (ns_vmm st2) pid" by blast
  have g: "redis_good cf view" "lists_are cf (view (ns_db st2)) pid its ass" "Suc N < 2 ^ 63"
    using assms(1) v unfolding recovering_to_def by auto
  have "\<exists>e. applyMessage (node_cfg.truncate cf) (ns_vmm st2) pid a (its ! N) m asg mode (of_nat N) = (ns_vmm st2, Inl e)"
    using assms(5,6) by (auto simp: applyMessage_def split: option.splits sum.splits)
  then obtain h where h: "HandleMode (node_cfg.truncate cf) (ns_vmm st2) (its ! N) asg mode (of_nat N) = Some (ns_vmm st2, h)"
    using assms(4) by (auto simp: HandleMode_def)
  have "replay_items (node_cfg.truncate cf) mode (of_nat N) (ns_vmm st2) [(its ! N, ass ! N)] = Some (ns_vmm st2, [h], None)"
    using h assms(7) by simp
  moreover have "drop N (zip (take (Suc N) its) (take (Suc N) ass)) = [(its ! N, ass ! N)]"
    using assms(2,3) by (simp add: Cons_nth_drop_Suc [symmetric])
  ultimately obtain db where
    "rec_loop cf closed pid mode (of_nat N) (of_nat N) st2 hs =
      rec_loop cf closed pid mode (of_nat N) (of_nat (Suc N)) (st2\<lparr>ns_db := db, ns_vmm := ns_vmm st2\<rparr>) (hs @ [h])"
    using rec_loop_part [OF g(1,2) _ _ order_refl g(3), of N closed mode hs] assms(2,3,8) by auto
  moreover have "\<not> (of_nat (Suc N) :: int64) \<le>s of_nat N" using of_nat_sle [of "Suc N" N] g(3) by simp
  ultimately have "rec_loop cf closed pid mode (of_nat N) (of_nat N) st2 hs = Some (st2\<lparr>ns_db := db\<rparr>, hs @ [h], None)"
    by (simp add: rec_loop.simps [of cf closed pid mode "of_nat N" "1 + of_nat N"])
  with r l show ?thesis by (intro exI [of _ "st2\<lparr>ns_db := db\<rparr>"] exI [of _ "hs @ [h]"]) (simp add: locked_outI)
qed

text \<open>C20: a commit that broke off cannot be recovered. A commit is a pipeline, and one that fails after
  its first two commands leaves the nonce and the message without the assignment. The process's nonce
  then names an entry whose assignment is missing: recovery, which asks the chain only when both reads
  fail, dereferences the missing assignment, and the process stays locked.\<close>

theorem torn_commit_wedges:
  assumes "log_ok (nc_codec cf) ks es" and "length (items_of es pid) = N"
    and "view (ns_db st) = ks_cmds ks (take 2 (commit_cmds (nc_codec cf) pid (of_nat N) x y))"
    and "recovering_to cf view st pid ckpId mode (items_of es pid @ [x]) (assigns_of es pid) N N"
    and "\<forall>n. \<not> closed n"
  shows "snd (GetNonce (nc_redis cf) (ns_db st) pid) = Inr (of_nat N) \<and>
    (\<exists>st' hs. recoveryProcess cf closed st pid (of_nat N) ckpId mode = Some (st', hs, Some nil_panic) \<and>
       locked_out cf st' pid)"
proof -
  from recovering_reaches [OF assms(4,5)] obtain st2 hs where
    r: "recoveryProcess cf closed st pid (of_nat N) ckpId mode =
      rec_loop cf closed pid mode (of_nat N) (of_nat N) st2 hs"
    and v: "view (ns_db st2) = view (ns_db st)" and l: "IsRecovering (ns_vmm st2) pid" by blast
  have g: "redis_good cf view" "lists_are cf (view (ns_db st2)) pid (items_of es pid @ [x]) (assigns_of es pid)" "N < 2 ^ 63"
    using assms(4) v unfolding recovering_to_def by auto
  have "nth_item (assigns_of es pid) N = None" using assms(2) by (simp add: nth_item_def)
  with get_pair_log [OF g(1-3)] obtain db where
    "getMessageAndAssignByNonce cf st2 pid (of_nat N) = Some (st2\<lparr>ns_db := db\<rparr>, Inr (nth_item (items_of es pid @ [x]) N, None))"
    by auto
  then have "rec_loop cf closed pid mode (of_nat N) (of_nat N) st2 hs = Some (st2\<lparr>ns_db := db\<rparr>, hs, Some nil_panic)"
    using assms(5) by (simp add: rec_loop.simps [of cf closed pid mode "of_nat N" "of_nat N"] rec_step_def word_sle_eq)
  with r l have A: "\<exists>st' hs. recoveryProcess cf closed st pid (of_nat N) ckpId mode = Some (st', hs, Some nil_panic) \<and>
       locked_out cf st' pid"
    by (intro exI [of _ "st2\<lparr>ns_db := db\<rparr>"] exI [of _ hs]) (simp add: locked_outI)
  have k: "ks_str (view (ns_db st)) (RdbProcessNoncePrefix @ pid) = Some (FormatInt (of_nat N))"
    by (simp add: assms(3) commit_cmds_def)
  have ok: "redis_ok (nc_redis cf) view" "redis_up (nc_redis cf)" using g(1) by (auto simp: redis_good_def)
  obtain s1 r1 where 1: "rd_get (nc_redis cf) (ns_db st) (RdbProcessNoncePrefix @ pid) = (s1, r1)" by fastforce
  have 2: "view s1 = view (ns_db st)" "r1 = Reply (FormatInt (of_nat N))"
    using reply_up(1,2) [OF ok, of "ns_db st" "RdbProcessNoncePrefix @ pid"] 1 k by auto
  obtain s2 r2 where 3: "rd_get (nc_redis cf) s1 (RdbProcessNoncePrefix @ pid) = (s2, r2)" by fastforce
  have "r2 = Reply (FormatInt (of_nat N))"
    using reply_up(2) [OF ok, of s1 "RdbProcessNoncePrefix @ pid"] 2(1) 3 k by simp
  with 1 2 3 have "snd (GetNonce (nc_redis cf) (ns_db st) pid) = Inr (of_nat N)" by (simp add: GetNonce_def IsExist_def)
  with A show ?thesis by blast
qed

end
