(* ===== verification/RecoveryDemo.thy ===== *)
theory RecoveryDemo
  imports RecoveryProps
begin

text \<open>
  A file system and a node that meet the hypotheses of the recovery properties, and those properties at
  concrete states of it: a token process \<open>p\<close> with a checkpoint \<open>c1\<close> taken after its spawn.
\<close>

definition demo_files :: "(string \<Rightarrow> string option) files" where
  "demo_files =
     \<lparr>fl_stat = (\<lambda>s k. (s, if s k = None then FileMissing else FileExists)),
      fl_read = (\<lambda>s k. (s, case s k of None \<Rightarrow> Inl ''not found'' | Some d \<Rightarrow> Inr d)),
      fl_mkdir = (\<lambda>s _. (s, None)), fl_write = (\<lambda>s k d. (s(k \<mapsto> d), None))\<rparr>"

lemma demo_files_ok: "files_ok demo_files (\<lambda>s. s)"
  by (simp add: files_ok_def demo_files_def)

definition tok_env :: env where
  "tok_env = \<lparr>env_Meta = zero_meta\<lparr>meta_Pid := ''p'', meta_AccId := ''0xb'', meta_Mode := ExecModeApply\<rparr>, env_Process = zero_process,
     env_Module = zero_module\<lparr>mod_ModuleFormat := ModuleFormatToken\<rparr>, env_Nonce = 0, env_Sequence = - 1,
     env_ReceivedSeq = []\<rparr>"

definition tok_ckp :: bundle_item where
  "tok_ckp = \<lparr>item_Id = ''c1'', item_SignatureType = ArweaveSignType, item_Owner = ''w'', item_Target = [],
     item_Tags = [], item_Data = ''snap''\<rparr>"

definition tok_cfg :: "(nat, keyspace \<times> nat list, unit, unit, unit, string \<Rightarrow> string option) rec_cfg" where
  "tok_cfg =
     \<lparr>nc_lib = demo_lib, nc_redis = demo_up, nc_codec = demo_codec, nc_sign = demo_signer,
      nc_ops = demo_ops, nc_cryptor = None, nc_address = ''0xa'', nc_handlers = [],
      nc_fetch = (\<lambda>_ _. Inl nil_panic), nc_module = (\<lambda>_. Inr zero_module),
      rc_files = demo_files,
      rc_codec = \<lparr>enc_token = (\<lambda>_. ''t''), dec_token = (\<lambda>_. Some (TokenDb_Checkpoint (genesis_token tok_env))),
        enc_registry = (\<lambda>_. []), dec_registry = (\<lambda>_. None)\<rparr>,
      rc_enc_snap = (\<lambda>_. ''snap''), rc_dec_snap = (\<lambda>_. Some \<lparr>snap_Env = saved_env tok_env, snap_Data = ''t''\<rparr>),
      rc_sign = (\<lambda>d _ _ _. Some (tok_ckp\<lparr>item_Data := d\<rparr>)), rc_partial = (\<lambda>_ _. tok_ckp), rc_chain = None\<rparr>"

definition log_item :: "string \<Rightarrow> tag list \<Rightarrow> bundle_item" where
  "log_item i tags = \<lparr>item_Id = i, item_SignatureType = ArweaveSignType, item_Owner = ''w'', item_Target = ''p'',
     item_Tags = tags, item_Data = []\<rparr>"

definition info_item :: bundle_item where
  "info_item = log_item ''m1'' [Tag ''Type'' ''Message'', Tag ''Action'' ''Info'']"

definition info_assign :: bundle_item where
  "info_assign = log_item ''a1'' [Tag ''Process'' ''p'', Tag ''Message'' ''m1'', Tag ''Nonce'' ''1'', Tag ''Timestamp'' ''7'']"

definition tok_log :: "entry list" where
  "tok_log = [(''p'', log_item ''p'' [], log_item ''a0'' []), (''p'', info_item, info_assign)]"

definition tok_vmm :: "nat vmm" where
  "tok_vmm = (Vmm_New [] True)\<lparr>v_token := Some 0, v_objs := [ObjToken (genesis_token tok_env)],
     v_vms := [(''p'', \<lparr>inst_vm = 0, inst_env = tok_env\<rparr>)]\<rparr>"

definition tok_state :: "nat vmm \<Rightarrow> keyspace \<Rightarrow> (string \<Rightarrow> string option) \<Rightarrow>
    (nat, keyspace \<times> nat list, unit, unit, unit, string \<Rightarrow> string option) rec_state" where
  "tok_state v ks fs =
     \<lparr>ns_vmm = v, ns_db = (ks, []), ns_handler = (), ns_mes = [], ns_proc = [], ns_AccId = ''0xa'',
      ns_Token = [], ns_Registry = [], rs_files = fs, rs_up = (), rs_op = ()\<rparr>"

lemma tok_params: "ckp_params tok_cfg" "files_ok (rc_files tok_cfg) (\<lambda>s. s)" "redis_ok (nc_redis tok_cfg) fst"
  "redis_up (nc_redis tok_cfg)" "redis_good tok_cfg fst"
  using demo_codec_ok demo_files_ok demo_up_ok
  by (simp_all add: ckp_params_def redis_good_def tok_cfg_def demo_lib_def)

lemma tok_texts: "snap_texts tok_cfg (ObjToken (genesis_token tok_env)) tok_env"
  "core_machine (ObjToken (genesis_token tok_env)) tok_env"
  by (simp_all add: snap_texts_def tok_cfg_def obj_checkpoint_def core_machine_def tok_env_def)

definition tok_files :: "string \<Rightarrow> string option" where
  "tok_files = [ckp_file ''c1'' \<mapsto> enc_item demo_codec tok_ckp]"

lemma tok_save:
  "SaveCheckpoint tok_cfg (tok_state tok_vmm empty_keyspace (\<lambda>_. None)) ''p'' =
     (tok_state tok_vmm (ks_cmd empty_keyspace (CSet (RdbCheckpointIndexPrefix @ ''p'') ''c1''))
        tok_files, None)"
  unfolding tok_files_def
  by (simp add: SaveCheckpoint_def Node_Checkpoint_def Vmm_Checkpoint_def getInstance_def tok_vmm_def tok_state_def
      Vmm_New_def obj_checkpoint_def signCheckpoint_def write_checkpoint_def SaveCheckpointIndex_def exec_err_def
      tok_cfg_def demo_files_def demo_up_def tok_ckp_def CheckpointToTags_def CheckDuplicateTag_def BaseToTags_def
      tok_env_def zero_meta_def Let_def)

definition log_keys :: "entry list \<Rightarrow> keyspace" where
  "log_keys es = foldl (\<lambda>ks (n, p, x, y). ks_cmds ks (commit_cmds demo_codec p (of_nat n) x y)) empty_keyspace
     (zip [0..<length es] es)"

lemma tok_logs:
  "log_ok demo_codec (log_keys (take 1 tok_log)) (take 1 tok_log)"
  "log_ok demo_codec (log_keys tok_log) tok_log"
proof -
  let ?e0 = "(''p'', log_item ''p'' [], log_item ''a0'' [])"
  have 1: "log_ok demo_codec (ks_cmds empty_keyspace (commit_cmds demo_codec ''p'' 0 (log_item ''p'' []) (log_item ''a0'' []))) [?e0]"
    using log_ok_commit [OF log_ok_empty [of demo_codec], of "log_item ''p'' []" "''p''" "log_item ''a0'' []"]
    by (simp add: items_of_def) (simp add: empty_keyspace_def)
  then show "log_ok demo_codec (log_keys (take 1 tok_log)) (take 1 tok_log)"
    by (simp add: log_keys_def tok_log_def)
  have "log_ok demo_codec (ks_cmds (ks_cmds empty_keyspace (commit_cmds demo_codec ''p'' 0 (log_item ''p'' []) (log_item ''a0'' [])))
     (commit_cmds demo_codec ''p'' (of_nat (length (items_of [?e0] ''p''))) info_item info_assign)) ([?e0] @ [(''p'', info_item, info_assign)])"
    by (rule log_ok_commit [OF 1]) (simp add: info_item_def log_item_def commit_cmds_def empty_keyspace_def)
  then show "log_ok demo_codec (log_keys tok_log) tok_log"
    by (simp add: log_keys_def tok_log_def items_of_def)
qed

lemma tok_lists: "items_of tok_log ''p'' = [log_item ''p'' [], info_item]" "assigns_of tok_log ''p'' = [log_item ''a0'' [], info_assign]"
  by (simp_all add: tok_log_def items_of_def assigns_of_def)

lemma info_meta:
  "\<exists>mt. logged_meta demo_lib mode mx (info_item, info_assign) = Some mt \<and> meta_Pid mt = ''p'' \<and> meta_Nonce mt = 1"
proof -
  have p: "ParseInt ''1'' = Some 1" "ParseInt ''7'' = Some 7"
    by (simp_all add: ParseInt_def big_SetString_def parse_nat_def digit_val_def)
  have a: "TagsToAssignment (item_Tags info_assign) = Inr \<lparr>asg_Base = zero_base, asg_Process = ''p'', asg_Message = ''m1'',
      asg_Nonce = ''1'', asg_Timestamp = ''7''\<rparr>"
    by (simp add: TagsToAssignment_def info_assign_def log_item_def CheckDuplicateTag_def zero_assignment_def TagsToBase_def)
  obtain m where m: "Decode demo_lib info_item = Inr (''p'', ''w'', [], IMessage m)" "msg_Sequence m = []"
    by (simp add: Decode_def item_signer_def demo_lib_def info_item_def log_item_def GetType_def type_defs
        DecodeItemToMessage_def TagsToMessage_def CheckDuplicateTag_def zero_msg_def reserved_defs TagsToBase_def)
  obtain ps where "TagsToParams (msg_Tags m) = Inr ps"
    using Decode_message_params [OF m(1)] by blast
  with a m p show ?thesis by (simp add: logged_meta_def)
qed


text \<open>A restart with the checkpoint.\<close>

lemma tok_restored:
  "\<exists>st1. Node_Restore tok_cfg (tok_state (RecoveryLock (Vmm_New [] True) ''p'') ks tok_files) ''c1'' = (st1, Inr (of_nat 0)) \<and>
    machine (ns_vmm st1) ''p'' \<noteq> None"
proof -
  let ?st = "tok_state (RecoveryLock (Vmm_New [] True) ''p'') ks tok_files"
  have sn: "stored_snapshot tok_cfg (\<lambda>s. s) (rs_files ?st) ''c1'' \<lparr>snap_Env = tok_env, snap_Data = ''t''\<rparr>"
    unfolding stored_snapshot_def
    by (intro exI [of _ tok_ckp]) (simp add: tok_state_def tok_files_def tok_cfg_def demo_lib_def tok_ckp_def)
  have tx: "rc_dec_snap tok_cfg (rc_enc_snap tok_cfg \<lparr>snap_Env = tok_env, snap_Data = ''t''\<rparr>) =
      Some \<lparr>snap_Env = saved_env tok_env, snap_Data = ''t''\<rparr>" by (simp add: tok_cfg_def)
  have d: "obj_checkpoint (rc_codec tok_cfg) (nc_ops tok_cfg) (ObjToken (genesis_token tok_env)) = Inr ''t''"
    by (simp add: obj_checkpoint_def tok_cfg_def)
  have pid: "meta_Pid (env_Meta (saved_env tok_env)) = ''p''" by (simp add: tok_env_def)
  have c: "core_machine (ObjToken (genesis_token tok_env)) (saved_env tok_env)" using tok_texts(2) by simp
  have v: "core_ready (ns_vmm ?st) ''p'' (ObjToken (genesis_token tok_env))"
    by (simp add: tok_state_def core_ready_New)
  from Vmm_Restore_core [OF tok_texts(1) v c d pid, of demo_lib] obtain v' ob' where
    "Vmm_Restore demo_lib (rc_codec tok_cfg) (nc_ops tok_cfg) (ns_vmm ?st) \<lparr>snap_Env = saved_env tok_env, snap_Data = ''t''\<rparr> = (v', None)"
    "machine v' ''p'' = Some (ob', saved_env tok_env)" by blast
  with Node_Restore_stored [OF tok_params(1,2) sn tx] show ?thesis by (auto simp: tok_cfg_def tok_env_def)
qed

lemma tok_recovering:
  assumes "lists_are tok_cfg ks ''p'' its ass" "1 \<le> length its" "1 \<le> length ass"
  shows "recovering_to tok_cfg fst (tok_state (Vmm_New [] True) ks tok_files) ''p'' ''c1'' ExecModeDryRun its ass 1 1"
proof -
  obtain st1 where "Node_Restore tok_cfg (tok_state (RecoveryLock (Vmm_New [] True) ''p'') ks tok_files) ''c1'' = (st1, Inr (of_nat 0))"
    "machine (ns_vmm st1) ''p'' \<noteq> None" using tok_restored by blast
  then show ?thesis
    unfolding recovering_to_def
    using assms tok_params(5) vmm_wf_New
    by (auto simp: tok_state_def Vmm_New_def IsRecovering_def RecoveryLock_def intro!: exI [of _ st1] exI [of _ "0::nat"])
qed

definition bad_item :: bundle_item where
  "bad_item = log_item ''m1'' [Tag ''Type'' ''Message'', Tag ''Sequence'' ''x'']"

theorem malformed_last_locks_witness:
  "\<exists>st' hs. recoveryProcess tok_cfg (\<lambda>_. False) (tok_state (Vmm_New [] True)
      (log_keys [(''p'', log_item ''p'' [], log_item ''a0'' []), (''p'', bad_item, info_assign)]) tok_files)
      ''p'' 1 ''c1'' ExecModeDryRun = Some (st', hs, None) \<and> locked_out tok_cfg st' ''p''"
proof -
  let ?ks = "log_keys [(''p'', log_item ''p'' [], log_item ''a0'' []), (''p'', bad_item, info_assign)]"
  let ?its = "[log_item ''p'' [], bad_item]" and ?ass = "[log_item ''a0'' [], info_assign]"
  have l: "lists_are tok_cfg ?ks ''p'' ?its ?ass"
    by (simp add: lists_are_def log_keys_def commit_cmds_def tok_cfg_def empty_keyspace_def rdb_keys)
  obtain m where m: "Decode (nc_lib tok_cfg) (?its ! 1) = Inr (''p'', ''w'', [], IMessage m)" "msg_Sequence m = ''x''"
    by (simp add: Decode_def item_signer_def demo_lib_def tok_cfg_def bad_item_def log_item_def GetType_def type_defs
        DecodeItemToMessage_def TagsToMessage_def CheckDuplicateTag_def zero_msg_def reserved_defs TagsToBase_def)
  have p: "msg_Sequence m \<noteq> []" "ParseInt (msg_Sequence m) = None"
    by (simp_all add: m(2) ParseInt_def big_SetString_def parse_nat_def digit_val_def)
  obtain asg where a: "TagsToAssignment (item_Tags (?ass ! 1)) = Inr asg"
    by (simp add: TagsToAssignment_def info_assign_def log_item_def CheckDuplicateTag_def)
  have len: "length ?its = Suc 1" "length ?ass = Suc 1" "\<forall>n. \<not> (\<lambda>_. False) n" by simp_all
  from malformed_last_locks [OF tok_recovering [OF l] len(1,2) m(1) p a len(3)] show ?thesis by simp
qed

theorem torn_commit_wedges_witness:
  "snd (GetNonce demo_up (ks_cmds (log_keys (take 1 tok_log)) (take 2 (commit_cmds demo_codec ''p'' 1 info_item info_assign)), []) ''p'') = Inr 1 \<and>
   (\<exists>st' hs. recoveryProcess tok_cfg (\<lambda>_. False) (tok_state (Vmm_New [] True)
      (ks_cmds (log_keys (take 1 tok_log)) (take 2 (commit_cmds demo_codec ''p'' 1 info_item info_assign))) tok_files)
      ''p'' 1 ''c1'' ExecModeDryRun = Some (st', hs, Some nil_panic) \<and> locked_out tok_cfg st' ''p'')"
proof -
  let ?es = "take 1 tok_log"
  let ?ks = "ks_cmds (log_keys ?es) (take 2 (commit_cmds demo_codec ''p'' (of_nat 1) info_item info_assign))"
  have es: "items_of ?es ''p'' = [log_item ''p'' []]" "assigns_of ?es ''p'' = [log_item ''a0'' []]"
    by (simp_all add: tok_log_def items_of_def assigns_of_def)
  have l: "lists_are tok_cfg ?ks ''p'' (items_of ?es ''p'' @ [info_item]) (assigns_of ?es ''p'')"
    unfolding es
    by (simp add: lists_are_def log_keys_def tok_log_def commit_cmds_def tok_cfg_def empty_keyspace_def rdb_keys)
  have log: "log_ok (nc_codec tok_cfg) (log_keys ?es) ?es" using tok_logs(1) by (simp add: tok_cfg_def)
  have len: "length (items_of ?es ''p'') = 1" "\<forall>n. \<not> (\<lambda>_. False) n"
    by (simp_all add: es del: One_nat_def)
  let ?st = "tok_state (Vmm_New [] True) ?ks tok_files"
  have v: "fst (ns_db ?st) = ks_cmds (log_keys ?es) (take 2 (commit_cmds (nc_codec tok_cfg) ''p'' (of_nat 1) info_item info_assign))"
    by (simp add: tok_state_def tok_cfg_def)
  have r: "recovering_to tok_cfg fst ?st ''p'' ''c1'' ExecModeDryRun (items_of ?es ''p'' @ [info_item]) (assigns_of ?es ''p'') 1 1"
    by (rule tok_recovering [OF l]) (simp_all add: es del: One_nat_def)
  from torn_commit_wedges [OF log len(1) v r len(2)] show ?thesis
    by (simp add: tok_state_def tok_cfg_def del: One_nat_def)
qed

end
