(* ===== verification/Cryptor.thy ===== *)
theory Cryptor
  imports VmmApply
begin

text \<open>
  The encryption of parameters (cryptor/cryptor.go). A key is its byte string; the curve, the
  hexadecimal and the base64 texts are functions of other packages, and the random bytes of an
  encryption are an argument. The documented behaviour the code relies on is \<open>ecc_ok\<close>.
\<close>

record ecc_lib =
  ec_NewSigner :: "string \<Rightarrow> (string \<times> string) option"
  ec_public :: "string \<Rightarrow> string"
  ec_Encrypt :: "nat \<Rightarrow> string \<Rightarrow> string \<Rightarrow> string option"
  ec_Decrypt :: "string \<Rightarrow> string \<Rightarrow> string option"
  ec_FromECDSAPub :: "string \<Rightarrow> string"
  ec_UnmarshalPubkey :: "string \<Rightarrow> string option"
  hexutil_Encode :: "string \<Rightarrow> string"
  hexutil_Decode :: "string \<Rightarrow> string option"
  b64_EncodeToString :: "string \<Rightarrow> string"
  b64_DecodeString :: "string \<Rightarrow> string option"

record cryptor =
  cr_Address :: string
  cr_eccPrivate :: "string option"
  cr_eccPublic :: "string option"

definition ErrMissingKey :: sys_err where "ErrMissingKey = OtherErr ''err_missing_key''"
definition ErrInvalidPublicKey :: sys_err where "ErrInvalidPublicKey = OtherErr ''err_invalid_public_key''"
definition ecc_err :: sys_err where "ecc_err = OtherErr ''ecies''"

text \<open>\<open>strings.TrimSpace\<close> of a text in ASCII.\<close>

definition is_space :: "char \<Rightarrow> bool" where
  "is_space c \<longleftrightarrow> (of_char c :: nat) \<in> {9, 10, 11, 12, 13, 32}"

definition TrimSpace :: "string \<Rightarrow> string" where
  "TrimSpace s = rev (dropWhile is_space (rev (dropWhile is_space s)))"

definition NewECCFromPrivateKey :: "ecc_lib \<Rightarrow> string \<Rightarrow> sys_err + cryptor" where
  "NewECCFromPrivateKey el prvKey =
     (case ec_NewSigner el prvKey of
        None \<Rightarrow> Inl ecc_err
      | Some (addr, k) \<Rightarrow> Inr \<lparr>cr_Address = addr, cr_eccPrivate = Some k, cr_eccPublic = Some (ec_public el k)\<rparr>)"

definition parseECCPublicKey :: "ecc_lib \<Rightarrow> string \<Rightarrow> sys_err + string" where
  "parseECCPublicKey el publicKey =
     (let pk = TrimSpace publicKey in
      if HasPrefix pk ''0x''
      then (case hexutil_Decode el pk of
          None \<Rightarrow> Inl ecc_err
        | Some by \<Rightarrow> (case ec_UnmarshalPubkey el by of None \<Rightarrow> Inl ecc_err | Some pub \<Rightarrow> Inr pub))
      else Inl ErrInvalidPublicKey)"

definition NewFromPublicKey :: "ecc_lib \<Rightarrow> string \<Rightarrow> sys_err + cryptor" where
  "NewFromPublicKey el publicKey =
     (case parseECCPublicKey el publicKey of
        Inl e \<Rightarrow> Inl e
      | Inr pub \<Rightarrow> Inr \<lparr>cr_Address = [], cr_eccPrivate = None, cr_eccPublic = Some pub\<rparr>)"

definition Cryptor_Encrypt :: "ecc_lib \<Rightarrow> cryptor \<Rightarrow> nat \<Rightarrow> string \<Rightarrow> sys_err + string" where
  "Cryptor_Encrypt el c rnd plaintext =
     (case cr_eccPublic c of
        None \<Rightarrow> Inl ErrMissingKey
      | Some pub \<Rightarrow>
          (case ec_Encrypt el rnd pub plaintext of
             None \<Rightarrow> Inl ecc_err | Some ct \<Rightarrow> Inr (b64_EncodeToString el ct)))"

definition Cryptor_Decrypt :: "ecc_lib \<Rightarrow> cryptor \<Rightarrow> string \<Rightarrow> sys_err + string" where
  "Cryptor_Decrypt el c ciphertext =
     (case b64_DecodeString el ciphertext of
        None \<Rightarrow> Inl ecc_err
      | Some by \<Rightarrow>
     (case cr_eccPrivate c of
        None \<Rightarrow> Inl ErrMissingKey
      | Some k \<Rightarrow> (case ec_Decrypt el k by of None \<Rightarrow> Inl ecc_err | Some p \<Rightarrow> Inr p)))"

definition Cryptor_PublicKey :: "ecc_lib \<Rightarrow> cryptor \<Rightarrow> sys_err + string" where
  "Cryptor_PublicKey el c =
     (case cr_eccPublic c of None \<Rightarrow> Inl ErrMissingKey | Some pub \<Rightarrow> Inr (hexutil_Encode el (ec_FromECDSAPub el pub)))"

text \<open>The decryption the machine manager is given.\<close>

definition cryptor_decrypt :: "ecc_lib \<Rightarrow> cryptor \<Rightarrow> string \<Rightarrow> string option" where
  "cryptor_decrypt el c s = (case Cryptor_Decrypt el c s of Inl _ \<Rightarrow> None | Inr p \<Rightarrow> Some p)"

subsection \<open>A public key carries what is needed to write to its owner\<close>

definition ecc_ok :: "ecc_lib \<Rightarrow> bool" where
  "ecc_ok el \<longleftrightarrow>
     (\<forall>r k p c. ec_Encrypt el r (ec_public el k) p = Some c \<longrightarrow> ec_Decrypt el k c = Some p \<and> c \<noteq> []) \<and>
     (\<forall>x. b64_EncodeToString el x = [] \<longrightarrow> x = []) \<and>
     (\<forall>x. b64_DecodeString el (b64_EncodeToString el x) = Some x) \<and>
     (\<forall>p. ec_UnmarshalPubkey el (ec_FromECDSAPub el p) = Some p) \<and>
     (\<forall>x. hexutil_Decode el (hexutil_Encode el x) = Some x \<and> HasPrefix (hexutil_Encode el x) ''0x'' \<and>
        TrimSpace (hexutil_Encode el x) = hexutil_Encode el x)"

lemma ecc_ok_D:
  assumes "ecc_ok el"
  shows "ec_Encrypt el r (ec_public el k) p = Some c \<Longrightarrow> ec_Decrypt el k c = Some p \<and> b64_EncodeToString el c \<noteq> []"
    "b64_DecodeString el (b64_EncodeToString el x) = Some x"
    "ec_UnmarshalPubkey el (ec_FromECDSAPub el q) = Some q"
    "hexutil_Decode el (hexutil_Encode el x) = Some x" "HasPrefix (hexutil_Encode el x) ''0x''"
    "TrimSpace (hexutil_Encode el x) = hexutil_Encode el x"
  using assms unfolding ecc_ok_def by blast+

text \<open>A node key and the encryptor a client makes from the public key the node announces.\<close>

definition announces :: "ecc_lib \<Rightarrow> cryptor \<Rightarrow> string \<Rightarrow> bool" where
  "announces el c pk \<longleftrightarrow> (\<exists>prv. NewECCFromPrivateKey el prv = Inr c) \<and> Cryptor_PublicKey el c = Inr pk"

lemma announced_key:
  assumes ok: "ecc_ok el" and a: "announces el c pk"
  obtains e where "NewFromPublicKey el pk = Inr e"
    "\<And>r p x. Cryptor_Encrypt el e r p = Inr x \<Longrightarrow> cryptor_decrypt el c x = Some p \<and> x \<noteq> []"
proof -
  obtain addr k where c: "c = \<lparr>cr_Address = addr, cr_eccPrivate = Some k, cr_eccPublic = Some (ec_public el k)\<rparr>"
    using a by (auto simp: announces_def NewECCFromPrivateKey_def split: option.splits)
  then have pk: "pk = hexutil_Encode el (ec_FromECDSAPub el (ec_public el k))"
    using a by (simp add: announces_def Cryptor_PublicKey_def)
  let ?e = "\<lparr>cr_Address = [], cr_eccPrivate = None, cr_eccPublic = Some (ec_public el k)\<rparr>"
  have "NewFromPublicKey el pk = Inr ?e"
    using ecc_ok_D [OF ok] by (simp add: NewFromPublicKey_def parseECCPublicKey_def pk Let_def)
  moreover have "cryptor_decrypt el c x = Some p \<and> x \<noteq> []" if enc: "Cryptor_Encrypt el ?e r p = Inr x" for r p x
  proof -
    obtain ct where ct: "ec_Encrypt el r (ec_public el k) p = Some ct" "x = b64_EncodeToString el ct"
      using enc by (auto simp: Cryptor_Encrypt_def split: option.splits)
    with ecc_ok_D(1) [OF ok ct(1)] ecc_ok_D(2) [OF ok] show ?thesis
      by (simp add: cryptor_decrypt_def Cryptor_Decrypt_def c)
  qed
  ultimately show ?thesis using that by blast
qed

end
