(* ===== verification/SdkClient.thy ===== *)
theory SdkClient
  imports Cryptor Rdb
begin

text \<open>
  The HTTP client of a node (sdk/client.go, sdk/binary.go). The network is a parameter: a function of
  its state \<open>'n\<close> and a request, so that a theorem about a client holds for every server. Also
  parameters: net/url and mime on texts, the JSON texts, and the encoding, decoding and verification
  of bundle items by goar. \<open>'j\<close> is an item as its JSON text gives it, with the signed bytes of its
  tags: no client reads its fields. A panic is the error \<open>nil_panic\<close>.
\<close>

subsection \<open>Requests and responses\<close>

record url =
  url_Base :: string
  url_Path :: string
  url_RawQuery :: string

record url_lib =
  url_Parse :: "string \<Rightarrow> url option"
  url_ResolveReference :: "url \<Rightarrow> url \<Rightarrow> url"
  url_String :: "url \<Rightarrow> string"
  url_QueryEscape :: "string \<Rightarrow> string"
  mime_ParseMediaType :: "string \<Rightarrow> string option"

record http_req =
  rq_Method :: string
  rq_URL :: url
  rq_Header :: "(string \<times> string) list"
  rq_Body :: string

text \<open>\<open>rp_EOF\<close>: the body arrives completely, so that \<open>io.ReadAll\<close> has no error.\<close>

record http_resp =
  rp_Status :: nat
  rp_ContentType :: string
  rp_Location :: string
  rp_Body :: string
  rp_EOF :: bool

text \<open>\<open>json.NewDecoder(body).Decode\<close> of the bytes that arrive; \<open>None\<close> is an error.\<close>

type_synonym 'a body_dec = "string \<Rightarrow> bool \<Rightarrow> 'a option"

record info =
  inf_Protocol :: string
  inf_Variant :: string
  inf_NodeVersion :: string
  inf_JoinNetwork :: bool
  inf_Token :: string
  inf_Registry :: string
  inf_Node :: node
  inf_VmCount :: int64
  inf_EncryptionPublicKey :: string

record response =
  resp_Id :: string
  resp_Message :: string

record results_edge =
  re_Cursor :: string
  re_Node :: vmm_result

record 'j api_dec =
  ad_response :: "response body_dec"
  ad_info :: "info body_dec"
  ad_result :: "vmm_result body_dec"
  ad_results :: "results_edge list body_dec"
  ad_item :: "'j body_dec"
  ad_nonce :: "int64 body_dec"
  ad_module :: "module body_dec"
  ad_strings :: "string list body_dec"
  ad_node_map :: "(string, node) gomap body_dec"
  ad_node :: "node option body_dec"
  ad_nodes :: "node list body_dec"
  ad_text :: "string body_dec"
  ad_trysend :: "string \<times> string \<Rightarrow> string"

datatype bin_result = BinItem bundle_item | BinErr string | BinPanic string

record ('n, 'j) sdk_cfg =
  sk_lib :: extlib
  sk_ecc :: ecc_lib
  sk_url :: url_lib
  sk_net :: "'n \<Rightarrow> http_req \<Rightarrow> 'n \<times> (string + http_resp)"
  sk_dec :: "'j api_dec"
  sk_GenerateItemBinary :: "'j \<Rightarrow> string + string"
  sk_DecodeBundleItem :: "string \<Rightarrow> bin_result"

record client =
  cl_baseURL :: string
  cl_httpClient :: bool
  cl_cryptor :: "cryptor option"

text \<open>A pointer to an \<open>http.Client\<close> that is nil only in a client nobody initialised.\<close>

definition zero_client :: client where
  "zero_client = \<lparr>cl_baseURL = [], cl_httpClient = False, cl_cryptor = None\<rparr>"

definition NewClient :: "string \<Rightarrow> client" where
  "NewClient hmxURL = \<lparr>cl_baseURL = hmxURL, cl_httpClient = True, cl_cryptor = None\<rparr>"

text \<open>The errors of the model that stand for a panic.\<close>

definition is_panic :: "sys_err \<Rightarrow> bool" where
  "is_panic e \<longleftrightarrow> e \<in> {nil_panic, index_panic, CodecErr SlicePanic}"

definition url_err :: sys_err where "url_err = OtherErr ''url''"

definition status_err :: "nat \<Rightarrow> sys_err" where
  "status_err n = OtherErr (''invalid server response: '' @ show_nat n)"

definition is_2xx :: "http_resp \<Rightarrow> bool" where
  "is_2xx r \<longleftrightarrow> 200 \<le> rp_Status r \<and> rp_Status r < 300"

definition buildURL :: "('n, 'j) sdk_cfg \<Rightarrow> client \<Rightarrow> string \<Rightarrow> sys_err + string" where
  "buildURL cf c path =
     (case url_Parse (sk_url cf) (cl_baseURL c) of
        None \<Rightarrow> Inl url_err
      | Some baseURL \<Rightarrow>
          (case url_Parse (sk_url cf) path of
             None \<Rightarrow> Inl url_err
           | Some relativePath \<Rightarrow> Inr (url_String (sk_url cf) (url_ResolveReference (sk_url cf) baseURL relativePath))))"

text \<open>\<open>http.NewRequest\<close> and \<open>httpClient.Do\<close>.\<close>

definition NewRequest ::
  "('n, 'j) sdk_cfg \<Rightarrow> string \<Rightarrow> string \<Rightarrow> (string \<times> string) list \<Rightarrow> string \<Rightarrow> sys_err + http_req" where
  "NewRequest cf meth u hs body =
     (case url_Parse (sk_url cf) u of
        None \<Rightarrow> Inl url_err
      | Some v \<Rightarrow> Inr \<lparr>rq_Method = meth, rq_URL = v, rq_Header = hs, rq_Body = body\<rparr>)"

definition http_Do ::
  "('n, 'j) sdk_cfg \<Rightarrow> client \<Rightarrow> 'n \<Rightarrow> http_req \<Rightarrow> 'n \<times> (sys_err + http_resp)" where
  "http_Do cf c n q =
     (if \<not> cl_httpClient c then (n, Inl nil_panic)
      else case sk_net cf n q of (n', Inl e) \<Rightarrow> (n', Inl (OtherErr e)) | (n', Inr r) \<Rightarrow> (n', Inr r))"

definition request_of ::
  "('n, 'j) sdk_cfg \<Rightarrow> client \<Rightarrow> string \<Rightarrow> string \<Rightarrow> (string \<times> string) list \<Rightarrow> string \<Rightarrow> sys_err + http_req" where
  "request_of cf c meth path hs body =
     (case buildURL cf c path of Inl e \<Rightarrow> Inl e | Inr u \<Rightarrow> NewRequest cf meth u hs body)"

definition http_Get :: "('n, 'j) sdk_cfg \<Rightarrow> client \<Rightarrow> 'n \<Rightarrow> string \<Rightarrow> 'n \<times> (sys_err + http_resp)" where
  "http_Get cf c n path =
     (case request_of cf c ''GET'' path [] [] of Inl e \<Rightarrow> (n, Inl e) | Inr q \<Rightarrow> http_Do cf c n q)"

definition decode_2xx :: "'a body_dec \<Rightarrow> http_resp \<Rightarrow> sys_err + 'a" where
  "decode_2xx d r =
     (if \<not> is_2xx r then Inl (status_err (rp_Status r))
      else case d (rp_Body r) (rp_EOF r) of None \<Rightarrow> Inl json_err | Some x \<Rightarrow> Inr x)"

definition get_json ::
  "('n, 'j) sdk_cfg \<Rightarrow> client \<Rightarrow> 'n \<Rightarrow> string \<Rightarrow> 'a body_dec \<Rightarrow> 'n \<times> (sys_err + 'a)" where
  "get_json cf c n path d =
     (case http_Get cf c n path of (n', Inl e) \<Rightarrow> (n', Inl e) | (n', Inr r) \<Rightarrow> (n', decode_2xx d r))"

subsection \<open>Redirects\<close>

fun redirect_loop ::
  "('n, 'j) sdk_cfg \<Rightarrow> client \<Rightarrow> 'n \<Rightarrow> http_req \<Rightarrow> string \<Rightarrow> node list \<Rightarrow> 'n \<times> (http_resp \<times> string) option" where
  "redirect_loop cf c n q body [] = (n, None)"
| "redirect_loop cf c n q body (nd # nds) =
     (case url_Parse (sk_url cf) (node_URL nd) of
        None \<Rightarrow> redirect_loop cf c n q body nds
      | Some u \<Rightarrow>
          (let newURL = (if url_Path u = [] \<or> url_Path u = ''/''
                 then u\<lparr>url_Path := url_Path (rq_URL q), url_RawQuery := url_RawQuery (rq_URL q)\<rparr> else u);
               target = url_String (sk_url cf) newURL
           in case NewRequest cf (rq_Method q) target (rq_Header q) body of
                Inl _ \<Rightarrow> redirect_loop cf c n q body nds
              | Inr newReq \<Rightarrow>
                  (case http_Do cf c n (newReq\<lparr>rq_URL := newURL\<rparr>) of
                     (n', Inl _) \<Rightarrow> redirect_loop cf c n' q body nds
                   | (n', Inr r) \<Rightarrow>
                       if is_2xx r then (n', Some (r, target)) else redirect_loop cf c n' q body nds)))"

definition handleRedirect ::
  "('n, 'j) sdk_cfg \<Rightarrow> client \<Rightarrow> 'n \<Rightarrow> http_resp \<Rightarrow> http_req \<Rightarrow> string \<Rightarrow> 'n \<times> (sys_err + http_resp \<times> string)" where
  "handleRedirect cf c n resp q body =
     (if rp_Status resp \<noteq> 308 then (n, Inr (resp, []))
      else if \<not> rp_EOF resp then (n, Inl (OtherErr ''failed to read redirect response''))
      else case ad_nodes (sk_dec cf) (rp_Body resp) True of
        None \<Rightarrow> (n, Inl (OtherErr ''failed to parse redirect response''))
      | Some nodes \<Rightarrow>
          (case redirect_loop cf c n q body nodes of
             (n', Some found) \<Rightarrow> (n', Inr found)
           | (n', None) \<Rightarrow> (n', Inr (resp\<lparr>rp_Status := 308\<rparr>, []))))"

subsection \<open>Endpoints\<close>

definition json_header :: "(string \<times> string) list" where
  "json_header = [(''Content-Type'', ''application/json'')]"

text \<open>A response comes with the URL it was redirected to.\<close>

definition Client_Send ::
  "('n, 'j) sdk_cfg \<Rightarrow> client \<Rightarrow> 'n \<Rightarrow> string \<Rightarrow> 'n \<times> (sys_err + response \<times> string)" where
  "Client_Send cf c n itemBin =
     (case request_of cf c ''POST'' ''/'' json_header itemBin of
        Inl e \<Rightarrow> (n, Inl e)
      | Inr q \<Rightarrow>
     (case http_Do cf c n q of
        (n1, Inl e) \<Rightarrow> (n1, Inl e)
      | (n1, Inr resp) \<Rightarrow>
     (case handleRedirect cf c n1 resp q itemBin of
        (n2, Inl e) \<Rightarrow> (n2, Inl e)
      | (n2, Inr (resp', redirectedURL)) \<Rightarrow>
          (n2, case decode_2xx (ad_response (sk_dec cf)) resp' of Inl e \<Rightarrow> Inl e | Inr res \<Rightarrow> Inr (res, redirectedURL)))))"

definition Client_Info :: "('n, 'j) sdk_cfg \<Rightarrow> client \<Rightarrow> 'n \<Rightarrow> 'n \<times> (sys_err + info)" where
  "Client_Info cf c n = get_json cf c n ''/info'' (ad_info (sk_dec cf))"

definition SetCryptor :: "client \<Rightarrow> cryptor option \<Rightarrow> client" where
  "SetCryptor c encryptor = c\<lparr>cl_cryptor := encryptor\<rparr>"

definition SetCryptorFromInfo :: "('n, 'j) sdk_cfg \<Rightarrow> client \<Rightarrow> string \<Rightarrow> client \<times> sys_err option" where
  "SetCryptorFromInfo cf c publicKey =
     (case NewFromPublicKey (sk_ecc cf) publicKey of
        Inl e \<Rightarrow> (c, Some e) | Inr encryptor \<Rightarrow> (c\<lparr>cl_cryptor := Some encryptor\<rparr>, None))"

definition GetCryptor ::
  "('n, 'j) sdk_cfg \<Rightarrow> client \<Rightarrow> 'n \<Rightarrow> client \<times> 'n \<times> (sys_err + cryptor)" where
  "GetCryptor cf c n =
     (case cl_cryptor c of
        Some e \<Rightarrow> (c, n, Inr e)
      | None \<Rightarrow>
     (case Client_Info cf c n of
        (n1, Inl e) \<Rightarrow> (c, n1, Inl e)
      | (n1, Inr nodeInfo) \<Rightarrow>
     (case SetCryptorFromInfo cf c (inf_EncryptionPublicKey nodeInfo) of
        (c1, Some e) \<Rightarrow> (c1, n1, Inl e)
      | (c1, None) \<Rightarrow> (c1, n1, case cl_cryptor c1 of None \<Rightarrow> Inl nil_panic | Some e \<Rightarrow> Inr e))))"

definition Client_Callback :: "('n, 'j) sdk_cfg \<Rightarrow> client \<Rightarrow> 'n \<Rightarrow> string \<Rightarrow> 'n \<times> (sys_err + string)" where
  "Client_Callback cf c n targetURL =
     (case http_Get cf c n (''/callback?url='' @ url_QueryEscape (sk_url cf) targetURL) of
        (n', Inl e) \<Rightarrow> (n', Inl e)
      | (n', Inr r) \<Rightarrow>
          (n', if \<not> is_2xx r then Inl (OtherErr (''callback request error: status '' @ show_nat (rp_Status r)))
               else if \<not> rp_EOF r then Inl (OtherErr ''read response body failed'')
               else Inr (rp_Body r)))"

definition Client_GetResult ::
  "('n, 'j) sdk_cfg \<Rightarrow> client \<Rightarrow> 'n \<Rightarrow> string \<Rightarrow> string \<Rightarrow> 'n \<times> (sys_err + vmm_result)" where
  "Client_GetResult cf c n pid msgid =
     (case request_of cf c ''GET'' (if msgid = [] then ''/result/'' @ pid else ''/result/'' @ pid @ ''/'' @ msgid) [] [] of
        Inl e \<Rightarrow> (n, Inl e)
      | Inr q \<Rightarrow>
     (case http_Do cf c n q of
        (n1, Inl e) \<Rightarrow> (n1, Inl e)
      | (n1, Inr resp) \<Rightarrow>
     (case handleRedirect cf c n1 resp q [] of
        (n2, Inl e) \<Rightarrow> (n2, Inl e)
      | (n2, Inr (resp', _)) \<Rightarrow> (n2, decode_2xx (ad_result (sk_dec cf)) resp'))))"

definition Client_GetResults ::
  "('n, 'j) sdk_cfg \<Rightarrow> client \<Rightarrow> 'n \<Rightarrow> string \<Rightarrow> int64 \<Rightarrow> 'n \<times> (sys_err + results_edge list)" where
  "Client_GetResults cf c n pid limit =
     get_json cf c n (''/results/'' @ pid @ ''?sort=DESC&limit='' @ FormatInt limit) (ad_results (sk_dec cf))"

definition Client_GetMessage :: "('n, 'j) sdk_cfg \<Rightarrow> client \<Rightarrow> 'n \<Rightarrow> string \<Rightarrow> 'n \<times> (sys_err + 'j)" where
  "Client_GetMessage cf c n msgid = get_json cf c n (''/message/'' @ msgid) (ad_item (sk_dec cf))"

definition Client_GetMessageByNonce ::
  "('n, 'j) sdk_cfg \<Rightarrow> client \<Rightarrow> 'n \<Rightarrow> string \<Rightarrow> int64 \<Rightarrow> 'n \<times> (sys_err + 'j)" where
  "Client_GetMessageByNonce cf c n pid nonce =
     get_json cf c n (''/messageByNonce/'' @ pid @ ''/'' @ FormatInt nonce) (ad_item (sk_dec cf))"

definition Client_GetAssignByNonce ::
  "('n, 'j) sdk_cfg \<Rightarrow> client \<Rightarrow> 'n \<Rightarrow> string \<Rightarrow> int64 \<Rightarrow> 'n \<times> (sys_err + 'j)" where
  "Client_GetAssignByNonce cf c n pid nonce =
     get_json cf c n (''/assignmentByNonce/'' @ pid @ ''/'' @ FormatInt nonce) (ad_item (sk_dec cf))"

definition Client_GetAssignByMessage :: "('n, 'j) sdk_cfg \<Rightarrow> client \<Rightarrow> 'n \<Rightarrow> string \<Rightarrow> 'n \<times> (sys_err + 'j)" where
  "Client_GetAssignByMessage cf c n msgid = get_json cf c n (''/assignmentByMessage/'' @ msgid) (ad_item (sk_dec cf))"

definition Client_GetNonce :: "('n, 'j) sdk_cfg \<Rightarrow> client \<Rightarrow> 'n \<Rightarrow> string \<Rightarrow> 'n \<times> (sys_err + int64)" where
  "Client_GetNonce cf c n pid = get_json cf c n (''/nonce/'' @ pid) (ad_nonce (sk_dec cf))"

text \<open>An amount is read from the text of the whole body.\<close>

definition get_amount :: "('n, 'j) sdk_cfg \<Rightarrow> client \<Rightarrow> 'n \<Rightarrow> string \<Rightarrow> 'n \<times> (sys_err + int)" where
  "get_amount cf c n path =
     (case http_Get cf c n path of
        (n', Inl e) \<Rightarrow> (n', Inl e)
      | (n', Inr r) \<Rightarrow>
          (n', if \<not> is_2xx r then Inl (status_err (rp_Status r))
               else if \<not> rp_EOF r then Inl (OtherErr ''read'')
               else case big_SetString (rp_Body r) of
                 None \<Rightarrow> Inl (OtherErr (''invalid server response: '' @ rp_Body r)) | Some a \<Rightarrow> Inr a))"

definition Client_BalanceOf :: "('n, 'j) sdk_cfg \<Rightarrow> client \<Rightarrow> 'n \<Rightarrow> string \<Rightarrow> 'n \<times> (sys_err + int)" where
  "Client_BalanceOf cf c n accid = get_amount cf c n (''/balanceof/'' @ accid)"

definition Client_StakeOf :: "('n, 'j) sdk_cfg \<Rightarrow> client \<Rightarrow> 'n \<Rightarrow> string \<Rightarrow> 'n \<times> (sys_err + int)" where
  "Client_StakeOf cf c n accid = get_amount cf c n (''/stakeof/'' @ accid)"

definition Client_GetModule :: "('n, 'j) sdk_cfg \<Rightarrow> client \<Rightarrow> 'n \<Rightarrow> string \<Rightarrow> 'n \<times> (sys_err + module)" where
  "Client_GetModule cf c n moduleId =
     (case http_Get cf c n (''/module/'' @ moduleId) of
        (n', Inl e) \<Rightarrow> (n', Inl e)
      | (n', Inr r) \<Rightarrow>
          (n', if \<not> is_2xx r
               then Inl (OtherErr (''invalid server response: '' @ show_nat (rp_Status r) @ '', body: '' @ rp_Body r))
               else decode_2xx (ad_module (sk_dec cf)) r))"

definition Client_GetModules :: "('n, 'j) sdk_cfg \<Rightarrow> client \<Rightarrow> 'n \<Rightarrow> 'n \<times> (sys_err + string list)" where
  "Client_GetModules cf c n = get_json cf c n ''/modules'' (ad_strings (sk_dec cf))"

definition Client_GetNodes :: "('n, 'j) sdk_cfg \<Rightarrow> client \<Rightarrow> 'n \<Rightarrow> 'n \<times> (sys_err + (string, node) gomap)" where
  "Client_GetNodes cf c n = get_json cf c n ''/nodes'' (ad_node_map (sk_dec cf))"

definition Client_GetNode :: "('n, 'j) sdk_cfg \<Rightarrow> client \<Rightarrow> 'n \<Rightarrow> string \<Rightarrow> 'n \<times> (sys_err + node option)" where
  "Client_GetNode cf c n accid = get_json cf c n (''/node/'' @ accid) (ad_node (sk_dec cf))"

definition Client_GetNodesByProcess ::
  "('n, 'j) sdk_cfg \<Rightarrow> client \<Rightarrow> 'n \<Rightarrow> string \<Rightarrow> 'n \<times> (sys_err + node list)" where
  "Client_GetNodesByProcess cf c n pid = get_json cf c n (''/nodesByProcess/'' @ pid) (ad_nodes (sk_dec cf))"

definition Client_GetProcesses ::
  "('n, 'j) sdk_cfg \<Rightarrow> client \<Rightarrow> 'n \<Rightarrow> string \<Rightarrow> 'n \<times> (sys_err + string list)" where
  "Client_GetProcesses cf c n accid = get_json cf c n (''/processes/'' @ accid) (ad_strings (sk_dec cf))"

definition Client_GetCache ::
  "('n, 'j) sdk_cfg \<Rightarrow> client \<Rightarrow> 'n \<Rightarrow> string \<Rightarrow> string \<Rightarrow> 'n \<times> (sys_err + string)" where
  "Client_GetCache cf c n pid key = get_json cf c n (''/cache/'' @ pid @ ''/'' @ key) (ad_text (sk_dec cf))"

definition Client_TrySend ::
  "('n, 'j) sdk_cfg \<Rightarrow> client \<Rightarrow> 'n \<Rightarrow> string \<Rightarrow> string \<Rightarrow> 'n \<times> sys_err option" where
  "Client_TrySend cf c n pid target =
     (case request_of cf c ''POST'' ''/trysend'' json_header (ad_trysend (sk_dec cf) (pid, target)) of
        Inl e \<Rightarrow> (n, Some e)
      | Inr q \<Rightarrow>
     (case http_Do cf c n q of
        (n', Inl e) \<Rightarrow> (n', Some e)
      | (n', Inr r) \<Rightarrow> (n', if is_2xx r then None else Some (status_err (rp_Status r)))))"

subsection \<open>Signed items (binary.go)\<close>

text \<open>\<open>Inr None\<close>: the route was not found.\<close>

definition getBinary ::
  "('n, 'j) sdk_cfg \<Rightarrow> client \<Rightarrow> 'n \<Rightarrow> string \<Rightarrow> 'n \<times> (sys_err + string option)" where
  "getBinary cf c n path =
     (case http_Get cf c n path of
        (n', Inl e) \<Rightarrow> (n', Inl e)
      | (n', Inr r) \<Rightarrow>
          (n', if rp_Status r = 404 then Inr None
               else if rp_Status r \<noteq> 200 then Inl (status_err (rp_Status r))
               else if mime_ParseMediaType (sk_url cf) (rp_ContentType r) \<noteq> Some ''application/octet-stream''
               then Inl (OtherErr ''invalid bundle item content type'')
               else if \<not> rp_EOF r then Inl (OtherErr ''read'')
               else Inr (Some (rp_Body r))))"

text \<open>A panic of the decoder is recovered.\<close>

definition decodeItemBinary :: "('n, 'j) sdk_cfg \<Rightarrow> string \<Rightarrow> sys_err + bundle_item" where
  "decodeItemBinary cf binary =
     (case sk_DecodeBundleItem cf binary of
        BinPanic r \<Rightarrow> Inl (OtherErr (''invalid bundle item: '' @ r))
      | BinErr e \<Rightarrow> Inl (OtherErr e)
      | BinItem item \<Rightarrow> if verify_bundle_item (sk_lib cf) item then Inr item else Inl (CodecErr ExtLibError))"

definition getItemBinary ::
  "('n, 'j) sdk_cfg \<Rightarrow> client \<Rightarrow> 'n \<Rightarrow> string \<Rightarrow> ('n \<Rightarrow> 'n \<times> (sys_err + 'j)) \<Rightarrow> 'n \<times> (sys_err + bundle_item)" where
  "getItemBinary cf c n path getLegacy =
     (case getBinary cf c n path of
        (n1, Inl e) \<Rightarrow> (n1, Inl e)
      | (n1, Inr (Some binary)) \<Rightarrow> (n1, decodeItemBinary cf binary)
      | (n1, Inr None) \<Rightarrow>
          (case getLegacy n1 of
             (n2, Inl e) \<Rightarrow> (n2, Inl e)
           | (n2, Inr legacy) \<Rightarrow>
               (n2, case sk_GenerateItemBinary cf legacy of
                      Inl e \<Rightarrow> Inl (OtherErr e) | Inr binary \<Rightarrow> decodeItemBinary cf binary)))"

definition GetMessageBin :: "('n, 'j) sdk_cfg \<Rightarrow> client \<Rightarrow> 'n \<Rightarrow> string \<Rightarrow> 'n \<times> (sys_err + bundle_item)" where
  "GetMessageBin cf c n msgid =
     (case getItemBinary cf c n (''/messageBin/'' @ msgid) (\<lambda>n1. Client_GetMessage cf c n1 msgid) of
        (n', Inl e) \<Rightarrow> (n', Inl e)
      | (n', Inr item) \<Rightarrow> (n', if item_Id item \<noteq> msgid then Inl ErrUnauthorizedNode else Inr item))"

definition GetMessageBinByNonce ::
  "('n, 'j) sdk_cfg \<Rightarrow> client \<Rightarrow> 'n \<Rightarrow> string \<Rightarrow> int64 \<Rightarrow> 'n \<times> (sys_err + bundle_item)" where
  "GetMessageBinByNonce cf c n pid nonce =
     getItemBinary cf c n (''/messageBinByNonce/'' @ pid @ ''/'' @ FormatInt nonce)
       (\<lambda>n1. Client_GetMessageByNonce cf c n1 pid nonce)"

definition GetAssignBinByNonce ::
  "('n, 'j) sdk_cfg \<Rightarrow> client \<Rightarrow> 'n \<Rightarrow> string \<Rightarrow> int64 \<Rightarrow> 'n \<times> (sys_err + bundle_item)" where
  "GetAssignBinByNonce cf c n pid nonce =
     getItemBinary cf c n (''/assignmentBinByNonce/'' @ pid @ ''/'' @ FormatInt nonce)
       (\<lambda>n1. Client_GetAssignByNonce cf c n1 pid nonce)"

definition GetAssignBinByMessage :: "('n, 'j) sdk_cfg \<Rightarrow> client \<Rightarrow> 'n \<Rightarrow> string \<Rightarrow> 'n \<times> (sys_err + bundle_item)" where
  "GetAssignBinByMessage cf c n msgid =
     (case getItemBinary cf c n (''/assignmentBinByMessage/'' @ msgid) (\<lambda>n1. Client_GetAssignByMessage cf c n1 msgid) of
        (n', Inl e) \<Rightarrow> (n', Inl e)
      | (n', Inr item) \<Rightarrow>
          (n', if GetType item \<noteq> TypeAssignment \<or> GetTagsValue ''Message'' (item_Tags item) \<noteq> msgid
               then Inl ErrUnauthorizedNode else Inr item))"

end
