(* ===== verification/WebApi.thy ===== *)
theory WebApi
  imports SdkClient Recovery PayService
begin

text \<open>
  The HTTP interface of a node (server/api.go, binary.go, admin.go, apipay.go): the handlers over the
  state of the node, and the routes to them. Parameters: the JSON texts, the coding of bundle items,
  the answer to an outgoing call, and how the payment service lives in the state of the handlers.
  The router of gin recovers a panic of a handler with status 500.
\<close>

subsection \<open>Bodies\<close>

record x402_response =
  x402_Version :: string
  x402_Error :: string
  x402_Scheme :: string
  x402_Network :: string
  x402_Resource :: string
  x402_PayTo :: string
  x402_Asset :: string
  x402_Amount :: string

record cursor =
  cur_Timestamp :: int64
  cur_Ordinate :: int64
  cur_Cron :: string
  cur_Sort :: string

record api_enc =
  ae_error :: "sys_err \<Rightarrow> string"
  ae_response :: "response \<Rightarrow> string"
  ae_info :: "info \<Rightarrow> string"
  ae_result :: "vmm_result option \<Rightarrow> string"
  ae_results :: "results_edge list \<Rightarrow> string"
  ae_cursor :: "cursor \<Rightarrow> string"
  ae_item :: "bundle_item option \<Rightarrow> string"
  ae_nonce :: "int64 \<Rightarrow> string"
  ae_module :: "module \<Rightarrow> string"
  ae_strings :: "string list \<Rightarrow> string"
  ae_node_map :: "(string, node) gomap \<Rightarrow> string"
  ae_node :: "node option \<Rightarrow> string"
  ae_nodes :: "node list \<Rightarrow> string"
  ae_text :: "string \<Rightarrow> string"
  ae_x402 :: "x402_response \<Rightarrow> string"
  ae_pay_config :: "pay_config \<Rightarrow> string"
  ae_amounts :: "(string, int) gomap \<Rightarrow> string"
  ae_dec_trysend :: "string \<Rightarrow> (string \<times> string) option"
  ae_dec_vm :: "string \<Rightarrow> string option"

record ('s, 'r, 'h, 'u, 'o, 'f) server_cfg =
  sv_node :: "('s, 'r, 'h, 'u, 'o, 'f) rec_cfg"
  sv_pay :: "(pay_config \<times> string \<times> ('h \<Rightarrow> pay_db)) option"
  sv_info :: info
  sv_enc :: api_enc
  sv_GenerateItemBinary :: "bundle_item \<Rightarrow> string + string"
  sv_DecodeBundleItem :: "string \<Rightarrow> bin_result"
  sv_Base64Encode :: "string \<Rightarrow> string"
  sv_http_get :: "string \<Rightarrow> nat option"

text \<open>What a request carries beside its path and body: the query and the URL it was sent to.\<close>

record request_info =
  ri_limit :: string
  ri_url :: string
  ri_tls :: bool
  ri_proto :: string
  ri_Host :: string
  ri_URL :: string

definition JSON :: "nat \<Rightarrow> string \<Rightarrow> http_resp" where
  "JSON status body = \<lparr>rp_Status = status, rp_ContentType = ''application/json; charset=utf-8'', rp_Location = [],
     rp_Body = body, rp_EOF = True\<rparr>"

definition InternalError :: http_resp where
  "InternalError = \<lparr>rp_Status = 500, rp_ContentType = [], rp_Location = [], rp_Body = [], rp_EOF = True\<rparr>"

definition NotFound :: http_resp where
  "NotFound = \<lparr>rp_Status = 404, rp_ContentType = ''text/plain'', rp_Location = [], rp_Body = ''404 page not found'',
     rp_EOF = True\<rparr>"

definition ErrorResponse :: "('s, 'r, 'h, 'u, 'o, 'f) server_cfg \<Rightarrow> sys_err \<Rightarrow> http_resp" where
  "ErrorResponse sv e = (if is_panic e then InternalError else JSON 400 (ae_error (sv_enc sv) e))"

definition ErrInvalidParams :: sys_err where "ErrInvalidParams = OtherErr ''err_invalid_params''"
definition ErrCallbackFailed :: sys_err where "ErrCallbackFailed = OtherErr ''err_callback_failed''"

text \<open>The state of the node inside the state of a node that can recover.\<close>

definition put_node ::
  "('s, 'r, 'h, 'u, 'o, 'f) rec_state \<Rightarrow> ('s, 'r, 'h) node_state \<Rightarrow> ('s, 'r, 'h, 'u, 'o, 'f) rec_state" where
  "put_node st nd =
     st\<lparr>ns_vmm := ns_vmm nd, ns_db := ns_db nd, ns_handler := ns_handler nd, ns_mes := ns_mes nd,
        ns_proc := ns_proc nd, ns_AccId := ns_AccId nd, ns_Token := ns_Token nd, ns_Registry := ns_Registry nd\<rparr>"

lemma truncate_put_node [simp]: "node_state.truncate (put_node st nd) = nd"
  by (simp add: put_node_def node_state.defs)

lemma put_node_truncate [simp]: "put_node st (node_state.truncate st) = st"
  by (simp add: put_node_def node_state.defs)

text \<open>A value read from the database, as a response.\<close>

definition db_reply ::
  "('s, 'r, 'h, 'u, 'o, 'f) server_cfg \<Rightarrow> ('s, 'r, 'h, 'u, 'o, 'f) rec_state \<Rightarrow> 'r \<times> (sys_err + 'a) \<Rightarrow>
     ('a \<Rightarrow> http_resp) \<Rightarrow> ('s, 'r, 'h, 'u, 'o, 'f) rec_state \<times> http_resp" where
  "db_reply sv st q f =
     (case q of (db, Inl e) \<Rightarrow> (st\<lparr>ns_db := db\<rparr>, ErrorResponse sv e) | (db, Inr x) \<Rightarrow> (st\<lparr>ns_db := db\<rparr>, f x))"

subsection \<open>The node's information and messages\<close>

definition api_Info ::
  "('s, 'r, 'h, 'u, 'o, 'f) server_cfg \<Rightarrow> ('s, 'r, 'h, 'u, 'o, 'f) rec_state \<Rightarrow>
     ('s, 'r, 'h, 'u, 'o, 'f) rec_state \<times> http_resp" where
  "api_Info sv st =
     (let st1 = put_node st (Node_Info (node_state.truncate st))
      in (st1, JSON 200 (ae_info (sv_enc sv)
           ((sv_info sv)\<lparr>inf_Token := ns_Token st1, inf_Registry := ns_Registry st1,
              inf_VmCount := GetVmCount (ns_vmm st1)\<rparr>))))"

definition api_Callback :: "('s, 'r, 'h, 'u, 'o, 'f) server_cfg \<Rightarrow> request_info \<Rightarrow> http_resp" where
  "api_Callback sv ri =
     (if ri_url ri = [] then ErrorResponse sv ErrInvalidParams
      else if sv_http_get sv (ri_url ri) \<noteq> Some 200 then ErrorResponse sv ErrCallbackFailed
      else JSON 200 (ae_response (sv_enc sv) \<lparr>resp_Id = [], resp_Message = ''ok''\<rparr>))"

definition getFullURL :: "request_info \<Rightarrow> string" where
  "getFullURL ri =
     (if ri_tls ri \<or> ri_proto ri = ''https'' then ''https'' else ''http'') @ ''://'' @ ri_Host ri @ ri_URL ri"

definition X402 :: "pay_config \<Rightarrow> string \<Rightarrow> string \<Rightarrow> x402_response" where
  "X402 cfg addr u =
     \<lparr>x402_Version = ''1.0'', x402_Error = ''Daily free limit exceeded'', x402_Scheme = ''exact'',
      x402_Network = ''hymatrix'', x402_Resource = u, x402_PayTo = addr, x402_Asset = cfg_AxToken cfg,
      x402_Amount = (case cfg_SpawnFee cfg of None \<Rightarrow> ''<nil>'' | Some a \<Rightarrow> show_int a)\<rparr>"

text \<open>\<open>None\<close>: the error is not handled here.\<close>

definition handleSubmitErr ::
  "('s, 'r, 'h, 'u, 'o, 'f) server_cfg \<Rightarrow> ('s, 'r, 'h) node_state \<Rightarrow> request_info \<Rightarrow> sys_err \<Rightarrow> bundle_item \<Rightarrow>
     http_resp option" where
  "handleSubmitErr sv nd ri e item =
     (if e = ErrPaymentFailed
      then (case sv_pay sv of
          None \<Rightarrow> None
        | Some (cfg, addr, _) \<Rightarrow> Some (JSON 402 (ae_x402 (sv_enc sv) (X402 cfg addr (getFullURL ri)))))
      else if e = ErrSpawnRedirect
      then (case DecodeItemToProcess item of
          Inl _ \<Rightarrow> None
        | Inr proc \<Rightarrow>
            (let node = Vmm_GetNode (ns_vmm nd) (proc_Scheduler proc) in
             Some ((JSON 308 (ae_node (sv_enc sv) node))
               \<lparr>rp_Location := (case node of None \<Rightarrow> [] | Some x \<Rightarrow> node_URL x)\<rparr>)))
      else if e = ErrMessageRedirect
      then (let nodes = snd (IsRedirect (node_cfg.truncate (sv_node sv)) nd (item_Id item)) in
            Some ((JSON 308 (ae_nodes (sv_enc sv) nodes))
               \<lparr>rp_Location := (case nodes of [] \<Rightarrow> [] | x # _ \<Rightarrow> node_URL x)\<rparr>))
      else None)"

definition api_Submit ::
  "('s, 'r, 'h, 'u, 'o, 'f) server_cfg \<Rightarrow> nat \<Rightarrow> request_info \<Rightarrow> ('s, 'r, 'h, 'u, 'o, 'f) rec_state \<Rightarrow> string \<Rightarrow>
     ('s, 'r, 'h, 'u, 'o, 'f) rec_state \<times> http_resp" where
  "api_Submit sv pending ri st body =
     (case sv_DecodeBundleItem sv body of
        BinPanic _ \<Rightarrow> (st, InternalError)
      | BinErr e \<Rightarrow> (st, ErrorResponse sv (OtherErr e))
      | BinItem item \<Rightarrow>
          (case Node_Handle (node_cfg.truncate (sv_node sv)) pending (node_state.truncate st) item of
             (nd, None) \<Rightarrow>
               (put_node st nd, JSON 200 (ae_response (sv_enc sv) \<lparr>resp_Id = item_Id item, resp_Message = []\<rparr>))
           | (nd, Some e) \<Rightarrow>
               (put_node st nd,
                case handleSubmitErr sv nd ri e item of Some r \<Rightarrow> r | None \<Rightarrow> ErrorResponse sv e)))"

subsection \<open>Results, messages and assignments\<close>

definition api_GetResult ::
  "('s, 'r, 'h, 'u, 'o, 'f) server_cfg \<Rightarrow> ('s, 'r, 'h, 'u, 'o, 'f) rec_state \<Rightarrow> string \<Rightarrow> string \<Rightarrow>
     ('s, 'r, 'h, 'u, 'o, 'f) rec_state \<times> http_resp" where
  "api_GetResult sv st pid msgid =
     (let cf = node_cfg.truncate (sv_node sv) in
      db_reply sv st (GetResult (nc_redis cf) (nc_codec cf) (ns_db st) msgid)
       (\<lambda>dbResult. case dbResult of
          Some _ \<Rightarrow> JSON 200 (ae_result (sv_enc sv) dbResult)
        | None \<Rightarrow>
            (case IsRedirect cf (node_state.truncate st) pid of
               (True, nd # nds) \<Rightarrow> (JSON 308 (ae_nodes (sv_enc sv) (nd # nds)))\<lparr>rp_Location := node_URL nd\<rparr>
             | _ \<Rightarrow> JSON 200 (ae_result (sv_enc sv) None))))"

definition results_edge_of :: "('s, 'r, 'h, 'u, 'o, 'f) server_cfg \<Rightarrow> vmm_result \<Rightarrow> results_edge" where
  "results_edge_of sv r =
     \<lparr>re_Cursor = sv_Base64Encode sv (ae_cursor (sv_enc sv)
        \<lparr>cur_Timestamp = (case ParseInt (vr_Timestamp r) of None \<Rightarrow> - 1 | Some t \<Rightarrow> t),
         cur_Ordinate = (case ParseInt (vr_Nonce r) of None \<Rightarrow> - 1 | Some n \<Rightarrow> n),
         cur_Cron = ''1-10-minutes'', cur_Sort = ''ASC''\<rparr>),
      re_Node = r\<rparr>"

definition api_GetResults ::
  "('s, 'r, 'h, 'u, 'o, 'f) server_cfg \<Rightarrow> ('s, 'r, 'h, 'u, 'o, 'f) rec_state \<Rightarrow> string \<Rightarrow> string \<Rightarrow>
     ('s, 'r, 'h, 'u, 'o, 'f) rec_state \<times> http_resp" where
  "api_GetResults sv st pid limit =
     (let cf = node_cfg.truncate (sv_node sv);
          n = (case ParseInt limit of None \<Rightarrow> 5 | Some l \<Rightarrow> l) in
      case GetResults (nc_redis cf) (nc_codec cf) (ns_db st) pid n of
        (db, Inl (e, _)) \<Rightarrow> (st\<lparr>ns_db := db\<rparr>, ErrorResponse sv e)
      | (db, Inr rs) \<Rightarrow> (st\<lparr>ns_db := db\<rparr>, JSON 200 (ae_results (sv_enc sv) (map (results_edge_of sv) rs))))"

definition Node_GetAssignByMessage ::
  "('s, 'r, 'h) node_cfg \<Rightarrow> 'r \<Rightarrow> string \<Rightarrow> 'r \<times> (sys_err + bundle_item option)" where
  "Node_GetAssignByMessage cf db msgid =
     (case GetResult (nc_redis cf) (nc_codec cf) db msgid of
        (db1, Inl e) \<Rightarrow> (db1, Inl e)
      | (db1, Inr None) \<Rightarrow> (db1, Inr None)
      | (db1, Inr (Some res)) \<Rightarrow>
          (case ParseInt (vr_Nonce res) of
             None \<Rightarrow> (db1, Inl (OtherErr ''strconv''))
           | Some nonce \<Rightarrow> GetAssignByNonce (nc_redis cf) (nc_codec cf) db1 (vr_FromProcess res) nonce))"

definition api_GetMessage ::
  "('s, 'r, 'h, 'u, 'o, 'f) server_cfg \<Rightarrow> ('s, 'r, 'h, 'u, 'o, 'f) rec_state \<Rightarrow> string \<Rightarrow>
     ('s, 'r, 'h, 'u, 'o, 'f) rec_state \<times> http_resp" where
  "api_GetMessage sv st msgid =
     db_reply sv st (GetMessage (nc_redis (sv_node sv)) (nc_codec (sv_node sv)) (ns_db st) msgid)
       (\<lambda>res. JSON 200 (ae_item (sv_enc sv) res))"

definition api_GetAssignByMsg ::
  "('s, 'r, 'h, 'u, 'o, 'f) server_cfg \<Rightarrow> ('s, 'r, 'h, 'u, 'o, 'f) rec_state \<Rightarrow> string \<Rightarrow>
     ('s, 'r, 'h, 'u, 'o, 'f) rec_state \<times> http_resp" where
  "api_GetAssignByMsg sv st msgid =
     db_reply sv st (Node_GetAssignByMessage (node_cfg.truncate (sv_node sv)) (ns_db st) msgid)
       (\<lambda>res. JSON 200 (ae_item (sv_enc sv) res))"

definition item_or_404 :: "('s, 'r, 'h, 'u, 'o, 'f) server_cfg \<Rightarrow> bundle_item option \<Rightarrow> http_resp" where
  "item_or_404 sv res =
     (case res of None \<Rightarrow> JSON 404 (ae_item (sv_enc sv) None) | Some _ \<Rightarrow> JSON 200 (ae_item (sv_enc sv) res))"

definition api_GetMessageByNonce ::
  "('s, 'r, 'h, 'u, 'o, 'f) server_cfg \<Rightarrow> ('s, 'r, 'h, 'u, 'o, 'f) rec_state \<Rightarrow> string \<Rightarrow> string \<Rightarrow>
     ('s, 'r, 'h, 'u, 'o, 'f) rec_state \<times> http_resp" where
  "api_GetMessageByNonce sv st pid nonce =
     (case ParseInt nonce of
        None \<Rightarrow> (st, ErrorResponse sv (OtherErr ''strconv''))
      | Some n \<Rightarrow>
          db_reply sv st (GetMessageByNonce (nc_redis (sv_node sv)) (nc_codec (sv_node sv)) (ns_db st) pid n)
            (item_or_404 sv))"

definition api_GetAssignByNonce ::
  "('s, 'r, 'h, 'u, 'o, 'f) server_cfg \<Rightarrow> ('s, 'r, 'h, 'u, 'o, 'f) rec_state \<Rightarrow> string \<Rightarrow> string \<Rightarrow>
     ('s, 'r, 'h, 'u, 'o, 'f) rec_state \<times> http_resp" where
  "api_GetAssignByNonce sv st pid nonce =
     (case ParseInt nonce of
        None \<Rightarrow> (st, ErrorResponse sv (OtherErr ''strconv''))
      | Some n \<Rightarrow>
          db_reply sv st (GetAssignByNonce (nc_redis (sv_node sv)) (nc_codec (sv_node sv)) (ns_db st) pid n)
            (item_or_404 sv))"

subsection \<open>Signed items (binary.go)\<close>

definition writeItemBinary :: "('s, 'r, 'h, 'u, 'o, 'f) server_cfg \<Rightarrow> bundle_item option \<Rightarrow> http_resp" where
  "writeItemBinary sv item =
     (case item of
        None \<Rightarrow> JSON 404 (ae_item (sv_enc sv) None)
      | Some i \<Rightarrow>
          (case sv_GenerateItemBinary sv i of
             Inl e \<Rightarrow> ErrorResponse sv (OtherErr e)
           | Inr binary \<Rightarrow> \<lparr>rp_Status = 200, rp_ContentType = ''application/octet-stream'', rp_Location = [],
               rp_Body = binary, rp_EOF = True\<rparr>))"

definition api_GetMessageBin ::
  "('s, 'r, 'h, 'u, 'o, 'f) server_cfg \<Rightarrow> ('s, 'r, 'h, 'u, 'o, 'f) rec_state \<Rightarrow> string \<Rightarrow>
     ('s, 'r, 'h, 'u, 'o, 'f) rec_state \<times> http_resp" where
  "api_GetMessageBin sv st msgid =
     db_reply sv st (GetMessage (nc_redis (sv_node sv)) (nc_codec (sv_node sv)) (ns_db st) msgid) (writeItemBinary sv)"

definition api_GetAssignBinByMsg ::
  "('s, 'r, 'h, 'u, 'o, 'f) server_cfg \<Rightarrow> ('s, 'r, 'h, 'u, 'o, 'f) rec_state \<Rightarrow> string \<Rightarrow>
     ('s, 'r, 'h, 'u, 'o, 'f) rec_state \<times> http_resp" where
  "api_GetAssignBinByMsg sv st msgid =
     db_reply sv st (Node_GetAssignByMessage (node_cfg.truncate (sv_node sv)) (ns_db st) msgid) (writeItemBinary sv)"

definition bin_nonce :: "string \<Rightarrow> int64 option" where
  "bin_nonce nonce = (case ParseInt nonce of None \<Rightarrow> None | Some n \<Rightarrow> if n <s 0 then None else Some n)"

definition api_GetMessageBinByNonce ::
  "('s, 'r, 'h, 'u, 'o, 'f) server_cfg \<Rightarrow> ('s, 'r, 'h, 'u, 'o, 'f) rec_state \<Rightarrow> string \<Rightarrow> string \<Rightarrow>
     ('s, 'r, 'h, 'u, 'o, 'f) rec_state \<times> http_resp" where
  "api_GetMessageBinByNonce sv st pid nonce =
     (case bin_nonce nonce of
        None \<Rightarrow> (st, ErrorResponse sv ErrInvalidParams)
      | Some n \<Rightarrow>
          db_reply sv st (GetMessageByNonce (nc_redis (sv_node sv)) (nc_codec (sv_node sv)) (ns_db st) pid n)
            (writeItemBinary sv))"

definition api_GetAssignBinByNonce ::
  "('s, 'r, 'h, 'u, 'o, 'f) server_cfg \<Rightarrow> ('s, 'r, 'h, 'u, 'o, 'f) rec_state \<Rightarrow> string \<Rightarrow> string \<Rightarrow>
     ('s, 'r, 'h, 'u, 'o, 'f) rec_state \<times> http_resp" where
  "api_GetAssignBinByNonce sv st pid nonce =
     (case bin_nonce nonce of
        None \<Rightarrow> (st, ErrorResponse sv ErrInvalidParams)
      | Some n \<Rightarrow>
          db_reply sv st (GetAssignByNonce (nc_redis (sv_node sv)) (nc_codec (sv_node sv)) (ns_db st) pid n)
            (writeItemBinary sv))"

subsection \<open>Registry, token and cache\<close>

definition api_GetNode ::
  "('s, 'r, 'h, 'u, 'o, 'f) server_cfg \<Rightarrow> ('s, 'r, 'h, 'u, 'o, 'f) rec_state \<Rightarrow> string \<Rightarrow> http_resp" where
  "api_GetNode sv st accid = JSON 200 (ae_node (sv_enc sv) (Vmm_GetNode (ns_vmm st) accid))"

definition api_GetNodes ::
  "('s, 'r, 'h, 'u, 'o, 'f) server_cfg \<Rightarrow> ('s, 'r, 'h, 'u, 'o, 'f) rec_state \<Rightarrow> http_resp" where
  "api_GetNodes sv st = JSON 200 (ae_node_map (sv_enc sv) (Vmm_GetNodes (ns_vmm st)))"

definition api_GetProcesses ::
  "('s, 'r, 'h, 'u, 'o, 'f) server_cfg \<Rightarrow> ('s, 'r, 'h, 'u, 'o, 'f) rec_state \<Rightarrow> string \<Rightarrow> http_resp" where
  "api_GetProcesses sv st accid = JSON 200 (ae_strings (sv_enc sv) (Vmm_GetProcesses (ns_vmm st) accid))"

definition api_GetNodesByProcess ::
  "('s, 'r, 'h, 'u, 'o, 'f) server_cfg \<Rightarrow> ('s, 'r, 'h, 'u, 'o, 'f) rec_state \<Rightarrow> string \<Rightarrow> http_resp" where
  "api_GetNodesByProcess sv st pid = JSON 200 (ae_nodes (sv_enc sv) (Vmm_GetNodesByProcess (ns_vmm st) pid))"

text \<open>An amount is a \<open>*big.Int\<close>: its JSON text is its numeral, or \<open>null\<close> for a nil pointer.\<close>

definition amount_reply ::
  "('s, 'r, 'h, 'u, 'o, 'f) server_cfg \<Rightarrow> (vm_err + int) option \<Rightarrow> http_resp" where
  "amount_reply sv q =
     (case q of
        None \<Rightarrow> JSON 200 ''null''
      | Some (Inl e) \<Rightarrow> ErrorResponse sv (VmErr e)
      | Some (Inr a) \<Rightarrow> JSON 200 (show_int a))"

definition api_BalanceOf ::
  "('s, 'r, 'h, 'u, 'o, 'f) server_cfg \<Rightarrow> ('s, 'r, 'h, 'u, 'o, 'f) rec_state \<Rightarrow> string \<Rightarrow> http_resp" where
  "api_BalanceOf sv st accid = amount_reply sv (Vmm_BalanceOf (nc_lib (sv_node sv)) (ns_vmm st) accid)"

definition api_StakeOf ::
  "('s, 'r, 'h, 'u, 'o, 'f) server_cfg \<Rightarrow> ('s, 'r, 'h, 'u, 'o, 'f) rec_state \<Rightarrow> string \<Rightarrow> http_resp" where
  "api_StakeOf sv st accid = amount_reply sv (Vmm_StakeOf (nc_lib (sv_node sv)) (ns_vmm st) accid)"

definition api_GetCache ::
  "('s, 'r, 'h, 'u, 'o, 'f) server_cfg \<Rightarrow> ('s, 'r, 'h, 'u, 'o, 'f) rec_state \<Rightarrow> string \<Rightarrow> string \<Rightarrow>
     ('s, 'r, 'h, 'u, 'o, 'f) rec_state \<times> http_resp" where
  "api_GetCache sv st pid key =
     db_reply sv st (GetCache (nc_redis (sv_node sv)) (ns_db st) pid key) (\<lambda>res. JSON 200 (ae_text (sv_enc sv) res))"

text \<open>The second component is the outbox whose sending is started.\<close>

definition api_TrySend :: "('s, 'r, 'h, 'u, 'o, 'f) server_cfg \<Rightarrow> string \<Rightarrow> http_resp \<times> (string \<times> string) option" where
  "api_TrySend sv body =
     (case ae_dec_trysend (sv_enc sv) body of
        None \<Rightarrow> (ErrorResponse sv json_err, None)
      | Some (pid, target) \<Rightarrow>
          if pid = [] \<or> target = [] then (ErrorResponse sv (OtherErr ''pid and target are required''), None)
          else (\<lparr>rp_Status = 200, rp_ContentType = [], rp_Location = [], rp_Body = [], rp_EOF = True\<rparr>,
                Some (pid, target)))"

definition api_GetModules ::
  "('s, 'r, 'h, 'u, 'o, 'f) server_cfg \<Rightarrow> ('s, 'r, 'h, 'u, 'o, 'f) rec_state \<Rightarrow> http_resp" where
  "api_GetModules sv st = JSON 200 (ae_strings (sv_enc sv) (GetModuleNames (ns_vmm st)))"

definition api_GetModule :: "('s, 'r, 'h, 'u, 'o, 'f) server_cfg \<Rightarrow> string \<Rightarrow> http_resp" where
  "api_GetModule sv moduleId =
     (case nc_module (sv_node sv) moduleId of
        Inl e \<Rightarrow> ErrorResponse sv e | Inr md \<Rightarrow> JSON 200 (ae_module (sv_enc sv) md))"

definition api_GetNonce ::
  "('s, 'r, 'h, 'u, 'o, 'f) server_cfg \<Rightarrow> ('s, 'r, 'h, 'u, 'o, 'f) rec_state \<Rightarrow> string \<Rightarrow>
     ('s, 'r, 'h, 'u, 'o, 'f) rec_state \<times> http_resp" where
  "api_GetNonce sv st pid =
     db_reply sv st (GetNonce (nc_redis (sv_node sv)) (ns_db st) pid) (\<lambda>n. JSON 200 (ae_nonce (sv_enc sv) n))"

subsection \<open>Payments (apipay.go)\<close>

text \<open>The routes exist only with a payment service; \<open>arg\<close> is the parameter of the path.\<close>

definition api_pay ::
  "('s, 'r, 'h, 'u, 'o, 'f) server_cfg \<Rightarrow> ('s, 'r, 'h, 'u, 'o, 'f) rec_state \<Rightarrow> string \<Rightarrow> string option \<Rightarrow> http_resp" where
  "api_pay sv st route arg =
     (case sv_pay sv of
        None \<Rightarrow> NotFound
      | Some (cfg, addr, dbOf) \<Rightarrow>
          (let db = dbOf (ns_handler st) in
           case arg of
             None \<Rightarrow> if route = ''info'' then JSON 200 (ae_pay_config (sv_enc sv) cfg) else NotFound
           | Some a \<Rightarrow>
               if route = ''sponsorTotal'' then JSON 200 (show_int (SponsorTotal db a))
               else if route = ''sponsorBreakdown'' then JSON 200 (ae_amounts (sv_enc sv) (SponsorBreakdown db a))
               else if route = ''beneficiaryTotal'' then JSON 200 (show_int (BeneficiaryTotal db a))
               else if route = ''beneficiaryBreakdown'' then JSON 200 (ae_amounts (sv_enc sv) (BeneficiaryBreakdown db a))
               else if route = ''totalPending'' then JSON 200 (show_int (totalPending db a))
               else NotFound))"

subsection \<open>Routes (runAPI)\<close>

text \<open>A parameter of a route is a segment of the path that is not empty.\<close>

definition api_get ::
  "('s, 'r, 'h, 'u, 'o, 'f) server_cfg \<Rightarrow> request_info \<Rightarrow> ('s, 'r, 'h, 'u, 'o, 'f) rec_state \<Rightarrow> string \<Rightarrow>
     ('s, 'r, 'h, 'u, 'o, 'f) rec_state \<times> http_resp" where
  "api_get sv ri st path =
     (case Split CHR ''/'' path of
        [_, r] \<Rightarrow>
          if r = ''info'' then api_Info sv st
          else if r = ''callback'' then (st, api_Callback sv ri)
          else if r = ''nodes'' then (st, api_GetNodes sv st)
          else if r = ''modules'' then (st, api_GetModules sv st)
          else (st, NotFound)
      | [_, r, a] \<Rightarrow>
          if a = [] then (st, NotFound)
          else if r = ''results'' then api_GetResults sv st a (ri_limit ri)
          else if r = ''message'' then api_GetMessage sv st a
          else if r = ''assignmentByMessage'' then api_GetAssignByMsg sv st a
          else if r = ''messageBin'' then api_GetMessageBin sv st a
          else if r = ''assignmentBinByMessage'' then api_GetAssignBinByMsg sv st a
          else if r = ''nonce'' then api_GetNonce sv st a
          else if r = ''node'' then (st, api_GetNode sv st a)
          else if r = ''nodesByProcess'' then (st, api_GetNodesByProcess sv st a)
          else if r = ''processes'' then (st, api_GetProcesses sv st a)
          else if r = ''balanceOf'' \<or> r = ''balanceof'' then (st, api_BalanceOf sv st a)
          else if r = ''stakeOf'' \<or> r = ''stakeof'' then (st, api_StakeOf sv st a)
          else if r = ''module'' then (st, api_GetModule sv a)
          else if r = ''pay'' then (st, api_pay sv st a None)
          else (st, NotFound)
      | [_, r, a, b] \<Rightarrow>
          if a = [] \<or> b = [] then (st, NotFound)
          else if r = ''result'' then api_GetResult sv st a b
          else if r = ''messageByNonce'' then api_GetMessageByNonce sv st a b
          else if r = ''assignmentByNonce'' then api_GetAssignByNonce sv st a b
          else if r = ''messageBinByNonce'' then api_GetMessageBinByNonce sv st a b
          else if r = ''assignmentBinByNonce'' then api_GetAssignBinByNonce sv st a b
          else if r = ''cache'' then api_GetCache sv st a b
          else if r = ''pay'' then (st, api_pay sv st a (Some b))
          else (st, NotFound)
      | _ \<Rightarrow> (st, NotFound))"

definition api_serve ::
  "('s, 'r, 'h, 'u, 'o, 'f) server_cfg \<Rightarrow> nat \<Rightarrow> request_info \<Rightarrow> ('s, 'r, 'h, 'u, 'o, 'f) rec_state \<Rightarrow> http_req \<Rightarrow>
     ('s, 'r, 'h, 'u, 'o, 'f) rec_state \<times> http_resp \<times> (string \<times> string) option" where
  "api_serve sv pending ri st q =
     (let path = url_Path (rq_URL q) in
      if rq_Method q = ''GET'' then (case api_get sv ri st path of (st', r) \<Rightarrow> (st', r, None))
      else if rq_Method q = ''POST'' \<and> path = ''/''
      then (case api_Submit sv pending ri st (rq_Body q) of (st', r) \<Rightarrow> (st', r, None))
      else if rq_Method q = ''POST'' \<and> path = ''/trysend''
      then (st, api_TrySend sv (rq_Body q))
      else (st, NotFound, None))"

subsection \<open>Administration (admin.go)\<close>

definition admin_pid :: "('s, 'r, 'h, 'u, 'o, 'f) server_cfg \<Rightarrow> string \<Rightarrow> string option" where
  "admin_pid sv body =
     (case ae_dec_vm (sv_enc sv) body of None \<Rightarrow> None | Some pid \<Rightarrow> if pid = [] then None else Some pid)"

definition admin_stop ::
  "('s, 'r, 'h, 'u, 'o, 'f) server_cfg \<Rightarrow> ('s, 'r, 'h, 'u, 'o, 'f) rec_state \<Rightarrow> bool \<Rightarrow> string \<Rightarrow>
     ('s, 'r, 'h, 'u, 'o, 'f) rec_state \<times> http_resp" where
  "admin_stop sv st checkpoint body =
     (case admin_pid sv body of
        None \<Rightarrow> (st, ErrorResponse sv ErrInvalidParams)
      | Some pid \<Rightarrow>
          (case (if checkpoint then Node_StopWithCheckpoint (sv_node sv) st pid else Node_Stop (sv_node sv) st pid) of
             (st', Some e) \<Rightarrow> (st', ErrorResponse sv e)
           | (st', None) \<Rightarrow>
               (st', JSON 200 (ae_response (sv_enc sv) \<lparr>resp_Id = pid, resp_Message = ''stopped''\<rparr>))))"

definition admin_Stop where "admin_Stop sv st body = admin_stop sv st False body"
definition admin_StopWithCheckpoint where "admin_StopWithCheckpoint sv st body = admin_stop sv st True body"

text \<open>\<open>None\<close> is a resume that does not return.\<close>

definition admin_Resume ::
  "('s, 'r, 'h, 'u, 'o, 'f) server_cfg \<Rightarrow> (int64 \<Rightarrow> bool) \<Rightarrow> ('s, 'r, 'h, 'u, 'o, 'f) rec_state \<Rightarrow> string \<Rightarrow>
     (('s, 'r, 'h, 'u, 'o, 'f) rec_state \<times> http_resp) option" where
  "admin_Resume sv closed st body =
     (case admin_pid sv body of
        None \<Rightarrow> Some (st, ErrorResponse sv ErrInvalidParams)
      | Some pid \<Rightarrow>
          (case Node_Resume (sv_node sv) closed st pid of
             None \<Rightarrow> None
           | Some (st', _, Some e) \<Rightarrow> Some (st', ErrorResponse sv e)
           | Some (st', _, None) \<Rightarrow>
               Some (st', JSON 200 (ae_response (sv_enc sv) \<lparr>resp_Id = pid, resp_Message = ''resumed''\<rparr>))))"

definition Node_Running :: "('s, 'r, 'h, 'u, 'o, 'f) rec_state \<Rightarrow> string list" where
  "Node_Running st = GetVmPids (ns_vmm st)"

definition admin_Running ::
  "('s, 'r, 'h, 'u, 'o, 'f) server_cfg \<Rightarrow> ('s, 'r, 'h, 'u, 'o, 'f) rec_state \<Rightarrow> http_resp" where
  "admin_Running sv st = JSON 200 (ae_strings (sv_enc sv) (Node_Running st))"

text \<open>The routes of the administration (runAdminAPI).\<close>

definition admin_serve ::
  "('s, 'r, 'h, 'u, 'o, 'f) server_cfg \<Rightarrow> (int64 \<Rightarrow> bool) \<Rightarrow> ('s, 'r, 'h, 'u, 'o, 'f) rec_state \<Rightarrow> http_req \<Rightarrow>
     (('s, 'r, 'h, 'u, 'o, 'f) rec_state \<times> http_resp) option" where
  "admin_serve sv closed st q =
     (let path = url_Path (rq_URL q) in
      if rq_Method q = ''POST'' \<and> path = ''/admin/vms/stop'' then Some (admin_Stop sv st (rq_Body q))
      else if rq_Method q = ''POST'' \<and> path = ''/admin/vms/stopWithCheckpoint''
      then Some (admin_StopWithCheckpoint sv st (rq_Body q))
      else if rq_Method q = ''POST'' \<and> path = ''/admin/vms/resume'' then admin_Resume sv closed st (rq_Body q)
      else if rq_Method q = ''GET'' \<and> path = ''/admin/vms/running'' then Some (st, admin_Running sv st)
      else Some (st, NotFound))"

end
