(* ===== verification/Sdk.thy ===== *)
theory Sdk
  imports SdkClient Recovery
begin

text \<open>
  The software development kit over the client (sdk/sdk.go, async.go, encrypt_tags.go): it signs
  items, sends them and waits for their results. Parameters beside those of the client: the bundler
  that signs (an item with its binary), the clock, the random bytes of encryptions, the files and the
  chain. \<open>polls\<close> is the number of ticks of a waiting call before its timeout of two minutes.
\<close>

record ('n, 'j, 'f) kit = "('n, 'j) sdk_cfg" +
  kt_Address :: string
  kt_sign :: "string \<Rightarrow> string \<Rightarrow> tag list \<Rightarrow> (bundle_item \<times> string) option"
  kt_files :: "'f files"
  kt_enc_item :: "bundle_item \<Rightarrow> string"
  kt_dec_item :: "string \<Rightarrow> bundle_item option"
  kt_enc_result :: "vmm_result \<Rightarrow> string"
  kt_upload :: "string \<Rightarrow> bundle_item list \<Rightarrow> string + string"

subsection \<open>Encrypted parameters (encrypt_tags.go)\<close>

definition encryptedTagName :: "string \<Rightarrow> string" where
  "encryptedTagName name = (if HasPrefix name EncryptedTagPrefix then name else EncryptedTagPrefix @ name)"

fun encrypt_loop :: "ecc_lib \<Rightarrow> cryptor \<Rightarrow> nat list \<Rightarrow> tag list \<Rightarrow> tag list \<Rightarrow> sys_err + tag list" where
  "encrypt_loop el e rnd acc [] = Inr acc"
| "encrypt_loop el e rnd acc (t # ts) =
     (case Cryptor_Encrypt el e (case rnd of [] \<Rightarrow> 0 | r # _ \<Rightarrow> r) (tag_Value t) of
        Inl err \<Rightarrow> Inl err
      | Inr v \<Rightarrow> encrypt_loop el e (tl rnd) (acc @ [Tag (encryptedTagName (tag_Name t)) v]) ts)"

definition EncryptTags ::
  "('n, 'j, 'f) kit \<Rightarrow> nat list \<Rightarrow> client \<Rightarrow> 'n \<Rightarrow> tag list \<Rightarrow> client \<times> 'n \<times> (sys_err + tag list)" where
  "EncryptTags k rnd c n tags =
     (if tags = [] then (c, n, Inr [])
      else case GetCryptor (sdk_cfg.truncate k) c n of
        (c1, n1, Inl e) \<Rightarrow> (c1, n1, Inl e)
      | (c1, n1, Inr encryptor) \<Rightarrow> (c1, n1, encrypt_loop (sk_ecc k) encryptor rnd [] tags))"

subsection \<open>Sending (sdk.go)\<close>

definition SDK_Send ::
  "('n, 'j, 'f) kit \<Rightarrow> int64 \<Rightarrow> client \<Rightarrow> 'n \<Rightarrow> string \<Rightarrow> string \<Rightarrow> tag list \<Rightarrow> 'n \<times> (sys_err + response \<times> string)" where
  "SDK_Send k now c n processId data tags =
     (case kt_sign k data processId (MergeTags [Tag ''SDK-Timestamp'' (FormatInt now)] tags) of
        None \<Rightarrow> (n, Inl sign_err)
      | Some (item, binary) \<Rightarrow> Client_Send (sdk_cfg.truncate k) c n binary)"

definition DefaultMessage :: msg where
  "DefaultMessage = zero_msg\<lparr>msg_Base := DefaultBase TypeMessage\<rparr>"

definition SDK_SendMessage ::
  "('n, 'j, 'f) kit \<Rightarrow> int64 \<Rightarrow> client \<Rightarrow> 'n \<Rightarrow> string \<Rightarrow> string \<Rightarrow> tag list \<Rightarrow> 'n \<times> (sys_err + response)" where
  "SDK_SendMessage k now c n target data params =
     (case MessageToTags DefaultMessage of
        (_, Some e) \<Rightarrow> (n, Inl (CodecErr e))
      | (msgTags, None) \<Rightarrow>
          (case SDK_Send k now c n target data (MergeTags msgTags params) of
             (n', Inl e) \<Rightarrow> (n', Inl e) | (n', Inr (res, _)) \<Rightarrow> (n', Inr res)))"

definition SendMessageWithEncryptedParams ::
  "('n, 'j, 'f) kit \<Rightarrow> int64 \<Rightarrow> nat list \<Rightarrow> client \<Rightarrow> 'n \<Rightarrow> string \<Rightarrow> string \<Rightarrow> tag list \<Rightarrow> tag list \<Rightarrow>
     client \<times> 'n \<times> (sys_err + response)" where
  "SendMessageWithEncryptedParams k now rnd c n target data params encryptedParams =
     (case EncryptTags k rnd c n encryptedParams of
        (c1, n1, Inl e) \<Rightarrow> (c1, n1, Inl e)
      | (c1, n1, Inr encryptedTags) \<Rightarrow>
          (c1, SDK_SendMessage k now c1 n1 target data (MergeTags params encryptedTags)))"

definition spawn_process :: "string \<Rightarrow> string \<Rightarrow> process" where
  "spawn_process md scheduler =
     zero_process\<lparr>proc_Base := DefaultBase TypeProcess, proc_Module := md, proc_Scheduler := scheduler\<rparr>"

definition SDK_Spawn ::
  "('n, 'j, 'f) kit \<Rightarrow> int64 \<Rightarrow> client \<Rightarrow> 'n \<Rightarrow> string \<Rightarrow> string \<Rightarrow> tag list \<Rightarrow> 'n \<times> (sys_err + response)" where
  "SDK_Spawn k now c n md scheduler params =
     (case ProcessToTags (spawn_process md scheduler) of
        (_, Some e) \<Rightarrow> (n, Inl (CodecErr e))
      | (processTags, None) \<Rightarrow>
          (case SDK_Send k now c n [] [] (MergeTags processTags params) of
             (n', Inl e) \<Rightarrow> (n', Inl e) | (n', Inr (res, _)) \<Rightarrow> (n', Inr res)))"

definition GenModule :: "('n, 'j, 'f) kit \<Rightarrow> string \<Rightarrow> module \<Rightarrow> sys_err + bundle_item" where
  "GenModule k moduleBytes md =
     (case ModuleToTags md of
        (_, Some e) \<Rightarrow> Inl (CodecErr e)
      | (tags, None) \<Rightarrow> (case kt_sign k moduleBytes [] tags of None \<Rightarrow> Inl sign_err | Some (item, _) \<Rightarrow> Inr item))"

definition SaveModule ::
  "('n, 'j, 'f) kit \<Rightarrow> 'f \<Rightarrow> string \<Rightarrow> module \<Rightarrow> 'f \<times> string \<times> sys_err option" where
  "SaveModule k fs moduleBytes md =
     (case GenModule k moduleBytes md of
        Inl e \<Rightarrow> (fs, [], Some e)
      | Inr item \<Rightarrow>
          (case fl_write (kt_files k) fs (''mod-'' @ item_Id item @ ''.json'') (kt_enc_item k item) of
             (fs', e) \<Rightarrow> (fs', item_Id item, map_option OtherErr e)))"

definition UploadModuleToArweave ::
  "('n, 'j, 'f) kit \<Rightarrow> 'f \<Rightarrow> string \<Rightarrow> string \<Rightarrow> 'f \<times> (sys_err + string)" where
  "UploadModuleToArweave k fs filePath keyfile =
     (case fl_stat (kt_files k) fs filePath of
        (fs1, FileMissing) \<Rightarrow> (fs1, Inl ErrNotFoundMod)
      | (fs1, StatErr e) \<Rightarrow> (fs1, Inl (OtherErr e))
      | (fs1, FileExists) \<Rightarrow>
     (case fl_read (kt_files k) fs1 filePath of
        (fs2, Inl e) \<Rightarrow> (fs2, Inl (OtherErr e))
      | (fs2, Inr data) \<Rightarrow>
     (fs2, case kt_dec_item k data of
        None \<Rightarrow> Inl json_err
      | Some item \<Rightarrow> (case kt_upload k keyfile [item] of Inl e \<Rightarrow> Inl (OtherErr e) | Inr txid \<Rightarrow> Inr txid))))"

subsection \<open>Waiting for results (async.go)\<close>

fun ResultAndWait ::
  "('n, 'j, 'f) kit \<Rightarrow> nat \<Rightarrow> client \<Rightarrow> 'n \<Rightarrow> string \<Rightarrow> string \<Rightarrow> 'n \<times> (sys_err + vmm_result)" where
  "ResultAndWait k 0 c n pid msgid = (n, Inl (OtherErr ''timeout waiting for result after 2 minutes''))"
| "ResultAndWait k (Suc polls) c n pid msgid =
     (case Client_GetResult (sdk_cfg.truncate k) c n pid msgid of
        (n', Inl e) \<Rightarrow> (n', Inl e)
      | (n', Inr result) \<Rightarrow>
          if vr_ItemId result = [] then ResultAndWait k polls c n' pid msgid else (n', Inr result))"

definition wait_response ::
  "('n, 'j, 'f) kit \<Rightarrow> nat \<Rightarrow> client \<Rightarrow> 'n \<Rightarrow> string \<Rightarrow> response \<Rightarrow> 'n \<times> (sys_err + response)" where
  "wait_response k polls c n pid res =
     (case ResultAndWait k polls c n pid (resp_Id res) of
        (n', Inl e) \<Rightarrow> (n', Inl e)
      | (n', Inr result) \<Rightarrow> (n', Inr \<lparr>resp_Id = resp_Id res, resp_Message = kt_enc_result k result\<rparr>))"

definition SendAndWait ::
  "('n, 'j, 'f) kit \<Rightarrow> int64 \<Rightarrow> nat \<Rightarrow> client \<Rightarrow> 'n \<Rightarrow> string \<Rightarrow> string \<Rightarrow> tag list \<Rightarrow> 'n \<times> (sys_err + response)" where
  "SendAndWait k now polls c n processId data tags =
     (case SDK_Send k now c n processId data tags of
        (n1, Inl e) \<Rightarrow> (n1, Inl e)
      | (n1, Inr (res, redirectUrl)) \<Rightarrow>
          wait_response k polls (if redirectUrl \<noteq> [] then NewClient redirectUrl else c) n1 processId res)"

definition SendMessageAndWait ::
  "('n, 'j, 'f) kit \<Rightarrow> int64 \<Rightarrow> nat \<Rightarrow> client \<Rightarrow> 'n \<Rightarrow> string \<Rightarrow> string \<Rightarrow> tag list \<Rightarrow> 'n \<times> (sys_err + response)" where
  "SendMessageAndWait k now polls c n target data params =
     (case MessageToTags DefaultMessage of
        (_, Some e) \<Rightarrow> (n, Inl (CodecErr e))
      | (msgTags, None) \<Rightarrow> SendAndWait k now polls c n target data (MergeTags msgTags params))"

definition SendMessageWithEncryptedParamsAndWait ::
  "('n, 'j, 'f) kit \<Rightarrow> int64 \<Rightarrow> nat \<Rightarrow> nat list \<Rightarrow> client \<Rightarrow> 'n \<Rightarrow> string \<Rightarrow> string \<Rightarrow> tag list \<Rightarrow> tag list \<Rightarrow>
     client \<times> 'n \<times> (sys_err + response)" where
  "SendMessageWithEncryptedParamsAndWait k now polls rnd c n target data params encryptedParams =
     (case EncryptTags k rnd c n encryptedParams of
        (c1, n1, Inl e) \<Rightarrow> (c1, n1, Inl e)
      | (c1, n1, Inr encryptedTags) \<Rightarrow>
          (c1, SendMessageAndWait k now polls c1 n1 target data (MergeTags params encryptedTags)))"

text \<open>The clock is read a second time for the data of the spawn.\<close>

definition SpawnAndWait ::
  "('n, 'j, 'f) kit \<Rightarrow> int64 \<Rightarrow> int64 \<Rightarrow> nat \<Rightarrow> client \<Rightarrow> 'n \<Rightarrow> string \<Rightarrow> string \<Rightarrow> tag list \<Rightarrow> 'n \<times> (sys_err + response)"
where
  "SpawnAndWait k now now' polls c n md scheduler params =
     (case ProcessToTags (spawn_process md scheduler) of
        (_, Some e) \<Rightarrow> (n, Inl (CodecErr e))
      | (processTags, None) \<Rightarrow>
     (case SDK_Send k now' c n [] (FormatInt now) (MergeTags processTags params) of
        (n1, Inl e) \<Rightarrow> (n1, Inl e)
      | (n1, Inr (res, _)) \<Rightarrow> wait_response k polls c n1 (resp_Id res) res))"

end
