(* ===== verification/SdkProps.thy ===== *)
theory SdkProps
  imports Sdk VmmProps
begin

text \<open>
  What the client and the kit guarantee: a node cannot make a client accept an item that is not
  signed or not the one asked for, and an encrypted parameter reaches the machine in the clear.
\<close>

subsection \<open>Signed items\<close>

definition verified :: "('n, 'j) sdk_cfg \<Rightarrow> bundle_item \<Rightarrow> bool" where
  "verified cf x \<longleftrightarrow> verify_bundle_item (sk_lib cf) x \<and> (\<exists>b. sk_DecodeBundleItem cf b = BinItem x)"

lemma decodeItemBinary_verified: "decodeItemBinary cf b = Inr x \<Longrightarrow> verified cf x"
  by (auto simp: decodeItemBinary_def verified_def split: bin_result.splits if_splits)

lemma getItemBinary_verified: "snd (getItemBinary cf c n path g) = Inr x \<Longrightarrow> verified cf x"
  by (auto simp: getItemBinary_def dest: decodeItemBinary_verified split: prod.splits sum.splits option.splits)

lemma GetMessageBin_verified: "snd (GetMessageBin cf c n i) = Inr x \<Longrightarrow> verified cf x \<and> item_Id x = i"
  using getItemBinary_verified [of cf c n "''/messageBin/'' @ i" "\<lambda>n1. Client_GetMessage cf c n1 i"]
  by (auto simp: GetMessageBin_def split: prod.splits sum.splits if_splits)

lemma BinByNonce_verified:
  "snd (GetMessageBinByNonce cf c n pid nonce) = Inr x \<Longrightarrow> verified cf x"
  "snd (GetAssignBinByNonce cf c n pid nonce) = Inr x \<Longrightarrow> verified cf x"
  using getItemBinary_verified [of cf c n] unfolding GetMessageBinByNonce_def GetAssignBinByNonce_def by blast+

lemma GetAssignBinByMessage_verified:
  "snd (GetAssignBinByMessage cf c n i) = Inr x \<Longrightarrow>
     verified cf x \<and> GetType x = TypeAssignment \<and> GetTagsValue ''Message'' (item_Tags x) = i"
  using getItemBinary_verified [of cf c n "''/assignmentBinByMessage/'' @ i" "\<lambda>n1. Client_GetAssignByMessage cf c n1 i"]
  by (auto simp: GetAssignBinByMessage_def split: prod.splits sum.splits if_splits)

text \<open>C22: whatever a node answers, a client takes an item from a binary endpoint only if it was decoded
  from signed bytes and its signature verifies, also when an old node without these routes made the
  client rebuild the bytes from JSON. An item asked for by its id has this id, and an assignment asked
  for by a message is an assignment of this message. Of an item or assignment asked for by a process and a nonce
  only the signature is checked: it need not be the one of this process and nonce.\<close>

theorem binary_endpoints_authentic:
  "(\<forall>x. snd (GetMessageBin cf c n i) = Inr x \<longrightarrow> verified cf x \<and> item_Id x = i) \<and>
   (\<forall>x. snd (GetMessageBinByNonce cf c n pid nonce) = Inr x \<longrightarrow> verified cf x) \<and>
   (\<forall>x. snd (GetAssignBinByNonce cf c n pid nonce) = Inr x \<longrightarrow> verified cf x) \<and>
   (\<forall>x. snd (GetAssignBinByMessage cf c n i) = Inr x \<longrightarrow>
      verified cf x \<and> GetType x = TypeAssignment \<and> GetTagsValue ''Message'' (item_Tags x) = i)"
  by (intro conjI allI impI) (auto dest: GetMessageBin_verified BinByNonce_verified GetAssignBinByMessage_verified)

subsection \<open>Encrypted parameters\<close>

lemma encrypt_loop_names:
  "encrypt_loop el e rnd acc ts = Inr out \<Longrightarrow>
     \<exists>vs. out = acc @ vs \<and> length vs = length ts \<and>
       (\<forall>j < length ts. tag_Name (vs ! j) = encryptedTagName (tag_Name (ts ! j)) \<and>
          (\<exists>r. Cryptor_Encrypt el e r (tag_Value (ts ! j)) = Inr (tag_Value (vs ! j))))"
proof (induction el e rnd acc ts rule: encrypt_loop.induct)
  case (2 el e rnd acc t ts)
  let ?r = "case rnd of [] \<Rightarrow> 0 | r # _ \<Rightarrow> r"
  obtain v where v: "Cryptor_Encrypt el e ?r (tag_Value t) = Inr v"
    "encrypt_loop el e (tl rnd) (acc @ [Tag (encryptedTagName (tag_Name t)) v]) ts = Inr out"
    using "2.prems" by (auto split: sum.splits)
  let ?x = "Tag (encryptedTagName (tag_Name t)) v"
  obtain vs where vs: "out = (acc @ [?x]) @ vs" "length vs = length ts"
    "\<forall>j < length ts. tag_Name (vs ! j) = encryptedTagName (tag_Name (ts ! j)) \<and>
          (\<exists>r. Cryptor_Encrypt el e r (tag_Value (ts ! j)) = Inr (tag_Value (vs ! j)))"
    using "2.IH" [OF v] by blast
  show ?case
    by (intro exI [of _ "?x # vs"]) (use vs v(1) in \<open>auto simp: nth_Cons less_Suc_eq_0_disj split: nat.split\<close>)
qed simp

lemma encrypt_loop_mem:
  assumes "encrypt_loop el e rnd [] ts = Inr out" and "t \<in> set ts"
  obtains v r where "Tag (encryptedTagName (tag_Name t)) v \<in> set out" "Cryptor_Encrypt el e r (tag_Value t) = Inr v"
proof -
  obtain j where j: "j < length ts" "ts ! j = t" using assms(2) by (auto simp: in_set_conv_nth)
  from encrypt_loop_names [OF assms(1)] j obtain r where
    "out ! j \<in> set out" "tag_Name (out ! j) = encryptedTagName (tag_Name t)"
    "Cryptor_Encrypt el e r (tag_Value t) = Inr (tag_Value (out ! j))" by auto
  then show ?thesis using that by (metis tag.collapse)
qed

lemma encrypt_loop_prefixed:
  assumes "encrypt_loop el e rnd [] ts = Inr out" and "x \<in> set out"
  shows "HasPrefix (tag_Name x) EncryptedTagPrefix"
proof -
  obtain j where "j < length out" "out ! j = x" using assms(2) by (auto simp: in_set_conv_nth)
  with encrypt_loop_names [OF assms(1)] obtain n where "tag_Name x = encryptedTagName n" by auto
  then show ?thesis by (simp add: encryptedTagName_def)
qed

text \<open>The name a machine finds an encrypted parameter under.\<close>

definition plain_name :: "tag \<Rightarrow> string" where
  "plain_name t = TrimPrefix (tag_Name t) EncryptedTagPrefix"

lemma encryptedTagName_plain: "encryptedTagName (tag_Name t) = EncryptedTagPrefix @ plain_name t"
  by (auto simp: encryptedTagName_def plain_name_def TrimPrefix_def HasPrefix_def)
     (metis append_take_drop_id)

definition no_clash :: "tag list \<Rightarrow> tag \<Rightarrow> bool" where
  "no_clash params t \<longleftrightarrow>
     \<not> HasPrefix (plain_name t) EncryptedTagPrefix \<and>
     plain_name t \<notin> {''Data'', ''SDK-Timestamp''} \<union> set (tag_names params) \<and>
     EncryptedTagPrefix @ plain_name t \<notin> set (tag_names params)"

lemma mget_entries:
  assumes "distinct (tag_names ts)" "t \<in> set ts"
  shows "mget (map tag_entry ts) (tag_Name t) = Some (tag_Value t)"
proof -
  have "distinct (map fst (map tag_entry ts))" using assms(1) by (simp add: comp_def)
  moreover have "(tag_Name t, tag_Value t) \<in> set (map tag_entry ts)" using assms(2) by auto
  ultimately show ?thesis by (metis map_of_eq_Some_iff)
qed

text \<open>The tags a message with encrypted parameters is signed with.\<close>

definition signed_tags :: "int64 \<Rightarrow> tag list \<Rightarrow> tag list \<Rightarrow> tag list" where
  "signed_tags now params enc =
     MergeTags [Tag ''SDK-Timestamp'' (FormatInt now)]
       (MergeTags (BaseToTags (DefaultBase TypeMessage)) (MergeTags params enc))"

lemma default_message_tags: "MessageToTags DefaultMessage = (BaseToTags (DefaultBase TypeMessage), None)"
  by (simp add: MessageToTags_def DefaultMessage_def zero_msg_def opt_tag_def Let_def BaseToTags_def DefaultBase_def
      CheckDuplicateTag_def)

lemma signed_tags_names:
  "set (tag_names (signed_tags now params enc)) =
     {''SDK-Timestamp'', ''Data-Protocol'', ''Variant'', ''Type''} \<union> set (tag_names params) \<union> set (tag_names enc)"
  unfolding signed_tags_def names_MergeTags by (auto simp: BaseToTags_def)

lemma kept_params:
  assumes dec: "Decode lib item = Inr (pid, accid, fp, IMessage m)" and ps: "TagsToParams (msg_Tags m) = Inr ps"
  shows "pid = item_Target item" "mwf ps" "distinct (tag_names (item_Tags item))"
    "\<And>t. t \<in> set (item_Tags item) \<Longrightarrow> msg_keeps t \<Longrightarrow> mget ps (tag_Name t) = Some (tag_Value t)"
    "\<And>n. n \<noteq> ''Data'' \<Longrightarrow> n \<notin> set (tag_names (item_Tags item)) \<or> n \<in> set NonExtractableTags \<Longrightarrow> mget ps n = None"
proof -
  from dec have d: "DecodeItemToMessage lib item = Inr m" and pid: "pid = item_Target item"
    by (auto simp: Decode_def split: sum.splits if_splits)
  then obtain m0 data where m0: "TagsToMessage (item_Tags item) = Inr m0"
    and m: "m = m0\<lparr>msg_Tags := msg_Tags m0 @ [Tag ''Data'' data]\<rparr>"
    by (auto simp: DecodeItemToMessage_def split: sum.splits option.splits)
  from m0 have dist: "distinct (tag_names (item_Tags item))"
    and tags: "msg_Tags m = filter msg_keeps (item_Tags item) @ [Tag ''Data'' data]"
    by (auto simp: m TagsToMessage_def TagsToMessage_loop_Tags zero_msg_def split: option.splits)
  have dm: "distinct (tag_names (msg_Tags m))" using DecodeItemToMessage_tags_distinct [OF d] by simp
  from TagsToParams_ok [OF dm] ps have get: "mwf ps" "\<And>k. mget ps k = mget (map tag_entry (msg_Tags m)) k" by auto
  show "pid = item_Target item" "mwf ps" "distinct (tag_names (item_Tags item))"
    by (fact pid, fact get(1), fact dist)
  show "mget ps (tag_Name t) = Some (tag_Value t)" if "t \<in> set (item_Tags item)" "msg_keeps t" for t
    unfolding get(2) using that by (intro mget_entries [OF dm]) (simp add: tags)
  show "mget ps n = None" if "n \<noteq> ''Data''" "n \<notin> set (tag_names (item_Tags item)) \<or> n \<in> set NonExtractableTags" for n
    unfolding get(2) using that by (intro map_of_entries_notin) (auto simp: tags msg_keeps_def image_iff)
qed

lemma decryptParams_plain:
  assumes "mwf (meta_Params m)" "mget (meta_Params m) k = None"
    "mget (meta_Params m) (EncryptedTagPrefix @ k) = Some c" "decrypt c = Some v"
  shows "mget (meta_Params (decryptParams (Some decrypt) m)) k = Some v"
proof -
  have ne: "meta_Params m \<noteq> []" using assms(3) by auto
  have "mwf (decrypted_params decrypt (meta_Params m) (meta_Params m) [])" by (rule decrypted_params_wf) simp
  then show ?thesis
    using assms ne by (simp add: decryptParams_def mget_maps_Copy decrypted_params_lookup)
qed

lemma reserved_not_encrypted:
  assumes "HasPrefix n EncryptedTagPrefix"
  shows "n \<notin> set ([''Action'', ''Pushed-For'', ''Sequence''] @ NonExtractableTags)" "n \<noteq> ''SDK-Timestamp''"
  using assms by (auto simp: HasPrefix_def EncryptedTagPrefix_def NonExtractableTags_def)

text \<open>C31: an encrypted parameter reaches the machine in the clear. A client with the public key a node
  announces sends a message with plain and encrypted parameters; when the send succeeds, what was
  posted is a signed item, and when the node decodes this item and decrypts its parameters with its
  private key, the machine finds every encrypted parameter under its plain name with the plaintext.
  The name must not collide with a plain parameter or with the payload, which takes the name \<open>Data\<close>.\<close>

theorem encrypted_params_reach:
  assumes "ecc_ok (sk_ecc k)" and "announces (sk_ecc k) nodeKey pk"
    and "NewFromPublicKey (sk_ecc k) pk = Inr e" and "cl_cryptor c = Some e"
    and "\<forall>d t ts item b. kt_sign k d t ts = Some (item, b) \<longrightarrow> item_Tags item = ts \<and> item_Target item = t"
    and "\<forall>t \<in> set enc. no_clash params t"
    and "SendMessageWithEncryptedParams k now rnd c n target data params enc = (c', n', Inr res)"
  shows "\<exists>item binary url out.
     snd (snd (EncryptTags k rnd c n enc)) = Inr out \<and> item_Tags item = signed_tags now params out \<and>
     kt_sign k data target (item_Tags item) = Some (item, binary) \<and>
     Client_Send (sdk_cfg.truncate k) c n binary = (n', Inr (res, url)) \<and>
     (\<forall>lib pid accid fp m ps (mt :: meta) t. Decode lib item = Inr (pid, accid, fp, IMessage m) \<longrightarrow>
        TagsToParams (msg_Tags m) = Inr ps \<longrightarrow> meta_Params mt = ps \<longrightarrow> t \<in> set enc \<longrightarrow>
        pid = target \<and>
        mget (meta_Params (decryptParams (Some (cryptor_decrypt (sk_ecc k) nodeKey)) mt)) (plain_name t) =
          Some (tag_Value t))"
proof -
  obtain out where out: "EncryptTags k rnd c n enc = (c, n, Inr out)" "encrypt_loop (sk_ecc k) e rnd [] enc = Inr out"
    "(c', n', Inr res) = (c, SDK_SendMessage k now c n target data (MergeTags params out))"
    using assms(4,7)
    by (auto simp: SendMessageWithEncryptedParams_def EncryptTags_def GetCryptor_def sdk_cfg.defs
        split: prod.splits sum.splits if_splits)
  let ?ts = "signed_tags now params out"
  obtain item binary url where snd_: "kt_sign k data target ?ts = Some (item, binary)"
    "Client_Send (sdk_cfg.truncate k) c n binary = (n', Inr (res, url))"
    using out(3) by (auto simp: SDK_SendMessage_def SDK_Send_def default_message_tags signed_tags_def
        split: prod.splits sum.splits option.splits)
  with assms(5) have item: "item_Tags item = ?ts" "item_Target item = target" by blast+
  have dec: "\<And>r p x. Cryptor_Encrypt (sk_ecc k) e r p = Inr x \<Longrightarrow>
      cryptor_decrypt (sk_ecc k) nodeKey x = Some p \<and> x \<noteq> []"
    using announced_key [OF assms(1,2)] assms(3) by (metis sum.inject(2))
  have "pid = target \<and>
      mget (meta_Params (decryptParams (Some (cryptor_decrypt (sk_ecc k) nodeKey)) mt)) (plain_name t) = Some (tag_Value t)"
    if d: "Decode lib item = Inr (pid, accid, fp, IMessage m)" and ps: "TagsToParams (msg_Tags m) = Inr ps"
      and mt: "meta_Params mt = ps" and t: "t \<in> set enc" for lib pid accid fp m ps and mt :: meta and t
  proof -
    note K = kept_params [OF d ps]
    let ?n = "plain_name t"
    obtain v r where v: "Tag (EncryptedTagPrefix @ ?n) v \<in> set out" "Cryptor_Encrypt (sk_ecc k) e r (tag_Value t) = Inr v"
      using encrypt_loop_mem [OF out(2) t] unfolding encryptedTagName_plain by blast
    have nc: "no_clash params t" using assms(6) t by blast
    have res: "EncryptedTagPrefix @ ?n \<notin> set ([''Action'', ''Pushed-For'', ''Sequence''] @ NonExtractableTags)"
      "EncryptedTagPrefix @ ?n \<noteq> ''SDK-Timestamp''"
      using reserved_not_encrypted [of "EncryptedTagPrefix @ ?n"] by simp_all
    have nb: "EncryptedTagPrefix @ ?n \<notin> set (tag_names (BaseToTags (DefaultBase TypeMessage)))"
      using res(1) by (simp add: BaseToTags_def NonExtractableTags_def)
    have mem: "Tag (EncryptedTagPrefix @ ?n) v \<in> set (item_Tags item)"
      using v(1) nc res(2) nb by (auto simp: item signed_tags_def MergeTags_eq no_clash_def)
    have enc: "mget ps (EncryptedTagPrefix @ ?n) = Some v"
      using K(4) [OF mem] res(1) dec [OF v(2)] by (simp add: msg_keeps_def)
    have "?n \<notin> set (tag_names out)" using encrypt_loop_prefixed [OF out(2)] nc by (auto simp: no_clash_def)
    then have "?n \<notin> set (tag_names (item_Tags item)) \<or> ?n \<in> set NonExtractableTags"
      using nc unfolding item signed_tags_names by (auto simp: no_clash_def NonExtractableTags_def)
    then have "mget ps ?n = None" using nc by (intro K(5)) (auto simp: no_clash_def)
    then show ?thesis
      using decryptParams_plain [of mt ?n v "cryptor_decrypt (sk_ecc k) nodeKey" "tag_Value t"]
        K(1,2) enc dec [OF v(2)] item(2) mt by simp
  qed
  then show ?thesis
    using snd_ item out(1) by (intro exI [of _ item] exI [of _ binary] exI [of _ url] exI [of _ out] conjI allI impI) simp_all
qed

subsection \<open>Instances\<close>

definition demo_ecc :: ecc_lib where
  "demo_ecc =
     \<lparr>ec_NewSigner = (\<lambda>s. Some (''a'', s)), ec_public = (\<lambda>k. k),
      ec_Encrypt = (\<lambda>r pub p. Some (CHR ''x'' # p)), ec_Decrypt = (\<lambda>k c. Some (tl c)),
      ec_FromECDSAPub = (\<lambda>p. p), ec_UnmarshalPubkey = Some,
      hexutil_Encode = (\<lambda>x. ''0x'' @ x @ ''.''), hexutil_Decode = (\<lambda>s. Some (butlast (drop 2 s))),
      b64_EncodeToString = (\<lambda>x. x), b64_DecodeString = Some\<rparr>"

lemma demo_ecc_ok: "ecc_ok demo_ecc"
  by (simp add: ecc_ok_def demo_ecc_def HasPrefix_def TrimSpace_def is_space_def)

text \<open>A network of one node that keeps the bodies it is sent, accepts every item and serves one.\<close>

definition demo_url :: url_lib where
  "demo_url =
     \<lparr>url_Parse = (\<lambda>s. Some \<lparr>url_Base = [], url_Path = s, url_RawQuery = []\<rparr>),
      url_ResolveReference = (\<lambda>a b. b\<lparr>url_Base := url_Path a\<rparr>),
      url_String = (\<lambda>u. url_Base u @ url_Path u), url_QueryEscape = (\<lambda>s. s),
      mime_ParseMediaType = Some\<rparr>"

definition demo_dec :: "string api_dec" where
  "demo_dec =
     \<lparr>ad_response = (\<lambda>b e. Some \<lparr>resp_Id = b, resp_Message = []\<rparr>), ad_info = (\<lambda>b e. None),
      ad_result = (\<lambda>b e. None), ad_results = (\<lambda>b e. None), ad_item = (\<lambda>b e. Some b),
      ad_nonce = (\<lambda>b e. None), ad_module = (\<lambda>b e. None), ad_strings = (\<lambda>b e. None),
      ad_node_map = (\<lambda>b e. None), ad_node = (\<lambda>b e. None), ad_nodes = (\<lambda>b e. None),
      ad_text = (\<lambda>b e. Some b), ad_trysend = (\<lambda>_. [])\<rparr>"

definition demo_resp :: "string \<Rightarrow> http_resp" where
  "demo_resp b = \<lparr>rp_Status = 200, rp_ContentType = ''application/octet-stream'', rp_Location = [],
     rp_Body = b, rp_EOF = True\<rparr>"

definition demo_kit :: "(string list, string, unit) kit" where
  "demo_kit =
     \<lparr>sk_lib = demo_lib\<lparr>owner_to_address := (\<lambda>_. Some ''me''), verify_bundle_item := (\<lambda>_. True)\<rparr>,
      sk_ecc = demo_ecc, sk_url = demo_url, sk_net = (\<lambda>n q. (n @ [rq_Body q], Inr (demo_resp ''m1''))),
      sk_dec = demo_dec, sk_GenerateItemBinary = Inr, sk_DecodeBundleItem = (\<lambda>b. BinItem (demo_item b)),
      kt_Address = ''me'', kt_sign = (\<lambda>d t ts. Some ((demo_item ''m1'')\<lparr>item_Target := t, item_Tags := ts\<rparr>, ''bin'')),
      kt_files = \<lparr>fl_stat = (\<lambda>f _. (f, FileMissing)), fl_read = (\<lambda>f _. (f, Inr [])),
        fl_mkdir = (\<lambda>f _. (f, None)), fl_write = (\<lambda>f _ _. (f, None))\<rparr>,
      kt_enc_item = (\<lambda>_. []), kt_dec_item = (\<lambda>_. None), kt_enc_result = (\<lambda>_. []), kt_upload = (\<lambda>_ _. Inr [])\<rparr>"

definition demo_node_key :: cryptor where
  "demo_node_key = \<lparr>cr_Address = ''a'', cr_eccPrivate = Some ''key'', cr_eccPublic = Some ''key''\<rparr>"

definition demo_encryptor :: cryptor where
  "demo_encryptor = \<lparr>cr_Address = [], cr_eccPrivate = None, cr_eccPublic = Some ''key''\<rparr>"

definition demo_client :: client where
  "demo_client = (NewClient ''http://node'')\<lparr>cl_cryptor := Some demo_encryptor\<rparr>"

lemma demo_send:
  "SendMessageWithEncryptedParams demo_kit 7 [1] demo_client [] ''p'' ''data'' [Tag ''Action'' ''Login''] [Tag ''Pin'' ''1234''] =
     (demo_client, [''bin''], Inr \<lparr>resp_Id = ''m1'', resp_Message = []\<rparr>)"
  by (simp add: SendMessageWithEncryptedParams_def EncryptTags_def GetCryptor_def demo_client_def demo_encryptor_def
      NewClient_def demo_kit_def demo_ecc_def Cryptor_Encrypt_def SDK_SendMessage_def default_message_tags SDK_Send_def
      Client_Send_def request_of_def buildURL_def demo_url_def NewRequest_def http_Do_def handleRedirect_def
      decode_2xx_def is_2xx_def demo_resp_def demo_dec_def sdk_cfg.defs)

theorem encrypted_params_reach_witness:
  "\<exists>item accid fp m ps. let lib = demo_lib\<lparr>owner_to_address := (\<lambda>_. Some ''me'')\<rparr> in
     Client_Send (sdk_cfg.truncate demo_kit) demo_client [] ''bin'' = ([''bin''], Inr (\<lparr>resp_Id = ''m1'', resp_Message = []\<rparr>, [])) \<and>
     Decode lib item = Inr (''p'', accid, fp, IMessage m) \<and> TagsToParams (msg_Tags m) = Inr ps \<and>
     mget ps ''Pin'' = None \<and>
     mget (meta_Params (decryptParams (Some (cryptor_decrypt demo_ecc demo_node_key))
       (zero_meta\<lparr>meta_Params := ps\<rparr>))) ''Pin'' = Some ''1234''"
proof -
  have el: "sk_ecc demo_kit = demo_ecc" by (simp add: demo_kit_def)
  have key: "announces demo_ecc demo_node_key ''0xkey.''"
    by (auto simp: announces_def NewECCFromPrivateKey_def demo_ecc_def demo_node_key_def Cryptor_PublicKey_def)
  have enc: "NewFromPublicKey demo_ecc ''0xkey.'' = Inr demo_encryptor"
    by (simp add: NewFromPublicKey_def parseECCPublicKey_def TrimSpace_def is_space_def HasPrefix_def demo_ecc_def
        demo_encryptor_def)
  have cl: "cl_cryptor demo_client = Some demo_encryptor" by (simp add: demo_client_def)
  have sg: "\<forall>d t ts item b. kt_sign demo_kit d t ts = Some (item, b) \<longrightarrow> item_Tags item = ts \<and> item_Target item = t"
    by (auto simp: demo_kit_def)
  have nc: "\<forall>t \<in> set [Tag ''Pin'' ''1234'']. no_clash [Tag ''Action'' ''Login''] t"
    by (simp add: no_clash_def plain_name_def TrimPrefix_def HasPrefix_def EncryptedTagPrefix_def)
  note T = encrypted_params_reach [of demo_kit, unfolded el, OF demo_ecc_ok key enc cl sg nc demo_send]
  then obtain item binary url out where o: "snd (snd (EncryptTags demo_kit [1] demo_client [] [Tag ''Pin'' ''1234''])) = Inr out"
    "item_Tags item = signed_tags 7 [Tag ''Action'' ''Login''] out"
    and t: "kt_sign demo_kit ''data'' ''p'' (item_Tags item) = Some (item, binary)"
    "Client_Send (sdk_cfg.truncate demo_kit) demo_client [] binary =
       ([''bin''], Inr (\<lparr>resp_Id = ''m1'', resp_Message = []\<rparr>, url))"
    "\<And>lib pid accid fp m ps (mt :: meta) t. Decode lib item = Inr (pid, accid, fp, IMessage m) \<Longrightarrow>
        TagsToParams (msg_Tags m) = Inr ps \<Longrightarrow> meta_Params mt = ps \<Longrightarrow> t \<in> set [Tag ''Pin'' ''1234''] \<Longrightarrow>
        mget (meta_Params (decryptParams (Some (cryptor_decrypt demo_ecc demo_node_key)) mt)) (plain_name t) =
          Some (tag_Value t)"
    by (elim exE conjE) blast
  have out: "out = [Tag ''Encrypted-Pin'' ''x1234'']"
    using o(1) by (simp add: EncryptTags_def GetCryptor_def demo_client_def demo_encryptor_def demo_kit_def demo_ecc_def
        Cryptor_Encrypt_def encryptedTagName_def HasPrefix_def EncryptedTagPrefix_def)
  have it: "item = (demo_item ''m1'')\<lparr>item_Target := ''p'', item_Tags := signed_tags 7 [Tag ''Action'' ''Login''] out\<rparr>"
    and b: "binary = ''bin''" using t(1) o(2) by (auto simp: demo_kit_def)
  let ?lib = "demo_lib\<lparr>owner_to_address := (\<lambda>_. Some ''me'')\<rparr>"
  obtain accid fp m where d: "Decode ?lib item = Inr (''p'', accid, fp, IMessage m)"
    "msg_Tags m = [Tag ''SDK-Timestamp'' (FormatInt 7), Tag ''Encrypted-Pin'' ''x1234'', Tag ''Data'' []]"
  proof -
    have ts: "item_Tags item = [Tag ''SDK-Timestamp'' (FormatInt 7), Tag ''Data-Protocol'' ''hymx'',
        Tag ''Variant'' ''v0.1.0'', Tag ''Type'' ''Message'', Tag ''Action'' ''Login'', Tag ''Encrypted-Pin'' ''x1234'']"
      by (simp add: o(2) out signed_tags_def MergeTags_def BaseToTags_def DefaultBase_def DataProtocol_def Variant_def
          TypeMessage_def)
    have dup: "CheckDuplicateTag (item_Tags item) = None" by (simp add: ts)
    have "\<exists>m0. TagsToMessage (item_Tags item) = Inr m0 \<and>
        msg_Tags m0 = [Tag ''SDK-Timestamp'' (FormatInt 7), Tag ''Encrypted-Pin'' ''x1234'']"
      unfolding TagsToMessage_def dup
      by (simp add: TagsToMessage_loop_Tags zero_msg_def) (simp add: ts msg_keeps_def NonExtractableTags_def FormatInt_def show_int_def)
    then obtain m0 where m0: "TagsToMessage (item_Tags item) = Inr m0"
      "msg_Tags m0 = [Tag ''SDK-Timestamp'' (FormatInt 7), Tag ''Encrypted-Pin'' ''x1234'']" by blast
    have "GetType item = ''Message''" by (simp add: GetType_def ts)
    then have "Decode ?lib item = Inr (''p'', ''me'', msg_FromProcess m0,
        IMessage (m0\<lparr>msg_Tags := msg_Tags m0 @ [Tag ''Data'' []]\<rparr>))"
      by (simp add: Decode_def item_signer_def it demo_item_def type_defs DecodeItemToMessage_def demo_lib_def
          m0(1) [unfolded it demo_item_def, simplified])
    with m0(2) show ?thesis using that by simp
  qed
  then obtain ps where ps: "TagsToParams (msg_Tags m) = Inr ps" "mget ps ''Pin'' = None"
    using TagsToParams_ok [of "msg_Tags m"] by auto
  have "url = []" using t(2) b by (simp add: demo_kit_def demo_client_def NewClient_def
      Client_Send_def request_of_def buildURL_def demo_url_def NewRequest_def http_Do_def handleRedirect_def
      decode_2xx_def is_2xx_def demo_resp_def demo_dec_def sdk_cfg.defs)
  then show ?thesis
    using t(2) b d(1) ps t(3) [OF d(1) ps(1), of "zero_meta\<lparr>meta_Params := ps\<rparr>" "Tag ''Pin'' ''1234''"]
    by (intro exI [of _ item] exI [of _ accid] exI [of _ fp] exI [of _ m] exI [of _ ps])
       (simp add: plain_name_def TrimPrefix_def HasPrefix_def EncryptedTagPrefix_def)
qed

theorem binary_endpoints_authentic_witness:
  "let cf = sdk_cfg.truncate demo_kit in
     snd (GetMessageBin cf demo_client [] ''m1'') = Inr (demo_item ''m1'') \<and> verified cf (demo_item ''m1'') \<and>
     snd (GetMessageBin cf demo_client [] ''m2'') = Inl ErrUnauthorizedNode"
proof -
  let ?cf = "sdk_cfg.truncate demo_kit"
  note defs = GetMessageBin_def getItemBinary_def getBinary_def http_Get_def http_Do_def request_of_def buildURL_def
    NewRequest_def decodeItemBinary_def demo_kit_def demo_url_def demo_client_def NewClient_def demo_resp_def
    demo_lib_def demo_item_def sdk_cfg.defs
  have "snd (GetMessageBin ?cf demo_client [] ''m1'') = Inr (demo_item ''m1'')"
    "snd (GetMessageBin ?cf demo_client [] ''m2'') = Inl ErrUnauthorizedNode"
    by (simp_all add: defs)
  moreover from this(1) have "verified ?cf (demo_item ''m1'')"
    using binary_endpoints_authentic [of ?cf demo_client "[]" "''m1''"] by blast
  ultimately show ?thesis by (simp add: Let_def)
qed

end
