(* ===== verification/WebProps.thy ===== *)
theory WebProps
  imports WebApi SdkProps
begin

text \<open>
  The client against the server: what a client reads is what the node holds, a read changes nothing,
  and what becomes of a redirect.
\<close>

subsection \<open>A server as the network of a client\<close>

definition server_net ::
  "('s, 'r, 'h, 'u, 'o, 'f) server_cfg \<Rightarrow> nat \<Rightarrow> (http_req \<Rightarrow> request_info) \<Rightarrow> ('s, 'r, 'h, 'u, 'o, 'f) rec_state \<Rightarrow>
     http_req \<Rightarrow> ('s, 'r, 'h, 'u, 'o, 'f) rec_state \<times> (string + http_resp)" where
  "server_net sv pending ri st q = (case api_serve sv pending (ri q) st q of (st', r, _) \<Rightarrow> (st', Inr r))"

definition safe_char :: "char \<Rightarrow> bool" where
  "safe_char c = (let n = (of_char c :: nat) in
     (48 \<le> n \<and> n \<le> 57) \<or> (65 \<le> n \<and> n \<le> 90) \<or> (97 \<le> n \<and> n \<le> 122) \<or> n = 45 \<or> n = 95)"

definition seg :: "string \<Rightarrow> bool" where
  "seg a \<longleftrightarrow> a \<noteq> [] \<and> (\<forall>c \<in> set a. safe_char c)"

definition safe_path :: "string \<Rightarrow> bool" where
  "safe_path p \<longleftrightarrow> (\<exists>r. p = CHR ''/'' # r \<and> (\<forall>c \<in> set r. safe_char c \<or> c = CHR ''/''))"

text \<open>The client's base is a plain host: a path of safe characters is requested as it is.\<close>

definition plain_base :: "('n, 'j) sdk_cfg \<Rightarrow> client \<Rightarrow> bool" where
  "plain_base cf c \<longleftrightarrow> cl_httpClient c \<and>
     (\<forall>p m hs b. safe_path p \<longrightarrow>
        (\<exists>u. request_of cf c m p hs b = Inr \<lparr>rq_Method = m, rq_URL = u, rq_Header = hs, rq_Body = b\<rparr> \<and> url_Path u = p))"

text \<open>The JSON texts of the two sides fit together. A list of nodes is not the text of one node.\<close>

definition codecs_fit :: "api_enc \<Rightarrow> 'j api_dec \<Rightarrow> bool" where
  "codecs_fit ae ad \<longleftrightarrow>
     (\<forall>x. ad_response ad (ae_response ae x) True = Some x) \<and>
     (\<forall>x. ad_nonce ad (ae_nonce ae x) True = Some x) \<and>
     (\<forall>x. ad_text ad (ae_text ae x) True = Some x) \<and>
     (\<forall>x. ad_strings ad (ae_strings ae x) True = Some x) \<and>
     (\<forall>x. ad_node_map ad (ae_node_map ae x) True = Some x) \<and>
     (\<forall>x. ad_node ad (ae_node ae x) True = Some x) \<and>
     (\<forall>x. ad_nodes ad (ae_nodes ae x) True = Some x) \<and>
     (\<forall>x. ad_module ad (ae_module ae x) True = Some x) \<and>
     (\<forall>x. ad_nodes ad (ae_node ae (Some x)) True = None)"

lemma codecs_fit_D:
  assumes "codecs_fit ae ad"
  shows "ad_response ad (ae_response ae x1) True = Some x1" "ad_nonce ad (ae_nonce ae x2) True = Some x2"
    "ad_text ad (ae_text ae x3) True = Some x3" "ad_strings ad (ae_strings ae x4) True = Some x4"
    "ad_node_map ad (ae_node_map ae x5) True = Some x5" "ad_node ad (ae_node ae x6) True = Some x6"
    "ad_nodes ad (ae_nodes ae x7) True = Some x7" "ad_module ad (ae_module ae x8) True = Some x8"
    "ad_nodes ad (ae_node ae (Some x9)) True = None"
  using assms unfolding codecs_fit_def by blast+

lemma seg_no_slash: "seg a \<Longrightarrow> CHR ''/'' \<notin> set a"
  by (auto simp: seg_def safe_char_def)

lemma Split_seg1: "seg a \<Longrightarrow> Split CHR ''/'' a = [a]"
  by (rule Split_no_sep [OF seg_no_slash])

lemma Split_seg2: "seg a \<Longrightarrow> Split CHR ''/'' (a @ CHR ''/'' # t) = a # Split CHR ''/'' t"
  by (rule Split_append_sep [OF seg_no_slash])

lemma seg_digit: "d < 10 \<Longrightarrow> safe_char (digit_char d)"
  by (simp add: safe_char_def digit_char_def Let_def)

lemma seg_show_nat: "c \<in> set (show_nat n) \<Longrightarrow> safe_char c"
proof (induction n rule: show_nat.induct)
  case (1 n)
  then show ?case
    using seg_digit [of "n mod 10"] seg_digit [of n] by (cases "n < 10") (auto simp: show_nat.simps [of n])
qed

lemma seg_FormatInt: "seg (FormatInt n)"
proof -
  have "safe_char CHR ''-''" by (simp add: safe_char_def)
  then show ?thesis using seg_show_nat by (auto simp: seg_def FormatInt_def show_int_def)
qed

lemma safe_path_seg: "safe_path p \<Longrightarrow> seg a \<Longrightarrow> safe_path (p @ a)"
  by (auto simp: safe_path_def seg_def)

lemma safe_path_slash: "safe_path p \<Longrightarrow> safe_path (p @ ''/'')"
  by (auto simp: safe_path_def)

lemmas split_path = Split_seg1 Split_seg2 Split_no_sep

text \<open>A request of the client and the handler that answers it.\<close>

lemma http_Get_server:
  assumes b: "plain_base cf c" and p: "safe_path path" and net: "sk_net cf = server_net sv pending ri"
  obtains i where "http_Get cf c st path = (fst (api_get sv i st path), Inr (snd (api_get sv i st path)))"
proof -
  obtain u where u: "request_of cf c ''GET'' path [] [] = Inr \<lparr>rq_Method = ''GET'', rq_URL = u, rq_Header = [], rq_Body = []\<rparr>"
    "url_Path u = path" using b p unfolding plain_base_def by blast
  let ?q = "\<lparr>rq_Method = ''GET'', rq_URL = u, rq_Header = [], rq_Body = []\<rparr>"
  have "http_Get cf c st path = (fst (api_get sv (ri ?q) st path), Inr (snd (api_get sv (ri ?q) st path)))"
    using b u by (simp add: http_Get_def http_Do_def plain_base_def net server_net_def api_serve_def split: prod.split)
  then show ?thesis using that by blast
qed

lemma get_json_server:
  assumes "plain_base cf c" and "safe_path path" and "sk_net cf = server_net sv pending ri"
    and "\<And>i. api_get sv i st path = (st', r)"
  shows "get_json cf c st path d = (st', decode_2xx d r)"
proof -
  obtain i where "http_Get cf c st path = (fst (api_get sv i st path), Inr (snd (api_get sv i st path)))"
    by (rule http_Get_server [OF assms(1-3)])
  then show ?thesis by (simp add: get_json_def assms(4))
qed

text \<open>The error a client sees when the handler reports \<open>e\<close>.\<close>

definition seen :: "sys_err \<Rightarrow> sys_err" where
  "seen e = status_err (if is_panic e then 500 else 400)"

definition seen_sum :: "sys_err + 'a \<Rightarrow> sys_err + 'a" where
  "seen_sum q = (case q of Inl e \<Rightarrow> Inl (seen e) | Inr x \<Rightarrow> Inr x)"

lemma decode_JSON [simp]: "decode_2xx d (JSON 200 b) = (case d b True of None \<Rightarrow> Inl json_err | Some x \<Rightarrow> Inr x)"
  by (simp add: decode_2xx_def is_2xx_def JSON_def)

lemma decode_Error [simp]: "decode_2xx d (ErrorResponse sv e) = Inl (seen e)"
  by (simp add: decode_2xx_def is_2xx_def ErrorResponse_def JSON_def InternalError_def seen_def)

lemma decode_404 [simp]: "decode_2xx d (JSON 404 b) = Inl (status_err 404)"
  by (simp add: decode_2xx_def is_2xx_def JSON_def)

lemma path2:
  assumes "seg a" "CHR ''/'' \<notin> set r" "\<forall>c \<in> set r. safe_char c"
  shows "Split CHR ''/'' (CHR ''/'' # r @ CHR ''/'' # a) = [[], r, a]" "safe_path (CHR ''/'' # r @ CHR ''/'' # a)"
  using assms by (auto simp: Split_append_sep Split_seg1 safe_path_def seg_def)

lemma path3:
  assumes "seg a" "seg b" "CHR ''/'' \<notin> set r" "\<forall>c \<in> set r. safe_char c"
  shows "Split CHR ''/'' (CHR ''/'' # r @ CHR ''/'' # a @ CHR ''/'' # b) = [[], r, a, b]"
    "safe_path (CHR ''/'' # r @ CHR ''/'' # a @ CHR ''/'' # b)"
  using assms by (auto simp: Split_append_sep Split_seg1 Split_seg2 safe_path_def seg_def)

lemma client_GetNonce:
  assumes "plain_base cf c" "sk_net cf = server_net sv pending ri" "codecs_fit (sv_enc sv) (sk_dec cf)" "seg pid"
    and "GetNonce (nc_redis (sv_node sv)) (ns_db st) pid = (db, q)"
  shows "Client_GetNonce cf c st pid = (st\<lparr>ns_db := db\<rparr>, seen_sum q)"
proof -
  have p: "Split CHR ''/'' (''/nonce/'' @ pid) = [[], ''nonce'', pid]" "safe_path (''/nonce/'' @ pid)"
    using path2 [OF assms(4), of "''nonce''"] by (simp_all add: safe_char_def)
  have "api_get sv i st (''/nonce/'' @ pid) = api_GetNonce sv st pid" for i
    unfolding api_get_def p(1) using assms(4) by (simp add: seg_def)
  then have "Client_GetNonce cf c st pid = (fst (api_GetNonce sv st pid), decode_2xx (ad_nonce (sk_dec cf)) (snd (api_GetNonce sv st pid)))"
    unfolding Client_GetNonce_def by (intro get_json_server [OF assms(1) p(2) assms(2)]) simp
  then show ?thesis
    using assms(5) codecs_fit_D [OF assms(3)]
    by (cases q) (auto simp: api_GetNonce_def db_reply_def seen_sum_def)
qed

text \<open>The handlers that do not touch the database.\<close>

lemma client_registry:
  assumes "plain_base cf c" "sk_net cf = server_net sv pending ri" "codecs_fit (sv_enc sv) (sk_dec cf)" "seg a"
  shows "Client_GetNode cf c st a = (st, Inr (Vmm_GetNode (ns_vmm st) a))"
    "Client_GetNodesByProcess cf c st a = (st, Inr (Vmm_GetNodesByProcess (ns_vmm st) a))"
    "Client_GetProcesses cf c st a = (st, Inr (Vmm_GetProcesses (ns_vmm st) a))"
    "Client_GetNodes cf c st = (st, Inr (Vmm_GetNodes (ns_vmm st)))"
    "Client_GetModules cf c st = (st, Inr (GetModuleNames (ns_vmm st)))"
proof -
  note D = codecs_fit_D [OF assms(3)] and J = get_json_server [OF assms(1) _ assms(2)]
  have p: "Split CHR ''/'' (''/node/'' @ a) = [[], ''node'', a]" "safe_path (''/node/'' @ a)"
    "Split CHR ''/'' (''/nodesByProcess/'' @ a) = [[], ''nodesByProcess'', a]" "safe_path (''/nodesByProcess/'' @ a)"
    "Split CHR ''/'' (''/processes/'' @ a) = [[], ''processes'', a]" "safe_path (''/processes/'' @ a)"
    "Split CHR ''/'' ''/nodes'' = [[], ''nodes'']" "safe_path ''/nodes''"
    "Split CHR ''/'' ''/modules'' = [[], ''modules'']" "safe_path ''/modules''"
    using path2 [OF assms(4), of "''node''"] path2 [OF assms(4), of "''nodesByProcess''"]
      path2 [OF assms(4), of "''processes''"]
    by (simp_all add: safe_char_def safe_path_def)
  have a: "a \<noteq> []" using assms(4) by (simp add: seg_def)
  have g: "api_get sv i st (''/node/'' @ a) = (st, api_GetNode sv st a)" for i
    unfolding api_get_def p(1) using a by simp
  show "Client_GetNode cf c st a = (st, Inr (Vmm_GetNode (ns_vmm st) a))"
    unfolding Client_GetNode_def by (subst J [OF p(2) g]) (simp add: api_GetNode_def D)
  have g: "api_get sv i st (''/nodesByProcess/'' @ a) = (st, api_GetNodesByProcess sv st a)" for i
    unfolding api_get_def p(3) using a by simp
  show "Client_GetNodesByProcess cf c st a = (st, Inr (Vmm_GetNodesByProcess (ns_vmm st) a))"
    unfolding Client_GetNodesByProcess_def by (subst J [OF p(4) g]) (simp add: api_GetNodesByProcess_def D)
  have g: "api_get sv i st (''/processes/'' @ a) = (st, api_GetProcesses sv st a)" for i
    unfolding api_get_def p(5) using a by simp
  show "Client_GetProcesses cf c st a = (st, Inr (Vmm_GetProcesses (ns_vmm st) a))"
    unfolding Client_GetProcesses_def by (subst J [OF p(6) g]) (simp add: api_GetProcesses_def D)
  have g: "api_get sv i st ''/nodes'' = (st, api_GetNodes sv st)" for i
    unfolding api_get_def p(7) by simp
  show "Client_GetNodes cf c st = (st, Inr (Vmm_GetNodes (ns_vmm st)))"
    unfolding Client_GetNodes_def by (subst J [OF p(8) g]) (simp add: api_GetNodes_def D)
  have g: "api_get sv i st ''/modules'' = (st, api_GetModules sv st)" for i
    unfolding api_get_def p(9) by simp
  show "Client_GetModules cf c st = (st, Inr (GetModuleNames (ns_vmm st)))"
    unfolding Client_GetModules_def by (subst J [OF p(10) g]) (simp add: api_GetModules_def D)
qed

definition seen_amount :: "(vm_err + int) option \<Rightarrow> sys_err + int" where
  "seen_amount q =
     (case q of None \<Rightarrow> Inl (OtherErr ''invalid server response: null'') | Some r \<Rightarrow>
        (case r of Inl e \<Rightarrow> Inl (seen (VmErr e)) | Inr a \<Rightarrow> Inr a))"

lemma amount_of_reply:
  "(if \<not> is_2xx (amount_reply sv q) then Inl (status_err (rp_Status (amount_reply sv q)))
    else if \<not> rp_EOF (amount_reply sv q) then Inl (OtherErr ''read'')
    else case big_SetString (rp_Body (amount_reply sv q)) of
      None \<Rightarrow> Inl (OtherErr (''invalid server response: '' @ rp_Body (amount_reply sv q))) | Some a \<Rightarrow> Inr a) = seen_amount q"
proof -
  have "big_SetString ''null'' = None" by code_simp
  then show ?thesis
    by (cases q; simp add: amount_reply_def is_2xx_def JSON_def ErrorResponse_def InternalError_def seen_amount_def seen_def
        split: sum.split)
qed

lemma client_amounts:
  assumes "plain_base cf c" "sk_net cf = server_net sv pending ri" "seg a"
  shows "Client_BalanceOf cf c st a = (st, seen_amount (Vmm_BalanceOf (nc_lib (sv_node sv)) (ns_vmm st) a))"
    "Client_StakeOf cf c st a = (st, seen_amount (Vmm_StakeOf (nc_lib (sv_node sv)) (ns_vmm st) a))"
proof -
  have a: "a \<noteq> []" using assms(3) by (simp add: seg_def)
  have p: "Split CHR ''/'' (''/balanceof/'' @ a) = [[], ''balanceof'', a]" "safe_path (''/balanceof/'' @ a)"
    "Split CHR ''/'' (''/stakeof/'' @ a) = [[], ''stakeof'', a]" "safe_path (''/stakeof/'' @ a)"
    using path2 [OF assms(3), of "''balanceof''"] path2 [OF assms(3), of "''stakeof''"] by (simp_all add: safe_char_def)
  have g: "api_get sv i st (''/balanceof/'' @ a) = (st, api_BalanceOf sv st a)"
    "api_get sv i st (''/stakeof/'' @ a) = (st, api_StakeOf sv st a)" for i
    unfolding api_get_def p(1,3) using a by simp_all
  obtain i1 i2 where "http_Get cf c st (''/balanceof/'' @ a) = (st, Inr (api_BalanceOf sv st a))"
    "http_Get cf c st (''/stakeof/'' @ a) = (st, Inr (api_StakeOf sv st a))"
    using http_Get_server [OF assms(1) p(2) assms(2)] http_Get_server [OF assms(1) p(4) assms(2)] g
    by (metis fst_conv snd_conv)
  then show "Client_BalanceOf cf c st a = (st, seen_amount (Vmm_BalanceOf (nc_lib (sv_node sv)) (ns_vmm st) a))"
    "Client_StakeOf cf c st a = (st, seen_amount (Vmm_StakeOf (nc_lib (sv_node sv)) (ns_vmm st) a))"
    unfolding Client_BalanceOf_def Client_StakeOf_def get_amount_def amount_of_reply [of sv, symmetric]
    by (simp_all add: api_BalanceOf_def api_StakeOf_def)
qed

lemma client_GetCache:
  assumes "plain_base cf c" "sk_net cf = server_net sv pending ri" "codecs_fit (sv_enc sv) (sk_dec cf)" "seg pid" "seg key"
    and "GetCache (nc_redis (sv_node sv)) (ns_db st) pid key = (db, q)"
  shows "Client_GetCache cf c st pid key = (st\<lparr>ns_db := db\<rparr>, seen_sum q)"
proof -
  have p: "Split CHR ''/'' (''/cache/'' @ pid @ ''/'' @ key) = [[], ''cache'', pid, key]"
    "safe_path (''/cache/'' @ pid @ ''/'' @ key)"
    using path3 [OF assms(4,5), of "''cache''"] by (simp_all add: safe_char_def)
  have "api_get sv i st (''/cache/'' @ pid @ ''/'' @ key) = api_GetCache sv st pid key" for i
    unfolding api_get_def p(1) using assms(4,5) by (simp add: seg_def)
  then have "Client_GetCache cf c st pid key =
      (fst (api_GetCache sv st pid key), decode_2xx (ad_text (sk_dec cf)) (snd (api_GetCache sv st pid key)))"
    unfolding Client_GetCache_def by (intro get_json_server [OF assms(1) p(2) assms(2)]) simp
  then show ?thesis
    using assms(6) codecs_fit_D [OF assms(3)] by (cases q) (auto simp: api_GetCache_def db_reply_def seen_sum_def)
qed

text \<open>C29: what a client reads is what the node holds. For a node whose own address is a plain host, the
  client's queries return, for every state of the node, the nonce and the cache values of its database
  and the nodes, processes, modules, balances and stakes of its machines; an error of the node is seen
  as status 400, or 500 when the handler panicked. An amount is not readable as long as the node has no
  token: the node answers \<open>null\<close>, which is no number.\<close>

theorem client_sees_node:
  assumes "plain_base cf c" and "sk_net cf = server_net sv pending ri" and "codecs_fit (sv_enc sv) (sk_dec cf)"
    and "seg a" and "seg key"
  shows "snd (Client_GetNonce cf c st a) = seen_sum (snd (GetNonce (nc_redis (sv_node sv)) (ns_db st) a)) \<and>
    snd (Client_GetCache cf c st a key) = seen_sum (snd (GetCache (nc_redis (sv_node sv)) (ns_db st) a key)) \<and>
    snd (Client_GetNode cf c st a) = Inr (Vmm_GetNode (ns_vmm st) a) \<and>
    snd (Client_GetNodes cf c st) = Inr (Vmm_GetNodes (ns_vmm st)) \<and>
    snd (Client_GetNodesByProcess cf c st a) = Inr (Vmm_GetNodesByProcess (ns_vmm st) a) \<and>
    snd (Client_GetProcesses cf c st a) = Inr (Vmm_GetProcesses (ns_vmm st) a) \<and>
    snd (Client_GetModules cf c st) = Inr (GetModuleNames (ns_vmm st)) \<and>
    snd (Client_BalanceOf cf c st a) = seen_amount (Vmm_BalanceOf (nc_lib (sv_node sv)) (ns_vmm st) a) \<and>
    snd (Client_StakeOf cf c st a) = seen_amount (Vmm_StakeOf (nc_lib (sv_node sv)) (ns_vmm st) a)"
  by (simp add: client_registry [OF assms(1-4)] client_amounts [OF assms(1,2,4)]
      client_GetNonce [OF assms(1-4) prod.collapse [symmetric]]
      client_GetCache [OF assms(1-5) prod.collapse [symmetric]])

subsection \<open>The history of a process\<close>

definition binaries_fit :: "('s, 'r, 'h, 'u, 'o, 'f) server_cfg \<Rightarrow> ('n, 'j) sdk_cfg \<Rightarrow> bool" where
  "binaries_fit sv cf \<longleftrightarrow>
     mime_ParseMediaType (sk_url cf) ''application/octet-stream'' = Some ''application/octet-stream'' \<and>
     (\<forall>i b. sv_GenerateItemBinary sv i = Inr b \<longrightarrow> sk_DecodeBundleItem cf b = BinItem i)"

lemma not_err: "\<not> is_err q \<Longrightarrow> \<exists>x. q = Inr x"
  by (cases q) auto

lemma getItemBinary_server:
  assumes "plain_base cf c" "safe_path path" "sk_net cf = server_net sv pending ri" "binaries_fit sv cf"
    and "\<And>i. api_get sv i st path = (st', writeItemBinary sv (Some x))"
    and "sv_GenerateItemBinary sv x = Inr b" "verify_bundle_item (sk_lib cf) x"
  shows "getItemBinary cf c st path leg = (st', Inr x)"
proof -
  obtain i where "http_Get cf c st path = (fst (api_get sv i st path), Inr (snd (api_get sv i st path)))"
    by (rule http_Get_server [OF assms(1-3)])
  then have "getBinary cf c st path = (st', Inr (Some b))"
    using assms(4,6) by (simp add: getBinary_def assms(5) writeItemBinary_def binaries_fit_def)
  moreover have "decodeItemBinary cf b = Inr x"
    using assms(4,6,7) by (simp add: decodeItemBinary_def binaries_fit_def)
  ultimately show ?thesis by (simp add: getItemBinary_def)
qed

lemma bin_nonce_nat: "j < 2 ^ 63 \<Longrightarrow> bin_nonce (FormatInt (of_nat j)) = Some (of_nat j)"
  by (simp add: bin_nonce_def word_sless_alt sint_small)

lemma by_nonce_server:
  assumes base: "plain_base cf c" "sk_net cf = server_net sv pending ri" "binaries_fit sv cf" and pid: "seg pid"
    and n: "bin_nonce (FormatInt n) = Some n"
  shows "GetMessageByNonce (nc_redis (sv_node sv)) (nc_codec (sv_node sv)) (ns_db st) pid n = (db, Inr (Some x)) \<Longrightarrow>
      sv_GenerateItemBinary sv x = Inr b \<Longrightarrow> verify_bundle_item (sk_lib cf) x \<Longrightarrow>
      GetMessageBinByNonce cf c st pid n = (st\<lparr>ns_db := db\<rparr>, Inr x)"
    "GetAssignByNonce (nc_redis (sv_node sv)) (nc_codec (sv_node sv)) (ns_db st) pid n = (db, Inr (Some x)) \<Longrightarrow>
      sv_GenerateItemBinary sv x = Inr b \<Longrightarrow> verify_bundle_item (sk_lib cf) x \<Longrightarrow>
      GetAssignBinByNonce cf c st pid n = (st\<lparr>ns_db := db\<rparr>, Inr x)"
proof -
  note B = getItemBinary_server [OF base(1) _ base(2,3)]
  have p: "Split CHR ''/'' (''/messageBinByNonce/'' @ pid @ ''/'' @ FormatInt n) = [[], ''messageBinByNonce'', pid, FormatInt n]"
    "safe_path (''/messageBinByNonce/'' @ pid @ ''/'' @ FormatInt n)"
    "Split CHR ''/'' (''/assignmentBinByNonce/'' @ pid @ ''/'' @ FormatInt n) = [[], ''assignmentBinByNonce'', pid, FormatInt n]"
    "safe_path (''/assignmentBinByNonce/'' @ pid @ ''/'' @ FormatInt n)"
    using path3 [OF pid seg_FormatInt [of n], of "''messageBinByNonce''"]
      path3 [OF pid seg_FormatInt [of n], of "''assignmentBinByNonce''"] by (simp_all add: safe_char_def)
  have ne: "pid \<noteq> []" "FormatInt n \<noteq> []" using pid seg_FormatInt [of n] by (auto simp: seg_def)
  have g: "api_get sv i st (''/messageBinByNonce/'' @ pid @ ''/'' @ FormatInt n) = api_GetMessageBinByNonce sv st pid (FormatInt n)"
    "api_get sv i st (''/assignmentBinByNonce/'' @ pid @ ''/'' @ FormatInt n) = api_GetAssignBinByNonce sv st pid (FormatInt n)" for i
    unfolding api_get_def p(1,3) using ne by simp_all
  show "GetMessageBinByNonce cf c st pid n = (st\<lparr>ns_db := db\<rparr>, Inr x)"
    if "GetMessageByNonce (nc_redis (sv_node sv)) (nc_codec (sv_node sv)) (ns_db st) pid n = (db, Inr (Some x))"
      "sv_GenerateItemBinary sv x = Inr b" "verify_bundle_item (sk_lib cf) x"
    unfolding GetMessageBinByNonce_def
    by (rule B [OF p(2) _ that(2,3)]) (unfold g(1), simp add: api_GetMessageBinByNonce_def n that(1) db_reply_def)
  show "GetAssignBinByNonce cf c st pid n = (st\<lparr>ns_db := db\<rparr>, Inr x)"
    if "GetAssignByNonce (nc_redis (sv_node sv)) (nc_codec (sv_node sv)) (ns_db st) pid n = (db, Inr (Some x))"
      "sv_GenerateItemBinary sv x = Inr b" "verify_bundle_item (sk_lib cf) x"
    unfolding GetAssignBinByNonce_def
    by (rule B [OF p(4) _ that(2,3)]) (unfold g(2), simp add: api_GetAssignBinByNonce_def n that(1) db_reply_def)
qed

lemma log_served:
  assumes "plain_base cf c" and "sk_net cf = server_net sv pending ri" and "binaries_fit sv cf" and "seg pid"
    and "redis_ok (nc_redis (sv_node sv)) view" and "redis_up (nc_redis (sv_node sv))" and "codec_ok (nc_codec (sv_node sv))"
    and "log_ok (nc_codec (sv_node sv)) (view (ns_db st)) es"
    and "j < length (items_of es pid)" and "j < 2 ^ 63"
    and "\<forall>e \<in> set es. \<forall>x \<in> {fst (snd e), snd (snd e)}. verify_bundle_item (sk_lib cf) x \<and> \<not> is_err (sv_GenerateItemBinary sv x)"
  shows "\<exists>db1 db2. GetMessageBinByNonce cf c st pid (of_nat j) = (st\<lparr>ns_db := db1\<rparr>, Inr (items_of es pid ! j)) \<and>
    GetAssignBinByNonce cf c st pid (of_nat j) = (st\<lparr>ns_db := db2\<rparr>, Inr (assigns_of es pid ! j)) \<and>
    view db1 = view (ns_db st) \<and> view db2 = view (ns_db st)"
proof -
  let ?rd = "nc_redis (sv_node sv)" and ?cd = "nc_codec (sv_node sv)"
  have len: "j < length (assigns_of es pid)" using assms(9) by (simp add: items_of_def assigns_of_def)
  have mem: "\<exists>e \<in> set es. items_of es pid ! j = fst (snd e)" "\<exists>e \<in> set es. assigns_of es pid ! j = snd (snd e)"
    using nth_mem [OF assms(9)] nth_mem [OF len] by (auto simp: items_of_def assigns_of_def)
  then have ver: "verify_bundle_item (sk_lib cf) (items_of es pid ! j)" "verify_bundle_item (sk_lib cf) (assigns_of es pid ! j)"
    using assms(11) by auto
  obtain b1 b2 where b: "sv_GenerateItemBinary sv (items_of es pid ! j) = Inr b1"
    "sv_GenerateItemBinary sv (assigns_of es pid ! j) = Inr b2"
    using mem assms(11) not_err by (metis insertCI)
  have lists: "ks_list (view (ns_db st)) (RdbProcessMsgsPrefix @ pid) = map (enc_item ?cd) (items_of es pid)"
    "ks_list (view (ns_db st)) (RdbProcessAssignmentPrefix @ pid) = map (enc_item ?cd) (assigns_of es pid)"
    using assms(8) by (simp_all add: log_ok_def)
  have read: "\<exists>db. list_item ?rd ?cd (ns_db st) k (of_nat j) = (db, Inr (Some (xs ! j))) \<and> view db = view (ns_db st)"
    if "ks_list (view (ns_db st)) k = map (enc_item ?cd) xs" "j < length xs" for k xs
    using list_item_log [OF assms(5-7) that(1) assms(10)] that(2)
    by (intro exI [of _ "fst (list_item ?rd ?cd (ns_db st) k (of_nat j))"]) (simp add: prod_eq_iff)
  obtain db1 where m: "GetMessageByNonce ?rd ?cd (ns_db st) pid (of_nat j) = (db1, Inr (Some (items_of es pid ! j)))"
    "view db1 = view (ns_db st)"
    using read [OF lists(1) assms(9)] unfolding GetMessageByNonce_def by blast
  obtain db2 where a: "GetAssignByNonce ?rd ?cd (ns_db st) pid (of_nat j) = (db2, Inr (Some (assigns_of es pid ! j)))"
    "view db2 = view (ns_db st)"
    using read [OF lists(2) len] unfolding GetAssignByNonce_def by blast
  show ?thesis
    using by_nonce_server(1) [OF assms(1-4) bin_nonce_nat [OF assms(10)] m(1) b(1) ver(1)]
      by_nonce_server(2) [OF assms(1-4) bin_nonce_nat [OF assms(10)] a(1) b(2) ver(2)] m(2) a(2) by blast
qed

text \<open>C30: a node serves the history it recorded. When the database of a node holds the log \<open>es\<close> of what it
  accepted, a client that asks for the entries of a process by nonce receives exactly the signed
  messages and assignments of this log, in order, and the database is the same afterwards. (The items
  are signed and can be encoded; the nonces fit into the range of an integer.)\<close>

theorem history_served:
  assumes "plain_base cf c" and "sk_net cf = server_net sv pending ri" and "binaries_fit sv cf" and "seg pid"
    and "redis_ok (nc_redis (sv_node sv)) view" and "redis_up (nc_redis (sv_node sv))" and "codec_ok (nc_codec (sv_node sv))"
    and "log_ok (nc_codec (sv_node sv)) (view (ns_db st)) es"
    and "j < length (items_of es pid)" and "j < 2 ^ 63"
    and "\<forall>e \<in> set es. \<forall>x \<in> {fst (snd e), snd (snd e)}. verify_bundle_item (sk_lib cf) x \<and> \<not> is_err (sv_GenerateItemBinary sv x)"
  shows "\<exists>db1 db2. GetMessageBinByNonce cf c st pid (of_nat j) = (st\<lparr>ns_db := db1\<rparr>, Inr (items_of es pid ! j)) \<and>
    GetAssignBinByNonce cf c st pid (of_nat j) = (st\<lparr>ns_db := db2\<rparr>, Inr (assigns_of es pid ! j)) \<and>
    view db1 = view (ns_db st) \<and> view db2 = view (ns_db st)"
  by (rule log_served [OF assms])

subsection \<open>Redirects\<close>

lemma Client_Send_server:
  assumes "plain_base cf c" "sk_net cf = server_net sv pending ri"
    and "\<And>i. api_Submit sv pending i st body = (st', r)" and "rp_Status r = 308" "rp_EOF r"
  obtains q where "Client_Send cf c st body =
     (case ad_nodes (sk_dec cf) (rp_Body r) True of
        None \<Rightarrow> (st', Inl (OtherErr ''failed to parse redirect response''))
      | Some nodes \<Rightarrow>
          (case redirect_loop cf c st' q body nodes of
             (n', Some (r', u)) \<Rightarrow> (n', case decode_2xx (ad_response (sk_dec cf)) r' of Inl e \<Rightarrow> Inl e | Inr res \<Rightarrow> Inr (res, u))
           | (n', None) \<Rightarrow> (n', Inl (status_err 308))))"
proof -
  have "safe_path ''/''" by (simp add: safe_path_def)
  then obtain u where u: "request_of cf c ''POST'' ''/'' json_header body =
      Inr \<lparr>rq_Method = ''POST'', rq_URL = u, rq_Header = json_header, rq_Body = body\<rparr>" "url_Path u = ''/''"
    using assms(1) unfolding plain_base_def by blast
  let ?q = "\<lparr>rq_Method = ''POST'', rq_URL = u, rq_Header = json_header, rq_Body = body\<rparr>"
  have do: "http_Do cf c st ?q = (st', Inr r)"
    using assms(1) u(2) by (simp add: http_Do_def plain_base_def assms(2) server_net_def api_serve_def assms(3))
  show ?thesis
    by (rule that [of ?q])
       (use assms(4,5) u(1) do in
         \<open>auto simp: Client_Send_def handleRedirect_def decode_2xx_def is_2xx_def split: option.split prod.split\<close>)
qed

text \<open>a node that refuses an item because another node serves its process never brings the item
  there. For a message the server asks for the nodes of the item's own id instead of the target's; no
  process has this id, so the redirect names no node and the client gives up with status 308. For a
  spawn the server sends the scheduler's node as an object while the client reads a list, and the client
  gives up although the node is known. In both cases the item is handled by the first node only.\<close>

theorem redirects_of_sends_fail:
  assumes "plain_base cf c" and "sk_net cf = server_net sv pending ri" and "codecs_fit (sv_enc sv) (sk_dec cf)"
    and "sv_DecodeBundleItem sv body = BinItem item"
    and "Node_Handle (node_cfg.truncate (sv_node sv)) pending (node_state.truncate st) item = (nd, Some e)"
  shows "(e = ErrMessageRedirect \<longrightarrow> Vmm_GetNodesByProcess (ns_vmm nd) (item_Id item) = [] \<longrightarrow>
      Client_Send cf c st body = (put_node st nd, Inl (status_err 308))) \<and>
    (e = ErrSpawnRedirect \<longrightarrow> DecodeItemToProcess item = Inr p \<longrightarrow> Vmm_GetNode (ns_vmm nd) (proc_Scheduler p) = Some x \<longrightarrow>
      Client_Send cf c st body = (put_node st nd, Inl (OtherErr ''failed to parse redirect response'')))"
proof (intro conjI impI)
  note D = codecs_fit_D [OF assms(3)]
  have sub: "api_Submit sv pending i st body =
      (put_node st nd, case handleSubmitErr sv nd i e item of Some r \<Rightarrow> r | None \<Rightarrow> ErrorResponse sv e)" for i
    using assms(4,5) by (simp add: api_Submit_def)
  show "Client_Send cf c st body = (put_node st nd, Inl (status_err 308))"
    if e: "e = ErrMessageRedirect" and none: "Vmm_GetNodesByProcess (ns_vmm nd) (item_Id item) = []"
  proof -
    have "api_Submit sv pending i st body = (put_node st nd, (JSON 308 (ae_nodes (sv_enc sv) []))\<lparr>rp_Location := []\<rparr>)" for i
      unfolding sub by (simp add: handleSubmitErr_def e none IsRedirect_def Let_def)
    then show ?thesis by (rule Client_Send_server [OF assms(1,2)]) (simp_all add: JSON_def D)
  qed
  show "Client_Send cf c st body = (put_node st nd, Inl (OtherErr ''failed to parse redirect response''))"
    if e: "e = ErrSpawnRedirect" and p: "DecodeItemToProcess item = Inr p"
      and x: "Vmm_GetNode (ns_vmm nd) (proc_Scheduler p) = Some x"
  proof -
    have "api_Submit sv pending i st body = (put_node st nd, (JSON 308 (ae_node (sv_enc sv) (Some x)))\<lparr>rp_Location := node_URL x\<rparr>)" for i
      unfolding sub by (simp add: handleSubmitErr_def e p x Let_def)
    then show ?thesis by (rule Client_Send_server [OF assms(1,2)]) (simp_all add: JSON_def D)
  qed
qed

subsection \<open>Reads\<close>

definition reads_only :: "'r redis \<Rightarrow> ('r \<Rightarrow> keyspace) \<Rightarrow> bool" where
  "reads_only rd view \<longleftrightarrow> (\<forall>s k. view (fst (rd_get rd s k)) = view s) \<and> (\<forall>s k i. view (fst (rd_lindex rd s k i)) = view s) \<and>
     (\<forall>s k a b. view (fst (rd_lrange rd s k a b)) = view s) \<and> (\<forall>s k f. view (fst (rd_hget rd s k f)) = view s)"

lemma reads_only_D:
  assumes "reads_only rd view"
  shows "rd_get rd s k = (s', r1) \<Longrightarrow> view s' = view s" "rd_lindex rd s k i = (s', r1) \<Longrightarrow> view s' = view s"
    "rd_lrange rd s k a b = (s', r2) \<Longrightarrow> view s' = view s" "rd_hget rd s k f = (s', r1) \<Longrightarrow> view s' = view s"
  using assms unfolding reads_only_def by (metis fst_conv)+

lemma view_reads:
  assumes "reads_only rd view"
  shows "view (fst (GetNonce rd s p)) = view s" "view (fst (GetMessageByNonce rd cd s p n)) = view s"
    "view (fst (GetAssignByNonce rd cd s p n)) = view s" "view (fst (GetMessage rd cd s i)) = view s"
    "view (fst (GetResult rd cd s i)) = view s" "view (fst (GetCache rd s p k)) = view s"
proof -
  note D = reads_only_D [OF assms]
  have li: "view (fst (list_item rd cd s k n)) = view s" for s k n
    by (auto simp: list_item_def dest: D split: prod.splits reply.splits)
  have ie: "IsExist rd s p = (s', b) \<Longrightarrow> view s' = view s" for s' b
    by (auto simp: IsExist_def dest: D split: prod.splits reply.splits)
  show "view (fst (GetNonce rd s p)) = view s"
    by (auto simp: GetNonce_def dest!: D ie split: prod.splits sum.splits reply.splits)
  show "view (fst (GetMessageByNonce rd cd s p n)) = view s" "view (fst (GetAssignByNonce rd cd s p n)) = view s"
    by (simp_all add: GetMessageByNonce_def GetAssignByNonce_def li)
  show "view (fst (GetMessage rd cd s i)) = view s"
    by (auto simp: GetMessage_def GetMessageByNonce_def li dest: D split: prod.splits reply.splits list.splits option.splits)
  show "view (fst (GetResult rd cd s i)) = view s"
    by (auto simp: GetResult_def dest: D split: prod.splits reply.splits)
  show "view (fst (GetCache rd s p k)) = view s"
    by (auto simp: GetCache_def get_text_def dest: D split: prod.splits reply.splits)
qed

definition quiet ::
  "('r \<Rightarrow> keyspace) \<Rightarrow> ('s, 'r, 'h, 'u, 'o, 'f) rec_state \<Rightarrow> ('s, 'r, 'h, 'u, 'o, 'f) rec_state \<Rightarrow> bool" where
  "quiet view st st' \<longleftrightarrow>
     st' = st\<lparr>ns_db := ns_db st', ns_Token := ns_Token st', ns_Registry := ns_Registry st'\<rparr> \<and>
     view (ns_db st') = view (ns_db st)"

lemma quiet_refl [simp]: "quiet view st st"
  by (simp add: quiet_def)

lemma quiet_pair: "quiet view st (fst (st, r))"
  by simp

lemma quiet_if: "quiet view st (fst a) \<Longrightarrow> quiet view st (fst b) \<Longrightarrow> quiet view st (fst (if c then a else b))"
  by simp

lemma quiet_db_reply: "view (fst q) = view (ns_db st) \<Longrightarrow> quiet view st (fst (db_reply sv st q f))"
  by (cases q; cases "snd q") (auto simp: db_reply_def quiet_def)

lemma view_results_loop:
  assumes "reads_only rd view"
  shows "view (fst (results_loop rd cd s acc ids)) = view s"
  using assms
proof (induction rd cd s acc ids rule: results_loop.induct)
  case (2 rd cd s acc msgid ids)
  obtain s' r where g: "GetResult rd cd s msgid = (s', r)" by fastforce
  have "view s' = view s" using view_reads(5) [OF "2.prems", of cd s msgid] g by simp
  then show ?case using 2 g by (auto split: sum.split option.split)
qed simp

lemma quiet_handlers:
  fixes view :: "'r \<Rightarrow> keyspace" and sv :: "('s, 'r, 'h, 'u, 'o, 'f) server_cfg"
  assumes ro: "reads_only (nc_redis (sv_node sv)) view"
  shows "quiet view st (fst (api_Info sv st))" "quiet view st (fst (api_GetResult sv st a b))"
    "quiet view st (fst (api_GetResults sv st a b))" "quiet view st (fst (api_GetMessage sv st a))"
    "quiet view st (fst (api_GetAssignByMsg sv st a))" "quiet view st (fst (api_GetMessageByNonce sv st a b))"
    "quiet view st (fst (api_GetAssignByNonce sv st a b))" "quiet view st (fst (api_GetMessageBin sv st a))"
    "quiet view st (fst (api_GetAssignBinByMsg sv st a))" "quiet view st (fst (api_GetMessageBinByNonce sv st a b))"
    "quiet view st (fst (api_GetAssignBinByNonce sv st a b))" "quiet view st (fst (api_GetCache sv st a b))"
    "quiet view st (fst (api_GetNonce sv st a))"
proof -
  note V = view_reads [OF ro] and Q = quiet_db_reply
  show "quiet view st (fst (api_Info sv st))"
    by (simp add: api_Info_def quiet_def Node_Info_def put_node_def node_state.defs Let_def)
  show "quiet view st (fst (api_GetMessage sv st a))" "quiet view st (fst (api_GetMessageBin sv st a))"
    "quiet view st (fst (api_GetCache sv st a b))" "quiet view st (fst (api_GetNonce sv st a))"
    by (simp_all add: api_GetMessage_def api_GetMessageBin_def api_GetCache_def api_GetNonce_def Q V)
  show "quiet view st (fst (api_GetResult sv st a b))"
    by (simp add: api_GetResult_def Let_def Q V node_cfg.defs)
  show "quiet view st (fst (api_GetMessageByNonce sv st a b))" "quiet view st (fst (api_GetAssignByNonce sv st a b))"
    "quiet view st (fst (api_GetMessageBinByNonce sv st a b))" "quiet view st (fst (api_GetAssignBinByNonce sv st a b))"
    by (simp_all add: api_GetMessageByNonce_def api_GetAssignByNonce_def api_GetMessageBinByNonce_def
        api_GetAssignBinByNonce_def Q V split: option.split)
  have "view (fst (Node_GetAssignByMessage (node_cfg.truncate (sv_node sv)) (ns_db st) a)) = view (ns_db st)"
    using V(5) [of "nc_codec (sv_node sv)" "ns_db st" a] V(3)
    by (auto simp: Node_GetAssignByMessage_def node_cfg.defs split: prod.splits sum.splits option.splits)
  then show "quiet view st (fst (api_GetAssignByMsg sv st a))" "quiet view st (fst (api_GetAssignBinByMsg sv st a))"
    by (simp_all add: api_GetAssignByMsg_def api_GetAssignBinByMsg_def Q)
  have "view (fst (GetResults (nc_redis (sv_node sv)) (nc_codec (sv_node sv)) (ns_db st) a n)) = view (ns_db st)" for n
    using view_results_loop [OF ro] reads_only_D(3) [OF ro]
    by (auto simp: GetResults_def split: prod.split reply.split)
  then show "quiet view st (fst (api_GetResults sv st a b))"
    by (auto simp: api_GetResults_def Let_def node_cfg.defs quiet_def split: prod.split sum.split) (metis fst_conv)+
qed

text \<open>a query changes nothing. Whatever path a GET request has, the machines, the queues, the handlers
  and the files of the node are the same afterwards, and so are the contents of its database; only the
  ids of the core processes it announces may be refreshed from the machines. No sending is started.\<close>

theorem queries_change_nothing:
  fixes view :: "'r \<Rightarrow> keyspace" and sv :: "('s, 'r, 'h, 'u, 'o, 'f) server_cfg"
  assumes "reads_only (nc_redis (sv_node sv)) view" and "rq_Method q = ''GET''"
  shows "\<exists>st' r. api_serve sv pending ri st q = (st', r, None) \<and> quiet view st st'"
proof -
  note Q = quiet_if quiet_pair quiet_handlers [OF assms(1)]
  have "quiet view st (fst (api_get sv ri st path))" for path
    unfolding api_get_def by (split list.split, intro conjI allI impI Q)+
  then show ?thesis
    using assms(2) by (auto simp: api_serve_def Let_def split: prod.split) (metis fst_conv)
qed

end
