(* ===== verification/WebDemo.thy ===== *)
theory WebDemo
  imports WebProps RecoveryDemo
begin

text \<open>
  JSON texts, a server and a client that meet the hypotheses of the properties of the HTTP interface,
  and those properties at concrete states: the node \<open>0xa\<close> runs the token \<open>p\<close>; the process \<open>q\<close> is served
  by the node \<open>0xb\<close>.
\<close>

subsection \<open>Texts\<close>

definition strs_text :: "string list \<Rightarrow> string" where
  "strs_text xs = concat (map enc_str xs)"

definition text_strs :: "string \<Rightarrow> string list option" where
  "text_strs s = dec_strs (length s) s"

lemma text_strs_text [simp]: "text_strs (strs_text xs) = Some xs"
  unfolding text_strs_def strs_text_def by (rule dec_strs_enc [OF length_concat_enc])

definition node_strs :: "node \<Rightarrow> string list" where
  "node_strs nd = [node_AccId nd, node_Name nd, node_Role nd, node_Desc nd, node_URL nd]"

fun strs_nodes :: "string list \<Rightarrow> node list option" where
  "strs_nodes (a # b # c # d # e # r) =
     map_option ((#) \<lparr>node_AccId = a, node_Name = b, node_Role = c, node_Desc = d, node_URL = e\<rparr>) (strs_nodes r)"
| "strs_nodes [] = Some []"
| "strs_nodes _ = None"

lemma strs_nodes_inv [simp]: "strs_nodes (concat (map node_strs nds)) = Some nds"
  by (induction nds) (simp_all add: node_strs_def)

fun strs_node_map :: "string list \<Rightarrow> (string, node) gomap option" where
  "strs_node_map (k # a # b # c # d # e # r) =
     map_option ((#) (k, \<lparr>node_AccId = a, node_Name = b, node_Role = c, node_Desc = d, node_URL = e\<rparr>)) (strs_node_map r)"
| "strs_node_map [] = Some []"
| "strs_node_map _ = None"

lemma strs_node_map_inv [simp]: "strs_node_map (concat (map (\<lambda>(k, nd). k # node_strs nd) m)) = Some m"
  by (induction m) (auto simp: node_strs_def)

definition module_strs :: "module \<Rightarrow> string list" where
  "module_strs m = [base_DataProtocol (mod_Base m), base_Variant (mod_Base m), base_Type (mod_Base m), mod_ModuleFormat m,
     mod_MemoryLimit m, mod_ComputeLimit m, mod_InputEncoding m, mod_OutputEncoding m] @ tag_strs (mod_Tags m)"

fun strs_module :: "string list \<Rightarrow> module option" where
  "strs_module (a # b # c # d # e # f # g # h # r) = Some \<lparr>mod_Base = \<lparr>base_DataProtocol = a, base_Variant = b, base_Type = c\<rparr>,
     mod_ModuleFormat = d, mod_MemoryLimit = e, mod_ComputeLimit = f, mod_InputEncoding = g, mod_OutputEncoding = h,
     mod_Tags = strs_tags r\<rparr>"
| "strs_module _ = None"

lemma strs_tags_inv [simp]: "strs_tags (tag_strs ts) = ts"
  by (induction ts) auto

definition web_enc :: api_enc where
  "web_enc =
     \<lparr>ae_error = (\<lambda>_. ''error''), ae_response = (\<lambda>r. strs_text [resp_Id r, resp_Message r]), ae_info = (\<lambda>_. []),
      ae_result = (\<lambda>_. []), ae_results = (\<lambda>_. []), ae_cursor = (\<lambda>_. []),
      ae_item = (\<lambda>i. case i of None \<Rightarrow> ''null'' | Some x \<Rightarrow> enc_item demo_codec x), ae_nonce = FormatInt,
      ae_module = (\<lambda>m. strs_text (module_strs m)), ae_strings = strs_text,
      ae_node_map = (\<lambda>m. strs_text (concat (map (\<lambda>(k, nd). k # node_strs nd) m))),
      ae_node = (\<lambda>n. case n of None \<Rightarrow> ''null'' | Some nd \<Rightarrow> strs_text (''object'' # node_strs nd)),
      ae_nodes = (\<lambda>nds. strs_text (''array'' # concat (map node_strs nds))), ae_text = (\<lambda>s. s),
      ae_x402 = (\<lambda>_. []), ae_pay_config = (\<lambda>_. []), ae_amounts = (\<lambda>_. []),
      ae_dec_trysend = (\<lambda>_. None), ae_dec_vm = (\<lambda>_. None)\<rparr>"

definition web_dec :: "string api_dec" where
  "web_dec =
     \<lparr>ad_response = (\<lambda>b e. case text_strs b of Some [i, m] \<Rightarrow> Some \<lparr>resp_Id = i, resp_Message = m\<rparr> | _ \<Rightarrow> None),
      ad_info = (\<lambda>b e. None), ad_result = (\<lambda>b e. None), ad_results = (\<lambda>b e. None), ad_item = (\<lambda>b e. Some b),
      ad_nonce = (\<lambda>b e. ParseInt b),
      ad_module = (\<lambda>b e. case text_strs b of Some xs \<Rightarrow> strs_module xs | None \<Rightarrow> None),
      ad_strings = (\<lambda>b e. text_strs b),
      ad_node_map = (\<lambda>b e. case text_strs b of Some xs \<Rightarrow> strs_node_map xs | None \<Rightarrow> None),
      ad_node = (\<lambda>b e. if b = ''null'' then Some None
         else case text_strs b of Some (k # xs) \<Rightarrow> if k = ''object''
           then (case strs_nodes xs of Some [nd] \<Rightarrow> Some (Some nd) | _ \<Rightarrow> None) else None | _ \<Rightarrow> None),
      ad_nodes = (\<lambda>b e. case text_strs b of Some (k # xs) \<Rightarrow> if k = ''array'' then strs_nodes xs else None | _ \<Rightarrow> None),
      ad_text = (\<lambda>b e. Some b), ad_trysend = (\<lambda>_. [])\<rparr>"

lemma web_codecs_fit: "codecs_fit web_enc web_dec"
proof -
  have "strs_text (''object'' # node_strs nd) \<noteq> ''null''" for nd
    by (simp add: strs_text_def enc_str_def)
  moreover have "strs_nodes (node_strs nd) = Some [nd]" for nd
    using strs_nodes_inv [of "[nd]"] by simp
  ultimately show ?thesis
    by (auto simp: codecs_fit_def web_enc_def web_dec_def module_strs_def split: option.split)
qed

subsection \<open>A node and a client\<close>

definition node_b :: node where
  "node_b = \<lparr>node_AccId = ''0xb'', node_Name = ''b'', node_Role = RoleMain, node_Desc = [], node_URL = ''http://b''\<rparr>"

definition web_registry :: registry where
  "web_registry = fst (Registry_RegisterProcess (NewRegistry ''r'' ''p'' node_b) ''0xb'' ''q'')"

definition web_vmm :: "nat vmm" where
  "web_vmm = tok_vmm\<lparr>v_objs := [ObjToken (genesis_token tok_env), ObjRegistry web_registry], v_registry := Some 1\<rparr>"

definition web_state :: "(nat, keyspace \<times> nat list, unit, unit, unit, string \<Rightarrow> string option) rec_state" where
  "web_state = tok_state web_vmm (log_keys tok_log) tok_files"

definition web_server :: "(nat, keyspace \<times> nat list, unit, unit, unit, string \<Rightarrow> string option) server_cfg" where
  "web_server =
     \<lparr>sv_node = tok_cfg, sv_pay = None,
      sv_info = \<lparr>inf_Protocol = [], inf_Variant = [], inf_NodeVersion = [], inf_JoinNetwork = True, inf_Token = [],
        inf_Registry = [], inf_Node = node_b, inf_VmCount = 0, inf_EncryptionPublicKey = []\<rparr>,
      sv_enc = web_enc, sv_GenerateItemBinary = (\<lambda>i. Inr (enc_item demo_codec i)),
      sv_DecodeBundleItem = (\<lambda>b. case dec_item demo_codec b of None \<Rightarrow> BinErr ''item'' | Some i \<Rightarrow> BinItem i),
      sv_Base64Encode = (\<lambda>s. s), sv_http_get = (\<lambda>_. None)\<rparr>"

definition web_info :: "http_req \<Rightarrow> request_info" where
  "web_info q = \<lparr>ri_limit = [], ri_url = [], ri_tls = False, ri_proto = [], ri_Host = [], ri_URL = []\<rparr>"

definition web_cfg :: "((nat, keyspace \<times> nat list, unit, unit, unit, string \<Rightarrow> string option) rec_state, string) sdk_cfg" where
  "web_cfg =
     \<lparr>sk_lib = demo_lib, sk_ecc = demo_ecc, sk_url = demo_url, sk_net = server_net web_server 0 web_info,
      sk_dec = web_dec, sk_GenerateItemBinary = Inr,
      sk_DecodeBundleItem = (\<lambda>b. case dec_item demo_codec b of None \<Rightarrow> BinErr ''item'' | Some i \<Rightarrow> BinItem i)\<rparr>"

lemma web_base: "plain_base web_cfg (NewClient [])"
  by (auto simp: plain_base_def NewClient_def request_of_def buildURL_def NewRequest_def web_cfg_def demo_url_def safe_path_def)

lemma web_net: "sk_net web_cfg = server_net web_server 0 web_info"
  by (simp add: web_cfg_def)

lemma web_fit: "codecs_fit (sv_enc web_server) (sk_dec web_cfg)"
  using web_codecs_fit by (simp add: web_server_def web_cfg_def)

lemma web_seg: "seg ''0xb''" "seg ''p''" "seg ''k''"
  by (simp_all add: seg_def safe_char_def)

lemma web_queries:
  "Vmm_GetNodesByProcess web_vmm ''q'' = [node_b]" "Vmm_GetNode web_vmm ''0xb'' = Some node_b"
  "Vmm_BalanceOf demo_lib web_vmm ''0xb'' = Some (Inr 20000000000000000000)"
  by (simp_all add: Vmm_GetNodesByProcess_def registry_obj_def web_vmm_def web_registry_def Registry_RegisterProcess_def
      NewRegistry_def node_b_def Registry_GetNodesByProcess_def Vmm_GetNode_def Registry_GetNode_def Vmm_BalanceOf_def
      token_obj_def tok_vmm_def Token_BalanceOf_def IDCheck_def demo_lib_def HasPrefix_def db_BalanceOf_def
      genesis_token_def NewTokenDb_def tok_env_def)

theorem client_sees_node_witness:
  "snd (Client_GetNode web_cfg (NewClient []) web_state ''0xb'') = Inr (Some node_b) \<and>
   snd (Client_BalanceOf web_cfg (NewClient []) web_state ''0xb'') = Inr 20000000000000000000 \<and>
   snd (Client_BalanceOf web_cfg (NewClient []) (web_state\<lparr>ns_vmm := Vmm_New [] True\<rparr>) ''0xb'') =
     Inl (OtherErr ''invalid server response: null'')"
proof -
  have v: "ns_vmm web_state = web_vmm" "nc_lib (sv_node web_server) = demo_lib"
    by (simp_all add: web_state_def tok_state_def web_server_def tok_cfg_def)
  have none: "Vmm_BalanceOf demo_lib (Vmm_New [] True :: nat vmm) ''0xb'' = None"
    by (simp add: Vmm_BalanceOf_def token_obj_def Vmm_New_def)
  show ?thesis
    using client_sees_node [OF web_base web_net web_fit web_seg(1,3), of web_state]
      client_sees_node [OF web_base web_net web_fit web_seg(1,3), of "web_state\<lparr>ns_vmm := Vmm_New [] True\<rparr>"]
    by (simp add: v web_queries none seen_amount_def)
qed

theorem history_served_witness:
  "snd (GetMessageBinByNonce web_cfg (NewClient []) web_state ''p'' 1) = Inr info_item \<and>
   snd (GetAssignBinByNonce web_cfg (NewClient []) web_state ''p'' 1) = Inr info_assign"
proof -
  have bin: "binaries_fit web_server web_cfg"
    using demo_codec_ok by (auto simp: binaries_fit_def web_server_def web_cfg_def demo_url_def codec_ok_def)
  have r: "redis_ok (nc_redis (sv_node web_server)) fst" "redis_up (nc_redis (sv_node web_server))"
    "codec_ok (nc_codec (sv_node web_server))"
    using tok_params demo_codec_ok by (simp_all add: web_server_def tok_cfg_def)
  have log: "log_ok (nc_codec (sv_node web_server)) (fst (ns_db web_state)) tok_log"
    using tok_logs(2) by (simp add: web_server_def web_state_def tok_cfg_def tok_state_def)
  have j: "1 < length (items_of tok_log ''p'')" "(1 :: nat) < 2 ^ 63" by (simp_all add: tok_lists)
  have all: "\<forall>e \<in> set tok_log. \<forall>x \<in> {fst (snd e), snd (snd e)}.
      verify_bundle_item (sk_lib web_cfg) x \<and> \<not> is_err (sv_GenerateItemBinary web_server x)"
    by (simp add: web_cfg_def demo_lib_def web_server_def)
  from history_served [OF web_base web_net bin web_seg(2) r log j all]
  show ?thesis by (auto simp: tok_lists simp del: One_nat_def)
qed

theorem redirects_of_sends_fail_witness:
  "\<exists>item body. sv_DecodeBundleItem web_server body = BinItem item \<and> item_Target item = ''q'' \<and> Vmm_GetNodesByProcess (ns_vmm web_state) ''q'' = [node_b] \<and>
     snd (Client_Send web_cfg (NewClient []) web_state body) = Inl (status_err 308)"
proof -
  let ?item = "(log_item ''m9'' [Tag ''Type'' ''Message''])\<lparr>item_Target := ''q''\<rparr>"
  let ?body = "enc_item demo_codec ?item"
  have dec: "sv_DecodeBundleItem web_server ?body = BinItem ?item"
    using demo_codec_ok by (simp add: web_server_def codec_ok_def)
  obtain m where m: "Decode demo_lib ?item = Inr (''q'', ''w'', [], IMessage m)"
    by (simp add: Decode_def item_signer_def demo_lib_def log_item_def GetType_def type_defs
        DecodeItemToMessage_def TagsToMessage_def CheckDuplicateTag_def zero_msg_def reserved_defs TagsToBase_def)
  have vm: "ns_vmm web_state = web_vmm" by (simp add: web_state_def tok_state_def)
  have h: "Node_Handle (node_cfg.truncate (sv_node web_server)) 0 (node_state.truncate web_state) ?item =
      (node_state.truncate web_state, Some ErrMessageRedirect)"
    using m web_queries(1)
    by (simp add: Node_Handle_def web_server_def tok_cfg_def node_cfg.defs node_state.defs demo_lib_def verifyFromProcess_def
        handleMessage_def IsRedirect_def vm IsRecovering_def web_vmm_def tok_vmm_def Vmm_New_def node_b_def web_state_def
        tok_state_def)
  have "Vmm_GetNodesByProcess (ns_vmm (node_state.truncate web_state)) (item_Id ?item) = []"
    by (simp add: node_state.defs vm Vmm_GetNodesByProcess_def registry_obj_def web_vmm_def web_registry_def
        Registry_RegisterProcess_def NewRegistry_def node_b_def Registry_GetNodesByProcess_def log_item_def)
  with redirects_of_sends_fail [OF web_base web_net web_fit dec h]
  have "snd (Client_Send web_cfg (NewClient []) web_state ?body) = Inl (status_err 308)" by simp
  then show ?thesis using web_queries(1) dec by (intro exI [of _ ?item] exI [of _ ?body]) (simp add: vm)
qed

theorem queries_change_nothing_witness:
  "\<exists>st' r. api_serve web_server 0 (web_info undefined) web_state
       \<lparr>rq_Method = ''GET'', rq_URL = \<lparr>url_Base = [], url_Path = ''/nonce/p'', url_RawQuery = []\<rparr>, rq_Header = [], rq_Body = []\<rparr> =
     (st', r, None) \<and> rp_Status r = 200 \<and> quiet fst web_state st'"
proof -
  have "reads_only demo_up fst"
    by (simp add: reads_only_def demo_up_def demo_redis_def)
  then have ro: "reads_only (nc_redis (sv_node web_server)) fst" by (simp add: web_server_def tok_cfg_def)
  let ?q = "\<lparr>rq_Method = ''GET'', rq_URL = \<lparr>url_Base = [], url_Path = ''/nonce/p'', url_RawQuery = []\<rparr>, rq_Header = [], rq_Body = []\<rparr>"
  obtain st' r where r: "api_serve web_server 0 (web_info undefined) web_state ?q = (st', r, None)" "quiet fst web_state st'"
    using queries_change_nothing [OF ro, of ?q 0 "web_info undefined" web_state] by auto
  have p: "Split CHR ''/'' ''/nonce/p'' = [[], ''nonce'', ''p'']" by simp
  have "snd (GetNonce demo_up (log_keys tok_log, []) ''p'') = Inr 1"
    using GetNonce_log(2) [OF demo_up_ok, of demo_codec "(log_keys tok_log, [])" tok_log "''p''"] tok_logs(2)
    by (simp add: tok_lists)
  then have "rp_Status (snd (api_get web_server (web_info undefined) web_state ''/nonce/p'')) = 200"
    unfolding api_get_def p
    by (cases "GetNonce demo_up (log_keys tok_log, []) ''p''")
       (simp add: api_GetNonce_def db_reply_def web_server_def web_state_def tok_state_def tok_cfg_def JSON_def)
  then have "rp_Status r = 200" using r(1) by (simp add: api_serve_def split: prod.splits)
  with r show ?thesis by blast
qed

end
