(* ===== verification/Fork.thy ===== *)
theory Fork
  imports SdkProps Recovery
begin

text \<open>
  Following a process from another node (node/fork.go): its history is fetched entry by entry with the
  verifying client and applied to an own machine. The loop runs until the node closes; a turn of it is
  a step, and a run of any number of turns is what an open node does. A call that waits for the
  registry is the event \<open>FkBlocked\<close>: the turn begins again. A panic ends the node.
\<close>

subsection \<open>Which node is asked\<close>

text \<open>Without a URL the slice of clients is made with its final length and then appended to.\<close>

definition Fork_clients ::
  "('s, 'r, 'h, 'u, 'o, 'f) rec_state \<Rightarrow> string \<Rightarrow> string \<Rightarrow> sys_err + client list" where
  "Fork_clients st pid nodeURL =
     (if Vmm_IsExists (ns_vmm st) pid then Inl ErrProcessAlreadyExists
      else if nodeURL \<noteq> [] then Inr [NewClient nodeURL]
      else (let nodes = Vmm_GetNodesByProcess (ns_vmm st) pid in
            if nodes = [] then Inl ErrNotFoundNodes
            else Inr (replicate (length nodes) zero_client @ map (\<lambda>nd. NewClient (node_URL nd)) nodes)))"

subsection \<open>Checks of an entry\<close>

definition forkScheduler :: "string \<Rightarrow> bundle_item \<Rightarrow> sys_err + string" where
  "forkScheduler pid spawn =
     (case DecodeItemToProcess spawn of
        Inl e \<Rightarrow> Inl (CodecErr e)
      | Inr proc \<Rightarrow>
          if item_Id spawn \<noteq> pid \<or> base_Type (proc_Base proc) \<noteq> TypeProcess \<or> proc_Scheduler proc = []
          then Inl ErrInvalidForkItem else Inr (proc_Scheduler proc))"

definition verifyForkItem ::
  "extlib \<Rightarrow> string \<Rightarrow> int64 \<Rightarrow> string \<Rightarrow> bundle_item \<Rightarrow> bundle_item \<Rightarrow> sys_err + assignment" where
  "verifyForkItem lib pid nonce scheduler msg item =
     (case Decode lib item of
        Inl e \<Rightarrow> Inl (CodecErr e)
      | Inr (_, signer, _, inst) \<Rightarrow>
          (case inst of
             IAssignment assign \<Rightarrow>
               if signer \<noteq> scheduler \<or> asg_Process assign \<noteq> pid \<or> asg_Message assign \<noteq> item_Id msg \<or>
                  asg_Nonce assign \<noteq> FormatInt nonce
               then Inl ErrInvalidForkItem
               else let isSpawn = (nonce = 0 \<and> item_Id msg = pid \<and> GetType msg = TypeProcess);
                        isMessage = (nonce \<noteq> 0 \<and> item_Target msg = pid \<and> GetType msg = TypeMessage)
                    in if \<not> isSpawn \<and> \<not> isMessage then Inl ErrInvalidForkItem else Inr assign
           | _ \<Rightarrow> Inl ErrInvalidForkItem))"

subsection \<open>The loop\<close>

record ('s, 'r, 'h, 'u, 'o, 'f, 'n) fork_state =
  fk_node :: "('s, 'r, 'h, 'u, 'o, 'f) rec_state"
  fk_net :: 'n
  fk_nonce :: int64
  fk_scheduler :: string
  fk_panic :: bool

datatype fork_event =
    FkWait sys_err
  | FkPanic
  | FkBlocked
  | FkApplied int64 bundle_item bundle_item handled

definition fork_start ::
  "('s, 'r, 'h, 'u, 'o, 'f) rec_cfg \<Rightarrow> ('s, 'r, 'h, 'u, 'o, 'f) rec_state \<Rightarrow> 'n \<Rightarrow> string \<Rightarrow>
     ('s, 'r, 'h, 'u, 'o, 'f, 'n) fork_state" where
  "fork_start cf st n checkpointID =
     (case Node_Restore cf st checkpointID of (st1, r) \<Rightarrow>
        \<lparr>fk_node = st1, fk_net = n, fk_nonce = (case r of Inl _ \<Rightarrow> 0 | Inr curNonce \<Rightarrow> curNonce + 1),
         fk_scheduler = [], fk_panic = False\<rparr>)"

text \<open>An error is logged before the loop sleeps; a panic is not caught.\<close>

definition fork_fail ::
  "('s, 'r, 'h, 'u, 'o, 'f, 'n) fork_state \<Rightarrow> sys_err \<Rightarrow> ('s, 'r, 'h, 'u, 'o, 'f, 'n) fork_state \<times> fork_event" where
  "fork_fail fk e = (if is_panic e then (fk\<lparr>fk_panic := True\<rparr>, FkPanic) else (fk, FkWait e))"

definition fork_spawn ::
  "('n, 'j) sdk_cfg \<Rightarrow> client \<Rightarrow> string \<Rightarrow> 'n \<Rightarrow> string \<Rightarrow> 'n \<times> (sys_err + string)" where
  "fork_spawn sc c pid n scheduler =
     (if scheduler \<noteq> [] then (n, Inr scheduler)
      else case GetMessageBin sc c n pid of
        (n', Inl e) \<Rightarrow> (n', Inl e)
      | (n', Inr spawn) \<Rightarrow> (n', forkScheduler pid spawn))"

definition fork_turn ::
  "('s, 'r, 'h, 'u, 'o, 'f) rec_cfg \<Rightarrow> ('n, 'j) sdk_cfg \<Rightarrow> client \<Rightarrow> string \<Rightarrow> exec_mode \<Rightarrow>
     ('s, 'r, 'h, 'u, 'o, 'f, 'n) fork_state \<Rightarrow> ('s, 'r, 'h, 'u, 'o, 'f, 'n) fork_state \<times> fork_event" where
  "fork_turn cf sc c pid mode fk =
     (case fork_spawn sc c pid (fk_net fk) (fk_scheduler fk) of
        (n1, Inl e) \<Rightarrow> fork_fail (fk\<lparr>fk_net := n1\<rparr>) e
      | (n1, Inr scheduler) \<Rightarrow>
     (let fk1 = fk\<lparr>fk_net := n1, fk_scheduler := scheduler\<rparr>; nonce = fk_nonce fk in
      case GetMessageBinByNonce sc c n1 pid nonce of
        (n2, Inl e) \<Rightarrow> fork_fail (fk1\<lparr>fk_net := n2\<rparr>) e
      | (n2, Inr msgItem) \<Rightarrow>
     (case GetAssignBinByNonce sc c n2 pid nonce of
        (n3, Inl e) \<Rightarrow> fork_fail (fk1\<lparr>fk_net := n3\<rparr>) e
      | (n3, Inr assignItem) \<Rightarrow>
     (let fk3 = fk1\<lparr>fk_net := n3\<rparr> in
      case verifyForkItem (nc_lib cf) pid nonce scheduler msgItem assignItem of
        Inl e \<Rightarrow> fork_fail fk3 e
      | Inr assign \<Rightarrow>
     (case HandleMode (node_cfg.truncate cf) (ns_vmm (fk_node fk)) msgItem assign mode (- 1) of
        None \<Rightarrow> (fk3, FkBlocked)
      | Some (v, h) \<Rightarrow>
          (let fk4 = fk3\<lparr>fk_node := (fk_node fk)\<lparr>ns_vmm := v\<rparr>\<rparr> in
           case h of
             HandleErr e \<Rightarrow> (fk4\<lparr>fk_panic := is_panic e\<rparr>, FkApplied nonce msgItem assignItem h)
           | _ \<Rightarrow> (fk4\<lparr>fk_nonce := nonce + 1\<rparr>, FkApplied nonce msgItem assignItem h)))))))"

fun fork_run ::
  "('s, 'r, 'h, 'u, 'o, 'f) rec_cfg \<Rightarrow> ('n, 'j) sdk_cfg \<Rightarrow> client \<Rightarrow> string \<Rightarrow> exec_mode \<Rightarrow> nat \<Rightarrow>
     ('s, 'r, 'h, 'u, 'o, 'f, 'n) fork_state \<Rightarrow> ('s, 'r, 'h, 'u, 'o, 'f, 'n) fork_state \<times> fork_event list" where
  "fork_run cf sc c pid mode 0 fk = (fk, [])"
| "fork_run cf sc c pid mode (Suc n) fk =
     (if fk_panic fk then (fk, [])
      else case fork_turn cf sc c pid mode fk of
        (fk1, ev) \<Rightarrow> (case fork_run cf sc c pid mode n fk1 of (fk2, evs) \<Rightarrow> (fk2, ev # evs)))"

text \<open>\<open>runForkProcess\<close> asks the first client only.\<close>

definition runForkProcess ::
  "('s, 'r, 'h, 'u, 'o, 'f) rec_cfg \<Rightarrow> ('n, 'j) sdk_cfg \<Rightarrow> ('s, 'r, 'h, 'u, 'o, 'f) rec_state \<Rightarrow> 'n \<Rightarrow> string \<Rightarrow>
     string \<Rightarrow> client list \<Rightarrow> exec_mode \<Rightarrow> nat \<Rightarrow> ('s, 'r, 'h, 'u, 'o, 'f, 'n) fork_state \<times> fork_event list" where
  "runForkProcess cf sc st n pid checkpointID clients mode turns =
     fork_run cf sc (clients ! 0) pid mode turns (fork_start cf st n checkpointID)"

text \<open>The forks a node starts with, as arguments of \<open>Fork\<close>: the checkpoint of a failed read is empty.\<close>

definition runDefaultFork ::
  "('s, 'r, 'h, 'u, 'o, 'f) rec_cfg \<Rightarrow> string \<Rightarrow> ('s, 'r, 'h, 'u, 'o, 'f) rec_state \<Rightarrow>
     ('s, 'r, 'h, 'u, 'o, 'f) rec_state \<times> (string \<times> string \<times> string) list" where
  "runDefaultFork cf hymxURL st =
     (let one = (\<lambda>pid st. if pid = [] then (st, [])
            else case GetCheckpointIndex (nc_redis cf) (ns_db st) pid of
              (db, r) \<Rightarrow> (st\<lparr>ns_db := db\<rparr>, [(pid, (case r of Inl _ \<Rightarrow> [] | Inr i \<Rightarrow> i), hymxURL)]));
          (st1, fs) = one (ns_Registry st) st;
          (st2, gs) = one (ns_Token st) st1
      in (st2, fs @ gs))"

subsection \<open>What a fork applies\<close>

text \<open>The entry at a position of the history of a process, as its scheduler signed it.\<close>

definition fork_entry ::
  "('n, 'j) sdk_cfg \<Rightarrow> extlib \<Rightarrow> string \<Rightarrow> string \<Rightarrow> int64 \<Rightarrow> bundle_item \<Rightarrow> bundle_item \<Rightarrow> bool" where
  "fork_entry sc lib pid scheduler nonce msg item \<longleftrightarrow>
     verified sc msg \<and> verified sc item \<and>
     (\<exists>p fp assign. Decode lib item = Inr (p, scheduler, fp, IAssignment assign) \<and> asg_Process assign = pid \<and>
        asg_Message assign = item_Id msg \<and> asg_Nonce assign = FormatInt nonce) \<and>
     (if nonce = 0 then item_Id msg = pid \<and> GetType msg = TypeProcess
      else item_Target msg = pid \<and> GetType msg = TypeMessage)"

definition spawn_scheduler :: "('n, 'j) sdk_cfg \<Rightarrow> string \<Rightarrow> string \<Rightarrow> bool" where
  "spawn_scheduler sc pid scheduler \<longleftrightarrow>
     (\<exists>spawn p. verified sc spawn \<and> item_Id spawn = pid \<and> DecodeItemToProcess spawn = Inr p \<and>
        proc_Scheduler p = scheduler \<and> scheduler \<noteq> [])"

lemma verifyForkItem_entry:
  assumes "verifyForkItem lib pid nonce scheduler msg item = Inr assign" "verified sc msg" "verified sc item"
  shows "fork_entry sc lib pid scheduler nonce msg item"
  using assms unfolding fork_entry_def
  by (auto simp: verifyForkItem_def Let_def split: sum.splits prod.splits instance_val.splits if_splits)

lemma fork_spawn_scheduler:
  assumes "fork_spawn sc c pid n s = (n', Inr s')" "s = [] \<or> spawn_scheduler sc pid s"
  shows "spawn_scheduler sc pid s'"
proof (cases "s = []")
  case False
  then show ?thesis using assms by (simp add: fork_spawn_def)
next
  case True
  then obtain spawn where "GetMessageBin sc c n pid = (n', Inr spawn)" "forkScheduler pid spawn = Inr s'"
    using assms(1) by (auto simp: fork_spawn_def split: prod.splits sum.splits)
  moreover from this(1) have "verified sc spawn"
    using GetMessageBin_verified [of sc c n pid] by simp
  ultimately show ?thesis
    unfolding spawn_scheduler_def by (auto simp: forkScheduler_def split: sum.splits if_splits)
qed

text \<open>The positions that were applied successfully.\<close>

fun applied_nonces :: "fork_event list \<Rightarrow> int64 list" where
  "applied_nonces [] = []"
| "applied_nonces (FkApplied n msg item h # evs) =
     (case h of HandleErr _ \<Rightarrow> applied_nonces evs | _ \<Rightarrow> n # applied_nonces evs)"
| "applied_nonces (_ # evs) = applied_nonces evs"

definition fork_inv :: "('n, 'j) sdk_cfg \<Rightarrow> string \<Rightarrow> ('s, 'r, 'h, 'u, 'o, 'f, 'n) fork_state \<Rightarrow> bool" where
  "fork_inv sc pid fk \<longleftrightarrow> fk_scheduler fk = [] \<or> spawn_scheduler sc pid (fk_scheduler fk)"

lemma fork_turn_cases:
  assumes "fork_turn cf sc c pid mode fk = (fk', ev)" "fork_inv sc pid fk"
  shows "fork_inv sc pid fk' \<and> (fk_scheduler fk \<noteq> [] \<longrightarrow> fk_scheduler fk' = fk_scheduler fk) \<and>
    (case ev of
       FkApplied n msg item h \<Rightarrow> n = fk_nonce fk \<and> fork_entry sc (nc_lib cf) pid (fk_scheduler fk') n msg item \<and>
         spawn_scheduler sc pid (fk_scheduler fk') \<and>
         fk_nonce fk' = (case h of HandleErr _ \<Rightarrow> fk_nonce fk | _ \<Rightarrow> fk_nonce fk + 1)
     | _ \<Rightarrow> fk_nonce fk' = fk_nonce fk)"
proof -
  obtain n1 r1 where s: "fork_spawn sc c pid (fk_net fk) (fk_scheduler fk) = (n1, r1)" by fastforce
  show ?thesis
  proof (cases r1)
    case (Inl e)
    with s assms show ?thesis by (auto simp: fork_turn_def fork_fail_def fork_inv_def Let_def split: if_splits)
  next
    case (Inr sch)
    have sch: "spawn_scheduler sc pid sch" "fk_scheduler fk \<noteq> [] \<longrightarrow> sch = fk_scheduler fk"
      using fork_spawn_scheduler [of sc c pid "fk_net fk" "fk_scheduler fk" n1 sch] s Inr assms(2)
      by (auto simp: fork_inv_def fork_spawn_def)
    obtain n2 r2 where m: "GetMessageBinByNonce sc c n1 pid (fk_nonce fk) = (n2, r2)" by fastforce
    obtain n3 r3 where a: "GetAssignBinByNonce sc c n2 pid (fk_nonce fk) = (n3, r3)" by fastforce
    show ?thesis
    proof (cases r2)
      case (Inl e)
      with s Inr m assms(1) sch show ?thesis by (auto simp: fork_turn_def fork_fail_def fork_inv_def Let_def split: if_splits)
    next
      case msg: (Inr msg)
      show ?thesis
      proof (cases r3)
        case (Inl e)
        with s Inr m msg a assms(1) sch show ?thesis
          by (auto simp: fork_turn_def fork_fail_def fork_inv_def Let_def split: if_splits)
      next
        case item: (Inr item)
        have ver: "verified sc msg" "verified sc item"
          using BinByNonce_verified(1) [of sc c n1 pid "fk_nonce fk"] BinByNonce_verified(2) [of sc c n2 pid "fk_nonce fk"]
            m a msg item by simp_all
        show ?thesis
        proof (cases "verifyForkItem (nc_lib cf) pid (fk_nonce fk) sch msg item")
          case (Inl e)
          with s Inr m msg a item assms(1) sch show ?thesis
            by (auto simp: fork_turn_def fork_fail_def fork_inv_def Let_def split: if_splits)
        next
          case assign: (Inr assign)
          note ent = verifyForkItem_entry [OF assign ver]
          from s Inr m msg a item assign assms(1) sch ent show ?thesis
            by (auto simp: fork_turn_def fork_inv_def Let_def split: option.splits handled.splits)
        qed
      qed
    qed
  qed
qed

lemma fork_run_authentic:
  assumes "fork_run cf sc c pid mode k fk = (fk', evs)" "fork_inv sc pid fk"
  shows "\<exists>sch. (fk_scheduler fk \<noteq> [] \<longrightarrow> sch = fk_scheduler fk) \<and>
    (\<forall>n msg item h. FkApplied n msg item h \<in> set evs \<longrightarrow>
       spawn_scheduler sc pid sch \<and> fork_entry sc (nc_lib cf) pid sch n msg item) \<and>
    applied_nonces evs = count_from (fk_nonce fk - 1) (length (applied_nonces evs)) \<and>
    fk_nonce fk' = fk_nonce fk + of_nat (length (applied_nonces evs))"
  using assms
proof (induction k arbitrary: fk evs)
  case (Suc k)
  show ?case
  proof (cases "fk_panic fk")
    case True
    then show ?thesis using Suc.prems by auto
  next
    case False
    obtain fk1 ev where t: "fork_turn cf sc c pid mode fk = (fk1, ev)" by fastforce
    obtain evs1 where r: "fork_run cf sc c pid mode k fk1 = (fk', evs1)" "evs = ev # evs1"
      using Suc.prems(1) False t by (auto split: prod.splits)
    note T = fork_turn_cases [OF t Suc.prems(2)]
    then have i: "fork_inv sc pid fk1" by blast
    obtain sch where sch: "fk_scheduler fk1 \<noteq> [] \<longrightarrow> sch = fk_scheduler fk1"
      "\<forall>n msg item h. FkApplied n msg item h \<in> set evs1 \<longrightarrow>
         spawn_scheduler sc pid sch \<and> fork_entry sc (nc_lib cf) pid sch n msg item"
      "applied_nonces evs1 = count_from (fk_nonce fk1 - 1) (length (applied_nonces evs1))"
      "fk_nonce fk' = fk_nonce fk1 + of_nat (length (applied_nonces evs1))"
      using Suc.IH [OF r(1) i] by blast
    have ne: "spawn_scheduler sc pid [] \<Longrightarrow> False" by (auto simp: spawn_scheduler_def)
    show ?thesis
    proof (cases "\<exists>n msg item h. ev = FkApplied n msg item h")
      case True
      then obtain n msg item h where FkApplied: "ev = FkApplied n msg item h" by blast
      then have e: "n = fk_nonce fk" "fork_entry sc (nc_lib cf) pid (fk_scheduler fk1) n msg item"
        "spawn_scheduler sc pid (fk_scheduler fk1)"
        "fk_nonce fk1 = (case h of HandleErr _ \<Rightarrow> fk_nonce fk | _ \<Rightarrow> fk_nonce fk + 1)" using T by auto
      have "fk_scheduler fk1 \<noteq> []" using e(3) ne by auto
      then have s: "sch = fk_scheduler fk1" using sch(1) by blast
      show ?thesis
        by (intro exI [of _ sch])
           (use T FkApplied e s sch r(2) in \<open>auto simp: algebra_simps split: handled.splits\<close>)
    next
      case False
      then have "applied_nonces evs = applied_nonces evs1" "fk_nonce fk1 = fk_nonce fk"
        using T r(2) by (cases ev; simp)+
      moreover have "FkApplied n msg item h \<in> set evs \<longleftrightarrow> FkApplied n msg item h \<in> set evs1" for n msg item h
        using False r(2) by auto
      ultimately show ?thesis using sch T by (intro exI [of _ sch]) auto
    qed
  qed
qed auto

text \<open>C23: a fork applies the signed history of its process and nothing else, whatever the node it follows
  answers. All entries it hands to the machine belong to one scheduler, named in a verified spawn whose
  id is the process; each is a verified item with an assignment this scheduler signed for the process,
  the item and exactly the nonce the fork had come to. The applied nonces are consecutive from the one
  after the checkpoint: no entry is skipped, repeated or reordered.\<close>

theorem fork_authentic:
  assumes "runForkProcess cf sc st n pid ckpId clients mode turns = (fk', evs)"
  shows "let start = fk_nonce (fork_start cf st n ckpId); applied = applied_nonces evs in
    (\<exists>sch. \<forall>k msg item h. FkApplied k msg item h \<in> set evs \<longrightarrow>
       spawn_scheduler sc pid sch \<and> fork_entry sc (nc_lib cf) pid sch k msg item) \<and>
    applied = count_from (start - 1) (length applied) \<and> fk_nonce fk' = start + of_nat (length applied)"
proof -
  have "fork_inv sc pid (fork_start cf st n ckpId)"
    by (simp add: fork_inv_def fork_start_def split: prod.split)
  from fork_run_authentic [OF assms [unfolded runForkProcess_def] this] show ?thesis
    unfolding Let_def by blast
qed

subsection \<open>A fork without a URL\<close>

lemma http_Get_zero: "\<not> is_err (request_of sc zero_client ''GET'' path [] []) \<Longrightarrow> http_Get sc zero_client n path = (n, Inl nil_panic)"
  by (cases "request_of sc zero_client ''GET'' path [] []") (simp_all add: http_Get_def http_Do_def zero_client_def)

text \<open>A fork that looks up the nodes of the process itself ends the node. The slice of clients is made
  with as many empty clients as there are nodes before the real ones are appended, and the loop asks the
  first: its nil HTTP client is dereferenced in the first turn, for every process that has a node and
  every network, although a working client for each node is in the slice.\<close>

theorem fork_without_url_panics:
  assumes "Fork_clients st pid [] = Inr clients" and "0 < turns"
    and "\<forall>path. \<not> is_err (request_of sc zero_client ''GET'' path [] [])"
  shows "(\<forall>nd \<in> set (Vmm_GetNodesByProcess (ns_vmm st) pid). NewClient (node_URL nd) \<in> set clients) \<and>
    snd (runForkProcess cf sc st n pid ckpId clients mode turns) = [FkPanic] \<and>
    fk_panic (fst (runForkProcess cf sc st n pid ckpId clients mode turns))"
proof -
  have c: "clients = replicate (length (Vmm_GetNodesByProcess (ns_vmm st) pid)) zero_client @
      map (\<lambda>nd. NewClient (node_URL nd)) (Vmm_GetNodesByProcess (ns_vmm st) pid)"
    "Vmm_GetNodesByProcess (ns_vmm st) pid \<noteq> []"
    using assms(1) by (auto simp: Fork_clients_def Let_def split: if_splits)
  then have c0: "clients ! 0 = zero_client" by (cases "Vmm_GetNodesByProcess (ns_vmm st) pid") auto
  have "GetMessageBin sc zero_client n pid = (n, Inl nil_panic)" for n
    using http_Get_zero [of sc "''/messageBin/'' @ pid"] assms(3)
    by (simp add: GetMessageBin_def getItemBinary_def getBinary_def)
  then have t: "fork_turn cf sc zero_client pid mode fk = (fk\<lparr>fk_panic := True\<rparr>, FkPanic)" if "fk_scheduler fk = []" for fk
    using that by (simp add: fork_turn_def fork_spawn_def fork_fail_def is_panic_def)
  obtain k where k: "turns = Suc k" using assms(2) by (cases turns) auto
  have s: "fk_scheduler (fork_start cf st n ckpId) = []" "\<not> fk_panic (fork_start cf st n ckpId)"
    by (simp_all add: fork_start_def split: prod.split)
  have "fork_run cf sc zero_client pid mode k fk = (fk, [])" if "fk_panic fk" for fk
    using that by (cases k) auto
  with t [OF s(1)] s have "runForkProcess cf sc st n pid ckpId clients mode turns =
      ((fork_start cf st n ckpId)\<lparr>fk_panic := True\<rparr>, [FkPanic])"
    unfolding runForkProcess_def c0 by (simp add: k)
  then show ?thesis using c by simp
qed

end
