(* ===== verification/ForkLive.thy ===== *)
theory ForkLive
  imports Fork WebDemo
begin

text \<open>
  A fork against a node that serves the history it recorded: the composition of the server, the client
  and the loop. It reproduces the machine that results from applying the history in order.
\<close>

lemma GetMessageBin_server:
  assumes "plain_base cf c" "sk_net cf = server_net sv pending ri" "binaries_fit sv cf" "seg i"
    and "GetMessage (nc_redis (sv_node sv)) (nc_codec (sv_node sv)) (ns_db st) i = (db, Inr (Some x))"
    and "sv_GenerateItemBinary sv x = Inr b" "verify_bundle_item (sk_lib cf) x" "item_Id x = i"
  shows "GetMessageBin cf c st i = (st\<lparr>ns_db := db\<rparr>, Inr x)"
proof -
  have p: "Split CHR ''/'' (''/messageBin/'' @ i) = [[], ''messageBin'', i]" "safe_path (''/messageBin/'' @ i)"
    using path2 [OF assms(4), of "''messageBin''"] by (simp_all add: safe_char_def)
  have "api_get sv k st (''/messageBin/'' @ i) = api_GetMessageBin sv st i" for k
    unfolding api_get_def p(1) using assms(4) by (simp add: seg_def)
  then have "api_get sv k st (''/messageBin/'' @ i) = (st\<lparr>ns_db := db\<rparr>, writeItemBinary sv (Some x))" for k
    by (simp add: api_GetMessageBin_def assms(5) db_reply_def)
  from getItemBinary_server [OF assms(1) p(2) assms(2,3) this assms(6,7)] assms(8) show ?thesis
    by (simp add: GetMessageBin_def)
qed

text \<open>A server that holds the log \<open>es\<close>, with everything in it signed and encodable.\<close>

definition honest ::
  "('s, 'r, 'h, 'u, 'o, 'f) server_cfg \<Rightarrow> (('s, 'r, 'h, 'u, 'o, 'f) rec_state, 'j) sdk_cfg \<Rightarrow> client \<Rightarrow> ('r \<Rightarrow> keyspace) \<Rightarrow>
     entry list \<Rightarrow> bool" where
  "honest sv sc c view es \<longleftrightarrow>
     plain_base sc c \<and> (\<exists>pending ri. sk_net sc = server_net sv pending ri) \<and> binaries_fit sv sc \<and>
     redis_ok (nc_redis (sv_node sv)) view \<and> redis_up (nc_redis (sv_node sv)) \<and> codec_ok (nc_codec (sv_node sv)) \<and>
     length es < 2 ^ 63 \<and>
     (\<forall>e \<in> set es. \<forall>x \<in> {fst (snd e), snd (snd e)}. verify_bundle_item (sk_lib sc) x \<and> \<not> is_err (sv_GenerateItemBinary sv x))"

definition holds_log ::
  "('s, 'r, 'h, 'u, 'o, 'f) server_cfg \<Rightarrow> ('r \<Rightarrow> keyspace) \<Rightarrow> entry list \<Rightarrow> ('s, 'r, 'h, 'u, 'o, 'f) rec_state \<Rightarrow> bool" where
  "holds_log sv view es st \<longleftrightarrow> log_ok (nc_codec (sv_node sv)) (view (ns_db st)) es"

lemma honest_entry:
  assumes "honest sv sc c view es" "holds_log sv view es st" "seg pid" "j < length (items_of es pid)"
  shows "\<exists>st'. GetMessageBinByNonce sc c st pid (of_nat j) = (st', Inr (items_of es pid ! j)) \<and> holds_log sv view es st'"
    "\<exists>st'. GetAssignBinByNonce sc c st pid (of_nat j) = (st', Inr (assigns_of es pid ! j)) \<and> holds_log sv view es st'"
proof -
  note h = assms(1) [unfolded honest_def]
  obtain pending ri where net: "sk_net sc = server_net sv pending ri" using h by blast
  have "length (items_of es pid) \<le> length es" by (simp add: items_of_def)
  then have j: "j < 2 ^ 63" using assms(4) h by linarith
  from h assms(2) have "log_ok (nc_codec (sv_node sv)) (view (ns_db st)) es" by (simp add: holds_log_def)
  with log_served [of sc c sv pending ri pid view st es j] h net assms(3,4) j
  obtain db1 db2 where "GetMessageBinByNonce sc c st pid (of_nat j) = (st\<lparr>ns_db := db1\<rparr>, Inr (items_of es pid ! j))"
    "GetAssignBinByNonce sc c st pid (of_nat j) = (st\<lparr>ns_db := db2\<rparr>, Inr (assigns_of es pid ! j))"
    "view db1 = view (ns_db st)" "view db2 = view (ns_db st)" by blast
  with assms(2) show "\<exists>st'. GetMessageBinByNonce sc c st pid (of_nat j) = (st', Inr (items_of es pid ! j)) \<and> holds_log sv view es st'"
    "\<exists>st'. GetAssignBinByNonce sc c st pid (of_nat j) = (st', Inr (assigns_of es pid ! j)) \<and> holds_log sv view es st'"
    by (auto simp: holds_log_def)
qed

lemma honest_spawn:
  assumes h: "honest sv sc c view es" and log: "holds_log sv view es st" and seg: "seg pid"
    and ne: "items_of es pid \<noteq> []" and id: "item_Id (items_of es pid ! 0) = pid"
    and sch: "forkScheduler pid (items_of es pid ! 0) = Inr sch" and s: "s \<in> {[], sch}"
  shows "\<exists>st'. fork_spawn sc c pid st s = (st', Inr sch) \<and> holds_log sv view es st'"
proof (cases "s = []")
  case False
  with s log show ?thesis by (auto simp: fork_spawn_def)
next
  case True
  note H = h [unfolded honest_def]
  obtain pending ri where net: "sk_net sc = server_net sv pending ri" using H by blast
  let ?x = "items_of es pid ! 0"
  have len: "0 < length (items_of es pid)" using ne by simp
  obtain e where e: "e \<in> set es" "?x = fst (snd e)" using nth_mem [OF len] by (auto simp: items_of_def)
  then have v: "verify_bundle_item (sk_lib sc) ?x" "\<not> is_err (sv_GenerateItemBinary sv ?x)" using H by auto
  obtain b where b: "sv_GenerateItemBinary sv ?x = Inr b" using not_err [OF v(2)] by blast
  have colon: "CHR '':'' \<notin> set pid" using seg by (auto simp: seg_def safe_char_def)
  obtain db where db: "GetMessage (nc_redis (sv_node sv)) (nc_codec (sv_node sv)) (ns_db st) pid = (db, Inr (Some ?x))"
    "view db = view (ns_db st)"
    using GetMessage_present [of "nc_redis (sv_node sv)" view "nc_codec (sv_node sv)" "ns_db st" es 0 pid pid] H log colon len id
    by (cases "GetMessage (nc_redis (sv_node sv)) (nc_codec (sv_node sv)) (ns_db st) pid") (auto simp: holds_log_def)
  have "GetMessageBin sc c st pid = (st\<lparr>ns_db := db\<rparr>, Inr ?x)"
    by (rule GetMessageBin_server [OF _ net _ seg db(1) b v(1) id]) (use H in auto)
  then have "fork_spawn sc c pid st s = (st\<lparr>ns_db := db\<rparr>, Inr sch)"
    by (simp add: fork_spawn_def True sch)
  moreover have "holds_log sv view es (st\<lparr>ns_db := db\<rparr>)" using log db(2) by (simp add: holds_log_def)
  ultimately show ?thesis by blast
qed

text \<open>Applying a history in order to the machines of a node.\<close>

fun fork_replay ::
  "('s, 'r, 'h) node_cfg \<Rightarrow> exec_mode \<Rightarrow> 's vmm \<Rightarrow> (bundle_item \<times> assignment) list \<Rightarrow> 's vmm option" where
  "fork_replay cf mode v [] = Some v"
| "fork_replay cf mode v ((m, a) # xs) =
     (case HandleMode cf v m a mode (- 1) of
        Some (v', HandleErr _) \<Rightarrow> None
      | Some (v', _) \<Rightarrow> fork_replay cf mode v' xs
      | None \<Rightarrow> None)"

definition history :: "extlib \<Rightarrow> string \<Rightarrow> string \<Rightarrow> entry list \<Rightarrow> assignment list \<Rightarrow> bool" where
  "history lib pid sch es as \<longleftrightarrow>
     length as = length (items_of es pid) \<and>
     (\<forall>j < length as. verifyForkItem lib pid (of_nat j) sch (items_of es pid ! j) (assigns_of es pid ! j) = Inr (as ! j))"

lemma honest_turn:
  assumes h: "honest sv sc c view es" and log: "holds_log sv view es (fk_net fk)" and seg: "seg pid"
    and id: "item_Id (items_of es pid ! 0) = pid" and sch: "forkScheduler pid (items_of es pid ! 0) = Inr sch"
    and hist: "history (nc_lib cf) pid sch es as" and j: "j < length as"
    and fk: "fk_nonce fk = of_nat j" "fk_scheduler fk \<in> {[], sch}" "\<not> fk_panic fk"
    and hm: "HandleMode (node_cfg.truncate cf) (ns_vmm (fk_node fk)) (items_of es pid ! j) (as ! j) mode (- 1) = Some (v, x)"
      "\<forall>e. x \<noteq> HandleErr e"
  shows "\<exists>fk' ev. fork_turn cf sc c pid mode fk = (fk', ev) \<and> holds_log sv view es (fk_net fk') \<and>
    fk_nonce fk' = of_nat (Suc j) \<and> fk_scheduler fk' \<in> {[], sch} \<and> \<not> fk_panic fk' \<and> ns_vmm (fk_node fk') = v"
proof -
  have len: "j < length (items_of es pid)" "items_of es pid \<noteq> []" using hist j by (auto simp: history_def)
  obtain s1 where s1: "fork_spawn sc c pid (fk_net fk) (fk_scheduler fk) = (s1, Inr sch)" "holds_log sv view es s1"
    using honest_spawn [OF h log seg len(2) id sch fk(2)] by blast
  obtain s2 where s2: "GetMessageBinByNonce sc c s1 pid (of_nat j) = (s2, Inr (items_of es pid ! j))" "holds_log sv view es s2"
    using honest_entry(1) [OF h s1(2) seg len(1)] by blast
  obtain s3 where s3: "GetAssignBinByNonce sc c s2 pid (of_nat j) = (s3, Inr (assigns_of es pid ! j))" "holds_log sv view es s3"
    using honest_entry(2) [OF h s2(2) seg len(1)] by blast
  have ver: "verifyForkItem (nc_lib cf) pid (of_nat j) sch (items_of es pid ! j) (assigns_of es pid ! j) = Inr (as ! j)"
    using hist j by (simp add: history_def)
  show ?thesis
    using s1 s2 s3 ver fk hm by (cases x) (auto simp: fork_turn_def Let_def)
qed

lemma honest_run:
  assumes h: "honest sv sc c view es" and seg: "seg pid" and id: "item_Id (items_of es pid ! 0) = pid"
    and sch: "forkScheduler pid (items_of es pid ! 0) = Inr sch" and hist: "history (nc_lib cf) pid sch es as"
    and log: "holds_log sv view es (fk_net fk)"
    and fk: "fk_nonce fk = of_nat j" "fk_scheduler fk \<in> {[], sch}" "\<not> fk_panic fk" and j: "j + k = length as"
    and rep: "fork_replay (node_cfg.truncate cf) mode (ns_vmm (fk_node fk)) (drop j (zip (items_of es pid) as)) = Some v"
  shows "\<exists>fk' evs. fork_run cf sc c pid mode k fk = (fk', evs) \<and> fk_nonce fk' = of_nat (length as) \<and>
    \<not> fk_panic fk' \<and> ns_vmm (fk_node fk') = v"
  using log fk j rep
proof (induction k arbitrary: j fk)
  case 0
  then show ?case using hist by (auto simp: history_def)
next
  case (Suc k)
  have len: "length (items_of es pid) = length as" using hist by (simp add: history_def)
  have dr: "drop j (zip (items_of es pid) as) = (items_of es pid ! j, as ! j) # drop (Suc j) (zip (items_of es pid) as)"
    using Suc.prems(5) len by (subst Cons_nth_drop_Suc [symmetric]) auto
  obtain v1 x where hm: "HandleMode (node_cfg.truncate cf) (ns_vmm (fk_node fk)) (items_of es pid ! j) (as ! j) mode (- 1) = Some (v1, x)"
    "\<forall>e. x \<noteq> HandleErr e"
    "fork_replay (node_cfg.truncate cf) mode v1 (drop (Suc j) (zip (items_of es pid) as)) = Some v"
    using Suc.prems(6) unfolding dr by (auto split: option.splits handled.splits)
  have jl: "j < length as" using Suc.prems(5) by simp
  obtain fk1 ev where t: "fork_turn cf sc c pid mode fk = (fk1, ev)" "holds_log sv view es (fk_net fk1)"
    "fk_nonce fk1 = of_nat (Suc j)" "fk_scheduler fk1 \<in> {[], sch}" "\<not> fk_panic fk1" "ns_vmm (fk_node fk1) = v1"
    using honest_turn [OF h Suc.prems(1) seg id sch hist jl Suc.prems(2-4) hm(1,2)] by blast
  from Suc.IH [OF t(2-5) _] hm(3) t(6) Suc.prems(5)
  obtain fk' evs where "fork_run cf sc c pid mode k fk1 = (fk', evs)" "fk_nonce fk' = of_nat (length as)"
    "\<not> fk_panic fk'" "ns_vmm (fk_node fk') = v" by auto
  then show ?case using Suc.prems(4) t(1) by (intro exI [of _ fk'] exI [of _ "ev # evs"]) simp
qed

text \<open>C24: a fork of an honest node catches up. When the followed node holds the log of the process, with a
  spawn that names the scheduler and assignments this scheduler signed, and there is no checkpoint, then
  after as many turns as the log has entries the fork stands behind the last entry and its machines are
  those that result from applying the entries in order to the own machines. Together with the safety of
  a fork: whatever it applies is this history.\<close>

theorem fork_replays_history:
  assumes "honest sv sc c view es" and "holds_log sv view es peer" and "seg pid"
    and "item_Id (items_of es pid ! 0) = pid" and "forkScheduler pid (items_of es pid ! 0) = Inr sch"
    and "history (nc_lib cf) pid sch es as" and "is_err (snd (Node_Restore cf st ckpId))"
    and "fork_replay (node_cfg.truncate cf) mode (ns_vmm (fst (Node_Restore cf st ckpId))) (zip (items_of es pid) as) = Some v"
  shows "\<exists>fk' evs. runForkProcess cf sc st peer pid ckpId [c] mode (length as) = (fk', evs) \<and>
    fk_nonce fk' = of_nat (length as) \<and> \<not> fk_panic fk' \<and> ns_vmm (fk_node fk') = v"
proof -
  let ?fk = "fork_start cf st peer ckpId"
  have fk: "fk_net ?fk = peer" "fk_nonce ?fk = of_nat 0" "fk_scheduler ?fk = []" "\<not> fk_panic ?fk"
    "fk_node ?fk = fst (Node_Restore cf st ckpId)"
    using assms(7) by (auto simp: fork_start_def split: prod.split sum.split)
  from honest_run [OF assms(1,3-6), of ?fk 0 "length as" mode v] assms(2,8) fk
  show ?thesis by (simp add: runForkProcess_def)
qed

subsection \<open>Instances\<close>

definition fork_spawn_item :: bundle_item where
  "fork_spawn_item = log_item ''p'' [Tag ''Type'' ''Process'', Tag ''Scheduler'' ''w'']"

definition fork_assign :: "string \<Rightarrow> string \<Rightarrow> bundle_item" where
  "fork_assign msg nonce = log_item (''a'' @ nonce) [Tag ''Type'' ''Assignment'', Tag ''Process'' ''p'', Tag ''Message'' msg,
     Tag ''Nonce'' nonce, Tag ''Timestamp'' ''7'']"

definition fork_log :: "entry list" where
  "fork_log = [(''p'', fork_spawn_item, fork_assign ''p'' ''0''), (''p'', info_item, fork_assign ''m1'' ''1'')]"

definition fork_asg :: "string \<Rightarrow> string \<Rightarrow> assignment" where
  "fork_asg msg nonce = \<lparr>asg_Base = zero_base\<lparr>base_Type := ''Assignment''\<rparr>, asg_Process = ''p'', asg_Message = msg,
     asg_Nonce = nonce, asg_Timestamp = ''7''\<rparr>"

definition fork_cfg :: "(nat, keyspace \<times> nat list, unit, unit, unit, string \<Rightarrow> string option) rec_cfg" where
  "fork_cfg = tok_cfg\<lparr>nc_module := (\<lambda>_. Inr (zero_module\<lparr>mod_ModuleFormat := ModuleFormatToken\<rparr>))\<rparr>"

definition fork_node :: "(nat, keyspace \<times> nat list, unit, unit, unit, string \<Rightarrow> string option) rec_state" where
  "fork_node = tok_state (Vmm_New [] True) empty_keyspace (\<lambda>_. None)"

definition fork_peer :: "(nat, keyspace \<times> nat list, unit, unit, unit, string \<Rightarrow> string option) rec_state" where
  "fork_peer = tok_state web_vmm (log_keys fork_log) (\<lambda>_. None)"

lemma fork_lists: "items_of fork_log ''p'' = [fork_spawn_item, info_item]"
  "assigns_of fork_log ''p'' = [fork_assign ''p'' ''0'', fork_assign ''m1'' ''1'']"
  by (simp_all add: fork_log_def items_of_def assigns_of_def)

lemma fork_log_ok: "log_ok demo_codec (log_keys fork_log) fork_log"
proof -
  let ?e0 = "(''p'', fork_spawn_item, fork_assign ''p'' ''0'')"
  have 1: "log_ok demo_codec (ks_cmds empty_keyspace (commit_cmds demo_codec ''p'' 0 fork_spawn_item (fork_assign ''p'' ''0''))) [?e0]"
    using log_ok_commit [OF log_ok_empty [of demo_codec], of fork_spawn_item "''p''" "fork_assign ''p'' ''0''"]
    by (simp add: items_of_def) (simp add: empty_keyspace_def)
  have "log_ok demo_codec (ks_cmds (ks_cmds empty_keyspace (commit_cmds demo_codec ''p'' 0 fork_spawn_item (fork_assign ''p'' ''0'')))
     (commit_cmds demo_codec ''p'' (of_nat (length (items_of [?e0] ''p''))) info_item (fork_assign ''m1'' ''1'')))
     ([?e0] @ [(''p'', info_item, fork_assign ''m1'' ''1'')])"
    by (rule log_ok_commit [OF 1])
       (simp add: info_item_def fork_spawn_item_def log_item_def commit_cmds_def empty_keyspace_def)
  then show ?thesis by (simp add: log_keys_def fork_log_def items_of_def)
qed

lemma fork_honest: "honest web_server web_cfg (NewClient []) fst fork_log" "holds_log web_server fst fork_log fork_peer"
proof -
  have "binaries_fit web_server web_cfg"
    using demo_codec_ok by (auto simp: binaries_fit_def web_server_def web_cfg_def demo_url_def codec_ok_def)
  moreover have "redis_ok (nc_redis (sv_node web_server)) fst" "redis_up (nc_redis (sv_node web_server))"
    "codec_ok (nc_codec (sv_node web_server))"
    using tok_params demo_codec_ok by (simp_all add: web_server_def tok_cfg_def)
  ultimately show "honest web_server web_cfg (NewClient []) fst fork_log"
    using web_base web_net unfolding honest_def
    by (auto simp: fork_log_def web_cfg_def demo_lib_def web_server_def)
  show "holds_log web_server fst fork_log fork_peer"
    using fork_log_ok by (simp add: holds_log_def fork_peer_def tok_state_def web_server_def tok_cfg_def)
qed

lemma fork_spawn_scheduler_demo: "forkScheduler ''p'' fork_spawn_item = Inr ''w''"
  by (simp add: forkScheduler_def DecodeItemToProcess_def fork_spawn_item_def log_item_def TagsToProcess_def
      CheckDuplicateTag_def zero_process_def reserved_defs TagsToBase_def zero_base_def type_defs)

lemma fork_decode: "Decode demo_lib (fork_assign msg n) = Inr (''p'', ''w'', [], IAssignment (fork_asg msg n))"
  by (simp add: Decode_def item_signer_def demo_lib_def fork_assign_def log_item_def GetType_def type_defs fork_asg_def
      DecodeItemToAssignment_def TagsToAssignment_def CheckDuplicateTag_def zero_assignment_def TagsToBase_def zero_base_def)

lemma fork_history: "history demo_lib ''p'' ''w'' fork_log [fork_asg ''p'' ''0'', fork_asg ''m1'' ''1'']"
proof -
  have f: "FormatInt 0 = ''0''" "FormatInt 1 = ''1''"
    by (simp_all add: FormatInt_def show_int_def show_nat.simps digit_char_def) code_simp+
  have "verifyForkItem demo_lib ''p'' 0 ''w'' fork_spawn_item (fork_assign ''p'' ''0'') = Inr (fork_asg ''p'' ''0'')"
    "verifyForkItem demo_lib ''p'' 1 ''w'' info_item (fork_assign ''m1'' ''1'') = Inr (fork_asg ''m1'' ''1'')"
    unfolding verifyForkItem_def fork_decode
    by (simp_all add: f fork_asg_def fork_spawn_item_def info_item_def log_item_def GetType_def type_defs)
  then show ?thesis by (auto simp: history_def fork_lists less_Suc_eq)
qed

lemma fork_handles:
  obtains v1 res out where "HandleMode (node_cfg.truncate fork_cfg) (Vmm_New [] True) fork_spawn_item (fork_asg ''p'' ''0'') ExecModeDryRun (- 1) =
      Some (v1, Spawned res out)" "Vmm_IsExists v1 ''p''"
proof -
  let ?cf = "node_cfg.truncate fork_cfg"
  obtain pr where d: "Decode demo_lib fork_spawn_item = Inr (''p'', ''w'', [], IProcess pr)" "proc_Tags pr = []"
    by (simp add: Decode_def item_signer_def demo_lib_def fork_spawn_item_def log_item_def GetType_def type_defs
        DecodeItemToProcess_def TagsToProcess_def CheckDuplicateTag_def zero_process_def reserved_defs TagsToBase_def zero_base_def)
  have ps: "TagsToParams (proc_Tags pr) = Inr []" by (simp add: d TagsToParams_def CheckDuplicateTag_def)
  have "\<exists>v1 res out. applyProcess ?cf (Vmm_New [] True) ''p'' ''w'' fork_spawn_item pr ExecModeDryRun (- 1) = Some (v1, None, res, out) \<and>
    Vmm_IsExists v1 ''p''"
    by (auto simp: applyProcess_def ps fork_cfg_def tok_cfg_def node_cfg.defs Vmm_Spawn_def Let_def Vmm_IsExists_def Vmm_New_def
        Vmm_RegistryId_def registry_obj_def Vmm_spawn_def spawnToken_def install_instance_def RecoveryUnlock_def
        ModuleFormatToken_def ModuleFormatRegistry_def split: prod.split)
  then obtain v1 res out where s: "applyProcess ?cf (Vmm_New [] True) ''p'' ''w'' fork_spawn_item pr ExecModeDryRun (- 1) = Some (v1, None, res, out)"
    "Vmm_IsExists v1 ''p''" by blast
  have "nc_lib ?cf = demo_lib" by (simp add: fork_cfg_def tok_cfg_def node_cfg.defs)
  with d s that show ?thesis by (simp add: HandleMode_def)
qed

lemma fork_applies:
  "\<exists>v2 eff. HandleMode (node_cfg.truncate fork_cfg) v1 info_item (fork_asg ''m1'' ''1'') ExecModeDryRun (- 1) = Some (v2, Applied eff)"
proof -
  have l: "nc_lib fork_cfg = demo_lib" by (simp add: fork_cfg_def tok_cfg_def)
  have p: "ParseInt ''1'' = Some 1" "ParseInt ''7'' = Some 7"
    by (simp_all add: ParseInt_def big_SetString_def parse_nat_def digit_val_def)
  obtain m where m: "Decode demo_lib info_item = Inr (''p'', ''w'', [], IMessage m)" "msg_Sequence m = []"
    by (simp add: Decode_def item_signer_def demo_lib_def info_item_def log_item_def GetType_def type_defs
        DecodeItemToMessage_def TagsToMessage_def CheckDuplicateTag_def zero_msg_def reserved_defs TagsToBase_def)
  obtain ps where ps: "TagsToParams (msg_Tags m) = Inr ps" using Decode_message_params [OF m(1)] by blast
  show ?thesis
    by (simp add: HandleMode_def l m applyMessage_def fork_asg_def p ps split: prod.split)
qed

theorem fork_replays_history_witness:
  "\<exists>fk' evs. runForkProcess fork_cfg web_cfg fork_node fork_peer ''p'' ''c1'' [NewClient []] ExecModeDryRun 2 = (fk', evs) \<and>
     fk_nonce fk' = 2 \<and> \<not> fk_panic fk'"
proof -
  obtain v1 res out where h1: "HandleMode (node_cfg.truncate fork_cfg) (Vmm_New [] True) fork_spawn_item (fork_asg ''p'' ''0'') ExecModeDryRun (- 1) =
      Some (v1, Spawned res out)" "Vmm_IsExists v1 ''p''" by (rule fork_handles)
  obtain v2 eff where h2: "HandleMode (node_cfg.truncate fork_cfg) v1 info_item (fork_asg ''m1'' ''1'') ExecModeDryRun (- 1) = Some (v2, Applied eff)"
    using fork_applies by blast
  have fail: "Node_Restore fork_cfg fork_node ''c1'' = (fork_node, Inl ErrNotFoundCkp)"
    by (simp add: Node_Restore_def LoadCheckpoint_def fork_cfg_def tok_cfg_def fork_node_def tok_state_def demo_files_def)
  have lib: "nc_lib fork_cfg = demo_lib" by (simp add: fork_cfg_def tok_cfg_def)
  have vm: "ns_vmm fork_node = Vmm_New [] True" by (simp add: fork_node_def tok_state_def)
  have rep: "fork_replay (node_cfg.truncate fork_cfg) ExecModeDryRun (ns_vmm (fst (Node_Restore fork_cfg fork_node ''c1'')))
      (zip (items_of fork_log ''p'') [fork_asg ''p'' ''0'', fork_asg ''m1'' ''1'']) = Some v2"
    by (simp add: fail vm fork_lists h1 h2)
  have id: "item_Id (items_of fork_log ''p'' ! 0) = ''p''" "forkScheduler ''p'' (items_of fork_log ''p'' ! 0) = Inr ''w''"
    using fork_spawn_scheduler_demo by (simp_all add: fork_lists fork_spawn_item_def log_item_def)
  have err: "is_err (snd (Node_Restore fork_cfg fork_node ''c1''))" by (simp add: fail)
  from fork_replays_history [OF fork_honest web_seg(2) id fork_history [folded lib] err rep] show ?thesis
    by (auto simp: numeral_2_eq_2)
qed

theorem fork_authentic_witness:
  "\<exists>fk' evs sch. runForkProcess fork_cfg web_cfg fork_node fork_peer ''p'' ''c1'' [NewClient []] ExecModeDryRun 2 = (fk', evs) \<and>
     (\<forall>k msg item h. FkApplied k msg item h \<in> set evs \<longrightarrow> fork_entry web_cfg demo_lib ''p'' sch k msg item)"
proof -
  obtain fk' evs where r: "runForkProcess fork_cfg web_cfg fork_node fork_peer ''p'' ''c1'' [NewClient []] ExecModeDryRun 2 = (fk', evs)"
    by fastforce
  have lib: "nc_lib fork_cfg = demo_lib" by (simp add: fork_cfg_def tok_cfg_def)
  from fork_authentic [OF r] r show ?thesis unfolding Let_def lib by blast
qed

theorem fork_without_url_panics_witness:
  "\<exists>clients. Fork_clients web_state ''q'' [] = Inr clients \<and> NewClient ''http://b'' \<in> set clients \<and>
     snd (runForkProcess tok_cfg web_cfg web_state web_state ''q'' ''c1'' clients ExecModeDryRun 1) = [FkPanic]"
proof -
  have v: "ns_vmm web_state = web_vmm" by (simp add: web_state_def tok_state_def)
  have "\<not> Vmm_IsExists web_vmm ''q''" by (simp add: Vmm_IsExists_def web_vmm_def tok_vmm_def)
  then have c: "Fork_clients web_state ''q'' [] = Inr [zero_client, NewClient ''http://b'']"
    by (simp add: Fork_clients_def v web_queries(1)) (simp add: node_b_def)
  have u: "\<forall>path. \<not> is_err (request_of web_cfg zero_client ''GET'' path [] [])"
    by (simp add: request_of_def buildURL_def NewRequest_def web_cfg_def demo_url_def)
  from fork_without_url_panics [OF c _ u, of 1 tok_cfg web_state "''c1''" ExecModeDryRun] c show ?thesis by simp
qed

end
