(* ===== verification/Outbox.thy ===== *)
theory Outbox
  imports SdkClient Recovery
begin

text \<open>
  The outbox of a node (node/outbox.go): what its machines send is signed, stored in one Redis list for
  each pair of sender and target, and brought to the node that serves the target by the threads that
  \<open>TrySend\<close> starts. A thread is a machine whose steps interleave with those of other threads and with
  the loops of the node; the steps of one delivery, with its retries and waits, are one step, in
  which the turns of the loops that happen meanwhile are an argument.
\<close>

subsection \<open>State\<close>

record ('s, 'r, 'h, 'n, 'j) ob_cfg =
  oc_node :: "('s, 'r, 'h) node_cfg"
  oc_sdk :: "('n, 'j) sdk_cfg"
  oc_client :: client
  oc_hymxURL :: string
  oc_URL :: string
  oc_GenerateItemBinary :: "bundle_item \<Rightarrow> string + string"

text \<open>The network as the node sees it and the map of the sending locks, by sender and target joined.\<close>

record ('s, 'r, 'h, 'n) ob_state =
  os_node :: "('s, 'r, 'h) node_state"
  os_net :: 'n
  os_lock :: "string \<Rightarrow> bool"

text \<open>What happens in the node while a thread waits: turns of the message and of the process loop, at
  a time. A round is one retry: the length of the task queue the admission sees, the turns during
  the sleep before it and the turns during the wait of two seconds.\<close>

datatype tick = TkMsg int64 | TkProc int64

type_synonym round = "nat \<times> tick list \<times> tick list"

definition TryAssignSleepTime :: "nat list" where
  "TryAssignSleepTime = [0, 500, 1000, 3000, 5000, 10000, 20000, 50000, 80000]"

subsection \<open>Assignment in the own node\<close>

text \<open>A turn and the assignment result it publishes: the item and the error. A spawn that fails is
  published to nobody.\<close>

fun env_turn ::
  "('s, 'r, 'h) node_cfg \<Rightarrow> ('s, 'r, 'h) node_state \<Rightarrow> tick \<Rightarrow>
     ('s, 'r, 'h) node_state \<times> (string \<times> sys_err option) option" where
  "env_turn cf st (TkMsg now) =
     (case msg_turn cf now st of
        (st', None) \<Rightarrow> (st', None)
      | (st', Some (out, _)) \<Rightarrow>
          (st', Some (item_Id (am_Item (hd (ns_mes st))), case out of Inl e \<Rightarrow> Some e | Inr _ \<Rightarrow> None)))"
| "env_turn cf st (TkProc now) =
     (case proc_turn cf now st of
        None \<Rightarrow> (st, None)
      | Some (st', Some (Inr out)) \<Rightarrow>
          (st', Some (item_Id (ap_Item (hd (ns_proc st))), case out of Inl e \<Rightarrow> Some e | Inr _ \<Rightarrow> None))
      | Some (st', _) \<Rightarrow> (st', None))"

text \<open>The results for one item that its handler receives, in order.\<close>

fun env_turns ::
  "('s, 'r, 'h) node_cfg \<Rightarrow> string \<Rightarrow> ('s, 'r, 'h) node_state \<Rightarrow> tick list \<Rightarrow>
     ('s, 'r, 'h) node_state \<times> sys_err option list" where
  "env_turns cf i st [] = (st, [])"
| "env_turns cf i st (t # ts) =
     (case env_turn cf st t of (st1, p) \<Rightarrow>
      case env_turns cf i st1 ts of (st2, rs) \<Rightarrow>
        (st2, (case p of None \<Rightarrow> rs | Some (j, r) \<Rightarrow> if j = i then r # rs else rs)))"

text \<open>The handler writes into a channel of one element under the read lock of the handlers, so that
  results that nobody has read are a queue. The thread reads its head; when it returns, it takes the
  write lock to remove its handler, which never happens if a second result is unread: \<open>None\<close>.\<close>

definition local_return :: "sys_err option list \<Rightarrow> 'a \<Rightarrow> 'a option" where
  "local_return unread x = (if length unread \<le> 1 then Some x else None)"

definition timeout_err :: sys_err where "timeout_err = OtherErr ''timeout waiting for assignment result''"

fun local_loop ::
  "('s, 'r, 'h) node_cfg \<Rightarrow> bundle_item \<Rightarrow> nat list \<Rightarrow> round list \<Rightarrow> ('s, 'r, 'h) node_state \<Rightarrow>
     sys_err option list \<Rightarrow> sys_err option \<Rightarrow> ('s, 'r, 'h) node_state \<times> sys_err option option" where
  "local_loop cf item [] rounds st unread err = (st, local_return unread err)"
| "local_loop cf item (s # sleeps) rounds st unread err =
     (case (case rounds of [] \<Rightarrow> (0, [], []) | r # _ \<Rightarrow> r) of (pending, slept, waited) \<Rightarrow>
      case env_turns cf (item_Id item) st (if s = 0 then [] else slept) of (st1, rs1) \<Rightarrow>
      case Node_Handle cf pending st1 item of
        (st2, Some e) \<Rightarrow> local_loop cf item sleeps (tl rounds) st2 (unread @ rs1) (Some e)
      | (st2, None) \<Rightarrow>
          (case env_turns cf (item_Id item) st2 waited of (st3, rs2) \<Rightarrow>
           case unread @ rs1 @ rs2 of
             [] \<Rightarrow> local_loop cf item sleeps (tl rounds) st3 [] (Some timeout_err)
           | None # rest \<Rightarrow> (st3, local_return rest None)
           | Some e # rest \<Rightarrow>
               if e = ErrDuplicateItem then (st3, local_return rest (Some e))
               else local_loop cf item sleeps (tl rounds) st3 rest (Some e)))"

definition tryGetLocalAssign ::
  "('s, 'r, 'h) node_cfg \<Rightarrow> round list \<Rightarrow> ('s, 'r, 'h) node_state \<Rightarrow> bundle_item \<Rightarrow>
     ('s, 'r, 'h) node_state \<times> sys_err option option" where
  "tryGetLocalAssign cf rounds st item = local_loop cf item TryAssignSleepTime rounds st [] None"

subsection \<open>Assignment in another node\<close>

fun assign_loop ::
  "('n, 'j) sdk_cfg \<Rightarrow> extlib \<Rightarrow> client \<Rightarrow> string \<Rightarrow> string \<Rightarrow> string \<Rightarrow> nat list \<Rightarrow> 'n \<Rightarrow> sys_err option \<Rightarrow>
     'n \<times> (sys_err option + bundle_item)" where
  "assign_loop sc lib cli msgId itemBin accId [] n err = (n, Inl err)"
| "assign_loop sc lib cli msgId itemBin accId (s # sleeps) n err =
     (case Client_Send sc cli n itemBin of (n1, _) \<Rightarrow>
      case GetAssignBinByMessage sc cli n1 msgId of
        (n2, Inl e) \<Rightarrow> assign_loop sc lib cli msgId itemBin accId sleeps n2 (Some e)
      | (n2, Inr assignItem) \<Rightarrow>
          (case Decode lib assignItem of
             Inl e \<Rightarrow> assign_loop sc lib cli msgId itemBin accId sleeps n2 (Some (CodecErr e))
           | Inr (_, accid, _, _) \<Rightarrow>
               if accid \<noteq> accId
               then assign_loop sc lib cli msgId itemBin accId sleeps n2 (Some ErrUnauthorizedNode)
               else (n2, Inr assignItem)))"

text \<open>Without nodes it returns at once with a nil error, and only the first node is asked.\<close>

definition tryGetAssign ::
  "('s, 'r, 'h, 'n, 'j) ob_cfg \<Rightarrow> 'n \<Rightarrow> string \<Rightarrow> node list \<Rightarrow> string \<Rightarrow> 'n \<times> sys_err option" where
  "tryGetAssign oc n msgId nodes itemBin =
     (case nodes of
        [] \<Rightarrow> (n, None)
      | nd # _ \<Rightarrow>
          (case assign_loop (oc_sdk oc) (nc_lib (oc_node oc))
               (if node_URL nd \<noteq> oc_hymxURL oc then NewClient (node_URL nd) else oc_client oc)
               msgId itemBin (node_AccId nd) TryAssignSleepTime n None of
             (n', Inl err) \<Rightarrow> (n', err)
           | (n', Inr _) \<Rightarrow> (n', None)))"

subsection \<open>One delivery\<close>

definition isSelf :: "('s, 'r, 'h, 'n, 'j) ob_cfg \<Rightarrow> ('s, 'r, 'h) node_state \<Rightarrow> node \<Rightarrow> bool" where
  "isSelf oc st nd \<longleftrightarrow> ns_AccId st = node_AccId nd \<and> oc_URL oc = node_URL nd"

definition outbox_nodes ::
  "('s, 'r, 'h) node_state \<Rightarrow> string \<Rightarrow> bundle_item \<Rightarrow> node list" where
  "outbox_nodes st target item =
     (if GetType item = TypeMessage then Vmm_GetNodesByProcess (ns_vmm st) target
      else if GetType item = TypeProcess
      then (case Vmm_GetNode (ns_vmm st) (GetTagsValue ''Scheduler'' (item_Tags item)) of None \<Rightarrow> [] | Some nd \<Rightarrow> [nd])
      else [])"

text \<open>The body of the loop of \<open>trySend\<close> for an item: whether it was delivered, or \<open>None\<close> when the thread
  hangs. An item without a node, of another type or that cannot be encoded is not delivered.\<close>

definition deliver ::
  "('s, 'r, 'h, 'n, 'j) ob_cfg \<Rightarrow> round list \<Rightarrow> ('s, 'r, 'h, 'n) ob_state \<Rightarrow> string \<Rightarrow> bundle_item \<Rightarrow>
     ('s, 'r, 'h, 'n) ob_state \<times> bool option" where
  "deliver oc rounds st target item =
     (case oc_GenerateItemBinary oc item of
        Inl _ \<Rightarrow> (st, Some False)
      | Inr itemBin \<Rightarrow>
     (case outbox_nodes (os_node st) target item of
        [] \<Rightarrow> (st, Some False)
      | nd # nds \<Rightarrow>
          if isSelf oc (os_node st) nd
          then (case tryGetLocalAssign (oc_node oc) rounds (Node_Info (os_node st)) item of
              (node, r) \<Rightarrow> (st\<lparr>os_node := node\<rparr>, map_option (\<lambda>e. e = None) r))
          else (case tryGetAssign oc (os_net st) (item_Id item) (nd # nds) itemBin of
              (net, e) \<Rightarrow> (st\<lparr>os_node := Node_Info (os_node st), os_net := net\<rparr>, Some (e = None)))))"

subsection \<open>Threads\<close>

datatype ts_pc = TsCheck | TsLock | TsPeek | TsWork bundle_item | TsCommit | TsUnlock | TsDone | TsHang

record thread =
  th_pid :: string
  th_target :: string
  th_pc :: ts_pc

datatype ob_event =
    EvPushed string string bundle_item
  | EvDelivered string string bundle_item

definition set_db :: "('s, 'r, 'h, 'n) ob_state \<Rightarrow> 'r \<Rightarrow> ('s, 'r, 'h, 'n) ob_state" where
  "set_db st db = st\<lparr>os_node := (os_node st)\<lparr>ns_db := db\<rparr>\<rparr>"

text \<open>The steps of \<open>trySend\<close> of a sender and a target. The sending lock is read and taken in two steps.\<close>

fun ts_step ::
  "('s, 'r, 'h, 'n, 'j) ob_cfg \<Rightarrow> round list \<Rightarrow> ('s, 'r, 'h, 'n) ob_state \<Rightarrow> string \<Rightarrow> string \<Rightarrow> ts_pc \<Rightarrow>
     ('s, 'r, 'h, 'n) ob_state \<times> ts_pc \<times> ob_event list" where
  "ts_step oc rs st pid target TsCheck = (st, (if os_lock st (pid @ target) then TsDone else TsLock), [])"
| "ts_step oc rs st pid target TsLock = (st\<lparr>os_lock := (os_lock st)(pid @ target := True)\<rparr>, TsPeek, [])"
| "ts_step oc rs st pid target TsPeek =
     (case PeekOutbox (nc_redis (oc_node oc)) (nc_codec (oc_node oc)) (ns_db (os_node st)) pid target of
        (db, r) \<Rightarrow> (set_db st db, (case r of Inr (Some item) \<Rightarrow> TsWork item | _ \<Rightarrow> TsUnlock), []))"
| "ts_step oc rs st pid target (TsWork item) =
     (case deliver oc rs st target item of
        (st', None) \<Rightarrow> (st', TsHang, [])
      | (st', Some False) \<Rightarrow> (st', TsUnlock, [])
      | (st', Some True) \<Rightarrow> (st', TsCommit, [EvDelivered pid target item]))"
| "ts_step oc rs st pid target TsCommit =
     (case CommitOutbox (nc_redis (oc_node oc)) (ns_db (os_node st)) pid target of
        (db, e) \<Rightarrow> (set_db st db, (if e = None then TsPeek else TsUnlock), []))"
| "ts_step oc rs st pid target TsUnlock = (st\<lparr>os_lock := (os_lock st)(pid @ target := False)\<rparr>, TsDone, [])"
| "ts_step oc rs st pid target TsDone = (st, TsDone, [])"
| "ts_step oc rs st pid target TsHang = (st, TsHang, [])"

text \<open>A thread that runs alone, with the rounds of each of its steps.\<close>

fun trySend ::
  "('s, 'r, 'h, 'n, 'j) ob_cfg \<Rightarrow> string \<Rightarrow> string \<Rightarrow> round list list \<Rightarrow> ('s, 'r, 'h, 'n) ob_state \<times> ts_pc \<Rightarrow>
     (('s, 'r, 'h, 'n) ob_state \<times> ts_pc) \<times> ob_event list" where
  "trySend oc pid target [] (st, pc) = ((st, pc), [])"
| "trySend oc pid target (rs # rss) (st, pc) =
     (case ts_step oc rs st pid target pc of (st1, pc1, ev) \<Rightarrow>
      case trySend oc pid target rss (st1, pc1) of (r, evs) \<Rightarrow> (r, ev @ evs))"

subsection \<open>The system\<close>

text \<open>A message of a machine: signed, stored and tried (\<open>outbox\<close>). The thread it starts is returned.\<close>

definition Node_outbox ::
  "('s, 'r, 'h, 'n, 'j) ob_cfg \<Rightarrow> int64 \<Rightarrow> ('s, 'r, 'h, 'n) ob_state \<Rightarrow> outbox_msg \<Rightarrow>
     ('s, 'r, 'h, 'n) ob_state \<times> thread list \<times> ob_event list" where
  "Node_outbox oc now st ob =
     (case IDCheck (nc_lib (oc_node oc)) (ob_To ob) of
        Inl _ \<Rightarrow> (st, [], [])
      | Inr (accType, to) \<Rightarrow>
     (case nc_sign (oc_node oc) (ob_Data ob) (if accType \<noteq> AccountTypeAR then [] else to)
          (MergeTags [Tag ''SDK-Timestamp'' (FormatInt now)] (ob_Tags ob)) of
        None \<Rightarrow> (st, [], [])
      | Some item \<Rightarrow>
          (let target = (if ob_Type ob = TypeProcess then item_Id item else to) in
           case PushOutbox (nc_redis (oc_node oc)) (nc_codec (oc_node oc)) (ns_db (os_node st)) (ob_From ob) target item of
             (db, Some _) \<Rightarrow> (set_db st db, [], [])
           | (db, None) \<Rightarrow>
               (set_db st db, [\<lparr>th_pid = ob_From ob, th_target = target, th_pc = TsCheck\<rparr>],
                [EvPushed (ob_From ob) target item]))))"

datatype ob_act =
    ActOutbox int64 outbox_msg
  | ActTrySend string string
  | ActThread nat "round list"
  | ActTick tick

type_synonym ('s, 'r, 'h, 'n) ob_system = "('s, 'r, 'h, 'n) ob_state \<times> thread list"

fun ob_step ::
  "('s, 'r, 'h, 'n, 'j) ob_cfg \<Rightarrow> ('s, 'r, 'h, 'n) ob_system \<Rightarrow> ob_act \<Rightarrow>
     ('s, 'r, 'h, 'n) ob_system \<times> ob_event list" where
  "ob_step oc (st, ths) (ActOutbox now ob) =
     (case Node_outbox oc now st ob of (st', new, evs) \<Rightarrow> ((st', ths @ new), evs))"
| "ob_step oc (st, ths) (ActTrySend pid target) =
     ((st, ths @ [\<lparr>th_pid = pid, th_target = target, th_pc = TsCheck\<rparr>]), [])"
| "ob_step oc (st, ths) (ActThread i rs) =
     (if i < length ths
      then (case ts_step oc rs st (th_pid (ths ! i)) (th_target (ths ! i)) (th_pc (ths ! i)) of
          (st', pc, evs) \<Rightarrow> ((st', ths[i := (ths ! i)\<lparr>th_pc := pc\<rparr>]), evs))
      else ((st, ths), []))"
| "ob_step oc (st, ths) (ActTick t) = ((st\<lparr>os_node := fst (env_turn (oc_node oc) (os_node st) t)\<rparr>, ths), [])"

fun ob_run ::
  "('s, 'r, 'h, 'n, 'j) ob_cfg \<Rightarrow> ('s, 'r, 'h, 'n) ob_system \<Rightarrow> ob_act list \<Rightarrow>
     ('s, 'r, 'h, 'n) ob_system \<times> ob_event list" where
  "ob_run oc s [] = (s, [])"
| "ob_run oc s (a # as) =
     (case ob_step oc s a of (s1, ev) \<Rightarrow> case ob_run oc s1 as of (s2, evs) \<Rightarrow> (s2, ev @ evs))"

end
