(* ===== verification/OutboxProps.thy ===== *)
theory OutboxProps
  imports Outbox NodeProps
begin

text \<open>
  What the outbox guarantees and what it does not: in order and at least once when a check of the
  sending lock never falls between the check and the taking of another thread, a lost message when
  it does, and a queue that is blocked by an item its own node has assigned before.
\<close>

subsection \<open>Nothing but the outbox touches an outbox list\<close>

definition ob_list :: "('r \<Rightarrow> keyspace) \<Rightarrow> 'r \<Rightarrow> string \<Rightarrow> string list" where
  "ob_list view db k = ks_list (view db) (RdbOutboxPrefix @ k)"

lemma outbox_key_neq [simp]:
  "RdbOutboxPrefix @ k \<noteq> RdbProcessMsgsPrefix @ p" "RdbOutboxPrefix @ k \<noteq> RdbProcessAssignmentPrefix @ p"
  "RdbOutboxPrefix @ k \<noteq> RdbProcessNoncePrefix @ p" "RdbOutboxPrefix @ k \<noteq> RdbMsgIndex"
  by (simp_all add: rdb_keys)

lemma commit_prefix_keeps: "ks_list (ks_cmds ks (take n (commit_cmds cd pid nonce x y))) (RdbOutboxPrefix @ k) =
    ks_list ks (RdbOutboxPrefix @ k)"
  by (auto simp: commit_cmds_def take_Cons split: nat.splits)

lemma reads_view:
  assumes ok: "redis_ok rd view"
  shows "view (fst (list_item rd cd s k n)) = view s" "view (fst (GetMessage rd cd s i)) = view s"
    "view (fst (GetNonce rd s p)) = view s"
proof -
  note D = redis_ok_D [OF ok]
  show li: "view (fst (list_item rd cd s k n)) = view s" for s k n
    by (cases "rd_lindex rd s k n"; cases "snd (rd_lindex rd s k n)") (auto simp: list_item_def dest: D(2))
  show "view (fst (GetMessage rd cd s i)) = view s"
    using D(3) [of s RdbMsgIndex i] li
    by (auto simp: GetMessage_def GetMessageByNonce_def split: prod.splits reply.splits list.splits option.splits)
  have ex: "view (fst (IsExist rd s p)) = view s" for s
    by (auto simp: IsExist_def dest: D(1) split: prod.splits reply.splits)
  show "view (fst (GetNonce rd s p)) = view s"
    using ex [of s] by (auto simp: GetNonce_def dest: D(1) split: prod.splits sum.splits reply.splits)
qed

lemma assignment_keeps:
  assumes ok: "redis_ok rd view" and st: "assignment_step rd cd sign now s pid x = (s', out)"
  shows "ob_list view s' k = ob_list view s k"
proof -
  obtain s1 m where g: "GetMessage rd cd s (item_Id x) = (s1, m)" by fastforce
  obtain s2 n where gn: "GetNonce rd s1 pid = (s2, n)" by fastforce
  have v: "view s1 = view s" "view s2 = view s" using reads_view [OF ok] g gn by (metis fst_conv)+
  have "ob_list view s3 k = ob_list view s2 k"
    if ex: "rd_exec rd s2 (commit_cmds cd pid nonce x y) = (s3, e)" for nonce y s3 e
  proof (cases e)
    case None
    then show ?thesis using redis_ok_D(7) [OF ok, of s2] ex commit_prefix_keeps [of _ 4]
      by (simp add: ob_list_def commit_cmds_def)
  next
    case (Some err)
    then obtain n where "view s3 = ks_cmds (view s2) (take n (commit_cmds cd pid nonce x y))"
      using redis_ok_D(8) [OF ok, of s2] ex by blast
    then show ?thesis by (simp add: ob_list_def commit_prefix_keeps)
  qed
  from this [OF prod.collapse [symmetric]]
  have "ob_list view (fst (rd_exec rd s2 (commit_cmds cd pid nonce x y))) k = ob_list view s2 k" for nonce y .
  then show ?thesis
    using st g gn v
    by (auto simp: assignment_step_def Let_def Commit_def exec_err_def ob_list_def
        split: if_splits sum.splits prod.splits option.splits)
qed

lemma env_turn_keeps:
  assumes ok: "redis_ok (nc_redis cf) view"
  shows "ob_list view (ns_db (fst (env_turn cf st t))) k = ob_list view (ns_db st) k"
proof (cases t)
  case (TkMsg now)
  then show ?thesis
    by (auto simp: msg_turn_def split: list.splits prod.splits sum.splits dest: assignment_keeps [OF ok, where k = k])
next
  case (TkProc now)
  then show ?thesis
    by (auto simp: proc_turn_def split: list.splits prod.splits sum.splits option.splits
        dest: assignment_keeps [OF ok, where k = k])
qed

lemma env_turns_keeps:
  assumes ok: "redis_ok (nc_redis cf) view"
  shows "ob_list view (ns_db (fst (env_turns cf i st ts))) k = ob_list view (ns_db st) k"
proof (induction ts arbitrary: st)
  case (Cons t ts)
  obtain st1 p where t: "env_turn cf st t = (st1, p)" by fastforce
  obtain st2 rs where ts: "env_turns cf i st1 ts = (st2, rs)" by fastforce
  from env_turn_keeps [OF ok, of st t k] Cons.IH [of st1] show ?case by (simp add: t ts)
qed simp

lemma Node_Info_db [simp]: "ns_db (Node_Info st) = ns_db st"
  by (simp add: Node_Info_def)

lemma Node_Handle_view:
  assumes ok: "redis_ok (nc_redis cf) view"
  shows "view (ns_db (fst (Node_Handle cf pending st item))) = view (ns_db st)"
proof -
  have sm: "view (ns_db (fst (spawn_message cf st s p))) = view (ns_db st)" for st s p
  proof (cases "s = ns_AccId st")
    case True
    obtain db r where g: "GetMessage (nc_redis cf) (nc_codec cf) (ns_db st) p = (db, r)" by fastforce
    with reads_view(2) [OF ok, of "nc_codec cf" "ns_db st" p] have "view db = view (ns_db st)" by simp
    with True g show ?thesis by (auto simp: spawn_message_def split: sum.split option.split)
  qed (simp add: spawn_message_def split: option.split)
  have vr: "view (ns_db (fst (verifyRegistry cf st item s f))) = view (ns_db st)" for st s f
  proof -
    obtain st1 r where "spawn_message cf (Node_Info st) s f = (st1, r)" by fastforce
    with sm [of "Node_Info st" s f] show ?thesis
      by (cases r) (auto simp: verifyRegistry_def Let_def)
  qed
  have vf: "view (ns_db (fst (verifyFromProcess cf st item p s f))) = view (ns_db st)" for st p s f
    using vr by (auto simp: verifyFromProcess_def)
  have hm: "ns_db (fst (handleMessage cf pending st p a item m)) = ns_db st" for st p a m
    using handleMessage_ok [of cf pending st p a item m] by (cases "handleMessage cf pending st p a item m") (auto split: if_splits)
  have hp: "ns_db (fst (handleProcess cf st p a item m)) = ns_db st" for st p a m
    by (auto simp: handleProcess_def)
  show ?thesis
  proof (cases "Decode (nc_lib cf) item")
    case (Inr d)
    obtain pid signer f inst where d: "d = (pid, signer, f, inst)" by (metis prod_cases4)
    obtain h e where h: "run_handlers (nc_handlers cf) (ns_handler st)
        \<lparr>im_Pid = pid, im_Signer = signer, im_FromProcess = f, im_Instance = inst\<rparr> = (h, e)" by fastforce
    obtain st1 v where v: "verifyFromProcess cf (st\<lparr>ns_handler := h\<rparr>) item pid signer f = (st1, v)" by fastforce
    with vf [of "st\<lparr>ns_handler := h\<rparr>" pid signer f] have "view (ns_db st1) = view (ns_db st)" by simp
    with Inr d h v hm hp show ?thesis
      by (cases e; cases v; cases inst) (simp_all add: Node_Handle_def)
  qed (simp add: Node_Handle_def)
qed

lemma local_loop_keeps:
  assumes ok: "redis_ok (nc_redis cf) view"
  shows "ob_list view (ns_db (fst (local_loop cf item sleeps rounds st unread err))) k = ob_list view (ns_db st) k"
proof (induction sleeps arbitrary: rounds st unread err)
  case (Cons s sleeps)
  obtain pending slept waited where r: "(case rounds of [] \<Rightarrow> (0, [], []) | r # _ \<Rightarrow> r) = (pending, slept, waited)"
    by (metis prod_cases3)
  obtain st1 rs1 where t1: "env_turns cf (item_Id item) st (if s = 0 then [] else slept) = (st1, rs1)" by fastforce
  obtain st2 e where h: "Node_Handle cf pending st1 item = (st2, e)" by fastforce
  obtain st3 rs2 where t2: "env_turns cf (item_Id item) st2 waited = (st3, rs2)" by fastforce
  have q: "ob_list view (ns_db st1) k = ob_list view (ns_db st) k"
    "ob_list view (ns_db st2) k = ob_list view (ns_db st) k" "ob_list view (ns_db st3) k = ob_list view (ns_db st) k"
    using env_turns_keeps [OF ok, of "item_Id item" st "if s = 0 then [] else slept" k]
      Node_Handle_view [OF ok, of pending st1 item] env_turns_keeps [OF ok, of "item_Id item" st2 waited k] t1 h t2
    by (simp_all add: ob_list_def)
  show ?case
  proof (cases e)
    case None
    with r t1 h t2 q Cons.IH show ?thesis
      by (cases "unread @ rs1 @ rs2") (auto split: option.split)
  qed (use r t1 h q Cons.IH in simp)
qed simp

lemma deliver_keeps:
  assumes ok: "redis_ok (nc_redis (oc_node oc)) view"
  shows "ob_list view (ns_db (os_node (fst (deliver oc rs st target item)))) k = ob_list view (ns_db (os_node st)) k"
    "os_lock (fst (deliver oc rs st target item)) = os_lock st"
proof -
  show "ob_list view (ns_db (os_node (fst (deliver oc rs st target item)))) k = ob_list view (ns_db (os_node st)) k"
    using local_loop_keeps [OF ok, of item TryAssignSleepTime rs "Node_Info (os_node st)" "[]" None k]
    by (auto simp: deliver_def tryGetLocalAssign_def split: sum.splits list.splits prod.splits)
  show "os_lock (fst (deliver oc rs st target item)) = os_lock st"
    by (auto simp: deliver_def split: sum.splits list.splits prod.splits)
qed

subsection \<open>In order and at least once\<close>

fun pushed :: "string \<Rightarrow> string \<Rightarrow> ob_event list \<Rightarrow> bundle_item list" where
  "pushed p t [] = []"
| "pushed p t (EvPushed p' t' x # es) = (if p' = p \<and> t' = t then [x] else []) @ pushed p t es"
| "pushed p t (EvDelivered _ _ _ # es) = pushed p t es"

lemma pushed_append [simp]: "pushed p t (es @ fs) = pushed p t es @ pushed p t fs"
  by (induction p t es rule: pushed.induct) auto

text \<open>A check of the lock that falls between the check and the taking of the lock by another thread
  of the same lock is the race; the lock of a thread is named by sender and target joined.\<close>

definition lock_key :: "thread \<Rightarrow> string" where
  "lock_key th = th_pid th @ th_target th"

fun races :: "string \<Rightarrow> thread list \<Rightarrow> ob_act \<Rightarrow> bool" where
  "races l ths (ActThread i rs) \<longleftrightarrow>
     i < length ths \<and> th_pc (ths ! i) = TsCheck \<and> lock_key (ths ! i) = l \<and>
     (\<exists>th \<in> set ths. lock_key th = l \<and> th_pc th = TsLock)"
| "races l ths _ \<longleftrightarrow> False"

fun race_free :: "('s, 'r, 'h, 'n, 'j) ob_cfg \<Rightarrow> string \<Rightarrow> ('s, 'r, 'h, 'n) ob_system \<Rightarrow> ob_act list \<Rightarrow> bool" where
  "race_free oc l s [] \<longleftrightarrow> True"
| "race_free oc l s (a # as) \<longleftrightarrow> \<not> races l (snd s) a \<and> race_free oc l (fst (ob_step oc s a)) as"

text \<open>Where a thread of the queue stands, given what the queue holds.\<close>

fun stage :: "string \<Rightarrow> string \<Rightarrow> bundle_item list \<Rightarrow> ob_event list \<Rightarrow> ts_pc \<Rightarrow> bool" where
  "stage p t rest evs (TsWork x) \<longleftrightarrow> (\<exists>r. rest = x # r)"
| "stage p t rest evs TsCommit \<longleftrightarrow> (\<exists>x r. rest = x # r \<and> EvDelivered p t x \<in> set evs)"
| "stage p t rest evs _ \<longleftrightarrow> True"

definition engaged :: "string \<Rightarrow> thread \<Rightarrow> bool" where
  "engaged l th \<longleftrightarrow> lock_key th = l \<and> th_pc th \<notin> {TsCheck, TsDone}"

definition queue_inv where
  "queue_inv view cd xs p t evs st ths \<longleftrightarrow>
     (\<exists>sent rest. xs @ pushed p t evs = sent @ rest \<and>
        ob_list view (ns_db (os_node st)) (p @ '':'' @ t) = map (enc_item cd) rest \<and>
        (\<forall>x \<in> set sent. EvDelivered p t x \<in> set evs) \<and>
        (\<forall>th \<in> set ths. th_pid th = p \<longrightarrow> th_target th = t \<longrightarrow> stage p t rest evs (th_pc th)))"

definition lock_inv where
  "lock_inv l st ths \<longleftrightarrow>
     (\<forall>i < length ths. \<forall>j < length ths. engaged l (ths ! i) \<longrightarrow> engaged l (ths ! j) \<longrightarrow> i = j) \<and>
     (\<forall>th \<in> set ths. engaged l th \<longrightarrow> th_pc th \<noteq> TsLock \<longrightarrow> os_lock st l)"

lemma queue_invI:
  assumes "xs @ pushed p t evs = sent @ rest"
    and "ob_list view (ns_db (os_node st)) (p @ '':'' @ t) = map (enc_item cd) rest"
    and "\<And>x. x \<in> set sent \<Longrightarrow> EvDelivered p t x \<in> set evs"
    and "\<And>th. th \<in> set ths \<Longrightarrow> th_pid th = p \<Longrightarrow> th_target th = t \<Longrightarrow> stage p t rest evs (th_pc th)"
  shows "queue_inv view cd xs p t evs st ths"
  unfolding queue_inv_def using assms by blast

lemma stage_mono: "stage p t rest evs pc \<Longrightarrow> stage p t (rest @ new) (evs @ ev) pc"
  by (cases pc) auto

lemma first_colon:
  assumes "u @ CHR '':'' # v = p @ CHR '':'' # t" "CHR '':'' \<notin> set u" "CHR '':'' \<notin> set p"
  shows "u = p \<and> v = t"
proof -
  have "takeWhile ((\<noteq>) (CHR '':'')) (q @ CHR '':'' # r) = q" if "CHR '':'' \<notin> set q" for q r
    using that by (subst takeWhile_append2) auto
  with assms have "u = p" by metis
  with assms(1) show ?thesis by simp
qed

lemma key_inj:
  assumes "CHR '':'' \<notin> set p" "CHR '':'' \<notin> set t" "p' @ '':'' @ t' = p @ '':'' @ t"
  shows "p' = p \<and> t' = t"
proof (cases "CHR '':'' \<in> set p'")
  case True
  then obtain u v where p': "p' = u @ CHR '':'' # v" "CHR '':'' \<notin> set u" by (meson split_list_first)
  with assms(3) have "u @ CHR '':'' # (v @ CHR '':'' # t') = p @ CHR '':'' # t" by simp
  from first_colon [OF this p'(2) assms(1)] have "t = v @ CHR '':'' # t'" by simp
  with assms(2) show ?thesis by simp
next
  case False
  with first_colon [of p' t' p t] assms show ?thesis by simp
qed

text \<open>A thread whose step leaves the queue alone, or that only reports a delivery.\<close>

lemma queue_inv_step:
  assumes "queue_inv view cd xs p t evs st ths" "i < length ths"
    and "ob_list view (ns_db (os_node st')) (p @ '':'' @ t) = ob_list view (ns_db (os_node st)) (p @ '':'' @ t)"
    and "pushed p t ev = []"
    and "\<And>rest. th_pid (ths ! i) = p \<Longrightarrow> th_target (ths ! i) = t \<Longrightarrow>
      ob_list view (ns_db (os_node st)) (p @ '':'' @ t) = map (enc_item cd) rest \<Longrightarrow>
      stage p t rest evs (th_pc (ths ! i)) \<Longrightarrow> stage p t rest (evs @ ev) pc"
  shows "queue_inv view cd xs p t (evs @ ev) st' (ths[i := (ths ! i)\<lparr>th_pc := pc\<rparr>])"
proof -
  obtain sent rest where q: "xs @ pushed p t evs = sent @ rest"
    "ob_list view (ns_db (os_node st)) (p @ '':'' @ t) = map (enc_item cd) rest"
    "\<forall>x \<in> set sent. EvDelivered p t x \<in> set evs"
    "\<forall>th \<in> set ths. th_pid th = p \<longrightarrow> th_target th = t \<longrightarrow> stage p t rest evs (th_pc th)"
    using assms(1) unfolding queue_inv_def by blast
  have "stage p t rest (evs @ ev) (th_pc th)"
    if "th \<in> set (ths[i := (ths ! i)\<lparr>th_pc := pc\<rparr>])" "th_pid th = p" "th_target th = t" for th
  proof (cases "th \<in> set ths")
    case True
    with q(4) that stage_mono [of p t rest evs "th_pc th" "[]"] show ?thesis by simp
  next
    case False
    with that(1) have th: "th = (ths ! i)\<lparr>th_pc := pc\<rparr>" using set_update_subset_insert by fastforce
    with that have "stage p t rest evs (th_pc (ths ! i))" using q(4) assms(2) nth_mem by auto
    with assms(5) [OF _ _ q(2)] that th show ?thesis by simp
  qed
  with q assms(3,4) show ?thesis by (intro queue_invI [of _ _ _ _ sent rest]) auto
qed

lemma lock_inv_step:
  assumes "lock_inv l st ths" "i < length ths" "th_pid th' = th_pid (ths ! i)" "th_target th' = th_target (ths ! i)"
    and "engaged l th' \<Longrightarrow> engaged l (ths ! i) \<or> (\<forall>th \<in> set ths. \<not> engaged l th)"
    and "\<And>th. th \<in> set ths \<Longrightarrow> engaged l th \<Longrightarrow> th_pc th \<noteq> TsLock \<Longrightarrow> os_lock st l \<Longrightarrow>
      os_lock st' l \<or> th = ths ! i \<and> engaged l (ths ! i) \<and> \<not> engaged l th'"
    and "engaged l th' \<Longrightarrow> th_pc th' \<noteq> TsLock \<Longrightarrow> os_lock st' l"
  shows "lock_inv l st' (ths[i := th'])"
proof -
  have uniq: "\<And>i j. i < length ths \<Longrightarrow> j < length ths \<Longrightarrow> engaged l (ths ! i) \<Longrightarrow> engaged l (ths ! j) \<Longrightarrow> i = j"
    and held: "\<And>th. th \<in> set ths \<Longrightarrow> engaged l th \<Longrightarrow> th_pc th \<noteq> TsLock \<Longrightarrow> os_lock st l"
    using assms(1) unfolding lock_inv_def by blast+
  have "a = b" if ab: "a < length ths" "b < length ths" "engaged l (ths[i := th'] ! a)" "engaged l (ths[i := th'] ! b)" for a b
    using ab assms(2,5) uniq nth_mem by (cases "a = i"; cases "b = i") (fastforce simp: nth_list_update)+
  moreover have "os_lock st' l" if th: "th \<in> set (ths[i := th'])" "engaged l th" "th_pc th \<noteq> TsLock" for th
  proof -
    obtain a where a: "a < length ths" "th = ths[i := th'] ! a" using th(1) by (auto simp: in_set_conv_nth)
    show ?thesis
    proof (cases "a = i")
      case True
      with a th assms(2,7) show ?thesis by simp
    next
      case False
      with a have m: "th = ths ! a" "th \<in> set ths" by simp_all
      from assms(6) [OF m(2) th(2,3) held [OF m(2) th(2,3)]] show ?thesis
      proof
        assume "th = ths ! i \<and> engaged l (ths ! i) \<and> \<not> engaged l th'"
        with m(1) th(2) uniq [OF a(1) assms(2)] False show ?thesis by simp
      qed
    qed
  qed
  ultimately show ?thesis unfolding lock_inv_def by simp
qed

lemma Peek_list:
  assumes ok: "redis_ok rd view" "redis_up rd" "codec_ok cd"
  shows "view (fst (PeekOutbox rd cd db p t)) = view db"
    "ob_list view db (p @ '':'' @ t) = map (enc_item cd) rest \<Longrightarrow>
       snd (PeekOutbox rd cd db p t) = Inr (case rest of [] \<Rightarrow> None | x # _ \<Rightarrow> Some x)"
proof -
  show "view (fst (PeekOutbox rd cd db p t)) = view db"
    using reads_view(1) [OF ok(1)] by (simp add: PeekOutbox_def)
  assume "ob_list view db (p @ '':'' @ t) = map (enc_item cd) rest"
  then have "ks_list (view db) (outbox_key p t) = map (enc_item cd) rest" by (simp add: ob_list_def outbox_key_def)
  from list_item_log(2) [OF ok this, of 0] show "snd (PeekOutbox rd cd db p t) = Inr (case rest of [] \<Rightarrow> None | x # _ \<Rightarrow> Some x)"
    by (cases rest) (simp_all add: PeekOutbox_def)
qed

lemma Commit_list:
  assumes ok: "redis_ok rd view" and c: "CommitOutbox rd db p t = (db', e)"
  shows "k \<noteq> p @ '':'' @ t \<Longrightarrow> ob_list view db' k = ob_list view db k"
    "ob_list view db' (p @ '':'' @ t) \<in> {ob_list view db (p @ '':'' @ t), tl (ob_list view db (p @ '':'' @ t))}"
proof -
  obtain r where r: "rd_lpop rd db (outbox_key p t) = (db', r)"
    using c by (cases "rd_lpop rd db (outbox_key p t)"; cases "snd (rd_lpop rd db (outbox_key p t))") (auto simp: CommitOutbox_def)
  have "view db' \<in> {view db, ks_cmd (view db) (CLPop (outbox_key p t))}"
  proof (cases r)
    case (Reply v)
    with redis_ok_D(4) [OF ok, of db "outbox_key p t" db' v] r show ?thesis by simp
  next
    case NilReply
    with redis_ok_D(5) [OF ok, of db "outbox_key p t" db'] r show ?thesis by simp
  next
    case (RedisErr x)
    with redis_ok_D(6) [OF ok, of db "outbox_key p t" db' x] r show ?thesis by simp
  qed
  then consider "view db' = view db" | "view db' = ks_cmd (view db) (CLPop (outbox_key p t))" by blast
  then show "k \<noteq> p @ '':'' @ t \<Longrightarrow> ob_list view db' k = ob_list view db k"
    "ob_list view db' (p @ '':'' @ t) \<in> {ob_list view db (p @ '':'' @ t), tl (ob_list view db (p @ '':'' @ t))}"
    by (cases; simp add: ob_list_def outbox_key_def)+
qed

lemma Push_list:
  assumes ok: "redis_ok rd view" "redis_up rd" and c: "PushOutbox rd cd db p t x = (db', e)"
  shows "e = None" "k \<noteq> p @ '':'' @ t \<Longrightarrow> ob_list view db' k = ob_list view db k"
    "ob_list view db' (p @ '':'' @ t) = ob_list view db (p @ '':'' @ t) @ [enc_item cd x]"
  using reply_up(7,8) [OF ok, of db "[CRPush (outbox_key p t) (enc_item cd x)]"] c
  by (auto simp: PushOutbox_def exec_err_def ob_list_def outbox_key_def)

text \<open>The step of a thread keeps both invariants.\<close>

lemma thread_step_queue:
  assumes ok: "redis_ok (nc_redis (oc_node oc)) view" "redis_up (nc_redis (oc_node oc))" "codec_ok (nc_codec (oc_node oc))"
    and key: "CHR '':'' \<notin> set p" "CHR '':'' \<notin> set t"
    and inv: "queue_inv view (nc_codec (oc_node oc)) xs p t evs st ths" "lock_inv (p @ t) st ths"
    and i: "i < length ths"
    and step: "ts_step oc rs st (th_pid (ths ! i)) (th_target (ths ! i)) (th_pc (ths ! i)) = (st', pc, ev)"
  shows "queue_inv view (nc_codec (oc_node oc)) xs p t (evs @ ev) st' (ths[i := (ths ! i)\<lparr>th_pc := pc\<rparr>])"
proof -
  note Q = queue_inv_step [OF inv(1) i]
  show ?thesis
  proof (cases "th_pc (ths ! i)")
    case TsCheck
    with step show ?thesis by (intro Q) (auto split: if_splits)
  next
    case TsLock
    with step show ?thesis by (intro Q) auto
  next
    case TsUnlock
    with step show ?thesis by (intro Q) auto
  next
    case TsDone
    with step show ?thesis by (intro Q) auto
  next
    case TsHang
    with step show ?thesis by (intro Q) auto
  next
    case TsPeek
    let ?P = "PeekOutbox (nc_redis (oc_node oc)) (nc_codec (oc_node oc)) (ns_db (os_node st)) (th_pid (ths ! i)) (th_target (ths ! i))"
    obtain db r where pk: "?P = (db, r)" by fastforce
    have v: "view db = view (ns_db (os_node st))" using Peek_list(1) [OF ok] pk by (metis fst_conv)
    have st': "st' = set_db st db" "pc = (case r of Inr (Some item) \<Rightarrow> TsWork item | _ \<Rightarrow> TsUnlock)" "ev = []"
      using step TsPeek pk by auto
    show ?thesis
    proof (intro Q)
      show "ob_list view (ns_db (os_node st')) (p @ '':'' @ t) = ob_list view (ns_db (os_node st)) (p @ '':'' @ t)"
        by (simp add: st' set_db_def ob_list_def v)
      fix rest assume "th_pid (ths ! i) = p" "th_target (ths ! i) = t"
        "ob_list view (ns_db (os_node st)) (p @ '':'' @ t) = map (enc_item (nc_codec (oc_node oc))) rest"
      with Peek_list(2) [OF ok, of "ns_db (os_node st)" p t rest] pk show "stage p t rest (evs @ ev) pc"
        by (cases rest) (simp_all add: st')
    qed (simp add: st')
  next
    case (TsWork item)
    obtain s1 d where d: "deliver oc rs st (th_target (ths ! i)) item = (s1, d)" by fastforce
    have st': "st' = s1" "pc = (case d of None \<Rightarrow> TsHang | Some b \<Rightarrow> if b then TsCommit else TsUnlock)"
      "ev = (if d = Some True then [EvDelivered (th_pid (ths ! i)) (th_target (ths ! i)) item] else [])"
      using step TsWork d by (auto split: option.splits bool.splits)
    have "ob_list view (ns_db (os_node s1)) (p @ '':'' @ t) = ob_list view (ns_db (os_node st)) (p @ '':'' @ t)"
      using deliver_keeps(1) [OF ok(1), of rs st "th_target (ths ! i)" item] d by simp
    then show ?thesis
      by (intro Q) (auto simp: st' TsWork split: option.splits)
  next
    case TsCommit
    obtain db e where c: "CommitOutbox (nc_redis (oc_node oc)) (ns_db (os_node st)) (th_pid (ths ! i)) (th_target (ths ! i)) = (db, e)"
      by fastforce
    have st': "st' = set_db st db" "pc = (if e = None then TsPeek else TsUnlock)" "ev = []" using step TsCommit c by auto
    have pcs: "stage p t rs es pc" for rs es by (simp add: st')
    show ?thesis
    proof (cases "th_pid (ths ! i) = p \<and> th_target (ths ! i) = t \<and>
        ob_list view db (p @ '':'' @ t) \<noteq> ob_list view (ns_db (os_node st)) (p @ '':'' @ t)")
      case False
      then have "ob_list view db (p @ '':'' @ t) = ob_list view (ns_db (os_node st)) (p @ '':'' @ t)"
        using Commit_list(1) [OF ok(1) c, of "p @ '':'' @ t"] key_inj [OF key, of "th_pid (ths ! i)" "th_target (ths ! i)"] by metis
      then show ?thesis using pcs by (intro Q) (simp_all add: st' set_db_def)
    next
      case True
      then have pop: "ob_list view db (p @ '':'' @ t) = tl (ob_list view (ns_db (os_node st)) (p @ '':'' @ t))"
        using Commit_list(2) [OF ok(1) c] by auto
      obtain sent rest where q: "xs @ pushed p t evs = sent @ rest"
        "ob_list view (ns_db (os_node st)) (p @ '':'' @ t) = map (enc_item (nc_codec (oc_node oc))) rest"
        "\<forall>x \<in> set sent. EvDelivered p t x \<in> set evs"
        "\<forall>th \<in> set ths. th_pid th = p \<longrightarrow> th_target th = t \<longrightarrow> stage p t rest evs (th_pc th)"
        using inv(1) unfolding queue_inv_def by blast
      obtain x r where x: "rest = x # r" "EvDelivered p t x \<in> set evs"
        using q(4) nth_mem [OF i] True TsCommit by fastforce
      have eng: "engaged (p @ t) (ths ! i)" using True TsCommit by (simp add: engaged_def lock_key_def)
      have others: "stage p t r evs (th_pc (ths[i := (ths ! i)\<lparr>th_pc := pc\<rparr>] ! j))"
        if j: "j < length ths" "th_pid (ths[i := (ths ! i)\<lparr>th_pc := pc\<rparr>] ! j) = p" "th_target (ths[i := (ths ! i)\<lparr>th_pc := pc\<rparr>] ! j) = t" for j
      proof (cases "j = i")
        case True
        then show ?thesis using i pcs by simp
      next
        case False
        with inv(2) eng i j(1) have "\<not> engaged (p @ t) (ths ! j)" unfolding lock_inv_def by blast
        with j False show ?thesis by (auto simp: engaged_def lock_key_def)
      qed
      show ?thesis
      proof (rule queue_invI [of _ _ _ _ "sent @ [x]" r])
        show "stage p t r (evs @ ev) (th_pc th)"
          if "th \<in> set (ths[i := (ths ! i)\<lparr>th_pc := pc\<rparr>])" "th_pid th = p" "th_target th = t" for th
          using others that by (auto simp: in_set_conv_nth st')
      qed (use q x pop in \<open>auto simp: st' set_db_def\<close>)
    qed
  qed
qed

lemma thread_step_lock:
  assumes ok: "redis_ok (nc_redis (oc_node oc)) view"
    and inv: "lock_inv l st ths" and i: "i < length ths" and race: "\<not> races l ths (ActThread i rs)"
    and step: "ts_step oc rs st (th_pid (ths ! i)) (th_target (ths ! i)) (th_pc (ths ! i)) = (st', pc, ev)"
  shows "lock_inv l st' (ths[i := (ths ! i)\<lparr>th_pc := pc\<rparr>])"
proof -
  have held: "os_lock st l" if "engaged l (ths ! i)" "th_pc (ths ! i) \<noteq> TsLock"
    using inv i that nth_mem unfolding lock_inv_def by blast
  have e: "engaged l ((ths ! i)\<lparr>th_pc := q\<rparr>) \<longleftrightarrow> lock_key (ths ! i) = l \<and> q \<notin> {TsCheck, TsDone}"
    "engaged l (ths ! i) \<longleftrightarrow> lock_key (ths ! i) = l \<and> th_pc (ths ! i) \<notin> {TsCheck, TsDone}" for q
    by (simp_all add: engaged_def lock_key_def)
  note L = lock_inv_step [OF inv i, of "(ths ! i)\<lparr>th_pc := pc\<rparr>"]
  show ?thesis
  proof (cases "th_pc (ths ! i)")
    case TsCheck
    with step have st': "st' = st" "pc = (if os_lock st (lock_key (ths ! i)) then TsDone else TsLock)"
      by (auto simp: lock_key_def split: if_splits)
    have free: "\<forall>th \<in> set ths. \<not> engaged l th" if "lock_key (ths ! i) = l" "\<not> os_lock st l"
    proof (rule ballI, rule notI)
      fix th assume th: "th \<in> set ths" "engaged l th"
      with that(2) inv have "th_pc th = TsLock" unfolding lock_inv_def by blast
      with th race i TsCheck that(1) show False by (auto simp: engaged_def)
    qed
    show ?thesis by (rule L) (use free in \<open>auto simp: e st' split: if_splits\<close>)
  next
    case TsLock
    with step show ?thesis by (intro L) (auto simp: e lock_key_def)
  next
    case TsPeek
    with step held show ?thesis
      by (intro L) (auto simp: e set_db_def split: prod.splits sum.splits option.splits)
  next
    case (TsWork item)
    obtain s1 d where d: "deliver oc rs st (th_target (ths ! i)) item = (s1, d)" by fastforce
    have "os_lock s1 = os_lock st" using deliver_keeps(2) [OF ok, of rs st "th_target (ths ! i)" item] d by simp
    moreover have "st' = s1" "pc \<notin> {TsCheck, TsDone, TsLock}"
      using step TsWork d by (auto split: option.splits bool.splits)
    ultimately show ?thesis using held TsWork by (intro L) (auto simp: e)
  next
    case TsCommit
    with step held show ?thesis by (intro L) (auto simp: e set_db_def split: prod.splits if_splits)
  next
    case TsUnlock
    have "th = ths ! i" if "th \<in> set ths" "engaged l th" "lock_key (ths ! i) = l" for th
      using that inv i TsUnlock e(2) unfolding lock_inv_def by (auto simp: in_set_conv_nth)
    then have uniq: "lock_key (ths ! i) = l \<Longrightarrow> th \<in> set ths \<Longrightarrow> engaged l th \<Longrightarrow> th = ths ! i" for th by blast
    have st': "st' = st\<lparr>os_lock := (os_lock st)(lock_key (ths ! i) := False)\<rparr>" "pc = TsDone"
      using step TsUnlock by (simp_all add: lock_key_def)
    show ?thesis
    proof (rule L)
      show "os_lock st' l \<or> th = ths ! i \<and> engaged l (ths ! i) \<and> \<not> engaged l ((ths ! i)\<lparr>th_pc := pc\<rparr>)"
        if "th \<in> set ths" "engaged l th" "os_lock st l" for th
        using that uniq [of th] TsUnlock e(1) [of pc] e(2) by (cases "lock_key (ths ! i) = l") (simp_all add: st')
    qed (simp_all add: e st')
  next
    case TsDone
    with step show ?thesis by (intro L) (auto simp: e)
  next
    case TsHang
    with step held show ?thesis by (intro L) (auto simp: e)
  qed
qed

lemma inv_new_threads:
  assumes "\<And>th. th \<in> set new \<Longrightarrow> th_pc th = TsCheck"
  shows "queue_inv view cd xs p t evs st ths \<Longrightarrow> queue_inv view cd xs p t evs st (ths @ new)"
    "lock_inv l st ths \<Longrightarrow> lock_inv l st (ths @ new)"
proof -
  show "queue_inv view cd xs p t evs st (ths @ new)" if inv: "queue_inv view cd xs p t evs st ths"
  proof -
    obtain sent rest where q: "xs @ pushed p t evs = sent @ rest"
      "ob_list view (ns_db (os_node st)) (p @ '':'' @ t) = map (enc_item cd) rest"
      "\<forall>x \<in> set sent. EvDelivered p t x \<in> set evs"
      "\<forall>th \<in> set ths. th_pid th = p \<longrightarrow> th_target th = t \<longrightarrow> stage p t rest evs (th_pc th)"
      using inv unfolding queue_inv_def by blast
    show ?thesis by (rule queue_invI [OF q(1,2)]) (use q assms in auto)
  qed
  have "\<not> engaged l th" if "th \<in> set new" for th using assms that by (simp add: engaged_def)
  then show "lock_inv l st ths \<Longrightarrow> lock_inv l st (ths @ new)"
    unfolding lock_inv_def by (auto simp: nth_append)
qed

lemma outbox_inv:
  assumes ok: "redis_ok (nc_redis (oc_node oc)) view" "redis_up (nc_redis (oc_node oc))"
    and key: "CHR '':'' \<notin> set p" "CHR '':'' \<notin> set t"
    and inv: "queue_inv view (nc_codec (oc_node oc)) xs p t evs st ths" "lock_inv l st ths"
    and o: "Node_outbox oc now st ob = (st', new, ev)"
  shows "queue_inv view (nc_codec (oc_node oc)) xs p t (evs @ ev) st' (ths @ new)" "lock_inv l st' (ths @ new)"
proof -
  have unchanged: "queue_inv view (nc_codec (oc_node oc)) xs p t (evs @ ev) st' (ths @ new) \<and> lock_inv l st' (ths @ new)"
    if "st' = st" "new = []" "ev = []" using inv that by simp
  have "queue_inv view (nc_codec (oc_node oc)) xs p t (evs @ ev) st' (ths @ new) \<and> lock_inv l st' (ths @ new)"
  proof (cases "IDCheck (nc_lib (oc_node oc)) (ob_To ob)")
    case (Inl e)
    with o unchanged show ?thesis by (simp add: Node_outbox_def)
  next
    case (Inr at)
    obtain acc to where at: "at = (acc, to)" by fastforce
    show ?thesis
    proof (cases "nc_sign (oc_node oc) (ob_Data ob) (if acc \<noteq> AccountTypeAR then [] else to)
          (MergeTags [Tag ''SDK-Timestamp'' (FormatInt now)] (ob_Tags ob))")
      case None
      with o Inr unchanged show ?thesis by (simp add: Node_outbox_def at)
    next
      case (Some item)
      let ?t = "if ob_Type ob = TypeProcess then item_Id item else to"
      obtain db e where c: "PushOutbox (nc_redis (oc_node oc)) (nc_codec (oc_node oc)) (ns_db (os_node st)) (ob_From ob) ?t item = (db, e)"
        by fastforce
      have e: "e = None" by (rule Push_list(1) [OF ok c])
      have st': "st' = set_db st db" "new = [\<lparr>th_pid = ob_From ob, th_target = ?t, th_pc = TsCheck\<rparr>]"
        "ev = [EvPushed (ob_From ob) ?t item]"
        using o Inr Some c e by (simp_all add: Node_outbox_def Let_def at)
      obtain sent rest where q: "xs @ pushed p t evs = sent @ rest"
        "ob_list view (ns_db (os_node st)) (p @ '':'' @ t) = map (enc_item (nc_codec (oc_node oc))) rest"
        "\<And>x. x \<in> set sent \<Longrightarrow> EvDelivered p t x \<in> set evs"
        "\<And>th. th \<in> set ths \<Longrightarrow> th_pid th = p \<Longrightarrow> th_target th = t \<Longrightarrow> stage p t rest evs (th_pc th)"
        using inv(1) unfolding queue_inv_def by blast
      let ?x = "if ob_From ob = p \<and> ?t = t then [item] else []"
      have l: "ob_list view (ns_db (os_node st')) (p @ '':'' @ t) = map (enc_item (nc_codec (oc_node oc))) (rest @ ?x)"
      proof (cases "ob_From ob = p \<and> ?t = t")
        case True
        with Push_list(3) [OF ok c] q(2) show ?thesis by (simp add: st' set_db_def)
      next
        case False
        with key_inj [OF key, of "ob_From ob" ?t] have "p @ '':'' @ t \<noteq> ob_From ob @ '':'' @ ?t" by metis
        from Push_list(2) [OF ok c this] q(2) False show ?thesis by (simp only: st' set_db_def) simp
      qed
      have "queue_inv view (nc_codec (oc_node oc)) xs p t (evs @ ev) st' ths"
        by (rule queue_invI [of _ _ _ _ sent "rest @ ?x"]) (use q l stage_mono in \<open>auto simp: st'\<close>)
      moreover have "lock_inv l st' ths" using inv(2) by (simp add: lock_inv_def st' set_db_def)
      moreover have "\<And>th. th \<in> set new \<Longrightarrow> th_pc th = TsCheck" by (simp add: st')
      ultimately show ?thesis by (blast intro: inv_new_threads)
    qed
  qed
  then show "queue_inv view (nc_codec (oc_node oc)) xs p t (evs @ ev) st' (ths @ new)" "lock_inv l st' (ths @ new)" by simp_all
qed

lemma ob_step_inv:
  assumes ok: "redis_ok (nc_redis (oc_node oc)) view" "redis_up (nc_redis (oc_node oc))" "codec_ok (nc_codec (oc_node oc))"
    and key: "CHR '':'' \<notin> set p" "CHR '':'' \<notin> set t"
    and inv: "queue_inv view (nc_codec (oc_node oc)) xs p t evs st ths" "lock_inv (p @ t) st ths"
    and race: "\<not> races (p @ t) ths a" and step: "ob_step oc (st, ths) a = ((st', ths'), ev)"
  shows "queue_inv view (nc_codec (oc_node oc)) xs p t (evs @ ev) st' ths' \<and> lock_inv (p @ t) st' ths'"
proof (cases a)
  case (ActOutbox now ob)
  obtain st1 new ev1 where o: "Node_outbox oc now st ob = (st1, new, ev1)" by (metis prod_cases3)
  from outbox_inv [OF ok(1,2) key inv o] show ?thesis using step ActOutbox o by simp
next
  case (ActTrySend pid target)
  with step inv inv_new_threads [of "[\<lparr>th_pid = pid, th_target = target, th_pc = TsCheck\<rparr>]"] show ?thesis by auto
next
  case (ActThread i rs)
  show ?thesis
  proof (cases "i < length ths")
    case True
    obtain st1 pc ev1 where s: "ts_step oc rs st (th_pid (ths ! i)) (th_target (ths ! i)) (th_pc (ths ! i)) = (st1, pc, ev1)"
      by (metis prod_cases3)
    from thread_step_queue [OF ok key inv True s] thread_step_lock [OF ok(1) inv(2) True race [unfolded ActThread] s]
    show ?thesis using step ActThread True s by simp
  next
    case False
    with step inv ActThread show ?thesis by simp
  qed
next
  case (ActTick tk)
  have l: "ob_list view (ns_db (fst (env_turn (oc_node oc) (os_node st) tk))) (p @ '':'' @ t) =
      ob_list view (ns_db (os_node st)) (p @ '':'' @ t)" by (rule env_turn_keeps [OF ok(1)])
  have st': "st' = st\<lparr>os_node := fst (env_turn (oc_node oc) (os_node st) tk)\<rparr>" using step ActTick by auto
  have l': "ob_list view (ns_db (os_node st')) (p @ '':'' @ t) = ob_list view (ns_db (os_node st)) (p @ '':'' @ t)"
    using l unfolding st' by simp
  have "queue_inv view (nc_codec (oc_node oc)) xs p t evs st' ths"
    using inv(1) unfolding queue_inv_def l' .
  moreover from inv(2) have "lock_inv (p @ t) st' ths" using step ActTick by (auto simp: lock_inv_def)
  ultimately show ?thesis using step ActTick by simp
qed

lemma ob_run_inv:
  assumes ok: "redis_ok (nc_redis (oc_node oc)) view" "redis_up (nc_redis (oc_node oc))" "codec_ok (nc_codec (oc_node oc))"
    and key: "CHR '':'' \<notin> set p" "CHR '':'' \<notin> set t"
  shows "queue_inv view (nc_codec (oc_node oc)) xs p t evs st ths \<Longrightarrow> lock_inv (p @ t) st ths \<Longrightarrow>
    race_free oc (p @ t) (st, ths) acts \<Longrightarrow> ob_run oc (st, ths) acts = ((st', ths'), ev) \<Longrightarrow>
    queue_inv view (nc_codec (oc_node oc)) xs p t (evs @ ev) st' ths'"
proof (induction acts arbitrary: st ths evs ev)
  case (Cons a acts)
  obtain st1 ths1 ev1 where s: "ob_step oc (st, ths) a = ((st1, ths1), ev1)" by (metis prod.exhaust)
  obtain ev2 where r: "ob_run oc (st1, ths1) acts = ((st', ths'), ev2)" "ev = ev1 @ ev2"
    using Cons.prems(4) s by (auto split: prod.splits)
  have race: "\<not> races (p @ t) ths a" "race_free oc (p @ t) (st1, ths1) acts" using Cons.prems(3) s by simp_all
  from ob_step_inv [OF ok key Cons.prems(1,2) race(1) s] Cons.IH [OF _ _ race(2) r(1), of "evs @ ev1"] r(2)
  show ?case by simp
qed simp

text \<open>C25: nothing leaves the outbox undelivered or out of order, as long as no two threads race for a lock. For
  every sequence of sends of the machines, calls of \<open>TrySend\<close>, turns of the node's loops and steps of the
  threads, in which no thread of the queue checks the sending lock between the check and the taking of
  another one, the list in Redis always holds a suffix of everything queued so far, in order, and
  every item that has left it was delivered before: assigned by the node of its target. That an item does leave
  the list is not claimed here: a node that does not take the item at the head holds up the queue
  (\<open>duplicate_blocks_outbox\<close>), and \<open>trysend_drains\<close> says when a queue empties.\<close>

theorem outbox_in_order:
  assumes "redis_ok (nc_redis (oc_node oc)) view" and "redis_up (nc_redis (oc_node oc))" and "codec_ok (nc_codec (oc_node oc))"
    and "CHR '':'' \<notin> set p" and "CHR '':'' \<notin> set t"
    and "ob_list view (ns_db (os_node st)) (p @ '':'' @ t) = map (enc_item (nc_codec (oc_node oc))) xs"
    and "race_free oc (p @ t) (st, []) acts" and "ob_run oc (st, []) acts = ((st', ths'), evs)"
  shows "\<exists>sent rest. xs @ pushed p t evs = sent @ rest \<and>
    ob_list view (ns_db (os_node st')) (p @ '':'' @ t) = map (enc_item (nc_codec (oc_node oc))) rest \<and>
    (\<forall>x \<in> set sent. EvDelivered p t x \<in> set evs)"
proof -
  have "queue_inv view (nc_codec (oc_node oc)) xs p t [] st []"
    by (rule queue_invI [of _ _ _ _ "[]" xs]) (use assms(6) in simp_all)
  moreover have "lock_inv (p @ t) st []" by (simp add: lock_inv_def)
  ultimately have "queue_inv view (nc_codec (oc_node oc)) xs p t ([] @ evs) st' ths'"
    by (rule ob_run_inv [OF assms(1-5)]) (rule assms(7,8))+
  then show ?thesis unfolding queue_inv_def by auto
qed

end
