(* ===== verification/OutboxFaults.thy ===== *)
theory OutboxFaults
  imports OutboxProps
begin

text \<open>
  Two ways in which the outbox fails its senders: an item that the own node has assigned before blocks
  its queue, and two threads that race for the sending lock lose a message.
\<close>

subsection \<open>An item the node has assigned before\<close>

text \<open>The item of an id is in the log, where \<open>GetMessage\<close> finds it.\<close>

definition logged :: "db_codec \<Rightarrow> keyspace \<Rightarrow> string \<Rightarrow> bool" where
  "logged cd ks i \<longleftrightarrow>
     (\<exists>q j x. ks_hash ks RdbMsgIndex i = Some (place q j) \<and> CHR '':'' \<notin> set q \<and> j < 2 ^ 63 \<and>
        j < length (ks_list ks (RdbProcessMsgsPrefix @ q)) \<and> dec_item cd (ks_list ks (RdbProcessMsgsPrefix @ q) ! j) = Some x)"

lemma logged_commit:
  assumes "logged cd ks i" "item_Id y \<noteq> i"
  shows "logged cd (ks_cmds ks (commit_cmds cd' p n y z)) i"
proof -
  obtain q j x where q: "ks_hash ks RdbMsgIndex i = Some (place q j)" "CHR '':'' \<notin> set q" "j < 2 ^ 63"
    "j < length (ks_list ks (RdbProcessMsgsPrefix @ q))" "dec_item cd (ks_list ks (RdbProcessMsgsPrefix @ q) ! j) = Some x"
    using assms(1) unfolding logged_def by blast
  then show ?thesis
    unfolding logged_def using assms(2)
    by (intro exI [of _ q]) (rule exI [of _ j], auto simp: commit_cmds_def nth_append)
qed

lemma logged_found:
  assumes ok: "redis_ok rd view" "redis_up rd" and l: "logged cd (view s) i"
  shows "\<exists>x. snd (GetMessage rd cd s i) = Inr (Some x)"
proof -
  obtain q j x where q: "ks_hash (view s) RdbMsgIndex i = Some (place q j)" "CHR '':'' \<notin> set q" "j < 2 ^ 63"
    "j < length (ks_list (view s) (RdbProcessMsgsPrefix @ q))"
    "dec_item cd (ks_list (view s) (RdbProcessMsgsPrefix @ q) ! j) = Some x"
    using l unfolding logged_def by blast
  obtain s1 r where g: "rd_hget rd s RdbMsgIndex i = (s1, r)" by fastforce
  have s1: "view s1 = view s" "r = Reply (place q j)"
    using reply_up(5,6) [OF ok, of s RdbMsgIndex i] g q(1) by auto
  obtain s2 r2 where li: "rd_lindex rd s1 (RdbProcessMsgsPrefix @ q) (of_nat j) = (s2, r2)" by fastforce
  have r2: "r2 = Reply (ks_list (view s) (RdbProcessMsgsPrefix @ q) ! j)"
    using reply_up(3,4) [OF ok, of s1 "RdbProcessMsgsPrefix @ q" "of_nat j"] li s1 q(4)
    unfolding lindex_of_nat [OF q(3)] by simp
  have sp: "Split CHR '':'' (place q j) = [q, FormatInt (of_nat j)]"
    by (simp add: place_def Split_append_sep [OF q(2)] Split_no_sep colon_notin_FormatInt)
  show ?thesis
    by (simp add: GetMessage_def g s1 sp GetMessageByNonce_def list_item_def li r2 q(5))
qed

lemma logged_assignment:
  assumes ok: "redis_ok rd view" "redis_up rd" and l: "logged cd (view s) i"
    and st: "assignment_step rd cd sign now s pid y = (s', out)"
  shows "logged cd (view s') i \<and> (item_Id y = i \<longrightarrow> out = Inl ErrDuplicateItem)"
proof -
  obtain s1 m where g: "GetMessage rd cd s (item_Id y) = (s1, m)" by fastforce
  obtain s2 n where gn: "GetNonce rd s1 pid = (s2, n)" by fastforce
  have v: "view s1 = view s" "view s2 = view s" using reads_view [OF ok(1)] g gn by (metis fst_conv)+
  show ?thesis
  proof (cases "item_Id y = i")
    case True
    then obtain x where "m = Inr (Some x)" using logged_found [OF ok l] g by auto
    with st g v l True show ?thesis by (simp add: assignment_step_def)
  next
    case False
    have "logged cd (view (fst (rd_exec rd s2 (commit_cmds cd pid nonce y z)))) i" for nonce z
      using logged_commit [OF l False] reply_up(7) [OF ok, of s2] v by simp
    with st g gn v l False show ?thesis
      by (auto simp: assignment_step_def Let_def Commit_def exec_err_def
          split: if_splits sum.splits prod.splits option.splits)
  qed
qed

lemma logged_turn:
  assumes ok: "redis_ok (nc_redis cf) view" "redis_up (nc_redis cf)" and l: "logged (nc_codec cf) (view (ns_db st)) i"
    and t: "env_turn cf st tk = (st', r)"
  shows "logged (nc_codec cf) (view (ns_db st')) i \<and> r \<noteq> Some (i, None)"
proof (cases tk)
  case (TkMsg now)
  show ?thesis
  proof (cases "ns_mes st")
    case Nil
    with t l TkMsg show ?thesis by (auto simp: msg_turn_def)
  next
    case (Cons m ms)
    obtain db out where a: "assignment_step (nc_redis cf) (nc_codec cf) (nc_sign cf) now (ns_db st) (am_Pid m) (am_Item m) = (db, out)"
      by fastforce
    from logged_assignment [OF ok l a] t TkMsg Cons a show ?thesis
      by (cases out) (auto simp: msg_turn_def split: prod.splits)
  qed
next
  case (TkProc now)
  show ?thesis
  proof (cases "ns_proc st")
    case Nil
    with t l TkProc show ?thesis by (auto simp: proc_turn_def)
  next
    case (Cons m ms)
    obtain db out where a: "assignment_step (nc_redis cf) (nc_codec cf) (nc_sign cf) now (ns_db st) (ap_Pid m) (ap_Item m) = (db, out)"
      by fastforce
    from logged_assignment [OF ok l a] t l TkProc Cons a show ?thesis
      by (auto simp: proc_turn_def split: prod.splits option.splits sum.splits)
  qed
qed

lemma logged_turns:
  assumes ok: "redis_ok (nc_redis cf) view" "redis_up (nc_redis cf)"
  shows "logged (nc_codec cf) (view (ns_db st)) i \<Longrightarrow> env_turns cf i st ts = (st', rs) \<Longrightarrow>
    logged (nc_codec cf) (view (ns_db st')) i \<and> None \<notin> set rs"
proof (induction ts arbitrary: st st' rs)
  case (Cons t ts)
  obtain st1 p where t: "env_turn cf st t = (st1, p)" by fastforce
  obtain st2 rs2 where ts: "env_turns cf i st1 ts = (st2, rs2)" by fastforce
  have l1: "logged (nc_codec cf) (view (ns_db st1)) i" "p \<noteq> Some (i, None)"
    using logged_turn [OF ok Cons.prems(1) t] by simp_all
  from Cons.IH [OF l1(1) ts] l1(2) Cons.prems(2) t ts show ?case
    by (cases p) (auto split: if_splits)
qed simp

lemma local_loop_duplicate:
  assumes ok: "redis_ok (nc_redis cf) view" "redis_up (nc_redis cf)"
  shows "logged (nc_codec cf) (view (ns_db st)) (item_Id item) \<Longrightarrow> None \<notin> set unread \<Longrightarrow> err \<noteq> None \<or> sleeps \<noteq> [] \<Longrightarrow>
    snd (local_loop cf item sleeps rounds st unread err) \<noteq> Some None"
proof (induction sleeps arbitrary: rounds st unread err)
  case Nil
  then show ?case by (simp add: local_return_def)
next
  case (Cons s sleeps)
  obtain pending slept waited where r: "(case rounds of [] \<Rightarrow> (0, [], []) | r # _ \<Rightarrow> r) = (pending, slept, waited)"
    by (metis prod_cases3)
  obtain st1 rs1 where t1: "env_turns cf (item_Id item) st (if s = 0 then [] else slept) = (st1, rs1)" by fastforce
  obtain st2 e where h: "Node_Handle cf pending st1 item = (st2, e)" by fastforce
  obtain st3 rs2 where t2: "env_turns cf (item_Id item) st2 waited = (st3, rs2)" by fastforce
  have l1: "logged (nc_codec cf) (view (ns_db st1)) (item_Id item)" "None \<notin> set rs1"
    using logged_turns [OF ok Cons.prems(1) t1] by simp_all
  then have l2: "logged (nc_codec cf) (view (ns_db st2)) (item_Id item)"
    using Node_Handle_view [OF ok(1), of pending st1 item] h by simp
  have l3: "logged (nc_codec cf) (view (ns_db st3)) (item_Id item)" "None \<notin> set rs2"
    using logged_turns [OF ok l2 t2] by simp_all
  show ?case
  proof (cases e)
    case (Some x)
    with r t1 h Cons.IH [OF l2] Cons.prems(2) l1(2) show ?thesis by simp
  next
    case None
    show ?thesis
    proof (cases "unread @ rs1 @ rs2")
      case Nil
      with None r t1 h t2 Cons.IH [OF l3(1)] show ?thesis by simp
    next
      case (Cons x xs)
      then have "set (x # xs) = set unread \<union> set rs1 \<union> set rs2" by (metis set_append sup_assoc)
      with Cons.prems(2) l1(2) l3(2) obtain y where x: "x = Some y" "None \<notin> set xs" by (cases x) auto
      with Cons None r t1 h t2 Cons.IH [OF l3(1), of xs] show ?thesis
        by (simp add: local_return_def)
    qed
  qed
qed

lemma logged_view: "view db = view db' \<Longrightarrow> logged cd (view db) i = logged cd (view db') i"
  by simp

lemma deliver_duplicate:
  assumes ok: "redis_ok (nc_redis (oc_node oc)) view" "redis_up (nc_redis (oc_node oc))"
    and l: "logged (nc_codec (oc_node oc)) (view (ns_db (os_node st))) (item_Id item)"
    and self: "outbox_nodes (os_node st) t item = nd # nds" "isSelf oc (os_node st) nd"
    and d: "deliver oc rs st t item = (st', r)"
  shows "r \<noteq> Some True"
proof (cases "oc_GenerateItemBinary oc item")
  case (Inr bin)
  obtain node e where ll: "tryGetLocalAssign (oc_node oc) rs (Node_Info (os_node st)) item = (node, e)" by fastforce
  have "snd (local_loop (oc_node oc) item TryAssignSleepTime rs (Node_Info (os_node st)) [] None) \<noteq> Some None"
    by (rule local_loop_duplicate [OF ok]) (simp_all add: l TryAssignSleepTime_def)
  with ll have "e \<noteq> Some None" by (simp add: tryGetLocalAssign_def)
  with d Inr self ll show ?thesis by (cases e) (auto simp: deliver_def)
qed (use d in \<open>auto simp: deliver_def\<close>)

text \<open>A thread of a queue whose head \<open>a\<close> the own node has assigned before.\<close>

definition stuck where
  "stuck oc view p t a rest st pc \<longleftrightarrow>
     ob_list view (ns_db (os_node st)) (p @ '':'' @ t) = map (enc_item (nc_codec (oc_node oc))) (a # rest) \<and>
     (pc \<in> {TsUnlock, TsDone, TsHang} \<or>
      pc \<in> {TsCheck, TsLock, TsPeek, TsWork a} \<and>
      logged (nc_codec (oc_node oc)) (view (ns_db (os_node st))) (item_Id a) \<and>
      (\<exists>nd nds. outbox_nodes (os_node st) t a = nd # nds \<and> isSelf oc (os_node st) nd))"

lemma nodes_set_db [simp]:
  "outbox_nodes (os_node (set_db st db)) t x = outbox_nodes (os_node st) t x"
  "isSelf oc (os_node (set_db st db)) nd = isSelf oc (os_node st) nd"
  "os_lock (set_db st db) = os_lock st" "ns_db (os_node (set_db st db)) = db"
  by (simp_all add: outbox_nodes_def isSelf_def set_db_def)

lemma stuck_step:
  assumes ok: "redis_ok (nc_redis (oc_node oc)) view" "redis_up (nc_redis (oc_node oc))" "codec_ok (nc_codec (oc_node oc))"
    and st: "stuck oc view p t a rest st pc" and step: "ts_step oc rs st p t pc = (st', pc', ev)"
  shows "stuck oc view p t a rest st' pc' \<and> ev = []"
proof (cases pc)
  case TsCheck
  with st step show ?thesis by (auto simp: stuck_def split: if_splits)
next
  case TsLock
  with st step show ?thesis by (auto simp: stuck_def)
next
  case TsPeek
  obtain db r where pk: "PeekOutbox (nc_redis (oc_node oc)) (nc_codec (oc_node oc)) (ns_db (os_node st)) p t = (db, r)" by fastforce
  have v: "view db = view (ns_db (os_node st))" "r = Inr (Some a)"
    using Peek_list(1) [OF ok, of "ns_db (os_node st)" p t] Peek_list(2) [OF ok, of "ns_db (os_node st)" p t "a # rest"] pk st TsPeek
    by (auto simp: stuck_def)
  have "st' = set_db st db" "pc' = TsWork a" "ev = []" using step TsPeek pk v by auto
  then show ?thesis using st TsPeek v by (auto simp: stuck_def ob_list_def)
next
  case (TsWork item)
  obtain s1 d where d: "deliver oc rs st t item = (s1, d)" by fastforce
  obtain nd nds where n: "item = a" "logged (nc_codec (oc_node oc)) (view (ns_db (os_node st))) (item_Id a)"
    "outbox_nodes (os_node st) t a = nd # nds" "isSelf oc (os_node st) nd"
    using st TsWork by (auto simp: stuck_def)
  from deliver_duplicate [OF ok(1,2) _ _ n(4) d] n(1,2,3) have "d \<noteq> Some True" by simp
  moreover have "ob_list view (ns_db (os_node s1)) (p @ '':'' @ t) = ob_list view (ns_db (os_node st)) (p @ '':'' @ t)"
    using deliver_keeps(1) [OF ok(1), of rs st t item] d by simp
  ultimately show ?thesis
    using step TsWork d st by (cases d; cases "the d") (auto simp: stuck_def)
next
  case TsCommit
  with st show ?thesis by (simp add: stuck_def)
next
  case TsUnlock
  with st step show ?thesis by (auto simp: stuck_def)
next
  case TsDone
  with st step show ?thesis by (auto simp: stuck_def)
next
  case TsHang
  with st step show ?thesis by (auto simp: stuck_def)
qed

text \<open>C27: an item that the own node has assigned before blocks its queue. The retry of a delivery that the
  node finds in its log is answered with a duplicate error, which the thread treats as a failure although
  it proves the delivery: whatever the loops of the node do meanwhile and however often the item is
  retried, the item stays at the head of the queue and nothing behind it is delivered. It is enough that
  the last retry of an earlier thread failed after its message had been queued.\<close>

theorem duplicate_blocks_outbox:
  assumes "redis_ok (nc_redis (oc_node oc)) view" and "redis_up (nc_redis (oc_node oc))" and "codec_ok (nc_codec (oc_node oc))"
    and "ob_list view (ns_db (os_node st)) (p @ '':'' @ t) = map (enc_item (nc_codec (oc_node oc))) (a # rest)"
    and "logged (nc_codec (oc_node oc)) (view (ns_db (os_node st))) (item_Id a)"
    and "outbox_nodes (os_node st) t a = nd # nds" and "isSelf oc (os_node st) nd"
    and "trySend oc p t rss (st, TsCheck) = ((st', pc'), evs)"
  shows "ob_list view (ns_db (os_node st')) (p @ '':'' @ t) = map (enc_item (nc_codec (oc_node oc))) (a # rest) \<and> evs = []"
proof -
  have "stuck oc view p t a rest s pc \<Longrightarrow> trySend oc p t rss (s, pc) = ((st', pc'), evs) \<Longrightarrow>
    stuck oc view p t a rest st' pc' \<and> evs = []" for s pc
  proof (induction rss arbitrary: s pc evs)
    case (Cons rs rss)
    obtain s1 pc1 ev where x: "ts_step oc rs s p t pc = (s1, pc1, ev)" by (metis prod_cases3)
    with stuck_step [OF assms(1-3) Cons.prems(1)] have "stuck oc view p t a rest s1 pc1" "ev = []" by auto
    with Cons.IH [OF this(1)] Cons.prems(2) x show ?case by (auto split: prod.splits)
  qed simp
  moreover have "stuck oc view p t a rest st TsCheck" using assms(4-7) by (simp add: stuck_def)
  ultimately show ?thesis using assms(8) by (auto simp: stuck_def)
qed

text \<open>Results that come late hang the thread. Three retries whose waits all but the last end before the
  loops get to the item leave two results unread when the first is taken: one in the channel and one in
  the blocked handler, which holds the read lock that the thread waits for.\<close>

lemma late_results_hang:
  assumes "Node_Handle cf k0 st item = (st1, None)" "Node_Handle cf k1 st1 item = (st2, None)"
    and "Node_Handle cf k2 st2 item = (st3, None)" "env_turns cf (item_Id item) st3 ticks = (st4, None # r1 # r2 # rs)"
  shows "tryGetLocalAssign cf [(k0, [], []), (k1, [], []), (k2, [], ticks)] st item = (st4, None)"
  using assms by (simp add: tryGetLocalAssign_def TryAssignSleepTime_def local_return_def)

subsection \<open>Two threads that race\<close>

definition answers where
  "answers oc st t a \<longleftrightarrow>
     (\<exists>bin nd nds. oc_GenerateItemBinary oc a = Inr bin \<and> outbox_nodes (os_node st) t a = nd # nds \<and>
        \<not> isSelf oc (os_node st) nd \<and> (\<forall>n. snd (tryGetAssign oc n (item_Id a) (nd # nds) bin) = None))"

lemma answers_deliver:
  assumes "answers oc st t a"
  shows "\<exists>st'. deliver oc rs st t a = (st', Some True) \<and> (\<forall>x. answers oc st' t x = answers oc st t x) \<and> ns_db (os_node st') = ns_db (os_node st) \<and>
    os_lock st' = os_lock st"
proof -
  obtain bin nd nds where a: "oc_GenerateItemBinary oc a = Inr bin" "outbox_nodes (os_node st) t a = nd # nds"
    "\<not> isSelf oc (os_node st) nd" "\<And>n. snd (tryGetAssign oc n (item_Id a) (nd # nds) bin) = None"
    using assms unfolding answers_def by blast
  obtain net where n: "tryGetAssign oc (os_net st) (item_Id a) (nd # nds) bin = (net, None)" using a(4) by (metis prod.collapse)
  have same: "outbox_nodes (Node_Info y) t x = outbox_nodes y t x" "isSelf oc (Node_Info y) z = isSelf oc y z" for x y z
    by (simp_all add: outbox_nodes_def isSelf_def)
  with a n show ?thesis by (simp add: deliver_def answers_def same)
qed

lemma answers_set_db [simp]: "answers oc (set_db st db) t a = answers oc st t a"
  "answers oc (st\<lparr>os_lock := l\<rparr>) t a = answers oc st t a"
  by (simp_all add: answers_def)

text \<open>An answered queue empties.\<close>

lemma Commit_pops:
  assumes ok: "redis_ok rd view" and pop: "\<And>e. snd (rd_lpop rd db (outbox_key p t)) \<noteq> RedisErr e"
    and l: "ob_list view db (p @ '':'' @ t) = v # vs"
  shows "\<exists>db'. CommitOutbox rd db p t = (db', None) \<and> ob_list view db' (p @ '':'' @ t) = vs"
proof -
  have k: "ks_list (view db) (outbox_key p t) = v # vs" using l by (simp add: ob_list_def outbox_key_def)
  obtain db' r where r: "rd_lpop rd db (outbox_key p t) = (db', r)" by fastforce
  obtain x where "r = Reply x" using redis_ok_D(5) [OF ok, of db "outbox_key p t" db'] k r pop by (cases r) auto
  with redis_ok_D(4) [OF ok, of db "outbox_key p t" db' x] r k show ?thesis
    by (auto simp: CommitOutbox_def ob_list_def outbox_key_def)
qed

lemma Peek_head:
  assumes ok: "redis_ok rd view" "redis_up rd" "codec_ok cd" and l: "ob_list view db (p @ '':'' @ t) = map (enc_item cd) xs"
  obtains db' where "PeekOutbox rd cd db p t = (db', Inr (case xs of [] \<Rightarrow> None | x # _ \<Rightarrow> Some x))"
    "ob_list view db' (p @ '':'' @ t) = map (enc_item cd) xs"
  using Peek_list(1) [OF ok, of db p t] Peek_list(2) [OF ok l] l that
  by (cases "PeekOutbox rd cd db p t") (auto simp: ob_list_def)

lemma trySend_peek:
  assumes ok: "redis_ok (nc_redis (oc_node oc)) view" "redis_up (nc_redis (oc_node oc))" "codec_ok (nc_codec (oc_node oc))"
    and pop: "\<forall>s k e. snd (rd_lpop (nc_redis (oc_node oc)) s k) \<noteq> RedisErr e"
  shows "ob_list view (ns_db (os_node st)) (p @ '':'' @ t) = map (enc_item (nc_codec (oc_node oc))) xs \<Longrightarrow>
    \<forall>x \<in> set xs. answers oc st t x \<Longrightarrow>
    \<exists>st'. trySend oc p t (replicate (3 * length xs + 2) []) (st, TsPeek) = ((st', TsDone), map (EvDelivered p t) xs) \<and>
      ob_list view (ns_db (os_node st')) (p @ '':'' @ t) = [] \<and> \<not> os_lock st' (p @ t)"
proof (induction xs arbitrary: st)
  case Nil
  obtain db1 where p1: "PeekOutbox (nc_redis (oc_node oc)) (nc_codec (oc_node oc)) (ns_db (os_node st)) p t = (db1, Inr None)"
    "ob_list view db1 (p @ '':'' @ t) = []" using Peek_head [OF ok Nil(1)] by auto
  then show ?case by (simp add: numeral_2_eq_2)
next
  case (Cons a xs)
  obtain db1 where p1: "PeekOutbox (nc_redis (oc_node oc)) (nc_codec (oc_node oc)) (ns_db (os_node st)) p t = (db1, Inr (Some a))"
    "ob_list view db1 (p @ '':'' @ t) = map (enc_item (nc_codec (oc_node oc))) (a # xs)" using Peek_head [OF ok Cons.prems(1)] by auto
  have "answers oc (set_db st db1) t a" using Cons.prems(2) by simp
  from answers_deliver [OF this, of "[]"] obtain s1 where
    d: "deliver oc [] (set_db st db1) t a = (s1, Some True)" "ns_db (os_node s1) = db1"
    and same: "\<And>x. answers oc s1 t x = answers oc st t x" by auto
  obtain db2 where c: "CommitOutbox (nc_redis (oc_node oc)) db1 p t = (db2, None)"
    "ob_list view db2 (p @ '':'' @ t) = map (enc_item (nc_codec (oc_node oc))) xs"
    using Commit_pops [OF ok(1), of db1 p t] pop p1(2) by auto
  have "\<forall>x \<in> set xs. answers oc (set_db s1 db2) t x" using Cons.prems(2) same by simp
  with Cons.IH [of "set_db s1 db2"] c(2) obtain st' where r:
    "trySend oc p t (replicate (3 * length xs + 2) []) (set_db s1 db2, TsPeek) = ((st', TsDone), map (EvDelivered p t) xs)"
    "ob_list view (ns_db (os_node st')) (p @ '':'' @ t) = []" "\<not> os_lock st' (p @ t)" by auto
  have n: "3 * length (a # xs) + 2 = Suc (Suc (Suc (3 * length xs + 2)))" by simp
  show ?case unfolding n using p1(1) d c(1) r by simp
qed

text \<open>C26: a message for a node that answers leaves. A thread that runs alone on a queue of \<open>n\<close> items, each
  for a node that answers with its assignment, delivers them all in order, empties the list and
  releases the lock after \<open>3 n + 4\<close> steps; while the lock is held by another thread it does nothing.\<close>

theorem trysend_drains:
  assumes "redis_ok (nc_redis (oc_node oc)) view" and "redis_up (nc_redis (oc_node oc))" and "codec_ok (nc_codec (oc_node oc))"
    and "\<forall>s k e. snd (rd_lpop (nc_redis (oc_node oc)) s k) \<noteq> RedisErr e"
    and "ob_list view (ns_db (os_node st)) (p @ '':'' @ t) = map (enc_item (nc_codec (oc_node oc))) xs"
    and "\<forall>x \<in> set xs. answers oc st t x"
  shows "if os_lock st (p @ t) then \<forall>n. trySend oc p t (replicate (Suc n) []) (st, TsCheck) = ((st, TsDone), [])
    else \<exists>st'. trySend oc p t (replicate (3 * length xs + 4) []) (st, TsCheck) = ((st', TsDone), map (EvDelivered p t) xs) \<and>
      ob_list view (ns_db (os_node st')) (p @ '':'' @ t) = [] \<and> \<not> os_lock st' (p @ t)"
proof (cases "os_lock st (p @ t)")
  case True
  have "trySend oc p t (replicate n []) (st, TsDone) = ((st, TsDone), [])" for n by (induction n) simp_all
  with True show ?thesis by simp
next
  case False
  let ?s = "st\<lparr>os_lock := (os_lock st)(p @ t := True)\<rparr>"
  have l: "ob_list view (ns_db (os_node ?s)) (p @ '':'' @ t) = map (enc_item (nc_codec (oc_node oc))) xs"
    and a: "\<forall>x \<in> set xs. answers oc ?s t x" using assms(5,6) by simp_all
  have n: "3 * length xs + 4 = Suc (Suc (3 * length xs + 2))" by simp
  from trySend_peek [OF assms(1-4) l a] False show ?thesis unfolding n by auto
qed

definition race :: "string \<Rightarrow> string \<Rightarrow> ob_act list" where
  "race p t = [ActTrySend p t, ActTrySend p t, ActThread 0 [], ActThread 1 [], ActThread 0 [], ActThread 1 [],
     ActThread 0 [], ActThread 1 [], ActThread 0 [], ActThread 1 [], ActThread 0 [], ActThread 1 []]"

text \<open>C28: two threads of one queue that race lose a message. The sending lock is checked and taken in two
  steps, so that two calls of \<open>TrySend\<close> (a send of a machine starts one, and so does every request to the
  route of that name) can both pass the check. Both then deliver the first item, which the other node
  answers both times, and both remove the head of the list: the second item is gone from the queue
  without ever having been sent.\<close>

theorem trysend_race_loses:
  assumes "redis_ok (nc_redis (oc_node oc)) view" and "redis_up (nc_redis (oc_node oc))" and "codec_ok (nc_codec (oc_node oc))"
    and "\<forall>s k e. snd (rd_lpop (nc_redis (oc_node oc)) s k) \<noteq> RedisErr e"
    and "ob_list view (ns_db (os_node st)) (p @ '':'' @ t) = map (enc_item (nc_codec (oc_node oc))) (a # b # rest)"
    and "\<not> os_lock st (p @ t)" and "answers oc st t a"
  shows "\<exists>st' ths. ob_run oc (st, []) (race p t) = ((st', ths), [EvDelivered p t a, EvDelivered p t a]) \<and>
    ob_list view (ns_db (os_node st')) (p @ '':'' @ t) = map (enc_item (nc_codec (oc_node oc))) rest"
proof -
  let ?rd = "nc_redis (oc_node oc)" and ?cd = "nc_codec (oc_node oc)"
  let ?l = "map (enc_item ?cd) (a # b # rest)"
  let ?s1 = "st\<lparr>os_lock := (os_lock st)(p @ t := True)\<rparr>"
  obtain db1 where p1: "PeekOutbox ?rd ?cd (ns_db (os_node st)) p t = (db1, Inr (Some a))" "ob_list view db1 (p @ '':'' @ t) = ?l"
    using Peek_head [OF assms(1-3,5)] by auto
  obtain db2 where p2: "PeekOutbox ?rd ?cd db1 p t = (db2, Inr (Some a))" "ob_list view db2 (p @ '':'' @ t) = ?l"
    using Peek_head [OF assms(1-3) p1(2)] by auto
  let ?s2 = "set_db (set_db ?s1 db1) db2"
  have "answers oc ?s2 t a" using assms(7) by simp
  then obtain s3 where d1: "deliver oc [] ?s2 t a = (s3, Some True)" "answers oc s3 t a" "ns_db (os_node s3) = db2"
    using answers_deliver [of oc ?s2 t a "[]"] by auto
  obtain s4 where d2: "deliver oc [] s3 t a = (s4, Some True)" "ns_db (os_node s4) = db2"
    using answers_deliver [OF d1(2), of "[]"] d1(3) by auto
  obtain db3 where c1: "CommitOutbox ?rd db2 p t = (db3, None)" "ob_list view db3 (p @ '':'' @ t) = map (enc_item ?cd) (b # rest)"
    using Commit_pops [OF assms(1), of db2 p t] assms(4) p2(2) by auto
  obtain db4 where c2: "CommitOutbox ?rd db3 p t = (db4, None)" "ob_list view db4 (p @ '':'' @ t) = map (enc_item ?cd) rest"
    using Commit_pops [OF assms(1), of db3 p t] assms(4) c1(2) by auto
  show ?thesis
    unfolding race_def using assms(6) p1 p2 d1 d2 c1 c2 by simp
qed

end
