(* ===== verification/OutboxDemo.thy ===== *)
theory OutboxDemo
  imports OutboxFaults ForkLive
begin

text \<open>
  Instances of the outbox theorems: a process \<open>p\<close> of this node writes to the process \<open>q\<close>, which the
  registry lists under the node \<open>0xb\<close>.
\<close>

definition out_lib :: extlib where
  "out_lib = demo_lib\<lparr>owner_to_address := (\<lambda>_. Some ''0xb'')\<rparr>"

definition out_item :: "string \<Rightarrow> bundle_item" where
  "out_item i = log_item i [Tag ''Type'' ''Message'']"

definition out_sdk :: "(string list, string) sdk_cfg" where
  "out_sdk = (sdk_cfg.truncate demo_kit)\<lparr>sk_lib := out_lib,
     sk_DecodeBundleItem := (\<lambda>_. BinItem (fork_assign ''m1'' ''1''))\<rparr>"

definition out_cfg :: "string \<Rightarrow> (nat, keyspace \<times> nat list, unit, string list, string) ob_cfg" where
  "out_cfg u = \<lparr>oc_node = NodeProps.demo_cfg\<lparr>nc_lib := out_lib\<rparr>, oc_sdk = out_sdk, oc_client = NewClient [], oc_hymxURL = [],
     oc_URL = u, oc_GenerateItemBinary = (\<lambda>_. Inr [])\<rparr>"

definition out_keys :: "bundle_item list \<Rightarrow> keyspace" where
  "out_keys xs = ks_cmds (ks_cmds empty_keyspace (commit_cmds demo_codec ''q'' 0 (out_item ''m1'') (demo_item ''a0'')))
     (map (\<lambda>x. CRPush (outbox_key ''p'' ''q'') (enc_item demo_codec x)) xs)"

definition out_state :: "string \<Rightarrow> bundle_item list \<Rightarrow> (nat, keyspace \<times> nat list, unit, string list) ob_state" where
  "out_state accId xs = \<lparr>os_node = demo_state\<lparr>ns_vmm := web_vmm, ns_db := (out_keys xs, []), ns_AccId := accId\<rparr>,
     os_net = [], os_lock = (\<lambda>_. False)\<rparr>"

lemma out_redis: "redis_ok (nc_redis (oc_node (out_cfg u))) fst" "redis_up (nc_redis (oc_node (out_cfg u)))"
  "codec_ok (nc_codec (oc_node (out_cfg u)))" "\<forall>s k e. snd (rd_lpop (nc_redis (oc_node (out_cfg u))) s k) \<noteq> RedisErr e"
  using demo_up_ok demo_codec_ok by (simp_all add: out_cfg_def NodeProps.demo_cfg_def demo_up_def demo_redis_def)

lemma out_pushes:
  "ks_list (ks_cmds ks (map (\<lambda>x. CRPush k (enc x)) xs)) k = ks_list ks k @ map enc xs"
  "l \<noteq> k \<Longrightarrow> ks_list (ks_cmds ks (map (\<lambda>x. CRPush k (enc x)) xs)) l = ks_list ks l"
  "ks_hash (ks_cmds ks (map (\<lambda>x. CRPush k (enc x)) xs)) = ks_hash ks"
  by (induction xs arbitrary: ks) auto

lemma out_list: "ob_list fst (ns_db (os_node (out_state n xs))) (''p'' @ '':'' @ ''q'') =
    map (enc_item (nc_codec (oc_node (out_cfg u)))) xs"
  using out_pushes(1) [of _ "outbox_key ''p'' ''q''" "enc_item demo_codec" xs]
  by (simp add: ob_list_def out_state_def out_keys_def out_cfg_def NodeProps.demo_cfg_def outbox_key_def commit_cmds_def
      empty_keyspace_def rdb_keys)

lemma out_nodes: "outbox_nodes (os_node (out_state n xs)) ''q'' (out_item i) = [node_b]"
  by (simp add: outbox_nodes_def out_item_def log_item_def GetType_def type_defs out_state_def web_queries(1))

lemma out_answers: "answers (out_cfg u) (out_state ''0xa'' xs) ''q'' (out_item ''m1'')"
proof -
  have d: "Decode out_lib (fork_assign m n) = Inr (''p'', ''0xb'', [], IAssignment (fork_asg m n))" for m n
    by (simp add: Decode_def item_signer_def out_lib_def demo_lib_def fork_assign_def log_item_def GetType_def type_defs
        fork_asg_def DecodeItemToAssignment_def TagsToAssignment_def CheckDuplicateTag_def zero_assignment_def
        TagsToBase_def zero_base_def)
  have g: "\<exists>n'. GetAssignBinByMessage out_sdk c n ''m1'' = (n', Inr (fork_assign ''m1'' ''1''))" if "cl_httpClient c" for c n
    using that
    by (simp add: GetAssignBinByMessage_def getItemBinary_def getBinary_def http_Get_def http_Do_def request_of_def
        buildURL_def NewRequest_def decodeItemBinary_def out_sdk_def demo_kit_def demo_url_def demo_resp_def sdk_cfg.defs
        out_lib_def demo_lib_def fork_assign_def log_item_def GetType_def type_defs)
  have "snd (tryGetAssign (out_cfg u) n ''m1'' [node_b] []) = None" for n
  proof -
    obtain n1 r where s: "Client_Send out_sdk (NewClient ''http://b'') n [] = (n1, r)" by fastforce
    obtain n2 where "GetAssignBinByMessage out_sdk (NewClient ''http://b'') n1 ''m1'' = (n2, Inr (fork_assign ''m1'' ''1''))"
      using g [of "NewClient ''http://b''" n1] by (auto simp: NewClient_def)
    with s show ?thesis
      by (simp add: tryGetAssign_def out_cfg_def NodeProps.demo_cfg_def node_b_def TryAssignSleepTime_def d)
  qed
  then show ?thesis
    unfolding answers_def using out_nodes [of "''0xa''" xs "''m1''"]
    by (simp add: out_cfg_def isSelf_def out_state_def node_b_def) (simp add: out_item_def log_item_def)
qed

theorem trysend_drains_witness:
  "\<exists>st'. trySend (out_cfg []) ''p'' ''q'' (replicate 7 []) (out_state ''0xa'' [out_item ''m1''], TsCheck) =
     ((st', TsDone), [EvDelivered ''p'' ''q'' (out_item ''m1'')]) \<and> ob_list fst (ns_db (os_node st')) (''p'' @ '':'' @ ''q'') = []"
proof -
  have a: "\<forall>x \<in> set [out_item ''m1'']. answers (out_cfg []) (out_state ''0xa'' [out_item ''m1'']) ''q'' x"
    using out_answers by simp
  have "\<not> os_lock (out_state ''0xa'' [out_item ''m1'']) (''p'' @ ''q'')" by (simp add: out_state_def)
  with trysend_drains [OF out_redis(1-4) out_list a] show ?thesis by auto
qed

theorem trysend_race_loses_witness:
  "\<exists>st' ths. ob_run (out_cfg []) (out_state ''0xa'' [out_item ''m1'', out_item ''m2''], []) (race ''p'' ''q'') =
     ((st', ths), [EvDelivered ''p'' ''q'' (out_item ''m1''), EvDelivered ''p'' ''q'' (out_item ''m1'')]) \<and>
     ob_list fst (ns_db (os_node st')) (''p'' @ '':'' @ ''q'') = [] \<and> out_item ''m2'' \<noteq> out_item ''m1''"
proof -
  have l: "\<not> os_lock (out_state ''0xa'' [out_item ''m1'', out_item ''m2'']) (''p'' @ ''q'')" by (simp add: out_state_def)
  from trysend_race_loses [OF out_redis(1-4) out_list l out_answers] show ?thesis
    by (auto simp: out_item_def log_item_def)
qed

text \<open>The same queue, of which this node is the node of the target.\<close>

theorem duplicate_blocks_outbox_witness:
  "\<exists>st' pc. trySend (out_cfg ''http://b'') ''p'' ''q'' (replicate 6 [(0, [], [TkMsg 5])])
       (out_state ''0xb'' [out_item ''m1'', out_item ''m2''], TsCheck) = ((st', pc), []) \<and>
     ob_list fst (ns_db (os_node st')) (''p'' @ '':'' @ ''q'') = map (enc_item demo_codec) [out_item ''m1'', out_item ''m2'']"
proof -
  let ?st = "out_state ''0xb'' [out_item ''m1'', out_item ''m2'']"
  obtain st' pc evs where r: "trySend (out_cfg ''http://b'') ''p'' ''q'' (replicate 6 [(0, [], [TkMsg 5])]) (?st, TsCheck) = ((st', pc), evs)"
    by (metis prod.exhaust)
  have "logged (nc_codec (oc_node (out_cfg ''http://b''))) (fst (ns_db (os_node ?st))) (item_Id (out_item ''m1''))"
    unfolding logged_def
    using demo_codec_ok
    by (intro exI [of _ "''q''"]) (rule exI [of _ 0], simp add: out_state_def out_keys_def out_pushes outbox_key_def
        commit_cmds_def empty_keyspace_def rdb_keys out_cfg_def NodeProps.demo_cfg_def codec_ok_def place_def out_item_def log_item_def)
  moreover have "isSelf (out_cfg ''http://b'') (os_node ?st) node_b"
    by (simp add: isSelf_def out_cfg_def out_state_def node_b_def)
  ultimately show ?thesis
    using duplicate_blocks_outbox [OF out_redis(1-3) out_list _ out_nodes _ r] r by (auto simp: out_cfg_def NodeProps.demo_cfg_def)
qed

theorem outbox_in_order_witness:
  "\<exists>st' ths sent rest. ob_run (out_cfg []) (out_state ''0xa'' [out_item ''m1'', out_item ''m2''], [])
       (ActTrySend ''p'' ''q'' # replicate 5 (ActThread 0 [])) = ((st', ths), [EvDelivered ''p'' ''q'' (out_item ''m1'')]) \<and>
     [out_item ''m1'', out_item ''m2''] = sent @ rest \<and> set sent \<subseteq> {out_item ''m1''} \<and>
     ob_list fst (ns_db (os_node st')) (''p'' @ '':'' @ ''q'') = map (enc_item demo_codec) rest"
proof -
  let ?oc = "out_cfg []" and ?xs = "[out_item ''m1'', out_item ''m2'']"
  let ?st = "out_state ''0xa'' ?xs" and ?acts = "ActTrySend ''p'' ''q'' # replicate 5 (ActThread 0 [])"
  let ?rd = "nc_redis (oc_node ?oc)" and ?cd = "nc_codec (oc_node ?oc)"
  have free: "race_free ?oc l (st, [th]) (replicate n (ActThread 0 []))" for l st th n
    by (induction n arbitrary: st th) (auto split: prod.splits)
  have lock: "\<not> os_lock ?st (''p'' @ ''q'')" by (simp add: out_state_def)
  obtain db1 where p0: "PeekOutbox ?rd ?cd (ns_db (os_node ?st)) ''p'' ''q'' = (db1, Inr (case ?xs of [] \<Rightarrow> None | x # _ \<Rightarrow> Some x))"
    "ob_list fst db1 (''p'' @ '':'' @ ''q'') = map (enc_item ?cd) ?xs"
    by (rule Peek_head [OF out_redis(1-3) out_list])
  then have p1: "PeekOutbox ?rd ?cd (ns_db (os_node ?st)) ''p'' ''q'' = (db1, Inr (Some (out_item ''m1'')))" by simp
  let ?s2 = "set_db (?st\<lparr>os_lock := (os_lock ?st)(''p'' @ ''q'' := True)\<rparr>) db1"
  have "answers ?oc ?s2 ''q'' (out_item ''m1'')" using out_answers by simp
  then obtain s3 where d: "deliver ?oc [] ?s2 ''q'' (out_item ''m1'') = (s3, Some True)" "ns_db (os_node s3) = db1"
    using answers_deliver [of ?oc ?s2 "''q''" "out_item ''m1''" "[]"] by auto
  obtain db2 where c: "CommitOutbox ?rd db1 ''p'' ''q'' = (db2, None)"
    using Commit_pops [OF out_redis(1) [of "[]"], of db1 "''p''" "''q''"] out_redis(4) p0(2) by auto
  have n: "5 = Suc (Suc (Suc (Suc (Suc 0))))" by simp
  obtain st' ths where r: "ob_run ?oc (?st, []) ?acts = ((st', ths), [EvDelivered ''p'' ''q'' (out_item ''m1'')])"
    unfolding n using lock p1 d c by simp
  have "\<exists>sent rest. ?xs @ pushed ''p'' ''q'' [EvDelivered ''p'' ''q'' (out_item ''m1'')] = sent @ rest \<and>
      ob_list fst (ns_db (os_node st')) (''p'' @ '':'' @ ''q'') = map (enc_item ?cd) rest \<and>
      (\<forall>x \<in> set sent. EvDelivered ''p'' ''q'' x \<in> set [EvDelivered ''p'' ''q'' (out_item ''m1'')])"
    by (rule outbox_in_order [OF out_redis(1-3) _ _ out_list _ r]) (simp_all add: free)
  with r show ?thesis by (auto simp: out_cfg_def NodeProps.demo_cfg_def)
qed

end
