(* ===== verification/NodeLife.thy ===== *)
theory NodeLife
  imports Sdk PayService
begin

text \<open>
  The life of a node: the scan of its database for processes (db/rdb/get.go), the recovery of all of
  them at its start (node/recovery.go, replay.go), the loop that stores results (channel.go), its
  handlers (node.go), joining and leaving the network (join.go), and the shutdown of the node and of
  the server around it with the checkpoint of the payment ledger (node.go, server/server.go,
  pay/pay.go). Parameters: \<open>SCAN\<close> of Redis, the pool the recovery tasks are given to, the address of
  the node's information page, and the JSON text of the ledger.
\<close>

subsection \<open>The processes of the database (get.go)\<close>

type_synonym 'r scanner = "'r \<Rightarrow> 64 word \<Rightarrow> string \<Rightarrow> nat \<Rightarrow> 'r \<times> (string + string list \<times> 64 word)"

text \<open>A nonce that cannot be read or parsed is left out.\<close>

fun scan_keys :: "'r redis \<Rightarrow> 'r \<Rightarrow> string list \<Rightarrow> 'r \<times> (string \<times> int64) list" where
  "scan_keys rd s [] = (s, [])"
| "scan_keys rd s (key # keys) =
     (case rd_get rd s key of
        (s1, Reply v) \<Rightarrow>
          (case scan_keys rd s1 keys of
             (s2, ps) \<Rightarrow> (s2, case ParseInt v of None \<Rightarrow> ps | Some n \<Rightarrow> (TrimPrefix key RdbProcessNoncePrefix, n) # ps))
      | (s1, _) \<Rightarrow> scan_keys rd s1 keys)"

partial_function (option) scan_loop ::
  "'r redis \<Rightarrow> 'r scanner \<Rightarrow> 'r \<Rightarrow> 64 word \<Rightarrow> (string \<times> int64) list \<Rightarrow> ('r \<times> (sys_err + (string \<times> int64) list)) option" where
  "scan_loop rd scan s cursor acc =
     (case scan s cursor (RdbProcessNoncePrefix @ ''*'') 100 of
        (s1, Inl e) \<Rightarrow> Some (s1, Inl (OtherErr e))
      | (s1, Inr (keys, cursor')) \<Rightarrow>
          (case scan_keys rd s1 keys of
             (s2, ps) \<Rightarrow> if cursor' = 0 then Some (s2, Inr (acc @ ps)) else scan_loop rd scan s2 cursor' (acc @ ps)))"

definition GetAllProcess ::
  "'r redis \<Rightarrow> 'r scanner \<Rightarrow> 'r \<Rightarrow> ('r \<times> (sys_err + (string \<times> int64) list)) option" where
  "GetAllProcess rd scan s = scan_loop rd scan s 0 []"

subsection \<open>Recovery of all processes (recovery.go, replay.go)\<close>

text \<open>A task and what it did; \<open>accept i\<close> says that the pool takes the \<open>i\<close>-th task. Tasks of different
  processes run at the same time in the program; here one runs after the other.\<close>

definition recovery_task ::
  "('s, 'r, 'h, 'u, 'o, 'f) rec_cfg \<Rightarrow> (int64 \<Rightarrow> bool) \<Rightarrow> exec_mode \<Rightarrow> ('s, 'r, 'h, 'u, 'o, 'f) rec_state \<Rightarrow>
     string \<times> int64 \<Rightarrow> (('s, 'r, 'h, 'u, 'o, 'f) rec_state \<times> handled list \<times> sys_err option) option" where
  "recovery_task cf closed mode st p =
     (case GetCheckpointIndex (nc_redis cf) (ns_db st) (fst p) of
        (db, r) \<Rightarrow> recoveryProcess cf closed (st\<lparr>ns_db := db\<rparr>) (fst p) (snd p)
          (case r of Inl _ \<Rightarrow> [] | Inr ckpId \<Rightarrow> ckpId) mode)"

fun recovery_tasks ::
  "('s, 'r, 'h, 'u, 'o, 'f) rec_cfg \<Rightarrow> (int64 \<Rightarrow> bool) \<Rightarrow> exec_mode \<Rightarrow> (nat \<Rightarrow> bool) \<Rightarrow> nat \<Rightarrow>
     ('s, 'r, 'h, 'u, 'o, 'f) rec_state \<Rightarrow> (string \<times> int64) list \<Rightarrow>
     (('s, 'r, 'h, 'u, 'o, 'f) rec_state \<times> bool list) option" where
  "recovery_tasks cf closed mode accept i st [] = Some (st, [])"
| "recovery_tasks cf closed mode accept i st (p # ps) =
     (if accept i
      then (case recovery_task cf closed mode st p of
          None \<Rightarrow> None
        | Some (st1, _, _) \<Rightarrow>
            map_option (\<lambda>(st2, ran). (st2, True # ran)) (recovery_tasks cf closed mode accept (Suc i) st1 ps))
      else map_option (\<lambda>(st2, ran). (st2, False # ran)) (recovery_tasks cf closed mode accept (Suc i) st ps))"

text \<open>\<open>runRecovery\<close> waits for every task, also for those the pool refused: then it never returns,
  which the flag says.\<close>

definition runRecovery ::
  "('s, 'r, 'h, 'u, 'o, 'f) rec_cfg \<Rightarrow> 'r scanner \<Rightarrow> (int64 \<Rightarrow> bool) \<Rightarrow> (nat \<Rightarrow> bool) \<Rightarrow>
     ('s, 'r, 'h, 'u, 'o, 'f) rec_state \<Rightarrow> (('s, 'r, 'h, 'u, 'o, 'f) rec_state \<times> (sys_err + bool)) option" where
  "runRecovery cf scan closed accept st =
     (case GetAllProcess (nc_redis cf) scan (ns_db st) of
        None \<Rightarrow> None
      | Some (db, Inl e) \<Rightarrow> Some (st\<lparr>ns_db := db\<rparr>, Inl e)
      | Some (db, Inr ps) \<Rightarrow>
          map_option (\<lambda>(st', ran). (st', Inr (\<forall>b \<in> set ran. b)))
            (recovery_tasks cf closed ExecModeDryRun accept 0 (st\<lparr>ns_db := db\<rparr>) ps))"

definition getMaxNonce ::
  "('s, 'r, 'h, 'u, 'o, 'f) rec_cfg \<Rightarrow> ('s, 'r, 'h, 'u, 'o, 'f) rec_state \<Rightarrow> string \<Rightarrow>
     ('s, 'r, 'h, 'u, 'o, 'f) rec_state \<times> (sys_err + int64)" where
  "getMaxNonce cf st pid =
     (case rc_chain cf of
        None \<Rightarrow> (st, Inl (OtherErr ''chainkit is nil''))
      | Some ck \<Rightarrow>
          (case GetMaxNonce ck \<lparr>ck_up = rs_up st, ck_node = ns_db st, ck_op = rs_op st\<rparr> (ns_AccId st) pid of
             (c, r) \<Rightarrow> (st\<lparr>rs_up := ck_up c, ns_db := ck_node c, rs_op := ck_op c\<rparr>,
               case r of Inl e \<Rightarrow> Inl (chain_error e) | Inr n \<Rightarrow> Inr n)))"

text \<open>A replay without a database takes the processes from the network and their nonces from the chain;
  the first nonce that cannot be had ends it, after the tasks before it have been started.\<close>

fun replay_tasks ::
  "('s, 'r, 'h, 'u, 'o, 'f) rec_cfg \<Rightarrow> (int64 \<Rightarrow> bool) \<Rightarrow> (nat \<Rightarrow> bool) \<Rightarrow> nat \<Rightarrow>
     ('s, 'r, 'h, 'u, 'o, 'f) rec_state \<Rightarrow> (string \<times> int64 option) list \<Rightarrow>
     (('s, 'r, 'h, 'u, 'o, 'f) rec_state \<times> sys_err option) option" where
  "replay_tasks cf closed accept i st [] = Some (st, None)"
| "replay_tasks cf closed accept i st ((pid, known) # ps) =
     (case (case known of Some n \<Rightarrow> (st, Inr n) | None \<Rightarrow> getMaxNonce cf st pid) of
        (st1, Inl e) \<Rightarrow> Some (st1, Some e)
      | (st1, Inr n) \<Rightarrow>
          if accept i
          then (case recovery_task cf closed ExecModeReplay st1 (pid, n) of
              None \<Rightarrow> None | Some (st2, _, _) \<Rightarrow> replay_tasks cf closed accept (Suc i) st2 ps)
          else replay_tasks cf closed accept (Suc i) st1 ps)"

definition runReplay ::
  "('s, 'r, 'h, 'u, 'o, 'f) rec_cfg \<Rightarrow> 'r scanner \<Rightarrow> (int64 \<Rightarrow> bool) \<Rightarrow> (nat \<Rightarrow> bool) \<Rightarrow>
     ('n, 'j) sdk_cfg \<Rightarrow> client \<Rightarrow> 'n \<Rightarrow> ('s, 'r, 'h, 'u, 'o, 'f) rec_state \<Rightarrow>
     ('n \<times> ('s, 'r, 'h, 'u, 'o, 'f) rec_state \<times> sys_err option) option" where
  "runReplay cf scan closed accept sc cli n st =
     (case GetAllProcess (nc_redis cf) scan (ns_db st) of
        None \<Rightarrow> None
      | Some (db, r) \<Rightarrow>
          (if is_err r \<or> r = Inr []
           then (case Client_GetProcesses sc cli n (ns_AccId st) of
               (n1, Inl e) \<Rightarrow> Some (n1, st\<lparr>ns_db := db\<rparr>, Some e)
             | (n1, Inr pids) \<Rightarrow>
                 map_option (Pair n1) (replay_tasks cf closed accept 0 (st\<lparr>ns_db := db\<rparr>) (map (\<lambda>p. (p, None)) pids)))
           else map_option (Pair n) (replay_tasks cf closed accept 0 (st\<lparr>ns_db := db\<rparr>)
             (case r of Inr ps \<Rightarrow> map (\<lambda>(p, k). (p, Some k)) ps | Inl _ \<Rightarrow> []))))"

subsection \<open>The loop of the results (channel.go)\<close>

text \<open>Handlers see every result, also those of a recovery; only results of the modes apply and replay
  are stored, the cache entry by entry and the result without its cache. Errors are logged.\<close>

definition save_cache :: "'r redis \<Rightarrow> 'r \<Rightarrow> string \<Rightarrow> (string, string) gomap \<Rightarrow> 'r" where
  "save_cache rd s pid cache = foldl (\<lambda>s (k, v). fst (SaveCache rd s pid k v)) s cache"

definition result_turn ::
  "'r redis \<Rightarrow> db_codec \<Rightarrow> ('h \<Rightarrow> vmm_result \<Rightarrow> 'h) list \<Rightarrow> 'h \<times> 'r \<Rightarrow> vmm_result \<Rightarrow> 'h \<times> 'r" where
  "result_turn rd cd handlers st result =
     (foldl (\<lambda>h handler. handler h result) (fst st) handlers,
      if vr_Mode result = ExecModeDryRun then snd st
      else fst (SaveResult rd cd (save_cache rd (snd st) (vr_FromProcess result) (vr_Cache result))
        (result\<lparr>vr_Cache := []\<rparr>)))"

definition runResultChan ::
  "'r redis \<Rightarrow> db_codec \<Rightarrow> ('h \<Rightarrow> vmm_result \<Rightarrow> 'h) list \<Rightarrow> 'h \<times> 'r \<Rightarrow> vmm_result list \<Rightarrow> 'h \<times> 'r" where
  "runResultChan rd cd handlers = foldl (result_turn rd cd handlers)"

subsection \<open>Handlers (node.go)\<close>

definition AddItemHandler ::
  "('s, 'r, 'h) node_cfg \<Rightarrow> ('h \<Rightarrow> item_meta \<Rightarrow> 'h \<times> sys_err option) list \<Rightarrow> ('s, 'r, 'h) node_cfg" where
  "AddItemHandler cf handler = cf\<lparr>nc_handlers := nc_handlers cf @ handler\<rparr>"

definition AddResultHandler ::
  "('h \<Rightarrow> vmm_result \<Rightarrow> 'h) list \<Rightarrow> ('h \<Rightarrow> vmm_result \<Rightarrow> 'h) list \<Rightarrow> ('h \<Rightarrow> vmm_result \<Rightarrow> 'h) list" where
  "AddResultHandler handlers handler = handlers @ handler"

subsection \<open>Joining and leaving the network (join.go)\<close>

definition StakeMinAmount :: int where "StakeMinAmount = 1000000000000"

text \<open>What the node knows of itself and its client; \<open>jc_info_url\<close> is the address of the information page
  below the node's own, if that parses.\<close>

record ('n, 'j, 'f) join_cfg =
  jc_kit :: "('n, 'j, 'f) kit"
  jc_client :: client
  jc_JoinNetwork :: bool
  jc_Node :: node
  jc_info_url :: "string \<Rightarrow> sys_err + string"

definition join_tags :: "string \<Rightarrow> ('n, 'j, 'f) join_cfg \<Rightarrow> string \<Rightarrow> tag list" where
  "join_tags action jc registry =
     [Tag ''Action'' action, Tag ''Quantity'' (show_int StakeMinAmount), Tag ''Registry'' registry,
      Tag ''Acc-Id'' (kt_Address (jc_kit jc)), Tag ''Name'' (node_Name (jc_Node jc)),
      Tag ''Desc'' (node_Desc (jc_Node jc)), Tag ''URL'' (node_URL (jc_Node jc))]"

definition low_balance :: sys_err where
  "low_balance = OtherErr ''failed to join the network, insufficient balance''"

text \<open>\<open>Inl\<close> is a panic. The token and registry of the network become those of the node.\<close>

definition runJoin ::
  "('n, 'j, 'f) join_cfg \<Rightarrow> int64 \<Rightarrow> 'n \<Rightarrow> ('s, 'r, 'h, 'z) node_state_scheme \<Rightarrow>
     'n \<times> (sys_err + ('s, 'r, 'h, 'z) node_state_scheme)" where
  "runJoin jc now n st =
     (let k = jc_kit jc; sc = sdk_cfg.truncate k; cli = jc_client jc in
      if \<not> jc_JoinNetwork jc then (n, Inr st)
      else case jc_info_url jc (node_URL (jc_Node jc)) of
        Inl e \<Rightarrow> (n, Inl e)
      | Inr u \<Rightarrow>
     (case Client_Callback sc cli n u of
        (n1, Inl e) \<Rightarrow> (n1, Inl e)
      | (n1, Inr _) \<Rightarrow>
     (case Client_Info sc cli n1 of
        (n2, Inl e) \<Rightarrow> (n2, Inl e)
      | (n2, Inr i) \<Rightarrow>
     (let st2 = st\<lparr>ns_Token := inf_Token i, ns_Registry := inf_Registry i\<rparr> in
      case Client_StakeOf sc cli n2 (kt_Address k) of
        (n3, Inl e) \<Rightarrow> (n3, Inl e)
      | (n3, Inr sAmt) \<Rightarrow>
          if StakeMinAmount \<le> sAmt then (n3, Inr st2)
          else case Client_BalanceOf sc cli n3 (kt_Address k) of
            (n4, Inl e) \<Rightarrow> (n4, Inl e)
          | (n4, Inr amt) \<Rightarrow>
              if amt < StakeMinAmount then (n4, Inl low_balance)
              else (case SDK_SendMessage k now cli n4 (ns_Token st2) [] (join_tags ''Stake'' jc (ns_Registry st2)) of
                  (n5, Inl e) \<Rightarrow> (n5, Inl e)
                | (n5, Inr _) \<Rightarrow> (n5, Inr st2))))))"

definition leave ::
  "('n, 'j, 'f) join_cfg \<Rightarrow> int64 \<Rightarrow> 'n \<Rightarrow> ('s, 'r, 'h, 'z) node_state_scheme \<Rightarrow> 'n" where
  "leave jc now n st =
     (if \<not> jc_JoinNetwork jc then n
      else fst (SDK_SendMessage (jc_kit jc) now (jc_client jc) n (ns_Token st) []
        (join_tags ''Unstake'' jc (ns_Registry st))))"

subsection \<open>Shutdown of the node (node.go)\<close>

text \<open>The loops of the messages have ended when the checkpoints are written: those of all machines, or of
  the core processes only. Then the machines are closed.\<close>

definition save_cores ::
  "('s, 'r, 'h, 'u, 'o, 'f) rec_cfg \<Rightarrow> ('s, 'r, 'h, 'u, 'o, 'f) rec_state \<Rightarrow> ('s, 'r, 'h, 'u, 'o, 'f) rec_state" where
  "save_cores cf st = foldl (\<lambda>s pid. if isCore (node_state.truncate s) pid then fst (SaveCheckpoint cf s pid) else s)
     st (GetVmPids (ns_vmm st))"

definition Node_close ::
  "('s, 'r, 'h, 'u, 'o, 'f) rec_cfg \<Rightarrow> ('n, 'j, 'w) join_cfg \<Rightarrow> int64 \<Rightarrow> bool \<Rightarrow>
     'n \<times> ('s, 'r, 'h, 'u, 'o, 'f) rec_state \<Rightarrow> 'n \<times> ('s, 'r, 'h, 'u, 'o, 'f) rec_state" where
  "Node_close cf jc now checkpoint s =
     (case s of (n, st) \<Rightarrow>
      let st1 = (if checkpoint then runCheckpoint cf st else save_cores cf st)
      in (leave jc now n st, st1\<lparr>ns_vmm := Vmm_Close (ns_vmm st1)\<rparr>))"

subsection \<open>The payment ledger at start and shutdown (pay.go, server.go)\<close>

record 'f pay_files =
  pf_files :: "'f files"
  pf_enc :: "pay_snapshot \<Rightarrow> string"
  pf_dec :: "string \<Rightarrow> pay_snapshot option"

definition pay_file :: string where "pay_file = ''ckp/ckp-pay.json''"

definition Pay_SaveCheckpoint :: "'f pay_files \<Rightarrow> 'f \<Rightarrow> pay_db \<Rightarrow> 'f \<times> sys_err option" where
  "Pay_SaveCheckpoint pf fs db =
     (case fl_mkdir (pf_files pf) fs ''./ckp'' of
        (fs1, Some e) \<Rightarrow> (fs1, Some (OtherErr e))
      | (fs1, None) \<Rightarrow>
          (case fl_write (pf_files pf) fs1 pay_file (pf_enc pf (PayDb_Checkpoint db)) of
             (fs2, e) \<Rightarrow> (fs2, map_option OtherErr e)))"

definition Pay_LoadCheckpoint :: "'f pay_files \<Rightarrow> 'f \<Rightarrow> pay_db \<Rightarrow> 'f \<times> pay_db \<times> sys_err option" where
  "Pay_LoadCheckpoint pf fs db =
     (case fl_stat (pf_files pf) fs pay_file of
        (fs1, FileMissing) \<Rightarrow> (fs1, db, None)
      | (fs1, StatErr e) \<Rightarrow> (fs1, db, Some (OtherErr e))
      | (fs1, FileExists) \<Rightarrow>
          (case fl_read (pf_files pf) fs1 pay_file of
             (fs2, Inl e) \<Rightarrow> (fs2, db, Some (OtherErr e))
           | (fs2, Inr data) \<Rightarrow>
               (case pf_dec pf data of
                  None \<Rightarrow> (fs2, db, Some json_err)
                | Some snap \<Rightarrow> (fs2, PayDb_Restore db snap, None))))"

text \<open>The part of the server's start and shutdown that concerns the ledger and its handlers: the error of
  loading is dropped, and the ledger is written last.\<close>

definition Server_Run_pay ::
  "'f pay_files \<Rightarrow> pay_config \<Rightarrow> string \<Rightarrow> (string \<Rightarrow> bundle_item option) \<Rightarrow> ('s, 'r, pay_db) node_cfg \<Rightarrow> 'f \<Rightarrow> pay_db \<Rightarrow>
     'f \<times> pay_db \<times> ('s, 'r, pay_db) node_cfg \<times> (pay_db \<Rightarrow> vmm_result \<Rightarrow> pay_db) list" where
  "Server_Run_pay pf pc address get_bin cf fs db =
     (case Pay_LoadCheckpoint pf fs db of
        (fs1, db1, _) \<Rightarrow>
          (fs1, db1, AddItemHandler cf [HymxFeeHandler pc], AddResultHandler [] [HymxDepositHandler pc address get_bin]))"

definition Server_close_pay :: "'f pay_files \<Rightarrow> 'f \<Rightarrow> pay_db \<Rightarrow> 'f" where
  "Server_close_pay pf fs db = fst (Pay_SaveCheckpoint pf fs db)"

end
