(* ===== verification/ResultProps.thy ===== *)
theory ResultProps
  imports NodeLife OutboxProps RecoveryProps
begin

text \<open>
  What the result loop keeps: the balances and stakes that a node serves from its cache are those of the
  token, and deposits that a recovery shows to the payment service again are credited once.
\<close>

subsection \<open>Caches in Redis\<close>

definition cache_key :: "string \<Rightarrow> string \<Rightarrow> string" where
  "cache_key pid k = RdbCachePrefix @ pid @ '':'' @ k"

lemma cache_key_inj [simp]: "cache_key p k = cache_key p l \<longleftrightarrow> k = l"
  by (simp add: cache_key_def)

definition bal_key :: "string \<Rightarrow> string" where "bal_key a = ''balances:'' @ a"
definition stake_key :: "string \<Rightarrow> string" where "stake_key a = ''stakes:'' @ a"

lemma token_keys [simp]: "bal_key a = bal_key b \<longleftrightarrow> a = b" "stake_key a = stake_key b \<longleftrightarrow> a = b"
  "bal_key a \<noteq> stake_key b" "stake_key b \<noteq> bal_key a"
  by (simp_all add: bal_key_def stake_key_def)

lemma exec_up:
  assumes "redis_ok rd view" "redis_up rd"
  shows "view (fst (rd_exec rd s cs)) = ks_cmds (view s) cs"
proof -
  obtain s' r where r: "rd_exec rd s cs = (s', r)" by fastforce
  then have "r = None" using assms(2) unfolding redis_up_def by (metis snd_conv)
  with redis_ok_D(7) [OF assms(1)] r show ?thesis by auto
qed

lemma save_cache_strs:
  assumes "redis_ok rd view" "redis_up rd"
  shows "ks_str (view (save_cache rd s pid c)) =
    foldl (\<lambda>f (k, v). f(cache_key pid k \<mapsto> v)) (ks_str (view s)) c"
  by (induction c arbitrary: s)
    (auto simp: save_cache_def SaveCache_def exec_err_def exec_up [OF assms] cache_key_def)

lemma result_turn_strs:
  assumes "redis_ok rd view" "redis_up rd"
  shows "ks_str (view (snd (result_turn rd cd hs st r))) =
    (if vr_Mode r = ExecModeDryRun then ks_str (view (snd st))
     else foldl (\<lambda>f (k, v). f(cache_key (vr_FromProcess r) k \<mapsto> v)) (ks_str (view (snd st))) (vr_Cache r))"
  by (simp add: result_turn_def SaveResult_def exec_err_def exec_up [OF assms] save_cache_strs [OF assms])

lemma cache_fold_other:
  "\<forall>k \<in> set (mkeys c). cache_key p k \<noteq> x \<Longrightarrow> foldl (\<lambda>f (k, v). f(cache_key p k \<mapsto> v)) f c x = f x"
  by (induction c arbitrary: f) auto

lemma cache_fold_own:
  assumes "\<And>v. (k, v) \<in> set c \<Longrightarrow> v = w"
  shows "foldl (\<lambda>f (k, v). f(cache_key p k \<mapsto> v)) f c (cache_key p k) =
    (if k \<in> set (mkeys c) then Some w else f (cache_key p k))"
  using assms by (induction c arbitrary: f) auto

lemma cache_key_other:
  assumes "CHR '':'' \<notin> set p" "CHR '':'' \<notin> set q" "p \<noteq> q"
  shows "cache_key p k \<noteq> cache_key q l"
  using first_colon [of p k q l] assms by (auto simp: cache_key_def)

subsection \<open>Current values\<close>

text \<open>A cache holds current values, and a string map of Redis mirrors the token: a balance or stake it
  holds is current, and one it does not hold has not changed since the start.\<close>

definition current :: "token_db \<Rightarrow> (string, string) gomap \<Rightarrow> bool" where
  "current db c \<longleftrightarrow>
     (\<forall>a v. ((bal_key a, v) \<in> set c \<longrightarrow> v = show_int (db_BalanceOf db a)) \<and>
            ((stake_key a, v) \<in> set c \<longrightarrow> v = show_int (db_StakeOf db a)))"

definition mirrors :: "string \<Rightarrow> token_db \<Rightarrow> (string \<Rightarrow> string option) \<Rightarrow> token_db \<Rightarrow> bool" where
  "mirrors pid db0 f db \<longleftrightarrow>
     (\<forall>a. (case f (cache_key pid (bal_key a)) of
             None \<Rightarrow> db_BalanceOf db a = db_BalanceOf db0 a | Some v \<Rightarrow> v = show_int (db_BalanceOf db a)) \<and>
          (case f (cache_key pid (stake_key a)) of
             None \<Rightarrow> db_StakeOf db a = db_StakeOf db0 a | Some v \<Rightarrow> v = show_int (db_StakeOf db a)))"

lemma mirrors_step:
  assumes m: "mirrors pid db0 f db" and p: "published db db' res" and c: "current db' (res_Cache res)"
  shows "mirrors pid db0 (foldl (\<lambda>f (k, v). f(cache_key pid k \<mapsto> v)) f (res_Cache res)) db'"
proof -
  have b: "foldl (\<lambda>f (k, v). f(cache_key pid k \<mapsto> v)) f (res_Cache res) (cache_key pid (bal_key a)) =
      (if bal_key a \<in> set (mkeys (res_Cache res)) then Some (show_int (db_BalanceOf db' a))
       else f (cache_key pid (bal_key a)))" for a
    by (rule cache_fold_own) (use c in \<open>simp add: current_def\<close>)
  have s: "foldl (\<lambda>f (k, v). f(cache_key pid k \<mapsto> v)) f (res_Cache res) (cache_key pid (stake_key a)) =
      (if stake_key a \<in> set (mkeys (res_Cache res)) then Some (show_int (db_StakeOf db' a))
       else f (cache_key pid (stake_key a)))" for a
    by (rule cache_fold_own) (use c in \<open>simp add: current_def\<close>)
  note pb = p [unfolded published_def, folded bal_key_def stake_key_def]
  have nb: "db_BalanceOf db' a = db_BalanceOf db a" if "bal_key a \<notin> set (mkeys (res_Cache res))" for a
    using pb that mget_None_iff [of "res_Cache res" "bal_key a"] by (metis option.distinct(1))
  have ns: "db_StakeOf db' a = db_StakeOf db a" if "stake_key a \<notin> set (mkeys (res_Cache res))" for a
    using pb that mget_None_iff [of "res_Cache res" "stake_key a"] by (metis option.distinct(1))
  have "db_BalanceOf db' a = db_BalanceOf db0 a" if "bal_key a \<notin> set (mkeys (res_Cache res))" "f (cache_key pid (bal_key a)) = None" for a
    using m nb [OF that(1)] that(2) unfolding mirrors_def by (metis option.simps(4))
  moreover have "v = show_int (db_BalanceOf db' a)" if "bal_key a \<notin> set (mkeys (res_Cache res))" "f (cache_key pid (bal_key a)) = Some v" for a v
    using m nb [OF that(1)] that(2) unfolding mirrors_def by (metis option.simps(5))
  moreover have "db_StakeOf db' a = db_StakeOf db0 a" if "stake_key a \<notin> set (mkeys (res_Cache res))" "f (cache_key pid (stake_key a)) = None" for a
    using m ns [OF that(1)] that(2) unfolding mirrors_def by (metis option.simps(4))
  moreover have "v = show_int (db_StakeOf db' a)" if "stake_key a \<notin> set (mkeys (res_Cache res))" "f (cache_key pid (stake_key a)) = Some v" for a v
    using m ns [OF that(1)] that(2) unfolding mirrors_def by (metis option.simps(5))
  ultimately show ?thesis unfolding mirrors_def b s by (simp split: option.split)
qed

subsection \<open>What the token publishes is current\<close>

lemma set_mput: "x \<in> set (mput k v m) \<Longrightarrow> x = (k, v) \<or> x \<in> set m"
  by (induction m) (auto split: if_splits)

lemma set_maps_Copy: "x \<in> set (maps_Copy d s) \<Longrightarrow> x \<in> set d \<or> x \<in> set s"
proof (induction s arbitrary: d)
  case (Cons kv s)
  then show ?case by (cases kv) (auto dest: set_mput)
qed simp

lemma current_Nil [simp]: "current db []"
  by (simp add: current_def)

lemma current_mput: "current db c \<Longrightarrow> current db [(k, v)] \<Longrightarrow> current db (mput k v c)"
  unfolding current_def by (auto dest!: set_mput)

lemma current_copy: "current db d \<Longrightarrow> current db c \<Longrightarrow> current db (maps_Copy d c)"
  unfolding current_def by (auto dest!: set_maps_Copy)

lemma current_one [simp]:
  "current db [(''balances:'' @ a, v)] \<longleftrightarrow> v = show_int (db_BalanceOf db a)"
  "current db [(''stakes:'' @ a, v)] \<longleftrightarrow> v = show_int (db_StakeOf db a)"
  by (auto simp: current_def bal_key_def stake_key_def)

lemma current_changes [simp]: "current db (cacheChangeBalance lib db accs)" "current db (cacheChangeStake db a)"
proof -
  have put: "current db c \<Longrightarrow> current db (mput (''balances:'' @ x) (show_int (db_BalanceOf db x)) c)" for c x
    by (rule current_mput) (simp_all only: current_one)
  have "current db c \<Longrightarrow> current db (foldl (\<lambda>c acc. let accid = IDCheck_accid lib acc
      in mput (''balances:'' @ accid) (show_int (db_BalanceOf db accid)) c) c accs)" for c
    by (induction accs arbitrary: c) (simp_all only: Let_def foldl.simps put)
  then show "current db (cacheChangeBalance lib db accs)" by (simp add: cacheChangeBalance_def)
  show "current db (cacheChangeStake db a)" unfolding cacheChangeStake_def by (rule current_one(2) [THEN iffD2, OF refl])
qed

lemma current_init:
  assumes "tdb_wf db" "initCache db = (db', c)"
  shows "current db' c"
proof -
  have v: "(k, x) \<in> set (tdb_balances db) \<Longrightarrow> db_BalanceOf db k = x" "(k, x) \<in> set (tdb_stakes db) \<Longrightarrow> db_StakeOf db k = x" for k x
    using assms(1) by (auto simp: tdb_wf_def db_BalanceOf_def db_StakeOf_def mwf_mget_iff [symmetric])
  have same: "db_BalanceOf (db_CacheInitialed db) k = db_BalanceOf db k" "db_StakeOf (db_CacheInitialed db) k = db_StakeOf db k" for k
    by (simp_all add: db_CacheInitialed_def db_BalanceOf_def db_StakeOf_def)
  have b: "current (db_CacheInitialed db) (map (\<lambda>(k, v). (''balances:'' @ k, show_int v)) (tdb_balances db))"
    and s: "current (db_CacheInitialed db) (map (\<lambda>(k, v). (''stakes:'' @ k, show_int v)) (tdb_stakes db))"
    by (auto simp: current_def bal_key_def stake_key_def same v)
  have t: "current (db_CacheInitialed db) (cacheTotalSupply db)" "current (db_CacheInitialed db) (cacheTokenInfo db)"
    by (simp_all add: current_def bal_key_def stake_key_def cacheTotalSupply_def cacheTokenInfo_def Let_def)
  show ?thesis using assms(2) b s t
    by (auto simp: initCache_def Let_def split: if_splits intro!: current_copy)
qed

lemma Token_Apply_current:
  assumes "tdb_wf db" "Token_Apply lib db from m = (db', res)"
  shows "current db' (res_Cache res)"
proof -
  obtain r where d: "Token_dispatch lib db from m = (db', r)" and res: "res = apply_result r"
    using assms(2) by (auto simp: Token_Apply_def split: prod.splits)
  show ?thesis
  proof (cases r)
    case (Inl e)
    with res show ?thesis by (simp add: apply_result_def zero_result_def)
  next
    case (Inr x)
    have "current db' (res_Cache x)"
      using d Inr assms(1) unfolding Token_dispatch_def Let_def
      by (auto split: if_splits prod.splits sum_option_splits sum.splits option.splits
          simp: handleInfo_def handleTotalSupply_def handleBalanceOf_def handleBalances_def handleTransfer_def
            handleStake_def handleUnstake_def Let_def zero_result_def
          intro!: current_copy dest: current_init)
    with res Inr show ?thesis by (simp add: apply_result_def)
  qed
qed

subsection \<open>A run of the token\<close>

text \<open>The account a message speaks for is its own normal form.\<close>

definition normal_sender :: "extlib \<Rightarrow> meta \<Rightarrow> bool" where
  "normal_sender lib m \<longleftrightarrow>
     (let from = (if meta_FromProcess m = [] then meta_AccId m else meta_FromProcess m)
      in \<exists>t. IDCheck lib from = Inr (t, from))"

lemma applyCheck_from: "applyCheck env m = (env1, Inr sender) \<Longrightarrow>
    sender = (if meta_FromProcess m = [] then meta_AccId m else meta_FromProcess m)"
  by (auto simp: applyCheck_def Let_def split: if_splits option.splits)

lemma finish_task_result:
  "finish_task m env r err = (env', eff) \<Longrightarrow> vr_FromProcess (te_result eff) = vr_FromProcess r \<and>
    vr_Mode (te_result eff) = vr_Mode r \<and> vr_Cache (te_result eff) = vr_Cache r"
  by (auto simp: finish_task_def Vmm_outbox_def split: prod.splits)

lemma token_task:
  assumes a: "Vmm_apply (Token_Apply lib) c (db, env) m = ((db', env'), eff)" and inv: "token_inv db" and n: "normal_sender lib m"
  shows "token_inv db' \<and> vr_FromProcess (te_result eff) = meta_Pid m \<and> vr_Mode (te_result eff) = meta_Mode m \<and>
    (\<exists>res. published db db' res \<and> current db' (res_Cache res) \<and> vr_Cache (te_result eff) = res_Cache res)"
proof (cases "applyCheck env m")
  case (Pair env1 q)
  show ?thesis
  proof (cases q)
    case (Inl e)
    with a Pair have db: "db' = db" and f: "finish_task m env1 ((base_result m)\<lparr>vr_Error := sys_err_text e\<rparr>) (Some e) = (env', eff)"
      by (auto simp: Vmm_apply_def Let_def split: prod.splits)
    show ?thesis using finish_task_result [OF f] inv
      by (auto simp: db base_result_def published_refl intro!: exI [of _ zero_result]) (simp_all add: zero_result_def)
  next
    case (Inr sender)
    obtain db1 res where t: "Token_Apply lib db sender (decryptParams c m) = (db1, res)" by fastforce
    with a Pair Inr have db: "db' = db1"
      by (auto simp: Vmm_apply_def Let_def split: prod.splits)
    from a Pair Inr t obtain r err where f: "finish_task m env1 r err = (env', eff)"
      and r: "vr_FromProcess r = meta_Pid m" "vr_Mode r = meta_Mode m" "vr_Cache r = res_Cache res"
      by (auto simp: Vmm_apply_def Let_def base_result_def split: prod.splits)
    have "\<exists>t. IDCheck lib sender = Inr (t, sender)"
      using n applyCheck_from [OF Pair [unfolded Inr]] by (simp add: normal_sender_def Let_def)
    then have "published db db1 res" using Token_Apply_publishes [OF t] by blast
    moreover have "current db1 (res_Cache res)" using Token_Apply_current [OF _ t] inv by (simp add: token_inv_def)
    moreover have "token_inv db1" using Token_Apply_move [OF t] token_move_inv [OF _ inv] by blast
    ultimately show ?thesis using finish_task_result [OF f] r db by auto
  qed
qed

lemma results_mirror:
  assumes ok: "redis_ok rd view" "redis_up rd" and pid: "CHR '':'' \<notin> set pid"
  shows "Vmm_run (Token_Apply lib) c (db, env) ms = ((db', env'), effs) \<Longrightarrow>
    \<forall>m \<in> set ms. meta_Pid m = pid \<and> meta_Mode m \<noteq> ExecModeDryRun \<and> normal_sender lib m \<Longrightarrow>
    filter (\<lambda>r. vr_FromProcess r = pid) rs = map te_result effs \<Longrightarrow>
    \<forall>r \<in> set rs. CHR '':'' \<notin> set (vr_FromProcess r) \<Longrightarrow> token_inv db \<Longrightarrow>
    mirrors pid db0 (ks_str (view (snd st))) db \<Longrightarrow>
    mirrors pid db0 (ks_str (view (snd (runResultChan rd cd hs st rs)))) db'"
proof (induction rs arbitrary: ms db env effs st)
  case Nil
  then have "effs = []" by simp
  with Nil.prems(1) have "ms = []" using Vmm_run_length by fastforce
  with Nil.prems show ?case by (simp add: runResultChan_def)
next
  case (Cons r rs)
  let ?st = "result_turn rd cd hs st r"
  have step: "runResultChan rd cd hs st (r # rs) = runResultChan rd cd hs ?st rs" by (simp add: runResultChan_def)
  show ?case
  proof (cases "vr_FromProcess r = pid")
    case False
    have "cache_key (vr_FromProcess r) k \<noteq> cache_key pid l" for k l
      by (rule cache_key_other) (use Cons.prems(4) pid False in simp_all)
    then have "ks_str (view (snd ?st)) (cache_key pid l) = ks_str (view (snd st)) (cache_key pid l)" for l
      by (simp add: result_turn_strs [OF ok] cache_fold_other)
    then have m: "mirrors pid db0 (ks_str (view (snd ?st))) db" using Cons.prems(6) by (simp add: mirrors_def)
    show ?thesis unfolding step
      by (rule Cons.IH [OF Cons.prems(1,2) _ _ Cons.prems(5) m]) (use Cons.prems(3,4) False in simp_all)
  next
    case True
    then obtain eff effs1 where e: "effs = eff # effs1" "r = te_result eff" "filter (\<lambda>r. vr_FromProcess r = pid) rs = map te_result effs1"
      using Cons.prems(3) by (cases effs) auto
    then obtain m ms1 where ms: "ms = m # ms1" using Cons.prems(1) by (cases ms) auto
    obtain db1 env1 where a: "Vmm_apply (Token_Apply lib) c (db, env) m = ((db1, env1), eff)"
      and run: "Vmm_run (Token_Apply lib) c (db1, env1) ms1 = ((db', env'), effs1)"
      using Vmm_run_Cons [OF Cons.prems(1) [unfolded ms]] e(1) by (metis list.inject)
    have n: "normal_sender lib m" "meta_Mode m \<noteq> ExecModeDryRun" using Cons.prems(2) ms by simp_all
    from token_task [OF a Cons.prems(5) n(1)] obtain res where
      inv: "token_inv db1" and r: "vr_Mode r = meta_Mode m" "vr_Cache r = res_Cache res"
      and res: "published db db1 res" "current db1 (res_Cache res)" by (auto simp: e(2))
    have "ks_str (view (snd ?st)) = foldl (\<lambda>f (k, v). f(cache_key pid k \<mapsto> v)) (ks_str (view (snd st))) (res_Cache res)"
      using n(2) r True by (simp add: result_turn_strs [OF ok])
    then have m: "mirrors pid db0 (ks_str (view (snd ?st))) db1" using mirrors_step [OF Cons.prems(6) res] by simp
    show ?thesis unfolding step
      by (rule Cons.IH [OF run _ e(3) _ inv m]) (use Cons.prems(2,4) ms in simp_all)
  qed
qed

lemma GetCache_up:
  assumes "redis_ok rd view" "redis_up rd"
  shows "\<exists>s'. GetCache rd s pid key = (s', Inr (case ks_str (view s) (cache_key pid key) of None \<Rightarrow> [] | Some v \<Rightarrow> v))"
proof -
  obtain s' r where r: "rd_get rd s (cache_key pid key) = (s', r)" by fastforce
  from redis_ok_D(1) [OF assms(1) r] have "reply_of (ks_str (view s) (cache_key pid key)) r" by simp
  moreover have "r \<noteq> RedisErr e" for e using assms(2) r unfolding redis_up_def by (metis snd_conv)
  ultimately show ?thesis using r
    by (cases r) (auto simp: GetCache_def get_text_def cache_key_def)
qed

text \<open>C15: the balances that a node serves from its cache are those of the token. Take any run of the token,
  whose results the result loop stores among those of other processes. What \<open>GetCache\<close> then returns for
  the balance or the stake of an account is its present value, in decimal; it is empty only when the
  value has not changed since the start of the run.\<close>

theorem cached_balances_current:
  assumes "redis_ok rd view" "redis_up rd" "CHR '':'' \<notin> set pid" "token_inv db"
    and "\<forall>k. ks_str (view s) (RdbCachePrefix @ pid @ '':'' @ k) = None"
    and "Vmm_run (Token_Apply lib) c (db, env) ms = ((db', env'), effs)"
    and "\<forall>m \<in> set ms. meta_Pid m = pid \<and> meta_Mode m \<noteq> ExecModeDryRun \<and> normal_sender lib m"
    and "filter (\<lambda>r. vr_FromProcess r = pid) rs = map te_result effs" "\<forall>r \<in> set rs. CHR '':'' \<notin> set (vr_FromProcess r)"
    and "runResultChan rd cd hs (h, s) rs = (h', s')"
  shows "(\<exists>v. snd (GetCache rd s' pid (''balances:'' @ a)) = Inr v \<and>
      (v = show_int (db_BalanceOf db' a) \<or> v = [] \<and> db_BalanceOf db' a = db_BalanceOf db a)) \<and>
    (\<exists>v. snd (GetCache rd s' pid (''stakes:'' @ a)) = Inr v \<and>
      (v = show_int (db_StakeOf db' a) \<or> v = [] \<and> db_StakeOf db' a = db_StakeOf db a))"
proof -
  have "mirrors pid db (ks_str (view (snd (h, s)))) db"
    using assms(5) by (simp add: mirrors_def cache_key_def)
  from results_mirror [OF assms(1-3,6-9,4) this, of cd hs] assms(10)
  have m: "mirrors pid db (ks_str (view s')) db'" by simp
  have "snd (GetCache rd s' pid key) = Inr (case ks_str (view s') (cache_key pid key) of None \<Rightarrow> [] | Some v \<Rightarrow> v)" for key
    using GetCache_up [OF assms(1,2), of s' pid key] by auto
  note g = this
  have "case ks_str (view s') (cache_key pid (''balances:'' @ a)) of
      None \<Rightarrow> db_BalanceOf db' a = db_BalanceOf db a | Some v \<Rightarrow> v = show_int (db_BalanceOf db' a)"
    "case ks_str (view s') (cache_key pid (''stakes:'' @ a)) of
      None \<Rightarrow> db_StakeOf db' a = db_StakeOf db a | Some v \<Rightarrow> v = show_int (db_StakeOf db' a)"
    using m unfolding mirrors_def bal_key_def stake_key_def by blast+
  then show ?thesis unfolding g
    by (cases "ks_str (view s') (cache_key pid (''balances:'' @ a))"; cases "ks_str (view s') (cache_key pid (''stakes:'' @ a))")
      simp_all
qed

subsection \<open>The payment ledger\<close>

text \<open>A result whose credits are settled: its item is executed, or it has none.\<close>

definition credited :: "pay_config \<Rightarrow> string \<Rightarrow> pay_db \<Rightarrow> vmm_result \<Rightarrow> bool" where
  "credited pc address db r \<longleftrightarrow> vr_FromProcess r \<noteq> cfg_AxToken pc \<or> IsExecuted db (vr_ItemId r) \<or>
     first_credit (credit_notices address (vr_Messages r)) = None"

lemma deposit_handler:
  "HymxDepositHandler pc address get_bin db r =
     (if credited pc address db r then db else deposit_notices get_bin (vr_ItemId r) db (credit_notices address (vr_Messages r)))"
proof (cases "vr_FromProcess r = cfg_AxToken pc")
  case True
  have "HymxDepositHandler pc address get_bin db r = deposit_notices get_bin (vr_ItemId r) db (credit_notices address (vr_Messages r))"
    using True by (auto simp: HymxDepositHandler_def credit_notices_def Let_def)
  moreover have "credited pc address db r \<Longrightarrow> deposit_notices get_bin (vr_ItemId r) db (credit_notices address (vr_Messages r)) = db"
    using True deposit_notices_executed [of db "vr_ItemId r"] deposit_notices_first [of db "vr_ItemId r"]
    by (cases "IsExecuted db (vr_ItemId r)") (auto simp: credited_def)
  ultimately show ?thesis by simp
qed (simp add: HymxDepositHandler_def credited_def)

lemma deposit_handler_marks:
  "IsExecuted db h \<Longrightarrow> IsExecuted (HymxDepositHandler pc address get_bin db r) h"
  "credited pc address (HymxDepositHandler pc address get_bin db r) r"
proof -
  have new: "\<not> IsExecuted db (vr_ItemId r) \<Longrightarrow> first_credit ns \<noteq> None \<Longrightarrow>
      IsExecuted (deposit_notices get_bin (vr_ItemId r) db ns) h' \<longleftrightarrow> h' = vr_ItemId r \<or> IsExecuted db h'" for ns h'
    by (auto simp: deposit_notices_first Let_def handleDeposit_new IsExecuted_def split: option.splits)
  show "IsExecuted db h \<Longrightarrow> IsExecuted (HymxDepositHandler pc address get_bin db r) h"
    using new by (auto simp: deposit_handler credited_def)
  show "credited pc address (HymxDepositHandler pc address get_bin db r) r"
    using new by (auto simp: deposit_handler credited_def)
qed

lemma handler_fold: "fst (runResultChan rd cd hs st rs) = foldl (\<lambda>h r. foldl (\<lambda>h handler. handler h r) h hs) (fst st) rs"
  by (induction rs arbitrary: st) (simp_all add: runResultChan_def result_turn_def)

lemma deposits_mark:
  "IsExecuted db h \<Longrightarrow> IsExecuted (foldl (\<lambda>h r. HymxDepositHandler pc address get_bin h r) db rs) h"
  by (induction rs arbitrary: db) (simp_all add: deposit_handler_marks(1))

lemma deposits_credit:
  "\<forall>r \<in> set rs. credited pc address (foldl (\<lambda>h r. HymxDepositHandler pc address get_bin h r) db rs) r"
proof (induction rs arbitrary: db)
  case (Cons r rs)
  have "credited pc address (foldl (\<lambda>h r. HymxDepositHandler pc address get_bin h r) (HymxDepositHandler pc address get_bin db r) rs) r"
    using deposit_handler_marks(2) [of pc address get_bin db r] deposits_mark [of "HymxDepositHandler pc address get_bin db r"]
    by (auto simp: credited_def)
  with Cons.IH [of "HymxDepositHandler pc address get_bin db r"] show ?case by simp
qed simp

lemma credited_keep:
  "\<forall>r \<in> set rs. credited pc address db r \<Longrightarrow> foldl (\<lambda>h r. HymxDepositHandler pc address get_bin h r) db rs = db"
  by (induction rs) (simp_all add: deposit_handler)

lemma SaveLoad_pay:
  assumes f: "files_ok (pf_files pf) fview" and s: "Pay_SaveCheckpoint pf fs db = (fs1, None)"
    and t: "pf_dec pf (pf_enc pf (PayDb_Checkpoint db)) = Some (PayDb_Checkpoint db)" and v: "fview fs2 = fview fs1"
  shows "snd (Pay_LoadCheckpoint pf fs2 db0) = (db, None)"
proof -
  obtain fsm where m: "fl_mkdir (pf_files pf) fs ''./ckp'' = (fsm, None)"
    "fl_write (pf_files pf) fsm pay_file (pf_enc pf (PayDb_Checkpoint db)) = (fs1, None)"
    using s by (auto simp: Pay_SaveCheckpoint_def split: prod.splits option.splits)
  then have "fview fs1 = (fview fsm)(pay_file \<mapsto> pf_enc pf (PayDb_Checkpoint db))"
    using f unfolding files_ok_def by (metis fst_conv snd_conv)
  then have k: "fview fs2 pay_file = Some (pf_enc pf (PayDb_Checkpoint db))" by (simp add: v)
  obtain fs3 where 3: "fl_stat (pf_files pf) fs2 pay_file = (fs3, FileExists)" "fview fs3 = fview fs2"
    using f k unfolding files_ok_def by (metis option.distinct(1) prod.collapse)
  obtain fs4 where "fl_read (pf_files pf) fs3 pay_file = (fs4, Inr (pf_enc pf (PayDb_Checkpoint db)))"
    using f k 3(2) unfolding files_ok_def by (metis prod.collapse)
  with 3(1) t show ?thesis by (simp add: Pay_LoadCheckpoint_def PayDb_Restore_Checkpoint)
qed

text \<open>C16: a restart keeps the payment ledger, and no deposit is credited twice. The ledger that a shutdown
  writes is the ledger after the next start. Its recovery shows the result handlers the results of the log
  again; whatever the sender of a credit is told about its beneficiary now, those that had been seen
  before the shutdown change nothing.\<close>

theorem ledger_survives_restart:
  assumes "files_ok (pf_files pf) fview" "pf_dec pf (pf_enc pf (PayDb_Checkpoint db)) = Some (PayDb_Checkpoint db)"
    and "runResultChan rd cd [HymxDepositHandler pc address get_bin] (db0, s) rs = (db1, s1)"
    and "\<forall>h. IsExecuted db1 h \<longrightarrow> IsExecuted db h"
    and "Pay_SaveCheckpoint pf fs db = (fs1, None)" "fview fs2 = fview fs1"
    and "Server_Run_pay pf pc address get_bin' cf fs2 NewPay = (fs3, db2, cf', hs)"
    and "\<forall>r' \<in> set rs'. \<exists>r \<in> set rs. vr_ItemId r' = vr_ItemId r \<and> vr_FromProcess r' = vr_FromProcess r \<and> vr_Messages r' = vr_Messages r"
  shows "db2 = db \<and> fst (runResultChan rd cd hs (db2, s2) rs') = db"
proof -
  have db2: "db2 = db" and hs: "hs = [HymxDepositHandler pc address get_bin']"
    using assms(7) SaveLoad_pay [OF assms(1,5,2,6), of NewPay]
    by (auto simp: Server_Run_pay_def AddResultHandler_def split: prod.splits)
  have "db1 = foldl (\<lambda>h r. HymxDepositHandler pc address get_bin h r) db0 rs"
    using handler_fold [of rd cd "[HymxDepositHandler pc address get_bin]" "(db0, s)" rs] assms(3) by simp
  with deposits_credit(1) have "\<forall>r \<in> set rs. credited pc address db1 r" by blast
  with assms(4,8) have "\<forall>r' \<in> set rs'. credited pc address db r'" unfolding credited_def by metis
  then show ?thesis by (simp add: db2 hs handler_fold credited_keep)
qed

text \<open>When the checkpoint cannot be read at the start, the error is dropped: the service runs with an empty
  ledger, which the next shutdown writes over the file.\<close>

lemma load_error_drops_ledger:
  assumes "snd (snd (Pay_LoadCheckpoint pf fs NewPay)) \<noteq> None"
    and "Server_Run_pay pf pc address get_bin cf fs NewPay = (fs1, db, cf', hs)"
    and "files_ok (pf_files pf) fview" and "snd (Pay_SaveCheckpoint pf fs1 db) = None"
  shows "db = NewPay \<and> fview (Server_close_pay pf fs1 db) pay_file = Some (pf_enc pf (PayDb_Checkpoint NewPay))"
proof -
  have db: "db = NewPay" using assms(1,2)
    by (auto simp: Pay_LoadCheckpoint_def Server_Run_pay_def split: prod.splits file_stat.splits sum.splits option.splits)
  obtain fsm fs2 where "fl_mkdir (pf_files pf) fs1 ''./ckp'' = (fsm, None)"
    "fl_write (pf_files pf) fsm pay_file (pf_enc pf (PayDb_Checkpoint db)) = (fs2, None)" "Server_close_pay pf fs1 db = fs2"
    using assms(4) by (auto simp: Server_close_pay_def Pay_SaveCheckpoint_def split: prod.splits option.splits)
  moreover from this(2) have "fview fs2 = (fview fsm)(pay_file \<mapsto> pf_enc pf (PayDb_Checkpoint db))"
    using assms(3) unfolding files_ok_def by (metis fst_conv snd_conv)
  ultimately show ?thesis using db by simp
qed

end
