(* ===== verification/NodeRestart.thy ===== *)
theory NodeRestart
  imports NodeLife RecoveryProps
begin

text \<open>
  What a node has after its start: the scan lists every process of the log, the recovery of all of them
  brings the core processes back whatever the order and the repetitions of the scan, and a process
  listed twice is rolled back when it has moved on between the two tasks.
\<close>

subsection \<open>The scan\<close>

text \<open>The documented guarantee of \<open>SCAN\<close> over contents that do not change: a full iteration ends and
  returns every key of the pattern at least once, in any order and with repetitions. \<open>todo\<close> are
  the keys that an iteration still returns from a cursor, \<open>rank\<close> bounds the pages that are left.\<close>

definition scan_law ::
  "'r scanner \<Rightarrow> ('r \<Rightarrow> keyspace) \<Rightarrow> keyspace \<Rightarrow> string \<Rightarrow> (64 word \<Rightarrow> string set) \<Rightarrow> (64 word \<Rightarrow> nat) \<Rightarrow> bool" where
  "scan_law scan view ks p todo rank \<longleftrightarrow>
     (\<forall>s c n. view s = ks \<longrightarrow> view (fst (scan s c (p @ ''*'') n)) = ks \<and>
        (case snd (scan s c (p @ ''*'') n) of
           Inl _ \<Rightarrow> True
         | Inr (keys, c') \<Rightarrow>
             (\<forall>k \<in> set keys. HasPrefix k p) \<and>
             todo c \<subseteq> set keys \<union> (if c' = 0 then {} else todo c') \<and> (c' \<noteq> 0 \<longrightarrow> rank c' < rank c)))"

definition scan_ok :: "'r scanner \<Rightarrow> ('r \<Rightarrow> keyspace) \<Rightarrow> keyspace \<Rightarrow> string \<Rightarrow> bool" where
  "scan_ok scan view ks p \<longleftrightarrow>
     (\<exists>todo rank. scan_law scan view ks p todo rank \<and> (\<forall>k. HasPrefix k p \<and> ks_str ks k \<noteq> None \<longrightarrow> k \<in> todo 0))"

text \<open>No page of a scan of these contents fails.\<close>

definition scan_up :: "'r scanner \<Rightarrow> ('r \<Rightarrow> keyspace) \<Rightarrow> keyspace \<Rightarrow> string \<Rightarrow> bool" where
  "scan_up scan view ks p \<longleftrightarrow> (\<forall>s c n e. view s = ks \<longrightarrow> snd (scan s c (p @ ''*'') n) \<noteq> Inl e)"

definition nonce_entry :: "keyspace \<Rightarrow> string \<Rightarrow> (string \<times> int64) list" where
  "nonce_entry ks key =
     (case ks_str ks key of
        None \<Rightarrow> []
      | Some v \<Rightarrow> (case ParseInt v of None \<Rightarrow> [] | Some n \<Rightarrow> [(TrimPrefix key RdbProcessNoncePrefix, n)]))"

lemma scan_keys_entries:
  assumes ok: "redis_ok rd view" "redis_up rd"
  shows "\<exists>s'. scan_keys rd s keys = (s', concat (map (nonce_entry (view s)) keys)) \<and> view s' = view s"
proof (induction keys arbitrary: s)
  case (Cons key keys)
  obtain s1 r where r: "rd_get rd s key = (s1, r)" by fastforce
  from redis_ok_D(1) [OF ok(1) r] have v: "view s1 = view s" "reply_of (ks_str (view s) key) r" by auto
  have "r \<noteq> RedisErr e" for e using ok(2) r unfolding redis_up_def by (metis snd_conv)
  moreover obtain s2 where "scan_keys rd s1 keys = (s2, concat (map (nonce_entry (view s)) keys))" "view s2 = view s"
    using Cons.IH [of s1] v(1) by auto
  ultimately show ?case using r v
    by (cases r) (auto simp: nonce_entry_def [of "view s" key] split: option.splits)
qed simp

lemma scan_loop_entries:
  assumes ok: "redis_ok rd view" "redis_up rd"
    and sc: "scan_law scan view ks RdbProcessNoncePrefix todo rank"
  shows "view s = ks \<Longrightarrow> \<exists>s' r. scan_loop rd scan s c acc = Some (s', r) \<and> view s' = view s \<and>
    (scan_up scan view ks RdbProcessNoncePrefix \<longrightarrow> \<not> is_err r) \<and>
    (\<forall>ps. r = Inr ps \<longrightarrow> (\<exists>keys. ps = acc @ concat (map (nonce_entry (view s)) keys) \<and>
       (\<forall>k \<in> set keys. HasPrefix k RdbProcessNoncePrefix) \<and> todo c \<subseteq> set keys))"
proof (induction "rank c" arbitrary: s c acc rule: less_induct)
  case less
  obtain s1 q where q: "scan s c (RdbProcessNoncePrefix @ ''*'') 100 = (s1, q)" by fastforce
  note S = sc [unfolded scan_law_def, rule_format, OF less.prems, of c 100, unfolded q fst_conv snd_conv]
  note L = scan_loop.simps [of rd scan s c acc, unfolded q]
  show ?case
  proof (cases q)
    case (Inl e)
    with q have "\<not> scan_up scan view ks RdbProcessNoncePrefix" unfolding scan_up_def using less.prems by (metis snd_conv)
    with Inl L S less.prems show ?thesis by auto
  next
    case (Inr kc)
    obtain keys c' where kc: "kc = (keys, c')" by fastforce
    obtain s2 where s2: "scan_keys rd s1 keys = (s2, concat (map (nonce_entry (view s)) keys))" "view s2 = view s"
      using scan_keys_entries [OF ok, of s1 keys] S less.prems by auto
    note K = S [unfolded Inr kc, simplified]
    show ?thesis
    proof (cases "c' = 0")
      case True
      with L Inr kc s2 K show ?thesis by auto
    next
      case False
      then have "rank c' < rank c" using K s2(2) by simp
      from less.hyps [OF this, of s2 "acc @ concat (map (nonce_entry (view s)) keys)"] s2(2) less.prems obtain s' r where
        r: "scan_loop rd scan s2 c' (acc @ concat (map (nonce_entry (view s)) keys)) = Some (s', r)" "view s' = view s"
        "scan_up scan view ks RdbProcessNoncePrefix \<longrightarrow> \<not> is_err r"
        "\<forall>ps. r = Inr ps \<longrightarrow> (\<exists>ks. ps = (acc @ concat (map (nonce_entry (view s)) keys)) @ concat (map (nonce_entry (view s)) ks) \<and>
           (\<forall>k \<in> set ks. HasPrefix k RdbProcessNoncePrefix) \<and> todo c' \<subseteq> set ks)"
        by auto
      have "\<exists>ks. ps = acc @ concat (map (nonce_entry (view s)) ks) \<and>
          (\<forall>k \<in> set ks. HasPrefix k RdbProcessNoncePrefix) \<and> todo c \<subseteq> set ks" if "r = Inr ps" for ps
      proof -
        from r(4) that obtain ks where "ps = (acc @ concat (map (nonce_entry (view s)) keys)) @ concat (map (nonce_entry (view s)) ks)"
          "\<forall>k \<in> set ks. HasPrefix k RdbProcessNoncePrefix" "todo c' \<subseteq> set ks" by blast
        with K False show ?thesis by (intro exI [of _ "keys @ ks"]) auto
      qed
      with L Inr kc s2(1) False r(1-3) show ?thesis by auto
    qed
  qed
qed

lemma GetAllProcess_lists:
  assumes "redis_ok rd view" "redis_up rd" "scan_ok scan view (view s) RdbProcessNoncePrefix" "log_ok cd (view s) es"
  shows "\<exists>s' r. GetAllProcess rd scan s = Some (s', r) \<and> view s' = view s \<and>
    (scan_up scan view (view s) RdbProcessNoncePrefix \<longrightarrow> \<not> is_err r) \<and>
    (\<forall>ps. r = Inr ps \<longrightarrow>
       set ps = {(pid, n). items_of es pid \<noteq> [] \<and> n = of_nat (length (items_of es pid)) - 1})"
proof -
  from assms(3) obtain todo rank where
    all: "\<And>k. HasPrefix k RdbProcessNoncePrefix \<Longrightarrow> ks_str (view s) k \<noteq> None \<Longrightarrow> k \<in> todo 0"
    and sc: "scan_law scan view (view s) RdbProcessNoncePrefix todo rank"
    unfolding scan_ok_def by blast
  have k: "ks_str (view s) (RdbProcessNoncePrefix @ p) =
      (if items_of es p = [] then None else Some (FormatInt (of_nat (length (items_of es p)) - 1)))" for p
    using assms(4) by (simp add: log_ok_def)
  have e: "set (nonce_entry (view s) key) =
      {(pid, n). key = RdbProcessNoncePrefix @ pid \<and> items_of es pid \<noteq> [] \<and> n = of_nat (length (items_of es pid)) - 1}"
    if h: "HasPrefix key RdbProcessNoncePrefix" for key
  proof -
    obtain q where "key = RdbProcessNoncePrefix @ q" using HasPrefix_split [OF h] by blast
    then show ?thesis by (auto simp: nonce_entry_def k)
  qed
  from scan_loop_entries [OF assms(1,2) sc refl, of 0 "[]"] obtain s' r where
    r: "GetAllProcess rd scan s = Some (s', r)" "view s' = view s"
    "scan_up scan view (view s) RdbProcessNoncePrefix \<longrightarrow> \<not> is_err r"
    "\<forall>ps. r = Inr ps \<longrightarrow> (\<exists>keys. ps = concat (map (nonce_entry (view s)) keys) \<and>
       (\<forall>k \<in> set keys. HasPrefix k RdbProcessNoncePrefix) \<and> todo 0 \<subseteq> set keys)"
    unfolding GetAllProcess_def by auto
  have "set ps = {(pid, n). items_of es pid \<noteq> [] \<and> n = of_nat (length (items_of es pid)) - 1}" if "r = Inr ps" for ps
  proof -
    from r(4) that obtain keys where keys: "ps = concat (map (nonce_entry (view s)) keys)"
      "\<forall>k \<in> set keys. HasPrefix k RdbProcessNoncePrefix" "todo 0 \<subseteq> set keys" by blast
    have "RdbProcessNoncePrefix @ pid \<in> set keys" if "items_of es pid \<noteq> []" for pid
      using all [of "RdbProcessNoncePrefix @ pid"] keys(3) that k by auto
    with keys(1,2) e show ?thesis by fastforce
  qed
  with r(1-3) show ?thesis by blast
qed

text \<open>C13: the scan of the database ends and finds every process. Under the guarantee of \<open>SCAN\<close> and with
  Redis up, \<open>GetAllProcess\<close> returns; unless a page of the scan fails, it lists exactly the processes with
  an entry in the log, each with the nonce of its last entry.\<close>

theorem GetAllProcess_complete:
  assumes "redis_ok rd view" "redis_up rd" "scan_ok scan view (view s) RdbProcessNoncePrefix" "log_ok cd (view s) es"
  shows "\<exists>s' r. GetAllProcess rd scan s = Some (s', r) \<and> view s' = view s \<and>
    (\<forall>ps. r = Inr ps \<longrightarrow>
       set ps = {(pid, n). items_of es pid \<noteq> [] \<and> n = of_nat (length (items_of es pid)) - 1})"
  using GetAllProcess_lists [OF assms] by blast

subsection \<open>Recovery of all processes\<close>

lemma GetCheckpointIndex_up:
  assumes "redis_ok rd view" "redis_up rd" and "ks_str (view s) (RdbCheckpointIndexPrefix @ pid) = Some i"
  shows "\<exists>s'. GetCheckpointIndex rd s pid = (s', Inr i) \<and> view s' = view s"
proof -
  obtain s' r where r: "rd_get rd s (RdbCheckpointIndexPrefix @ pid) = (s', r)" by fastforce
  from redis_ok_D(1) [OF assms(1) r] have "view s' = view s" "reply_of (Some i) r" using assms(3) by auto
  moreover have "r \<noteq> RedisErr e" for e using assms(2) r unfolding redis_up_def by (metis snd_conv)
  ultimately show ?thesis using r by (cases r) (auto simp: GetCheckpointIndex_def get_text_def)
qed

text \<open>A node whose log holds core processes only: each has a checkpoint and the messages since, and leads
  to the machine and environment \<open>fin\<close>; there is one token and one registry at most.\<close>

definition core_log ::
  "('s, 'r, 'h, 'u, 'o, 'f) rec_cfg \<Rightarrow> ('r \<Rightarrow> keyspace) \<Rightarrow> ('f \<Rightarrow> string \<Rightarrow> string option) \<Rightarrow>
     ('s, 'r, 'h, 'u, 'o, 'f) rec_state \<Rightarrow> entry list \<Rightarrow> (string \<Rightarrow> 's vm_obj \<times> env) \<Rightarrow> bool" where
  "core_log cf view fview st es fin \<longleftrightarrow>
     log_ok (nc_codec cf) (view (ns_db st)) es \<and>
     (\<forall>pid. items_of es pid \<noteq> [] \<longrightarrow>
        (\<exists>ckpId. ks_str (view (ns_db st)) (RdbCheckpointIndexPrefix @ pid) = Some ckpId \<and>
           core_history cf fview (rs_files st) es pid (length (items_of es pid) - 1) ckpId (fin pid))) \<and>
     (\<forall>p q. items_of es p \<noteq> [] \<and> items_of es q \<noteq> [] \<and>
        (is_token (fst (fin p)) \<and> is_token (fst (fin q)) \<or> is_registry (fst (fin p)) \<and> is_registry (fst (fin q))) \<longrightarrow> p = q)"

text \<open>A state on the way: what runs is as it was.\<close>

definition partly_recovered ::
  "('r \<Rightarrow> keyspace) \<Rightarrow> ('f \<Rightarrow> string \<Rightarrow> string option) \<Rightarrow> ('s, 'r, 'h, 'u, 'o, 'f) rec_state \<Rightarrow> entry list \<Rightarrow>
     (string \<Rightarrow> 's vm_obj \<times> env) \<Rightarrow> ('s, 'r, 'h, 'u, 'o, 'f) rec_state \<Rightarrow> bool" where
  "partly_recovered view fview st0 es fin st \<longleftrightarrow>
     view (ns_db st) = view (ns_db st0) \<and> fview (rs_files st) = fview (rs_files st0) \<and>
     vmm_wf (ns_vmm st) \<and> \<not> v_closed (ns_vmm st) \<and> slots_used (ns_vmm st) \<and>
     mget (v_factors (ns_vmm st)) ModuleFormatToken = Some FactoryToken \<and>
     mget (v_factors (ns_vmm st)) ModuleFormatRegistry = Some FactoryRegistry \<and>
     (\<forall>pid. \<not> IsRecovering (ns_vmm st) pid) \<and>
     (\<forall>pid ob env. machine (ns_vmm st) pid = Some (ob, env) \<longrightarrow>
        items_of es pid \<noteq> [] \<and> env = snd (fin pid) \<and> obj_equiv (fst (fin pid)) ob)"

lemma partly_D:
  assumes "partly_recovered view fview st0 es fin st"
  shows "view (ns_db st) = view (ns_db st0)" "fview (rs_files st) = fview (rs_files st0)"
    and "vmm_wf (ns_vmm st)" "\<not> v_closed (ns_vmm st)" "slots_used (ns_vmm st)"
    and "mget (v_factors (ns_vmm st)) ModuleFormatToken = Some FactoryToken"
    and "mget (v_factors (ns_vmm st)) ModuleFormatRegistry = Some FactoryRegistry"
    and "\<not> IsRecovering (ns_vmm st) pid"
    and "machine (ns_vmm st) pid = Some (ob, env) \<Longrightarrow> items_of es pid \<noteq> []"
    and "machine (ns_vmm st) pid = Some (ob, env) \<Longrightarrow> env = snd (fin pid)"
    and "machine (ns_vmm st) pid = Some (ob, env) \<Longrightarrow> obj_equiv (fst (fin pid)) ob"
  using assms unfolding partly_recovered_def by blast+

lemma obj_equiv_kind: "obj_equiv a b \<Longrightarrow> is_token b = is_token a \<and> is_registry b = is_registry a"
  by (cases a; cases b) auto

lemma partly_ready:
  assumes c: "core_log cf view fview st0 es fin" and p: "partly_recovered view fview st0 es fin st" and i: "items_of es pid \<noteq> []"
  shows "core_ready (ns_vmm st) pid (fst (fin pid))"
proof (cases "machine (ns_vmm st) pid")
  case (Some m)
  obtain ob env where m: "m = (ob, env)" by fastforce
  from obj_equiv_kind [OF partly_D(11) [OF p Some [unfolded m]]] show ?thesis
    by (simp add: core_ready_def Some m partly_D(3,4,6,7) [OF p])
next
  case None
  have "q = pid" if q: "machine (ns_vmm st) q = Some (ob, env)"
    and k: "is_token ob \<and> is_token (fst (fin pid)) \<or> is_registry ob \<and> is_registry (fst (fin pid))" for q ob env
  proof -
    from k obj_equiv_kind [OF partly_D(11) [OF p q]]
    have "is_token (fst (fin q)) \<and> is_token (fst (fin pid)) \<or> is_registry (fst (fin q)) \<and> is_registry (fst (fin pid))" by simp
    with c partly_D(9) [OF p q] i show ?thesis unfolding core_log_def by blast
  qed
  then have "is_token (fst (fin pid)) \<longrightarrow> v_token (ns_vmm st) = None" "is_registry (fst (fin pid)) \<longrightarrow> v_registry (ns_vmm st) = None"
    using partly_D(5) [OF p] None unfolding slots_used_def by (metis option.distinct(1))+
  then show ?thesis by (simp add: core_ready_def None partly_D(3,4,6,7) [OF p])
qed

text \<open>One task: the process is back, and nothing else has changed.\<close>

lemma task_recovers:
  assumes q: "ckp_params cf" "files_ok (rc_files cf) fview" "redis_ok (nc_redis cf) view" "redis_up (nc_redis cf)"
    and c: "core_log cf view fview st0 es fin" and p: "partly_recovered view fview st0 es fin st" and i: "items_of es pid \<noteq> []"
    and opn: "\<forall>n. \<not> closed n" and md: "mode \<noteq> ExecModeApply"
  shows "\<exists>st' hs. recovery_task cf closed mode st (pid, of_nat (length (items_of es pid)) - 1) = Some (st', hs, None) \<and>
    partly_recovered view fview st0 es fin st' \<and> machine (ns_vmm st') pid \<noteq> None \<and>
    (\<forall>q. machine (ns_vmm st) q \<noteq> None \<longrightarrow> machine (ns_vmm st') q \<noteq> None)"
proof -
  from c i obtain ckpId where
    log: "log_ok (nc_codec cf) (view (ns_db st0)) es"
    and ix: "ks_str (view (ns_db st0)) (RdbCheckpointIndexPrefix @ pid) = Some ckpId"
    and h: "core_history cf fview (rs_files st0) es pid (length (items_of es pid) - 1) ckpId (fin pid)"
    unfolding core_log_def by blast
  have n: "of_nat (length (items_of es pid)) - 1 = (of_nat (length (items_of es pid) - 1) :: int64)"
    using i by (cases "items_of es pid") simp_all
  obtain db where db: "GetCheckpointIndex (nc_redis cf) (ns_db st) pid = (db, Inr ckpId)" "view db = view (ns_db st0)"
    using GetCheckpointIndex_up [OF q(3,4), of "ns_db st" pid ckpId] ix partly_D(1) [OF p] by auto
  let ?st = "st\<lparr>ns_db := db\<rparr>"
  have h': "core_history cf fview (rs_files ?st) es pid (length (items_of es pid) - 1) ckpId (fst (fin pid), snd (fin pid))"
    using h partly_D(2) [OF p] by (simp add: core_history_def stored_snapshot_def)
  have r: "core_ready (ns_vmm ?st) pid (fst (fin pid))" using partly_ready [OF c p i] by simp
  have l: "log_ok (nc_codec cf) (view (ns_db ?st)) es" using log db(2) by simp
  have f: "\<not> IsRecovering (ns_vmm ?st) pid" using partly_D(8) [OF p] by simp
  from recover_core [OF q h' r l opn md f] obtain st' hs ob' where
    s: "recoveryProcess cf closed ?st pid (of_nat (length (items_of es pid) - 1)) ckpId mode = Some (st', hs, None)"
    and m: "machine (ns_vmm st') pid = Some (ob', snd (fin pid))" "obj_equiv (fst (fin pid)) ob'" "\<not> IsRecovering (ns_vmm st') pid"
    and k: "kept (ns_vmm st) (ns_vmm st') pid" "slots_used (ns_vmm st) \<longrightarrow> slots_used (ns_vmm st')"
    and w: "vmm_wf (ns_vmm st')" "\<not> v_closed (ns_vmm st')"
    and v: "view (ns_db st') = view db" "fview (rs_files st') = fview (rs_files st)" by auto
  have old: "machine (ns_vmm st') q = machine (ns_vmm st) q" "IsRecovering (ns_vmm st') q \<longleftrightarrow> IsRecovering (ns_vmm st) q"
    if "q \<noteq> pid" for q using k(1) that by (simp_all add: kept_def)
  have fac: "v_factors (ns_vmm st') = v_factors (ns_vmm st)" using k(1) by (simp add: kept_def)
  have lk: "\<not> IsRecovering (ns_vmm st') q" for q
    using old(2) [of q] partly_D(8) [OF p, of q] m(3) by (cases "q = pid") auto
  have mc: "items_of es q \<noteq> [] \<and> env = snd (fin q) \<and> obj_equiv (fst (fin q)) ob"
    if "machine (ns_vmm st') q = Some (ob, env)" for q ob env
    using that old(1) [of q] partly_D(9-11) [OF p, of q ob env] m(1,2) i by (cases "q = pid") auto
  have "partly_recovered view fview st0 es fin st'"
    unfolding partly_recovered_def using mc lk w v db(2) fac k(2) partly_D(2,5-7) [OF p] by simp
  moreover have "machine (ns_vmm st') q \<noteq> None" if "machine (ns_vmm st) q \<noteq> None" for q
    using that old(1) [of q] m(1) by (cases "q = pid") auto
  ultimately show ?thesis using s m(1) db(1) by (simp add: recovery_task_def n)
qed

lemma tasks_recover:
  assumes q: "ckp_params cf" "files_ok (rc_files cf) fview" "redis_ok (nc_redis cf) view" "redis_up (nc_redis cf)"
    and c: "core_log cf view fview st0 es fin" and opn: "\<forall>n. \<not> closed n" and md: "mode \<noteq> ExecModeApply" and acc: "\<forall>i. accept i"
  shows "partly_recovered view fview st0 es fin st \<Longrightarrow>
    \<forall>(p, n) \<in> set ps. items_of es p \<noteq> [] \<and> n = of_nat (length (items_of es p)) - 1 \<Longrightarrow>
    \<exists>st' ran. recovery_tasks cf closed mode accept i st ps = Some (st', ran) \<and> (\<forall>b \<in> set ran. b) \<and>
      partly_recovered view fview st0 es fin st' \<and>
      (\<forall>q. machine (ns_vmm st) q \<noteq> None \<or> q \<in> fst ` set ps \<longrightarrow> machine (ns_vmm st') q \<noteq> None)"
proof (induction ps arbitrary: i st)
  case (Cons x ps)
  obtain pid where x: "x = (pid, of_nat (length (items_of es pid)) - 1)" "items_of es pid \<noteq> []" using Cons.prems(2) by auto
  from task_recovers [OF q c Cons.prems(1) x(2) opn md] obtain st1 hs where
    t: "recovery_task cf closed mode st x = Some (st1, hs, None)" "partly_recovered view fview st0 es fin st1"
      "machine (ns_vmm st1) pid \<noteq> None" "\<forall>q. machine (ns_vmm st) q \<noteq> None \<longrightarrow> machine (ns_vmm st1) q \<noteq> None"
    unfolding x(1) by blast
  have "\<forall>(p, n) \<in> set ps. items_of es p \<noteq> [] \<and> n = of_nat (length (items_of es p)) - 1" using Cons.prems(2) by simp
  from Cons.IH [OF t(2) this, of "Suc i"] obtain st' ran where
    r: "recovery_tasks cf closed mode accept (Suc i) st1 ps = Some (st', ran)" "\<forall>b \<in> set ran. b"
    "partly_recovered view fview st0 es fin st'"
    "\<forall>q. machine (ns_vmm st1) q \<noteq> None \<or> q \<in> fst ` set ps \<longrightarrow> machine (ns_vmm st') q \<noteq> None" by blast
  have a: "recovery_tasks cf closed mode accept i st (x # ps) = Some (st', True # ran)" using t(1) r(1) acc by simp
  have b: "\<forall>b \<in> set (True # ran). b" using r(2) by simp
  have "machine (ns_vmm st') q \<noteq> None" if "machine (ns_vmm st) q \<noteq> None \<or> q \<in> fst ` set (x # ps)" for q
  proof -
    have "q = pid \<or> machine (ns_vmm st) q \<noteq> None \<or> q \<in> fst ` set ps" using that by (simp add: x(1)) blast
    with t(3,4) r(4) show ?thesis by blast
  qed
  with a b r(3) show ?case by blast
qed simp

text \<open>C12: a restart brings back every core process. Take a node whose log holds nothing but core processes, at
  most one token and one registry, each with a checkpoint in the files and, after it, well-formed messages only
  (every entry parses and is for its process, as \<open>core_history\<close> says), and whose \<open>SCAN\<close> keeps its guarantee.
  A log with a message that does not parse is not of this kind, and there a lock can stay. Then \<open>runRecovery\<close> on a new
  manager returns, whatever the order of the scan and however often it repeats a process: every process
  of the log runs again with its environment (but for the fields no snapshot keeps), the token with its store and the registry with its
  answers, and no process is left locked.\<close>

theorem node_restart:
  assumes "ckp_params cf" "files_ok (rc_files cf) fview" "redis_ok (nc_redis cf) view" "redis_up (nc_redis cf)"
    and "scan_ok scan view (view (ns_db st)) RdbProcessNoncePrefix" "scan_up scan view (view (ns_db st)) RdbProcessNoncePrefix"
    and "core_log cf view fview st es fin" and "ns_vmm st = Vmm_New role join" and "\<forall>n. \<not> closed n" "\<forall>i. accept i"
  shows "\<exists>st'. runRecovery cf scan closed accept st = Some (st', Inr True) \<and>
    (\<forall>pid. items_of es pid \<noteq> [] \<longrightarrow>
       (\<exists>ob'. machine (ns_vmm st') pid = Some (ob', snd (fin pid)) \<and> obj_equiv (fst (fin pid)) ob')) \<and>
    (\<forall>pid. \<not> IsRecovering (ns_vmm st') pid)"
proof -
  have "log_ok (nc_codec cf) (view (ns_db st)) es" using assms(7) by (simp add: core_log_def)
  from GetAllProcess_lists [OF assms(3-5) this] assms(6) obtain db ps where
    g: "GetAllProcess (nc_redis cf) scan (ns_db st) = Some (db, Inr ps)" "view db = view (ns_db st)"
      "set ps = {(pid, n). items_of es pid \<noteq> [] \<and> n = of_nat (length (items_of es pid)) - 1}"
    by (metis (no_types, lifting) is_err.simps(1) sum.exhaust_sel sum.collapse(2))
  let ?st = "st\<lparr>ns_db := db\<rparr>"
  have new: "machine (ns_vmm st) q = None" "\<not> IsRecovering (ns_vmm st) q" for q
    by (simp_all add: assms(8) machine_def IsRecovering_def Vmm_New_def)
  have "slots_used (ns_vmm st)" by (simp add: assms(8) slots_used_def Vmm_New_def)
  then have p: "partly_recovered view fview st es fin ?st"
    using core_ready_New [of role join "[]" "fst (fin [])", folded assms(8)] g(2) new
    by (simp add: partly_recovered_def core_ready_def)
  have md: "ExecModeDryRun \<noteq> ExecModeApply" by simp
  have l: "\<forall>(p, n) \<in> set ps. items_of es p \<noteq> [] \<and> n = of_nat (length (items_of es p)) - 1" using g(3) by auto
  from tasks_recover [OF assms(1-4,7,9) md assms(10) p l, of 0] obtain st' ran where
    r: "recovery_tasks cf closed ExecModeDryRun accept 0 ?st ps = Some (st', ran)" "\<forall>b \<in> set ran. b"
      "partly_recovered view fview st es fin st'"
      "\<forall>q. machine (ns_vmm ?st) q \<noteq> None \<or> q \<in> fst ` set ps \<longrightarrow> machine (ns_vmm st') q \<noteq> None" by blast
  have "\<exists>ob'. machine (ns_vmm st') pid = Some (ob', snd (fin pid)) \<and> obj_equiv (fst (fin pid)) ob'"
    if "items_of es pid \<noteq> []" for pid
  proof -
    have "(pid, of_nat (length (items_of es pid)) - 1) \<in> set ps" using g(3) that by simp
    then have "pid \<in> fst ` set ps" by force
    with r(4) obtain ob env where "machine (ns_vmm st') pid = Some (ob, env)" by fastforce
    with partly_D(10,11) [OF r(3) this] show ?thesis by blast
  qed
  with g(1) r(1,2) partly_D(8) [OF r(3)] show ?thesis by (auto simp: runRecovery_def)
qed

subsection \<open>A process listed twice\<close>

text \<open>C14: a repetition of the scan can undo messages. \<open>SCAN\<close> may return a key twice, nothing removes the
  repetition, and a task keeps the nonce that the scan has read. When the process has been recovered by
  the first task and has applied further messages before the second one runs, the second task returns
  without an error and sets the machine back to the state of the listed nonce, while the log goes on:
  the next message, which gets the nonce after the last entry, is refused, and so the process stands still.\<close>

theorem scan_duplicate_rolls_back:
  assumes "ckp_params cf" "files_ok (rc_files cf) fview" "redis_ok (nc_redis cf) view" "redis_up (nc_redis cf)"
    and "core_history cf fview (rs_files st) es pid N ckpId (ob2, env2)" "env_Nonce env2 = of_nat N"
    and "ks_str (view (ns_db st)) (RdbCheckpointIndexPrefix @ pid) = Some ckpId"
    and "log_ok (nc_codec cf) (view (ns_db st)) es" "Suc N < length (items_of es pid)" "length (items_of es pid) < 2 ^ 63"
    and "core_ready (ns_vmm st) pid ob2" "machine (ns_vmm st) pid = Some (ob3, env3)" "\<not> IsRecovering (ns_vmm st) pid"
    and "\<forall>n. \<not> closed n" "mode \<noteq> ExecModeApply"
  shows "\<exists>st' hs ob'. recovery_task cf closed mode st (pid, of_nat N) = Some (st', hs, None) \<and>
    machine (ns_vmm st') pid = Some (ob', env2) \<and> obj_equiv ob2 ob' \<and>
    (\<forall>m. meta_Pid m = pid \<and> meta_Nonce m = of_nat (length (items_of es pid)) \<longrightarrow>
       machine (fst (Vmm_Apply (nc_lib cf) (nc_ops cf) (nc_cryptor cf) (ns_vmm st') m)) pid = Some (ob', env2))"
proof -
  obtain db where db: "GetCheckpointIndex (nc_redis cf) (ns_db st) pid = (db, Inr ckpId)" "view db = view (ns_db st)"
    using GetCheckpointIndex_up [OF assms(3,4,7)] by auto
  let ?st = "st\<lparr>ns_db := db\<rparr>"
  have "core_history cf fview (rs_files ?st) es pid N ckpId (ob2, env2)" "core_ready (ns_vmm ?st) pid ob2"
    "log_ok (nc_codec cf) (view (ns_db ?st)) es" "\<not> IsRecovering (ns_vmm ?st) pid"
    using assms(5,8,11,13) db(2) by simp_all
  from recover_core [OF assms(1-4) this(1-3) assms(14,15) this(4)] obtain st' hs ob' where
    r: "recoveryProcess cf closed ?st pid (of_nat N) ckpId mode = Some (st', hs, None)"
      "machine (ns_vmm st') pid = Some (ob', env2)" "obj_equiv ob2 ob'" "vmm_wf (ns_vmm st')" by blast
  have "(of_nat (length (items_of es pid)) :: int64) \<noteq> of_nat N + 1"
  proof
    assume "(of_nat (length (items_of es pid)) :: int64) = of_nat N + 1"
    then have "(of_nat (length (items_of es pid)) :: int64) = of_nat (Suc N)" by (simp add: add.commute)
    then have "sint (of_nat (length (items_of es pid)) :: int64) = sint (of_nat (Suc N) :: int64)" by simp
    with assms(9,10) show False by (simp only: sint_small)
  qed
  then have "machine (fst (Vmm_Apply (nc_lib cf) (nc_ops cf) (nc_cryptor cf) (ns_vmm st') m)) pid = Some (ob', env2)"
    if m: "meta_Pid m = pid" "meta_Nonce m = of_nat (length (items_of es pid))" for m
    using Vmm_Apply_bad_nonce [OF r(4), of "nc_lib cf" "nc_ops cf" "nc_cryptor cf" m _ _ ob' env2, OF surjective_pairing]
      m r(2) assms(6) by simp
  with r db(1) show ?thesis by (auto simp: recovery_task_def)
qed

end
