(* ===== verification/NodeLifeDemo.thy ===== *)
theory NodeLifeDemo
  imports RecoveryDemo NodeRestart
begin

text \<open>
  The properties of a node's start at the node of \<open>RecoveryDemo\<close>, with a scan of two pages that returns
  its only process on both.
\<close>

definition demo_scan :: "(keyspace \<times> nat list) scanner" where
  "demo_scan = (\<lambda>s c _ _. (s, Inr ([RdbProcessNoncePrefix @ ''p''], if c = 0 then 7 else 0)))"

definition start_keys :: keyspace where
  "start_keys = ks_cmd (log_keys tok_log) (CSet (RdbCheckpointIndexPrefix @ ''p'') ''c1'')"

lemma start_log: "log_ok demo_codec start_keys tok_log"
  using tok_logs(2) by (simp add: log_ok_def start_keys_def rdb_keys)

lemma start_process [simp]: "items_of tok_log q = [] \<longleftrightarrow> q \<noteq> ''p''"
  by (auto simp: tok_log_def items_of_def split: if_splits)

lemma start_scan: "scan_ok demo_scan fst start_keys RdbProcessNoncePrefix" "scan_up demo_scan fst start_keys RdbProcessNoncePrefix"
proof -
  have "k = RdbProcessNoncePrefix @ ''p''" if k: "HasPrefix k RdbProcessNoncePrefix" "ks_str start_keys k \<noteq> None" for k
  proof -
    obtain q where q: "k = RdbProcessNoncePrefix @ q" using HasPrefix_split [OF k(1)] by blast
    with k(2) start_log have "items_of tok_log q \<noteq> []" unfolding log_ok_def by metis
    with q show ?thesis by simp
  qed
  moreover have "scan_law demo_scan fst start_keys RdbProcessNoncePrefix
      (\<lambda>c. if c = 0 then {RdbProcessNoncePrefix @ ''p''} else {}) (\<lambda>c. if c = 0 then 1 else 0)"
    by (simp add: scan_law_def demo_scan_def)
  ultimately show "scan_ok demo_scan fst start_keys RdbProcessNoncePrefix"
    unfolding scan_ok_def by (intro exI [of _ "\<lambda>c. if c = 0 then {RdbProcessNoncePrefix @ ''p''} else {}"]) auto
  show "scan_up demo_scan fst start_keys RdbProcessNoncePrefix" by (simp add: scan_up_def demo_scan_def)
qed

theorem GetAllProcess_complete_witness:
  "\<exists>s' r. GetAllProcess demo_up demo_scan (start_keys, []) = Some (s', r) \<and> fst s' = start_keys \<and>
    (\<forall>ps. r = Inr ps \<longrightarrow> set ps = {(''p'', 1)})"
proof -
  have s: "{(pid, n). items_of tok_log pid \<noteq> [] \<and> n = of_nat (length (items_of tok_log pid)) - 1} = {(''p'', 1 :: int64)}"
    by (auto simp: tok_lists)
  have p: "redis_ok demo_up fst" "redis_up demo_up" using tok_params(3,4) by (simp_all add: tok_cfg_def)
  have c: "scan_ok demo_scan fst (fst (start_keys, [])) RdbProcessNoncePrefix" "log_ok demo_codec (fst (start_keys, [])) tok_log"
    using start_scan(1) start_log by simp_all
  from GetAllProcess_complete [OF p c] show ?thesis unfolding s by simp
qed

abbreviation start_state :: "nat vmm \<Rightarrow> (nat, keyspace \<times> nat list, unit, unit, unit, string \<Rightarrow> string option) rec_state" where
  "start_state v \<equiv> tok_state v start_keys tok_files"

text \<open>The history of the token up to each of its two nonces.\<close>

lemma start_history:
  "core_history tok_cfg (\<lambda>s. s) (rs_files (start_state v)) tok_log ''p'' 0 ''c1'' (ObjToken (genesis_token tok_env), saved_env tok_env)"
  "\<exists>fin. core_history tok_cfg (\<lambda>s. s) (rs_files (start_state v)) tok_log ''p'' 1 ''c1'' fin"
proof -
  have sn: "stored_snapshot tok_cfg (\<lambda>s. s) (rs_files (start_state v)) ''c1'' \<lparr>snap_Env = tok_env, snap_Data = ''t''\<rparr>"
    unfolding stored_snapshot_def
    by (intro exI [of _ tok_ckp]) (simp add: tok_state_def tok_files_def tok_cfg_def demo_lib_def tok_ckp_def)
  have d: "obj_checkpoint (rc_codec tok_cfg) (nc_ops tok_cfg) (ObjToken (genesis_token tok_env)) = Inr ''t''"
    by (simp add: obj_checkpoint_def tok_cfg_def)
  have pid: "meta_Pid (env_Meta tok_env) = ''p''" "env_Nonce tok_env = of_nat 0" by (simp_all add: tok_env_def)
  note base = sn d tok_texts(2,1) pid
  have len: "Suc 1 \<le> length (items_of tok_log ''p'')" "Suc 0 \<le> length (items_of tok_log ''p'')" by (simp_all add: tok_lists)
  show "core_history tok_cfg (\<lambda>s. s) (rs_files (start_state v)) tok_log ''p'' 0 ''c1'' (ObjToken (genesis_token tok_env), saved_env tok_env)"
    unfolding core_history_def
    by (intro exI [of _ "0 :: nat"] exI [of _ "ObjToken (genesis_token tok_env)"] exI [of _ tok_env] exI [of _ "''t''"]
        exI [of _ "[] :: meta list"] exI [of _ tok_env] exI [of _ "[] :: task_effect list"] conjI base len) (simp_all add: log_pairs_def tok_lists)
  obtain mt where mt: "logged_meta demo_lib ExecModeApply 0 (info_item, info_assign) = Some mt" "meta_Pid mt = ''p''" "meta_Nonce mt = 1"
    using info_meta by blast
  obtain ob env effs where run: "Vmm_run (obj_apply (nc_lib tok_cfg) (nc_ops tok_cfg)) (nc_cryptor tok_cfg)
      (ObjToken (genesis_token tok_env), tok_env) [mt] = ((ob, env), effs)" by (metis surj_pair)
  then have run': "Vmm_run (obj_apply (nc_lib tok_cfg) (nc_ops tok_cfg)) (nc_cryptor tok_cfg)
      (ObjToken (genesis_token tok_env), tok_env) [mt] = ((fst (ob, saved_env env), env), effs)" by simp
  have m: "map (logged_meta (nc_lib tok_cfg) ExecModeApply 0) (drop (Suc 0) (take (Suc 1) (log_pairs tok_log ''p''))) = map Some [mt]"
    using mt(1) by (simp add: log_pairs_def tok_lists tok_cfg_def)
  have "core_history tok_cfg (\<lambda>s. s) (rs_files (start_state v)) tok_log ''p'' 1 ''c1'' (ob, saved_env env)"
    unfolding core_history_def
    by (intro exI [of _ "0 :: nat"] exI [of _ "ObjToken (genesis_token tok_env)"] exI [of _ tok_env] exI [of _ "''t''"]
        exI [of _ "[mt]"] exI [of _ env] exI [of _ effs] conjI base run' m len) (simp_all add: mt)
  then show "\<exists>fin. core_history tok_cfg (\<lambda>s. s) (rs_files (start_state v)) tok_log ''p'' 1 ''c1'' fin" by blast
qed

lemma start_index: "ks_str (fst (ns_db (start_state v))) (RdbCheckpointIndexPrefix @ ''p'') = Some ''c1''"
  by (simp add: tok_state_def start_keys_def)

theorem node_restart_witness:
  "\<exists>st' ob' env. runRecovery tok_cfg demo_scan (\<lambda>_. False) (\<lambda>_. True) (start_state (Vmm_New [] True)) = Some (st', Inr True) \<and>
    machine (ns_vmm st') ''p'' = Some (ob', env) \<and> \<not> IsRecovering (ns_vmm st') ''p''"
proof -
  let ?st = "start_state (Vmm_New [] True)"
  obtain fin where fin: "core_history tok_cfg (\<lambda>s. s) (rs_files ?st) tok_log ''p'' 1 ''c1'' fin" using start_history(2) by blast
  have one: "items_of tok_log p \<noteq> [] \<longleftrightarrow> p = ''p''" for p by simp
  have log: "log_ok (nc_codec tok_cfg) (fst (ns_db ?st)) tok_log" using start_log by (simp add: tok_cfg_def tok_state_def)
  have c: "core_log tok_cfg fst (\<lambda>s. s) ?st tok_log (\<lambda>_. fin)"
    unfolding core_log_def one using log start_index [of "Vmm_New [] True"] fin by (auto simp: tok_lists)
  have sc: "scan_ok demo_scan fst (fst (ns_db ?st)) RdbProcessNoncePrefix" "scan_up demo_scan fst (fst (ns_db ?st)) RdbProcessNoncePrefix"
    using start_scan by (simp_all add: tok_state_def)
  have v: "ns_vmm ?st = Vmm_New [] True" by (simp add: tok_state_def)
  from node_restart [OF tok_params(1-4) sc c v, of "\<lambda>_. False" "\<lambda>_. True"] one show ?thesis by auto
qed

theorem scan_duplicate_rolls_back_witness:
  "\<exists>st' hs ob'. recovery_task tok_cfg (\<lambda>_. False) ExecModeDryRun (start_state tok_vmm) (''p'', 0) = Some (st', hs, None) \<and>
    machine (ns_vmm st') ''p'' = Some (ob', saved_env tok_env) \<and> obj_equiv (ObjToken (genesis_token tok_env)) ob'"
proof -
  let ?st = "start_state tok_vmm" and ?ob = "ObjToken (genesis_token tok_env) :: nat vm_obj"
  have log: "log_ok (nc_codec tok_cfg) (fst (ns_db ?st)) tok_log" using start_log by (simp add: tok_cfg_def tok_state_def)
  have len: "Suc 0 < length (items_of tok_log ''p'')" "length (items_of tok_log ''p'') < 2 ^ 63" by (simp_all add: tok_lists)
  have n: "env_Nonce (saved_env tok_env) = of_nat 0" by (simp add: tok_env_def)
  have m: "machine (ns_vmm ?st) ''p'' = Some (?ob, tok_env)" by (simp add: machine_def tok_state_def tok_vmm_def)
  have "vmm_wf tok_vmm" by (simp add: vmm_wf_def tok_vmm_def Vmm_New_def mwf_def)
  then have r: "core_ready (ns_vmm ?st) ''p'' ?ob" using m
    by (simp add: core_ready_def) (simp add: tok_state_def tok_vmm_def Vmm_New_def ModuleFormatToken_def ModuleFormatRegistry_def)
  have f: "\<not> IsRecovering (ns_vmm ?st) ''p''" by (simp add: IsRecovering_def tok_state_def tok_vmm_def Vmm_New_def)
  have opn: "\<forall>n. \<not> (\<lambda>_. False) n" "ExecModeDryRun \<noteq> ExecModeApply" by simp_all
  from scan_duplicate_rolls_back [OF tok_params(1-4) start_history(1) n start_index log len r m f opn] show ?thesis by auto
qed

end
