(* ===== verification/ResultDemo.thy ===== *)
theory ResultDemo
  imports ResultProps NodeLifeDemo
begin

text \<open>The properties of the result loop at a transfer of 30 units and at two credit notices of one item.\<close>

definition cached_transfer :: meta where
  "cached_transfer = demo_transfer\<lparr>meta_Pid := ''tok'', meta_Nonce := 1, meta_AccId := ''0xa'', meta_FromProcess := [],
     meta_Mode := ExecModeApply\<rparr>"

theorem cached_balances_current_witness:
  "\<exists>db' env' effs. Vmm_run (Token_Apply demo_lib) None (NewTokenDb demo_info [(''0xa'', 100)] [], tok_env) [cached_transfer] =
      ((db', env'), effs) \<and>
    snd (GetCache demo_up (snd (runResultChan demo_up demo_codec [] ((), (empty_keyspace, [])) (map te_result effs)))
      ''tok'' ''balances:0xb'') = Inr ''30''"
proof -
  let ?db = "NewTokenDb demo_info [(''0xa'', 100)] []"
  obtain db' env' eff where a: "Vmm_apply (Token_Apply demo_lib) None (?db, tok_env) cached_transfer = ((db', env'), eff)"
    by (metis surj_pair)
  then have run: "Vmm_run (Token_Apply demo_lib) None (?db, tok_env) [cached_transfer] = ((db', env'), [eff])" by simp
  have bal: "db_BalanceOf db' ''0xb'' = 30" "db_BalanceOf ?db ''0xb'' = 0"
    using a by (auto simp: Vmm_apply_def case_prod_beta applyCheck_def cached_transfer_def tok_env_def decryptParams_def demo_eval)
  have s: "show_int 30 = ''30''" by code_simp
  have inv: "token_inv ?db" by (rule NewTokenDb_inv) (simp_all add: mwf_def)
  have n: "normal_sender demo_lib cached_transfer" by (simp add: normal_sender_def cached_transfer_def demo_eval)
  have m: "\<forall>m \<in> set [cached_transfer]. meta_Pid m = ''tok'' \<and> meta_Mode m \<noteq> ExecModeDryRun \<and> normal_sender demo_lib m"
    using n by (simp add: cached_transfer_def)
  have p: "vr_FromProcess (te_result eff) = ''tok''" using token_task [OF a inv n] by (simp add: cached_transfer_def)
  then have f: "filter (\<lambda>r. vr_FromProcess r = ''tok'') (map te_result [eff]) = map te_result [eff]"
    "\<forall>r \<in> set (map te_result [eff]). CHR '':'' \<notin> set (vr_FromProcess r)" by simp_all
  have e: "\<forall>k. ks_str (fst (empty_keyspace, [])) (RdbCachePrefix @ ''tok'' @ '':'' @ k) = None" by (simp add: empty_keyspace_def)
  have c: "CHR '':'' \<notin> set ''tok''" by simp
  let ?r = "runResultChan demo_up demo_codec [] ((), (empty_keyspace, [])) (map te_result [eff])"
  have "?r = (fst ?r, snd ?r)" by (rule surjective_pairing)
  from cached_balances_current [OF demo_up_ok c inv e run m f this, of "''0xb''"] bal s
  have "snd (GetCache demo_up (snd ?r) ''tok'' (''balances:'' @ ''0xb'')) = Inr ''30''" by auto
  with run show ?thesis by auto
qed

definition paid :: pay_db where
  "paid = HymxDepositHandler PayService.demo_cfg ''node'' (\<lambda>_. None) NewPay demo_credits"

definition demo_pay_files :: "(string \<Rightarrow> string option) pay_files" where
  "demo_pay_files = \<lparr>pf_files = demo_files, pf_enc = (\<lambda>_. ''pay''), pf_dec = (\<lambda>_. Some (PayDb_Checkpoint paid))\<rparr>"

theorem ledger_survives_restart_witness:
  "\<forall>cf :: (nat, unit, pay_db) node_cfg. \<exists>fs1 fs3 cf' hs. Pay_SaveCheckpoint demo_pay_files (\<lambda>_. None) paid = (fs1, None) \<and>
    Server_Run_pay demo_pay_files PayService.demo_cfg ''node'' (\<lambda>_. None) cf fs1 NewPay = (fs3, paid, cf', hs) \<and>
    fst (runResultChan demo_up demo_codec hs (paid, (empty_keyspace, [])) [demo_credits\<lparr>vr_Mode := ExecModeDryRun\<rparr>]) = paid"
proof
  fix cf :: "(nat, unit, pay_db) node_cfg"
  let ?H = "HymxDepositHandler PayService.demo_cfg ''node'' (\<lambda>_. None)"
  have f: "files_ok (pf_files demo_pay_files) (\<lambda>s. s)" using demo_files_ok by (simp add: demo_pay_files_def)
  have t: "pf_dec demo_pay_files (pf_enc demo_pay_files (PayDb_Checkpoint paid)) = Some (PayDb_Checkpoint paid)"
    by (simp add: demo_pay_files_def)
  obtain s1 where r: "runResultChan demo_up demo_codec [?H] (NewPay, (empty_keyspace, [])) [demo_credits] = (paid, s1)"
    by (cases "runResultChan demo_up demo_codec [?H] (NewPay, (empty_keyspace, [])) [demo_credits]")
      (simp add: runResultChan_def result_turn_def paid_def)
  obtain fs1 where s: "Pay_SaveCheckpoint demo_pay_files (\<lambda>_. None) paid = (fs1, None)"
    by (simp add: Pay_SaveCheckpoint_def demo_pay_files_def demo_files_def)
  obtain fs3 db2 cf' hs where run: "Server_Run_pay demo_pay_files PayService.demo_cfg ''node'' (\<lambda>_. None) cf fs1 NewPay = (fs3, db2, cf', hs)"
    by (metis prod_cases4)
  have k: "\<forall>h. IsExecuted paid h \<longrightarrow> IsExecuted paid h" by simp
  have m: "\<forall>r' \<in> set [demo_credits\<lparr>vr_Mode := ExecModeDryRun\<rparr>]. \<exists>r \<in> set [demo_credits]. vr_ItemId r' = vr_ItemId r \<and>
      vr_FromProcess r' = vr_FromProcess r \<and> vr_Messages r' = vr_Messages r" by simp
  from ledger_survives_restart [OF f t r k s refl run m, of "(empty_keyspace, [])"] run s
  show "\<exists>fs1 fs3 cf' hs. Pay_SaveCheckpoint demo_pay_files (\<lambda>_. None) paid = (fs1, None) \<and>
    Server_Run_pay demo_pay_files PayService.demo_cfg ''node'' (\<lambda>_. None) cf fs1 NewPay = (fs3, paid, cf', hs) \<and>
    fst (runResultChan demo_up demo_codec hs (paid, (empty_keyspace, [])) [demo_credits\<lparr>vr_Mode := ExecModeDryRun\<rparr>]) = paid"
    by auto
qed

end
