(* ===== verification/JoinProps.thy ===== *)
theory JoinProps
  imports NodeLife SdkProps RegistryVm TokenVm
begin

text \<open>
  Joining and leaving across the components: from the message that \<open>runJoin\<close> or \<open>leave\<close> signs
  (node/join.go), through the tag codec, the core token and its notice, to the nodes the core registry
  answers with.
\<close>

subsection \<open>The way of a message to a machine\<close>

text \<open>The meta of a decoded item, as far as the core machines read it (\<open>applyMessage\<close>).\<close>

definition arrives :: "extlib \<Rightarrow> tag list \<Rightarrow> meta \<Rightarrow> bool" where
  "arrives lib ts mt \<longleftrightarrow>
     (\<exists>item pid accid fp m. item_Tags item = ts \<and> Decode lib item = Inr (pid, accid, fp, IMessage m) \<and>
        TagsToParams (msg_Tags m) = Inr (meta_Params mt) \<and> meta_Action mt = msg_Action m)"

lemma TagsToMessage_loop_Action:
  assumes "distinct (tag_names ts)"
  shows "msg_Action (TagsToMessage_loop m ts) =
    (if ''Action'' \<in> set (tag_names ts) then GetTagsValue ''Action'' ts else msg_Action m)"
  using assms
  by (induction m ts rule: TagsToMessage_loop.induct) (auto simp: GetTagsValue_map_of reserved_defs)

lemma arrives_Action:
  assumes "arrives lib ts mt" "Tag ''Action'' a \<in> set ts"
  shows "meta_Action mt = a"
proof -
  obtain item pid accid fp m where d: "item_Tags item = ts" "Decode lib item = Inr (pid, accid, fp, IMessage m)"
    "meta_Action mt = msg_Action m" using assms(1) by (auto simp: arrives_def)
  from d(2) have "DecodeItemToMessage lib item = Inr m"
    by (auto simp: Decode_def split: sum.splits if_splits)
  then obtain m0 data where "TagsToMessage ts = Inr m0" "m = m0\<lparr>msg_Tags := msg_Tags m0 @ [Tag ''Data'' data]\<rparr>"
    by (auto simp: DecodeItemToMessage_def d(1) split: sum.splits option.splits)
  moreover from this(1) have "distinct (tag_names ts)" by (auto simp: TagsToMessage_def split: option.splits)
  moreover from this have "GetTagsValue ''Action'' ts = a"
    using mget_entries [of ts "Tag ''Action'' a"] assms(2) by (simp add: GetTagsValue_map_of)
  moreover have "''Action'' \<in> set (tag_names ts)" using assms(2) by force
  ultimately show ?thesis using d(3) by (auto simp: TagsToMessage_def TagsToMessage_loop_Action split: option.splits)
qed

lemma arrives_param:
  assumes "arrives lib ts mt" "Tag n v \<in> set ts" "msg_keeps (Tag n v)"
  shows "mget (meta_Params mt) n = Some v"
  using assms kept_params(4) unfolding arrives_def by (metis tag.sel)

lemma arrives_empty:
  assumes "arrives lib ts mt" "Tag n [] \<in> set ts" "n \<noteq> ''Data''"
  shows "mget (meta_Params mt) n = None"
proof -
  obtain item pid accid fp m where d: "item_Tags item = ts" "Decode lib item = Inr (pid, accid, fp, IMessage m)"
    "TagsToParams (msg_Tags m) = Inr (meta_Params mt)" using assms(1) by (auto simp: arrives_def)
  from d(2) have "DecodeItemToMessage lib item = Inr m"
    by (auto simp: Decode_def split: sum.splits if_splits)
  from DecodeItemToMessage_tags_distinct [OF this] have dm: "distinct (tag_names (msg_Tags m))" by simp
  from \<open>DecodeItemToMessage lib item = Inr m\<close> obtain m0 data
    where m0: "TagsToMessage ts = Inr m0" "m = m0\<lparr>msg_Tags := msg_Tags m0 @ [Tag ''Data'' data]\<rparr>"
    by (auto simp: DecodeItemToMessage_def d(1) split: sum.splits option.splits)
  from m0(1) have dist: "distinct (tag_names ts)" and tags: "msg_Tags m = filter msg_keeps ts @ [Tag ''Data'' data]"
    by (auto simp: m0(2) TagsToMessage_def TagsToMessage_loop_Tags zero_msg_def split: option.splits)
  from TagsToParams_ok [OF dm] d(3) have "mget (meta_Params mt) n = mget (map tag_entry (msg_Tags m)) n" by auto
  moreover have "tag_Value t = []" if "t \<in> set ts" "tag_Name t = n" for t
    using mget_entries [OF dist that(1)] mget_entries [OF dist assms(2)] that(2) by simp
  then have "n \<notin> set (tag_names (msg_Tags m))" using assms(3) by (auto simp: tags msg_keeps_def)
  ultimately show ?thesis by (simp add: map_of_entries_notin)
qed

subsection \<open>The token and the registry\<close>

definition self_node :: "string \<Rightarrow> node \<Rightarrow> node" where
  "self_node a nd = \<lparr>node_AccId = a, node_Name = node_Name nd, node_Role = RoleFollower,
     node_Desc = node_Desc nd, node_URL = node_URL nd\<rparr>"

lemma self_node_simps [simp]:
  "node_AccId (self_node a nd) = a" "node_Name (self_node a nd) = node_Name nd"
  "node_Desc (self_node a nd) = node_Desc nd" "node_URL (self_node a nd) = node_URL nd"
  "node_Role (self_node a nd) = RoleFollower"
  by (simp_all add: self_node_def)

definition described :: "node \<Rightarrow> bool" where
  "described nd \<longleftrightarrow> node_Name nd \<noteq> [] \<and> node_Desc nd \<noteq> [] \<and> node_URL nd \<noteq> []"

text \<open>Tags that hold the description of the node.\<close>

definition node_tags :: "string \<Rightarrow> node \<Rightarrow> tag list" where
  "node_tags a nd = [Tag ''Acc-Id'' a, Tag ''Name'' (node_Name nd), Tag ''Desc'' (node_Desc nd), Tag ''URL'' (node_URL nd)]"

lemma arrives_node:
  assumes "arrives lib ts mt" "set (node_tags a nd) \<subseteq> set ts" "IDCheck lib a = Inr (t, a)" "a \<noteq> []" "described nd"
  shows "registry_Decode lib (meta_Params mt) = Inr (self_node a nd)"
proof -
  have *: "mget (meta_Params mt) n = Some v" if "Tag n v \<in> set (node_tags a nd)" for n v
    using that assms(2,4,5)
    by (intro arrives_param [OF assms(1)]) (auto simp: node_tags_def msg_keeps_def described_def NonExtractableTags_def)
  show ?thesis using assms(3) *
    by (simp add: registry_Decode_def node_tags_def self_node_def)
qed

lemma arrives_undescribed:
  assumes "arrives lib ts mt" "set (node_tags a nd) \<subseteq> set ts" "\<not> described nd"
  shows "\<exists>e. registry_Decode lib (meta_Params mt) = Inl e"
proof -
  have "Tag n [] \<in> set ts \<Longrightarrow> n \<noteq> ''Data'' \<Longrightarrow> mget (meta_Params mt) n = None" for n
    by (rule arrives_empty [OF assms(1)])
  moreover have "Tag ''Name'' [] \<in> set ts \<or> Tag ''Desc'' [] \<in> set ts \<or> Tag ''URL'' [] \<in> set ts"
    using assms(2,3) by (auto simp: described_def node_tags_def)
  ultimately have "mget (meta_Params mt) ''Name'' = None \<or> mget (meta_Params mt) ''Desc'' = None \<or>
      mget (meta_Params mt) ''URL'' = None" by auto
  then show ?thesis
    by (auto simp: registry_Decode_def split: option.splits sum.splits prod.splits)
qed

text \<open>The parameters of a stake, from the tags \<open>runJoin\<close> and \<open>leave\<close> sign.\<close>

definition join_signed :: "int64 \<Rightarrow> string \<Rightarrow> ('n, 'j, 'f) join_cfg \<Rightarrow> string \<Rightarrow> tag list" where
  "join_signed now action jc registry = signed_tags now (join_tags action jc registry) []"

lemma MergeTags_Nil [simp]: "MergeTags ts [] = ts"
  by (simp add: MergeTags_eq)

lemma join_signed_tags:
  "set (join_tags action jc registry) \<subseteq> set (join_signed now action jc registry)"
  by (auto simp: join_signed_def signed_tags_def join_tags_def MergeTags_eq BaseToTags_def)

lemma join_node_tags: "set (node_tags (kt_Address (jc_kit jc)) (jc_Node jc)) \<subseteq> set (join_tags action jc registry)"
  by (auto simp: node_tags_def join_tags_def)

lemma show_int_nonempty: "show_int i \<noteq> []"
  using big_SetString_show_int [of i] by (auto simp: big_SetString_def parse_nat_def)

lemma join_arrives:
  assumes "arrives lib (join_signed now action jc registry) mt" and "registry \<noteq> []"
  shows "meta_Action mt = action" "mget (meta_Params mt) ''Quantity'' = Some (show_int StakeMinAmount)"
    "mget (meta_Params mt) ''Registry'' = Some registry"
proof -
  have mem: "Tag n v \<in> set (join_signed now action jc registry)" if "Tag n v \<in> set (join_tags action jc registry)" for n v
    using that join_signed_tags by blast
  show "meta_Action mt = action" by (rule arrives_Action [OF assms(1) mem]) (simp add: join_tags_def)
  show "mget (meta_Params mt) ''Quantity'' = Some (show_int StakeMinAmount)"
    by (rule arrives_param [OF assms(1) mem])
       (simp_all add: join_tags_def msg_keeps_def NonExtractableTags_def show_int_nonempty)
  show "mget (meta_Params mt) ''Registry'' = Some registry"
    by (rule arrives_param [OF assms(1) mem]) (simp_all add: join_tags_def msg_keeps_def NonExtractableTags_def assms(2))
qed

lemma join_params:
  assumes "arrives lib (join_signed now action jc registry) mt" "registry \<noteq> []"
    and "IDCheck lib (kt_Address (jc_kit jc)) = Inr (t, kt_Address (jc_kit jc))" "kt_Address (jc_kit jc) \<noteq> []"
  shows "described (jc_Node jc) \<Longrightarrow> stake_params lib (kt_Address (jc_kit jc)) (meta_Params mt) =
      Inr (registry, self_node (kt_Address (jc_kit jc)) (jc_Node jc), show_int StakeMinAmount, StakeMinAmount)"
proof -
  have sub: "set (node_tags (kt_Address (jc_kit jc)) (jc_Node jc)) \<subseteq> set (join_signed now action jc registry)"
    using join_node_tags join_signed_tags by blast
  note J = join_arrives [OF assms(1,2)]
  show "stake_params lib (kt_Address (jc_kit jc)) (meta_Params mt) =
      Inr (registry, self_node (kt_Address (jc_kit jc)) (jc_Node jc), show_int StakeMinAmount, StakeMinAmount)"
    if "described (jc_Node jc)"
    using arrives_node [OF assms(1) sub assms(3,4) that] J
    by (simp add: stake_params_def parseAndCheckAmount_def StakeMinAmount_def)
qed

subsection \<open>The notice of the token in the registry\<close>

text \<open>A message of the token reaches the registry over the outbox of the token's node, with the tags
  the outbox signs.\<close>

definition noticed :: "extlib \<Rightarrow> registry \<Rightarrow> res_message \<Rightarrow> (registry \<Rightarrow> bool) \<Rightarrow> bool" where
  "noticed lib r notice P \<longleftrightarrow>
     (\<forall>mt fp seq pf. arrives lib (outbox_message_tags fp seq pf (rm_Tags notice)) mt \<longrightarrow>
        (case Registry_Apply lib r (reg_tokenPid r) mt of (r', res) \<Rightarrow> res_Error res = None \<and> P r'))"

lemma outbox_tags_mem:
  assumes "t \<in> set ts" "tag_Name t \<notin> {''From-Process'', ''Sequence'', ''Pushed-For'', ''Data-Protocol'', ''Variant'', ''Type''}"
  shows "t \<in> set (outbox_message_tags fp seq pf ts)"
proof -
  have "MessageToTags (zero_msg\<lparr>msg_Base := DefaultBase TypeMessage\<rparr>) = (BaseToTags (DefaultBase TypeMessage), None)"
    using default_message_tags by (simp add: DefaultMessage_def)
  then show ?thesis using assms by (auto simp: outbox_message_tags_def MergeTags_eq BaseToTags_def)
qed

lemma noticed_register:
  assumes "reg_wf r" "IDCheck lib a = Inr (t, a)" "a \<noteq> []" "described nd" "ti_MinAmount (tdb_info db) \<le> db_StakeOf db a"
  shows "noticed lib r (genNodeNotice db a registry (self_node a nd)) (\<lambda>r'. Registry_GetNode r' a = Some (self_node a nd))"
  unfolding noticed_def
proof (intro allI impI)
  let ?ts = "rm_Tags (genNodeNotice db a registry (self_node a nd))"
  fix mt fp seq pf
  assume arr: "arrives lib (outbox_message_tags fp seq pf ?ts) mt"
  have ts: "?ts = [Tag ''Action'' ''Register'', Tag ''Acc-Id'' a, Tag ''Name'' (node_Name nd), Tag ''Role'' RoleFollower,
      Tag ''Desc'' (node_Desc nd), Tag ''URL'' (node_URL nd)]"
    using assms(5) by (simp add: genNodeNotice_def reply_def)
  have "set (node_tags a nd) \<subseteq> set (outbox_message_tags fp seq pf ?ts)"
    unfolding ts node_tags_def by (auto intro!: outbox_tags_mem)
  from arrives_node [OF arr this assms(2-4)] have d: "registry_Decode lib (meta_Params mt) = Inr (self_node a nd)" .
  have act: "meta_Action mt = ''Register''"
    by (rule arrives_Action [OF arr outbox_tags_mem]) (simp_all add: ts)
  have "snd (Registry_Register r (self_node a nd)) = None" by (rule store_ops_error(1) [OF assms(1)])
  moreover have "Registry_GetNode (fst (Registry_Register r (self_node a nd))) a = Some (self_node a nd)"
    by (simp add: Register_GetNode [OF assms(1)])
  ultimately show "case Registry_Apply lib r (reg_tokenPid r) mt of (r', res) \<Rightarrow>
      res_Error res = None \<and> Registry_GetNode r' a = Some (self_node a nd)"
    by (cases "Registry_Register r (self_node a nd)")
       (simp add: Registry_Apply_def Registry_dispatch_def act handleRegister_def authToken_def d apply_result_def
        data_result_def zero_result_def)
qed

lemma noticed_unregister:
  assumes "reg_wf r" "a \<noteq> []" "db_StakeOf db a < ti_MinAmount (tdb_info db)"
  shows "noticed lib r (genNodeNotice db a registry nd) (\<lambda>r'. Registry_GetNode r' a = None)"
  unfolding noticed_def
proof (intro allI impI)
  let ?ts = "rm_Tags (genNodeNotice db a registry nd)"
  fix mt fp seq pf
  assume arr: "arrives lib (outbox_message_tags fp seq pf ?ts) mt"
  have ts: "?ts = [Tag ''Action'' ''Unregister'', Tag ''Acc-Id'' a]"
    using assms(3) by (simp add: genNodeNotice_def reply_def)
  have act: "meta_Action mt = ''Unregister''"
    by (rule arrives_Action [OF arr outbox_tags_mem]) (simp_all add: ts)
  have acc: "mget (meta_Params mt) ''Acc-Id'' = Some a"
    by (rule arrives_param [OF arr outbox_tags_mem]) (simp_all add: ts msg_keeps_def assms(2) NonExtractableTags_def)
  have "snd (Registry_Unregister r a) = None" by (rule store_ops_error(2) [OF assms(1)])
  moreover have "Registry_GetNode (fst (Registry_Unregister r a)) a = None" by (simp add: Unregister_GetNode)
  ultimately show "case Registry_Apply lib r (reg_tokenPid r) mt of (r', res) \<Rightarrow>
      res_Error res = None \<and> Registry_GetNode r' a = None"
    by (cases "Registry_Unregister r a")
       (simp add: Registry_Apply_def Registry_dispatch_def act handleUnregister_def authToken_def acc apply_result_def
        data_result_def zero_result_def)
qed

subsection \<open>Joining and leaving\<close>

lemma SDK_SendMessage_signed:
  "SDK_SendMessage k now c n target data ps =
     (case kt_sign k data target (signed_tags now ps []) of
        None \<Rightarrow> (n, Inl sign_err)
      | Some (item, binary) \<Rightarrow>
          (case Client_Send (sdk_cfg.truncate k) c n binary of
             (n', Inl e) \<Rightarrow> (n', Inl e) | (n', Inr (res, _)) \<Rightarrow> (n', Inr res)))"
  by (simp add: SDK_SendMessage_def SDK_Send_def default_message_tags signed_tags_def split: option.splits prod.splits)

lemma Token_stake_ok:
  assumes "0 < q" "q \<le> db_BalanceOf db a"
  shows "Token_stake db a q = (to_stake db a q, None)"
  using assms by (simp add: Token_stake_def Token_sub_def Token_sadd_def to_stake_def)

lemma Token_unstake_ok:
  assumes "0 < q" "q \<le> db_StakeOf db a"
  shows "Token_unstake db a q = (from_stake db a q, None)"
  using assms by (simp add: Token_unstake_def Token_ssub_def Token_add_def from_stake_def)

text \<open>What the token does with the two messages.\<close>

lemma join_staked:
  assumes "arrives lib (join_signed now ''Stake'' jc registry) mt"
    and "kt_Address (jc_kit jc) = a" "a \<noteq> []" "IDCheck lib a = Inr (t, a)" "described (jc_Node jc)" "registry \<noteq> []"
    and "StakeMinAmount \<le> db_BalanceOf db a"
  shows "\<exists>x. Token_Apply lib db a mt = (to_stake db a StakeMinAmount, x) \<and> res_Error x = None \<and>
    (\<exists>y. res_Messages x = [y, genNodeNotice (to_stake db a StakeMinAmount) a registry (self_node a (jc_Node jc))])"
proof -
  have "stake_params lib a (meta_Params mt) =
      Inr (registry, self_node a (jc_Node jc), show_int StakeMinAmount, StakeMinAmount)"
    using join_params [OF assms(1,6)] assms(2-5) by simp
  moreover have "Token_stake db a StakeMinAmount = (to_stake db a StakeMinAmount, None)"
    using assms(7) by (intro Token_stake_ok) (simp_all add: StakeMinAmount_def)
  ultimately show ?thesis
    by (simp add: Token_Apply_def Token_dispatch_def join_arrives(1) [OF assms(1,6)] handleStake_def Let_def
        apply_result_def zero_result_def)
qed

lemma leave_unstaked:
  assumes "arrives lib (join_signed now ''Unstake'' jc registry) mt"
    and "kt_Address (jc_kit jc) = a" "a \<noteq> []" "IDCheck lib a = Inr (t, a)" "described (jc_Node jc)" "registry \<noteq> []"
    and "StakeMinAmount \<le> db_StakeOf db a"
  shows "\<exists>x. Token_Apply lib db a mt = (from_stake db a StakeMinAmount, x) \<and> res_Error x = None \<and>
    (\<exists>y. res_Messages x = [y, genNodeNotice (from_stake db a StakeMinAmount) a registry (self_node a (jc_Node jc))])"
proof -
  have "stake_params lib a (meta_Params mt) =
      Inr (registry, self_node a (jc_Node jc), show_int StakeMinAmount, StakeMinAmount)"
    using join_params [OF assms(1,6)] assms(2-5) by simp
  moreover have "Token_unstake db a StakeMinAmount = (from_stake db a StakeMinAmount, None)"
    using assms(7) by (intro Token_unstake_ok) (simp_all add: StakeMinAmount_def)
  ultimately show ?thesis
    by (simp add: Token_Apply_def Token_dispatch_def join_arrives(1) [OF assms(1,6)] handleUnstake_def Let_def
        apply_result_def zero_result_def)
qed

text \<open>What the network answers in a run of \<open>runJoin\<close> that starts with the network in state \<open>n\<close>: the own address
  can be reached, the token and registry are \<open>i\<close>'s, the stake of the own account is \<open>stake\<close>; then the network is
  in state \<open>n3\<close>.\<close>

definition join_answers :: "('n, 'j, 'f) join_cfg \<Rightarrow> 'n \<Rightarrow> info \<Rightarrow> int \<Rightarrow> 'n \<Rightarrow> bool" where
  "join_answers jc n i stake n3 \<longleftrightarrow>
     (let sc = sdk_cfg.truncate (jc_kit jc); cli = jc_client jc in
      \<exists>u n1 ok n2. jc_info_url jc (node_URL (jc_Node jc)) = Inr u \<and> Client_Callback sc cli n u = (n1, Inr ok) \<and>
        Client_Info sc cli n1 = (n2, Inr i) \<and> Client_StakeOf sc cli n2 (kt_Address (jc_kit jc)) = (n3, Inr stake))"

text \<open>From there on the balance is asked for, is enough, and the message with these tags is signed and sent.\<close>

definition posted :: "('n, 'j, 'f) join_cfg \<Rightarrow> string \<Rightarrow> tag list \<Rightarrow> 'n \<Rightarrow> 'n \<Rightarrow> bool" where
  "posted jc target ts n3 n' \<longleftrightarrow>
     (let sc = sdk_cfg.truncate (jc_kit jc); cli = jc_client jc in
      \<exists>n4 amt item binary res. Client_BalanceOf sc cli n3 (kt_Address (jc_kit jc)) = (n4, Inr amt) \<and> StakeMinAmount \<le> amt \<and>
        kt_sign (jc_kit jc) [] target ts = Some (item, binary) \<and> Client_Send sc cli n4 binary = (n', Inr res))"

lemma runJoin_posts:
  assumes "jc_JoinNetwork jc" "runJoin jc now n st = (n', Inr st')"
  shows "\<exists>i stake n3. join_answers jc n i stake n3 \<and> ns_Token st' = inf_Token i \<and> ns_Registry st' = inf_Registry i \<and>
    (if StakeMinAmount \<le> stake then n' = n3
     else posted jc (ns_Token st') (join_signed now ''Stake'' jc (ns_Registry st')) n3 n')"
proof -
  from assms obtain u n1 ok n2 i n3 stake where
    a: "jc_info_url jc (node_URL (jc_Node jc)) = Inr u"
      "Client_Callback (sdk_cfg.truncate (jc_kit jc)) (jc_client jc) n u = (n1, Inr ok)"
      "Client_Info (sdk_cfg.truncate (jc_kit jc)) (jc_client jc) n1 = (n2, Inr i)"
      "Client_StakeOf (sdk_cfg.truncate (jc_kit jc)) (jc_client jc) n2 (kt_Address (jc_kit jc)) = (n3, Inr stake)"
    by (simp add: runJoin_def Let_def split: sum.splits prod.splits)
  then have ans: "join_answers jc n i stake n3" unfolding join_answers_def Let_def by blast
  show ?thesis
  proof (cases "StakeMinAmount \<le> stake")
    case True
    with assms a ans show ?thesis by (intro exI [of _ i] exI [of _ stake] exI [of _ n3]) (auto simp: runJoin_def)
  next
    case False
    with assms a have "posted jc (ns_Token st') (join_signed now ''Stake'' jc (ns_Registry st')) n3 n' \<and>
        ns_Token st' = inf_Token i \<and> ns_Registry st' = inf_Registry i"
      by (auto simp: runJoin_def Let_def posted_def SDK_SendMessage_signed join_signed_def not_less
          split: sum.splits prod.splits if_splits option.splits)
    with False ans show ?thesis by (intro exI [of _ i] exI [of _ stake] exI [of _ n3]) auto
  qed
qed

text \<open>C17: a node that joins becomes listed. When \<open>runJoin\<close> of a node with a name, a description and an
  address returns, it has taken over the token and the registry that the network named to it, and there are two
  cases. If the network answered its question for the own stake with at least the minimum, the run ended with this
  answer and nothing was sent. Otherwise it asked for the balance, which was enough, and posted a signed message
  to this token. Once the message arrives at the token, with the balance of the account at least the minimum and
  the token's own minimum not above it, the minimum stake is locked without an error and the token sends the
  registry a notice; and when that arrives, the registry answers with the node's own description, as a
  follower.\<close>

theorem join_lists_node:
  assumes "jc_JoinNetwork jc" "runJoin jc now n st = (n', Inr st')"
    and "kt_Address (jc_kit jc) = a" "a \<noteq> []" "IDCheck lib a = Inr (t, a)" "described (jc_Node jc)" "ns_Registry st' \<noteq> []"
    and "StakeMinAmount \<le> db_BalanceOf db a" "0 \<le> db_StakeOf db a" "ti_MinAmount (tdb_info db) \<le> StakeMinAmount" "reg_wf r"
  shows "\<exists>i stake n3. join_answers jc n i stake n3 \<and> ns_Token st' = inf_Token i \<and> ns_Registry st' = inf_Registry i \<and>
    (if StakeMinAmount \<le> stake then n' = n3
     else posted jc (inf_Token i) (join_signed now ''Stake'' jc (inf_Registry i)) n3 n' \<and>
    (\<forall>mt. arrives lib (join_signed now ''Stake'' jc (inf_Registry i)) mt \<longrightarrow>
       (\<exists>db' res x notice. Token_Apply lib db a mt = (db', res) \<and> res_Error res = None \<and>
          db_StakeOf db' a = db_StakeOf db a + StakeMinAmount \<and> db_BalanceOf db' a = db_BalanceOf db a - StakeMinAmount \<and>
          res_Messages res = [x, notice] \<and> rm_Target notice = inf_Registry i \<and>
          noticed lib r notice (\<lambda>r'. Registry_GetNode r' a = Some (self_node a (jc_Node jc))))))"
proof -
  let ?db = "to_stake db a StakeMinAmount" and ?reg = "ns_Registry st'" and ?nd = "self_node a (jc_Node jc)"
  have "\<exists>x. Token_Apply lib db a mt = (?db, x) \<and> res_Error x = None \<and>
      (\<exists>y. res_Messages x = [y, genNodeNotice ?db a ?reg ?nd])"
    if "arrives lib (join_signed now ''Stake'' jc ?reg) mt" for mt
    using join_staked [OF that assms(3-8)] .
  moreover have "db_StakeOf ?db a = db_StakeOf db a + StakeMinAmount" "db_BalanceOf ?db a = db_BalanceOf db a - StakeMinAmount"
    "ti_MinAmount (tdb_info ?db) \<le> db_StakeOf ?db a"
    using assms(9,10) by simp_all (simp add: to_stake_def)
  moreover have "rm_Target (genNodeNotice d a ?reg ?nd) = ?reg" for d
    by (simp add: genNodeNotice_def reply_def)
  moreover note noticed_register [OF assms(11,5,4,6) calculation(4), where registry = ?reg]
  ultimately have way: "\<forall>mt. arrives lib (join_signed now ''Stake'' jc ?reg) mt \<longrightarrow>
       (\<exists>db' res x notice. Token_Apply lib db a mt = (db', res) \<and> res_Error res = None \<and>
          db_StakeOf db' a = db_StakeOf db a + StakeMinAmount \<and> db_BalanceOf db' a = db_BalanceOf db a - StakeMinAmount \<and>
          res_Messages res = [x, notice] \<and> rm_Target notice = ?reg \<and>
          noticed lib r notice (\<lambda>r'. Registry_GetNode r' a = Some ?nd))" by blast
  from runJoin_posts [OF assms(1,2)] obtain i stake n3 where
    j: "join_answers jc n i stake n3" "ns_Token st' = inf_Token i" "ns_Registry st' = inf_Registry i"
      "if StakeMinAmount \<le> stake then n' = n3
       else posted jc (ns_Token st') (join_signed now ''Stake'' jc (ns_Registry st')) n3 n'" by blast
  note sent = j(4) [unfolded j(2,3)] and way' = way [unfolded j(3)]
  show ?thesis
  proof (cases "StakeMinAmount \<le> stake")
    case True
    with j(1-3) sent show ?thesis by (intro exI [of _ i] exI [of _ stake] exI [of _ n3]) simp
  next
    case False
    with sent have po: "posted jc (inf_Token i) (join_signed now ''Stake'' jc (inf_Registry i)) n3 n'" by simp
    show ?thesis
      by (intro exI [of _ i] exI [of _ stake] exI [of _ n3] conjI j(1-3)) (subst if_not_P [OF False], rule conjI [OF po way'])
  qed
qed

text \<open>C18: a node that leaves is listed no more. The message \<open>leave\<close> signs withdraws the minimum stake; when
  what remains is below the minimum of the token, the notice of the token removes the node from the
  registry, and when the account had staked more, the node stays listed although it is shut down.\<close>

theorem leave_unlists_node:
  assumes "arrives lib (join_signed now ''Unstake'' jc registry) mt"
    and "kt_Address (jc_kit jc) = a" "a \<noteq> []" "IDCheck lib a = Inr (t, a)" "described (jc_Node jc)" "registry \<noteq> []"
    and "StakeMinAmount \<le> db_StakeOf db a" "reg_wf r"
  shows "\<exists>db' res x notice. Token_Apply lib db a mt = (db', res) \<and> res_Error res = None \<and>
    db_StakeOf db' a = db_StakeOf db a - StakeMinAmount \<and> db_BalanceOf db' a = db_BalanceOf db a + StakeMinAmount \<and>
    res_Messages res = [x, notice] \<and> rm_Target notice = registry \<and>
    noticed lib r notice (\<lambda>r'. Registry_GetNode r' a =
      (if db_StakeOf db a - StakeMinAmount < ti_MinAmount (tdb_info db) then None else Some (self_node a (jc_Node jc))))"
proof -
  let ?db = "from_stake db a StakeMinAmount" and ?nd = "self_node a (jc_Node jc)"
  obtain res x where r: "Token_Apply lib db a mt = (?db, res)" "res_Error res = None"
    "res_Messages res = [x, genNodeNotice ?db a registry ?nd]"
    using leave_unstaked [OF assms(1-7)] by blast
  have d: "db_StakeOf ?db a = db_StakeOf db a - StakeMinAmount" "db_BalanceOf ?db a = db_BalanceOf db a + StakeMinAmount"
    "ti_MinAmount (tdb_info ?db) = ti_MinAmount (tdb_info db)"
    by simp_all (simp add: from_stake_def)
  have "rm_Target (genNodeNotice ?db a registry ?nd) = registry" by (simp add: genNodeNotice_def reply_def)
  moreover have "noticed lib r (genNodeNotice ?db a registry ?nd) (\<lambda>r'. Registry_GetNode r' a =
      (if db_StakeOf db a - StakeMinAmount < ti_MinAmount (tdb_info db) then None else Some ?nd))"
    using noticed_register [OF assms(8,4,3,5), where db = ?db and registry = registry]
      noticed_unregister [OF assms(8,3), where db = ?db and registry = registry and nd = ?nd] d
    by (cases "db_StakeOf db a - StakeMinAmount < ti_MinAmount (tdb_info db)") simp_all
  ultimately show ?thesis using r d by blast
qed

text \<open>C19: a node without a description never joins, and is told that it did. The codec drops tags with an
  empty value, so the token refuses the stake of a node whose name, description or address is empty and
  stays as it was, while \<open>runJoin\<close> returns as for a success once the message is posted.\<close>

theorem undescribed_join_refused:
  assumes "arrives lib (join_signed now ''Stake'' jc registry) mt" and "\<not> described (jc_Node jc)" "registry \<noteq> []"
  shows "\<exists>e. Token_Apply lib db from mt = (db, zero_result\<lparr>res_Error := Some e\<rparr>)"
proof -
  have sub: "set (node_tags (kt_Address (jc_kit jc)) (jc_Node jc)) \<subseteq> set (join_signed now ''Stake'' jc registry)"
    using join_node_tags join_signed_tags by blast
  then obtain e where "registry_Decode lib (meta_Params mt) = Inl e"
    using arrives_undescribed [OF assms(1) sub assms(2)] by blast
  then have "stake_params lib from (meta_Params mt) = Inl e"
    using join_arrives(3) [OF assms(1,3)] by (simp add: stake_params_def)
  then have "Token_Apply lib db from mt = (db, zero_result\<lparr>res_Error := Some e\<rparr>)"
    by (simp add: Token_Apply_def Token_dispatch_def join_arrives(1) [OF assms(1,3)] handleStake_def apply_result_def)
  then show ?thesis by blast
qed

end
