(* ===== verification/JoinDemo.thy ===== *)
theory JoinDemo
  imports JoinProps NodeProps
begin

text \<open>The properties of \<open>JoinProps\<close> at a concrete node, network, token and registry.\<close>

lemma demo_arrives:
  assumes "distinct (tag_names ts)" "GetTagsValue ''Type'' ts = ''Message''"
  shows "\<exists>mt. arrives demo_lib ts mt"
proof -
  let ?item = "(demo_item ''j'')\<lparr>item_Owner := ''w'', item_Tags := ts\<rparr>"
  have "CheckDuplicateTag ts = None" using assms(1) by simp
  then obtain m0 where m0: "TagsToMessage ts = Inr m0" by (simp add: TagsToMessage_def)
  then have d: "DecodeItemToMessage demo_lib ?item = Inr (m0\<lparr>msg_Tags := msg_Tags m0 @ [Tag ''Data'' (item_Data ?item)]\<rparr>)"
    by (simp add: DecodeItemToMessage_def demo_lib_def)
  then have dec: "\<exists>pid accid fp. Decode demo_lib ?item =
      Inr (pid, accid, fp, IMessage (m0\<lparr>msg_Tags := msg_Tags m0 @ [Tag ''Data'' (item_Data ?item)]\<rparr>))"
    using assms(2) by (simp add: Decode_def item_signer_def GetType_def type_defs demo_item_def demo_lib_def)
  obtain ps where "TagsToParams (msg_Tags (m0\<lparr>msg_Tags := msg_Tags m0 @ [Tag ''Data'' (item_Data ?item)]\<rparr>)) = Inr ps"
    using DecodeItemToMessage_tags_distinct [OF d] TagsToParams_ok by blast
  then have "arrives demo_lib ts (zero_meta\<lparr>meta_Action := msg_Action m0, meta_Params := ps\<rparr>)"
    using dec unfolding arrives_def by (intro exI [of _ ?item]) fastforce
  then show ?thesis by blast
qed

lemma demo_join_arrives: "\<exists>mt. arrives demo_lib (join_signed now action jc registry) mt"
proof (rule demo_arrives)
  show "distinct (tag_names (join_signed now action jc registry))"
    unfolding join_signed_def signed_tags_def
    by (intro distinct_MergeTags) (simp_all add: join_tags_def BaseToTags_def)
  show "GetTagsValue ''Type'' (join_signed now action jc registry) = ''Message''"
    by (simp add: join_signed_def signed_tags_def BaseToTags_def DefaultBase_def TypeMessage_def)
qed

lemma demo_notice_arrives: "\<exists>mt. arrives demo_lib (outbox_message_tags fp seq pf (rm_Tags (genNodeNotice db from registry nd))) mt"
proof (rule demo_arrives)
  have *: "MessageToTags (zero_msg\<lparr>msg_Base := DefaultBase TypeMessage\<rparr>) = (BaseToTags (DefaultBase TypeMessage), None)"
    using default_message_tags by (simp add: DefaultMessage_def)
  show "distinct (tag_names (outbox_message_tags fp seq pf (rm_Tags (genNodeNotice db from registry nd))))"
    unfolding outbox_message_tags_def *
    by (intro distinct_MergeTags) (simp_all add: genNodeNotice_def reply_def BaseToTags_def)
  show "GetTagsValue ''Type'' (outbox_message_tags fp seq pf (rm_Tags (genNodeNotice db from registry nd))) = ''Message''"
    unfolding outbox_message_tags_def * by (simp add: BaseToTags_def DefaultBase_def TypeMessage_def)
qed

text \<open>A network whose node knows the account without a stake.\<close>

definition join_net_body :: "string \<Rightarrow> string" where
  "join_net_body u =
     (if u = ''http://node/stakeof/0xn'' then ''0''
      else if u = ''http://node/balanceof/0xn'' then ''2000000000000'' else ''m1'')"

definition demo_net_info :: info where
  "demo_net_info =
     \<lparr>inf_Protocol = ''hymx'', inf_Variant = ''v0.1.0'', inf_NodeVersion = ''v'', inf_JoinNetwork = True,
      inf_Token = ''tok'', inf_Registry = ''reg'', inf_Node = demo_main, inf_VmCount = 2, inf_EncryptionPublicKey = []\<rparr>"

definition demo_self :: "string \<Rightarrow> node" where
  "demo_self desc = \<lparr>node_AccId = ''0xn'', node_Name = ''N'', node_Role = RoleFollower, node_Desc = desc, node_URL = ''http://n''\<rparr>"

definition demo_jc :: "string \<Rightarrow> (string list, string, unit) join_cfg" where
  "demo_jc desc =
     \<lparr>jc_kit = demo_kit\<lparr>sk_net := (\<lambda>n q. (n @ [rq_Body q], Inr (demo_resp (join_net_body (url_Path (rq_URL q)))))),
        sk_dec := demo_dec\<lparr>ad_info := (\<lambda>b e. Some demo_net_info)\<rparr>, kt_Address := ''0xn''\<rparr>,
      jc_client = NewClient ''http://node'', jc_JoinNetwork = True, jc_Node = demo_self desc,
      jc_info_url = (\<lambda>u. Inr (u @ ''/info''))\<rparr>"

lemmas demo_net_eval = demo_jc_def NewClient_def demo_kit_def Client_Send_def Client_Callback_def Client_Info_def
  Client_StakeOf_def Client_BalanceOf_def get_amount_def get_json_def http_Get_def
  request_of_def buildURL_def demo_url_def NewRequest_def http_Do_def handleRedirect_def decode_2xx_def is_2xx_def
  demo_resp_def demo_dec_def sdk_cfg.defs

lemma demo_no_stake:
  assumes "join_answers (demo_jc desc) n i stake n3"
  shows "stake = 0"
proof -
  have "snd (Client_StakeOf (sdk_cfg.truncate (jc_kit (demo_jc desc))) (jc_client (demo_jc desc)) m (kt_Address (jc_kit (demo_jc desc)))) = Inr 0" for m
    by (simp add: demo_net_eval join_net_body_def big_SetString_def parse_nat_def digit_val_def)
  with assms show ?thesis unfolding join_answers_def Let_def by (metis snd_conv sum.inject(2))
qed

lemma demo_runJoin:
  "\<exists>n'. runJoin (demo_jc desc) 7 [] demo_state = (n', Inr (demo_state\<lparr>ns_Token := ''tok'', ns_Registry := ''reg''\<rparr>))"
  by (simp add: runJoin_def SDK_SendMessage_signed demo_net_eval join_net_body_def big_SetString_def parse_nat_def digit_val_def
      StakeMinAmount_def demo_net_info_def demo_self_def)

definition demo_ledger :: token_db where
  "demo_ledger = NewTokenDb (demo_info\<lparr>ti_MinAmount := StakeMinAmount\<rparr>) [(''0xn'', 2000000000000)] []"

lemma demo_described: "described (jc_Node (demo_jc ''d''))" "\<not> described (jc_Node (demo_jc []))"
  by (simp_all add: described_def demo_jc_def demo_self_def)

lemma demo_ledger_reads:
  "db_BalanceOf demo_ledger ''0xn'' = 2000000000000" "db_StakeOf demo_ledger ''0xn'' = 0"
  "ti_MinAmount (tdb_info demo_ledger) = StakeMinAmount"
  by (simp_all add: demo_ledger_def NewTokenDb_def db_BalanceOf_def db_StakeOf_def)

lemma demo_address: "kt_Address (jc_kit (demo_jc desc)) = ''0xn''" "IDCheck demo_lib ''0xn'' = Inr (AccountTypeEVM, ''0xn'')"
  by (simp_all add: demo_jc_def IDCheck_def demo_lib_def HasPrefix_def)

lemma demo_self_node: "self_node ''0xn'' (jc_Node (demo_jc desc)) = demo_self desc"
  by (simp add: self_node_def demo_jc_def demo_self_def)

lemma demo_reg: "reg_wf (NewRegistry ''reg'' ''tok'' demo_main)" "reg_tokenPid (NewRegistry ''reg'' ''tok'' demo_main) = ''tok''"
  by (rule NewRegistry_wf) (simp add: NewRegistry_def)

theorem join_lists_node_witness:
  "\<exists>n' i n3 mt db' res x notice mt2 r' res2.
     runJoin (demo_jc ''d'') 7 [] demo_state = (n', Inr (demo_state\<lparr>ns_Token := ''tok'', ns_Registry := ''reg''\<rparr>)) \<and>
     join_answers (demo_jc ''d'') [] i 0 n3 \<and> posted (demo_jc ''d'') ''tok'' (join_signed 7 ''Stake'' (demo_jc ''d'') ''reg'') n3 n' \<and>
     arrives demo_lib (join_signed 7 ''Stake'' (demo_jc ''d'') ''reg'') mt \<and>
     Token_Apply demo_lib demo_ledger ''0xn'' mt = (db', res) \<and> db_StakeOf db' ''0xn'' = StakeMinAmount \<and>
     res_Messages res = [x, notice] \<and> rm_Target notice = ''reg'' \<and>
     Registry_Apply demo_lib (NewRegistry ''reg'' ''tok'' demo_main) ''tok'' mt2 = (r', res2) \<and>
     Registry_GetNode r' ''0xn'' = Some (demo_self ''d'')"
proof -
  let ?jc = "demo_jc ''d''" and ?r = "NewRegistry ''reg'' ''tok'' demo_main"
  obtain n' where n: "runJoin ?jc 7 [] demo_state = (n', Inr (demo_state\<lparr>ns_Token := ''tok'', ns_Registry := ''reg''\<rparr>))"
    using demo_runJoin by blast
  obtain mt where mt: "arrives demo_lib (join_signed 7 ''Stake'' ?jc ''reg'') mt" using demo_join_arrives by blast
  have side: "jc_JoinNetwork ?jc" "''0xn'' \<noteq> ([] :: string)"
    "ns_Registry (demo_state\<lparr>ns_Token := ''tok'', ns_Registry := ''reg''\<rparr>) \<noteq> []"
    "StakeMinAmount \<le> db_BalanceOf demo_ledger ''0xn''" "0 \<le> db_StakeOf demo_ledger ''0xn''"
    "ti_MinAmount (tdb_info demo_ledger) \<le> StakeMinAmount"
    by (simp_all add: demo_ledger_reads StakeMinAmount_def demo_jc_def)
  from join_lists_node [OF side(1) n demo_address(1) side(2) demo_address(2) demo_described(1) side(3-6) demo_reg(1)]
  show ?thesis
  proof (elim exE conjE, goal_cases)
    case (1 i stake n3)
    have eq: "inf_Token i = ''tok''" "inf_Registry i = ''reg''" using 1(2,3) by simp_all
    have z: "stake = 0" using demo_no_stake [OF 1(1)] .
    then have "\<not> StakeMinAmount \<le> stake" by (simp add: StakeMinAmount_def)
    note sent = 1(4) [unfolded if_not_P [OF this] eq demo_self_node demo_ledger_reads add_0]
    from sent mt obtain db' res x notice where t: "Token_Apply demo_lib demo_ledger ''0xn'' mt = (db', res)"
      "db_StakeOf db' ''0xn'' = StakeMinAmount" "res_Messages res = [x, notice]" "rm_Target notice = ''reg''"
      "noticed demo_lib ?r notice (\<lambda>r'. Registry_GetNode r' ''0xn'' = Some (demo_self ''d''))" by blast
    have "notice = genNodeNotice (to_stake demo_ledger ''0xn'' StakeMinAmount) ''0xn'' ''reg'' (demo_self ''d'')"
      using join_staked [OF mt demo_address(1) _ demo_address(2) demo_described(1), of demo_ledger] t(1,3)
      by (auto simp: demo_ledger_reads StakeMinAmount_def demo_self_node)
    then obtain mt2 where "arrives demo_lib (outbox_message_tags ''tok'' ''1'' ''i'' (rm_Tags notice)) mt2"
      using demo_notice_arrives by blast
    then obtain r' res2 where "Registry_Apply demo_lib ?r ''tok'' mt2 = (r', res2)"
      "Registry_GetNode r' ''0xn'' = Some (demo_self ''d'')"
      using t(5) unfolding noticed_def demo_reg(2) by (cases "Registry_Apply demo_lib ?r ''tok'' mt2") fastforce
    with n mt t(1-4) sent 1(1) z show ?case by blast
  qed
qed

theorem leave_unlists_node_witness:
  "\<exists>mt db' res x notice mt2 r' res2. let db = to_stake demo_ledger ''0xn'' StakeMinAmount in
     arrives demo_lib (join_signed 9 ''Unstake'' (demo_jc ''d'') ''reg'') mt \<and>
     Token_Apply demo_lib db ''0xn'' mt = (db', res) \<and> db_BalanceOf db' ''0xn'' = 2000000000000 \<and>
     res_Messages res = [x, notice] \<and> rm_Target notice = ''reg'' \<and>
     Registry_Apply demo_lib (fst (Registry_Register (NewRegistry ''reg'' ''tok'' demo_main) (demo_self ''d''))) ''tok'' mt2 = (r', res2) \<and>
     Registry_GetNode r' ''0xn'' = None"
proof -
  let ?jc = "demo_jc ''d''" and ?r = "fst (Registry_Register (NewRegistry ''reg'' ''tok'' demo_main) (demo_self ''d''))"
    and ?db = "to_stake demo_ledger ''0xn'' StakeMinAmount"
  have r: "reg_wf ?r" by (rule Register_wf [OF demo_reg(1)])
  have tp: "reg_tokenPid ?r = ''tok''"
    by (simp add: Registry_Register_def demo_reg(2) Let_def split: option.splits)
  have min: "ti_MinAmount (tdb_info (to_stake demo_ledger ''0xn'' 1000000000000)) = 1000000000000"
    by (simp add: to_stake_def demo_ledger_reads StakeMinAmount_def)
  obtain mt where mt: "arrives demo_lib (join_signed 9 ''Unstake'' ?jc ''reg'') mt" using demo_join_arrives by blast
  from leave_unlists_node [OF mt demo_address(1) _ demo_address(2) demo_described(1) _ _ r, of ?db]
  obtain db' res x notice where t: "Token_Apply demo_lib ?db ''0xn'' mt = (db', res)"
    "db_BalanceOf db' ''0xn'' = 2000000000000" "res_Messages res = [x, notice]" "rm_Target notice = ''reg''"
    "noticed demo_lib ?r notice (\<lambda>r'. Registry_GetNode r' ''0xn'' = None)"
    by (auto simp: demo_ledger_reads StakeMinAmount_def min)
  have "notice = genNodeNotice (from_stake ?db ''0xn'' StakeMinAmount) ''0xn'' ''reg'' (demo_self ''d'')"
    using leave_unstaked [OF mt demo_address(1) _ demo_address(2) demo_described(1), of ?db] t(1,3)
    by (auto simp: demo_ledger_reads StakeMinAmount_def demo_self_node)
  then obtain mt2 where "arrives demo_lib (outbox_message_tags ''tok'' ''2'' ''i'' (rm_Tags notice)) mt2"
    using demo_notice_arrives by blast
  then obtain r' res2 where "Registry_Apply demo_lib ?r ''tok'' mt2 = (r', res2)" "Registry_GetNode r' ''0xn'' = None"
    using t(5) unfolding noticed_def tp by (cases "Registry_Apply demo_lib ?r ''tok'' mt2") fastforce
  with mt t(1-4) show ?thesis unfolding Let_def by blast
qed

theorem undescribed_join_refused_witness:
  "\<exists>n' mt e. runJoin (demo_jc []) 7 [] demo_state = (n', Inr (demo_state\<lparr>ns_Token := ''tok'', ns_Registry := ''reg''\<rparr>)) \<and>
     arrives demo_lib (join_signed 7 ''Stake'' (demo_jc []) ''reg'') mt \<and>
     Token_Apply demo_lib demo_ledger ''0xn'' mt = (demo_ledger, zero_result\<lparr>res_Error := Some e\<rparr>)"
proof -
  obtain mt where mt: "arrives demo_lib (join_signed 7 ''Stake'' (demo_jc []) ''reg'') mt" using demo_join_arrives by blast
  with undescribed_join_refused [OF mt demo_described(2), of demo_ledger "''0xn''"] demo_runJoin [of "[]"]
  show ?thesis by fastforce
qed

end
