(* ===== verification/UploadLive.thy ===== *)
theory UploadLive
  imports Upload
begin

text \<open>
  The upload queue when Redis answers and the bundle key does not expire (\<open>uredis_up\<close>): each operation
  is a function of the abstract queue, a check is \<open>uq_check\<close>, and so every pending id is uploaded
  after a bounded number of checks; but duplicates in the queue can block it for good, and an id
  the node does not find is declared uploaded without being sent.
\<close>

subsection \<open>A client that answers\<close>

definition uredis_up :: "'u uredis \<Rightarrow> ('u \<Rightarrow> uks) \<Rightarrow> bool" where
  "uredis_up rd view \<longleftrightarrow>
     (\<forall>s k. finite (us_set (view s) k)) \<and>
     (\<forall>s k. \<exists>s'. ur_get rd s k = (s', to_reply (map_option fst (us_str (view s) k))) \<and> view s' = view s) \<and>
     (\<forall>s k. \<exists>s'. ur_llen rd s k = (s', Reply (int (length (us_list (view s) k)))) \<and> view s' = view s) \<and>
     (\<forall>s k. \<exists>s'. ur_scard rd s k = (s', Reply (int (card (us_set (view s) k)))) \<and> view s' = view s) \<and>
     (\<forall>s k. \<exists>s' vs. ur_smembers rd s k = (s', Reply vs) \<and> set vs = us_set (view s) k \<and> distinct vs \<and> view s' = view s) \<and>
     (\<forall>s k v. \<exists>s'. ur_sismember rd s k v = (s', Reply (v \<in> us_set (view s) k)) \<and> view s' = view s) \<and>
     (\<forall>s k vs. \<exists>s'. ur_sismembers rd s k vs = (s', Reply (map (\<lambda>v. v \<in> us_set (view s) k) vs)) \<and> view s' = view s) \<and>
     (\<forall>s k n. 0 < n \<longrightarrow> (\<exists>s'. ur_lpop rd s k n =
        (s', if us_list (view s) k = [] then NilReply else Reply (take (nat n) (us_list (view s) k))) \<and>
        view s' = us_pop (view s) k n)) \<and>
     (\<forall>s cs. \<exists>s'. ur_exec rd s cs = (s', None) \<and> view s' = foldl us_cmd (view s) cs)"

lemma us_pop_Nil: "us_list ks k = [] \<Longrightarrow> us_pop ks k n = ks"
  by (simp add: us_pop_def fun_upd_idem)

lemma uredis_up_D:
  assumes "uredis_up rd view"
  shows "finite (us_set (view s) k)"
    and "\<exists>s'. ur_get rd s k = (s', to_reply (map_option fst (us_str (view s) k))) \<and> view s' = view s"
    and "\<exists>s'. ur_llen rd s k = (s', Reply (int (length (us_list (view s) k)))) \<and> view s' = view s"
    and "\<exists>s'. ur_scard rd s k = (s', Reply (int (card (us_set (view s) k)))) \<and> view s' = view s"
    and "\<exists>s' vs. ur_smembers rd s k = (s', Reply vs) \<and> set vs = us_set (view s) k \<and> distinct vs \<and> view s' = view s"
    and "\<exists>s'. ur_sismember rd s k v = (s', Reply (v \<in> us_set (view s) k)) \<and> view s' = view s"
    and "\<exists>s'. ur_sismembers rd s k ts = (s', Reply (map (\<lambda>v. v \<in> us_set (view s) k) ts)) \<and> view s' = view s"
    and "0 < n \<Longrightarrow> \<exists>s'. ur_lpop rd s k n =
        (s', if us_list (view s) k = [] then NilReply else Reply (take (nat n) (us_list (view s) k))) \<and>
        view s' = us_pop (view s) k n"
    and "\<exists>s'. ur_exec rd s cs = (s', None) \<and> view s' = foldl us_cmd (view s) cs"
proof -
  note up = assms [unfolded uredis_up_def]
  show "finite (us_set (view s) k)"
    using up by simp
  show "\<exists>s'. ur_get rd s k = (s', to_reply (map_option fst (us_str (view s) k))) \<and> view s' = view s"
    using up by blast
  show "\<exists>s'. ur_llen rd s k = (s', Reply (int (length (us_list (view s) k)))) \<and> view s' = view s"
    using up by blast
  show "\<exists>s'. ur_scard rd s k = (s', Reply (int (card (us_set (view s) k)))) \<and> view s' = view s"
    using up by blast
  show "\<exists>s' vs. ur_smembers rd s k = (s', Reply vs) \<and> set vs = us_set (view s) k \<and> distinct vs \<and> view s' = view s"
    using up by blast
  show "\<exists>s'. ur_sismember rd s k v = (s', Reply (v \<in> us_set (view s) k)) \<and> view s' = view s"
    using up by blast
  show "\<exists>s'. ur_sismembers rd s k ts = (s', Reply (map (\<lambda>v. v \<in> us_set (view s) k) ts)) \<and> view s' = view s"
    using up by blast
  show "0 < n \<Longrightarrow> \<exists>s'. ur_lpop rd s k n =
        (s', if us_list (view s) k = [] then NilReply else Reply (take (nat n) (us_list (view s) k))) \<and>
        view s' = us_pop (view s) k n"
    using up by blast
  show "\<exists>s'. ur_exec rd s cs = (s', None) \<and> view s' = foldl us_cmd (view s) cs"
    using up by blast
qed

lemma uredis_up_ok:
  assumes up: "uredis_up rd view"
  shows "uredis_ok rd view"
proof -
  note d = uredis_up_D [OF up]
  have pop: "\<exists>ks. ages (view s) ks \<and> (case ur_lpop rd s k n of
        (s', Reply vs) \<Rightarrow> us_list ks k \<noteq> [] \<and> vs = take (nat n) (us_list ks k) \<and> view s' = us_pop ks k n
      | (s', NilReply) \<Rightarrow> us_list ks k = [] \<and> view s' = ks
      | (s', RedisErr _) \<Rightarrow> view s' \<in> {ks, us_pop ks k n})" if n: "0 < n" for s k n
    using d(8) [OF n, of s k] us_pop_Nil [of "view s" k n]
    by (intro exI [of _ "view s"]) (auto simp: ages_def)
  have ex: "\<exists>ks. ages (view s) ks \<and> (case ur_exec rd s cs of
        (s', None) \<Rightarrow> view s' = foldl us_cmd ks cs
      | (s', Some _) \<Rightarrow> (\<exists>n \<le> length cs. view s' = foldl us_cmd ks (take n cs)))" for s cs
    using d(9) [of s cs] by (intro exI [of _ "view s"]) (auto simp: ages_def)
  have g: "uread_ok view s (ur_get rd s k) (\<lambda>ks. reply_of (map_option fst (us_str ks k)))" for s k
    using d(2) [of s k] by (auto simp: uread_ok_def ages_def)
  have l: "uread_ok view s (ur_llen rd s k) (\<lambda>ks. reply_of (Some (int (length (us_list ks k)))))" for s k
    using d(3) [of s k] by (auto simp: uread_ok_def ages_def)
  have c: "uread_ok view s (ur_scard rd s k) (\<lambda>ks. reply_of (Some (int (card (us_set ks k)))))" for s k
    using d(4) [of s k] by (auto simp: uread_ok_def ages_def)
  have m: "uread_ok view s (ur_smembers rd s k) (\<lambda>ks r. case r of
        Reply vs \<Rightarrow> set vs = us_set ks k \<and> distinct vs | NilReply \<Rightarrow> False | RedisErr _ \<Rightarrow> True)" for s k
    using d(5) [of s k] by (auto simp: uread_ok_def ages_def)
  have i: "uread_ok view s (ur_sismember rd s k v) (\<lambda>ks. reply_of (Some (v \<in> us_set ks k)))" for s k v
    using d(6) [of s k v] by (auto simp: uread_ok_def ages_def)
  have im: "uread_ok view s (ur_sismembers rd s k vs) (\<lambda>ks. reply_of (Some (map (\<lambda>v. v \<in> us_set ks k) vs)))" for s k vs
    using d(7) [of s k vs] by (auto simp: uread_ok_def ages_def)
  show ?thesis
    unfolding uredis_ok_def using d(1) g l c m i im pop ex by (intro conjI allI impI) assumption+
qed

subsection \<open>The operations as functions of the queue\<close>

definition uq_move :: "uq \<Rightarrow> uq" where
  "uq_move q =
     (if q_bundled q \<noteq> [] \<or> MaxUploadingCount \<le> int (card (q_uploading q)) \<or> q_pending q = [] then q
      else let n = nat (min (int (length (q_pending q))) (MaxUploadingCount - int (card (q_uploading q))))
           in q\<lparr>q_pending := drop n (q_pending q), q_uploading := q_uploading q \<union> set (take n (q_pending q))\<rparr>)"

lemma GetBundledIn_up:
  assumes "uredis_up rd view"
  obtains s' where "GetBundledIn rd s = (s', Inr (q_bundled (uq_of (view s))))" "view s' = view s"
proof -
  obtain s' where "ur_get rd s RdbCurrentBundledIn = (s', to_reply (map_option fst (us_str (view s) RdbCurrentBundledIn)))"
      "view s' = view s" using uredis_up_D(2) [OF assms] by blast
  with that [of s'] show ?thesis
    by (cases "us_str (view s) RdbCurrentBundledIn") (auto simp: GetBundledIn_def uq_of_fields)
qed

lemma GetUploading_up:
  assumes "uredis_up rd view"
  obtains s' ts where "GetUploading rd s = (s', Inr ts)" "set ts = q_uploading (uq_of (view s))" "distinct ts" "view s' = view s"
proof -
  obtain s' vs where "ur_smembers rd s RdbUploadingTxIds = (s', Reply vs)" "set vs = us_set (view s) RdbUploadingTxIds"
      "distinct vs" "view s' = view s" using uredis_up_D(5) [OF assms] by blast
  with that [of s' vs] show ?thesis by (simp add: GetUploading_def uq_of_fields)
qed

lemma counts_up:
  assumes "uredis_up rd view"
  shows "\<exists>s'. uploadingCount rd s = (s', Inr (int (card (q_uploading (uq_of (view s)))))) \<and> view s' = view s"
    and "\<exists>s'. pendingCount rd s = (s', Inr (int (length (q_pending (uq_of (view s)))))) \<and> view s' = view s"
  using uredis_up_D(4) [OF assms, of s RdbUploadingTxIds] uredis_up_D(3) [OF assms, of s RdbPendingTxIds]
  by (auto simp: uploadingCount_def pendingCount_def uq_of_fields)

lemma MoveToUploading_up:
  assumes up: "uredis_up rd view"
  shows "uq_of (view (fst (MoveToUploading rd s))) = uq_move (uq_of (view s))"
proof -
  define q where "q = uq_of (view s)"
  obtain s1 where 1: "GetBundledIn rd s = (s1, Inr (q_bundled q))" "view s1 = view s"
    using GetBundledIn_up [OF up] unfolding q_def by blast
  obtain s2 where 2: "uploadingCount rd s1 = (s2, Inr (int (card (q_uploading q))))" "view s2 = view s"
    using counts_up(1) [OF up, of s1] 1 unfolding q_def by auto
  obtain s3 where 3: "pendingCount rd s2 = (s3, Inr (int (length (q_pending q))))" "view s3 = view s"
    using counts_up(2) [OF up, of s2] 2 unfolding q_def by auto
  show ?thesis
  proof (cases "q_bundled q \<noteq> [] \<or> MaxUploadingCount \<le> int (card (q_uploading q)) \<or> q_pending q = []")
    case True
    then have "view (fst (MoveToUploading rd s)) = view s" using 1 2 3 by (auto simp: MoveToUploading_def Let_def)
    with True show ?thesis by (simp add: uq_move_def q_def)
  next
    case False
    define n where "n = min (int (length (q_pending q))) (MaxUploadingCount - int (card (q_uploading q)))"
    from False have n: "0 < n" by (auto simp: n_def)
    have l: "us_list (view s3) RdbPendingTxIds = q_pending q" by (simp add: q_def 3 uq_of_fields)
    obtain s4 where 4: "ur_lpop rd s3 RdbPendingTxIds n = (s4, Reply (take (nat n) (q_pending q)))"
        "view s4 = us_pop (view s) RdbPendingTxIds n"
      using uredis_up_D(8) [OF up n, of s3 RdbPendingTxIds] l 3 False by auto
    obtain s5 where 5: "ur_exec rd s4 [USAdd RdbUploadingTxIds (take (nat n) (q_pending q))] = (s5, None)"
        "view s5 = foldl us_cmd (view s4) [USAdd RdbUploadingTxIds (take (nat n) (q_pending q))]"
      using uredis_up_D(9) [OF up] by blast
    have mn: "(if int (length (q_pending q)) < MaxUploadingCount - int (card (q_uploading q))
        then int (length (q_pending q)) else MaxUploadingCount - int (card (q_uploading q))) = n"
      by (auto simp: n_def)
    have "fst (MoveToUploading rd s) = s5"
      using 1 2 3 4 5 False n by (simp add: MoveToUploading_def Let_def mn)
    moreover have "uq_of (view s5) = q\<lparr>q_pending := drop (nat n) (q_pending q),
        q_uploading := q_uploading q \<union> set (take (nat n) (q_pending q))\<rparr>"
      using 5(2) 4(2) by (simp add: uq_of_cmd us_pop_def uq_of_def q_def)
    ultimately show ?thesis using False by (simp add: uq_move_def q_def [symmetric] n_def Let_def)
  qed
qed

lemma EndUpload_up:
  assumes up: "uredis_up rd view" and b: "q_bundled (uq_of (view s)) \<noteq> []"
  obtains s' where "EndUpload rd s = (s', None)" "uq_of (view s') = ended (uq_of (view s))"
proof -
  obtain s1 where 1: "GetBundledIn rd s = (s1, Inr (q_bundled (uq_of (view s))))" "view s1 = view s"
    using GetBundledIn_up [OF up] by blast
  obtain s2 ts where 2: "GetUploading rd s1 = (s2, Inr ts)" "set ts = q_uploading (uq_of (view s))" "view s2 = view s"
    using GetUploading_up [OF up, of s1] 1 by metis
  obtain s3 where 3: "ur_exec rd s2 (end_cmds ts) = (s3, None)" "view s3 = foldl us_cmd (view s2) (end_cmds ts)"
    using uredis_up_D(9) [OF up] by blast
  have "EndUpload rd s = (s3, None)" using 1 2 3 b by (simp add: EndUpload_def)
  moreover have "uq_of (view s3) = ended (uq_of (view s))"
    using 3(2) 2 end_cmds_uq(1) by (simp add: uq_of_cmds)
  ultimately show ?thesis using that by blast
qed

lemma SetBundledIn_up:
  assumes up: "uredis_up rd view"
  obtains s' where "SetBundledIn rd s b = (s', None)" "uq_of (view s') = (uq_of (view s))\<lparr>q_bundled := b\<rparr>"
proof -
  obtain s' where "ur_exec rd s [USetEx RdbCurrentBundledIn b] = (s', None)"
      "view s' = foldl us_cmd (view s) [USetEx RdbCurrentBundledIn b]"
    using uredis_up_D(9) [OF up] by blast
  with that [of s'] show ?thesis
    by (simp add: SetBundledIn_def uq_of_cmd del: us_cmd.simps)
qed

lemma filterUnuploadedTxids_up:
  assumes up: "uredis_up (kc_up cf) view"
  obtains u' where "filterUnuploadedTxids cf u ts = (u', filter (\<lambda>t. t \<notin> q_done (uq_of (view u))) ts)" "view u' = view u"
proof (cases "ts = []")
  case True
  with that [of u] show ?thesis by (simp add: filterUnuploadedTxids_def IsUploadedBatch_def)
next
  case False
  define d where "d = us_set (view u) RdbUploadedTxIds"
  obtain u' where u': "ur_sismembers (kc_up cf) u RdbUploadedTxIds ts = (u', Reply (map (\<lambda>v. v \<in> d) ts))" "view u' = view u"
    using uredis_up_D(7) [OF up] unfolding d_def by blast
  define m where "m = foldl (\<lambda>m (t, b). mput t b m) [] (zip ts (map (\<lambda>v. v \<in> d) ts))"
  have "mget m t = (if t \<in> set ts then Some (t \<in> d) else mget [] t)" for t
    unfolding m_def by (rule mget_foldl_zip) (auto simp: zip_map2 zip_same_conv_map)
  then have f: "filter (\<lambda>t. \<not> mget_or False m t) ts = filter (\<lambda>t. t \<notin> d) ts"
    by (intro filter_cong) auto
  have "IsUploadedBatch (kc_up cf) u ts = (u', Inr m)"
    unfolding IsUploadedBatch_def u'(1) m_def using False by simp
  then have "filterUnuploadedTxids cf u ts = (u', filter (\<lambda>t. t \<notin> d) ts)"
    unfolding filterUnuploadedTxids_def using f by simp
  then show ?thesis using u'(2) that [of u'] by (simp add: d_def uq_of_fields)
qed

subsection \<open>A check as a function of the queue\<close>

text \<open>What a list of ids becomes: the bundle of the items found for it, if the operator takes it.\<close>

definition bundle_step ::
  "('u, 'r, 'o) ck_cfg \<Rightarrow> 'r \<Rightarrow> 'o \<Rightarrow> string list \<Rightarrow> 'r \<times> 'o \<times> string option" where
  "bundle_step cf r opst fs =
     (if fs = [] then (r, opst, None)
      else case getBundleItems cf r fs of (r', items) \<Rightarrow>
      if items = [] then (r', opst, None)
      else case kc_op_upload cf opst (with_binary cf items) of
        (opst', Inl _) \<Rightarrow> (r', opst', None)
      | (opst', Inr b) \<Rightarrow> (r', opst', if with_binary cf items = [] then None else Some b))"

definition uq_sent :: "string option \<Rightarrow> uq \<Rightarrow> uq" where
  "uq_sent x q = (case x of None \<Rightarrow> q | Some b \<Rightarrow> q\<lparr>q_bundled := b\<rparr>)"

lemma uq_sent_None [simp]: "uq_sent None q = q"
  by (simp add: uq_sent_def)

lemma tryUpload_up:
  fixes cf :: "('u, 'r, 'o) ck_cfg" and st :: "('u, 'r, 'o) ck_state"
  assumes up: "uredis_up (kc_up cf) view" and b: "q_bundled (ck_q view st) = []"
  defines "st' \<equiv> fst (tryUpload cf st)" and "q2 \<equiv> uq_move (ck_q view st)"
  shows "\<exists>fs x. distinct fs \<and> set fs = q_uploading q2 - q_done q2 \<and>
    bundle_step cf (ck_node st) (ck_op st) fs = (ck_node st', ck_op st', x) \<and> ck_q view st' = uq_sent x q2"
proof -
  obtain u1 where 1: "GetBundledIn (kc_up cf) (ck_up st) = (u1, Inr [])" "view u1 = view (ck_up st)"
    using GetBundledIn_up [OF up] b by metis
  define u2 where "u2 = fst (MoveToUploading (kc_up cf) u1)"
  have 2: "uq_of (view u2) = q2" using MoveToUploading_up [OF up, of u1] 1 by (simp add: u2_def q2_def)
  obtain u3 ts where 3: "GetUploading (kc_up cf) u2 = (u3, Inr ts)" "set ts = q_uploading q2" "distinct ts" "view u3 = view u2"
    using GetUploading_up [OF up, of u2] 2 by metis
  define fs where "fs = filter (\<lambda>t. t \<notin> q_done q2) ts"
  have fs: "distinct fs" "set fs = q_uploading q2 - q_done q2" using 3 by (auto simp: fs_def)
  obtain u4 where 4: "filterUnuploadedTxids cf u3 ts = (u4, fs)" "view u4 = view u3"
    using filterUnuploadedTxids_up [OF up, of u3 ts] 2 3(4) unfolding fs_def by metis
  obtain r items where 5: "getBundleItems cf (ck_node st) fs = (r, items)" by fastforce
  obtain o' a where 6: "kc_op_upload cf (ck_op st) (with_binary cf items) = (o', a)" by fastforce
  have q4: "uq_of (view u4) = q2" using 2 3(4) 4(2) by simp
  define st4 where "st4 = (if fs = [] then st\<lparr>ck_up := u4\<rparr> else if items = [] then st\<lparr>ck_up := u4, ck_node := r\<rparr>
      else st\<lparr>ck_up := u4, ck_node := r, ck_op := o'\<rparr>)"
  define res where "res = (if fs = [] then Inr ([], []) else if items = [] then Inl ''no valid bundle items found''
      else case a of Inl e \<Rightarrow> Inl e | Inr b \<Rightarrow> Inr (b, map (item_Id \<circ> fst) (with_binary cf items)))"
  have up4: "uploadToChain cf (st\<lparr>ck_up := u3\<rparr>) ts = (st4, res)"
    by (cases a) (simp_all add: uploadToChain_def 4 5 6 Let_def st4_def res_def)
  define x where "x = (case res of Inr (b, i # is) \<Rightarrow> Some b | _ \<Rightarrow> None)"
  have bs: "bundle_step cf (ck_node st) (ck_op st) fs = (ck_node st4, ck_op st4, x)"
    using 6 unfolding bundle_step_def 5
    by (cases a; cases "with_binary cf items") (simp_all add: st4_def res_def x_def)
  have "ck_node st' = ck_node st4 \<and> ck_op st' = ck_op st4 \<and> ck_q view st' = uq_sent x q2"
  proof (cases "ts = []")
    case True
    then have "fs = []" by (simp add: fs_def)
    moreover have "st' = st\<lparr>ck_up := u3\<rparr>"
      using True by (simp add: st'_def tryUpload_def 1 3 u2_def [symmetric])
    ultimately show ?thesis using 2 3(4) by (simp add: st4_def x_def res_def)
  next
    case ts: False
    show ?thesis
    proof (cases x)
      case None
      then have "st' = st4" using ts
        by (auto simp: st'_def tryUpload_def 1 3 u2_def [symmetric] up4 x_def split: sum.splits list.splits)
      moreover have "ck_q view st4 = q2" using q4 by (simp add: st4_def)
      ultimately show ?thesis using None by simp
    next
      case (Some b)
      then obtain i "is" where rs: "res = Inr (b, i # is)" by (auto simp: x_def split: sum.splits list.splits)
      obtain u5 where 7: "SetBundledIn (kc_up cf) (ck_up st4) b = (u5, None)"
          "uq_of (view u5) = (ck_q view st4)\<lparr>q_bundled := b\<rparr>"
        using SetBundledIn_up [OF up] by blast
      have "st' = st4\<lparr>ck_up := u5\<rparr>" using ts
        by (simp add: st'_def tryUpload_def 1 3 u2_def [symmetric] up4 rs 7)
      moreover have "ck_q view st4 = q2" using q4 by (simp add: st4_def)
      ultimately show ?thesis using Some 7 by (simp add: uq_sent_def)
    qed
  qed
  with fs bs show ?thesis by (intro exI [of _ fs] exI [of _ x]) simp
qed

text \<open>The queue after the current bundle has been dealt with: \<open>None\<close> is a bundle that waits.\<close>

definition uq_confirm :: "bool \<Rightarrow> uq \<Rightarrow> uq option" where
  "uq_confirm ok q =
     (if q_bundled q = [] then Some q else if ok then Some (ended q) else None)"

definition ask :: "('u, 'r, 'o) ck_cfg \<Rightarrow> 'o \<Rightarrow> string \<Rightarrow> 'o \<times> bool" where
  "ask cf opst b = (if b = [] then (opst, True) else case kc_op_check cf opst b of (opst', a) \<Rightarrow> (opst', a = Inr True))"

lemma check_up:
  fixes cf :: "('u, 'r, 'o) ck_cfg" and st :: "('u, 'r, 'o) ck_state"
  assumes up: "uredis_up (kc_up cf) view"
  defines "q \<equiv> ck_q view st" and "st' \<equiv> check cf st"
  shows "case ask cf (ck_op st) (q_bundled q) of (opst, ok) \<Rightarrow>
    (case uq_confirm ok q of
       None \<Rightarrow> ck_q view st' = q \<and> ck_node st' = ck_node st \<and> ck_op st' = opst
     | Some q1 \<Rightarrow> \<exists>fs x. distinct fs \<and> set fs = q_uploading (uq_move q1) - q_done (uq_move q1) \<and>
         bundle_step cf (ck_node st) opst fs = (ck_node st', ck_op st', x) \<and> ck_q view st' = uq_sent x (uq_move q1))"
proof -
  obtain u1 where 1: "GetBundledIn (kc_up cf) (ck_up st) = (u1, Inr (q_bundled q))" "view u1 = view (ck_up st)"
    using GetBundledIn_up [OF up] unfolding q_def by blast
  show ?thesis
  proof (cases "q_bundled q = []")
    case True
    then have "st' = fst (tryUpload cf (st\<lparr>ck_up := u1\<rparr>))" by (simp add: st'_def check_def 1)
    then show ?thesis
      using tryUpload_up [OF up, of "st\<lparr>ck_up := u1\<rparr>"] True 1(2) by (simp add: ask_def uq_confirm_def q_def)
  next
    case b: False
    obtain opst a where 2: "kc_op_check cf (ck_op st) (q_bundled q) = (opst, a)" by fastforce
    show ?thesis
    proof (cases "a = Inr True")
      case False
      then have "st' = st\<lparr>ck_up := u1, ck_op := opst\<rparr>" using b 1 2
        by (cases a) (auto simp: st'_def check_def Let_def split: bool.splits)
      then show ?thesis using b 1 2 False by (simp add: ask_def uq_confirm_def q_def)
    next
      case True
      obtain u2 where 3: "EndUpload (kc_up cf) u1 = (u2, None)" "uq_of (view u2) = ended q"
        using EndUpload_up [OF up, of u1] b 1(2) unfolding q_def by metis
      have "st' = fst (tryUpload cf (st\<lparr>ck_up := u1, ck_op := opst, ck_up := u2\<rparr>))"
        using b 1 2 3 True by (simp add: st'_def check_def Let_def)
      then show ?thesis
        using tryUpload_up [OF up, of "st\<lparr>ck_up := u1, ck_op := opst, ck_up := u2\<rparr>"] b 2 3 True
        by (simp add: ask_def uq_confirm_def ended_def)
    qed
  qed
qed

subsection \<open>Reading the node's log\<close>

definition node_ok :: "('u, 'r, 'o) ck_cfg \<Rightarrow> ('r \<Rightarrow> keyspace) \<Rightarrow> entry list \<Rightarrow> bool" where
  "node_ok cf nview es \<longleftrightarrow> redis_ok (kc_redis cf) nview \<and> redis_up (kc_redis cf) \<and> codec_ok (kc_codec cf) \<and>
     length es < 2 ^ 63 \<and> (\<forall>e \<in> set es. CHR '':'' \<notin> set (fst e))"

text \<open>The items and assignments of a log.\<close>

definition log_items :: "entry list \<Rightarrow> bundle_item set" where
  "log_items es = (\<lambda>e. fst (snd e)) ` set es \<union> (\<lambda>e. snd (snd e)) ` set es"

lemma items_of_log: "set (items_of es p) \<subseteq> log_items es" "set (assigns_of es p) \<subseteq> log_items es"
  by (auto simp: items_of_def assigns_of_def log_items_def)

lemma length_items_of: "length (items_of es p) \<le> length es"
  by (simp add: items_of_def)

lemma lindex_of_mem: "lindex_of xs n = Some v \<Longrightarrow> v \<in> set xs"
  by (auto simp: lindex_of_def Let_def split: if_splits)

lemma list_item_mem:
  assumes "redis_ok rd view" "codec_ok cd" "ks_list (view s) key = map (enc_item cd) xs"
    and "list_item rd cd s key n = (s', r)"
  shows "view s' = view s \<and> set (found r) \<subseteq> set xs"
proof -
  obtain u v where u: "rd_lindex rd s key n = (u, v)" by fastforce
  note a = redis_ok_D(2) [OF assms(1) u]
  show ?thesis
  proof (cases v)
    case (Reply x)
    then have "x \<in> set (map (enc_item cd) xs)" using a lindex_of_mem assms(3) by fastforce
    then obtain i where "i \<in> set xs" "dec_item cd x = Some i" using assms(2) by (auto simp: codec_ok_def)
    with assms(4) u Reply a show ?thesis by (auto simp: list_item_def found_def)
  qed (use assms(4) u a in \<open>auto simp: list_item_def found_def\<close>)
qed

lemma GetMessage_mem:
  assumes "redis_ok rd view" "codec_ok cd" "log_ok cd (view s) es" "GetMessage rd cd s i = (s', r)"
  shows "view s' = view s \<and> set (found r) \<subseteq> log_items es"
proof -
  obtain u v where u: "rd_hget rd s RdbMsgIndex i = (u, v)" by fastforce
  note a = redis_ok_D(3) [OF assms(1) u]
  have l: "ks_list (view u) (RdbProcessMsgsPrefix @ p) = map (enc_item cd) (items_of es p)" for p
    using assms(3) a by (simp add: log_ok_def)
  note m = list_item_mem [OF assms(1,2) l]
  show ?thesis
  proof (cases "\<exists>x p n rest nn. v = Reply x \<and> Split CHR '':'' x = p # n # rest \<and> ParseInt n = Some nn")
    case True
    then obtain x p n rest nn where "v = Reply x" "Split CHR '':'' x = p # n # rest" "ParseInt n = Some nn" by blast
    with assms(4) u have "list_item rd cd u (RdbProcessMsgsPrefix @ p) nn = (s', r)"
      by (simp add: GetMessage_def GetMessageByNonce_def)
    from m [OF this] a items_of_log(1) [of es p] show ?thesis by auto
  next
    case False
    then have "s' = u \<and> found r = []" using assms(4) u
      by (cases v) (auto simp: GetMessage_def found_def split: list.splits option.splits)
    with a show ?thesis by simp
  qed
qed

lemma getAssignByMessage_mem:
  assumes "redis_ok (kc_redis cf) view" "codec_ok (kc_codec cf)" "log_ok (kc_codec cf) (view r) es"
    and "getAssignByMessage cf r i = (r', m)"
  shows "view r' = view r \<and> set (found m) \<subseteq> log_items es"
proof -
  obtain u v where u: "GetResult (kc_redis cf) (kc_codec cf) r i = (u, v)" by fastforce
  have vu: "view u = view r"
  proof -
    obtain a b where ab: "rd_hget (kc_redis cf) r RdbMsgResult i = (a, b)" by fastforce
    with u have "u = a" by (cases b) (auto simp: GetResult_def)
    with redis_ok_D(3) [OF assms(1) ab] show ?thesis by simp
  qed
  have l: "ks_list (view u) (RdbProcessAssignmentPrefix @ p) = map (enc_item (kc_codec cf)) (assigns_of es p)" for p
    using assms(3) vu by (simp add: log_ok_def)
  note mm = list_item_mem [OF assms(1,2) l]
  show ?thesis
  proof (cases "\<exists>res nn. v = Inr (Some res) \<and> ParseInt (vr_Nonce res) = Some nn")
    case True
    then obtain res nn where "v = Inr (Some res)" "ParseInt (vr_Nonce res) = Some nn" by blast
    with assms(4) u have "list_item (kc_redis cf) (kc_codec cf) u (RdbProcessAssignmentPrefix @ vr_FromProcess res) nn = (r', m)"
      by (simp add: getAssignByMessage_def GetAssignByNonce_def)
    from mm [OF this] vu items_of_log(2) [of es "vr_FromProcess res"] show ?thesis by auto
  next
    case False
    then have "r' = u \<and> found m = []" using assms(4) u
      by (auto simp: getAssignByMessage_def found_def split: sum.splits option.splits)
    with vu show ?thesis by simp
  qed
qed

lemma GetMessage_found:
  assumes ok: "node_ok cf nview es" and log: "log_ok (kc_codec cf) (nview r) es" and t: "t \<in> set (entry_ids es)"
    and g: "GetMessage (kc_redis cf) (kc_codec cf) r t = (r', m)"
  shows "\<exists>i \<in> set (found m). item_Id i = t"
proof -
  from t obtain e where e: "e \<in> set es" "item_Id (fst (snd e)) = t" by auto
  define p where "p = fst e"
  have "fst (snd e) \<in> set (items_of es p)" using e by (auto simp: items_of_def p_def)
  then obtain j where j: "j < length (items_of es p)" "item_Id (items_of es p ! j) = t"
    using e by (auto simp: in_set_conv_nth)
  have "j < 2 ^ 63" using j(1) length_items_of [of es p] ok by (simp add: node_ok_def)
  moreover have "CHR '':'' \<notin> set p" using ok e by (auto simp: node_ok_def p_def)
  ultimately have "snd (GetMessage (kc_redis cf) (kc_codec cf) r t) = Inr (Some (items_of es p ! j))"
    using GetMessage_present [of "kc_redis cf" nview "kc_codec cf" r es j p t] ok log j by (simp add: node_ok_def)
  with g j show ?thesis by (simp add: found_def)
qed

text \<open>Every id of the log yields its item, and nothing but items of the log goes into a bundle.\<close>

lemma getBundleItems_log:
  assumes ok: "node_ok cf nview es"
  shows "log_ok (kc_codec cf) (nview r) es \<Longrightarrow> getBundleItems cf r fs = (r', items) \<Longrightarrow>
    nview r' = nview r \<and> set items \<subseteq> log_items es \<and>
    (\<forall>t \<in> set fs \<inter> set (entry_ids es). \<exists>i \<in> set items. item_Id i = t)"
proof (induction fs arbitrary: r r' items)
  case (Cons f fs)
  obtain r1 m where 1: "GetMessage (kc_redis cf) (kc_codec cf) r f = (r1, m)" by fastforce
  obtain r2 a where 2: "getAssignByMessage cf r1 f = (r2, a)" by fastforce
  obtain r3 its where 3: "getBundleItems cf r2 fs = (r3, its)" by fastforce
  have ro: "redis_ok (kc_redis cf) nview" "codec_ok (kc_codec cf)" using ok by (simp_all add: node_ok_def)
  note m1 = GetMessage_mem [OF ro Cons.prems(1) 1]
  have l1: "log_ok (kc_codec cf) (nview r1) es" using m1 Cons.prems(1) by simp
  note m2 = getAssignByMessage_mem [OF ro l1 2]
  have l2: "log_ok (kc_codec cf) (nview r2) es" using m2 l1 by simp
  note m3 = Cons.IH [OF l2 3]
  have "r' = r3" "items = found m @ found a @ its" using Cons.prems(2) 1 2 3 by auto
  then show ?case
    using m1 m2 m3 GetMessage_found [OF ok Cons.prems(1) _ 1] by auto
qed simp

subsection \<open>An operator that takes and confirms every bundle\<close>

definition coop :: "('u, 'r, 'o) ck_cfg \<Rightarrow> ('o \<Rightarrow> bundle_item list list) \<Rightarrow> bool" where
  "coop cf olog \<longleftrightarrow>
     (\<forall>s items. items \<noteq> [] \<longrightarrow> (\<exists>s' b. kc_op_upload cf s items = (s', Inr b) \<and> b \<noteq> [] \<and>
        olog s' = olog s @ [map fst items])) \<and>
     (\<forall>s b. \<exists>s'. kc_op_check cf s b = (s', Inr True) \<and> olog s' = olog s) \<and>
     (\<forall>i. kc_binary cf i \<noteq> None)"

definition on_chain :: "bundle_item list list \<Rightarrow> string \<Rightarrow> bool" where
  "on_chain bs t \<longleftrightarrow> (\<exists>b \<in> set bs. \<exists>i \<in> set b. item_Id i = t)"

lemma on_chain_append [simp]: "on_chain (bs @ cs) t \<longleftrightarrow> on_chain bs t \<or> on_chain cs t"
  by (auto simp: on_chain_def)

lemma with_binary_items: "(\<And>i. kc_binary cf i \<noteq> None) \<Longrightarrow> map fst (with_binary cf items) = items"
  by (induction items) (auto simp: with_binary_def split: option.splits)

lemma bundle_step_coop:
  assumes co: "coop cf olog" and node: "node_ok cf nview es" and log: "log_ok (kc_codec cf) (nview r) es"
    and st: "bundle_step cf r opst fs = (r', opst', x)"
  shows "nview r' = nview r"
    and "\<exists>bs. olog opst' = olog opst @ bs \<and> (\<forall>b \<in> set bs. set b \<subseteq> log_items es)"
    and "\<And>t. t \<in> set fs \<Longrightarrow> t \<in> set (entry_ids es) \<Longrightarrow> x \<noteq> None \<and> x \<noteq> Some [] \<and> on_chain (olog opst') t"
    and "fs = [] \<Longrightarrow> x = None \<and> opst' = opst"
proof -
  obtain r1 items where g: "getBundleItems cf r fs = (r1, items)" by fastforce
  note gl = getBundleItems_log [OF node log g]
  have bin: "map fst (with_binary cf items) = items"
    using co by (intro with_binary_items) (auto simp: coop_def)
  have "nview r' = nview r \<and> (\<exists>bs. olog opst' = olog opst @ bs \<and> (\<forall>b \<in> set bs. set b \<subseteq> log_items es)) \<and>
      (\<forall>t. t \<in> set fs \<longrightarrow> t \<in> set (entry_ids es) \<longrightarrow> x \<noteq> None \<and> x \<noteq> Some [] \<and> on_chain (olog opst') t) \<and>
      (fs = [] \<longrightarrow> x = None \<and> opst' = opst)"
  proof (cases "fs = [] \<or> items = []")
    case True
    then have "opst' = opst" "x = None" "r' \<in> {r, r1}" using st g by (auto simp: bundle_step_def split: if_splits)
    with gl True show ?thesis by (auto intro: exI [of _ "[]"])
  next
    case False
    then have "with_binary cf items \<noteq> []" using bin by auto
    with co obtain s' b where s: "kc_op_upload cf opst (with_binary cf items) = (s', Inr b)" "b \<noteq> []"
        "olog s' = olog opst @ [items]"
      using co [unfolded coop_def, THEN conjunct1, rule_format, of "with_binary cf items" opst] bin by auto
    have "r' = r1" "opst' = s'" "x = Some b"
      using st g s False \<open>with_binary cf items \<noteq> []\<close> by (auto simp: bundle_step_def)
    with gl s False show ?thesis by (auto simp: on_chain_def intro: exI [of _ "[items]"])
  qed
  then show "nview r' = nview r" "\<exists>bs. olog opst' = olog opst @ bs \<and> (\<forall>b \<in> set bs. set b \<subseteq> log_items es)"
    "\<And>t. t \<in> set fs \<Longrightarrow> t \<in> set (entry_ids es) \<Longrightarrow> x \<noteq> None \<and> x \<noteq> Some [] \<and> on_chain (olog opst') t"
    "fs = [] \<Longrightarrow> x = None \<and> opst' = opst" by blast+
qed

lemma ask_coop:
  assumes "coop cf olog"
  shows "snd (ask cf opst b)" "olog (fst (ask cf opst b)) = olog opst"
proof -
  obtain s' where "kc_op_check cf opst b = (s', Inr True)" "olog s' = olog opst"
    using assms [unfolded coop_def, THEN conjunct2, THEN conjunct1, rule_format, of opst b] by blast
  then show "snd (ask cf opst b)" "olog (fst (ask cf opst b)) = olog opst" by (auto simp: ask_def)
qed

abbreviation batch :: nat where "batch \<equiv> 100000"

lemma uq_move_start:
  assumes "q_bundled q = []" "q_uploading q = {}"
  shows "uq_move q = q\<lparr>q_pending := drop batch (q_pending q), q_uploading := set (take batch (q_pending q))\<rparr>"
proof (cases "q_pending q = []")
  case True
  with assms show ?thesis by (cases q) (simp add: uq_move_def)
next
  case False
  have "nat (min (int (length (q_pending q))) 100000) = min (length (q_pending q)) batch" by simp
  then have "uq_move q = q\<lparr>q_pending := drop (min (length (q_pending q)) batch) (q_pending q),
      q_uploading := set (take (min (length (q_pending q)) batch) (q_pending q))\<rparr>"
    using assms False by (simp add: uq_move_def MaxUploadingCount_def Let_def)
  then show ?thesis by (cases "length (q_pending q) \<le> batch") (simp_all add: min_def)
qed

subsection \<open>An operator with outages\<close>

text \<open>What is relied on about the operator, for the items \<open>L\<close> of a log. \<open>olog\<close> are the bundles on the chain with
  their ids and \<open>works s\<close> says that the gateway answers in the state \<open>s\<close> of the chain and every bundle sent is
  confirmed. While it works, a bundle is taken and the question for a bundle is answered with a confirmation;
  otherwise a bundle may be refused - or be taken and the answer lost - and any answer may come.\<close>

definition serves ::
  "('u, 'r, 'o) ck_cfg \<Rightarrow> bundle_item set \<Rightarrow> ('o \<Rightarrow> (string \<times> bundle_item list) list) \<Rightarrow> ('o \<Rightarrow> bool) \<Rightarrow> bool" where
  "serves cf L olog works \<longleftrightarrow>
     (\<forall>s items. items \<noteq> [] \<and> fst ` set items \<subseteq> L \<and> (\<forall>(i, b) \<in> set items. kc_binary cf i = Some b) \<longrightarrow>
        (case kc_op_upload cf s items of
           (s', Inr b) \<Rightarrow> b \<noteq> [] \<and> olog s' = olog s @ [(b, map fst items)]
         | (s', Inl _) \<Rightarrow> \<not> works s \<and> (olog s' = olog s \<or> (\<exists>b. olog s' = olog s @ [(b, map fst items)])))) \<and>
     (\<forall>s b. b \<in> fst ` set (olog s) \<longrightarrow>
        (case kc_op_check cf s b of (s', r) \<Rightarrow> olog s' = olog s \<and> (works s \<longrightarrow> r = Inr True \<and> works s'))) \<and>
     (\<forall>i \<in> L. kc_binary cf i \<noteq> None)"

abbreviation bundles :: "('o \<Rightarrow> (string \<times> bundle_item list) list) \<Rightarrow> 'o \<Rightarrow> bundle_item list list" where
  "bundles olog s \<equiv> map snd (olog s)"

lemma with_binary_log:
  assumes "\<forall>i \<in> L. kc_binary cf i \<noteq> None" "set items \<subseteq> L"
  shows "map fst (with_binary cf items) = items" "\<forall>(i, b) \<in> set (with_binary cf items). kc_binary cf i = Some b"
proof -
  show "map fst (with_binary cf items) = items"
    using assms(2) by (induction items) (use assms(1) in \<open>auto simp: with_binary_def split: option.splits\<close>)
  show "\<forall>(i, b) \<in> set (with_binary cf items). kc_binary cf i = Some b"
    by (induction items) (auto simp: with_binary_def split: option.splits)
qed

lemma bundle_step_serves:
  assumes co: "serves cf (log_items es) olog works" and node: "node_ok cf nview es" and log: "log_ok (kc_codec cf) (nview r) es"
    and st: "bundle_step cf r opst fs = (r', opst', x)"
  shows "nview r' = nview r" and "\<exists>bs. olog opst' = olog opst @ bs"
    and "fs = [] \<Longrightarrow> x = None \<and> opst' = opst"
    and "x = Some b \<Longrightarrow> b \<noteq> [] \<and> b \<in> fst ` set (olog opst') \<and> (\<forall>t \<in> set fs \<inter> set (entry_ids es). on_chain (bundles olog opst') t)"
    and "works opst \<Longrightarrow> set fs \<inter> set (entry_ids es) \<noteq> {} \<Longrightarrow> x \<noteq> None"
proof -
  obtain r1 items where g: "getBundleItems cf r fs = (r1, items)" by fastforce
  note gl = getBundleItems_log [OF node log g]
  have "\<forall>i \<in> log_items es. kc_binary cf i \<noteq> None" using co by (simp add: serves_def)
  note bin = with_binary_log [OF this, of items]
  have "nview r' = nview r \<and> (\<exists>bs. olog opst' = olog opst @ bs) \<and> (fs = [] \<longrightarrow> x = None \<and> opst' = opst) \<and>
      (x = Some b \<longrightarrow> b \<noteq> [] \<and> b \<in> fst ` set (olog opst') \<and>
         (\<forall>t \<in> set fs \<inter> set (entry_ids es). on_chain (bundles olog opst') t)) \<and>
      (works opst \<longrightarrow> set fs \<inter> set (entry_ids es) \<noteq> {} \<longrightarrow> x \<noteq> None)" for b
  proof (cases "fs = [] \<or> items = []")
    case True
    then have "opst' = opst" "x = None" "r' \<in> {r, r1}" using st g by (auto simp: bundle_step_def split: if_splits)
    with gl True show ?thesis by auto
  next
    case False
    then have w: "with_binary cf items \<noteq> []" "fst ` set (with_binary cf items) \<subseteq> log_items es"
      "map fst (with_binary cf items) = items" "\<forall>(i, b) \<in> set (with_binary cf items). kc_binary cf i = Some b"
      using gl bin by (auto simp flip: set_map)
    obtain s' a where s: "kc_op_upload cf opst (with_binary cf items) = (s', a)" by fastforce
    have S: "case a of Inr b \<Rightarrow> b \<noteq> [] \<and> olog s' = olog opst @ [(b, items)]
      | Inl _ \<Rightarrow> \<not> works opst \<and> (olog s' = olog opst \<or> (\<exists>b. olog s' = olog opst @ [(b, items)]))"
      using co [unfolded serves_def, THEN conjunct1, rule_format, of "with_binary cf items" opst] w s by simp
    have "r' = r1" "opst' = s'" "x = (case a of Inl _ \<Rightarrow> None | Inr b \<Rightarrow> Some b)"
      using st g s False w(1) by (auto simp: bundle_step_def split: sum.splits)
    with gl S False show ?thesis by (cases a) (auto simp: on_chain_def)
  qed
  then show "nview r' = nview r" "\<exists>bs. olog opst' = olog opst @ bs" "fs = [] \<Longrightarrow> x = None \<and> opst' = opst"
    "x = Some b \<Longrightarrow> b \<noteq> [] \<and> b \<in> fst ` set (olog opst') \<and> (\<forall>t \<in> set fs \<inter> set (entry_ids es). on_chain (bundles olog opst') t)"
    "works opst \<Longrightarrow> set fs \<inter> set (entry_ids es) \<noteq> {} \<Longrightarrow> x \<noteq> None" by blast+
qed

text \<open>The first \<open>k\<close> batches of the pending ids \<open>P\<close>. In phase \<open>k\<close> they have left the list: the last of them is
  uploading, the others are uploaded and on the chain, and so is the last when a bundle is on its way.\<close>

definition batches :: "string list \<Rightarrow> nat \<Rightarrow> string set" where
  "batches P k = set (take (k * batch) P)"

definition phase ::
  "('u \<Rightarrow> uks) \<Rightarrow> ('o \<Rightarrow> (string \<times> bundle_item list) list) \<Rightarrow> string set \<Rightarrow> string list \<Rightarrow> nat \<Rightarrow> ('u, 'r, 'o) ck_state \<Rightarrow> bool" where
  "phase view olog D P k st \<longleftrightarrow>
     (let q = ck_q view st in
      q_pending q = drop (k * batch) P \<and> q_uploading q = batches P k - batches P (k - 1) \<and>
      q_done q = D \<union> batches P (k - 1) \<and>
      (q_bundled q \<noteq> [] \<longrightarrow> q_bundled q \<in> fst ` set (olog (ck_op st)) \<and>
         (\<forall>t \<in> q_uploading q. on_chain (bundles olog (ck_op st)) t)) \<and>
      (\<forall>t \<in> batches P (k - 1). on_chain (bundles olog (ck_op st)) t))"

definition settled :: "('u \<Rightarrow> uks) \<Rightarrow> ('u, 'r, 'o) ck_state \<Rightarrow> bool" where
  "settled view st \<longleftrightarrow> q_bundled (ck_q view st) \<noteq> [] \<or> q_uploading (ck_q view st) = {}"

lemma batches_mono: "j \<le> k \<Longrightarrow> batches P j \<subseteq> batches P k"
  unfolding batches_def by (rule set_take_subset_set_take) (rule mult_le_mono1)

lemma batches_next:
  assumes "distinct P" shows "set (take batch (drop (k * batch) P)) = batches P (Suc k) - batches P k"
proof -
  have "take (Suc k * batch) P = take (k * batch) P @ take batch (drop (k * batch) P)"
    by (simp only: mult_Suc add.commute [of batch] take_add)
  moreover have "set (take (k * batch) P) \<inter> set (take batch (drop (k * batch) P)) = {}"
    using set_take_disj_set_drop_if_distinct [OF assms, of "k * batch" "k * batch"]
    by (auto dest: in_set_takeD)
  ultimately show ?thesis unfolding batches_def by auto
qed

lemma batches_card: "distinct P \<Longrightarrow> card (batches P k) = min (length P) (k * batch)"
  by (simp add: batches_def distinct_card)

text \<open>Moving ids on: the next batch when the set is empty, nothing while the last batch is in it.\<close>

lemma move_next:
  assumes "distinct P" "q_bundled q = []" "q_uploading q = {}" "q_pending q = drop (k * batch) P"
  shows "uq_move q = q\<lparr>q_pending := drop (Suc k * batch) P, q_uploading := batches P (Suc k) - batches P k\<rparr>"
  using uq_move_start [OF assms(2,3)] batches_next [OF assms(1), of k] by (simp add: assms(4) add.commute)

lemma move_again:
  assumes "distinct P" "q_uploading q = batches P k - batches P (k - 1)" "q_uploading q \<noteq> {}" "q_pending q = drop (k * batch) P"
  shows "uq_move q = q"
proof (cases "q_pending q = []")
  case False
  then have len: "k * batch < length P" using assms(4) by simp
  have k: "0 < k" using assms(2,3) by (cases k) auto
  have "card (q_uploading q) = card (batches P k) - card (batches P (k - 1))"
    unfolding assms(2) by (rule card_Diff_subset) (simp_all add: batches_mono, simp add: batches_def)
  moreover have "(k - 1) * batch < length P" using len by (simp add: diff_mult_distrib)
  ultimately have "card (q_uploading q) = k * batch - (k - 1) * batch" using len assms(1) by (simp add: batches_card)
  also have "\<dots> = batch" using k by (cases k) simp_all
  finally show ?thesis by (simp add: uq_move_def MaxUploadingCount_def)
qed (simp add: uq_move_def)

text \<open>A check that deals with batch \<open>k\<close>: the set has been filled, and the bundle is sent or refused.\<close>

lemma phase_sent:
  assumes qq: "q_pending qq = drop (k * batch) P" "q_uploading qq = batches P k - batches P (k - 1)"
      "q_done qq = D \<union> batches P (k - 1)" "q_bundled qq = []"
    and dis: "distinct P" "set P \<inter> D = {}" "set P \<subseteq> set (entry_ids es)"
    and old: "\<forall>t \<in> batches P (k - 1). on_chain (bundles olog opst) t"
    and co: "serves cf (log_items es) olog works" and node: "node_ok cf nview es" and log: "log_ok (kc_codec cf) (nview r) es"
    and st: "set fs = q_uploading qq - q_done qq" "bundle_step cf r opst fs = (ck_node st', ck_op st', x)" "ck_q view st' = uq_sent x qq"
  shows "phase view olog D P k st'" "works opst \<Longrightarrow> settled view st'" "nview (ck_node st') = nview r"
proof -
  note bs = bundle_step_serves [OF co node log st(2)]
  have bP: "batches P j \<subseteq> set P" for j unfolding batches_def by (rule set_take_subset)
  have fs: "set fs = q_uploading qq" "set fs \<subseteq> set (entry_ids es)"
    using st(1) bP [of k] dis(2,3) by (auto simp: qq)
  obtain bl where bl: "olog (ck_op st') = olog opst @ bl" using bs(2) by blast
  show "phase view olog D P k st'"
    unfolding phase_def Let_def st(3) using qq old bl bs(4) fs by (cases x) (auto simp: uq_sent_def)
  show "settled view st'" if "works opst"
  proof (cases "q_uploading qq = {}")
    case True
    then show ?thesis unfolding settled_def st(3) by (cases x) (simp_all add: uq_sent_def)
  next
    case False
    have "set fs \<inter> set (entry_ids es) = set fs" using fs(2) by blast
    with False fs(1) bs(5) [OF that] obtain b where "x = Some b" by fastforce
    with bs(4) show ?thesis unfolding settled_def st(3) by (simp add: uq_sent_def)
  qed
  show "nview (ck_node st') = nview r" by (rule bs(1))
qed

text \<open>One check: a settled phase goes on to the next one unless the chain holds it up, an unsettled one sends again.\<close>

lemma check_phase:
  assumes up: "uredis_up (kc_up cf) view" and co: "serves cf (log_items es) olog works" and node: "node_ok cf nview es"
    and log: "log_ok (kc_codec cf) (nview (ck_node st)) es"
    and dis: "distinct P" "set P \<inter> D = {}" "set P \<subseteq> set (entry_ids es)" and ph: "phase view olog D P k st"
  shows "\<exists>k'. phase view olog D P k' (check cf st) \<and> nview (ck_node (check cf st)) = nview (ck_node st) \<and>
    (if settled view st then k' = Suc k \<or> k' = k \<and> settled view (check cf st) \<and> \<not> works (ck_op st) else k' = k) \<and>
    (works (ck_op st) \<longrightarrow> settled view (check cf st))"
proof -
  define q where "q = ck_q view st"
  define st' where "st' = check cf st"
  have q: "q_pending q = drop (k * batch) P" "q_uploading q = batches P k - batches P (k - 1)"
      "q_done q = D \<union> batches P (k - 1)"
    and sent: "q_bundled q \<noteq> [] \<Longrightarrow> q_bundled q \<in> fst ` set (olog (ck_op st)) \<and>
      (\<forall>t \<in> q_uploading q. on_chain (bundles olog (ck_op st)) t)"
    and old: "\<forall>t \<in> batches P (k - 1). on_chain (bundles olog (ck_op st)) t"
    using ph by (simp_all add: phase_def q_def Let_def)
  obtain opst ok where a: "ask cf (ck_op st) (q_bundled q) = (opst, ok)" by fastforce
  have A: "olog opst = olog (ck_op st)" "works (ck_op st) \<Longrightarrow> ok \<and> works opst" "q_bundled q = [] \<Longrightarrow> ok \<and> opst = ck_op st"
  proof -
    have "olog opst = olog (ck_op st) \<and> (works (ck_op st) \<longrightarrow> ok \<and> works opst)" if "q_bundled q \<noteq> []"
      using co [unfolded serves_def, THEN conjunct2, THEN conjunct1, rule_format, of "q_bundled q" "ck_op st"] sent [OF that] a that
      by (auto simp: ask_def split: prod.splits)
    then show "olog opst = olog (ck_op st)" "works (ck_op st) \<Longrightarrow> ok \<and> works opst" "q_bundled q = [] \<Longrightarrow> ok \<and> opst = ck_op st"
      using a by (cases "q_bundled q = []"; simp add: ask_def)+
  qed
  have C: "case uq_confirm ok q of
       None \<Rightarrow> ck_q view st' = q \<and> ck_node st' = ck_node st \<and> ck_op st' = opst
     | Some q1 \<Rightarrow> \<exists>fs x. distinct fs \<and> set fs = q_uploading (uq_move q1) - q_done (uq_move q1) \<and>
         bundle_step cf (ck_node st) opst fs = (ck_node st', ck_op st', x) \<and> ck_q view st' = uq_sent x (uq_move q1)"
    using check_up [OF up, of st] a unfolding q_def [symmetric] st'_def [symmetric] by simp
  have sub: "batches P (k - 1) \<subseteq> batches P k" by (rule batches_mono) simp
  note sends = phase_sent [OF _ _ _ _ dis _ co node log, where st' = st' and opst = opst]
  let ?goal = "\<exists>k'. phase view olog D P k' st' \<and> nview (ck_node st') = nview (ck_node st) \<and>
    (if settled view st then k' = Suc k \<or> k' = k \<and> settled view st' \<and> \<not> works (ck_op st) else k' = k) \<and>
    (works (ck_op st) \<longrightarrow> settled view st')"
  consider (waits) "q_bundled q \<noteq> []" "\<not> ok" | (confirmed) "q_bundled q \<noteq> []" "ok"
    | (empty) "q_bundled q = []" "q_uploading q = {}" | (again) "q_bundled q = []" "q_uploading q \<noteq> {}" by blast
  then have ?goal
  proof cases
    case waits
    then have "ck_q view st' = q" "ck_node st' = ck_node st" "ck_op st' = opst" using C by (simp_all add: uq_confirm_def)
    then show ?goal using waits A ph
      by (intro exI [of _ k]) (auto simp: phase_def settled_def Let_def q_def)
  next
    case confirmed
    have all: "\<forall>t \<in> batches P k. on_chain (bundles olog opst) t"
      using sent [OF confirmed(1)] old q(2) A(1) by auto
    have m: "uq_move (ended q) = (ended q)\<lparr>q_pending := drop (Suc k * batch) P, q_uploading := batches P (Suc k) - batches P k\<rparr>"
      by (rule move_next [OF dis(1)]) (simp_all add: ended_def q)
    have "q_done (ended q) = D \<union> batches P k" using q sub by (auto simp: ended_def)
    then have mm: "q_pending (uq_move (ended q)) = drop (Suc k * batch) P"
      "q_uploading (uq_move (ended q)) = batches P (Suc k) - batches P (Suc k - 1)"
      "q_done (uq_move (ended q)) = D \<union> batches P (Suc k - 1)" "q_bundled (uq_move (ended q)) = []"
      unfolding m by (simp_all add: ended_def)
    from C confirmed obtain fs x where f: "set fs = q_uploading (uq_move (ended q)) - q_done (uq_move (ended q))"
      "bundle_step cf (ck_node st) opst fs = (ck_node st', ck_op st', x)" "ck_q view st' = uq_sent x (uq_move (ended q))"
      by (auto simp: uq_confirm_def)
    have "settled view st" using confirmed(1) by (simp add: settled_def q_def)
    with sends [where view = view, OF mm _ f] all A(2) show ?goal by (intro exI [of _ "Suc k"]) simp
  next
    case empty
    then have full: "batches P k = batches P (k - 1)" using q(2) sub by auto
    have m: "uq_move q = q\<lparr>q_pending := drop (Suc k * batch) P, q_uploading := batches P (Suc k) - batches P k\<rparr>"
      by (rule move_next [OF dis(1) empty q(1)])
    have mm: "q_pending (uq_move q) = drop (Suc k * batch) P"
      "q_uploading (uq_move q) = batches P (Suc k) - batches P (Suc k - 1)"
      "q_done (uq_move q) = D \<union> batches P (Suc k - 1)" "q_bundled (uq_move q) = []"
      unfolding m using empty full q(3) by simp_all
    from C empty A(3) obtain fs x where f: "set fs = q_uploading (uq_move q) - q_done (uq_move q)"
      "bundle_step cf (ck_node st) opst fs = (ck_node st', ck_op st', x)" "ck_q view st' = uq_sent x (uq_move q)"
      by (auto simp: uq_confirm_def)
    have "settled view st" using empty(2) by (simp add: settled_def q_def)
    with sends [where view = view, OF mm _ f] old full A(1,2) show ?goal by (intro exI [of _ "Suc k"]) simp
  next
    case again
    have m: "uq_move q = q" by (rule move_again [OF dis(1) q(2) again(2) q(1)])
    from C again A(3) obtain fs x where f: "set fs = q_uploading q - q_done q"
      "bundle_step cf (ck_node st) opst fs = (ck_node st', ck_op st', x)" "ck_q view st' = uq_sent x q"
      by (auto simp: uq_confirm_def m)
    have "\<not> settled view st" using again by (simp add: settled_def q_def)
    with sends [where view = view, OF q again(1) _ f] old A(1,2) show ?goal by (intro exI [of _ k]) simp
  qed
  then show ?thesis unfolding st'_def .
qed

subsection \<open>Everything that is pending gets uploaded\<close>

text \<open>Each check that finds the chain working counts for a batch.\<close>

definition working_checks :: "('u, 'r, 'o) ck_cfg \<Rightarrow> ('o \<Rightarrow> bool) \<Rightarrow> ('u, 'r, 'o) ck_state \<Rightarrow> nat \<Rightarrow> nat" where
  "working_checks cf works st N = length (filter (\<lambda>i. works (ck_op ((check cf ^^ i) st))) [0..<N])"

lemma checks_phase:
  assumes up: "uredis_up (kc_up cf) view" and co: "serves cf (log_items es) olog works" and node: "node_ok cf nview es"
    and log: "log_ok (kc_codec cf) (nview (ck_node st)) es"
    and dis: "distinct P" "set P \<inter> D = {}" "set P \<subseteq> set (entry_ids es)"
    and q: "ck_q view st = \<lparr>q_pending = P, q_uploading = {}, q_done = D, q_bundled = []\<rparr>"
  shows "\<exists>k. phase view olog D P k ((check cf ^^ N) st) \<and> nview (ck_node ((check cf ^^ N) st)) = nview (ck_node st) \<and>
    working_checks cf works st N \<le> k \<and> (settled view ((check cf ^^ N) st) \<or> Suc (working_checks cf works st N) \<le> k)"
proof (induction N)
  case 0
  have "phase view olog D P 0 st" by (simp add: phase_def q batches_def)
  then show ?case by (intro exI [of _ 0]) (simp add: settled_def q working_checks_def)
next
  case (Suc N)
  define s where "s = (check cf ^^ N) st"
  from Suc obtain k where k: "phase view olog D P k s" "nview (ck_node s) = nview (ck_node st)"
    "working_checks cf works st N \<le> k" "settled view s \<or> Suc (working_checks cf works st N) \<le> k"
    by (auto simp: s_def)
  have w: "working_checks cf works st (Suc N) = working_checks cf works st N + (if works (ck_op s) then 1 else 0)"
    by (simp add: working_checks_def s_def)
  have "log_ok (kc_codec cf) (nview (ck_node s)) es" using log k(2) by simp
  from check_phase [OF up co node this dis k(1)] obtain k' where k':
    "phase view olog D P k' (check cf s)" "nview (ck_node (check cf s)) = nview (ck_node s)"
    "if settled view s then k' = Suc k \<or> k' = k \<and> settled view (check cf s) \<and> \<not> works (ck_op s) else k' = k"
    "works (ck_op s) \<longrightarrow> settled view (check cf s)" by blast
  have "(check cf ^^ Suc N) st = check cf s" by (simp add: s_def)
  with k k' w show ?case by (intro exI [of _ k']) (auto split: if_splits)
qed

text \<open>Let Redis answer and the bundle key not expire, and let the ids of the queue be known and without duplicates.
  Once one check more than there are batches of 100000 has found the chain working, whatever happened at the checks
  in between, the ids are all declared uploaded and the item of each is in a bundle on the chain.\<close>

lemma pending_uploaded:
  assumes "uredis_up (kc_up cf) view" and "serves cf (log_items es) olog works" and "node_ok cf nview es"
    and "log_ok (kc_codec cf) (nview (ck_node st)) es"
    and "ck_q view st = \<lparr>q_pending = P, q_uploading = {}, q_done = D, q_bundled = []\<rparr>"
    and "distinct P" and "set P \<inter> D = {}" and "set P \<subseteq> set (entry_ids es)" and "length P \<le> n * batch"
    and "Suc n \<le> working_checks cf works st N"
  shows "let st' = (check cf ^^ N) st in
    q_pending (ck_q view st') = [] \<and> q_uploading (ck_q view st') = {} \<and> q_done (ck_q view st') = D \<union> set P \<and>
    (\<forall>t \<in> set P. on_chain (bundles olog (ck_op st')) t)"
proof -
  from checks_phase [OF assms(1-4) assms(6-8,5), of N] assms(10) obtain k where
    k: "phase view olog D P k ((check cf ^^ N) st)" "Suc n \<le> k" by fastforce
  have "n * batch \<le> (k - 1) * batch" "n * batch \<le> k * batch" using k(2) by (auto intro: mult_le_mono1)
  then have "length P \<le> (k - 1) * batch" "length P \<le> k * batch" using assms(9) by linarith+
  then have "batches P k = set P" "batches P (k - 1) = set P" "drop (k * batch) P = []" by (simp_all add: batches_def)
  with k(1) show ?thesis by (simp add: phase_def Let_def)
qed

subsection \<open>Two ways in which it does not\<close>

text \<open>A full set of uploading ids all of which are uploaded already: nothing moves any more.\<close>

lemma check_stalled:
  assumes up: "uredis_up (kc_up cf) view" and q: "q_bundled (ck_q view st) = []"
    "MaxUploadingCount \<le> int (card (q_uploading (ck_q view st)))"
    "q_uploading (ck_q view st) \<subseteq> q_done (ck_q view st)"
  shows "ck_q view ((check cf ^^ n) st) = ck_q view st \<and> ck_op ((check cf ^^ n) st) = ck_op st"
proof (induction n)
  case (Suc n)
  define s where "s = (check cf ^^ n) st"
  have s: "ck_q view s = ck_q view st" "ck_op s = ck_op st" using Suc by (simp_all add: s_def)
  have m: "uq_move (ck_q view st) = ck_q view st" using q by (simp add: uq_move_def)
  have d: "q_uploading (ck_q view st) - q_done (ck_q view st) = {}" using q(3) by blast
  have "ask cf (ck_op s) (q_bundled (ck_q view s)) = (ck_op s, True)" "uq_confirm True (ck_q view s) = Some (ck_q view s)"
    using q s by (simp_all add: ask_def uq_confirm_def)
  then obtain fs x where "set fs = {}" "bundle_step cf (ck_node s) (ck_op s) fs = (ck_node (check cf s), ck_op (check cf s), x)"
      "ck_q view (check cf s) = uq_sent x (ck_q view st)"
    using check_up [OF up, of s] s m d by auto
  then show ?case using s by (auto simp: s_def bundle_step_def)
qed simp

text \<open>Ids are queued again while they wait, by a second backup for instance, and nothing removes the
  duplicates. When a whole batch of 100000 distinct ids comes a second time, the set of uploading ids
  is full of ids that are uploaded already: from the second check on the queue is stuck, the ids
  behind never leave the pending list and no bundle is sent any more.\<close>

theorem upload_queue_stalls:
  assumes "uredis_up (kc_up cf) view" and "coop cf olog" and "node_ok cf nview es"
    and "log_ok (kc_codec cf) (nview (ck_node st)) es"
    and "ck_q view st = \<lparr>q_pending = A @ A @ R, q_uploading = {}, q_done = D, q_bundled = []\<rparr>"
    and "distinct A" and "length A = 100000" and "set A \<inter> D = {}" and "set A \<subseteq> set (entry_ids es)"
  shows "q_pending (ck_q view ((check cf ^^ (n + 2)) st)) = R \<and>
    ck_op ((check cf ^^ (n + 2)) st) = ck_op (check cf (check cf st))"
proof -
  define q where "q = ck_q view st"
  have qf: "q_pending q = A @ A @ R" "q_uploading q = {}" "q_done q = D" "q_bundled q = []"
    using assms(5) by (simp_all add: q_def)
  have mv: "uq_move p = p\<lparr>q_pending := X, q_uploading := set A\<rparr>"
    if "q_pending p = A @ X" "q_uploading p = {}" "q_bundled p = []" for p X
    using uq_move_start [of p] that assms(7) by simp
  have ne: "A \<noteq> []" using assms(7) by auto
  \<comment> \<open>the first check\<close>
  have a1: "ask cf (ck_op st) (q_bundled q) = (ck_op st, True)" "uq_confirm True q = Some q"
    using qf by (simp_all add: ask_def uq_confirm_def)
  obtain fs x where f1: "set fs = set A" "bundle_step cf (ck_node st) (ck_op st) fs = (ck_node (check cf st), ck_op (check cf st), x)"
      "ck_q view (check cf st) = uq_sent x (q\<lparr>q_pending := A @ R, q_uploading := set A\<rparr>)"
    using check_up [OF assms(1), of st] a1 mv [OF qf(1,2,4)] qf(3) assms(8)
    unfolding q_def [symmetric] by auto
  note b1 = bundle_step_coop [OF assms(2,3,4) f1(2)]
  obtain b where x: "x = Some b" "b \<noteq> []"
  proof -
    have "hd A \<in> set fs" using ne f1(1) by simp
    moreover have "hd A \<in> set (entry_ids es)" using ne assms(9) by (meson hd_in_set subsetD)
    ultimately show ?thesis using b1(3) [of "hd A"] that by (cases x) blast+
  qed
  define q1 where "q1 = ck_q view (check cf st)"
  have q1: "q_pending q1 = A @ R" "q_uploading q1 = set A" "q_done q1 = D" "q_bundled q1 = b"
    using f1(3) x qf by (simp_all add: q1_def uq_sent_def)
  \<comment> \<open>the second check\<close>
  obtain opst ok where a2: "ask cf (ck_op (check cf st)) (q_bundled q1) = (opst, ok)" by fastforce
  have ok: "ok" using ask_coop(1) [OF assms(2), of "ck_op (check cf st)" "q_bundled q1"] a2 by simp
  have e: "uq_confirm ok q1 = Some (ended q1)" using ok q1 x by (simp add: uq_confirm_def)
  define e2 where "e2 = (ended q1)\<lparr>q_pending := R, q_uploading := set A\<rparr>"
  have m2: "uq_move (ended q1) = e2" unfolding e2_def by (rule mv) (simp_all add: ended_def q1)
  have d2: "q_uploading e2 - q_done e2 = {}" by (simp add: e2_def ended_def q1)
  obtain gs y where f2: "set gs = {}"
      "bundle_step cf (ck_node (check cf st)) opst gs = (ck_node (check cf (check cf st)), ck_op (check cf (check cf st)), y)"
      "ck_q view (check cf (check cf st)) = uq_sent y e2"
    using check_up [OF assms(1), of "check cf st"] a2 e m2 d2 unfolding q1_def [symmetric] by auto
  then have "y = None" by (simp add: bundle_step_def)
  with f2(3) have q2: "q_pending (ck_q view (check cf (check cf st))) = R"
      "q_uploading (ck_q view (check cf (check cf st))) = set A"
      "q_done (ck_q view (check cf (check cf st))) = D \<union> set A" "q_bundled (ck_q view (check cf (check cf st))) = []"
    by (simp_all add: e2_def ended_def q1)
  have "card (set A) = batch" using assms(6,7) by (simp add: distinct_card)
  then have "ck_q view ((check cf ^^ n) (check cf (check cf st))) = ck_q view (check cf (check cf st)) \<and>
      ck_op ((check cf ^^ n) (check cf (check cf st))) = ck_op (check cf (check cf st))"
    using q2 by (intro check_stalled [OF assms(1)]) (auto simp: MaxUploadingCount_def)
  moreover have "(check cf ^^ (n + 2)) st = (check cf ^^ n) (check cf (check cf st))"
    by (simp only: funpow_add) (simp add: numeral_2_eq_2)
  ultimately show ?thesis using q2 by simp
qed

text \<open>An id the node does not find (a reverted spawn) is skipped when the bundle is made, but
  stays in the set of uploading ids: if another id of the batch is found, the next check declares it
  uploaded although no bundle has an item of that id, and from then on it is never queued again.\<close>

theorem unsent_declared_uploaded:
  assumes "uredis_up (kc_up cf) view" and "coop cf olog" and "node_ok cf nview es"
    and "log_ok (kc_codec cf) (nview (ck_node st)) es"
    and "ck_q view st = \<lparr>q_pending = [x, y], q_uploading = {}, q_done = D, q_bundled = []\<rparr>"
    and "x \<notin> D" and "y \<notin> D" and "y \<in> set (entry_ids es)" and "x \<notin> item_Id ` log_items es"
    and "olog (ck_op st) = []"
  shows "x \<in> q_done (ck_q view (check cf (check cf st))) \<and> \<not> on_chain (olog (ck_op (check cf (check cf st)))) x"
proof -
  define q where "q = ck_q view st"
  have qf: "q_pending q = [x, y]" "q_uploading q = {}" "q_done q = D" "q_bundled q = []"
    using assms(5) by (simp_all add: q_def)
  have a1: "ask cf (ck_op st) (q_bundled q) = (ck_op st, True)" "uq_confirm True q = Some q"
    using qf by (simp_all add: ask_def uq_confirm_def)
  have m1: "uq_move q = q\<lparr>q_pending := [], q_uploading := {x, y}\<rparr>"
    using uq_move_start [of q] qf by simp
  obtain fs z where f1: "set fs = {x, y}" "bundle_step cf (ck_node st) (ck_op st) fs = (ck_node (check cf st), ck_op (check cf st), z)"
      "ck_q view (check cf st) = uq_sent z (q\<lparr>q_pending := [], q_uploading := {x, y}\<rparr>)"
    using check_up [OF assms(1), of st] a1 m1 qf(3) assms(6,7) unfolding q_def [symmetric] by auto
  note b1 = bundle_step_coop [OF assms(2,3,4) f1(2)]
  obtain b where z: "z = Some b" "b \<noteq> []" using b1(3) [of y] f1(1) assms(8) by (cases z) auto
  define q1 where "q1 = ck_q view (check cf st)"
  have q1: "q_pending q1 = []" "q_uploading q1 = {x, y}" "q_done q1 = D" "q_bundled q1 = b"
    using f1(3) z qf by (simp_all add: q1_def uq_sent_def)
  obtain opst ok where a2: "ask cf (ck_op (check cf st)) (q_bundled q1) = (opst, ok)" by fastforce
  have ok: "ok" "olog opst = olog (ck_op (check cf st))"
    using ask_coop [OF assms(2), of "ck_op (check cf st)" "q_bundled q1"] a2 by simp_all
  have e: "uq_confirm ok q1 = Some (ended q1)" using ok q1 z by (simp add: uq_confirm_def)
  have m2: "uq_move (ended q1) = ended q1" by (simp add: uq_move_def ended_def q1)
  obtain gs w where f2: "set gs = {}"
      "bundle_step cf (ck_node (check cf st)) opst gs = (ck_node (check cf (check cf st)), ck_op (check cf (check cf st)), w)"
      "ck_q view (check cf (check cf st)) = uq_sent w (ended q1)"
    using check_up [OF assms(1), of "check cf st"] a2 e m2 unfolding q1_def [symmetric]
    by (auto simp: ended_def)
  then have "w = None" "ck_op (check cf (check cf st)) = opst" by (simp_all add: bundle_step_def)
  then have "x \<in> q_done (ck_q view (check cf (check cf st)))" using f2(3) by (simp add: ended_def q1)
  moreover have "\<not> on_chain (olog (ck_op (check cf st))) x"
    using b1(2) assms(9,10) by (fastforce simp: on_chain_def)
  ultimately show ?thesis using ok(2) \<open>ck_op (check cf (check cf st)) = opst\<close> by simp
qed

end
