(* ===== verification/Backup.thy ===== *)
theory Backup
  imports UploadLive NodeRestart
begin

text \<open>
  The backup of a node (chainkit/backup.go): the ids of all messages of all processes are queued for the
  upload, one backup at a time. With the upload job of \<open>Upload\<close> this brings the whole log to the chain.
\<close>

subsection \<open>The backup of all processes (backup.go)\<close>

text \<open>The first process that fails ends the backup; errors are logged only.\<close>

fun backup_procs ::
  "('u, 'r, 'o) ck_cfg \<Rightarrow> ('u, 'r, 'o) ck_state \<Rightarrow> (string \<times> int64) list \<Rightarrow> ('u, 'r, 'o) ck_state \<times> string option" where
  "backup_procs cf st [] = (st, None)"
| "backup_procs cf st ((pid, maxNonce) # ps) =
     (case backupProcess cf st pid maxNonce of
        (st1, Some e) \<Rightarrow> (st1, Some e)
      | (st1, None) \<Rightarrow> backup_procs cf st1 ps)"

definition backup_all ::
  "('u, 'r, 'o) ck_cfg \<Rightarrow> 'r scanner \<Rightarrow> ('u, 'r, 'o) ck_state \<Rightarrow> (('u, 'r, 'o) ck_state \<times> sys_err option) option" where
  "backup_all cf scan st =
     (case GetAllProcess (kc_redis cf) scan (ck_node st) of
        None \<Rightarrow> None
      | Some (r, Inl e) \<Rightarrow> Some (st\<lparr>ck_node := r\<rparr>, Some e)
      | Some (r, Inr ps) \<Rightarrow>
          (case backup_procs cf (st\<lparr>ck_node := r\<rparr>) ps of (st', e) \<Rightarrow> Some (st', map_option OtherErr e)))"

text \<open>The flag that keeps a second backup from starting: the call answers at once, the goroutine resets the
  flag when it ends.\<close>

definition backup_begin :: "bool \<Rightarrow> bool \<times> sys_err option" where
  "backup_begin running = (if running then (running, Some (OtherErr ''backup is running'')) else (True, None))"

subsection \<open>What a backup queues\<close>

lemma ck_Upload_up:
  assumes "uredis_up (kc_up cf) view" "item_Id tx \<noteq> []"
  shows "\<exists>st'. ck_Upload cf st tx = (st', None) \<and> ck_node st' = ck_node st \<and> ck_op st' = ck_op st \<and>
    ck_q view st' = (ck_q view st)\<lparr>q_pending := q_pending (ck_q view st) @
      (if item_Id tx \<in> q_done (ck_q view st) then [] else [item_Id tx])\<rparr>"
proof -
  obtain u where u: "ur_sismember (kc_up cf) (ck_up st) RdbUploadedTxIds (item_Id tx) =
      (u, Reply (item_Id tx \<in> us_set (view (ck_up st)) RdbUploadedTxIds))" "view u = view (ck_up st)"
    using uredis_up_D(6) [OF assms(1)] by blast
  obtain u' where u': "ur_exec (kc_up cf) u [URPush RdbPendingTxIds (item_Id tx)] = (u', None)"
    "view u' = us_cmd (view u) (URPush RdbPendingTxIds (item_Id tx))"
    using uredis_up_D(9) [OF assms(1), of u "[URPush RdbPendingTxIds (item_Id tx)]"] by auto
  show ?thesis using assms(2) u u'
    by (simp add: ck_Upload_def IsUploaded_def AddPending_def uq_of_def)
qed

text \<open>The ids among those of a list that a backup queues.\<close>

definition queued :: "uq \<Rightarrow> string list \<Rightarrow> uq" where
  "queued q ts = q\<lparr>q_pending := q_pending q @ filter (\<lambda>t. t \<notin> q_done q) ts\<rparr>"

lemma queued_append: "queued (queued q ts) us = queued q (ts @ us)"
  by (simp add: queued_def)

lemma queued_Nil [simp]: "queued q [] = q"
  by (simp add: queued_def)

text \<open>A database with the log \<open>es\<close>, and nothing but the queue changed.\<close>

definition backed_up ::
  "('u \<Rightarrow> uks) \<Rightarrow> ('r \<Rightarrow> keyspace) \<Rightarrow> ('u, 'r, 'o) ck_state \<Rightarrow> string list \<Rightarrow> ('u, 'r, 'o) ck_state \<Rightarrow> bool" where
  "backed_up view nview st ts st' \<longleftrightarrow>
     nview (ck_node st') = nview (ck_node st) \<and> ck_op st' = ck_op st \<and> ck_q view st' = queued (ck_q view st) ts"

lemma backed_up_trans:
  "backed_up view nview st ts st1 \<Longrightarrow> backed_up view nview st1 us st2 \<Longrightarrow> backed_up view nview st (ts @ us) st2"
  by (simp add: backed_up_def queued_append)

lemma backup_nonces_up:
  assumes up: "uredis_up (kc_up cf) view" and ok: "node_ok cf nview es"
    and ids: "\<forall>x \<in> set (items_of es pid). item_Id x \<noteq> []"
  shows "log_ok (kc_codec cf) (nview (ck_node st)) es \<Longrightarrow> \<forall>j \<in> set js. j < length (items_of es pid) \<Longrightarrow>
    \<exists>st'. backup_nonces cf pid st (map of_nat js) = (st', None) \<and>
      backed_up view nview st (map (\<lambda>j. item_Id (items_of es pid ! j)) js) st'"
proof (induction js arbitrary: st)
  case Nil
  then show ?case by (simp add: backed_up_def)
next
  case (Cons j js)
  have rd: "redis_ok (kc_redis cf) nview" "redis_up (kc_redis cf)" "codec_ok (kc_codec cf)"
    and j: "j < length (items_of es pid)" "j < 2 ^ 63"
    using ok Cons.prems(2) length_items_of [of es pid] by (simp_all add: node_ok_def)
  have l: "ks_list (nview (ck_node st)) (RdbProcessMsgsPrefix @ pid) = map (enc_item (kc_codec cf)) (items_of es pid)"
    using Cons.prems(1) by (simp add: log_ok_def)
  obtain r where r: "GetMessageByNonce (kc_redis cf) (kc_codec cf) (ck_node st) pid (of_nat j) = (r, Inr (Some (items_of es pid ! j)))"
    "nview r = nview (ck_node st)"
    using list_item_log [OF rd l j(2)] j(1) unfolding GetMessageByNonce_def
    by (cases "list_item (kc_redis cf) (kc_codec cf) (ck_node st) (RdbProcessMsgsPrefix @ pid) (of_nat j)") auto
  have "item_Id (items_of es pid ! j) \<noteq> []" using ids j(1) by simp
  from ck_Upload_up [OF up this, of "st\<lparr>ck_node := r\<rparr>"] obtain st1 where
    s: "ck_Upload cf (st\<lparr>ck_node := r\<rparr>) (items_of es pid ! j) = (st1, None)" "ck_node st1 = r" "ck_op st1 = ck_op st"
      "ck_q view st1 = queued (ck_q view st) [item_Id (items_of es pid ! j)]"
    by (auto simp: queued_def)
  then have b: "backed_up view nview st [item_Id (items_of es pid ! j)] st1" using r(2) by (simp add: backed_up_def)
  have "log_ok (kc_codec cf) (nview (ck_node st1)) es" using Cons.prems(1) s(2) r(2) by simp
  from Cons.IH [OF this] Cons.prems(2) obtain st' where
    "backup_nonces cf pid st1 (map of_nat js) = (st', None)"
    "backed_up view nview st1 (map (\<lambda>j. item_Id (items_of es pid ! j)) js) st'" by auto
  with r(1) s(1) backed_up_trans [OF b] show ?case by simp
qed

lemma backupProcess_up:
  assumes "uredis_up (kc_up cf) view" "node_ok cf nview es" "\<forall>x \<in> set (items_of es pid). item_Id x \<noteq> []"
    and "log_ok (kc_codec cf) (nview (ck_node st)) es" "items_of es pid \<noteq> []"
  shows "\<exists>st'. backupProcess cf st pid (of_nat (length (items_of es pid)) - 1) = (st', None) \<and>
    backed_up view nview st (map item_Id (items_of es pid)) st'"
proof -
  let ?n = "length (items_of es pid)"
  have n: "0 < ?n" "?n < 2 ^ 63" using assms(2,5) length_items_of [of es pid] by (auto simp: node_ok_def)
  then have "(of_nat ?n - 1 :: int64) = of_nat (?n - 1)" by (cases ?n) simp_all
  moreover have "sint (of_nat (?n - 1) :: int64) = int (?n - 1)"
    using n(2) by (intro sint_small) simp
  ultimately have "nat (sint (of_nat ?n - 1 :: int64) + 1) = ?n" using n(1) by simp
  moreover have "map (\<lambda>j. item_Id (items_of es pid ! j)) [0..<?n] = map item_Id (items_of es pid)"
    by (rule nth_equalityI) simp_all
  ultimately show ?thesis
    using backup_nonces_up [OF assms(1-4), of "[0..<?n]"] by (simp add: backupProcess_def)
qed

lemma backup_procs_up:
  assumes "uredis_up (kc_up cf) view" "node_ok cf nview es" "[] \<notin> set (entry_ids es)"
  shows "log_ok (kc_codec cf) (nview (ck_node st)) es \<Longrightarrow>
    \<forall>(p, n) \<in> set ps. items_of es p \<noteq> [] \<and> n = of_nat (length (items_of es p)) - 1 \<Longrightarrow>
    \<exists>st'. backup_procs cf st ps = (st', None) \<and>
      backed_up view nview st (concat (map (\<lambda>(p, _). map item_Id (items_of es p)) ps)) st'"
proof (induction ps arbitrary: st)
  case Nil
  then show ?case by (simp add: backed_up_def)
next
  case (Cons x ps)
  obtain p n where x: "x = (p, n)" "items_of es p \<noteq> []" "n = of_nat (length (items_of es p)) - 1"
    using Cons.prems(2) by (cases x) auto
  have "\<forall>i \<in> set (items_of es p). item_Id i \<noteq> []" using assms(3) by (force simp: items_of_def)
  from backupProcess_up [OF assms(1,2) this Cons.prems(1) x(2)] obtain st1 where
    b: "backupProcess cf st p n = (st1, None)" "backed_up view nview st (map item_Id (items_of es p)) st1"
    unfolding x(3) by blast
  then have "log_ok (kc_codec cf) (nview (ck_node st1)) es" using Cons.prems(1) by (simp add: backed_up_def)
  from Cons.IH [OF this] Cons.prems(2) obtain st' where "backup_procs cf st1 ps = (st', None)"
    "backed_up view nview st1 (concat (map (\<lambda>(p, _). map item_Id (items_of es p)) ps)) st'" by auto
  with b(1) backed_up_trans [OF b(2)] x(1) show ?case by simp
qed

subsection \<open>A backup brings the log to the chain\<close>

lemma ids_of_process: "map item_Id (items_of es p) = map (\<lambda>e. item_Id (fst (snd e))) (filter (\<lambda>e. fst e = p) es)"
  by (simp add: items_of_def)

lemma same_id_same_entry:
  "distinct (entry_ids es) \<Longrightarrow> e \<in> set es \<Longrightarrow> e' \<in> set es \<Longrightarrow>
     item_Id (fst (snd e)) = item_Id (fst (snd e')) \<Longrightarrow> e = e'"
  by (auto simp: distinct_map inj_on_def)

lemma backup_ids:
  assumes "distinct (entry_ids es)" and "distinct (map fst ps)"
    and "set ps = {(p, n). items_of es p \<noteq> [] \<and> n = of_nat (length (items_of es p)) - 1}"
  defines "ts \<equiv> concat (map (\<lambda>(p, _ :: int64). map item_Id (items_of es p)) ps)"
  shows "distinct ts" and "set ts = set (entry_ids es)"
proof -
  let ?ids = "\<lambda>p. map item_Id (items_of es p)"
  have d: "distinct (?ids p)" for p
    unfolding ids_of_process using assms(1) by (auto simp: distinct_map inj_on_def)
  have disj: "set (?ids p) \<inter> set (?ids q) = {}" if "p \<noteq> q" for p q
  proof (rule ccontr)
    assume "set (?ids p) \<inter> set (?ids q) \<noteq> {}"
    then obtain t where "t \<in> set (?ids p)" "t \<in> set (?ids q)" by blast
    then obtain e e' where "e \<in> set es" "fst e = p" "e' \<in> set es" "fst e' = q"
      "item_Id (fst (snd e)) = item_Id (fst (snd e'))" unfolding ids_of_process by auto
    with same_id_same_entry [OF assms(1)] that show False by blast
  qed
  have "distinct (concat (map (\<lambda>(p, _ :: int64). ?ids p) qs))" if "distinct (map fst qs)" for qs
    using that
  proof (induction qs)
    case (Cons q qs)
    obtain p n where q: "q = (p, n)" by (cases q)
    have "set (?ids p) \<inter> set (?ids p') = {}" if "(p', n') \<in> set qs" for p' n'
      using Cons.prems that by (intro disj) (force simp: q)
    then have "set (?ids p) \<inter> set (concat (map (\<lambda>(p, _ :: int64). ?ids p) qs)) = {}" by fastforce
    with Cons d [of p] show ?case by (simp add: q)
  qed simp
  with assms(2) show "distinct ts" by (simp add: ts_def)
  show "set ts = set (entry_ids es)"
  proof
    show "set ts \<subseteq> set (entry_ids es)" by (auto simp: ts_def items_of_def)
    show "set (entry_ids es) \<subseteq> set ts"
    proof
      fix t
      assume "t \<in> set (entry_ids es)"
      then obtain e where e: "e \<in> set es" "item_Id (fst (snd e)) = t" by auto
      then have i: "fst (snd e) \<in> set (items_of es (fst e))" by (auto simp: items_of_def)
      then have "(fst e, of_nat (length (items_of es (fst e))) - 1) \<in> set ps" using assms(3) by auto
      with i e(2) show "t \<in> set ts" by (force simp: ts_def)
    qed
  qed
qed

text \<open>A backup brings the whole log to the chain. Let Redis answer, the bundle key not expire and the scan return
  no key twice. A backup that starts with an empty queue queues every message of every process that was not
  uploaded before; once one check more than there are batches of 100000 has found the chain working, the queue is
  empty, every message is declared uploaded, and every one that was not uploaded before is in a bundle on the chain.\<close>

lemma backup_uploads_log:
  assumes "uredis_up (kc_up cf) view" "serves cf (log_items es) olog works" "node_ok cf nview es"
    and "log_ok (kc_codec cf) (nview (ck_node st)) es" "distinct (entry_ids es)" "[] \<notin> set (entry_ids es)"
    and "scan_ok scan nview (nview (ck_node st)) RdbProcessNoncePrefix" "scan_up scan nview (nview (ck_node st)) RdbProcessNoncePrefix"
    and "\<forall>r ps. GetAllProcess (kc_redis cf) scan (ck_node st) = Some (r, Inr ps) \<longrightarrow> distinct (map fst ps)"
    and "ck_q view st = \<lparr>q_pending = [], q_uploading = {}, q_done = D, q_bundled = []\<rparr>" and "length es \<le> n * 100000"
  shows "\<exists>st1. backup_all cf scan st = Some (st1, None) \<and> ck_op st1 = ck_op st \<and> q_bundled (ck_q view st1) = [] \<and>
    (\<forall>N. Suc n \<le> working_checks cf works st1 N \<longrightarrow>
      (let st' = (check cf ^^ N) st1 in
         q_pending (ck_q view st') = [] \<and> q_uploading (ck_q view st') = {} \<and>
         q_done (ck_q view st') = D \<union> set (entry_ids es) \<and>
         (\<forall>t \<in> set (entry_ids es) - D. on_chain (bundles olog (ck_op st')) t)))"
proof -
  have rd: "redis_ok (kc_redis cf) nview" "redis_up (kc_redis cf)" using assms(3) by (auto simp: node_ok_def)
  from GetAllProcess_lists [OF rd assms(7,4)] assms(8) obtain r ps where
    g: "GetAllProcess (kc_redis cf) scan (ck_node st) = Some (r, Inr ps)" "nview r = nview (ck_node st)"
      "set ps = {(pid, n). items_of es pid \<noteq> [] \<and> n = of_nat (length (items_of es pid)) - 1}"
    by (metis (no_types, lifting) is_err.simps(1) sum.exhaust_sel sum.collapse(2))
  define ts where "ts = concat (map (\<lambda>(p, _). map item_Id (items_of es p)) ps)"
  have ts: "distinct ts" "set ts = set (entry_ids es)"
    using backup_ids [OF assms(5) _ g(3)] assms(9) g(1) by (auto simp: ts_def)
  have "log_ok (kc_codec cf) (nview (ck_node (st\<lparr>ck_node := r\<rparr>))) es" using assms(4) g(2) by simp
  from backup_procs_up [OF assms(1,3,6) this, of ps] g(3) obtain st1 where
    b: "backup_procs cf (st\<lparr>ck_node := r\<rparr>) ps = (st1, None)" "backed_up view nview (st\<lparr>ck_node := r\<rparr>) ts st1"
    unfolding ts_def by auto
  define P where "P = filter (\<lambda>t. t \<notin> D) ts"
  have q: "ck_q view st1 = \<lparr>q_pending = P, q_uploading = {}, q_done = D, q_bundled = []\<rparr>"
    "log_ok (kc_codec cf) (nview (ck_node st1)) es"
    using b(2) assms(4,10) g(2) by (simp_all add: backed_up_def queued_def P_def)
  have "length ts = length (entry_ids es)" using distinct_card [OF ts(1)] distinct_card [OF assms(5)] ts(2) by simp
  then have len: "length P \<le> n * batch"
    using length_filter_le [of "\<lambda>t. t \<notin> D" ts] assms(11) unfolding P_def by simp
  have P: "distinct P" "set P \<inter> D = {}" "set P \<subseteq> set (entry_ids es)" using ts by (auto simp: P_def)
  have "set P = set (entry_ids es) - D" "D \<union> set P = D \<union> set (entry_ids es)" by (auto simp: P_def ts(2))
  with pending_uploaded [OF assms(1-3) q(2,1) P len] have
    "\<forall>N. Suc n \<le> working_checks cf works st1 N \<longrightarrow>
      (let st' = (check cf ^^ N) st1 in
         q_pending (ck_q view st') = [] \<and> q_uploading (ck_q view st') = {} \<and>
         q_done (ck_q view st') = D \<union> set (entry_ids es) \<and>
         (\<forall>t \<in> set (entry_ids es) - D. on_chain (bundles olog (ck_op st')) t))" by simp
  moreover have "backup_all cf scan st = Some (st1, None)" using g(1) b(1) by (simp add: backup_all_def)
  moreover have "ck_op st1 = ck_op st" using b(2) by (simp add: backed_up_def)
  ultimately show ?thesis using q(1) by auto
qed

end
