(* ===== verification/OptGoar.thy ===== *)
theory OptGoar
  imports Backup ChainDownload "HOL-Library.Multiset"
begin

text \<open>
  The operator of the chain that the program ships (chainkit/optgoar): bundles are made and sent, items are
  fetched from the bundles they are in, and a bundle counts as uploaded when it is confirmed and its data
  decode. The goar library and the JSON text are parameters; \<open>'o\<close> is the state of the chain and the gateway.
\<close>

subsection \<open>The library\<close>

record 'o goar =
  ga_GenerateItemBinary :: "bundle_item \<Rightarrow> string + string"
  ga_NewBundle :: "(bundle_item \<times> string) list \<Rightarrow> string + string"
  ga_SendBundleTx :: "'o \<Rightarrow> string \<Rightarrow> tag list \<Rightarrow> 'o \<times> (string + string)"
  ga_GetBundleItems :: "'o \<Rightarrow> string \<Rightarrow> string list \<Rightarrow> 'o \<times> (string + bundle_item list)"
  ga_GraphQL :: "'o \<Rightarrow> string \<Rightarrow> 'o \<times> (string + string)"
  ga_GetTransactionStatus :: "'o \<Rightarrow> string \<Rightarrow> 'o \<times> (string + int)"
  ga_GetTransactionData :: "'o \<Rightarrow> string \<Rightarrow> string \<Rightarrow> 'o \<times> (string + string)"
  ga_DecodeBundle :: "string \<Rightarrow> string option"
  ga_BundledInResponse :: "string \<Rightarrow> string + string"

subsection \<open>Uploading (optgoar.go)\<close>

text \<open>An item with its binary, which may be missing. The error of the library is not in the text: the format
  prints another variable, which is nil.\<close>

fun gen_binaries :: "'o goar \<Rightarrow> (bundle_item \<times> string) list \<Rightarrow> string + (bundle_item \<times> string) list" where
  "gen_binaries ga [] = Inr []"
| "gen_binaries ga ((i, b) # items) =
     (case (if b = [] then ga_GenerateItemBinary ga i else Inr b) of
        Inl _ \<Rightarrow> Inl (''failed to generate item binary, bundleId: '' @ item_Id i @ '', err: %!w(<nil>)'')
      | Inr b' \<Rightarrow> (case gen_binaries ga items of Inl e \<Rightarrow> Inl e | Inr rest \<Rightarrow> Inr ((i, b') # rest)))"

definition NodeVersion :: string where "NodeVersion = ''v0.7.1''"

definition upload_tags :: "tag list" where
  "upload_tags = [Tag ''App-Name'' DataProtocol, Tag ''NodeVersion'' NodeVersion, Tag ''Variant'' Variant,
     Tag ''Action'' ''Upload'']"

definition OptGoar_Upload :: "'o goar \<Rightarrow> 'o \<Rightarrow> (bundle_item \<times> string) list \<Rightarrow> 'o \<times> (string + string)" where
  "OptGoar_Upload ga s items =
     (if items = [] then (s, Inl ''items is empty'')
      else case gen_binaries ga items of
        Inl e \<Rightarrow> (s, Inl e)
      | Inr items' \<Rightarrow>
          (case ga_NewBundle ga items' of
             Inl e \<Rightarrow> (s, Inl e)
           | Inr bundle \<Rightarrow> ga_SendBundleTx ga s bundle upload_tags))"

subsection \<open>Fetching (graphql.go, utils.go)\<close>

definition tabs :: "nat \<Rightarrow> string" where "tabs n = replicate n (CHR 0x09)"

definition BundledInQuery :: "string \<Rightarrow> string" where
  "BundledInQuery txid =
     ''{'' @ nl @ tabs 2 @ ''transaction(id: '' @ quoted txid @ '') {'' @ nl @ tabs 3 @ ''bundledIn {'' @ nl @
     tabs 4 @ ''id'' @ nl @ tabs 3 @ ''}'' @ nl @ tabs 2 @ ''}'' @ nl @ tabs 1 @ ''}''"

definition parseBundledInID :: "'o goar \<Rightarrow> string \<Rightarrow> string + string" where
  "parseBundledInID ga json =
     (case ga_BundledInResponse ga json of
        Inl e \<Rightarrow> Inl (''failed to parse JSON: '' @ e)
      | Inr i \<Rightarrow> if i = [] then Inl ''bundledIn.id not found or empty'' else Inr i)"

definition GetBundledInId :: "'o goar \<Rightarrow> 'o \<Rightarrow> string \<Rightarrow> 'o \<times> (string + string)" where
  "GetBundledInId ga s txid =
     (case ga_GraphQL ga s (BundledInQuery txid) of
        (s1, Inl e) \<Rightarrow> (s1, Inl e)
      | (s1, Inr result) \<Rightarrow>
          (s1, case parseBundledInID ga result of
             Inl e \<Rightarrow> Inl (''failed to parse parent txid: '' @ e) | Inr i \<Rightarrow> Inr i))"

definition OptGoar_Download :: "'o goar \<Rightarrow> 'o \<Rightarrow> string \<Rightarrow> 'o \<times> (string + bundle_item)" where
  "OptGoar_Download ga s itemID =
     (case GetBundledInId ga s itemID of
        (s1, Inl e) \<Rightarrow> (s1, Inl e)
      | (s1, Inr parentTxID) \<Rightarrow>
          (case ga_GetBundleItems ga s1 parentTxID [itemID] of
             (s2, Inl e) \<Rightarrow> (s2, Inl e)
           | (s2, Inr items) \<Rightarrow> (s2, case items of [] \<Rightarrow> Inl ''download failed'' | i # _ \<Rightarrow> Inr i)))"

text \<open>The ids by the bundle they are in, and the bundles in the order \<open>order\<close> in which \<open>range\<close> visits the
  map.\<close>

fun group_parents ::
  "'o goar \<Rightarrow> 'o \<Rightarrow> string list \<Rightarrow> (string, string list) gomap \<Rightarrow> 'o \<times> (string + (string, string list) gomap)" where
  "group_parents ga s [] parents = (s, Inr parents)"
| "group_parents ga s (itemID # ids) parents =
     (case GetBundledInId ga s itemID of
        (s1, Inl e) \<Rightarrow> (s1, Inl (''failed to get parent txid for item '' @ itemID @ '': '' @ e))
      | (s1, Inr p) \<Rightarrow> group_parents ga s1 ids (mput p (mget_or [] parents p @ [itemID]) parents))"

fun fetch_groups ::
  "'o goar \<Rightarrow> 'o \<Rightarrow> (string, string list) gomap \<Rightarrow> bundle_item list \<Rightarrow> 'o \<times> (string + bundle_item list)" where
  "fetch_groups ga s [] acc = (s, Inr acc)"
| "fetch_groups ga s ((p, ids) # groups) acc =
     (case ga_GetBundleItems ga s p ids of
        (s1, Inl e) \<Rightarrow> (s1, Inl (''failed to get bundle items for parent '' @ p @ '': '' @ e))
      | (s1, Inr items) \<Rightarrow> fetch_groups ga s1 groups (acc @ items))"

definition OptGoar_Downloads ::
  "'o goar \<Rightarrow> ((string, string list) gomap \<Rightarrow> (string, string list) gomap) \<Rightarrow> 'o \<Rightarrow> string list \<Rightarrow>
     'o \<times> (string + bundle_item list)" where
  "OptGoar_Downloads ga order s ids =
     (if ids = [] then (s, Inr [])
      else case group_parents ga s ids [] of
        (s1, Inl e) \<Rightarrow> (s1, Inl e)
      | (s1, Inr parents) \<Rightarrow> fetch_groups ga s1 (order parents) [])"

subsection \<open>Confirmation (utils.go)\<close>

definition CheckTransaction :: "'o goar \<Rightarrow> 'o \<Rightarrow> string \<Rightarrow> 'o \<times> (string + bool)" where
  "CheckTransaction ga s txid =
     (case ga_GetTransactionStatus ga s txid of
        (s1, Inl e) \<Rightarrow> (s1, Inl e)
      | (s1, Inr confirmations) \<Rightarrow>
          if confirmations \<le> 1 then (s1, Inr False)
          else case ga_GetTransactionData ga s1 txid ''json'' of
            (s2, Inl e) \<Rightarrow> (s2, Inl e)
          | (s2, Inr itemBytes) \<Rightarrow>
              (s2, case ga_DecodeBundle ga itemBytes of Some e \<Rightarrow> Inl e | None \<Rightarrow> Inr True))"

text \<open>The operator as the upload job and the downloads see it.\<close>

definition with_goar :: "'o goar \<Rightarrow> ('u, 'r, 'o) ck_cfg \<Rightarrow> ('u, 'r, 'o) ck_cfg" where
  "with_goar ga cf = cf\<lparr>kc_op_upload := OptGoar_Upload ga, kc_op_check := CheckTransaction ga,
     kc_op_download := OptGoar_Download ga, kc_graphql := ga_GraphQL ga\<rparr>"

subsection \<open>Uploading with a chain that takes bundles\<close>

text \<open>What is relied on about the library and the chain, for the items \<open>L\<close> of a log: \<open>read\<close> are the items of a
  bundle's bytes, \<open>olog\<close> the bundles on the chain with their ids, and \<open>works s\<close> says that the gateway answers in
  state \<open>s\<close> and every bundle sent so far has more than one confirmation. A bundle can be made of binaries that are
  not empty. While the chain works, a bundle that is sent is taken, and the status and the data of a bundle are
  served. Otherwise a send may fail, with or without the bundle getting through, and status and data may be any
  answer or none. Questions change nothing.\<close>

definition goar_chain ::
  "'o goar \<Rightarrow> bundle_item set \<Rightarrow> (string \<Rightarrow> bundle_item list) \<Rightarrow> ('o \<Rightarrow> (string \<times> bundle_item list) list) \<Rightarrow> ('o \<Rightarrow> bool) \<Rightarrow> bool"
where
  "goar_chain ga L read olog works \<longleftrightarrow>
     (\<forall>items. items \<noteq> [] \<and> fst ` set items \<subseteq> L \<and> [] \<notin> snd ` set items \<longrightarrow>
        (\<exists>b. ga_NewBundle ga items = Inr b \<and> read b = map fst items)) \<and>
     (\<forall>s b ts. case ga_SendBundleTx ga s b ts of
        (s', Inr tx) \<Rightarrow> tx \<noteq> [] \<and> olog s' = olog s @ [(tx, read b)]
      | (s', Inl _) \<Rightarrow> \<not> works s \<and> (olog s' = olog s \<or> (\<exists>tx. olog s' = olog s @ [(tx, read b)]))) \<and>
     (\<forall>s tx. tx \<in> fst ` set (olog s) \<longrightarrow> (case ga_GetTransactionStatus ga s tx of
        (s', r) \<Rightarrow> olog s' = olog s \<and> (works s \<longrightarrow> works s' \<and> (\<exists>k > 1. r = Inr k)))) \<and>
     (\<forall>s tx t. tx \<in> fst ` set (olog s) \<longrightarrow> (case ga_GetTransactionData ga s tx t of
        (s', r) \<Rightarrow> olog s' = olog s \<and> (works s \<longrightarrow> works s' \<and> (\<exists>d. r = Inr d \<and> ga_DecodeBundle ga d = None))))"

text \<open>Every item of the log has a binary form: it came to the node or was signed by it in this form.\<close>

definition encodable :: "('u, 'r, 'o) ck_cfg \<Rightarrow> bundle_item set \<Rightarrow> bool" where
  "encodable cf L \<longleftrightarrow> (\<forall>i \<in> L. \<exists>b. kc_binary cf i = Some b \<and> b \<noteq> [])"

lemma gen_binaries_given: "[] \<notin> snd ` set items \<Longrightarrow> gen_binaries ga items = Inr items"
  by (induction items) auto

lemma goar_upload:
  assumes g: "goar_chain ga L read olog works" and e: "encodable cf L"
    and i: "items \<noteq> []" "fst ` set items \<subseteq> L" "\<forall>(i, b) \<in> set items. kc_binary cf i = Some b"
  shows "case OptGoar_Upload ga s items of
      (s', Inr b) \<Rightarrow> b \<noteq> [] \<and> olog s' = olog s @ [(b, map fst items)]
    | (s', Inl _) \<Rightarrow> \<not> works s \<and> (olog s' = olog s \<or> (\<exists>b. olog s' = olog s @ [(b, map fst items)]))"
proof -
  have b: "[] \<notin> snd ` set items" using e i(2,3) unfolding encodable_def by fastforce
  obtain c where c: "ga_NewBundle ga items = Inr c" "read c = map fst items"
    using g [unfolded goar_chain_def, THEN conjunct1, rule_format, of items] i(1,2) b by blast
  have "OptGoar_Upload ga s items = ga_SendBundleTx ga s c upload_tags"
    using i(1) c(1) by (simp add: OptGoar_Upload_def gen_binaries_given [OF b])
  with g [unfolded goar_chain_def, THEN conjunct2, THEN conjunct1, rule_format, of s c upload_tags] c(2) show ?thesis by simp
qed

lemma goar_check:
  assumes g: "goar_chain ga L read olog works" and b: "b \<in> fst ` set (olog s)"
  shows "case CheckTransaction ga s b of (s', r) \<Rightarrow> olog s' = olog s \<and> (works s \<longrightarrow> r = Inr True \<and> works s')"
proof -
  obtain s1 r1 where 1: "ga_GetTransactionStatus ga s b = (s1, r1)" by fastforce
  have S: "olog s1 = olog s" "works s \<Longrightarrow> works s1 \<and> (\<exists>k > 1. r1 = Inr k)"
    using g [unfolded goar_chain_def, THEN conjunct2, THEN conjunct2, THEN conjunct1, rule_format, OF b] 1 by auto
  obtain s2 r2 where 2: "ga_GetTransactionData ga s1 b ''json'' = (s2, r2)" by fastforce
  have D: "olog s2 = olog s1" "works s1 \<Longrightarrow> works s2 \<and> (\<exists>d. r2 = Inr d \<and> ga_DecodeBundle ga d = None)"
    using g [unfolded goar_chain_def, THEN conjunct2, THEN conjunct2, THEN conjunct2, rule_format, of b s1 "''json''"] 2 b S(1) by auto
  show ?thesis
    using S D by (auto simp: CheckTransaction_def 1 2 split: sum.splits option.splits)
qed

lemma goar_serves_log:
  assumes "goar_chain ga L read olog works" "encodable cf L"
  shows "serves (with_goar ga cf) L olog works"
proof -
  have bin: "\<forall>i \<in> L. kc_binary cf i \<noteq> None" using assms(2) unfolding encodable_def by blast
  have eq: "kc_op_upload (with_goar ga cf) = OptGoar_Upload ga" "kc_op_check (with_goar ga cf) = CheckTransaction ga"
    "kc_binary (with_goar ga cf) = kc_binary cf" by (simp_all add: with_goar_def)
  show ?thesis
    unfolding serves_def eq
  proof (intro conjI allI impI, goal_cases)
    case (1 s items)
    then show ?case by (elim conjE) (rule goar_upload [OF assms])
  next
    case (2 s b)
    then show ?case by (rule goar_check [OF assms(1)])
  qed (rule bin)
qed

lemma with_goar_simps [simp]:
  "kc_up (with_goar ga cf) = kc_up cf" "kc_redis (with_goar ga cf) = kc_redis cf" "kc_codec (with_goar ga cf) = kc_codec cf"
  "kc_binary (with_goar ga cf) = kc_binary cf" "node_ok (with_goar ga cf) = node_ok cf"
  by (simp_all add: with_goar_def node_ok_def fun_eq_iff)

text \<open>C35: a backup brings the whole log to the chain, over outages of the chain. Let a backup start while the
  upload queue is empty, over a log whose messages have different ids and all have a binary form, with a scan
  that returns no key twice, and let Redis answer and keep the bundle key. It then queues every message of every
  process that was not uploaded before. The upload job runs any number of checks, at each of which the chain may
  refuse a bundle, lose an answer, or have no second confirmation yet. Once one check more than there are batches
  of 100000 has found the chain working, the queue is empty, every message of the log is declared uploaded, and
  every one that was not uploaded before is in a bundle on the chain. (A backup that starts while ids are still
  queued can block the queue instead: \<open>upload_queue_stalls\<close>.)\<close>

theorem backup_reaches_chain:
  assumes "uredis_up (kc_up cf) view" "goar_chain ga (log_items es) read olog works" "encodable cf (log_items es)"
    and "node_ok cf nview es"
    and "log_ok (kc_codec cf) (nview (ck_node st)) es" "distinct (entry_ids es)" "[] \<notin> set (entry_ids es)"
    and "scan_ok scan nview (nview (ck_node st)) RdbProcessNoncePrefix" "scan_up scan nview (nview (ck_node st)) RdbProcessNoncePrefix"
    and "\<forall>r ps. GetAllProcess (kc_redis cf) scan (ck_node st) = Some (r, Inr ps) \<longrightarrow> distinct (map fst ps)"
    and "ck_q view st = \<lparr>q_pending = [], q_uploading = {}, q_done = D, q_bundled = []\<rparr>" and "length es \<le> n * 100000"
  shows "\<exists>st1. backup_all (with_goar ga cf) scan st = Some (st1, None) \<and>
    ck_op st1 = ck_op st \<and> q_bundled (ck_q view st1) = [] \<and>
    (\<forall>N. Suc n \<le> working_checks (with_goar ga cf) works st1 N \<longrightarrow>
      (let st' = (check (with_goar ga cf) ^^ N) st1 in
         q_pending (ck_q view st') = [] \<and> q_uploading (ck_q view st') = {} \<and>
         q_done (ck_q view st') = D \<union> set (entry_ids es) \<and>
         (\<forall>t \<in> set (entry_ids es) - D. on_chain (bundles olog (ck_op st')) t)))"
  by (rule backup_uploads_log [OF _ goar_serves_log [OF assms(2,3)], where view = view and nview = nview]) (use assms in simp_all)

subsection \<open>Fetching many items\<close>

text \<open>A gateway that knows the bundle \<open>parent i\<close> of every id and serves the item \<open>item i\<close> from it.\<close>

definition goar_serves :: "'o goar \<Rightarrow> (string \<Rightarrow> string) \<Rightarrow> (string \<Rightarrow> bundle_item) \<Rightarrow> bool" where
  "goar_serves ga parent item \<longleftrightarrow>
     (\<forall>s i. \<exists>s' d. ga_GraphQL ga s (BundledInQuery i) = (s', Inr d) \<and> ga_BundledInResponse ga d = Inr (parent i) \<and>
        parent i \<noteq> []) \<and>
     (\<forall>s p ids. (\<forall>i \<in> set ids. parent i = p) \<longrightarrow> (\<exists>s' xs. ga_GetBundleItems ga s p ids = (s', Inr xs) \<and> mset xs = mset (map item ids)))"

definition grouped :: "(string \<Rightarrow> string) \<Rightarrow> (string, string list) gomap \<Rightarrow> bool" where
  "grouped parent m \<longleftrightarrow> mwf m \<and> (\<forall>p ids. mget m p = Some ids \<longrightarrow> (\<forall>i \<in> set ids. parent i = p))"

lemma mset_group_add:
  "mset (concat (mvals (mput p (mget_or [] m p @ [i]) m))) = add_mset i (mset (concat (mvals m)))"
proof (induction m)
  case (Cons x m)
  then show ?case by (cases x; cases "fst x = p") (simp_all split: option.splits)
qed simp

lemma group_parents_serves:
  assumes "goar_serves ga parent item"
  shows "grouped parent m \<Longrightarrow> \<exists>s' m'. group_parents ga s ids m = (s', Inr m') \<and> grouped parent m' \<and>
    mset (concat (mvals m')) = mset (concat (mvals m)) + mset ids"
proof (induction ids arbitrary: s m)
  case (Cons i ids)
  obtain s1 d where "ga_GraphQL ga s (BundledInQuery i) = (s1, Inr d)" "ga_BundledInResponse ga d = Inr (parent i)" "parent i \<noteq> []"
    using assms unfolding goar_serves_def by metis
  then have g: "GetBundledInId ga s i = (s1, Inr (parent i))" by (simp add: GetBundledInId_def parseBundledInID_def)
  define m1 where "m1 = mput (parent i) (mget_or [] m (parent i) @ [i]) m"
  have "grouped parent m1"
    using Cons.prems unfolding grouped_def m1_def
    by (cases "mget m (parent i)") (auto simp: gomap_simps)
  from Cons.IH [OF this, of s1] obtain s' m' where "group_parents ga s1 ids m1 = (s', Inr m')" "grouped parent m'"
    "mset (concat (mvals m')) = mset (concat (mvals m1)) + mset ids" by blast
  with g Cons.prems show ?case by (simp add: m1_def mset_group_add)
qed simp

lemma fetch_groups_serves:
  assumes "goar_serves ga parent item"
  shows "\<forall>(p, ids) \<in> set groups. \<forall>i \<in> set ids. parent i = p \<Longrightarrow>
    \<exists>s' xs. fetch_groups ga s groups acc = (s', Inr xs) \<and>
      mset xs = mset acc + mset (map item (concat (mvals groups)))"
proof (induction groups arbitrary: s acc)
  case (Cons x groups)
  obtain p ids where x: "x = (p, ids)" by (cases x)
  with Cons.prems have "\<forall>i \<in> set ids. parent i = p" by auto
  then obtain s1 ys where y: "ga_GetBundleItems ga s p ids = (s1, Inr ys)" "mset ys = mset (map item ids)"
    using assms unfolding goar_serves_def by blast
  with Cons.IH [of s1 "acc @ ys"] Cons.prems x show ?case by auto
qed simp

text \<open>The items of many ids are fetched bundle by bundle: each once, whatever the order of the bundles.\<close>

lemma Downloads_complete:
  assumes "goar_serves ga parent item" and "\<And>m. mset (order m) = mset m"
  shows "\<exists>s' xs. OptGoar_Downloads ga order s ids = (s', Inr xs) \<and> mset xs = mset (map item ids)"
proof (cases "ids = []")
  case False
  have "grouped parent []" by (simp add: grouped_def)
  from group_parents_serves [OF assms(1) this, of s ids] obtain s1 m where
    m: "group_parents ga s ids [] = (s1, Inr m)" "grouped parent m" "mset (concat (mvals m)) = mset ids" by auto
  have st: "set (order m) = set m" using assms(2) by (metis set_mset_mset)
  have "parent i = p" if "(p, js) \<in> set m" "i \<in> set js" for p js i
    using m(2) that map_of_is_SomeI [of m p js] by (simp add: grouped_def mwf_def)
  then have "\<forall>(p, js) \<in> set (order m). \<forall>i \<in> set js. parent i = p" unfolding st by blast
  from fetch_groups_serves [OF assms(1) this, of s1 "[]"] obtain s' xs where
    f: "fetch_groups ga s1 (order m) [] = (s', Inr xs)" "mset xs = mset (map item (concat (mvals (order m))))" by auto
  have "mset (concat (mvals (order m))) = mset (concat (mvals m))"
    unfolding mset_concat sum_mset_sum_list [symmetric] mset_map assms(2) ..
  with f m(1,3) False show ?thesis by (simp add: OptGoar_Downloads_def)
qed (simp add: OptGoar_Downloads_def)

text \<open>One item is the one its bundle has first.\<close>

lemma Download_serves:
  assumes "goar_serves ga parent item"
  shows "\<exists>s'. OptGoar_Download ga s i = (s', Inr (item i))"
proof -
  obtain s1 d where "ga_GraphQL ga s (BundledInQuery i) = (s1, Inr d)" "ga_BundledInResponse ga d = Inr (parent i)" "parent i \<noteq> []"
    using assms unfolding goar_serves_def by metis
  then have g: "GetBundledInId ga s i = (s1, Inr (parent i))" by (simp add: GetBundledInId_def parseBundledInID_def)
  obtain s' xs where "ga_GetBundleItems ga s1 (parent i) [i] = (s', Inr xs)" "mset xs = mset (map item [i])"
    using assms unfolding goar_serves_def by (metis empty_iff list.set(1) list.set(2) insert_iff)
  moreover from this(2) have "xs = [item i]" by simp
  ultimately show ?thesis using g by (simp add: OptGoar_Download_def)
qed

end
