(* ===== verification/UploadDemo.thy ===== *)
theory UploadDemo
  imports UploadLive
begin

text \<open>
  A server, a node database and an operator that meet the hypotheses on the upload queue, and the
  properties of the queue at concrete states of them.
\<close>

subsection \<open>The server\<close>

record dks =
  d_str :: "string \<Rightarrow> (string \<times> bool) option"
  d_list :: "string \<Rightarrow> string list"
  d_set :: "string \<Rightarrow> string list"

definition d_view :: "dks \<Rightarrow> uks" where
  "d_view s = \<lparr>us_str = d_str s, us_list = d_list s, us_set = (\<lambda>k. set (d_set s k))\<rparr>"

fun d_cmd :: "dks \<Rightarrow> ucmd \<Rightarrow> dks" where
  "d_cmd s (USet k v) = s\<lparr>d_str := (d_str s)(k \<mapsto> (v, False))\<rparr>"
| "d_cmd s (USetEx k v) = s\<lparr>d_str := (d_str s)(k \<mapsto> (v, True))\<rparr>"
| "d_cmd s (URPush k v) = s\<lparr>d_list := (d_list s)(k := d_list s k @ [v])\<rparr>"
| "d_cmd s (USAdd k vs) = s\<lparr>d_set := (d_set s)(k := d_set s k @ vs)\<rparr>"
| "d_cmd s (UDel k) = s\<lparr>d_str := (d_str s)(k := None), d_list := (d_list s)(k := []), d_set := (d_set s)(k := [])\<rparr>"

definition demo_uredis :: "dks uredis" where
  "demo_uredis =
     \<lparr>ur_get = (\<lambda>s k. (s, to_reply (map_option fst (d_str s k)))),
      ur_lpop = (\<lambda>s k n. (s\<lparr>d_list := (d_list s)(k := drop (nat n) (d_list s k))\<rparr>,
         if d_list s k = [] then NilReply else Reply (take (nat n) (d_list s k)))),
      ur_llen = (\<lambda>s k. (s, Reply (int (length (d_list s k))))),
      ur_scard = (\<lambda>s k. (s, Reply (int (length (remdups (d_set s k)))))),
      ur_smembers = (\<lambda>s k. (s, Reply (remdups (d_set s k)))),
      ur_sismember = (\<lambda>s k v. (s, Reply (v \<in> set (d_set s k)))),
      ur_sismembers = (\<lambda>s k vs. (s, Reply (map (\<lambda>v. v \<in> set (d_set s k)) vs))),
      ur_exec = (\<lambda>s cs. (foldl d_cmd s cs, None))\<rparr>"

lemma d_view_cmds: "d_view (foldl d_cmd s cs) = foldl us_cmd (d_view s) cs"
proof (induction cs arbitrary: s)
  case (Cons c cs)
  have "d_view (d_cmd s c) = us_cmd (d_view s) c"
    by (cases c) (auto simp: d_view_def fun_eq_iff)
  with Cons show ?case by simp
qed simp

lemma demo_uredis_up: "uredis_up demo_uredis d_view"
  unfolding uredis_up_def
  by (intro conjI allI impI)
    (simp_all add: demo_uredis_def d_view_cmds, auto simp: d_view_def us_pop_def length_remdups_card_conv fun_eq_iff)

subsection \<open>The node and the operator\<close>

lemma log_exists: "distinct (entry_ids es) \<Longrightarrow> \<exists>ks. log_ok cd ks es"
proof (induction es rule: rev_induct)
  case Nil
  show ?case using log_ok_empty by blast
next
  case (snoc e es)
  obtain p x y where e: "e = (p, x, y)" by (cases e)
  from snoc e obtain ks where ks: "log_ok cd ks es" and new: "item_Id x \<notin> set (entry_ids es)" by auto
  then have "ks_hash ks RdbMsgIndex (item_Id x) = None"
    using indexed_ids [of es "item_Id x"] unfolding log_ok_def by (metis option.exhaust)
  from log_ok_commit [OF ks this] e show ?case by blast
qed

definition demo_ck :: "(dks, keyspace \<times> nat list, bundle_item list list) ck_cfg" where
  "demo_ck =
     \<lparr>kc_up = demo_uredis, kc_redis = demo_up, kc_codec = demo_codec, kc_binary = (\<lambda>i. Some (item_Data i)),
      kc_op_upload = (\<lambda>bs items. (bs @ [map fst items], Inr (''b'' @ show_nat (length bs)))),
      kc_op_check = (\<lambda>bs _. (bs, Inr True)),
      kc_op_download = (\<lambda>bs _. (bs, Inl [])), kc_graphql = (\<lambda>bs _. (bs, Inl []))\<rparr>"

lemma demo_coop: "coop demo_ck id"
  by (simp add: coop_def demo_ck_def)

definition demo_entries :: "string list \<Rightarrow> entry list" where
  "demo_entries ids = map (\<lambda>i. (''p'', demo_item i, demo_item ''a'')) ids"

lemma demo_entry_ids [simp]: "entry_ids (demo_entries ids) = ids"
  by (induction ids) (simp_all add: demo_entries_def demo_item_def)

lemma demo_node_ok: "length ids < 2 ^ 63 \<Longrightarrow> node_ok demo_ck fst (demo_entries ids)"
  using demo_up_ok demo_codec_ok by (auto simp: node_ok_def demo_ck_def demo_entries_def)

definition demo_queue :: "string list \<Rightarrow> string list \<Rightarrow> string \<Rightarrow> dks" where
  "demo_queue pending uploading bundled =
     \<lparr>d_str = (\<lambda>k. if k = RdbCurrentBundledIn \<and> bundled \<noteq> [] then Some (bundled, True) else None),
      d_list = (\<lambda>k. if k = RdbPendingTxIds then pending else []),
      d_set = (\<lambda>k. if k = RdbUploadingTxIds then uploading else [])\<rparr>"

lemma demo_queue_uq [simp]:
  "uq_of (d_view (demo_queue pending uploading bundled)) =
     \<lparr>q_pending = pending, q_uploading = set uploading, q_done = {}, q_bundled = bundled\<rparr>"
  by (simp add: uq_of_def d_view_def demo_queue_def)

lemma demo_state:
  assumes "distinct ids"
  shows "\<exists>nd :: keyspace \<times> nat list. log_ok (kc_codec demo_ck) (fst nd) (demo_entries ids)"
  using log_exists [of "demo_entries ids" demo_codec] assms by (auto simp: demo_ck_def)

lemma demo_ck_up [simp]: "kc_up demo_ck = demo_uredis"
  by (simp add: demo_ck_def)

definition demo_ck_st :: "dks \<Rightarrow> keyspace \<times> nat list \<Rightarrow> (dks, keyspace \<times> nat list, bundle_item list list) ck_state" where
  "demo_ck_st u nd = \<lparr>ck_up = u, ck_node = nd, ck_op = []\<rparr>"

lemma demo_ck_st_fields [simp]:
  "ck_up (demo_ck_st u nd) = u" "ck_node (demo_ck_st u nd) = nd" "ck_op (demo_ck_st u nd) = []"
  by (simp_all add: demo_ck_st_def)

subsection \<open>The properties there\<close>

theorem uploading_bounded_witness:
  "int (card (q_uploading (ck_q d_view (foldl (ck_step demo_ck)
     (demo_ck_st (demo_queue [''x''] [''y''] []) (empty_keyspace, [])) [EvCheck, EvCheck])))) \<le> 100000"
  using uploading_bounded [of demo_ck d_view
      "(demo_ck_st (demo_queue [''x''] [''y''] []) (empty_keyspace, []))" "[EvCheck, EvCheck]"]
    uredis_up_ok [OF demo_uredis_up] by simp

definition many_ids :: "string list" where "many_ids = map (\<lambda>k. show_int (int k)) [0..<100000]"

lemma many_ids: "distinct many_ids" "length many_ids = 100000"
  by (simp_all add: many_ids_def distinct_map inj_on_def show_int_inj)

theorem upload_queue_stalls_witness:
  "\<exists>nd. \<forall>n. q_pending (ck_q d_view ((check demo_ck ^^ (n + 2))
      (demo_ck_st (demo_queue (many_ids @ many_ids @ [''x'']) [] []) nd))) = [''x'']"
proof -
  obtain nd :: "keyspace \<times> nat list" where nd: "log_ok (kc_codec demo_ck) (fst nd) (demo_entries many_ids)"
    using demo_state [OF many_ids(1)] by blast
  let ?st = "(demo_ck_st (demo_queue (many_ids @ many_ids @ [''x'']) [] []) nd)"
  have "q_pending (ck_q d_view ((check demo_ck ^^ (n + 2)) ?st)) = [''x''] \<and>
      ck_op ((check demo_ck ^^ (n + 2)) ?st) = ck_op (check demo_ck (check demo_ck ?st))" for n
    by (rule upload_queue_stalls [OF _ demo_coop demo_node_ok, of d_view many_ids ?st many_ids "[''x'']" "{}"])
      (use nd demo_uredis_up many_ids in auto)
  then show ?thesis by blast
qed

theorem unsent_declared_uploaded_witness:
  "\<exists>nd. let st' = check demo_ck (check demo_ck (demo_ck_st (demo_queue [''x'', ''y''] [] []) nd)) in
     ''x'' \<in> q_done (ck_q d_view st') \<and> \<not> on_chain (ck_op st') ''x''"
proof -
  obtain nd :: "keyspace \<times> nat list" where nd: "log_ok (kc_codec demo_ck) (fst nd) (demo_entries [''y''])"
    using demo_state [of "[''y'']"] by auto
  let ?st = "(demo_ck_st (demo_queue [''x'', ''y''] [] []) nd)"
  have "''x'' \<in> q_done (ck_q d_view (check demo_ck (check demo_ck ?st))) \<and>
      \<not> on_chain (id (ck_op (check demo_ck (check demo_ck ?st)))) ''x''"
    by (rule unsent_declared_uploaded [OF _ demo_coop demo_node_ok, of d_view "[''y'']" ?st "''x''" "''y''" "{}"])
      (use nd demo_uredis_up in \<open>simp_all add: log_items_def demo_entries_def demo_item_def\<close>)
  then show ?thesis by (intro exI [of _ nd]) simp
qed

theorem uploaded_only_confirmed_witness:
  "snd (kc_op_check demo_ck [] ''b'') = Inr True \<and>
   q_done (ck_q d_view (ck_step demo_ck (demo_ck_st (demo_queue [] [''y''] ''b'') (empty_keyspace, [])) EvCheck)) = {''y''}"
proof -
  let ?st = "(demo_ck_st (demo_queue [] [''y''] ''b'') (empty_keyspace, []))"
  have "case ask demo_ck [] ''b'' of (opst, ok) \<Rightarrow> (case uq_confirm ok (ck_q d_view ?st) of
       None \<Rightarrow> ck_q d_view (check demo_ck ?st) = ck_q d_view ?st \<and> ck_node (check demo_ck ?st) = ck_node ?st \<and>
         ck_op (check demo_ck ?st) = opst
     | Some q1 \<Rightarrow> \<exists>fs x. distinct fs \<and> set fs = q_uploading (uq_move q1) - q_done (uq_move q1) \<and>
         bundle_step demo_ck (ck_node ?st) opst fs = (ck_node (check demo_ck ?st), ck_op (check demo_ck ?st), x) \<and>
         ck_q d_view (check demo_ck ?st) = uq_sent x (uq_move q1))"
    using check_up [of demo_ck d_view ?st] demo_uredis_up by simp
  then have d: "q_done (ck_q d_view (check demo_ck ?st)) = {''y''}"
    by (auto simp: ask_def demo_ck_def uq_confirm_def ended_def uq_move_def uq_sent_def split: option.splits)
  have "q_done (ck_q d_view (ck_step demo_ck ?st EvCheck)) \<noteq> q_done (ck_q d_view ?st)" using d by simp
  with uploaded_only_confirmed [of demo_ck d_view ?st EvCheck] uredis_up_ok [OF demo_uredis_up]
  show ?thesis by simp
qed

end
