(* ===== verification/BackupDemo.thy ===== *)
theory BackupDemo
  imports OptGoar UploadDemo
begin

text \<open>The backup at a node with one process of two messages, whose scan has one page.\<close>

definition page_scan :: "(keyspace \<times> nat list) scanner" where
  "page_scan = (\<lambda>s _ _ _. (s, Inr ([RdbProcessNoncePrefix @ ''p''], 0)))"

lemma page_scan_ok:
  assumes "log_ok cd ks (demo_entries ids)"
  shows "scan_ok page_scan fst ks RdbProcessNoncePrefix" "scan_up page_scan fst ks RdbProcessNoncePrefix"
proof -
  have "k = RdbProcessNoncePrefix @ ''p''" if k: "HasPrefix k RdbProcessNoncePrefix" "ks_str ks k \<noteq> None" for k
  proof -
    obtain q where q: "k = RdbProcessNoncePrefix @ q" using HasPrefix_split [OF k(1)] by blast
    with k(2) assms have "items_of (demo_entries ids) q \<noteq> []" unfolding log_ok_def by metis
    then have "q = ''p''" by (auto simp: items_of_def demo_entries_def filter_empty_conv)
    with q show ?thesis by simp
  qed
  moreover have "scan_law page_scan fst ks RdbProcessNoncePrefix (\<lambda>c. {RdbProcessNoncePrefix @ ''p''}) (\<lambda>_. 0)"
    by (simp add: scan_law_def page_scan_def)
  ultimately show "scan_ok page_scan fst ks RdbProcessNoncePrefix"
    unfolding scan_ok_def by (intro exI [of _ "\<lambda>c. {RdbProcessNoncePrefix @ ''p''}"]) auto
  show "scan_up page_scan fst ks RdbProcessNoncePrefix" by (simp add: scan_up_def page_scan_def)
qed

lemma page_scan_once: "GetAllProcess rd page_scan s = Some (r, Inr ps) \<Longrightarrow> distinct (map fst ps)"
  by (auto simp: GetAllProcess_def scan_loop.simps page_scan_def split: prod.splits reply.splits option.splits)

text \<open>A chain that keeps the bundles it is sent, each of which has its second confirmation only when its status
  is asked for the second time.\<close>

definition pack :: "bundle_item list \<Rightarrow> string" where
  "pack items = concat (map enc_str (map (enc_item demo_codec) items))"

definition read_items :: "string \<Rightarrow> bundle_item list" where
  "read_items b = (case dec_strs (length b) b of None \<Rightarrow> [] | Some xs \<Rightarrow> map (\<lambda>x. the (dec_item demo_codec x)) xs)"

lemma read_pack: "read_items (pack items) = items"
proof -
  have "map (\<lambda>x. the (dec_item demo_codec x)) (map (enc_item demo_codec) items) = items"
    using demo_codec_ok by (simp add: codec_ok_def comp_def)
  then show ?thesis
    using dec_strs_enc [OF length_concat_enc, of "map (enc_item demo_codec) items"] by (simp add: read_items_def pack_def)
qed

type_synonym slow_chain = "(string \<times> bundle_item list) list \<times> bool"

definition demo_goar :: "slow_chain goar" where
  "demo_goar =
     \<lparr>ga_GenerateItemBinary = (\<lambda>_. Inl ''not here''),
      ga_NewBundle = (\<lambda>items. Inr (pack (map fst items))),
      ga_SendBundleTx = (\<lambda>(bs, w) b _. let tx = ''b'' @ show_nat (length bs) in ((bs @ [(tx, read_items b)], False), Inr tx)),
      ga_GetBundleItems = (\<lambda>s _ _. (s, Inl [])), ga_GraphQL = (\<lambda>s _. (s, Inl [])),
      ga_GetTransactionStatus = (\<lambda>(bs, w) _. ((bs, True), Inr (if w then 12 else 0))),
      ga_GetTransactionData = (\<lambda>s _ _. (s, Inr [])),
      ga_DecodeBundle = (\<lambda>_. None), ga_BundledInResponse = Inl\<rparr>"

lemma demo_goar_chain: "goar_chain demo_goar L read_items fst snd"
  by (auto simp: goar_chain_def demo_goar_def read_pack Let_def split: prod.splits)

definition demo_backup :: "(dks, keyspace \<times> nat list, slow_chain) ck_cfg" where
  "demo_backup = with_goar demo_goar
     \<lparr>kc_up = demo_uredis, kc_redis = demo_up, kc_codec = demo_codec, kc_binary = (\<lambda>i. Some (CHR ''i'' # enc_item demo_codec i)),
      kc_op_upload = (\<lambda>s _. (s, Inl [])), kc_op_check = (\<lambda>s _. (s, Inl [])),
      kc_op_download = (\<lambda>s _. (s, Inl [])), kc_graphql = (\<lambda>s _. (s, Inl []))\<rparr>"

lemma demo_backup_fields [simp]:
  "kc_up demo_backup = demo_uredis" "kc_redis demo_backup = demo_up" "kc_codec demo_backup = demo_codec"
  "kc_op_upload demo_backup = OptGoar_Upload demo_goar" "kc_op_check demo_backup = CheckTransaction demo_goar"
  "with_goar demo_goar demo_backup = demo_backup"
  by (simp_all add: demo_backup_def with_goar_def)

definition demo_backup_st :: "keyspace \<times> nat list \<Rightarrow> (dks, keyspace \<times> nat list, slow_chain) ck_state" where
  "demo_backup_st nd = \<lparr>ck_up = demo_queue [] [] [], ck_node = nd, ck_op = ([], True)\<rparr>"

text \<open>Of two checks in a row at least one finds the chain working.\<close>

definition not_lost :: "(dks, keyspace \<times> nat list, slow_chain) ck_state \<Rightarrow> bool" where
  "not_lost st \<longleftrightarrow> snd (ck_op st) \<or> q_bundled (ck_q d_view st) \<noteq> []"

lemma demo_bundle_step:
  assumes "bundle_step demo_backup r (bs, True) fs = (r', s', x)"
  shows "snd s' \<or> (\<exists>b. x = Some b \<and> b \<noteq> [])"
  using assms
  by (auto simp: bundle_step_def OptGoar_Upload_def demo_goar_def Let_def split: if_splits prod.splits sum.splits)

lemma demo_check:
  assumes "not_lost st"
  shows "not_lost (check demo_backup st)" "snd (ck_op st) \<or> snd (ck_op (check demo_backup st))"
proof -
  obtain bs w where s: "ck_op st = (bs, w)" by fastforce
  define q where "q = ck_q d_view st"
  have "uredis_up (kc_up demo_backup) d_view" by (simp add: demo_uredis_up)
  note C = check_up [OF this, of st, folded q_def]
  have "not_lost (check demo_backup st) \<and> (snd (ck_op st) \<or> snd (ck_op (check demo_backup st)))"
  proof (cases w)
    case True
    then have "ask demo_backup (ck_op st) (q_bundled q) = ((bs, True), True)"
      by (simp add: ask_def s CheckTransaction_def demo_goar_def)
    with C obtain fs x q1 where
      "bundle_step demo_backup (ck_node st) (bs, True) fs = (ck_node (check demo_backup st), ck_op (check demo_backup st), x)"
      "ck_q d_view (check demo_backup st) = uq_sent x q1"
      by (auto simp: uq_confirm_def split: if_splits)
    with demo_bundle_step [OF this(1)] show ?thesis using True s by (auto simp: not_lost_def uq_sent_def)
  next
    case False
    then have "q_bundled q \<noteq> []" using assms s by (simp add: not_lost_def q_def)
    moreover from this False have "ask demo_backup (ck_op st) (q_bundled q) = ((bs, True), False)"
      by (simp add: ask_def s CheckTransaction_def demo_goar_def)
    ultimately show ?thesis using C by (simp add: uq_confirm_def not_lost_def)
  qed
  then show "not_lost (check demo_backup st)" "snd (ck_op st) \<or> snd (ck_op (check demo_backup st))" by blast+
qed

theorem backup_reaches_chain_witness:
  "\<exists>nd st1. backup_all demo_backup page_scan (demo_backup_st nd) = Some (st1, None) \<and>
     (let st' = (check demo_backup ^^ 3) st1 in
        q_pending (ck_q d_view st') = [] \<and> q_done (ck_q d_view st') = {''x'', ''y''} \<and>
        on_chain (bundles fst (ck_op st')) ''x'' \<and> on_chain (bundles fst (ck_op st')) ''y'')"
proof -
  let ?es = "demo_entries [''x'', ''y'']" and ?L = "log_items (demo_entries [''x'', ''y''])"
  obtain nd :: "keyspace \<times> nat list" where nd: "log_ok demo_codec (fst nd) ?es"
    using demo_state [of "[''x'', ''y'']"] by (auto simp: demo_ck_def)
  have node: "node_ok demo_backup fst ?es"
    using demo_up_ok demo_codec_ok by (auto simp: node_ok_def demo_entries_def)
  have enc: "encodable demo_backup ?L" by (simp add: encodable_def demo_backup_def)
  have q: "ck_q d_view (demo_backup_st nd) = \<lparr>q_pending = [], q_uploading = {}, q_done = {}, q_bundled = []\<rparr>"
    by (simp add: demo_backup_st_def)
  have len: "length ?es \<le> 1 * 100000" by (simp add: demo_entries_def)
  have up: "uredis_up (kc_up demo_backup) d_view" by (simp add: demo_uredis_up)
  have log: "log_ok (kc_codec demo_backup) (fst (ck_node (demo_backup_st nd))) ?es"
    and sc: "scan_ok page_scan fst (fst (ck_node (demo_backup_st nd))) RdbProcessNoncePrefix"
      "scan_up page_scan fst (fst (ck_node (demo_backup_st nd))) RdbProcessNoncePrefix"
    using nd page_scan_ok [OF nd] by (simp_all add: demo_backup_st_def)
  have ids: "distinct (entry_ids ?es)" "[] \<notin> set (entry_ids ?es)" by simp_all
  have once: "\<forall>r ps. GetAllProcess (kc_redis demo_backup) page_scan (ck_node (demo_backup_st nd)) = Some (r, Inr ps) \<longrightarrow> distinct (map fst ps)"
    using page_scan_once by blast
  from backup_reaches_chain [OF up demo_goar_chain enc node log ids sc once q len] obtain st1 where
    b: "backup_all demo_backup page_scan (demo_backup_st nd) = Some (st1, None)"
    and s: "ck_op st1 = ([], True)" "q_bundled (ck_q d_view st1) = []"
    and fin: "\<And>N. Suc 1 \<le> working_checks demo_backup snd st1 N \<Longrightarrow> let st' = (check demo_backup ^^ N) st1 in
         q_pending (ck_q d_view st') = [] \<and> q_uploading (ck_q d_view st') = {} \<and> q_done (ck_q d_view st') = {} \<union> set (entry_ids ?es) \<and>
         (\<forall>t \<in> set (entry_ids ?es) - {}. on_chain (bundles fst (ck_op st')) t)"
    by (auto simp: demo_backup_st_def)
  let ?s1 = "check demo_backup st1"
  have "not_lost st1" using s by (simp add: not_lost_def)
  then have "snd (ck_op st1)" "snd (ck_op ?s1) \<or> snd (ck_op (check demo_backup ?s1))"
    using s demo_check by (auto simp: not_lost_def)
  then have "Suc 1 \<le> working_checks demo_backup snd st1 3"
    by (auto simp: working_checks_def numeral_3_eq_3)
  from fin [OF this] b show ?thesis by (intro exI [of _ nd] exI [of _ st1]) (simp add: Let_def)
qed

end
