(* ===== verification/Spec2Isabelle.thy ===== *)
theory Spec2Isabelle
  imports TokenVm RegistryVm PayService VmmProps VmmLife VmInstance NodeProps ModuleLoad RecoveryDemo WebDemo ForkLive OutboxDemo ResultDemo JoinDemo BackupDemo
begin

text \<open>
  hymx runs processes: a process is a machine that is created by a signed item, gets every further signed
  item addressed to it under the next number of its own order, and may answer with results and with
  messages to other processes. This library models the node that does this, from the HTTP route on which an
  item arrives to the Redis log, the machine, the outbox, the upload to the chain, the recovery after a
  restart and the client that talks to it, and proves what the parts guarantee alone and together.

  \<^bold>\<open>How the parts interact.\<close> A client (\<open>sdk/\<close>) signs an item and posts it to the server
  (\<open>server/\<close>), which hands it to \<open>Handle\<close> of the node (\<open>node/handle.go\<close>). The node checks form and origin
  and queues the item; the message loop (\<open>node/channel.go\<close>) signs an assignment with the next nonce of the
  process, commits both to Redis (\<open>db/rdb\<close>) and applies the item to the machine of the process
  (\<open>vmm/\<close>). Two machines are part of the program: the core token (\<open>vmm/core/token\<close>), which holds balances
  and stakes, and the core registry (\<open>vmm/core/registry\<close>), which knows the nodes and what they serve. A
  result goes to the result loop, which stores it with its cache, and what a machine sends goes to the
  outbox (\<open>node/outbox.go\<close>), which brings it to the node of its target. Assigned items are uploaded to
  the chain (\<open>chainkit/\<close>). A restarted node rebuilds its machines from checkpoints and the log
  (\<open>node/recovery.go\<close>); a node that follows another one forks its processes (\<open>node/fork.go\<close>). The payment
  service (\<open>pay/\<close>) charges items and credits deposits as a handler of items and of results.

  \<^bold>\<open>Conventions.\<close> A Go struct is a \<open>record\<close>, an enumeration or an \<open>interface{}\<close> that is switched on is a
  \<open>datatype\<close>, \<open>int64\<close> is \<open>64 word\<close> with its wrap-around, \<open>big.Int\<close> is \<open>int\<close>, a string is a list of
  characters, a map is a list of entries with distinct keys (\<open>gomap\<close>, iterated in any order that the list
  has), a pointer into a shared structure is a position in a store. An error is \<open>Inl\<close> or an optional
  error beside the value where Go returns both; a panic that the code can reach is the error \<open>nil_panic\<close>,
  \<open>NilDereference\<close> or a flag. An operation under a mutex is one step. Where the interleaving decides the
  behaviour (instances, outbox, charges, fork), the steps between the locks are separate definitions and the
  theorems quantify over their orders. A log line is left out.

  \<^bold>\<open>Code outside of the repository\<close> is a parameter: goar and go-ethereum (\<open>extlib\<close>), the curve and its
  texts (\<open>ecc_lib\<close>), net/url, mime and the network (\<open>sdk_cfg\<close>), Redis (\<open>redis\<close>, \<open>uredis\<close>, the
  scanner), files (\<open>files\<close>), JSON texts (\<open>db_codec\<close>, \<open>api_dec\<close>, encoders), signing and the clock, and
  the goar library (\<open>goar\<close>). What a property needs of them is a named hypothesis that states documented
  behaviour: \<open>redis_ok\<close> and \<open>uredis_ok\<close> (each call does what Redis documents or fails, and takes effect at
  most once: a client that repeats a call after a lost reply, as \<open>MaxRetries\<close> allows, is not covered; \<open>redis_up\<close>
  and \<open>uredis_up\<close> exclude failures), \<open>scan_ok\<close> and \<open>scan_up\<close> (the guarantee of \<open>SCAN\<close>: it ends, a key that is
  there throughout is returned at least once), \<open>files_ok\<close> (a file holds what was written last),
  \<open>ckp_params\<close> and \<open>codecs_fit\<close> (JSON texts decode to what was encoded, an own signature verifies),
  \<open>snap_texts\<close> (a snapshot is read back but for the two fields excluded from JSON), \<open>goar_chain\<close> (a bundle that
  is sent while the chain works is taken, a refused one changes nothing or gets through),
  \<open>ecc_ok\<close> (decryption inverts encryption), \<open>plain_base\<close> and \<open>binaries_fit\<close> (URLs are joined, binaries
  decode). Each is shown to hold for a concrete instance by the witnesses of the properties that use it.
\<close>

subsection \<open>Which theory models which part\<close>

text \<open>
  \<^item> \<open>Prelude\<close>, \<open>GoStd\<close>: Go maps and the parts of the standard library the source uses; the lemmas and
    collections (\<open>inv_intros\<close>) that the other theories share.
  \<^item> \<open>Schema\<close>, \<open>Tags\<close>: the structs of \<open>schema/schema.go\<close> and the codec of \<open>utils/tags.go\<close> and
    \<open>utils/item.go\<close>. Lemmas: round trips, precedence of merged tags, parameters of decoded messages.
  \<^item> \<open>VmSchema\<close>, \<open>NodeSchema\<close>: the types of \<open>vmm/schema\<close>, \<open>node/schema\<close> and \<open>vmm/core/registry\<close> shared by
    several parts.
  \<^item> \<open>TokenDb\<close> (\<open>db/cache/token.go\<close>), \<open>TokenVm\<close> (\<open>vmm/core/token\<close>): the store and the machine of the token.
    The locales \<open>account_book\<close> and \<open>token_books\<close> state the contract of the two books and are interpreted on
    the store; the supply is conserved, only the sender pays, an error changes nothing.
  \<^item> \<open>RegistryDb\<close> (\<open>db/cache/registry.go\<close>), \<open>RegistryVm\<close> (\<open>vmm/core/registry\<close>): nodes are shared by pointer,
    so they live in a store. The locale \<open>two_way_index\<close> is the contract of the two maps between nodes and
    processes; the moves \<open>reg_move\<close> say who may change what, and a restored registry is indistinguishable.
  \<^item> \<open>PayDb\<close>, \<open>PaySettle\<close> (\<open>db/cache/pay.go\<close>), \<open>PayService\<close> (\<open>pay/\<close>): deposits, reserved amounts, settlement,
    fees and credit notices. The locale \<open>holding\<close> states what a charge does to the two totals.
  \<^item> \<open>VmmApply\<close>, \<open>Vmm\<close>, \<open>VmmManage\<close>, \<open>VmmLife\<close>, \<open>VmmProps\<close> (\<open>vmm/\<close>): the admission of a message by nonce and
    sequence, the numbering of what a machine sends, and the manager of all machines (spawn, kill, restore,
    lock, close) over a store of machine objects. The locale \<open>vm_machine\<close> is the contract of a
    checkpoint; both core machines are interpretations of it. Histories of the manager are
    \<open>vmm_run\<close>, with the invariant \<open>vmm_wf\<close>.
  \<^item> \<open>VmInstance\<close> (\<open>vmm/instance.go\<close>): submitters, the loop and the stopper of an instance as interleaved
    atomic steps over the bounded channel.
  \<^item> \<open>Redis\<close>, \<open>Rdb\<close>, \<open>Assignment\<close> (\<open>db/rdb\<close>, \<open>node/assignment.go\<close>): the Redis interface, the node's database
    and the order of a process. \<open>log_ok\<close> says that the database holds a history of entries.
  \<^item> \<open>NodeHandle\<close>, \<open>NodeProps\<close> (\<open>node/handle.go\<close>, \<open>message.go\<close>, \<open>spawn.go\<close>, \<open>channel.go\<close>, \<open>vm.go\<close>): which items are
    accepted, and the two loops.
  \<^item> \<open>ModuleJson\<close>, \<open>ModuleLoad\<close> (\<open>node/spawn.go\<close>): the reader of a module file and its path.
  \<^item> \<open>Recovery\<close>, \<open>RecoveryProps\<close> (\<open>node/checkpoint.go\<close>, \<open>recovery.go\<close>, \<open>handle.go\<close>): checkpoints and the recovery
    of one process; \<open>core_history\<close> relates a log and a checkpoint to the machine they lead to.
  \<^item> \<open>NodeLife\<close>, \<open>NodeRestart\<close>, \<open>ResultProps\<close>, \<open>JoinProps\<close> (\<open>db/rdb/get.go\<close>, \<open>node/recovery.go\<close>, \<open>replay.go\<close>,
    \<open>channel.go\<close>, \<open>node.go\<close>, \<open>join.go\<close>, \<open>pay/pay.go\<close>, \<open>server/server.go\<close>): the scan of all processes, the recovery
    of a whole node, the result loop and its handlers, joining and leaving, shutdown, and the payment
    ledger across a restart.
  \<^item> \<open>UploadDb\<close>, \<open>Upload\<close>, \<open>UploadLive\<close>, \<open>Backup\<close>, \<open>ChainDownload\<close>, \<open>OptGoar\<close> (\<open>db/rdb/chainkit.go\<close>, \<open>chainkit/\<close>,
    \<open>chainkit/optgoar\<close>): the queue of uploads, the upload job, the backup of all processes, the reading of a
    history from the chain, and the operator of the chain over the goar library.
  \<^item> \<open>Outbox\<close>, \<open>OutboxProps\<close>, \<open>OutboxFaults\<close> (\<open>node/outbox.go\<close>): the threads that deliver what machines send.
  \<^item> \<open>Cryptor\<close>, \<open>SdkClient\<close>, \<open>Sdk\<close>, \<open>SdkProps\<close> (\<open>cryptor/\<close>, \<open>sdk/\<close>): the client over an arbitrary network.
  \<^item> \<open>WebApi\<close>, \<open>WebProps\<close> (\<open>server/\<close>): every handler and route over the state of the node, composed with the
    client.
  \<^item> \<open>Fork\<close>, \<open>ForkLive\<close> (\<open>node/fork.go\<close>): following a process of another node.
  \<^item> \<open>RecoveryDemo\<close>, \<open>NodeLifeDemo\<close>, \<open>ResultDemo\<close>, \<open>JoinDemo\<close>, \<open>UploadDemo\<close>, \<open>BackupDemo\<close>, \<open>OutboxDemo\<close>, \<open>WebDemo\<close>: concrete parameters
    that meet the hypotheses, and the properties applied to them.
\<close>

subsection \<open>What the properties show\<close>

text \<open>
  A property is a theorem whose text opens with its number \<open>C\<close>\<open>n\<close>. By kind:
  \<^item> \<^emph>\<open>Money\<close>: the supply of the token is conserved through every sequence of messages, and only a sender pays;
    the books of the payment store balance in every interleaving, what is pending is covered by deposits as
    long as the charges of a beneficiary do not race, and a settlement that the deposits cover divides exactly
    what was pending; the balances served from the cache are those of the token; the ledger survives a restart without double credits.
  \<^item> \<^emph>\<open>Order and identity\<close>: assignments have consecutive nonces and the log holds them in this order; the nonces
    a machine applies have no gap; an accepted item is authentic; no item passes a client or a fork
    that is not signed.
  \<^item> \<^emph>\<open>Persistence\<close>: the scan finds every process, the recovery of a core process gives the machine the node
    had (\<open>saved_env\<close>: without the fields no snapshot keeps), and the recovery of a node with core processes
    and well-formed messages does so for all of them and leaves no lock.
  \<^item> \<^emph>\<open>Composition\<close>: a client reads what the node holds, a fork reproduces the machine of the forked node, a
    joining node ends up in the registry, encrypted parameters reach the machine, what leaves the outbox was
    delivered in order, a backup from an empty queue brings the whole log to the chain over outages.
  \<^item> \<^emph>\<open>Faults\<close>: where the code does not do what it means to, the behaviour it has is proved (a torn commit locks
    a process for good, a duplicate of the scan rolls a process back, two charges overdraw, two
    threads of the outbox lose a message, a duplicate blocks the outbox, a node without a description
    cannot join).
\<close>

subsection \<open>Bounds, fuel and limits\<close>

text \<open>
  Loops are structural recursion over the data they consume, with these exceptions. The loop of a recovery
  (\<open>rec_loop\<close>) and of the scan (\<open>scan_loop\<close>) are partial functions whose value \<open>None\<close> means that they do not
  return; their properties prove a value. A loop of the program that runs until the node closes (messages,
  results, fork, instance, upload job) is a turn, and the properties hold for all sequences of turns. The
  threads of the outbox take steps; the number of rounds a delivery waits for an assignment is a list
  of events, and \<open>trysend_drains\<close> names the steps that empty a queue. The tasks that \<open>runRecovery\<close> gives to a pool
  run one after the other in the order of the scan, in the program they interleave; they work on different
  processes and on the maps of the manager, which are locked. Lengths of logs are below \<open>2 ^ 63\<close>
  where a nonce is compared, as a signed 64-bit word.

  Not modelled: the schedulers that start the jobs of \<open>pay/jobs.go\<close> and \<open>chainkit/job.go\<close> (times only),
  the start and stop of the HTTP servers and the redirect of the router for unclean paths (library code),
  the order in which \<open>Run\<close> starts the goroutines of the node, \<open>SpawnAndWait\<close> timers beyond their number of
  tries, logging and middleware in \<open>common/\<close>, the command line in \<open>cmd/\<close>, and the programs in \<open>examples/\<close>. They hold no state
  of the parts above.
\<close>

end
